(* ===== verification/Go_Prelude.thy ===== *)
theory Go_Prelude
  imports
    "HOL-Library.Word"
    "HOL-Library.Sublist"
    "HOL-Library.Multiset"
    "HOL-Library.AList"
    "HOL-Library.Char_ord"
    "HOL-Library.List_Lexorder"
begin

text \<open>
  Shared ground of the development: the part of the Go language and of its standard library
  that every component uses.

  Go strings are byte sequences, modelled as \<^typ>\<open>string\<close> (a list of characters, one per byte).
  The functions of package \<open>strings\<close> are given for single-byte separators and for ASCII case and
  white space, which is all the callers need: host names, header names, addresses and URL paths.
  Go integers that cannot overflow in the code at hand are \<^typ>\<open>nat\<close> or \<^typ>\<open>int\<close>; wire bytes are
  \<open>8 word\<close>. A Go map that is iterated over is an association list, one that is only looked up is
  a partial function. \<open>sort.SliceStable\<close> is a stable insertion sort by the caller's comparison.

  The collections \<open>go_str\<close> (definitions of string operations, for evaluation) and \<open>go_eval\<close>
  (the definitions a component unfolds to run on a closed input) carry the evaluation proofs.
\<close>

named_theorems go_str \<open>definitions of the Go string operations\<close>
named_theorems go_eval \<open>definitions unfolded to evaluate the model on closed inputs\<close>

unbundle bit_operations_syntax

type_synonym byte = "8 word"

section \<open>Characters and strings\<close>

definition byte_of :: "char \<Rightarrow> nat" where
  "byte_of c = of_char c"

definition is_digit :: "char \<Rightarrow> bool" where
  "is_digit c \<longleftrightarrow> 48 \<le> byte_of c \<and> byte_of c \<le> 57"

definition digit_val :: "char \<Rightarrow> nat" where
  "digit_val c = byte_of c - 48"

definition to_lower_char :: "char \<Rightarrow> char" where
  "to_lower_char c = (if 65 \<le> byte_of c \<and> byte_of c \<le> 90 then char_of (byte_of c + 32) else c)"

definition to_upper_char :: "char \<Rightarrow> char" where
  "to_upper_char c = (if 97 \<le> byte_of c \<and> byte_of c \<le> 122 then char_of (byte_of c - 32) else c)"

definition ToLower :: "string \<Rightarrow> string" where
  "ToLower s = map to_lower_char s"

definition ToUpper :: "string \<Rightarrow> string" where
  "ToUpper s = map to_upper_char s"

definition is_space :: "char \<Rightarrow> bool" where
  "is_space c \<longleftrightarrow> byte_of c = 32 \<or> (9 \<le> byte_of c \<and> byte_of c \<le> 13)"

definition trim_left :: "(char \<Rightarrow> bool) \<Rightarrow> string \<Rightarrow> string" where
  "trim_left P s = dropWhile P s"

definition trim_right :: "(char \<Rightarrow> bool) \<Rightarrow> string \<Rightarrow> string" where
  "trim_right P s = rev (dropWhile P (rev s))"

definition TrimSpace :: "string \<Rightarrow> string" where
  "TrimSpace s = trim_right is_space (trim_left is_space s)"

definition TrimSuffix :: "string \<Rightarrow> string \<Rightarrow> string" where
  "TrimSuffix s suf = (if suffix suf s then take (length s - length suf) s else s)"

definition contains_any :: "string \<Rightarrow> string \<Rightarrow> bool" where
  "contains_any s cs \<longleftrightarrow> list_ex (\<lambda>c. c \<in> set cs) s"

fun split_on :: "char \<Rightarrow> string \<Rightarrow> string list" where
  "split_on c [] = [[]]"
| "split_on c (x # xs) =
     (if x = c then [] # split_on c xs
      else (case split_on c xs of [] \<Rightarrow> [[x]] | y # ys \<Rightarrow> (x # y) # ys))"

fun join_with :: "string \<Rightarrow> string list \<Rightarrow> string" where
  "join_with sep [] = []"
| "join_with sep [x] = x"
| "join_with sep (x # y # ys) = x @ sep @ join_with sep (y # ys)"

text \<open>\<open>before c s\<close> and \<open>after c s\<close> are the two sides of \<open>s\<close> at its first \<open>c\<close>, what the code gets
  from \<open>strings.IndexByte\<close> and two slice expressions.\<close>

definition before :: "char \<Rightarrow> string \<Rightarrow> string" where
  "before c s = takeWhile (\<lambda>x. x \<noteq> c) s"

definition after :: "char \<Rightarrow> string \<Rightarrow> string" where
  "after c s = tl (dropWhile (\<lambda>x. x \<noteq> c) s)"

lemmas [go_str, go_eval] =
  is_digit_def digit_val_def to_lower_char_def to_upper_char_def ToLower_def ToUpper_def is_space_def
  trim_left_def trim_right_def TrimSpace_def TrimSuffix_def contains_any_def before_def after_def
  byte_of_def

lemma byte_of_less: "byte_of c < 256"
  by (simp add: byte_of_def)

lemma byte_of_eq: "c = d \<longleftrightarrow> byte_of c = byte_of d"
  by (simp add: byte_of_def)

lemma byte_of_char_of [simp]: "n < 256 \<Longrightarrow> byte_of (char_of n) = n"
  by (simp add: byte_of_def)

lemma split_on_nonempty [simp]: "split_on c s \<noteq> []"
  by (induction s) (auto split: list.splits)

lemma split_on_no_sep: "c \<notin> set s \<Longrightarrow> split_on c s = [s]"
  by (induction s) auto

lemma split_on_append: "c \<notin> set s \<Longrightarrow> split_on c (s @ c # t) = s # split_on c t"
  by (induction s) auto

lemma sep_notin_split_on: "p \<in> set (split_on c s) \<Longrightarrow> c \<notin> set p"
  by (induction s arbitrary: p) (auto split: list.splits if_splits)

lemma join_with_Cons: "xs \<noteq> [] \<Longrightarrow> join_with sep (x # xs) = x @ sep @ join_with sep xs"
  by (cases xs) auto

lemma join_split_on: "join_with [c] (split_on c s) = s"
proof (induction s)
  case Nil
  then show ?case by simp
next
  case (Cons x xs)
  obtain y ys where "split_on c xs = y # ys" by (meson neq_Nil_conv split_on_nonempty)
  with Cons show ?case by (cases ys) (auto simp: join_with_Cons)
qed

lemma split_on_join:
  "xs \<noteq> [] \<Longrightarrow> \<forall>x \<in> set xs. c \<notin> set x \<Longrightarrow> split_on c (join_with [c] xs) = xs"
proof (induction xs)
  case Nil
  then show ?case by simp
next
  case (Cons x xs)
  then show ?case
    by (cases "xs = []") (auto simp: join_with_Cons split_on_append split_on_no_sep)
qed

lemma before_append: "c \<notin> set s \<Longrightarrow> before c (s @ c # t) = s"
  unfolding before_def by (induction s) auto

lemma after_append: "c \<notin> set s \<Longrightarrow> after c (s @ c # t) = t"
  unfolding after_def by (induction s) auto

lemma before_no_sep [simp]: "c \<notin> set (before c s)"
  unfolding before_def by (auto dest: set_takeWhileD)

lemma before_id: "c \<notin> set s \<Longrightarrow> before c s = s"
  by (auto simp: before_def)

lemma to_lower_char_idem [simp]: "to_lower_char (to_lower_char c) = to_lower_char c"
  by (auto simp: to_lower_char_def byte_of_def)

lemma ToLower_idem [simp]: "ToLower (ToLower s) = ToLower s"
  by (simp add: ToLower_def)

lemma ToLower_append [simp]: "ToLower (s @ t) = ToLower s @ ToLower t"
  by (simp add: ToLower_def)

lemma trim_right_id: "s = [] \<or> \<not> P (last s) \<Longrightarrow> trim_right P s = s"
  by (cases s rule: rev_cases) (auto simp: trim_right_def)

lemma trim_right_last: "trim_right P s = [] \<or> \<not> P (last (trim_right P s))"
proof (cases "dropWhile P (rev s)")
  case (Cons a list)
  then have "\<not> P a" by (metis hd_dropWhile list.distinct(1) list.sel(1))
  with Cons show ?thesis by (simp add: trim_right_def)
qed (simp add: trim_right_def)

lemma trim_right_subset: "set (trim_right P s) \<subseteq> set s"
  using set_dropWhileD by (fastforce simp: trim_right_def)

lemma trim_left_subset: "set (trim_left P s) \<subseteq> set s"
  using set_dropWhileD by (fastforce simp: trim_left_def)

lemma TrimSpace_subset: "set (TrimSpace s) \<subseteq> set s"
  unfolding TrimSpace_def using trim_right_subset trim_left_subset by blast

section \<open>Decimal numbers (strconv)\<close>

fun itoa :: "nat \<Rightarrow> string" where
  "itoa n = (if n < 10 then [char_of (48 + n)] else itoa (n div 10) @ [char_of (48 + n mod 10)])"

declare itoa.simps [simp del]

definition digits_val :: "string \<Rightarrow> nat" where
  "digits_val s = foldl (\<lambda>a c. 10 * a + digit_val c) 0 s"

text \<open>A non-empty run of decimal digits.\<close>

definition all_digits :: "string \<Rightarrow> bool" where
  "all_digits s \<longleftrightarrow> s \<noteq> [] \<and> list_all is_digit s"

text \<open>\<open>strconv.Atoi\<close> on a 64-bit platform: an optional sign, digits, and no overflow.\<close>

definition Atoi :: "string \<Rightarrow> int option" where
  "Atoi s =
     (let neg = (s \<noteq> [] \<and> hd s = CHR ''-'');
          ds = (if s \<noteq> [] \<and> (hd s = CHR ''-'' \<or> hd s = CHR ''+'') then tl s else s)
      in if \<not> all_digits ds then None
         else let v = int (digits_val ds)
              in if neg then (if v \<le> 2 ^ 63 then Some (- v) else None)
                 else (if v < 2 ^ 63 then Some v else None))"

lemmas [go_eval] = digits_val_def all_digits_def Atoi_def

lemma digit_char:
  assumes "d < 10"
  shows "is_digit (char_of (48 + d))" "digit_val (char_of (48 + d)) = d"
  using assms by (simp_all add: is_digit_def digit_val_def byte_of_def)

lemma digits_val_snoc: "digits_val (s @ [c]) = 10 * digits_val s + digit_val c"
  by (simp add: digits_val_def)

lemma itoa_digits: "all_digits (itoa n)"
proof (induction n rule: itoa.induct)
  case (1 n)
  then show ?case
    using digit_char(1) [of n] digit_char(1) [of "n mod 10"]
    by (subst itoa.simps) (auto simp: all_digits_def)
qed

lemma itoa_val: "digits_val (itoa n) = n"
proof (induction n rule: itoa.induct)
  case (1 n)
  show ?case
  proof (cases "n < 10")
    case True
    then show ?thesis
      using digit_char(2) [OF True] by (subst itoa.simps) (simp add: digits_val_def)
  next
    case False
    then show ?thesis
      using 1 digit_char(2) [of "n mod 10"]
      by (subst itoa.simps) (simp add: digits_val_snoc)
  qed
qed

lemma itoa_inj: "itoa m = itoa n \<Longrightarrow> m = n"
  by (metis itoa_val)

lemma itoa_nonempty [simp]: "itoa n \<noteq> []"
  using itoa_digits [of n] by (simp add: all_digits_def)

lemma all_digits_hd: "all_digits s \<Longrightarrow> hd s \<noteq> CHR ''-'' \<and> hd s \<noteq> CHR ''+''"
  by (cases s) (auto simp: all_digits_def is_digit_def byte_of_def)

lemma Atoi_itoa: "int n < 2 ^ 63 \<Longrightarrow> Atoi (itoa n) = Some (int n)"
  using itoa_digits [of n] all_digits_hd [OF itoa_digits [of n]]
  by (auto simp: Atoi_def itoa_val)

lemma digit_notin_itoa: "\<not> is_digit c \<Longrightarrow> c \<notin> set (itoa n)"
  using itoa_digits [of n] by (auto simp: all_digits_def list_all_iff)

lemma leading_zero_itoa: "0 < n \<Longrightarrow> hd (itoa n) \<noteq> CHR ''0''"
proof (induction n rule: itoa.induct)
  case (1 n)
  show ?case
  proof (cases "n < 10")
    case True
    then have "digit_val (hd (itoa n)) = n"
      using digit_char(2) by (subst itoa.simps) simp
    with \<open>0 < n\<close> show ?thesis by (auto simp: digit_val_def byte_of_def)
  next
    case False
    with 1 have "hd (itoa (n div 10)) \<noteq> CHR ''0''" by simp
    with False show ?thesis by (subst itoa.simps) (simp add: hd_append)
  qed
qed

section \<open>Stable sorting (sort.SliceStable)\<close>

fun insert_by :: "('a \<Rightarrow> 'a \<Rightarrow> bool) \<Rightarrow> 'a \<Rightarrow> 'a list \<Rightarrow> 'a list" where
  "insert_by lt x [] = [x]"
| "insert_by lt x (y # ys) = (if lt y x then y # insert_by lt x ys else x # y # ys)"

fun sort_stable :: "('a \<Rightarrow> 'a \<Rightarrow> bool) \<Rightarrow> 'a list \<Rightarrow> 'a list" where
  "sort_stable lt [] = []"
| "sort_stable lt (x # xs) = insert_by lt x (sort_stable lt xs)"

lemma mset_insert_by [simp]: "mset (insert_by lt x xs) = {#x#} + mset xs"
  by (induction xs) auto

lemma mset_sort_stable [simp]: "mset (sort_stable lt xs) = mset xs"
  by (induction xs) auto

lemma set_sort_stable [simp]: "set (sort_stable lt xs) = set xs"
  by (metis mset_sort_stable set_mset_mset)

lemma length_sort_stable [simp]: "length (sort_stable lt xs) = length xs"
  by (metis mset_sort_stable size_mset)

text \<open>A comparison given by a key into a linear order, or by any strict weak order.\<close>

definition strict_weak :: "('a \<Rightarrow> 'a \<Rightarrow> bool) \<Rightarrow> 'a set \<Rightarrow> bool" where
  "strict_weak lt A \<longleftrightarrow>
     (\<forall>x\<in>A. \<forall>y\<in>A. lt x y \<longrightarrow> \<not> lt y x) \<and>
     (\<forall>x\<in>A. \<forall>y\<in>A. \<forall>z\<in>A. \<not> lt y x \<longrightarrow> \<not> lt z y \<longrightarrow> \<not> lt z x)"

lemma strict_weak_key:
  fixes f :: "'a \<Rightarrow> 'k::linorder"
  shows "strict_weak (\<lambda>x y. f x < f y) A" and "strict_weak (\<lambda>x y. f x > f y) A"
  by (auto simp: strict_weak_def)

lemma set_insert_by [simp]: "set (insert_by lt x xs) = insert x (set xs)"
  by (induction xs) auto

lemma strict_weakD:
  assumes "strict_weak lt A"
  shows "a \<in> A \<Longrightarrow> b \<in> A \<Longrightarrow> lt a b \<Longrightarrow> \<not> lt b a"
    and "a \<in> A \<Longrightarrow> b \<in> A \<Longrightarrow> c \<in> A \<Longrightarrow> \<not> lt b a \<Longrightarrow> \<not> lt c b \<Longrightarrow> \<not> lt c a"
  using assms unfolding strict_weak_def by meson+

lemma sorted_insert_by:
  assumes sw: "strict_weak lt A" and "insert x (set xs) \<subseteq> A"
    and "sorted_wrt (\<lambda>a b. \<not> lt b a) xs"
  shows "sorted_wrt (\<lambda>a b. \<not> lt b a) (insert_by lt x xs)"
  using assms(2,3)
proof (induction xs)
  case Nil
  then show ?case by simp
next
  case (Cons y ys)
  then have in_A: "x \<in> A" "y \<in> A" "\<And>z. z \<in> set ys \<Longrightarrow> z \<in> A" by auto
  show ?case
  proof (cases "lt y x")
    case True
    then have "\<not> lt x y" using strict_weakD(1) [OF sw in_A(2,1)] by blast
    with True Cons show ?thesis by auto
  next
    case False
    have "\<not> lt z x" if "z \<in> set ys" for z
      using Cons.prems(2) that False strict_weakD(2) [OF sw in_A(1,2) in_A(3)] by auto
    with False Cons show ?thesis by auto
  qed
qed

lemma sorted_sort_stable:
  assumes "strict_weak lt (set xs)"
  shows "sorted_wrt (\<lambda>a b. \<not> lt b a) (sort_stable lt xs)"
proof -
  have "set ys \<subseteq> set xs \<Longrightarrow> sorted_wrt (\<lambda>a b. \<not> lt b a) (sort_stable lt ys)" for ys
    by (induction ys) (auto intro!: sorted_insert_by [OF assms])
  then show ?thesis by simp
qed

section \<open>Lists\<close>

text \<open>\<open>copy(xs[1:i+1], xs[:i]); xs[0] = xs[i]\<close>: the element at \<open>i\<close> moved to the front.\<close>

definition move_front :: "nat \<Rightarrow> 'a list \<Rightarrow> 'a list" where
  "move_front i xs = xs ! i # take i xs @ drop (Suc i) xs"

lemma mset_move_front: "i < length xs \<Longrightarrow> mset (move_front i xs) = mset xs"
proof -
  assume "i < length xs"
  then have "mset xs = mset (take i xs @ xs ! i # drop (Suc i) xs)"
    by (metis id_take_nth_drop)
  then show ?thesis by (simp add: move_front_def)
qed

lemma sorted_wrt_all: "\<forall>x \<in> set xs. \<forall>y \<in> set xs. R x y \<Longrightarrow> sorted_wrt R xs"
  by (induction xs) auto

lemma nth_update: "xs[i := x] ! j = (if i = j \<and> i < length xs then x else xs ! j)"
  by (cases "i < length xs") (auto simp: nth_list_update list_update_beyond)

text \<open>A first-match scan, the shape of every rule list in the program.\<close>

lemma find_SomeD:
  "find P xs = Some x \<Longrightarrow> \<exists>us vs. xs = us @ x # vs \<and> P x \<and> (\<forall>u \<in> set us. \<not> P u)"
proof (induction xs)
  case Nil
  then show ?case by simp
next
  case (Cons a xs)
  show ?case
  proof (cases "P a")
    case True
    with Cons.prems show ?thesis by (intro exI [of _ "[]"] exI [of _ xs]) auto
  next
    case False
    with Cons obtain us vs where "xs = us @ x # vs" "P x" "\<forall>u \<in> set us. \<not> P u" by auto
    with False show ?thesis by (intro exI [of _ "a # us"] exI [of _ vs]) auto
  qed
qed

lemma find_append_hit: "P x \<Longrightarrow> \<forall>u \<in> set us. \<not> P u \<Longrightarrow> find P (us @ x # vs) = Some x"
  by (induction us) auto

section \<open>Association lists as Go maps\<close>

text \<open>\<open>keys m\<close> in sorted order, without duplicates: \<open>SortedKeys\<close> of a map with string keys.\<close>

definition sorted_keys :: "('k::linorder \<times> 'v) list \<Rightarrow> 'k list" where
  "sorted_keys m = remdups (sort (map fst m))"

lemma set_sorted_keys [simp]: "set (sorted_keys m) = dom (map_of m)"
  by (auto simp: sorted_keys_def dom_map_of_conv_image_fst)

lemma distinct_sorted_keys [simp]: "distinct (sorted_keys m)"
  by (simp add: sorted_keys_def)

lemma sorted_sorted_keys [simp]: "sorted (sorted_keys m)"
  by (simp add: sorted_keys_def)

lemmas [go_eval] = move_front_def sorted_keys_def

text \<open>A map filled in a loop: \<open>for _, x := range xs { m[f(x)] = g(x) }\<close>.\<close>

lemma fold_update_other:
  "k \<notin> f ` set xs \<Longrightarrow> map_of (foldl (\<lambda>m x. AList.update (f x) (g x) m) m xs) k = map_of m k"
  by (induction xs arbitrary: m) (auto simp: update_conv')

lemma fold_update_hit:
  "distinct (map f xs) \<Longrightarrow> x \<in> set xs \<Longrightarrow>
     map_of (foldl (\<lambda>m x. AList.update (f x) (g x) m) m xs) (f x) = Some (g x)"
  by (induction xs arbitrary: m) (auto simp: fold_update_other update_conv')

lemma fold_update_iff:
  assumes "distinct (map f xs)"
  shows "map_of (foldl (\<lambda>m x. AList.update (f x) (g x) m) [] xs) k = Some v \<longleftrightarrow> (\<exists>x \<in> set xs. f x = k \<and> g x = v)"
proof (cases "k \<in> f ` set xs")
  case True
  with fold_update_hit [OF assms, of _ g "[]"] assms show ?thesis by (auto simp: distinct_map inj_on_def)
qed (auto simp: fold_update_other)

section \<open>Serving a sequence of events\<close>

text \<open>A handler maps an event and a state to an answer and a new state; \<open>run_all\<close> serves a list of
  events in order and collects the answers.\<close>

fun run_all :: "('e \<Rightarrow> 's \<Rightarrow> 'v \<times> 's) \<Rightarrow> 'e list \<Rightarrow> 's \<Rightarrow> 'v list \<times> 's" where
  "run_all h [] s = ([], s)"
| "run_all h (e # es) s = (let (v, s') = h e s; (vs, s'') = run_all h es s' in (v # vs, s''))"

lemma snd_run_all_Cons: "snd (run_all h (e # es) s) = snd (run_all h es (snd (h e s)))"
  by (simp split: prod.split)

lemma run_all_inv:
  assumes "\<And>e s. P s \<Longrightarrow> P (snd (h e s))" "P s"
  shows "P (snd (run_all h es s))"
  using assms(2)
proof (induction es arbitrary: s)
  case (Cons e es)
  from Cons.IH [OF assms(1) [OF Cons.prems]] show ?case by (simp only: snd_run_all_Cons)
qed simp

lemma length_run_all [simp]: "length (fst (run_all h es s)) = length es"
  by (induction es arbitrary: s) (simp_all split: prod.split, metis fst_conv)

section \<open>Searching a compiled list\<close>

lemma find_map_filter:
  "find P (List.map_filter f xs) =
     (case find (\<lambda>x. \<exists>y. f x = Some y \<and> P y) xs of None \<Rightarrow> None | Some x \<Rightarrow> f x)"
  by (induction xs) (auto simp: List.map_filter_def split: option.splits)

lemma find_filter_drop: "(\<And>x. x \<in> set xs \<Longrightarrow> P x \<Longrightarrow> Q x) \<Longrightarrow> find P (filter Q xs) = find P xs"
  by (induction xs) auto

lemma find_first: "P x \<Longrightarrow> list_all (\<lambda>y. \<not> P y) pre \<Longrightarrow> find P (pre @ x # post) = Some x"
  by (induction pre) auto

lemma find_none: "list_all (\<lambda>y. \<not> P y) xs \<Longrightarrow> find P xs = None"
  by (simp add: find_None_iff list_all_iff)

lemma run_all_append:
  "run_all h (xs @ ys) s =
     (let (vs, s1) = run_all h xs s; (ws, s2) = run_all h ys s1 in (vs @ ws, s2))"
  by (induction xs arbitrary: s) (simp_all split: prod.split)

lemma run_all_snoc:
  "fst (run_all h (xs @ [x]) s) = fst (run_all h xs s) @ [fst (h x (snd (run_all h xs s)))]"
  "snd (run_all h (xs @ [x]) s) = snd (h x (snd (run_all h xs s)))"
  by (simp_all add: run_all_append split: prod.split)

lemma count_list_snoc [simp]: "count_list (xs @ [x]) y = count_list xs y + (if x = y then 1 else 0)"
  by (induction xs) auto

lemma length_sum_count: "set xs \<subseteq> {..<n::nat} \<Longrightarrow> (\<Sum>i<n. count_list xs i) = length xs"
proof (induction xs)
  case (Cons x xs)
  then have "(\<Sum>i<n. count_list (x # xs) i) = (\<Sum>i<n. count_list xs i) + (\<Sum>i<n. if x = i then 1 else 0)"
    unfolding sum.distrib [symmetric] by (intro sum.cong) auto
  also have "(\<Sum>i<n. if x = i then 1 else 0) = (1::nat)"
    using Cons.prems by (simp add: sum.delta')
  finally show ?case using Cons by simp
qed simp

end
