(* ===== verification/Failure_Gate.thy ===== *)
theory Failure_Gate
  imports Go_Prelude
begin

text \<open>
  The two failure throttles: \<open>authGate\<close> of the data plane
  (\<open>internal/dataplane/accesslist.go\<close>, behind basic auth) and \<open>rateGate\<close> of the admin plane
  (\<open>internal/auth/authenticator.go\<close>, behind local login and OIDC begin-login).

  Both keep a map from a client key to a failure count and an expiry. The map is an association
  list with distinct keys, so that its length is \<open>len(g.entries)\<close>; the clock is an argument, in
  the unit of \<open>time.Duration\<close>. A Go method that both answers and mutates returns the answer and
  the new gate.

  The locale \<open>failure_gate\<close> is what the clients of a gate rely on; both gates interpret it. The
  bound on password guesses is proved once in it.
\<close>

section \<open>State\<close>

record gate_entry =
  fails :: nat
  resetAt :: int

record gate =
  gentries :: "(string \<times> gate_entry) list"
  window :: int
  limit :: nat
  maxKeys :: nat

definition newAuthGate :: "int \<Rightarrow> nat \<Rightarrow> nat \<Rightarrow> gate" where
  "newAuthGate w l m = \<lparr>gentries = [], window = w, limit = l, maxKeys = m\<rparr>"

definition newRateGate :: "int \<Rightarrow> nat \<Rightarrow> nat \<Rightarrow> gate" where
  "newRateGate w l m = \<lparr>gentries = [], window = w, limit = l, maxKeys = m\<rparr>"

definition lookup_gate :: "gate \<Rightarrow> string \<Rightarrow> gate_entry option" where
  "lookup_gate g k = map_of (gentries g) k"

definition del_gate :: "string \<Rightarrow> gate \<Rightarrow> gate" where
  "del_gate k g = g\<lparr>gentries := AList.delete k (gentries g)\<rparr>"

definition put_gate :: "string \<Rightarrow> gate_entry \<Rightarrow> gate \<Rightarrow> gate" where
  "put_gate k e g = g\<lparr>gentries := AList.update k e (gentries g)\<rparr>"

text \<open>\<open>time.Now().After(e.resetAt)\<close>.\<close>

definition expired :: "int \<Rightarrow> gate_entry \<Rightarrow> bool" where
  "expired now e \<longleftrightarrow> resetAt e < now"

definition sweepLocked :: "int \<Rightarrow> gate \<Rightarrow> gate" where
  "sweepLocked now g = g\<lparr>gentries := filter (\<lambda>(k, e). \<not> expired now e) (gentries g)\<rparr>"

section \<open>The data plane's gate\<close>

definition authGate_atLimit :: "int \<Rightarrow> string \<Rightarrow> gate \<Rightarrow> bool \<times> gate" where
  "authGate_atLimit now key g =
     (case lookup_gate g key of
        None \<Rightarrow> (maxKeys g \<le> length (gentries g), g)
      | Some e \<Rightarrow>
          if expired now e then (False, del_gate key g)
          else (limit g \<le> fails e, g))"

definition count_failure :: "int \<Rightarrow> string \<Rightarrow> nat \<Rightarrow> gate \<Rightarrow> gate" where
  "count_failure now key n g = put_gate key \<lparr>fails = n + 1, resetAt = now + window g\<rparr> g"

definition authGate_record :: "int \<Rightarrow> string \<Rightarrow> gate \<Rightarrow> gate" where
  "authGate_record now key g =
     (case lookup_gate g key of
        None \<Rightarrow>
          if maxKeys g \<le> length (gentries g)
          then (let g' = sweepLocked now g
                in if maxKeys g' \<le> length (gentries g') then g' else count_failure now key 0 g')
          else count_failure now key 0 g
      | Some e \<Rightarrow>
          if expired now e then count_failure now key 0 g
          else count_failure now key (fails e) g)"

definition authGate_clear :: "string \<Rightarrow> gate \<Rightarrow> gate" where
  "authGate_clear key g = del_gate key g"

section \<open>The admin plane's gate\<close>

definition saturatedLocked :: "int \<Rightarrow> gate \<Rightarrow> bool \<times> gate" where
  "saturatedLocked now g =
     (if length (gentries g) < maxKeys g then (False, g)
      else let g' = sweepLocked now g in (maxKeys g' \<le> length (gentries g'), g'))"

definition rateGate_atLimit :: "bool \<Rightarrow> int \<Rightarrow> string \<Rightarrow> gate \<Rightarrow> bool \<times> gate" where
  "rateGate_atLimit evictExpired now key g =
     (case lookup_gate g key of
        None \<Rightarrow> saturatedLocked now g
      | Some e \<Rightarrow>
          if expired now e then (False, if evictExpired then del_gate key g else g)
          else (limit g \<le> fails e, g))"

definition rateGate_record :: "int \<Rightarrow> string \<Rightarrow> gate \<Rightarrow> gate" where
  "rateGate_record now key g =
     (case lookup_gate g key of
        None \<Rightarrow>
          (case saturatedLocked now g of
             (True, g') \<Rightarrow> g'
           | (False, g') \<Rightarrow> count_failure now key 0 g')
      | Some e \<Rightarrow>
          if expired now e then count_failure now key 0 g
          else count_failure now key (fails e) g)"

definition tryBegin :: "int \<Rightarrow> string \<Rightarrow> gate \<Rightarrow> bool \<times> gate" where
  "tryBegin now key g =
     (let (e, g1) =
        (case lookup_gate g key of
           None \<Rightarrow> (None, g)
         | Some e \<Rightarrow> if expired now e then (None, del_gate key g) else (Some e, g))
      in case e of
           None \<Rightarrow>
             (case saturatedLocked now g1 of
                (True, g2) \<Rightarrow> (False, g2)
              | (False, g2) \<Rightarrow> (True, count_failure now key 0 g2))
         | Some e \<Rightarrow>
             if limit g1 \<le> fails e then (False, g1)
             else (True, count_failure now key (fails e) g1))"

definition rateGate_clear :: "string \<Rightarrow> gate \<Rightarrow> gate" where
  "rateGate_clear key g = del_gate key g"

definition remaining :: "int \<Rightarrow> string \<Rightarrow> gate \<Rightarrow> int \<times> gate" where
  "remaining now key g =
     (case lookup_gate g key of
        None \<Rightarrow> (case saturatedLocked now g of (s, g') \<Rightarrow> (if s then window g' else 0, g'))
      | Some e \<Rightarrow>
          (let d = resetAt e - now
           in (if d \<le> 0 \<or> fails e < limit g then 0 else d, g)))"

section \<open>Invariant\<close>

text \<open>Distinct keys, no more than \<open>maxKeys\<close> of them, and every entry has counted something.\<close>

definition gate_inv :: "gate \<Rightarrow> bool" where
  "gate_inv g \<longleftrightarrow>
     distinct (map fst (gentries g)) \<and> length (gentries g) \<le> maxKeys g \<and>
     list_all (\<lambda>(k, e). 0 < fails e) (gentries g)"

text \<open>The failures of \<open>k\<close> that still count at time \<open>now\<close>.\<close>

definition live_fails :: "int \<Rightarrow> string \<Rightarrow> gate \<Rightarrow> nat" where
  "live_fails now k g =
     (case lookup_gate g k of None \<Rightarrow> 0 | Some e \<Rightarrow> if expired now e then 0 else fails e)"

text \<open>The settings a gate was made with never change.\<close>

definition same_config :: "gate \<Rightarrow> gate \<Rightarrow> bool" where
  "same_config g g' \<longleftrightarrow> window g' = window g \<and> limit g' = limit g \<and> maxKeys g' = maxKeys g"

lemmas [go_eval] = newAuthGate_def newRateGate_def lookup_gate_def del_gate_def put_gate_def
  expired_def sweepLocked_def authGate_atLimit_def count_failure_def authGate_record_def
  authGate_clear_def saturatedLocked_def rateGate_atLimit_def rateGate_record_def tryBegin_def
  rateGate_clear_def remaining_def gate_inv_def live_fails_def same_config_def

named_theorems gate_simps \<open>lookups and sizes of the primitive gate updates\<close>

lemma gate_config [simp]:
  "window (del_gate k g) = window g" "limit (del_gate k g) = limit g"
  "maxKeys (del_gate k g) = maxKeys g"
  "window (put_gate k e g) = window g" "limit (put_gate k e g) = limit g"
  "maxKeys (put_gate k e g) = maxKeys g"
  "window (sweepLocked now g) = window g" "limit (sweepLocked now g) = limit g"
  "maxKeys (sweepLocked now g) = maxKeys g"
  by (simp_all add: del_gate_def put_gate_def sweepLocked_def)

lemma lookup_del [gate_simps]:
  "lookup_gate (del_gate k g) k' = (if k' = k then None else lookup_gate g k')"
  by (simp add: lookup_gate_def del_gate_def delete_conv)

lemma lookup_put [gate_simps]:
  "lookup_gate (put_gate k e g) k' = (if k' = k then Some e else lookup_gate g k')"
  by (simp add: lookup_gate_def put_gate_def update_conv)

lemma map_of_filter_distinct:
  "distinct (map fst xs) \<Longrightarrow>
   map_of (filter (\<lambda>(k, e). P e) xs) k = (case map_of xs k of None \<Rightarrow> None | Some e \<Rightarrow> if P e then Some e else None)"
  by (induction xs) (auto split: option.splits simp: map_of_eq_None_iff)

lemma lookup_sweep [gate_simps]:
  "gate_inv g \<Longrightarrow> lookup_gate (sweepLocked now g) k =
     (case lookup_gate g k of None \<Rightarrow> None | Some e \<Rightarrow> if expired now e then None else Some e)"
  by (auto simp: lookup_gate_def sweepLocked_def gate_inv_def map_of_filter_distinct
      split: option.splits)

section \<open>What the primitive updates keep\<close>

lemma inv_del [intro]: "gate_inv g \<Longrightarrow> gate_inv (del_gate k g)"
  by (auto simp: gate_inv_def del_gate_def list_all_iff AList.delete_eq distinct_map inj_on_def
      intro: le_trans [OF length_filter_le])

lemma inv_sweep [intro]: "gate_inv g \<Longrightarrow> gate_inv (sweepLocked now g)"
  by (auto simp: gate_inv_def sweepLocked_def list_all_iff distinct_map inj_on_def
      intro: le_trans [OF length_filter_le])

lemma length_update:
  "length (AList.update k v xs) = (if k \<in> fst ` set xs then length xs else length xs + 1)"
  by (induction xs) auto

lemma set_update_subset: "set (AList.update k v xs) \<subseteq> insert (k, v) (set xs)"
  by (induction xs) auto

lemma tracked_iff: "lookup_gate g k \<noteq> None \<longleftrightarrow> k \<in> fst ` set (gentries g)"
  by (auto simp: lookup_gate_def map_of_eq_None_iff)

lemma inv_put [intro]:
  assumes "gate_inv g" "0 < fails e" "lookup_gate g k \<noteq> None \<or> length (gentries g) < maxKeys g"
  shows "gate_inv (put_gate k e g)"
proof -
  have "list_all (\<lambda>(k, e). 0 < fails e) (AList.update k e (gentries g))"
    using assms(1,2) set_update_subset [of k e "gentries g"]
    by (fastforce simp: gate_inv_def list_all_iff)
  then show ?thesis
    using assms tracked_iff [of g k]
    by (auto simp: gate_inv_def put_gate_def length_update distinct_update)
qed

lemma inv_count [intro]:
  assumes "gate_inv g" "lookup_gate g k \<noteq> None \<or> length (gentries g) < maxKeys g"
  shows "gate_inv (count_failure now k n g)"
  using assms by (auto simp: count_failure_def)

lemma count_config [simp]:
  "window (count_failure now k n g) = window g" "limit (count_failure now k n g) = limit g"
  "maxKeys (count_failure now k n g) = maxKeys g"
  by (simp_all add: count_failure_def)

lemma live_fails_del [simp]:
  "live_fails t k' (del_gate k g) = (if k' = k then 0 else live_fails t k' g)"
  by (simp add: live_fails_def gate_simps)

lemma live_fails_count [simp]:
  "live_fails t k' (count_failure now k n g) =
     (if k' = k then if now + window g < t then 0 else n + 1 else live_fails t k' g)"
  by (simp add: live_fails_def count_failure_def gate_simps expired_def)

lemma live_fails_sweep [simp]:
  "gate_inv g \<Longrightarrow> now \<le> t \<Longrightarrow> live_fails t k (sweepLocked now g) = live_fails t k g"
  by (auto simp: live_fails_def gate_simps expired_def split: option.splits)

lemma live_fails_pos:
  "gate_inv g \<Longrightarrow> lookup_gate g k = Some e \<Longrightarrow> 0 < fails e"
  by (auto simp: gate_inv_def lookup_gate_def list_all_iff dest!: map_of_SomeD)

lemma saturated_props:
  assumes "gate_inv g"
  shows "gate_inv (snd (saturatedLocked now g))"
    and "now \<le> t \<Longrightarrow> live_fails t k (snd (saturatedLocked now g)) = live_fails t k g"
    and "\<not> fst (saturatedLocked now g) \<Longrightarrow>
         length (gentries (snd (saturatedLocked now g))) < maxKeys (snd (saturatedLocked now g))"
    and "same_config g (snd (saturatedLocked now g))"
    and "lookup_gate g k = None \<Longrightarrow> lookup_gate (snd (saturatedLocked now g)) k = None"
  using assms by (auto simp: saturatedLocked_def Let_def same_config_def gate_simps)

section \<open>The contract of a failure gate\<close>

text \<open>
  \<open>attempt\<close> is how every client of a gate uses it: a locked-out key is refused before the
  credential is looked at; otherwise the credential is verified, a success forgets the key's
  failures, a failure is counted, and a request that presents no credential (\<open>None\<close>) is neither.
  It answers whether a credential was verified at all, and the new gate. \<open>attempts\<close> runs a sequence of them and collects the keys whose credential was
  verified.
\<close>

definition attempt ::
  "(int \<Rightarrow> 'k \<Rightarrow> 'g \<Rightarrow> bool \<times> 'g) \<Rightarrow> (int \<Rightarrow> 'k \<Rightarrow> 'g \<Rightarrow> 'g) \<Rightarrow> ('k \<Rightarrow> 'g \<Rightarrow> 'g) \<Rightarrow>
   int \<times> 'k \<times> bool option \<Rightarrow> 'g \<Rightarrow> bool \<times> 'g" where
  "attempt at_limit rec clr a g =
     (case a of (now, k, ok) \<Rightarrow>
        (case at_limit now k g of
           (True, g') \<Rightarrow> (False, g')
         | (False, g') \<Rightarrow>
             (case ok of
                None \<Rightarrow> (False, g')
              | Some True \<Rightarrow> (True, clr k g')
              | Some False \<Rightarrow> (True, rec now k g'))))"

fun attempts ::
  "(int \<Rightarrow> 'k \<Rightarrow> 'g \<Rightarrow> bool \<times> 'g) \<Rightarrow> (int \<Rightarrow> 'k \<Rightarrow> 'g \<Rightarrow> 'g) \<Rightarrow> ('k \<Rightarrow> 'g \<Rightarrow> 'g) \<Rightarrow>
   (int \<times> 'k \<times> bool option) list \<Rightarrow> 'g \<Rightarrow> 'k list \<times> 'g" where
  "attempts at_limit rec clr [] g = ([], g)"
| "attempts at_limit rec clr (a # as) g =
     (case attempt at_limit rec clr a g of (verified, g') \<Rightarrow>
        (case attempts at_limit rec clr as g' of (ks, g'') \<Rightarrow>
           (if verified then fst (snd a) # ks else ks, g'')))"

lemma attempts_Cons:
  "fst (attempts at_limit rec clr (a # as) g) =
     (if fst (attempt at_limit rec clr a g) then [fst (snd a)] else []) @
     fst (attempts at_limit rec clr as (snd (attempt at_limit rec clr a g)))"
  "snd (attempts at_limit rec clr (a # as) g) =
     snd (attempts at_limit rec clr as (snd (attempt at_limit rec clr a g)))"
  by (simp_all split: prod.split)

text \<open>A sequence of attempts in the order of their times, all in \<open>[t0, t1]\<close>.\<close>

definition within :: "int \<Rightarrow> int \<Rightarrow> (int \<times> 'k \<times> bool option) list \<Rightarrow> bool" where
  "within t0 t1 as \<longleftrightarrow> sorted (map fst as) \<and> list_all (\<lambda>a. t0 \<le> fst a \<and> fst a \<le> t1) as"

definition no_success :: "'k \<Rightarrow> (int \<times> 'k \<times> bool option) list \<Rightarrow> bool" where
  "no_success k as \<longleftrightarrow> list_all (\<lambda>(t, k', ok). k' = k \<longrightarrow> ok \<noteq> Some True) as"

lemma within_Cons: "within t0 t1 (a # as) \<Longrightarrow> t0 \<le> fst a \<and> fst a \<le> t1 \<and> within (fst a) t1 as"
  by (auto simp: within_def list_all_iff)

locale failure_gate =
  fixes at_limit :: "int \<Rightarrow> 'k \<Rightarrow> 'g \<Rightarrow> bool \<times> 'g"
    and rec :: "int \<Rightarrow> 'k \<Rightarrow> 'g \<Rightarrow> 'g"
    and clr :: "'k \<Rightarrow> 'g \<Rightarrow> 'g"
    and inv :: "'g \<Rightarrow> bool"
    and fails_at :: "int \<Rightarrow> 'k \<Rightarrow> 'g \<Rightarrow> nat"
    and win :: "'g \<Rightarrow> int"
    and lim :: "'g \<Rightarrow> nat"
  assumes inv_at_limit: "inv g \<Longrightarrow> inv (snd (at_limit t k g))"
    and inv_rec: "inv g \<Longrightarrow> inv (rec t k g)"
    and inv_clr: "inv g \<Longrightarrow> inv (clr k g)"
    and config: "inv g \<Longrightarrow> win (snd (at_limit t k g)) = win g \<and> lim (snd (at_limit t k g)) = lim g"
      "inv g \<Longrightarrow> win (rec t k g) = win g \<and> lim (rec t k g) = lim g"
      "inv g \<Longrightarrow> win (clr k g) = win g \<and> lim (clr k g) = lim g"
    and at_limit_counts: "inv g \<Longrightarrow> 0 < fails_at t k g \<Longrightarrow> fst (at_limit t k g) \<longleftrightarrow> lim g \<le> fails_at t k g"
    and at_limit_keeps: "inv g \<Longrightarrow> t \<le> t' \<Longrightarrow> fails_at t' k' (snd (at_limit t k g)) = fails_at t' k' g"
    and rec_same: "inv g \<Longrightarrow> \<not> fst (at_limit t k g) \<Longrightarrow> t \<le> t' \<Longrightarrow> t' \<le> t + win g \<Longrightarrow>
      fails_at t' k (rec t k (snd (at_limit t k g))) = fails_at t k g + 1"
    and rec_other: "inv g \<Longrightarrow> k' \<noteq> k \<Longrightarrow> t \<le> t' \<Longrightarrow> fails_at t' k' (rec t k g) = fails_at t' k' g"
    and clr_other: "inv g \<Longrightarrow> k' \<noteq> k \<Longrightarrow> fails_at t' k' (clr k g) = fails_at t' k' g"
begin

lemma attempt_keeps:
  assumes "inv g"
  shows "inv (snd (attempt at_limit rec clr a g))"
    and "win (snd (attempt at_limit rec clr a g)) = win g"
    and "lim (snd (attempt at_limit rec clr a g)) = lim g"
  using assms inv_at_limit inv_rec inv_clr config
  by (auto simp: attempt_def split: prod.splits bool.splits option.splits) (metis snd_conv)+

lemma attempt_other_key:
  assumes "inv g" "fst (snd a) \<noteq> k" "fst a \<le> t'"
  shows "fails_at t' k (snd (attempt at_limit rec clr a g)) = fails_at t' k g"
proof -
  obtain t k' ok where a: "a = (t, k', ok)" by (cases a)
  show ?thesis
    using assms at_limit_keeps [of g t t' k k'] inv_at_limit [of g t k'] rec_other clr_other
    by (auto simp: a attempt_def split: prod.splits bool.splits option.splits)
qed

lemma attempt_failed:
  assumes "inv g" "fst (attempt at_limit rec clr (t, k, Some False) g)" "t \<le> t'" "t' \<le> t + win g"
  shows "fails_at t k g < lim g \<or> fails_at t k g = 0"
    and "fails_at t' k (snd (attempt at_limit rec clr (t, k, Some False) g)) = fails_at t k g + 1"
  using assms rec_same [of g t k t'] at_limit_counts [of g t k]
  by (auto simp: attempt_def not_le split: prod.splits bool.splits option.splits)

lemma attempt_refused:
  assumes "inv g" "\<not> fst (attempt at_limit rec clr (t, k, ok) g)" "t \<le> t'"
  shows "fails_at t' k' (snd (attempt at_limit rec clr (t, k, ok) g)) = fails_at t' k' g"
  using assms at_limit_keeps [of g t t' k' k]
  by (auto simp: attempt_def split: prod.splits bool.splits option.splits)

lemma guesses_bounded_from:
  assumes "inv g" "0 < lim g" "within t0 t1 as" "no_success k as" "t1 \<le> t0 + win g" "t0 \<le> t"
    and "within t t1 as" and "\<forall>t'. t \<le> t' \<and> t' \<le> t1 \<longrightarrow> n \<le> fails_at t' k g" and "n \<le> lim g"
  shows "n + count_list (fst (attempts at_limit rec clr as g)) k \<le> lim g"
  using assms
proof (induction as arbitrary: g n t)
  case Nil
  then show ?case by simp
next
  case (Cons a as)
  obtain ta ka ok where a: "a = (ta, ka, ok)" by (cases a)
  obtain v g' where att: "attempt at_limit rec clr a g = (v, g')" by fastforce
  have g': "inv g'" "win g' = win g" "lim g' = lim g"
    using attempt_keeps [OF \<open>inv g\<close>, of a] by (auto simp: att)
  have ta: "t \<le> ta" "ta \<le> t1" "within ta t1 as" "t0 \<le> ta"
    using within_Cons [OF Cons.prems(7)] Cons.prems(6) by (auto simp: a)
  have ns: "no_success k as" and w0: "within t0 t1 as"
    using Cons.prems(3,4) by (auto simp: no_success_def within_def)
  have n_ta: "n \<le> fails_at ta k g" using Cons.prems(8) ta by auto
  let ?n' = "if v \<and> ka = k then n + 1 else n"
  have "?n' \<le> lim g \<and> (\<forall>t'. ta \<le> t' \<and> t' \<le> t1 \<longrightarrow> ?n' \<le> fails_at t' k g')"
  proof (cases "v \<and> ka = k")
    case True
    then have "ok = Some False"
      using Cons.prems(4) att by (auto simp: a no_success_def attempt_def split: prod.splits bool.splits option.splits)
    then have *: "fst (attempt at_limit rec clr (ta, k, Some False) g)" and
      eq: "attempt at_limit rec clr (ta, k, Some False) g = (v, g')"
      using att True by (auto simp: a)
    have "n < lim g"
      using attempt_failed(1) [OF \<open>inv g\<close> *, of ta] n_ta Cons.prems(2,5) ta by fastforce
    moreover have "n + 1 \<le> fails_at t' k g'" if "ta \<le> t'" "t' \<le> t1" for t'
      using attempt_failed(2) [OF \<open>inv g\<close> *, of t'] n_ta Cons.prems(5) ta that by (simp add: eq)
    ultimately show ?thesis using True by auto
  next
    case False
    have "fails_at t' k g' = fails_at t' k g" if "ta \<le> t'" for t'
    proof (cases "ka = k")
      case True
      with False have "\<not> v" by simp
      with attempt_refused [OF \<open>inv g\<close>, of ta ka ok t' k] that att show ?thesis by (simp add: a)
    next
      case other: False
      with attempt_other_key [OF \<open>inv g\<close>, of a k t'] that att show ?thesis by (simp add: a)
    qed
    with False Cons.prems(8,9) ta show ?thesis by auto
  qed
  with Cons.IH [OF g'(1) _ w0 ns _ \<open>t0 \<le> ta\<close> ta(3), of ?n'] g' Cons.prems(2,5)
  have "?n' + count_list (fst (attempts at_limit rec clr as g')) k \<le> lim g" by auto
  then show ?case unfolding attempts_Cons att by (auto simp: a split: if_splits)
qed

lemma guesses_bounded:
  assumes "inv g" "0 < lim g" "within t0 t1 as" "no_success k as" "t1 \<le> t0 + win g"
  shows "count_list (fst (attempts at_limit rec clr as g)) k \<le> lim g"
  using guesses_bounded_from [OF assms, of t0 0] assms(3) by simp

lemma attempts_inv: "inv g \<Longrightarrow> inv (snd (attempts at_limit rec clr as g))"
proof (induction as arbitrary: g)
  case (Cons a as)
  have "inv (snd (attempt at_limit rec clr a g))" using attempt_keeps(1) Cons.prems .
  from Cons.IH [OF this] show ?case by (simp only: attempts_Cons)
qed simp

end

section \<open>Both gates keep the contract\<close>

lemma length_del_less:
  "lookup_gate g k \<noteq> None \<Longrightarrow> length (gentries (del_gate k g)) < length (gentries g)"
  by (auto simp: lookup_gate_def del_gate_def AList.delete_eq dest!: map_of_SomeD
      intro!: length_filter_less)

lemma authGate_atLimit_keeps:
  assumes "gate_inv g"
  shows "gate_inv (snd (authGate_atLimit t k g))"
    and "same_config g (snd (authGate_atLimit t k g))"
    and "t \<le> t' \<Longrightarrow> live_fails t' k' (snd (authGate_atLimit t k g)) = live_fails t' k' g"
  using assms by (auto simp: authGate_atLimit_def same_config_def split: option.splits)
     (auto simp: live_fails_def expired_def)

lemma authGate_record_keeps:
  assumes "gate_inv g"
  shows "gate_inv (authGate_record t k g)"
    and "same_config g (authGate_record t k g)"
    and "k' \<noteq> k \<Longrightarrow> t \<le> t' \<Longrightarrow> live_fails t' k' (authGate_record t k g) = live_fails t' k' g"
  using assms
  by (auto simp: authGate_record_def same_config_def Let_def not_le
      split: option.splits intro!: inv_count)

interpretation data_gate: failure_gate authGate_atLimit authGate_record authGate_clear
  gate_inv live_fails window limit
proof
  fix g t k t' assume g: "gate_inv g" and free: "\<not> fst (authGate_atLimit t k g)"
    and t': "(t::int) \<le> t'" "t' \<le> t + window g"
  show "live_fails t' k (authGate_record t k (snd (authGate_atLimit t k g))) = live_fails t k g + 1"
  proof (cases "lookup_gate g k")
    case None
    with free t' show ?thesis
      by (simp add: authGate_atLimit_def authGate_record_def live_fails_def [of t])
  next
    case (Some e)
    with free t' g length_del_less [of g k] show ?thesis
      by (auto simp: authGate_atLimit_def authGate_record_def live_fails_def [of t] gate_simps
          gate_inv_def split: if_splits)
  qed
qed (auto simp: authGate_atLimit_keeps authGate_record_keeps authGate_clear_def same_config_def
    authGate_atLimit_keeps(2) [unfolded same_config_def] authGate_record_keeps(2) [unfolded same_config_def]
    | auto simp: authGate_atLimit_def live_fails_def split: option.splits if_splits)+

lemma rateGate_atLimit_keeps:
  assumes "gate_inv g"
  shows "gate_inv (snd (rateGate_atLimit ev t k g))"
    and "same_config g (snd (rateGate_atLimit ev t k g))"
    and "t \<le> t' \<Longrightarrow> live_fails t' k' (snd (rateGate_atLimit ev t k g)) = live_fails t' k' g"
  using assms saturated_props [OF assms]
  by (auto simp: rateGate_atLimit_def same_config_def split: option.splits)
     (auto simp: live_fails_def expired_def)

lemma rateGate_record_keeps:
  assumes "gate_inv g"
  shows "gate_inv (rateGate_record t k g)"
    and "same_config g (rateGate_record t k g)"
    and "k' \<noteq> k \<Longrightarrow> t \<le> t' \<Longrightarrow> live_fails t' k' (rateGate_record t k g) = live_fails t' k' g"
  using assms saturated_props [OF assms, where now = t]
  by (auto simp: rateGate_record_def same_config_def
      split: option.splits prod.splits bool.splits intro!: inv_count)

lemma saturated_again:
  assumes "gate_inv g" "\<not> fst (saturatedLocked t g)"
  shows "saturatedLocked t' (snd (saturatedLocked t g)) = (False, snd (saturatedLocked t g))"
  using saturated_props(3) [OF assms] by (simp add: saturatedLocked_def [of t'])

lemma rateGate_record_after_check:
  assumes g: "gate_inv g" and free: "\<not> fst (rateGate_atLimit ev t k g)"
    and t': "t \<le> t'" "t' \<le> t + window g"
  shows "live_fails t' k (rateGate_record t k (snd (rateGate_atLimit ev t k g))) = live_fails t k g + 1"
proof (cases "lookup_gate g k")
  case None
  have cfg: "window (snd (saturatedLocked t g)) = window g"
    using saturated_props(4) [OF g] by (simp add: same_config_def)
  from None free t' g saturated_again [OF g] saturated_props(5) [OF g None, of t] cfg
  show ?thesis by (auto simp: rateGate_atLimit_def rateGate_record_def live_fails_def [of t])
next
  case (Some e)
  show ?thesis
  proof (cases "expired t e \<and> ev")
    case True
    have "\<not> fst (saturatedLocked t (del_gate k g))"
      using length_del_less [of g k] Some g by (simp add: saturatedLocked_def gate_inv_def)
    with Some True t' saturated_props(4) [OF inv_del [OF g, of k], of t] show ?thesis
      by (auto simp: rateGate_atLimit_def rateGate_record_def live_fails_def [of t] gate_simps
          same_config_def split: prod.splits bool.splits option.splits)
  next
    case False
    with Some free t' show ?thesis
      by (auto simp: rateGate_atLimit_def rateGate_record_def live_fails_def [of t])
  qed
qed

interpretation admin_gate: failure_gate "rateGate_atLimit ev" rateGate_record rateGate_clear
  gate_inv live_fails window limit for ev
  by standard (auto simp: rateGate_atLimit_keeps rateGate_record_keeps rateGate_clear_def
    rateGate_record_after_check rateGate_atLimit_keeps(2) [unfolded same_config_def]
    rateGate_record_keeps(2) [unfolded same_config_def]
    | auto simp: rateGate_atLimit_def live_fails_def split: option.splits if_splits)+

section \<open>Reserving an attempt before verifying it\<close>

text \<open>
  \<open>tryBegin\<close> counts the attempt in the same critical section that checks the limit, so requests
  that run in parallel cannot all pass the check before any of them is counted. \<open>grants\<close> runs the
  steps on the gate in the order in which they take the lock: a reservation by a client, or the
  reset that follows a successful login.
\<close>

datatype gate_step = Begin int string | Clear string

fun grants :: "gate_step list \<Rightarrow> gate \<Rightarrow> string list \<times> gate" where
  "grants [] g = ([], g)"
| "grants (Begin t k # ss) g =
     (let (ok, g') = tryBegin t k g; (ks, g'') = grants ss g'
      in (if ok then k # ks else ks, g''))"
| "grants (Clear k # ss) g = grants ss (rateGate_clear k g)"

fun step_times :: "gate_step list \<Rightarrow> int list" where
  "step_times [] = []"
| "step_times (Begin t k # ss) = t # step_times ss"
| "step_times (Clear k # ss) = step_times ss"

lemma tryBegin_keeps:
  assumes "gate_inv g"
  shows "gate_inv (snd (tryBegin t k g))"
    and "same_config g (snd (tryBegin t k g))"
    and "k' \<noteq> k \<Longrightarrow> t \<le> t' \<Longrightarrow> live_fails t' k' (snd (tryBegin t k g)) = live_fails t' k' g"
  using assms saturated_props [OF assms, where now = t]
    saturated_props [OF inv_del [OF assms, of k], where now = t]
  by (auto simp: tryBegin_def same_config_def split: option.splits prod.splits bool.splits
      intro!: inv_count)

lemma tryBegin_count:
  assumes "gate_inv g" "t \<le> t'" "t' \<le> t + window g"
  shows "fst (tryBegin t k g) \<Longrightarrow>
         (live_fails t k g < limit g \<or> live_fails t k g = 0) \<and>
         live_fails t' k (snd (tryBegin t k g)) = live_fails t k g + 1"
    and "\<not> fst (tryBegin t k g) \<Longrightarrow>
         live_fails t' k (snd (tryBegin t k g)) = live_fails t' k g"
  using assms saturated_props [OF assms(1), where now = t]
    saturated_props [OF inv_del [OF assms(1), of k], where now = t]
  by (auto simp: tryBegin_def same_config_def live_fails_def [of t] not_le
      split: option.splits prod.splits bool.splits if_splits)
     (auto simp: live_fails_def expired_def)

lemma grants_bounded_from:
  assumes "gate_inv g" "0 < limit g" "Clear k \<notin> set ss" "sorted (step_times ss)"
    and "\<forall>u \<in> set (step_times ss). t \<le> u \<and> u \<le> t1" "t0 \<le> t" "t1 \<le> t0 + window g"
    and "\<forall>t'. t \<le> t' \<and> t' \<le> t1 \<longrightarrow> n \<le> live_fails t' k g" and "n \<le> limit g"
  shows "n + count_list (fst (grants ss g)) k \<le> limit g"
  using assms
proof (induction ss g arbitrary: n t rule: grants.induct)
  case (1 g)
  then show ?case by simp
next
  case (2 u k' ss g)
  obtain ok g' where tb: "tryBegin u k' g = (ok, g')" by fastforce
  have g': "gate_inv g'" "limit g' = limit g" "window g' = window g"
    using tryBegin_keeps(1,2) [OF 2(2), of u k'] by (auto simp: tb same_config_def)
  have u: "t \<le> u" "u \<le> t1" "\<forall>w \<in> set (step_times ss). u \<le> w \<and> w \<le> t1"
    using 2(5,6) by auto
  let ?n' = "if ok \<and> k' = k then n + 1 else n"
  have "?n' \<le> limit g \<and> (\<forall>t'. u \<le> t' \<and> t' \<le> t1 \<longrightarrow> ?n' \<le> live_fails t' k g')"
  proof (cases "k' = k")
    case True
    have *: "n \<le> live_fails u k g" using 2(9) u by auto
    have c: "(ok \<longrightarrow> (live_fails u k g < limit g \<or> live_fails u k g = 0) \<and>
               live_fails t' k g' = live_fails u k g + 1) \<and>
             (\<not> ok \<longrightarrow> live_fails t' k g' = live_fails t' k g)" if "u \<le> t'" "t' \<le> t1" for t'
      using tryBegin_count [OF 2(2), of u t' k] that 2(7,8) u(1) by (auto simp: tb True [symmetric])
    show ?thesis using True * c [of u] c u 2(3,9,10) by (auto simp: not_le) (fastforce)+
  next
    case False
    then have "live_fails t' k g' = live_fails t' k g" if "u \<le> t'" for t'
      using tryBegin_keeps(3) [OF 2(2), of k k' u t'] that by (simp add: tb)
    with False 2(9,10) u show ?thesis by auto
  qed
  with 2(1) [OF refl tb [symmetric], of u ?n'] g' 2(3,4,5,7,8) u
  have "?n' + count_list (fst (grants ss g')) k \<le> limit g" by auto
  then show ?case by (auto simp: tb split: prod.splits if_splits)
next
  case (3 k' ss g)
  then have "k' \<noteq> k" by auto
  with 3 show ?case by (auto simp: rateGate_clear_def)
qed

lemma grants_inv: "gate_inv g \<Longrightarrow> gate_inv (snd (grants ss g)) \<and> same_config g (snd (grants ss g))"
proof (induction ss g rule: grants.induct)
  case (2 t k ss g)
  from 2(1) [OF refl prod.collapse] tryBegin_keeps(1,2) [OF 2(2), of t k] show ?case
    by (auto simp: same_config_def split: prod.splits)
qed (auto simp: rateGate_clear_def same_config_def)

section \<open>Properties\<close>

lemma new_gate_inv: "gate_inv (newAuthGate w l m)" "gate_inv (newRateGate w l m)"
  by (simp_all add: gate_inv_def newAuthGate_def newRateGate_def)

lemma new_gate_config [simp]:
  "limit (newAuthGate w l m) = l" "window (newAuthGate w l m) = w" "maxKeys (newAuthGate w l m) = m"
  "limit (newRateGate w l m) = l" "window (newRateGate w l m) = w" "maxKeys (newRateGate w l m) = m"
  by (simp_all add: newAuthGate_def newRateGate_def)



text \<open>Local-login attempts are bounded even under concurrency. \<open>tryBegin\<close> checks and counts
  under one lock, so for every interleaving of reservations by all clients (and of resets for other
  keys) within one window, at most \<open>limit\<close> attempts of key \<open>k\<close> are let through to the password
  comparison, unless a completed login of \<open>k\<close> clears its count.\<close>

theorem login_grants_bounded:
  assumes "gate_inv g" "0 < limit g" "sorted (step_times ss)"
    and "list_all (\<lambda>u. t0 \<le> u \<and> u \<le> t0 + window g) (step_times ss)" and "Clear k \<notin> set ss"
  shows "count_list (fst (grants ss g)) k \<le> limit g \<and> gate_inv (snd (grants ss g))"
  using grants_bounded_from [OF assms(1,2,5,3), of t0 "t0 + window g" t0 0] assms(4)
    grants_inv [OF assms(1)] by (simp add: list_all_iff)

theorem login_grants_bounded_witness:
  "count_list (fst (grants [Begin 0 ''a'', Begin 0 ''a'', Clear ''b'', Begin 1 ''a'']
       (newRateGate 900 2 4096))) ''a'' \<le> 2"
  using login_grants_bounded [of "newRateGate 900 2 4096"
      "[Begin 0 ''a'', Begin 0 ''a'', Clear ''b'', Begin 1 ''a'']" 0 "''a''"]
  by (simp add: new_gate_inv)

text \<open>The admin plane's gate recovers from a flood. When the map is full and every entry has
  expired, an untracked client is admitted, both by the check and by the reservation, and the sweep
  leaves only live entries.\<close>

theorem rateGate_recovers:
  assumes "gate_inv g" "0 < maxKeys g" "lookup_gate g k = None"
    and "list_all (\<lambda>(k', e). expired now e) (gentries g)"
  shows "\<not> fst (rateGate_atLimit ev now k g) \<and> fst (tryBegin now k g) \<and>
         live_fails now k (rateGate_record now k g) = (if 0 \<le> window g then 1 else 0)"
proof -
  have "gentries (sweepLocked now g) = []"
    using assms(4) by (auto simp: sweepLocked_def list_all_iff filter_empty_conv)
  then have "\<not> fst (saturatedLocked now g)"
    using assms(2) by (simp add: saturatedLocked_def Let_def)
  moreover have "window (snd (saturatedLocked now g)) = window g"
    using saturated_props(4) [OF assms(1)] by (simp add: same_config_def)
  ultimately show ?thesis
    using assms(3) by (auto simp: rateGate_atLimit_def tryBegin_def rateGate_record_def
        split: prod.splits bool.splits option.splits)
qed

definition dead_gate :: gate where
  "dead_gate = \<lparr>gentries = [(''a'', \<lparr>fails = 1, resetAt = 900\<rparr>), (''b'', \<lparr>fails = 1, resetAt = 901\<rparr>)],
     window = 900, limit = 5, maxKeys = 2\<rparr>"

theorem rateGate_recovers_witness: "fst (tryBegin 5000 ''c'' dead_gate)"
  using rateGate_recovers [of dead_gate "''c''" 5000 True]
  by (simp add: dead_gate_def gate_inv_def lookup_gate_def expired_def)

text \<open>The data plane's gate does not recover from the same flood. Its check answers "locked"
  for an untracked client while the map is full, without looking for expired entries, and the only
  place that evicts them for a new client, \<open>record\<close>, runs only after the check let the client
  through. So once the map is full, no sequence of attempts by clients outside it, at any later
  time and with right or wrong passwords, is ever verified or changes the gate.\<close>

theorem full_data_gate_stays_locked:
  assumes "maxKeys g \<le> length (gentries g)"
    and "list_all (\<lambda>(t, k, ok). lookup_gate g k = None) as"
  shows "attempts authGate_atLimit authGate_record authGate_clear as g = ([], g)"
  using assms(2)
proof (induction as)
  case (Cons a as)
  then have "attempt authGate_atLimit authGate_record authGate_clear a g = (False, g)"
    using assms(1) by (auto simp: attempt_def authGate_atLimit_def)
  with Cons show ?case by simp
qed simp

theorem full_data_gate_stays_locked_witness:
  "attempts authGate_atLimit authGate_record authGate_clear
     [(1000000, ''c'', Some True), (2000000, ''d'', Some True)] dead_gate = ([], dead_gate)"
  using full_data_gate_stays_locked [of dead_gate "[(1000000, ''c'', Some True), (2000000, ''d'', Some True)]"]
  by (simp add: dead_gate_def lookup_gate_def)

end
