(* ===== verification/Go_Net.thy ===== *)
theory Go_Net
  imports Go_Prelude
begin

text \<open>
  The part of Go's \<open>net\<close> and \<open>net/netip\<close> packages the proxy compares addresses with: parsing
  and printing IP addresses, CIDR masks, network membership and \<open>host:port\<close> splitting.

  A non-nil \<open>net.IP\<close> is its byte slice (4 or 16 bytes); a nil one is \<^const>\<open>None\<close>. The parsers follow
  \<open>netip.parseIPv4Fields\<close> and \<open>netip.parseIPv6\<close> (at most eight colon-separated groups of at most
  four hexadecimal digits, one \<open>::\<close>, an optional trailing dotted quad, an optional zone).
\<close>

type_synonym ip = "byte list"

record ipnet =
  net_ip :: ip
  net_mask :: "byte list"

section \<open>Addresses and masks\<close>

definition v4InV6Prefix :: ip where
  "v4InV6Prefix = replicate 10 0 @ [255, 255]"

definition To4 :: "ip \<Rightarrow> ip option" where
  "To4 a = (if length a = 4 then Some a
            else if length a = 16 \<and> take 12 a = v4InV6Prefix then Some (drop 12 a)
            else None)"

text \<open>The bytes two addresses are compared by: the four of an IPv4 address however it is written.\<close>

definition norm_ip :: "ip \<Rightarrow> ip" where
  "norm_ip a = (case To4 a of Some b \<Rightarrow> b | None \<Rightarrow> a)"

fun CIDRMask :: "nat \<Rightarrow> nat \<Rightarrow> byte list" where
  "CIDRMask ones 0 = []"
| "CIDRMask ones (Suc k) =
     (if 8 \<le> ones then 255 # CIDRMask (ones - 8) k
      else NOT (drop_bit ones 255) # CIDRMask 0 k)"

definition and_bytes :: "byte list \<Rightarrow> byte list \<Rightarrow> byte list" where
  "and_bytes a m = map2 (\<lambda>x y. x AND y) a m"

text \<open>\<open>IP.Mask\<close>; the callers only mask with a mask of the length the address needs.\<close>

definition ip_mask :: "ip \<Rightarrow> byte list \<Rightarrow> ip option" where
  "ip_mask a m =
     (let m' = (if length m = 16 \<and> length a = 4 \<and> take 12 m = replicate 12 255 then drop 12 m else m);
          a' = (if length m' = 4 \<and> length a = 16 \<and> take 12 a = v4InV6Prefix then drop 12 a else a)
      in if length a' \<noteq> length m' then None else Some (and_bytes a' m'))"

text \<open>\<open>networkNumberAndMask\<close> and \<open>IPNet.Contains\<close>.\<close>

definition networkNumberAndMask :: "ipnet \<Rightarrow> (ip \<times> byte list) option" where
  "networkNumberAndMask n =
     (case (case To4 (net_ip n) of Some a \<Rightarrow> Some a
            | None \<Rightarrow> if length (net_ip n) = 16 then Some (net_ip n) else None) of
        None \<Rightarrow> None
      | Some a \<Rightarrow>
          if length (net_mask n) = 4 then (if length a = 4 then Some (a, net_mask n) else None)
          else if length (net_mask n) = 16
            then Some (a, if length a = 4 then drop 12 (net_mask n) else net_mask n)
          else None)"

definition net_contains :: "ipnet \<Rightarrow> ip \<Rightarrow> bool" where
  "net_contains n a =
     (case networkNumberAndMask n of
        None \<Rightarrow> norm_ip a = []
      | Some (nn, m) \<Rightarrow>
          length (norm_ip a) = length nn \<and> and_bytes nn m = and_bytes (norm_ip a) m)"

lemma to4_length: "To4 a = Some b \<Longrightarrow> length b = 4"
  by (auto simp: To4_def split: if_splits)

lemma norm_ip_v4 [simp]: "length a = 4 \<Longrightarrow> norm_ip a = a"
  by (simp add: norm_ip_def To4_def)

lemma norm_ip_idem [simp]: "norm_ip (norm_ip a) = norm_ip a"
proof (cases "To4 a")
  case None
  then show ?thesis by (simp add: norm_ip_def)
next
  case (Some b)
  with to4_length [OF Some] show ?thesis by (simp add: norm_ip_def To4_def)
qed

lemma length_CIDRMask [simp]: "length (CIDRMask n k) = k"
  by (induction k arbitrary: n) auto

lemma length_and_bytes [simp]: "length (and_bytes a m) = min (length a) (length m)"
  by (simp add: and_bytes_def)

lemma CIDRMask_all: "CIDRMask (8 * k) k = replicate k 255"
  by (induction k) auto

lemma and_bytes_replicate: "length a = k \<Longrightarrow> and_bytes a (replicate k 255) = a"
proof (induction a arbitrary: k)
  case (Cons x a)
  have "(255 :: byte) = - 1" by simp
  then have "x AND 255 = x" by (simp only: and.right_neutral)
  with Cons show ?case by (cases k) (auto simp: and_bytes_def)
qed (simp add: and_bytes_def)

lemma and_bytes_idem [simp]: "and_bytes (and_bytes a m) m = and_bytes a m"
proof (induction a arbitrary: m)
  case (Cons x a)
  then show ?case by (cases m) (auto simp: and_bytes_def and.assoc)
qed (simp add: and_bytes_def)

section \<open>Parsing\<close>

definition hex_digit :: "char \<Rightarrow> nat option" where
  "hex_digit c =
     (let b = byte_of c in
      if 48 \<le> b \<and> b \<le> 57 then Some (b - 48)
      else if 97 \<le> b \<and> b \<le> 102 then Some (b - 87)
      else if 65 \<le> b \<and> b \<le> 70 then Some (b - 55)
      else None)"

definition is_hex :: "char \<Rightarrow> bool" where
  "is_hex c \<longleftrightarrow> hex_digit c \<noteq> None"

definition hex_val :: "string \<Rightarrow> int" where
  "hex_val s = foldl (\<lambda>a c. 16 * a + (case hex_digit c of Some d \<Rightarrow> int d | None \<Rightarrow> 0)) 0 s"

text \<open>One octet: digits only, no leading zero, at most 255.\<close>

definition parse_octet :: "string \<Rightarrow> byte option" where
  "parse_octet s =
     (if all_digits s \<and> (length s > 1 \<longrightarrow> hd s \<noteq> CHR ''0'') \<and> digits_val s \<le> 255
      then Some (of_nat (digits_val s)) else None)"

definition parseIPv4Fields :: "string \<Rightarrow> ip option" where
  "parseIPv4Fields s =
     (case map parse_octet (split_on (CHR ''.'') s) of
        [Some a, Some b, Some c, Some d] \<Rightarrow> Some [a, b, c, d]
      | _ \<Rightarrow> None)"

text \<open>The group loop of \<open>parseIPv6\<close>; the first argument is the number of groups that still fit.
  The result is the unread rest, the bytes read and the position of the \<open>::\<close>.\<close>

fun v6_groups :: "nat \<Rightarrow> string \<Rightarrow> byte list \<Rightarrow> nat option \<Rightarrow> (string \<times> byte list \<times> nat option) option"
  where
  "v6_groups 0 s a e = Some (s, a, e)"
| "v6_groups (Suc k) s a e =
     (let ds = takeWhile is_hex s; rest = dropWhile is_hex s;
          a' = a @ [word_of_int (hex_val ds div 256), word_of_int (hex_val ds mod 256)]
      in if ds = [] \<or> 4 < length ds then None
         else case rest of
           [] \<Rightarrow> Some ([], a', e)
         | c # r \<Rightarrow>
             if c = CHR ''.'' then
               (if e = None \<and> length a \<noteq> 12 \<or> 16 < length a + 4 then None
                else map_option (\<lambda>v. ([], a @ v, e)) (parseIPv4Fields s))
             else if c \<noteq> CHR '':'' then None
             else (case r of
                 [] \<Rightarrow> None
               | d # r' \<Rightarrow>
                   if d = CHR '':'' then
                     (if e \<noteq> None then None
                      else if r' = [] then Some ([], a', Some (length a'))
                      else v6_groups k r' a' (Some (length a')))
                   else v6_groups k r a' e))"

definition expand_ellipsis :: "byte list \<Rightarrow> nat option \<Rightarrow> byte list option" where
  "expand_ellipsis a e =
     (if length a < 16 then
        (case e of None \<Rightarrow> None
         | Some p \<Rightarrow> Some (take p a @ replicate (16 - length a) 0 @ drop p a))
      else (if e = None then Some a else None))"

definition parse_v6_body :: "string \<Rightarrow> byte list option" where
  "parse_v6_body s =
     (let ell = (take 2 s = ''::''); body = (if ell then drop 2 s else s)
      in if ell \<and> body = [] then Some (replicate 16 0)
         else case v6_groups 8 body [] (if ell then Some 0 else None) of
             None \<Rightarrow> None
           | Some (rest, a, e) \<Rightarrow> if rest \<noteq> [] then None else expand_ellipsis a e)"

text \<open>\<open>netip.Addr\<close>: an IPv4 address, or an IPv6 address with its zone (empty for none).\<close>

datatype netip_addr = Addr4 ip | Addr6 ip string

definition ParseAddr :: "string \<Rightarrow> netip_addr option" where
  "ParseAddr s =
     (case find (\<lambda>c. c = CHR ''.'' \<or> c = CHR '':'' \<or> c = CHR ''%'') s of
        None \<Rightarrow> None
      | Some c \<Rightarrow>
          if c = CHR ''.'' then map_option Addr4 (parseIPv4Fields s)
          else if c = CHR '':'' then
            (if CHR ''%'' \<in> set s
             then (if after (CHR ''%'') s = [] then None
                   else map_option (\<lambda>a. Addr6 a (after (CHR ''%'') s)) (parse_v6_body (before (CHR ''%'') s)))
             else map_option (\<lambda>a. Addr6 a []) (parse_v6_body s))
          else None)"

definition As16 :: "netip_addr \<Rightarrow> ip" where
  "As16 x = (case x of Addr4 a \<Rightarrow> v4InV6Prefix @ a | Addr6 a z \<Rightarrow> a)"

definition addr_zone :: "netip_addr \<Rightarrow> string" where
  "addr_zone x = (case x of Addr4 a \<Rightarrow> [] | Addr6 a z \<Rightarrow> z)"

definition Is6 :: "netip_addr \<Rightarrow> bool" where
  "Is6 x = (case x of Addr4 a \<Rightarrow> False | Addr6 a z \<Rightarrow> True)"

definition ParseIP :: "string \<Rightarrow> ip option" where
  "ParseIP s = (case ParseAddr s of None \<Rightarrow> None
                | Some x \<Rightarrow> if addr_zone x \<noteq> [] then None else Some (As16 x))"

text \<open>\<open>net.ParseCIDR\<close>: only the network is used by the callers.\<close>

definition ParseCIDR :: "string \<Rightarrow> ipnet option" where
  "ParseCIDR s =
     (if CHR ''/'' \<notin> set s then None
      else case ParseAddr (before (CHR ''/'') s) of
        None \<Rightarrow> None
      | Some x \<Rightarrow>
          (let m = after (CHR ''/'') s; nb = (if Is6 x then 16 else 4)
           in if addr_zone x \<noteq> [] \<or> \<not> all_digits m \<or> digits_val m > 8 * nb then None
              else let mask = CIDRMask (digits_val m) nb
                   in map_option (\<lambda>a. \<lparr>net_ip = a, net_mask = mask\<rparr>) (ip_mask (As16 x) mask)))"

lemma parseIPv4Fields_length: "parseIPv4Fields s = Some a \<Longrightarrow> length a = 4"
  by (auto simp: parseIPv4Fields_def split: list.splits option.splits)

lemma v6_groups_length:
  "v6_groups k s a e = Some (r, b, f) \<Longrightarrow> length a + 2 * k \<le> 16 \<Longrightarrow> length b \<le> 16"
proof (induction k arbitrary: s a e)
  case (Suc k)
  from Suc.prems show ?case
    by (auto simp: Let_def split: if_splits list.splits dest!: parseIPv4Fields_length)
      (drule Suc.IH; simp)+
qed simp

lemma v6_groups_ellipsis:
  "v6_groups k s a e = Some (r, b, Some p) \<Longrightarrow> (\<forall>q. e = Some q \<longrightarrow> q \<le> length a) \<Longrightarrow> p \<le> length b"
proof (induction k arbitrary: s a e)
  case (Suc k)
  from Suc.prems show ?case
    by (auto simp: Let_def split: if_splits list.splits dest!: parseIPv4Fields_length)
      (drule Suc.IH; force)+
qed simp

lemma expand_ellipsis_length:
  "expand_ellipsis a e = Some b \<Longrightarrow> length a \<le> 16 \<Longrightarrow> (\<forall>p. e = Some p \<longrightarrow> p \<le> length a) \<Longrightarrow>
    length b = 16"
  by (auto simp: expand_ellipsis_def split: if_splits option.splits)

lemma parse_v6_body_length:
  assumes "parse_v6_body s = Some a"
  shows "length a = 16"
proof -
  have *: "length b = 16"
    if "v6_groups 8 u [] e0 = Some ([], c, f)" "expand_ellipsis c f = Some b" "\<forall>p. e0 = Some p \<longrightarrow> p = 0"
    for u e0 c f b
    using expand_ellipsis_length [OF that(2)] v6_groups_length [OF that(1)]
      v6_groups_ellipsis that by (cases f) auto
  from assms show ?thesis
    by (auto simp: parse_v6_body_def Let_def split: if_splits option.splits prod.splits dest!: *)
qed

lemma ParseAddr_Addr4: "ParseAddr s = Some (Addr4 a) \<Longrightarrow> length a = 4"
  by (auto simp: ParseAddr_def split: option.splits if_splits dest: parseIPv4Fields_length)

lemma ParseAddr_Addr6: "ParseAddr s = Some (Addr6 a z) \<Longrightarrow> length a = 16"
  by (auto simp: ParseAddr_def split: option.splits if_splits dest: parse_v6_body_length)

lemma length_As16: "ParseAddr s = Some x \<Longrightarrow> length (As16 x) = 16"
  by (cases x) (auto simp: As16_def v4InV6Prefix_def dest: ParseAddr_Addr4 ParseAddr_Addr6)

lemma ParseIP_length: "ParseIP s = Some a \<Longrightarrow> length a = 16"
  by (auto simp: ParseIP_def length_As16 split: option.splits if_splits)

section \<open>Printing\<close>

definition hex_char :: "nat \<Rightarrow> char" where
  "hex_char d = (if d < 10 then char_of (48 + d) else char_of (87 + d))"

text \<open>A 16-bit group in lower-case hexadecimal without leading zeros.\<close>

definition hex16 :: "int \<Rightarrow> string" where
  "hex16 v =
     (let ds = [v div 4096 mod 16, v div 256 mod 16, v div 16 mod 16, v mod 16];
          nz = dropWhile (\<lambda>d. d = 0) ds
      in map (\<lambda>d. hex_char (nat d)) (if nz = [] then [0] else nz))"

fun groups16 :: "byte list \<Rightarrow> int list" where
  "groups16 (x # y # r) = (256 * uint x + uint y) # groups16 r"
| "groups16 r = []"

text \<open>The run of zero groups at the front of a list.\<close>

definition zero_run :: "int list \<Rightarrow> nat" where
  "zero_run gs = length (takeWhile (\<lambda>g. g = 0) gs)"

text \<open>Start and length of the first longest run of at least two zero groups, as \<open>appendTo6\<close> finds it.\<close>

definition best_run :: "int list \<Rightarrow> nat \<times> nat" where
  "best_run gs =
     foldl (\<lambda>(p, l) i. let n = zero_run (drop i gs) in if 2 \<le> n \<and> l < n then (i, n) else (p, l))
       (0, 0) [0..<length gs]"

definition v6_string :: "ip \<Rightarrow> string" where
  "v6_string a =
     (let gs = groups16 a; (p, n) = best_run gs; h = (\<lambda>xs. join_with '':'' (map hex16 xs))
      in if n = 0 then h gs else h (take p gs) @ ''::'' @ h (drop (p + n) gs))"

definition v4_string :: "ip \<Rightarrow> string" where
  "v4_string a = join_with ''.'' (map (\<lambda>b. itoa (unat b)) a)"

definition ip_string :: "ip \<Rightarrow> string" where
  "ip_string a =
     (if a = [] then ''<nil>''
      else case To4 a of
        Some b \<Rightarrow> v4_string b
      | None \<Rightarrow> if length a = 16 then v6_string a
          else CHR ''?'' # concat (map (\<lambda>b. [hex_char (unat b div 16), hex_char (unat b mod 16)]) a))"

section \<open>Host and port\<close>

text \<open>\<open>net.SplitHostPort\<close>: \<^const>\<open>None\<close> for every error.\<close>

definition SplitHostPort :: "string \<Rightarrow> (string \<times> string) option" where
  "SplitHostPort s =
     (if CHR '':'' \<notin> set s then None
      else
        let port = rev (before (CHR '':'') (rev s)); i = length s - length port - 1 in
        if hd s = CHR ''['' then
          (if CHR '']'' \<notin> set s then None
           else let e = length (before (CHR '']'') s) in
             if e + 1 \<noteq> i then None
             else if CHR ''['' \<in> set (drop 1 s) \<or> CHR '']'' \<in> set (drop (e + 1) s) then None
             else Some (take (e - 1) (drop 1 s), port))
        else
          (let host = take i s in
           if CHR '':'' \<in> set host \<or> CHR ''['' \<in> set s \<or> CHR '']'' \<in> set s then None
           else Some (host, port)))"

definition JoinHostPort :: "string \<Rightarrow> string \<Rightarrow> string" where
  "JoinHostPort h p = (if CHR '':'' \<in> set h then ''['' @ h @ '']:'' @ p else h @ '':'' @ p)"

lemmas [go_eval] =
  v4InV6Prefix_def To4_def norm_ip_def and_bytes_def ip_mask_def networkNumberAndMask_def
  net_contains_def hex_digit_def is_hex_def hex_val_def parse_octet_def parseIPv4Fields_def
  expand_ellipsis_def parse_v6_body_def ParseAddr_def As16_def addr_zone_def Is6_def ParseIP_def
  ParseCIDR_def hex_char_def hex16_def zero_run_def best_run_def v6_string_def v4_string_def
  ip_string_def SplitHostPort_def JoinHostPort_def

section \<open>Membership\<close>

text \<open>A network whose mask is all ones holds exactly its own address.\<close>

lemma contains_host_mask:
  assumes "To4 a = Some b"
  shows "net_contains \<lparr>net_ip = a, net_mask = CIDRMask 32 4\<rparr> x \<longleftrightarrow> norm_ip x = norm_ip a"
proof -
  have len: "length b = 4" using to4_length [OF assms] .
  have "CIDRMask 32 4 = replicate 4 255" using CIDRMask_all [of 4] by simp
  with assms len show ?thesis
    by (auto simp: net_contains_def networkNumberAndMask_def norm_ip_def [of a] and_bytes_replicate)
qed

lemma contains_host_mask6:
  assumes "To4 a = None" "length a = 16"
  shows "net_contains \<lparr>net_ip = a, net_mask = CIDRMask 128 16\<rparr> x \<longleftrightarrow> norm_ip x = a"
proof -
  have "CIDRMask 128 16 = replicate 16 255" using CIDRMask_all [of 16] by simp
  with assms show ?thesis
    by (auto simp: net_contains_def networkNumberAndMask_def and_bytes_replicate)
qed

end
