(* ===== verification/Http_Request.thy ===== *)
theory Http_Request
  imports Go_Net
begin

text \<open>
  The request as the data plane sees it: the fields of \<open>http.Request\<close> (and of its URL and TLS state)
  that some tier reads or writes, the header operations of \<open>net/http\<close> and \<open>net/textproto\<close>, and the
  client-IP decision that \<open>internal/dataplane/clientip.go\<close> stashes in the request context.

  A header map is a partial function from canonical names to value lists; a client certificate is
  the handful of attributes the code forwards. The context carries the derived client IP only.
\<close>

record x509_cert =
  cert_subject :: string
  cert_CommonName :: string
  cert_DNSNames :: "string list"
  cert_EmailAddresses :: "string list"
  cert_IPAddresses :: "ip list"
  cert_URIs :: "string list"
  cert_serial :: nat
  cert_raw :: "byte list"
  RawIssuer :: "byte list"

record tls_state =
  ServerName :: string
  VerifiedChains :: "x509_cert list list"
  PeerCertificates :: "x509_cert list"

record client_ip_info =
  info_ip :: "ip option"
  peerTrusted :: bool

type_synonym http_header = "string \<rightharpoonup> string list"

record http_request =
  RemoteAddr :: string
  Host :: string
  Method :: string
  url_Path :: string
  url_RawQuery :: string
  Header :: http_header
  TLS :: "tls_state option"
  ctx_clientIP :: "client_ip_info option"

section \<open>Header names\<close>

definition token_byte :: "char \<Rightarrow> bool" where
  "token_byte c \<longleftrightarrow>
     is_digit c \<or> (65 \<le> byte_of c \<and> byte_of c \<le> 90) \<or> (97 \<le> byte_of c \<and> byte_of c \<le> 122)
     \<or> c \<in> set ''!#$%&*+-.^_`|~'' \<or> byte_of c = 39"

fun canon_from :: "bool \<Rightarrow> string \<Rightarrow> string" where
  "canon_from up [] = []"
| "canon_from up (x # xs) =
     (if up then to_upper_char x else to_lower_char x) # canon_from (x = CHR ''-'') xs"

text \<open>\<open>textproto.CanonicalMIMEHeaderKey\<close>: a name with a byte that is no token byte is left alone.\<close>

definition CanonicalMIMEHeaderKey :: "string \<Rightarrow> string" where
  "CanonicalMIMEHeaderKey s = (if list_all token_byte s then canon_from True s else s)"

section \<open>Header operations\<close>

definition hdr_Values :: "http_header \<Rightarrow> string \<Rightarrow> string list" where
  "hdr_Values h k = (case h (CanonicalMIMEHeaderKey k) of None \<Rightarrow> [] | Some vs \<Rightarrow> vs)"

definition hdr_Get :: "http_header \<Rightarrow> string \<Rightarrow> string" where
  "hdr_Get h k = (case hdr_Values h k of [] \<Rightarrow> [] | v # _ \<Rightarrow> v)"

definition hdr_Set :: "http_header \<Rightarrow> string \<Rightarrow> string \<Rightarrow> http_header" where
  "hdr_Set h k v = h(CanonicalMIMEHeaderKey k \<mapsto> [v])"

definition hdr_Add :: "http_header \<Rightarrow> string \<Rightarrow> string \<Rightarrow> http_header" where
  "hdr_Add h k v = h(CanonicalMIMEHeaderKey k \<mapsto> hdr_Values h k @ [v])"

definition hdr_Del :: "http_header \<Rightarrow> string \<Rightarrow> http_header" where
  "hdr_Del h k = h(CanonicalMIMEHeaderKey k := None)"

definition hdr_Del_all :: "http_header \<Rightarrow> string list \<Rightarrow> http_header" where
  "hdr_Del_all h ks = fold (\<lambda>k h. hdr_Del h k) ks h"

lemmas [go_eval] = token_byte_def CanonicalMIMEHeaderKey_def hdr_Values_def hdr_Get_def hdr_Set_def
  hdr_Add_def hdr_Del_def hdr_Del_all_def

lemma hdr_Del_all_apply:
  "hdr_Del_all h ks k = (if k \<in> CanonicalMIMEHeaderKey ` set ks then None else h k)"
  unfolding hdr_Del_all_def by (induction ks arbitrary: h) (auto simp: hdr_Del_def)

lemma hdr_Get_Set: "hdr_Get (hdr_Set h k v) k = v"
  by (simp add: hdr_Get_def hdr_Set_def hdr_Values_def)

lemma to_upper_char_token [simp]: "token_byte (to_upper_char c) = token_byte c"
proof (cases "97 \<le> byte_of c \<and> byte_of c \<le> 122")
  case True
  then have "token_byte c" "token_byte (char_of (byte_of c - 32))"
    by (auto simp: token_byte_def byte_of_def)
  with True show ?thesis by (simp add: to_upper_char_def)
qed (auto simp: to_upper_char_def)

lemma to_lower_char_token [simp]: "token_byte (to_lower_char c) = token_byte c"
proof (cases "65 \<le> byte_of c \<and> byte_of c \<le> 90")
  case True
  then have "token_byte c" "token_byte (char_of (byte_of c + 32))"
    by (auto simp: token_byte_def byte_of_def)
  with True show ?thesis by (simp add: to_lower_char_def)
qed (auto simp: to_lower_char_def)

lemma case_char_dash [simp]:
  "to_upper_char c = CHR ''-'' \<longleftrightarrow> c = CHR ''-''" "to_lower_char c = CHR ''-'' \<longleftrightarrow> c = CHR ''-''"
proof -
  have dash: "byte_of (CHR ''-'') = 45" by (simp add: byte_of_def)
  show "to_upper_char c = CHR ''-'' \<longleftrightarrow> c = CHR ''-''"
    using byte_of_less [of c] by (auto simp: byte_of_eq dash to_upper_char_def)
  show "to_lower_char c = CHR ''-'' \<longleftrightarrow> c = CHR ''-''"
    using byte_of_less [of c] by (auto simp: byte_of_eq dash to_lower_char_def)
qed

lemma to_upper_char_idem [simp]: "to_upper_char (to_upper_char c) = to_upper_char c"
  by (auto simp: to_upper_char_def byte_of_def)

lemma canon_from_idem: "canon_from up (canon_from up s) = canon_from up s"
  by (induction s arbitrary: up) auto

lemma canon_from_token: "list_all token_byte (canon_from up s) = list_all token_byte s"
  by (induction s arbitrary: up) auto

text \<open>Canonicalising is idempotent, so a header stored under a canonical name is found again.\<close>

lemma CanonicalMIMEHeaderKey_idem [simp]:
  "CanonicalMIMEHeaderKey (CanonicalMIMEHeaderKey s) = CanonicalMIMEHeaderKey s"
  by (simp add: CanonicalMIMEHeaderKey_def canon_from_idem canon_from_token)

end
