(* ===== verification/Client_IP.thy ===== *)
theory Client_IP
  imports Http_Request
begin

text \<open>
  The client-IP derivation: \<open>internal/clientip/clientip.go\<close>, its data-plane wrappers in
  \<open>internal/dataplane/clientip.go\<close>, the bucket key of \<open>internal/dataplane/outbound.go\<close> and the
  forwarding headers of \<open>internal/dataplane/proxy.go\<close>.

  The fleet-wide trusted set is the value of the atomic pointer, \<^const>\<open>None\<close> before the first
  \<open>SetTrusted\<close>. Log lines are not modelled. The theory ends with the facts every IP-based control
  rests on: an untrusted peer cannot influence the derived address at all, and a trusted peer
  yields the rightmost entry of the chain that is not itself trusted.
\<close>

section \<open>Networks\<close>

definition ParseNet :: "string \<Rightarrow> ipnet option" where
  "ParseNet s =
     (case ParseCIDR s of
        Some n \<Rightarrow> Some n
      | None \<Rightarrow>
          (case ParseIP s of
             Some a \<Rightarrow> Some \<lparr>net_ip = a, net_mask = (if To4 a = None then CIDRMask 128 16 else CIDRMask 32 4)\<rparr>
           | None \<Rightarrow> None))"

definition Compile :: "string list \<Rightarrow> ipnet list" where
  "Compile cidrs = List.map_filter ParseNet cidrs"

fun InNets :: "ip \<Rightarrow> ipnet list \<Rightarrow> bool" where
  "InNets a [] = False"
| "InNets a (n # ns) = (if net_contains n a then True else InNets a ns)"

text \<open>\<open>ip.Contains\<close> on a nil address: only a nil-length slice has no bytes to compare.\<close>

definition InNets_opt :: "ip option \<Rightarrow> ipnet list \<Rightarrow> bool" where
  "InNets_opt a ns = InNets (case a of Some b \<Rightarrow> b | None \<Rightarrow> []) ns"

type_synonym trusted_global = "ipnet list option"

definition SetTrusted :: "string list \<Rightarrow> trusted_global \<Rightarrow> trusted_global" where
  "SetTrusted cidrs g = Some (Compile cidrs)"

definition Trusted :: "trusted_global \<Rightarrow> ipnet list" where
  "Trusted g = (case g of Some ns \<Rightarrow> ns | None \<Rightarrow> [])"

section \<open>Parsing peers and forwarded entries\<close>

definition PeerIP :: "http_request \<Rightarrow> ip option" where
  "PeerIP r =
     (let host = (case SplitHostPort (RemoteAddr r) of Some (h, _) \<Rightarrow> h | None \<Rightarrow> RemoteAddr r)
      in ParseIP (TrimSpace host))"

definition trim_brackets :: "string \<Rightarrow> string" where
  "trim_brackets s = (let P = (\<lambda>c. c \<in> set ''[]'') in trim_right P (trim_left P s))"

definition parseAddr :: "string \<Rightarrow> ip option" where
  "parseAddr s0 =
     (let s = TrimSpace s0 in
      if s = [] then None
      else case ParseIP s of
          Some a \<Rightarrow> Some a
        | None \<Rightarrow>
            (case SplitHostPort s of
               Some (h, _) \<Rightarrow> ParseIP (trim_brackets h)
             | None \<Rightarrow> ParseIP (trim_brackets s)))"

definition IsUnspecified :: "ip \<Rightarrow> bool" where
  "IsUnspecified a \<longleftrightarrow> norm_ip a = [0, 0, 0, 0] \<or> a = replicate 16 0"

definition IsMulticast :: "ip \<Rightarrow> bool" where
  "IsMulticast a =
     (case To4 a of
        Some b \<Rightarrow> (case b of x # _ \<Rightarrow> x AND 0xF0 = 0xE0 | [] \<Rightarrow> False)
      | None \<Rightarrow> length a = 16 \<and> hd a = 255)"

definition IsBroadcast :: "ip \<Rightarrow> bool" where
  "IsBroadcast a \<longleftrightarrow> norm_ip a = [255, 255, 255, 255]"

definition ParseForwardedEntry :: "string \<Rightarrow> ip option" where
  "ParseForwardedEntry s =
     (case parseAddr s of
        None \<Rightarrow> None
      | Some a \<Rightarrow> if IsUnspecified a \<or> IsMulticast a \<or> IsBroadcast a then None else Some a)"

definition MaxForwardedEntries :: nat where
  "MaxForwardedEntries = 64"

definition ForwardedChain :: "http_request \<Rightarrow> string list" where
  "ForwardedChain r =
     (let parts = filter (\<lambda>e. e \<noteq> [])
            (map TrimSpace (concat (map (split_on (CHR '','')) (hdr_Values (Header r) ''X-Forwarded-For''))))
      in if length parts > MaxForwardedEntries
         then drop (length parts - MaxForwardedEntries) parts else parts)"

section \<open>The derivation\<close>

text \<open>The loop of \<open>Derive\<close>, over the chain from the right: \<open>None\<close> where it falls back to the peer.\<close>

fun derive_walk :: "ipnet list \<Rightarrow> string list \<Rightarrow> ip option" where
  "derive_walk trusted [] = None"
| "derive_walk trusted (e # es) =
     (case ParseForwardedEntry e of
        None \<Rightarrow> None
      | Some a \<Rightarrow> if InNets a trusted then derive_walk trusted es else Some a)"

definition Derive :: "http_request \<Rightarrow> ipnet list \<Rightarrow> ip option \<times> bool" where
  "Derive r trusted =
     (case PeerIP r of
        None \<Rightarrow> (None, False)
      | Some peer \<Rightarrow>
          if \<not> InNets peer trusted then (Some peer, False)
          else (case derive_walk trusted (rev (ForwardedChain r)) of
                  Some a \<Rightarrow> (Some a, True)
                | None \<Rightarrow> (Some peer, True)))"

definition Key :: "http_request \<Rightarrow> ipnet list \<Rightarrow> string" where
  "Key r trusted = (case fst (Derive r trusted) of Some a \<Rightarrow> ip_string a | None \<Rightarrow> RemoteAddr r)"

definition deriveClientIP :: "http_request \<Rightarrow> ipnet list \<Rightarrow> client_ip_info" where
  "deriveClientIP r trusted = \<lparr>info_ip = fst (Derive r trusted), peerTrusted = snd (Derive r trusted)\<rparr>"

definition withClientIP :: "http_request \<Rightarrow> client_ip_info \<Rightarrow> http_request" where
  "withClientIP r info = r\<lparr>ctx_clientIP := Some info\<rparr>"

definition requestClientIP :: "http_request \<Rightarrow> ip option" where
  "requestClientIP r = (case ctx_clientIP r of Some info \<Rightarrow> info_ip info | None \<Rightarrow> PeerIP r)"

definition requestPeerTrusted :: "http_request \<Rightarrow> bool" where
  "requestPeerTrusted r = (case ctx_clientIP r of Some info \<Rightarrow> peerTrusted info | None \<Rightarrow> False)"

definition clientIPResolver :: "ipnet list \<Rightarrow> http_request \<Rightarrow> ip option" where
  "clientIPResolver trusted r =
     (case ctx_clientIP r of Some info \<Rightarrow> info_ip info | None \<Rightarrow> info_ip (deriveClientIP r trusted))"

text \<open>The host's own list replaces the fleet's when it is present, even when it is empty.\<close>

definition hostTrustedProxies :: "string list option \<Rightarrow> trusted_global \<Rightarrow> ipnet list" where
  "hostTrustedProxies own g = (case own of Some cs \<Rightarrow> Compile cs | None \<Rightarrow> Trusted g)"

section \<open>Keys and forwarding headers\<close>

definition ipBucketKey :: "ip option \<Rightarrow> string" where
  "ipBucketKey a =
     (case a of
        None \<Rightarrow> []
      | Some b \<Rightarrow>
          if To4 b = None
          then (case ip_mask b (CIDRMask 64 16) of Some m \<Rightarrow> ip_string m | None \<Rightarrow> ''<nil>'') @ ''/64''
          else ip_string b)"

definition clientKey :: "http_request \<Rightarrow> string" where
  "clientKey r =
     (case requestClientIP r of
        Some a \<Rightarrow> ip_string a
      | None \<Rightarrow> (case SplitHostPort (RemoteAddr r) of Some (h, _) \<Rightarrow> h | None \<Rightarrow> RemoteAddr r))"

lemmas [go_eval] = ParseNet_def Compile_def InNets_opt_def SetTrusted_def Trusted_def PeerIP_def
  trim_brackets_def parseAddr_def IsUnspecified_def IsMulticast_def IsBroadcast_def
  ParseForwardedEntry_def MaxForwardedEntries_def ForwardedChain_def Derive_def Key_def
  deriveClientIP_def withClientIP_def requestClientIP_def requestPeerTrusted_def
  clientIPResolver_def hostTrustedProxies_def ipBucketKey_def clientKey_def

section \<open>Facts about the derivation\<close>

lemma InNets_iff: "InNets a ns \<longleftrightarrow> (\<exists>n \<in> set ns. net_contains n a)"
  by (induction ns) auto

lemma set_Compile: "n \<in> set (Compile cs) \<longleftrightarrow> (\<exists>c \<in> set cs. ParseNet c = Some n)"
  by (force simp: Compile_def List.map_filter_def)

lemma PeerIP_length: "PeerIP r = Some a \<Longrightarrow> length a = 16"
  by (auto simp: PeerIP_def Let_def split: option.splits prod.splits dest: ParseIP_length)

lemma parseAddr_length: "parseAddr s = Some a \<Longrightarrow> length a = 16"
  by (auto simp: parseAddr_def Let_def split: option.splits prod.splits if_splits dest: ParseIP_length)

lemma ParseForwardedEntry_real:
  "ParseForwardedEntry s = Some a \<Longrightarrow>
     length a = 16 \<and> \<not> IsUnspecified a \<and> \<not> IsMulticast a \<and> \<not> IsBroadcast a"
  by (auto simp: ParseForwardedEntry_def parseAddr_length split: option.splits if_splits)

lemma ForwardedChain_bound: "length (ForwardedChain r) \<le> MaxForwardedEntries"
  by (simp add: ForwardedChain_def Let_def)

text \<open>What the walk finds: an untrusted readable entry with nothing but trusted hops before it.\<close>

definition trusted_hop :: "ipnet list \<Rightarrow> string \<Rightarrow> bool" where
  "trusted_hop trusted u \<longleftrightarrow> (\<exists>b. ParseForwardedEntry u = Some b \<and> InNets b trusted)"

lemma derive_walk_trusted: "trusted_hop trusted e \<Longrightarrow> derive_walk trusted (e # es) = derive_walk trusted es"
  by (auto simp: trusted_hop_def)

lemma derive_walk_hit:
  "ParseForwardedEntry e = Some a \<Longrightarrow> \<not> InNets a trusted \<Longrightarrow> list_all (trusted_hop trusted) us \<Longrightarrow>
     derive_walk trusted (us @ e # vs) = Some a"
  by (induction us) (auto simp: trusted_hop_def)

lemma derive_walk_SomeD:
  "derive_walk trusted es = Some a \<Longrightarrow>
     \<exists>us e vs. es = us @ e # vs \<and> ParseForwardedEntry e = Some a \<and> \<not> InNets a trusted \<and>
       list_all (trusted_hop trusted) us"
proof (induction es)
  case Nil
  then show ?case by simp
next
  case (Cons x es)
  show ?case
  proof (cases "trusted_hop trusted x")
    case True
    with Cons obtain us e vs where "es = us @ e # vs" "ParseForwardedEntry e = Some a"
      "\<not> InNets a trusted" "list_all (trusted_hop trusted) us"
      by (auto simp: derive_walk_trusted simp del: derive_walk.simps)
    with True show ?thesis by (intro exI [of _ "x # us"] exI [of _ e] exI [of _ vs]) simp
  next
    case False
    with Cons.prems have "ParseForwardedEntry x = Some a" "\<not> InNets a trusted"
      by (auto simp: trusted_hop_def split: option.splits if_splits)
    then show ?thesis by (intro exI [of _ "[]"] exI [of _ x] exI [of _ es]) simp
  qed
qed

lemma derive_walk_split:
  "derive_walk trusted es = Some a \<longleftrightarrow>
     (\<exists>us e vs. es = us @ e # vs \<and> ParseForwardedEntry e = Some a \<and> \<not> InNets a trusted \<and>
        list_all (trusted_hop trusted) us)"
  using derive_walk_SomeD derive_walk_hit by blast

lemma derive_walk_prefix:
  "derive_walk trusted es \<noteq> None \<Longrightarrow> derive_walk trusted (es @ fs) = derive_walk trusted es"
  by (induction es) (auto split: option.splits)

lemma fst_Derive_real:
  "fst (Derive r trusted) = Some a \<Longrightarrow> Some a \<noteq> PeerIP r \<Longrightarrow>
     length a = 16 \<and> \<not> IsUnspecified a \<and> \<not> IsMulticast a \<and> \<not> IsBroadcast a \<and> \<not> InNets a trusted"
  by (auto simp: Derive_def derive_walk_split split: option.splits if_splits
      dest: ParseForwardedEntry_real)

lemma Derive_length: "fst (Derive r trusted) = Some a \<Longrightarrow> length a = 16"
  by (metis PeerIP_length fst_Derive_real)

section \<open>Properties\<close>

text \<open>C1: A peer outside the trusted set is the client: whatever headers it sends, the derived
  address is the connection peer and the request is marked untrusted.\<close>

theorem untrusted_peer_cannot_spoof:
  assumes "\<forall>p. PeerIP r = Some p \<longrightarrow> \<not> InNets p trusted"
  shows "Derive (r\<lparr>Header := h\<rparr>) trusted = (PeerIP r, False)"
proof -
  have "PeerIP (r\<lparr>Header := h\<rparr>) = PeerIP r" by (simp add: PeerIP_def split: option.splits)
  with assms show ?thesis by (auto simp: Derive_def split: option.splits)
qed

definition sample_request :: http_request where
  "sample_request =
     \<lparr>RemoteAddr = ''10.0.0.7:4711'', Host = ''app.example.com'', Method = ''GET'',
      url_Path = ''/'', url_RawQuery = [],
      Header = [''X-Forwarded-For'' \<mapsto> [''6.6.6.6, 203.0.113.9, 10.0.0.2'']],
      TLS = None, ctx_clientIP = None\<rparr>"

theorem untrusted_peer_cannot_spoof_witness:
  "Derive (sample_request\<lparr>Header := [''X-Forwarded-For'' \<mapsto> [''1.1.1.1'']]\<rparr>) (Compile [''192.168.0.0/16''])
     = (PeerIP sample_request, False)"
proof (rule untrusted_peer_cannot_spoof)
  have "PeerIP sample_request = Some [0,0,0,0,0,0,0,0,0,0,255,255,10,0,0,7]" by code_simp
  moreover have "\<not> InNets [0,0,0,0,0,0,0,0,0,0,255,255,10,0,0,7] (Compile [''192.168.0.0/16''])"
    by code_simp
  ultimately show "\<forall>p. PeerIP sample_request = Some p \<longrightarrow> \<not> InNets p (Compile [''192.168.0.0/16''])"
    by simp
qed

text \<open>C2: From a trusted peer the chain is read from the right: past trusted hops, the first entry
  that is not trusted is the client, and an entry that is not a usable address ends the walk at the
  peer. In both cases nothing to the left of that entry can change the result.\<close>

theorem derive_rightmost_untrusted:
  assumes "PeerIP r = Some p" and "InNets p trusted"
    and "ForwardedChain r = ls @ e # rs" and "list_all (trusted_hop trusted) rs"
    and "\<not> trusted_hop trusted e"
  shows "Derive r trusted = ((case ParseForwardedEntry e of Some a \<Rightarrow> Some a | None \<Rightarrow> Some p), True)"
proof (cases "ParseForwardedEntry e")
  case None
  have "derive_walk trusted (rev rs @ e # rev ls) = None"
    using assms(4) None
  proof (induction rs rule: rev_induct)
    case (snoc x xs)
    then show ?case by (simp add: derive_walk_trusted del: derive_walk.simps)
  qed simp
  then have "derive_walk trusted (rev (ForwardedChain r)) = None"
    using assms(3,4) by simp
  with assms(1,2) None show ?thesis by (simp add: Derive_def)
next
  case (Some a)
  with assms(5) have "\<not> InNets a trusted" by (auto simp: trusted_hop_def)
  with Some assms(3,4) have "derive_walk trusted (rev (ForwardedChain r)) = Some a"
    using derive_walk_hit [of e a trusted "rev rs" "rev ls"] by simp
  with assms(1,2) Some show ?thesis by (simp add: Derive_def)
qed

theorem derive_rightmost_untrusted_witness:
  "Derive sample_request (Compile [''10.0.0.0/8'']) =
     ((case ParseForwardedEntry ''203.0.113.9'' of Some a \<Rightarrow> Some a
        | None \<Rightarrow> Some [0,0,0,0,0,0,0,0,0,0,255,255,10,0,0,7]), True)"
proof (rule derive_rightmost_untrusted)
  show "PeerIP sample_request = Some [0,0,0,0,0,0,0,0,0,0,255,255,10,0,0,7]" by code_simp
  show "InNets [0,0,0,0,0,0,0,0,0,0,255,255,10,0,0,7] (Compile [''10.0.0.0/8''])" by code_simp
  show "ForwardedChain sample_request = [''6.6.6.6''] @ ''203.0.113.9'' # [''10.0.0.2'']" by code_simp
  have "ParseForwardedEntry ''10.0.0.2'' = Some [0,0,0,0,0,0,0,0,0,0,255,255,10,0,0,2]" by code_simp
  moreover have "InNets [0,0,0,0,0,0,0,0,0,0,255,255,10,0,0,2] (Compile [''10.0.0.0/8''])" by code_simp
  ultimately show "list_all (trusted_hop (Compile [''10.0.0.0/8''])) [''10.0.0.2'']"
    by (simp add: trusted_hop_def)
  have "ParseForwardedEntry ''203.0.113.9'' = Some [0,0,0,0,0,0,0,0,0,0,255,255,203,0,113,9]" by code_simp
  moreover have "\<not> InNets [0,0,0,0,0,0,0,0,0,0,255,255,203,0,113,9] (Compile [''10.0.0.0/8''])" by code_simp
  ultimately show "\<not> trusted_hop (Compile [''10.0.0.0/8'']) ''203.0.113.9''"
    by (simp add: trusted_hop_def)
qed

text \<open>A bare address in a trusted-proxy or allow list names exactly that address: its network
  holds an address iff the two are equal up to the IPv4-in-IPv6 form.\<close>

lemma ParseNet_bare_address:
  assumes "ParseIP s = Some a" and "CHR ''/'' \<notin> set s"
  shows "\<exists>n. ParseNet s = Some n \<and> (\<forall>x. net_contains n x \<longleftrightarrow> norm_ip x = norm_ip a)"
proof (cases "To4 a")
  case None
  with assms have "ParseNet s = Some \<lparr>net_ip = a, net_mask = CIDRMask 128 16\<rparr>"
    by (simp add: ParseNet_def ParseCIDR_def)
  with contains_host_mask6 [OF None ParseIP_length [OF assms(1)]] None show ?thesis
    by (simp add: norm_ip_def [of a])
next
  case (Some b)
  with assms have "ParseNet s = Some \<lparr>net_ip = a, net_mask = CIDRMask 32 4\<rparr>"
    by (simp add: ParseNet_def ParseCIDR_def)
  with contains_host_mask [OF Some] show ?thesis by simp
qed

end
