(* ===== verification/Basic_Auth.thy ===== *)
theory Basic_Auth
  imports Failure_Gate Client_IP
begin

text \<open>
  HTTP basic auth on the data plane: the credential set and its verifier
  (\<open>internal/dataplane/basicauth.go\<close>), the throttle key (\<open>authGateKey\<close> of \<open>accesslist.go\<close>) and the
  rules a configured credential set must satisfy (\<open>internal/model/basicauth.go\<close>).

  bcrypt is a third-party package: \<open>CompareHashAndPassword\<close> is the argument \<open>bcrypt\<close>, a predicate on
  hash and password. The wait for a slot of \<open>bcryptSem\<close> is the argument \<open>acquired\<close>, false when the
  request's context ended first. Log lines and the body of an error page are not modelled: a refusal
  is its status, the reason it is counted under and its challenge.
\<close>

section \<open>The Authorization header\<close>

text \<open>\<open>Request.BasicAuth\<close>: a case-insensitive \<open>Basic\<close> scheme, standard base64 with padding (line
  breaks ignored), cut at the first colon.\<close>

definition b64_val :: "char \<Rightarrow> nat option" where
  "b64_val c =
     (let b = byte_of c in
      if 65 \<le> b \<and> b \<le> 90 then Some (b - 65)
      else if 97 \<le> b \<and> b \<le> 122 then Some (b - 71)
      else if 48 \<le> b \<and> b \<le> 57 then Some (b + 4)
      else if b = 43 then Some 62
      else if b = 47 then Some 63
      else None)"

definition b64_quad :: "nat \<Rightarrow> nat \<Rightarrow> nat \<Rightarrow> nat \<Rightarrow> string" where
  "b64_quad a b c d =
     [char_of (a * 4 + b div 16), char_of (b mod 16 * 16 + c div 4), char_of (c mod 4 * 64 + d)]"

fun b64_decode :: "string \<Rightarrow> string option" where
  "b64_decode [] = Some []"
| "b64_decode (a # b # c # d # r) =
     (case (b64_val a, b64_val b) of
        (Some va, Some vb) \<Rightarrow>
          if c = CHR ''='' then (if d = CHR ''='' \<and> r = [] then Some (take 1 (b64_quad va vb 0 0)) else None)
          else (case b64_val c of
                  None \<Rightarrow> None
                | Some vc \<Rightarrow>
                    if d = CHR ''='' then (if r = [] then Some (take 2 (b64_quad va vb vc 0)) else None)
                    else (case b64_val d of
                            None \<Rightarrow> None
                          | Some vd \<Rightarrow> map_option (\<lambda>t. b64_quad va vb vc vd @ t) (b64_decode r)))
      | _ \<Rightarrow> None)"
| "b64_decode _ = None"

definition req_BasicAuth :: "http_request \<Rightarrow> (string \<times> string) option" where
  "req_BasicAuth r =
     (let auth = hdr_Get (Header r) ''Authorization'' in
      if length auth < 6 \<or> ToLower (take 6 auth) \<noteq> ''basic '' then None
      else case b64_decode (filter (\<lambda>c. byte_of c \<noteq> 10 \<and> byte_of c \<noteq> 13) (drop 6 auth)) of
        None \<Rightarrow> None
      | Some cs \<Rightarrow> if CHR '':'' \<in> set cs then Some (before (CHR '':'') cs, after (CHR '':'') cs) else None)"

section \<open>Verifying credentials\<close>

record basic_auth_user =
  Username :: string
  PasswordHash :: string

definition compileBasicAuthUsers :: "basic_auth_user list \<Rightarrow> (string \<times> string) list" where
  "compileBasicAuthUsers us = foldl (\<lambda>m u. AList.update (Username u) (PasswordHash u) m) [] us"

type_synonym bcrypt_compare = "string \<Rightarrow> string \<Rightarrow> bool"

definition verify :: "bcrypt_compare \<Rightarrow> bool \<Rightarrow> (string \<times> string) list \<Rightarrow> http_request \<Rightarrow> bool" where
  "verify bcrypt acquired users r =
     (case req_BasicAuth r of
        None \<Rightarrow> False
      | Some (user, pass) \<Rightarrow>
          if \<not> acquired then False
          else case map_of users user of None \<Rightarrow> False | Some hash \<Rightarrow> bcrypt hash pass)"

definition authGateKey :: "(http_request \<Rightarrow> ip option) option \<Rightarrow> http_request \<Rightarrow> string" where
  "authGateKey ipOf r =
     (let a = (case ipOf of Some f \<Rightarrow> f r | None \<Rightarrow> PeerIP r)
      in if a = None then ''unknown'' else ipBucketKey a)"

text \<open>The lockout parameters; \<open>time.Duration\<close> is in nanoseconds.\<close>

definition maxBasicAuthFails :: nat where "maxBasicAuthFails = 5"
definition basicAuthLockout :: int where "basicAuthLockout = 15 * 60 * 1000000000"
definition maxBasicAuthKeys :: nat where "maxBasicAuthKeys = 4096"

text \<open>The throttled verification both basic-auth tiers run: whether the credentials are accepted,
  and the new gate. A request that presents no credentials is not counted.\<close>

definition throttled_verify :: "int \<Rightarrow> string \<Rightarrow> bool \<Rightarrow> bool \<Rightarrow> gate \<Rightarrow> bool \<times> gate" where
  "throttled_verify now key presented ok g =
     (case authGate_atLimit now key g of
        (True, g') \<Rightarrow> (False, g')
      | (False, g') \<Rightarrow>
          (ok, if presented then if ok then authGate_clear key g' else authGate_record now key g'
               else g'))"

section \<open>The auth tier's basic mode\<close>

datatype verdict = Pass | Refuse (status: nat) (reason: string) (challenge: "string option")

record basic_auth_spec =
  spec_Users :: "basic_auth_user list"
  Realm :: string

definition RealmOrDefault :: "basic_auth_spec \<Rightarrow> string \<Rightarrow> string" where
  "RealmOrDefault b dflt = (if Realm b = [] then dflt else Realm b)"

definition failClosed :: verdict where
  "failClosed = Refuse 503 [] None"

definition basic_challenge :: "string \<Rightarrow> string" where
  "basic_challenge realm = ''Basic realm='' @ [CHR 0x22] @ realm @ [CHR 0x22]"

definition net_exempt :: "(http_request \<Rightarrow> ip option) option \<Rightarrow> ipnet list \<Rightarrow> http_request \<Rightarrow> bool" where
  "net_exempt clientIP allowNets r \<longleftrightarrow>
     allowNets \<noteq> [] \<and>
     (case clientIP of
        None \<Rightarrow> False
      | Some f \<Rightarrow> (case f r of None \<Rightarrow> False | Some a \<Rightarrow> InNets a allowNets))"

definition basicAuthGate ::
  "bcrypt_compare \<Rightarrow> basic_auth_spec option \<Rightarrow> string \<Rightarrow> (http_request \<Rightarrow> ip option) option \<Rightarrow> ipnet list \<Rightarrow>
   int \<Rightarrow> bool \<Rightarrow> http_request \<Rightarrow> gate \<Rightarrow> verdict \<times> gate" where
  "basicAuthGate bcrypt spec realm clientIP allowNets now acquired r g =
     (case spec of
        None \<Rightarrow> (failClosed, g)
      | Some b \<Rightarrow>
          (let users = compileBasicAuthUsers (spec_Users b) in
           if users = [] then (failClosed, g)
           else if net_exempt clientIP allowNets r then (Pass, g)
           else case throttled_verify now (authGateKey clientIP r) (req_BasicAuth r \<noteq> None)
                       (verify bcrypt acquired users r) g of
                  (True, g') \<Rightarrow> (Pass, g')
                | (False, g') \<Rightarrow>
                    (Refuse 401 ''auth-basic'' (Some (basic_challenge (RealmOrDefault b realm))), g')))"

section \<open>Validating a credential set\<close>

definition MaxBasicAuthRealmLen :: nat where "MaxBasicAuthRealmLen = 128"
definition MaxBasicAuthUsers :: nat where "MaxBasicAuthUsers = 64"

definition looksLikeBcrypt :: "string \<Rightarrow> bool" where
  "looksLikeBcrypt h \<longleftrightarrow>
     length h = 60 \<and> take 4 h \<in> {''$2a$'', ''$2b$'', ''$2y$''} \<and>
     is_digit (h ! 4) \<and> is_digit (h ! 5) \<and> h ! 6 = CHR ''$''"

datatype basic_error =
  NoUsers | TooManyUsers nat | NoUsername | BadUsername string | DuplicateUser string
  | NoHash string | NotBcrypt string | RealmTooLong nat | BadRealmChar char

fun validate_users :: "string list \<Rightarrow> basic_auth_user list \<Rightarrow> basic_error option" where
  "validate_users seen [] = None"
| "validate_users seen (u # us) =
     (if Username u = [] then Some NoUsername
      else if contains_any (Username u) [CHR '':'', CHR 0x0D, CHR 0x0A] then Some (BadUsername (Username u))
      else if Username u \<in> set seen then Some (DuplicateUser (Username u))
      else if PasswordHash u = [] then Some (NoHash (Username u))
      else if \<not> looksLikeBcrypt (PasswordHash u) then Some (NotBcrypt (Username u))
      else validate_users (Username u # seen) us)"

definition bad_realm_char :: "char \<Rightarrow> bool" where
  "bad_realm_char c \<longleftrightarrow> c = CHR 0x22 \<or> c = CHR 0x5C \<or> byte_of c < 32 \<or> byte_of c > 126"

definition validate_basic :: "basic_auth_spec \<Rightarrow> basic_error option" where
  "validate_basic b =
     (if spec_Users b = [] then Some NoUsers
      else if length (spec_Users b) > MaxBasicAuthUsers then Some (TooManyUsers (length (spec_Users b)))
      else case validate_users [] (spec_Users b) of
        Some e \<Rightarrow> Some e
      | None \<Rightarrow>
          if length (Realm b) > MaxBasicAuthRealmLen then Some (RealmTooLong (length (Realm b)))
          else case find bad_realm_char (Realm b) of Some c \<Rightarrow> Some (BadRealmChar c) | None \<Rightarrow> None)"

lemmas [go_eval] = b64_val_def b64_quad_def req_BasicAuth_def compileBasicAuthUsers_def verify_def
  authGateKey_def maxBasicAuthFails_def basicAuthLockout_def maxBasicAuthKeys_def throttled_verify_def
  RealmOrDefault_def failClosed_def basic_challenge_def net_exempt_def basicAuthGate_def
  looksLikeBcrypt_def bad_realm_char_def validate_basic_def

section \<open>What a validated credential set gives\<close>

lemma validate_users_distinct:
  "validate_users seen us = None \<Longrightarrow> distinct (map Username us) \<and> set (map Username us) \<inter> set seen = {}"
proof (induction us arbitrary: seen)
  case (Cons u us)
  then have "Username u \<notin> set seen" "validate_users (Username u # seen) us = None"
    by (auto split: if_splits)
  with Cons.IH [OF this(2)] show ?case by auto
qed simp

lemma compileBasicAuthUsers_empty: "compileBasicAuthUsers us = [] \<longleftrightarrow> us = []"
proof -
  have ne: "AList.update k v m \<noteq> []" for k v and m :: "(string \<times> string) list"
    by (cases m) auto
  have "foldl (\<lambda>m u. AList.update (Username u) (PasswordHash u) m) m us = [] \<longleftrightarrow> m = [] \<and> us = []" for m
    by (induction us arbitrary: m) (simp_all add: ne)
  then show ?thesis by (simp add: compileBasicAuthUsers_def)
qed

lemma validated_lookup:
  assumes "validate_users [] us = None"
  shows "map_of (compileBasicAuthUsers us) n = Some h \<longleftrightarrow>
         (\<exists>u \<in> set us. Username u = n \<and> PasswordHash u = h)"
  unfolding compileBasicAuthUsers_def
  by (rule fold_update_iff) (use validate_users_distinct [OF assms] in simp)

text \<open>The credentials of a request match a configured user.\<close>

definition right_password :: "bcrypt_compare \<Rightarrow> basic_auth_user list \<Rightarrow> http_request \<Rightarrow> bool" where
  "right_password bcrypt us r \<longleftrightarrow>
     list_ex (\<lambda>u. case req_BasicAuth r of
        None \<Rightarrow> False | Some (n, p) \<Rightarrow> n = Username u \<and> bcrypt (PasswordHash u) p) us"

lemma verify_iff:
  assumes "validate_users [] us = None"
  shows "verify bcrypt acquired (compileBasicAuthUsers us) r \<longleftrightarrow> acquired \<and> right_password bcrypt us r"
proof (cases "req_BasicAuth r")
  case (Some np)
  obtain n p where np: "np = (n, p)" by (cases np)
  show ?thesis
  proof (cases "map_of (compileBasicAuthUsers us) n")
    case None
    then have "\<forall>u \<in> set us. Username u \<noteq> n" using validated_lookup [OF assms, of n] by auto
    with Some np None show ?thesis by (auto simp: verify_def right_password_def list_ex_iff)
  next
    case (Some h)
    have ex: "\<exists>u \<in> set us. Username u = n \<and> PasswordHash u = h"
      using validated_lookup [OF assms, of n h] Some by simp
    have uniq: "PasswordHash u = h" if "u \<in> set us" "Username u = n" for u
    proof -
      have "map_of (compileBasicAuthUsers us) n = Some (PasswordHash u)"
        unfolding validated_lookup [OF assms] using that by blast
      with Some show ?thesis by simp
    qed
    have "list_ex (\<lambda>u. n = Username u \<and> bcrypt (PasswordHash u) p) us \<longleftrightarrow> bcrypt h p"
    proof
      assume "list_ex (\<lambda>u. n = Username u \<and> bcrypt (PasswordHash u) p) us"
      then obtain v where v: "v \<in> set us" "Username v = n" "bcrypt (PasswordHash v) p"
        unfolding list_ex_iff by metis
      with uniq [OF v(1,2)] show "bcrypt h p" by simp
    next
      assume "bcrypt h p"
      with ex show "list_ex (\<lambda>u. n = Username u \<and> bcrypt (PasswordHash u) p) us"
        unfolding list_ex_iff by metis
    qed
    with Some np \<open>req_BasicAuth r = Some np\<close> show ?thesis
      by (simp add: verify_def right_password_def)
  qed
qed (simp add: verify_def right_password_def list_ex_iff)

lemma validate_basicD:
  assumes "validate_basic b = None"
  shows "spec_Users b \<noteq> []" "validate_users [] (spec_Users b) = None"
    "list_all (\<lambda>c. \<not> bad_realm_char c) (Realm b)"
  using assms by (auto simp: validate_basic_def find_None_iff list_all_iff split: if_splits option.splits)

section \<open>The gate as seen by the throttle\<close>

text \<open>What one request means to the throttle: its time, its key, and whether it presented the right
  credentials, the wrong ones, or none.\<close>

definition basic_event ::
  "bcrypt_compare \<Rightarrow> (string \<times> string) list \<Rightarrow> (http_request \<Rightarrow> ip option) option \<Rightarrow>
   int \<times> bool \<times> http_request \<Rightarrow> int \<times> string \<times> bool option" where
  "basic_event bcrypt users clientIP e =
     (case e of (now, acquired, r) \<Rightarrow>
        (now, authGateKey clientIP r,
         if req_BasicAuth r = None then None else Some (verify bcrypt acquired users r)))"

lemma throttled_verify_attempt:
  "verify bcrypt acquired users r \<Longrightarrow> req_BasicAuth r \<noteq> None"
  "snd (throttled_verify now (authGateKey clientIP r) (req_BasicAuth r \<noteq> None) (verify bcrypt acquired users r) g) =
   snd (attempt authGate_atLimit authGate_record authGate_clear
          (basic_event bcrypt users clientIP (now, acquired, r)) g)"
  by (auto simp: verify_def throttled_verify_def attempt_def basic_event_def
      split: option.splits bool.splits prod.splits)

definition serve_basic ::
  "bcrypt_compare \<Rightarrow> basic_auth_spec option \<Rightarrow> string \<Rightarrow> (http_request \<Rightarrow> ip option) option \<Rightarrow> ipnet list \<Rightarrow>
   (int \<times> bool \<times> http_request) list \<Rightarrow> gate \<Rightarrow> verdict list \<times> gate" where
  "serve_basic bcrypt spec realm clientIP allowNets =
     run_all (\<lambda>(now, acquired, r). basicAuthGate bcrypt spec realm clientIP allowNets now acquired r)"

lemma basicAuthGate_state:
  assumes "spec_Users b \<noteq> []"
  shows "snd (basicAuthGate bcrypt (Some b) realm clientIP nets now acquired r g) =
     (if net_exempt clientIP nets r then g
      else snd (attempt authGate_atLimit authGate_record authGate_clear
             (basic_event bcrypt (compileBasicAuthUsers (spec_Users b)) clientIP (now, acquired, r)) g))"
proof -
  let ?u = "compileBasicAuthUsers (spec_Users b)"
  have "snd (case throttled_verify now k p ok g of (True, g') \<Rightarrow> (x, g') | (False, g') \<Rightarrow> (y, g')) =
        snd (throttled_verify now k p ok g)" for k p ok and x y :: verdict
    by (simp split: prod.split bool.split)
  with assms throttled_verify_attempt(2) [of now clientIP r bcrypt acquired ?u g] show ?thesis
    by (simp add: basicAuthGate_def Let_def compileBasicAuthUsers_empty)
qed

lemma serve_basic_attempts:
  assumes "spec_Users b \<noteq> []"
  shows "snd (serve_basic bcrypt (Some b) realm clientIP nets rs g) =
     snd (attempts authGate_atLimit authGate_record authGate_clear
       (map (basic_event bcrypt (compileBasicAuthUsers (spec_Users b)) clientIP)
         (filter (\<lambda>(now, acquired, r). \<not> net_exempt clientIP nets r) rs)) g)"
proof (induction rs arbitrary: g)
  case (Cons e rs)
  obtain now acquired r where e: "e = (now, acquired, r)" by (cases e)
  from Cons show ?case
    unfolding serve_basic_def snd_run_all_Cons
    by (simp only: e list.map filter.simps prod.case if_distrib attempts_Cons
        basicAuthGate_state [OF assms] split: if_split) simp
qed (simp add: serve_basic_def)

section \<open>Properties\<close>

text \<open>Who passes the basic-auth gate. For a validated credential set a request passes exactly
  when its client is in an exempt network, or its client is not locked out and it presents the name
  and password of a configured user. Every other request gets one and the same answer, whether the
  name was unknown, the password wrong, the header absent or the client locked out, so the answer
  tells an attacker nothing about which.\<close>

theorem basicAuthGate_admits:
  assumes "validate_basic b = None"
  shows "fst (basicAuthGate bcrypt (Some b) realm clientIP nets now acquired r g) =
     (if net_exempt clientIP nets r \<or>
         \<not> fst (authGate_atLimit now (authGateKey clientIP r) g) \<and> acquired \<and>
         right_password bcrypt (spec_Users b) r
      then Pass
      else Refuse 401 ''auth-basic'' (Some (basic_challenge (RealmOrDefault b realm))))"
  using validate_basicD(1) [OF assms] verify_iff [OF validate_basicD(2) [OF assms]]
  by (auto simp: basicAuthGate_def Let_def compileBasicAuthUsers_empty throttled_verify_def
      split: prod.splits bool.splits)

definition sample_hash :: string where
  "sample_hash = ''$2a$10$'' @ replicate 53 (CHR ''x'')"

definition sample_spec :: basic_auth_spec where
  "sample_spec = \<lparr>spec_Users = [\<lparr>Username = ''ops'', PasswordHash = sample_hash\<rparr>], Realm = []\<rparr>"

lemma sample_hash_shape: "looksLikeBcrypt sample_hash" "sample_hash \<noteq> []"
  by (simp_all add: looksLikeBcrypt_def sample_hash_def nth_append is_digit_def byte_of_def)

lemma sample_spec_valid: "validate_basic sample_spec = None"
  by (simp add: validate_basic_def sample_spec_def sample_hash_shape contains_any_def
      MaxBasicAuthUsers_def MaxBasicAuthRealmLen_def)

definition sample_login :: http_request where
  "sample_login = sample_request\<lparr>Header := [''Authorization'' \<mapsto> [''Basic b3BzOnB3'']]\<rparr>"

lemma sample_login_creds: "req_BasicAuth sample_login = Some (''ops'', ''pw'')"
  by code_simp

theorem basicAuthGate_admits_witness:
  "fst (basicAuthGate (\<lambda>h p. p = ''pw'') (Some sample_spec) ''app'' None [] 0 True sample_login
     (newAuthGate basicAuthLockout maxBasicAuthFails maxBasicAuthKeys)) = Pass"
  by (subst basicAuthGate_admits [OF sample_spec_valid])
     (simp add: right_password_def sample_login_creds sample_spec_def authGate_atLimit_def
       newAuthGate_def lookup_gate_def maxBasicAuthKeys_def)

text \<open>The basic-auth gate throttles every run of requests. Serving any requests in the order of
  time, the gate goes through the same states as the failure throttle does on the requests outside
  the exempt networks; so within one lockout window at most \<open>limit\<close> passwords of a client that never
  presents a right one are compared, and the throttle's map keeps its bound.\<close>

theorem basicAuthGate_throttles:
  assumes "spec_Users b \<noteq> []" and "gate_inv g" "0 < limit g"
    and evs: "evs = map (basic_event bcrypt (compileBasicAuthUsers (spec_Users b)) clientIP)
                (filter (\<lambda>(now, acquired, r). \<not> net_exempt clientIP nets r) rs)"
    and "within t0 t1 evs" "t1 \<le> t0 + window g" "no_success k evs"
  shows "snd (serve_basic bcrypt (Some b) realm clientIP nets rs g) =
           snd (attempts authGate_atLimit authGate_record authGate_clear evs g) \<and>
         count_list (fst (attempts authGate_atLimit authGate_record authGate_clear evs g)) k \<le> limit g \<and>
         gate_inv (snd (serve_basic bcrypt (Some b) realm clientIP nets rs g))"
  using serve_basic_attempts [OF assms(1), of bcrypt realm clientIP nets rs g]
    data_gate.guesses_bounded [OF assms(2,3,5,7,6)] data_gate.attempts_inv [OF assms(2)]
  by (simp add: evs)

theorem basicAuthGate_throttles_witness:
  "gate_inv (snd (serve_basic (\<lambda>h p. False) (Some sample_spec) ''app'' None []
     [(0, True, sample_login), (7, True, sample_login)] (newAuthGate 900 1 10)))"
proof -
  let ?rs = "[(0::int, True, sample_login), (7, True, sample_login)]"
  let ?evs = "map (basic_event (\<lambda>h p. False) (compileBasicAuthUsers (spec_Users sample_spec)) None)
                (filter (\<lambda>(now, acquired, r). \<not> net_exempt None [] r) ?rs)"
  have w: "within 0 7 ?evs" and ns: "no_success ''x'' ?evs"
    by (simp_all add: net_exempt_def basic_event_def within_def no_success_def verify_def split: option.splits)
  have c: "0 < limit (newAuthGate 900 1 10)" "7 \<le> 0 + window (newAuthGate 900 1 10)" by simp_all
  from basicAuthGate_throttles [OF validate_basicD(1) [OF sample_spec_valid] new_gate_inv(1) c(1) refl w c(2) ns]
  show ?thesis by blast
qed

end
