(* ===== verification/Url_Path.thy ===== *)
theory Url_Path
  imports Http_Request
begin

text \<open>
  Request paths: the canonical form every matcher and the upstream agree on, and the operations on
  it. Models \<open>cleanPath\<close>, \<open>normalizeRequestPath\<close>, \<open>normalizeLocationPrefix\<close>, \<open>hostKey\<close> and
  \<open>validHostHeader\<close> of \<open>internal/dataplane/router.go\<close>, \<open>hostHandler.route\<close>,
  \<open>joinUpstreamBasePath\<close> and \<open>confineUpstreamPath\<close> of \<open>proxy.go\<close>, and all of \<open>rewrite.go\<close>.

  \<open>path.Clean\<close> works on the list of slash-separated segments; the canonical paths are exactly
  the strings \<open>seg_path segs trailing\<close> with plain segments, which turns prefix matching of strings
  into prefix matching of segment lists.
\<close>

section \<open>path.Clean and cleanPath\<close>

fun clean_segs :: "bool \<Rightarrow> string list \<Rightarrow> string list \<Rightarrow> string list" where
  "clean_segs rooted out [] = rev out"
| "clean_segs rooted out (s # ss) =
     (if s = [] \<or> s = ''.'' then clean_segs rooted out ss
      else if s = ''..'' then
        (case out of
           [] \<Rightarrow> clean_segs rooted (if rooted then [] else [''..'']) ss
         | t # out' \<Rightarrow> clean_segs rooted (if t = ''..'' then ''..'' # out else out') ss)
      else clean_segs rooted (s # out) ss)"

definition path_Clean :: "string \<Rightarrow> string" where
  "path_Clean p =
     (let rooted = (p \<noteq> [] \<and> hd p = CHR ''/'');
          body = join_with ''/'' (clean_segs rooted [] (split_on (CHR ''/'') p))
      in if rooted then CHR ''/'' # body else if body = [] then ''.'' else body)"

definition cleanPath :: "string \<Rightarrow> string" where
  "cleanPath p0 =
     (if p0 = [] then ''/''
      else let p = (if hd p0 \<noteq> CHR ''/'' then CHR ''/'' # p0 else p0);
               np = path_Clean p
           in if last p = CHR ''/'' \<and> np \<noteq> ''/'' then np @ ''/'' else np)"

text \<open>A path is refused when its cleaned form holds a backslash or a semicolon.\<close>

definition normalizeRequestPath :: "http_request \<Rightarrow> http_request option" where
  "normalizeRequestPath r =
     (let p = cleanPath (url_Path r)
      in if contains_any p [CHR 0x5C, CHR '';''] then None else Some (r\<lparr>url_Path := p\<rparr>))"

definition normalizeLocationPrefix :: "string \<Rightarrow> string" where
  "normalizeLocationPrefix p =
     (let c = cleanPath p in if c \<noteq> ''/'' then trim_right (\<lambda>x. x = CHR ''/'') c else c)"

section \<open>Host names\<close>

definition hostKey :: "string \<Rightarrow> string" where
  "hostKey h = ToLower (TrimSpace (before (CHR '':'') h))"

definition validPort :: "string \<Rightarrow> bool" where
  "validPort port \<longleftrightarrow>
     \<not> (length port > 5 \<or> (length port > 1 \<and> hd port = CHR ''0'')) \<and> list_all is_digit port \<and>
     1 \<le> digits_val port \<and> digits_val port \<le> 65535"

text \<open>The split of a Host header into host and port, \<^const>\<open>None\<close> where it is rejected outright.\<close>

definition splitHostHeader :: "string \<Rightarrow> (string \<times> string) option" where
  "splitHostHeader h =
     (if hd h = CHR ''['' then
        (if CHR '']'' \<notin> set h then None
         else let e = length (before (CHR '']'') h); rest = drop (e + 1) h in
           (case ParseAddr (take (e - 1) (drop 1 h)) of
              None \<Rightarrow> None
            | Some a \<Rightarrow>
                if \<not> Is6 a then None
                else if rest = [] then Some (take (e + 1) h, [])
                else if hd rest \<noteq> CHR '':'' \<or> length rest = 1 then None
                else Some (take (e + 1) h, tl rest)))
      else if CHR '':'' \<in> set h then
        (let port = after (CHR '':'') h in
         if port = [] \<or> CHR '':'' \<in> set port then None else Some (before (CHR '':'') h, port))
      else Some (h, []))"

definition validHostHeader :: "string \<Rightarrow> bool" where
  "validHostHeader h =
     (if h = [] then False
      else case splitHostHeader h of
          None \<Rightarrow> False
        | Some (host, port) \<Rightarrow>
            if host = [] \<or> contains_any host ('' /'' @ [CHR 0x5C] @ ''?#@'') then False
            else port = [] \<or> validPort port)"

section \<open>Locations\<close>

record 'h location_route =
  lr_prefix :: string
  lr_handler :: 'h
  lr_upstream :: string

text \<open>The segment-boundary test \<open>route\<close>, the prefix strip and the rewrite rules share.\<close>

definition on_prefix :: "string \<Rightarrow> string \<Rightarrow> bool" where
  "on_prefix pre p \<longleftrightarrow> p = pre \<or> Sublist.prefix (pre @ ''/'') p"

definition route :: "'h location_route list \<Rightarrow> 'h \<times> string \<Rightarrow> string \<Rightarrow> 'h \<times> string" where
  "route locs dflt path =
     (case find (\<lambda>l. lr_prefix l = ''/'' \<or> on_prefix (lr_prefix l) path) locs of
        Some l \<Rightarrow> (lr_handler l, lr_upstream l)
      | None \<Rightarrow> dflt)"

text \<open>\<open>buildLocations\<close> orders the configured locations by the length of the path as written,
  longest first, before it normalises each into a route prefix.\<close>

definition order_locations :: "(string \<times> 'a) list \<Rightarrow> (string \<times> 'a) list" where
  "order_locations locs = sort_stable (\<lambda>a b. length (fst a) > length (fst b)) locs"

definition location_routes :: "(string \<times> 'h \<times> string) list \<Rightarrow> 'h location_route list" where
  "location_routes locs =
     map (\<lambda>(p, h, u). \<lparr>lr_prefix = normalizeLocationPrefix p, lr_handler = h, lr_upstream = u\<rparr>) (order_locations locs)"

section \<open>Prefix strip and rewrite\<close>

definition stripPrefix :: "string \<Rightarrow> string \<Rightarrow> string" where
  "stripPrefix pre p =
     (if pre = [] \<or> pre = ''/'' then p
      else if p = pre then ''/''
      else if Sublist.prefix (pre @ ''/'') p then drop (length pre) p
      else p)"

definition applyPrefixRule :: "string \<Rightarrow> string \<Rightarrow> string \<Rightarrow> string option" where
  "applyPrefixRule p from0 to0 =
     (let from = TrimSuffix from0 ''/''; to = TrimSuffix to0 ''/'' in
      if from = [] then (if to = [] then None else Some (to @ p))
      else if p = from then Some (if to = [] then ''/'' else to)
      else if Sublist.prefix (from @ ''/'') p then Some (to @ drop (length from) p)
      else None)"

text \<open>A compiled regular expression is the function from a path to the expanded replacement
  followed by the unmatched rest, \<^const>\<open>None\<close> where it does not match.\<close>

type_synonym regex_rule = "string \<Rightarrow> string option"

record rewrite_rules =
  rw_exact :: "string \<rightharpoonup> string"
  prefix_rules :: "(string \<times> string) list"
  regex_rules :: "regex_rule list"

definition compile_prefix_rules :: "(string \<times> string) list \<Rightarrow> (string \<times> string) list" where
  "compile_prefix_rules rs = sort_stable (\<lambda>a b. length (fst a) > length (fst b)) rs"

fun first_some :: "('a \<Rightarrow> 'b option) \<Rightarrow> 'a list \<Rightarrow> 'b option" where
  "first_some f [] = None"
| "first_some f (x # xs) = (case f x of Some y \<Rightarrow> Some y | None \<Rightarrow> first_some f xs)"

definition rewritePath :: "rewrite_rules \<Rightarrow> string \<Rightarrow> string option" where
  "rewritePath c p =
     (case rw_exact c p of
        Some to \<Rightarrow> Some to
      | None \<Rightarrow>
          (case first_some (\<lambda>(from, to). applyPrefixRule p from to) (prefix_rules c) of
             Some to \<Rightarrow> Some to
           | None \<Rightarrow> first_some (\<lambda>re. re p) (regex_rules c)))"

definition safeRewritten :: "string \<Rightarrow> string option" where
  "safeRewritten p = (if contains_any p [CHR 0x5C, CHR '';''] then None else Some (cleanPath p))"

text \<open>The path handed inwards by \<open>rewriteHandler\<close>; \<^const>\<open>None\<close> is the 400 answer.\<close>

definition rewriteHandler :: "rewrite_rules \<Rightarrow> string \<Rightarrow> string option" where
  "rewriteHandler c p = (case rewritePath c p of None \<Rightarrow> Some p | Some to \<Rightarrow> safeRewritten to)"

section \<open>Upstream base path\<close>

definition confineUpstreamPath :: "string \<Rightarrow> string \<Rightarrow> string" where
  "confineUpstreamPath base0 p =
     (if p = [] then p
      else let out = cleanPath p; base = TrimSuffix base0 ''/'' in
        if base = [] \<or> base = ''/'' then out
        else if out = base \<or> Sublist.prefix (base @ ''/'') out then out
        else base @ ''/'')"

definition joinUpstreamBasePath :: "string \<Rightarrow> string \<Rightarrow> string" where
  "joinUpstreamBasePath base0 p =
     (let base = TrimSuffix base0 ''/'' in
      if base = [] then p
      else confineUpstreamPath base
             (if p = [] then base @ ''/''
              else if \<not> Sublist.prefix ''/'' p then base @ ''/'' @ p
              else base @ p))"

lemmas [go_eval] = path_Clean_def cleanPath_def normalizeRequestPath_def normalizeLocationPrefix_def
  hostKey_def validPort_def splitHostHeader_def validHostHeader_def on_prefix_def route_def
  order_locations_def location_routes_def stripPrefix_def applyPrefixRule_def compile_prefix_rules_def
  rewritePath_def safeRewritten_def rewriteHandler_def confineUpstreamPath_def joinUpstreamBasePath_def

section \<open>Canonical paths\<close>

definition plain_seg :: "string \<Rightarrow> bool" where
  "plain_seg s \<longleftrightarrow> s \<noteq> [] \<and> s \<noteq> ''.'' \<and> s \<noteq> ''..'' \<and> CHR ''/'' \<notin> set s"

definition seg_path :: "string list \<Rightarrow> bool \<Rightarrow> string" where
  "seg_path segs t = CHR ''/'' # join_with ''/'' segs @ (if t \<and> segs \<noteq> [] then ''/'' else [])"

lemma split_on_append_gen: "split_on c (s @ c # t) = split_on c s @ split_on c t"
  by (induction s) (auto split: list.splits)

lemma clean_segs_plain:
  assumes "list_all plain_seg out" "\<forall>s \<in> set ss. CHR ''/'' \<notin> set s"
  shows "list_all plain_seg (clean_segs True out ss)"
  using assms
proof (induction ss arbitrary: out)
  case Nil
  then show ?case by (simp add: list_all_iff)
next
  case (Cons s ss)
  then show ?case by (cases out) (auto simp: plain_seg_def)
qed

lemma clean_segs_id: "list_all plain_seg ss \<Longrightarrow> clean_segs r out ss = rev out @ ss"
  by (induction ss arbitrary: out) (auto simp: plain_seg_def)

lemma clean_segs_snoc_empty: "clean_segs r out (ss @ [[]]) = clean_segs r out ss"
  by (induction ss arbitrary: out) (auto split: list.splits)

lemma split_join_segs:
  assumes "list_all plain_seg segs" "segs \<noteq> []"
  shows "split_on (CHR ''/'') (join_with ''/'' segs) = segs"
  using assms by (intro split_on_join) (auto simp: list_all_iff plain_seg_def)

lemma split_seg_path:
  assumes "list_all plain_seg segs"
  shows "split_on (CHR ''/'') (seg_path segs t) =
    [] # (if segs = [] then [[]] else segs @ (if t then [[]] else []))"
  using split_join_segs [OF assms] split_on_append_gen [of "CHR ''/''" "join_with ''/'' segs" "[]"]
  by (auto simp: seg_path_def)

lemma clean_segs_seg_path:
  "list_all plain_seg segs \<Longrightarrow> clean_segs True [] (split_on (CHR ''/'') (seg_path segs t)) = segs"
  by (simp add: split_seg_path clean_segs_id clean_segs_snoc_empty)

lemma join_plain_last:
  assumes "list_all plain_seg segs" "segs \<noteq> []"
  shows "join_with ''/'' segs \<noteq> [] \<and> last (join_with ''/'' segs) \<noteq> CHR ''/''"
  using assms
proof (induction segs)
  case (Cons x xs)
  then have "x \<noteq> []" "last x \<noteq> CHR ''/''"
    by (auto simp: plain_seg_def) (metis last_in_set)
  with Cons show ?case by (cases "xs = []") (auto simp: join_with_Cons)
qed simp

lemma path_Clean_seg_path:
  assumes "list_all plain_seg segs"
  shows "path_Clean (seg_path segs t) = seg_path segs False"
  using clean_segs_seg_path [OF assms, of t]
  by (simp add: path_Clean_def Let_def) (simp add: seg_path_def)

lemma last_seg_path:
  assumes "list_all plain_seg segs"
  shows "last (seg_path segs t) = CHR ''/'' \<longleftrightarrow> t \<or> segs = []"
  using join_plain_last [OF assms] by (auto simp: seg_path_def)

lemma seg_path_root: "list_all plain_seg segs \<Longrightarrow> seg_path segs t = ''/'' \<longleftrightarrow> segs = []"
  using join_plain_last by (force simp: seg_path_def)

text \<open>Canonical paths are fixed points, and every cleaned path is one.\<close>

lemma cleanPath_seg_path:
  assumes "list_all plain_seg segs"
  shows "cleanPath (seg_path segs t) = seg_path segs t"
proof -
  have "seg_path segs t \<noteq> []" "hd (seg_path segs t) = CHR ''/''" by (simp_all add: seg_path_def)
  then have "cleanPath (seg_path segs t) =
      (if last (seg_path segs t) = CHR ''/'' \<and> seg_path segs False \<noteq> ''/''
       then seg_path segs False @ ''/'' else seg_path segs False)"
    by (simp add: cleanPath_def path_Clean_seg_path [OF assms] Let_def)
  then show ?thesis
    using last_seg_path [OF assms, of t] seg_path_root [OF assms, of False]
    by (auto simp: seg_path_def)
qed

lemma cleanPath_form: "\<exists>segs t. list_all plain_seg segs \<and> cleanPath p = seg_path segs t"
proof (cases "p = []")
  case True
  then have "cleanPath p = seg_path [] False" by (simp add: cleanPath_def seg_path_def)
  then show ?thesis by (intro exI [of _ "[]"] exI [of _ False]) simp
next
  case False
  define q where "q = (if hd p \<noteq> CHR ''/'' then CHR ''/'' # p else p)"
  define segs where "segs = clean_segs True [] (split_on (CHR ''/'') q)"
  have q: "q \<noteq> []" "hd q = CHR ''/''" using False by (auto simp: q_def)
  have plain: "list_all plain_seg segs"
    unfolding segs_def by (rule clean_segs_plain) (auto dest: sep_notin_split_on)
  have np: "path_Clean q = seg_path segs False"
    using q by (simp add: path_Clean_def Let_def segs_def seg_path_def)
  have "cleanPath p = (if last q = CHR ''/'' \<and> seg_path segs False \<noteq> ''/''
      then seg_path segs False @ ''/'' else seg_path segs False)"
    using False np by (simp add: cleanPath_def Let_def q_def [symmetric])
  also have "\<dots> = seg_path segs (last q = CHR ''/'')"
    using seg_path_root [OF plain, of False] by (auto simp: seg_path_def)
  finally show ?thesis using plain by blast
qed

definition segments :: "string \<Rightarrow> string list" where
  "segments p = filter (\<lambda>s. s \<noteq> []) (split_on (CHR ''/'') (cleanPath p))"

lemma segments_seg_path: "list_all plain_seg segs \<Longrightarrow> segments (seg_path segs t) = segs"
  by (auto simp: segments_def cleanPath_seg_path split_seg_path list_all_iff plain_seg_def
      intro!: filter_True)

lemma cleanPath_segments: "list_all plain_seg (segments p)" "\<exists>t. cleanPath p = seg_path (segments p) t"
proof -
  obtain segs t where *: "list_all plain_seg segs" "cleanPath p = seg_path segs t"
    using cleanPath_form by blast
  then have "segments p = segments (seg_path segs t)"
    by (metis cleanPath_seg_path segments_def)
  with * show "list_all plain_seg (segments p)" "\<exists>t. cleanPath p = seg_path (segments p) t"
    by (auto simp: segments_seg_path)
qed

lemma normalizeLocationPrefix_seg_path:
  assumes "list_all plain_seg segs"
  shows "normalizeLocationPrefix (seg_path segs t) = seg_path segs False"
proof (cases "segs = []")
  case True
  then show ?thesis
    using cleanPath_seg_path [OF assms, of t] by (simp add: normalizeLocationPrefix_def seg_path_def)
next
  case False
  define body where "body = CHR ''/'' # join_with ''/'' segs"
  have body: "body \<noteq> []" "last body \<noteq> CHR ''/''"
    using join_plain_last [OF assms False] by (auto simp: body_def)
  then have "trim_right (\<lambda>x. x = CHR ''/'') (body @ ''/'') = body"
    "trim_right (\<lambda>x. x = CHR ''/'') body = body"
    by (cases body rule: rev_cases; auto simp: trim_right_def)+
  with False show ?thesis
    using cleanPath_seg_path [OF assms, of t] seg_path_root [OF assms, of t]
    by (cases t) (simp_all add: normalizeLocationPrefix_def Let_def seg_path_def body_def)
qed

lemma normalizeLocationPrefix_segments: "normalizeLocationPrefix p = seg_path (segments p) False"
proof -
  obtain t where t: "cleanPath p = seg_path (segments p) t" using cleanPath_segments(2) by blast
  have "normalizeLocationPrefix p = normalizeLocationPrefix (seg_path (segments p) t)"
    using t cleanPath_seg_path [OF cleanPath_segments(1)] by (simp add: normalizeLocationPrefix_def)
  then show ?thesis by (simp add: normalizeLocationPrefix_seg_path cleanPath_segments(1))
qed

text \<open>Matching a canonical prefix on a segment boundary is matching the segment lists.\<close>

lemma seg_path_append:
  "ps \<noteq> [] \<Longrightarrow> rs \<noteq> [] \<Longrightarrow> seg_path (ps @ rs) t = seg_path ps False @ seg_path rs t"
proof -
  assume "ps \<noteq> []" "rs \<noteq> []"
  then have "join_with ''/'' (ps @ rs) = join_with ''/'' ps @ ''/'' @ join_with ''/'' rs"
  proof (induction ps)
    case (Cons a ps)
    then show ?case by (cases "ps = []") (auto simp: join_with_Cons)
  qed simp
  with \<open>ps \<noteq> []\<close> \<open>rs \<noteq> []\<close> show ?thesis by (simp add: seg_path_def)
qed

lemma on_prefix_seg_path:
  assumes ps: "list_all plain_seg ps" "ps \<noteq> []" and qs: "list_all plain_seg qs"
  shows "on_prefix (seg_path ps False) (seg_path qs t) \<longleftrightarrow> Sublist.prefix ps qs"
proof
  assume "on_prefix (seg_path ps False) (seg_path qs t)"
  then consider "seg_path qs t = seg_path ps False"
    | rest where "seg_path qs t = (seg_path ps False @ ''/'') @ rest"
    unfolding on_prefix_def by (auto elim: prefixE)
  then show "Sublist.prefix ps qs"
  proof cases
    case 1
    then have "segments (seg_path qs t) = segments (seg_path ps False)" by simp
    then show ?thesis by (simp add: segments_seg_path ps qs)
  next
    case 2
    then have "split_on (CHR ''/'') (seg_path qs t) = split_on (CHR ''/'') (seg_path ps False) @ split_on (CHR ''/'') rest"
      by (simp add: split_on_append_gen)
    then have eq: "(if qs = [] then [[]] else qs @ (if t then [[]] else [])) = ps @ split_on (CHR ''/'') rest"
      using ps by (simp add: split_seg_path ps qs)
    have "Sublist.prefix ps (filter (\<lambda>s. s \<noteq> []) (ps @ split_on (CHR ''/'') rest))"
      using ps by (simp add: list_all_iff plain_seg_def filter_id_conv prefix_def)
    also have "filter (\<lambda>s. s \<noteq> []) (ps @ split_on (CHR ''/'') rest) = qs"
      unfolding eq [symmetric] using qs by (auto simp: list_all_iff plain_seg_def filter_id_conv)
    finally show ?thesis .
  qed
next
  assume "Sublist.prefix ps qs"
  then obtain rs where rs: "qs = ps @ rs" by (auto elim: prefixE)
  show "on_prefix (seg_path ps False) (seg_path qs t)"
  proof (cases "rs = []")
    case True
    with ps rs show ?thesis by (cases t) (auto simp: on_prefix_def seg_path_def)
  next
    case False
    then obtain X where "seg_path rs t = ''/'' @ X" by (auto simp: seg_path_def)
    with False ps rs have "seg_path qs t = (seg_path ps False @ ''/'') @ X" by (simp add: seg_path_append)
    then show ?thesis by (auto simp: on_prefix_def)
  qed
qed

lemma on_prefix_drop:
  assumes "list_all plain_seg ps" "ps \<noteq> []" "rs \<noteq> []"
  shows "drop (length (seg_path ps False)) (seg_path (ps @ rs) t) = seg_path rs t"
  using assms by (simp add: seg_path_append)

lemma TrimSuffix_seg_path:
  assumes "list_all plain_seg bs" "bs \<noteq> []"
  shows "TrimSuffix (seg_path bs t) ''/'' = seg_path bs False"
proof -
  have "last (seg_path bs False) \<noteq> CHR ''/''" "seg_path bs False \<noteq> []"
    using last_seg_path [OF assms(1), of False] assms(2) by (auto simp: seg_path_def)
  then have "\<not> suffix ''/'' (seg_path bs False)" by (auto simp: suffix_def)
  moreover have "seg_path bs True = seg_path bs False @ ''/''" using assms(2) by (simp add: seg_path_def)
  ultimately show ?thesis by (cases t) (auto simp: TrimSuffix_def)
qed

lemma cleanPath_idem [simp]: "cleanPath (cleanPath p) = cleanPath p"
  using cleanPath_segments [of p] cleanPath_seg_path by auto

section \<open>Properties\<close>

text \<open>Cleaning a request path is idempotent, keeps the path absolute and leaves no \<open>.\<close> or \<open>..\<close>
  segment, for every input.\<close>

theorem cleanPath_canonical:
  "cleanPath (cleanPath p) = cleanPath p \<and> hd (cleanPath p) = CHR ''/'' \<and>
   list_all (\<lambda>s. s \<noteq> ''.'' \<and> s \<noteq> ''..'') (split_on (CHR ''/'') (cleanPath p))"
proof -
  obtain t where t: "cleanPath p = seg_path (segments p) t" using cleanPath_segments(2) by blast
  have "list_all (\<lambda>s. s \<noteq> ''.'' \<and> s \<noteq> ''..'') (segments p)"
    using cleanPath_segments(1) [of p] by (simp add: list_all_iff plain_seg_def)
  then show ?thesis
    unfolding t by (simp add: cleanPath_seg_path split_seg_path cleanPath_segments(1)) (simp add: seg_path_def)
qed

text \<open>A request path that is let through is a fixed point of cleaning without backslash or
  semicolon, and nothing else of the request changes; every other path is refused.\<close>

lemma normalizeRequestPath_spec:
  "normalizeRequestPath r =
     (if CHR 0x5C \<in> set (cleanPath (url_Path r)) \<or> CHR '';'' \<in> set (cleanPath (url_Path r)) then None
      else Some (r\<lparr>url_Path := seg_path (segments (url_Path r)) (last (cleanPath (url_Path r)) = CHR ''/'')\<rparr>))"
proof -
  obtain t where t: "cleanPath (url_Path r) = seg_path (segments (url_Path r)) t"
    using cleanPath_segments(2) by blast
  have "seg_path (segments (url_Path r)) t =
      seg_path (segments (url_Path r)) (last (seg_path (segments (url_Path r)) t) = CHR ''/'')"
    using last_seg_path [OF cleanPath_segments(1), of "url_Path r" t] by (auto simp: seg_path_def)
  with t show ?thesis
    by (auto simp: normalizeRequestPath_def contains_any_def list_ex_iff Let_def)
qed

text \<open>A location matches a request exactly when its segments are an initial part of the request's
  segments, however either of them is written: \<open>/reports\<close> never captures \<open>/reports-evil\<close>, and dot
  segments or doubled slashes cannot dodge or widen a match.\<close>

lemma location_match_by_segments:
  "(normalizeLocationPrefix l = ''/'' \<or> on_prefix (normalizeLocationPrefix l) (cleanPath p)) \<longleftrightarrow>
   Sublist.prefix (segments l) (segments p)"
proof -
  obtain t where t: "cleanPath p = seg_path (segments p) t" using cleanPath_segments(2) by blast
  show ?thesis
  proof (cases "segments l = []")
    case True
    then show ?thesis by (simp add: normalizeLocationPrefix_segments seg_path_def)
  next
    case False
    then show ?thesis
      using seg_path_root [OF cleanPath_segments(1), of l False]
      by (simp add: normalizeLocationPrefix_segments t on_prefix_seg_path cleanPath_segments(1))
  qed
qed

text \<open>When every location is configured in its normalised form, the route chosen is the longest
  matching prefix, and the host default is chosen only when no location matches.\<close>

theorem route_longest_prefix:
  assumes "list_all (\<lambda>(p, _). normalizeLocationPrefix p = p) locs"
    and "l \<in> set (location_routes locs)" and "lr_prefix l = ''/'' \<or> on_prefix (lr_prefix l) path"
  shows "\<exists>m \<in> set (location_routes locs). route (location_routes locs) dflt path = (lr_handler m, lr_upstream m) \<and>
      (lr_prefix m = ''/'' \<or> on_prefix (lr_prefix m) path) \<and> length (lr_prefix l) \<le> length (lr_prefix m)"
proof -
  let ?P = "\<lambda>l. lr_prefix l = ''/'' \<or> on_prefix (lr_prefix l) path"
  let ?rs = "location_routes locs"
  have "sorted_wrt (\<lambda>a b. length (fst b) \<le> length (fst a)) (order_locations locs)"
    unfolding order_locations_def
    using sorted_sort_stable [OF strict_weak_key(2) [of "\<lambda>x. length (fst x)"], of locs] by (simp add: not_less)
  moreover have "\<And>p x. (p, x) \<in> set (order_locations locs) \<Longrightarrow> normalizeLocationPrefix p = p"
    using assms(1) by (auto simp: order_locations_def list_all_iff)
  ultimately have "sorted_wrt (\<lambda>a b. length (lr_prefix b) \<le> length (lr_prefix a)) ?rs"
    unfolding location_routes_def sorted_wrt_map
    by (auto simp: case_prod_unfold elim!: sorted_wrt_mono_rel [rotated])
  moreover from assms(2,3) obtain m where m: "find ?P ?rs = Some m"
    by (cases "find ?P ?rs") (auto simp: find_None_iff)
  moreover then obtain us vs where "?rs = us @ m # vs" "?P m" "\<forall>u \<in> set us. \<not> ?P u"
    using find_SomeD [of ?P ?rs m] by blast
  ultimately show ?thesis
    using assms(2,3) by (intro bexI [of _ m]) (auto simp: route_def sorted_wrt_append)
qed

theorem route_longest_prefix_witness:
  "\<exists>m \<in> set (location_routes [(''/a'', ''A'', ''u''), (''/a/b'', ''B'', ''v'')]).
     route (location_routes [(''/a'', ''A'', ''u''), (''/a/b'', ''B'', ''v'')]) (''D'', ''w'') ''/a/b/c'' =
       (lr_handler m, lr_upstream m) \<and>
     (lr_prefix m = ''/'' \<or> on_prefix (lr_prefix m) ''/a/b/c'') \<and> length ''/a'' \<le> length (lr_prefix m)"
proof -
  have 1: "list_all (\<lambda>(p, _). normalizeLocationPrefix p = p) [(''/a'', ''A'', ''u''), (''/a/b'', ''B'', ''v'')]"
    by code_simp
  have 2: "\<lparr>lr_prefix = ''/a'', lr_handler = ''A'', lr_upstream = ''u''\<rparr>
      \<in> set (location_routes [(''/a'', ''A'', ''u''), (''/a/b'', ''B'', ''v'')])" by code_simp
  have 3: "on_prefix ''/a'' ''/a/b/c''" by code_simp
  show ?thesis using route_longest_prefix [OF 1 2, of "''/a/b/c''" "(''D'', ''w'')"] 3 by simp
qed

text \<open>The order is by the path as written, not by the prefix it normalises to: a location written
  with redundant slashes is tried before a longer, more specific one and captures its requests.\<close>

theorem location_order_uses_written_length:
  "route (location_routes [(''/a//////'', ''outer'', ''u''), (''/a/b'', ''inner'', ''v'')]) (''D'', ''w'') ''/a/b/c''
     = (''outer'', ''u'') \<and>
   normalizeLocationPrefix ''/a//////'' = ''/a'' \<and>
   Sublist.prefix (segments ''/a//////'') (segments ''/a/b'')"
  by code_simp

text \<open>Joining a canonical request path onto an upstream base path appends the segments, so the
  path sent upstream never leaves the base.\<close>

theorem joinUpstreamBasePath_confined:
  assumes "list_all plain_seg bs" "bs \<noteq> []" "list_all plain_seg qs"
  shows "joinUpstreamBasePath (seg_path bs b) (seg_path qs t) = seg_path (bs @ qs) (t \<or> qs = [])"
proof -
  have trim: "TrimSuffix (seg_path bs x) ''/'' = seg_path bs False" for x
    using TrimSuffix_seg_path [OF assms(1,2)] .
  have join: "seg_path bs False @ seg_path qs t = seg_path (bs @ qs) (t \<or> qs = [])"
    using assms(2) seg_path_append [of bs qs t] by (cases "qs = []") (auto simp: seg_path_def)
  have plain: "list_all plain_seg (bs @ qs)" using assms by simp
  have ne: "seg_path bs False \<noteq> []" "seg_path bs False \<noteq> ''/''"
    using seg_path_root [OF assms(1), of False] assms(2) by (auto simp: seg_path_def)
  have "Sublist.prefix ''/'' (seg_path qs t)" "seg_path qs t \<noteq> []" by (simp_all add: seg_path_def)
  then have "joinUpstreamBasePath (seg_path bs b) (seg_path qs t) =
      confineUpstreamPath (seg_path bs False) (seg_path (bs @ qs) (t \<or> qs = []))"
    using ne by (simp add: joinUpstreamBasePath_def trim join)
  also have "\<dots> = seg_path (bs @ qs) (t \<or> qs = [])"
    using on_prefix_seg_path [OF assms(1,2) plain, of "t \<or> qs = []"] ne
    by (auto simp: confineUpstreamPath_def trim Let_def cleanPath_seg_path [OF plain] on_prefix_def)
  finally show ?thesis .
qed

theorem joinUpstreamBasePath_confined_witness:
  "joinUpstreamBasePath (seg_path [''api''] True) (seg_path [''v1'', ''x''] False) = ''/api/v1/x''"
  using joinUpstreamBasePath_confined [of "[''api'']" "[''v1'', ''x'']" True False]
  by (simp add: plain_seg_def) (simp add: seg_path_def)

text \<open>The prefix strip removes exactly the matched segments of a request inside the location and
  leaves every other request alone.\<close>

theorem stripPrefix_segments:
  assumes "list_all plain_seg ps" "ps \<noteq> []" "list_all plain_seg qs"
  shows "stripPrefix (seg_path ps False) (seg_path qs t) =
    (if Sublist.prefix ps qs then seg_path (drop (length ps) qs) t else seg_path qs t)"
proof (cases "Sublist.prefix ps qs")
  case True
  then obtain rs where rs: "qs = ps @ rs" by (auto elim: prefixE)
  have ne: "seg_path ps False \<noteq> ''/''" "seg_path ps False \<noteq> []"
    using seg_path_root [OF assms(1), of False] assms(2) by (auto simp: seg_path_def)
  show ?thesis
  proof (cases "rs = []")
    case True
    with rs ne assms(2) show ?thesis
      by (cases t) (auto simp: stripPrefix_def seg_path_def)
  next
    case False
    with rs have "seg_path qs t \<noteq> seg_path ps False"
      using segments_seg_path [OF assms(1), of False] segments_seg_path [OF assms(3), of t] by auto
    with False rs ne assms show ?thesis
      using on_prefix_seg_path [OF assms, of t]
      by (auto simp: stripPrefix_def on_prefix_def on_prefix_drop)
  qed
next
  case False
  then show ?thesis
    using on_prefix_seg_path [OF assms, of t] by (auto simp: stripPrefix_def on_prefix_def)
qed

theorem stripPrefix_segments_witness:
  "stripPrefix (seg_path [''app''] False) (seg_path [''app'', ''foo''] True) = ''/foo/''"
  using stripPrefix_segments [of "[''app'']" "[''app'', ''foo'']" True]
  by (simp add: plain_seg_def) (simp add: seg_path_def)

text \<open>A rewrite that fires hands on a canonical path without backslash or semicolon, or answers
  400; a request no rule matches passes unchanged.\<close>

theorem rewriteHandler_safe:
  assumes "rewriteHandler c p = Some q"
  shows "rewritePath c p = None \<and> q = p \<or>
    (\<exists>to. rewritePath c p = Some to \<and> CHR 0x5C \<notin> set to \<and> CHR '';'' \<notin> set to \<and> q = cleanPath to \<and> cleanPath q = q)"
proof (cases "rewritePath c p")
  case None
  with assms show ?thesis by (simp add: rewriteHandler_def)
next
  case (Some to)
  with assms have "safeRewritten to = Some q" by (simp add: rewriteHandler_def)
  then have "\<not> contains_any to [CHR 0x5C, CHR '';'']" and q: "q = cleanPath to"
    by (simp_all add: safeRewritten_def split: if_splits)
  then have "CHR 0x5C \<notin> set to" "CHR '';'' \<notin> set to" by (auto simp: contains_any_def list_ex_iff)
  with Some q show ?thesis by simp
qed

definition sample_rules :: rewrite_rules where
  "sample_rules = \<lparr>rw_exact = [''/old'' \<mapsto> ''/new''], prefix_rules = compile_prefix_rules [(''/reports'', ''/r/../x''), (''/'', '''')],
     regex_rules = []\<rparr>"

theorem rewriteHandler_safe_witness:
  "rewriteHandler sample_rules ''/reports/7'' = Some ''/x/7'' \<and>
   (rewritePath sample_rules ''/reports/7'' = None \<and> ''/x/7'' = ''/reports/7'' \<or>
    (\<exists>to. rewritePath sample_rules ''/reports/7'' = Some to \<and> CHR 0x5C \<notin> set to \<and> CHR '';'' \<notin> set to \<and>
       ''/x/7'' = cleanPath to \<and> cleanPath ''/x/7'' = ''/x/7''))"
proof -
  have "rewriteHandler sample_rules ''/reports/7'' = Some ''/x/7''" by code_simp
  with rewriteHandler_safe [OF this] show ?thesis by blast
qed

end
