(* ===== verification/Access_List.thy ===== *)
theory Access_List
  imports Basic_Auth Url_Path
begin

text \<open>
  Access lists: the configured form and its validation rules (\<open>internal/model/access.go\<close>), the
  fetched source sets (\<open>internal/model/accesslistledger.go\<close>,
  \<open>internal/dataplane/accesslistsources.go\<close>) and the compiled form with its evaluation and handler
  (\<open>internal/dataplane/accesslist.go\<close>).

  The GeoIP database is a third-party format behind \<open>geoip.Resolver\<close>: a lookup is the argument
  \<open>geoLookup\<close> (\<open>None\<close> for a nil function, and an inner \<open>None\<close> for an address it cannot place), and
  whether a database is loaded is the argument \<open>geoLoaded\<close> (\<open>None\<close> for a nil function). Go maps used as
  sets are lists; a nil map is \<open>None\<close>.
\<close>

section \<open>Configuration\<close>

record ip_rule =
  rule_Action :: string
  rule_CIDR :: string
  rule_Source :: string
  rule_Paths :: "string list"
  rule_Methods :: "string list"

record access_list_geo =
  CountryAllow :: "string list"
  CountryDeny :: "string list"
  OnUnknown :: string

record access_list_cfg =
  al_Name :: string
  al_SatisfyAny :: bool
  al_BasicAuth :: "basic_auth_user list"
  al_Rules :: "ip_rule list"
  al_Sources :: "string list"
  al_DefaultAction :: string
  al_Geo :: "access_list_geo option"

definition ActionAllow :: string where "ActionAllow = ''allow''"
definition ActionDeny :: string where "ActionDeny = ''deny''"

definition httpMethods :: "string list" where
  "httpMethods = [''GET'', ''HEAD'', ''POST'', ''PUT'', ''PATCH'', ''DELETE'', ''CONNECT'', ''OPTIONS'', ''TRACE'']"

definition PathScoped :: "ip_rule \<Rightarrow> bool" where
  "PathScoped r \<longleftrightarrow> rule_Paths r \<noteq> []"

definition EffectiveMethods :: "ip_rule \<Rightarrow> string list" where
  "EffectiveMethods r =
     (if \<not> PathScoped r then [] else if rule_Methods r = [] then [''GET'', ''HEAD''] else rule_Methods r)"

definition HasRules :: "access_list_geo option \<Rightarrow> bool" where
  "HasRules g = (case g of None \<Rightarrow> False | Some g \<Rightarrow> CountryAllow g \<noteq> [] \<or> CountryDeny g \<noteq> [])"

datatype rule_error =
  MethodsWithoutPaths | DenyByPath | PathNotRooted string | PathWithQuery string | PathNotClean string
  | DuplicatePath string | BadMethod string

fun validate_paths :: "string list \<Rightarrow> string list \<Rightarrow> rule_error option" where
  "validate_paths seen [] = None"
| "validate_paths seen (p # ps) =
     (if \<not> Sublist.prefix ''/'' p then Some (PathNotRooted p)
      else if contains_any p ''?#'' then Some (PathWithQuery p)
      else if path_Clean p \<noteq> p then Some (PathNotClean p)
      else if p \<in> set seen then Some (DuplicatePath p)
      else validate_paths (p # seen) ps)"

definition validateRulePaths :: "ip_rule \<Rightarrow> rule_error option" where
  "validateRulePaths r =
     (if \<not> PathScoped r then (if rule_Methods r \<noteq> [] then Some MethodsWithoutPaths else None)
      else if rule_Action r = ActionDeny then Some DenyByPath
      else case validate_paths [] (rule_Paths r) of
        Some e \<Rightarrow> Some e
      | None \<Rightarrow> map_option BadMethod (find (\<lambda>m. m \<notin> set httpMethods) (rule_Methods r)))"

definition country_code :: "string \<Rightarrow> bool" where
  "country_code cc \<longleftrightarrow> length cc = 2 \<and> list_all (\<lambda>c. 65 \<le> byte_of c \<and> byte_of c \<le> 90) cc"

datatype geo_error = BadAllowCode string | BadDenyCode string | BadOnUnknown string

definition validate_geo :: "access_list_geo option \<Rightarrow> geo_error option" where
  "validate_geo g =
     (case g of
        None \<Rightarrow> None
      | Some g \<Rightarrow>
          (case find (\<lambda>c. \<not> country_code c) (CountryAllow g) of
             Some c \<Rightarrow> Some (BadAllowCode c)
           | None \<Rightarrow>
               (case find (\<lambda>c. \<not> country_code c) (CountryDeny g) of
                  Some c \<Rightarrow> Some (BadDenyCode c)
                | None \<Rightarrow>
                    if OnUnknown g \<noteq> [] \<and> OnUnknown g \<noteq> ActionAllow \<and> OnUnknown g \<noteq> ActionDeny
                    then Some (BadOnUnknown (OnUnknown g)) else None)))"

definition HasRequestScopedRules :: "access_list_cfg \<Rightarrow> bool" where
  "HasRequestScopedRules a \<longleftrightarrow>
     al_Sources a \<noteq> [] \<or> list_ex (\<lambda>r. PathScoped r \<or> rule_Source r \<noteq> []) (al_Rules a)"

section \<open>Fetched sources\<close>

record access_list_source_entry =
  entry_List :: string
  entry_Source :: string
  entry_Entries :: "string list"

type_synonym source_sets = "string \<rightharpoonup> ipnet list"

definition AccessListSourceKey :: "string \<Rightarrow> string \<Rightarrow> string" where
  "AccessListSourceKey list source = list @ ''/'' @ source"

definition entry_Key :: "access_list_source_entry \<Rightarrow> string" where
  "entry_Key e = AccessListSourceKey (entry_List e) (entry_Source e)"

definition compileAccessListSources :: "access_list_source_entry list \<Rightarrow> source_sets" where
  "compileAccessListSources es =
     foldl (\<lambda>m e. m(entry_Key e \<mapsto> List.map_filter ParseNet (entry_Entries e))) Map.empty es"

definition source_nets :: "source_sets \<Rightarrow> string \<Rightarrow> ipnet list" where
  "source_nets sources k = (case sources k of None \<Rightarrow> [] | Some ns \<Rightarrow> ns)"

section \<open>Compiled form\<close>

record net_rule =
  nr_nets :: "ipnet list"
  nr_allow :: bool
  nr_paths :: "string list option"
  nr_methods :: "string list"

record access_list =
  acl_name :: string
  satisfyAny :: bool
  defaultAllow :: bool
  explicitDeny :: bool
  acl_rules :: "net_rule list"
  acl_users :: "(string \<times> string) list"
  hasIP :: bool
  hasAuth :: bool
  hasGeo :: bool
  geoCountryAllow :: "string list option"
  geoCountryDeny :: "string list"
  geoOnUnknownAllow :: bool

definition netRule_matches :: "net_rule \<Rightarrow> ip \<Rightarrow> string \<Rightarrow> string \<Rightarrow> bool" where
  "netRule_matches r a path meth =
     ((case nr_paths r of
         None \<Rightarrow> True
       | Some ps \<Rightarrow> path \<noteq> [] \<and> path \<in> set ps \<and> meth \<in> set (nr_methods r)) \<and>
      list_ex (\<lambda>n. net_contains n a) (nr_nets r))"

text \<open>The literal network of a rule: a CIDR, or a bare address given a full-length prefix.\<close>

definition rule_literal_net :: "string \<Rightarrow> ipnet option" where
  "rule_literal_net c =
     (case ParseCIDR c of
        Some n \<Rightarrow> Some n
      | None \<Rightarrow>
          (case ParseIP c of
             None \<Rightarrow> None
           | Some a \<Rightarrow> ParseCIDR (c @ ''/'' @ itoa (if To4 a = None then 128 else 32))))"

definition compileRule :: "source_sets \<Rightarrow> string \<Rightarrow> ip_rule \<Rightarrow> net_rule option" where
  "compileRule sources name r =
     (let scoped = (\<lambda>nets.
        \<lparr>nr_nets = nets, nr_allow = (rule_Action r = ActionAllow),
         nr_paths = (if PathScoped r then Some (rule_Paths r) else None),
         nr_methods = (if PathScoped r then map ToUpper (EffectiveMethods r) else [])\<rparr>)
      in if rule_Source r \<noteq> [] then Some (scoped (source_nets sources (AccessListSourceKey name (rule_Source r))))
         else map_option (\<lambda>n. scoped [n]) (rule_literal_net (rule_CIDR r)))"

definition compileAccessList :: "source_sets \<Rightarrow> access_list_cfg \<Rightarrow> access_list" where
  "compileAccessList sources al =
     (let rules = List.map_filter (compileRule sources (al_Name al)) (al_Rules al);
          users = compileBasicAuthUsers (al_BasicAuth al);
          geo = (case al_Geo al of None \<Rightarrow> \<lparr>CountryAllow = [], CountryDeny = [], OnUnknown = []\<rparr> | Some g \<Rightarrow> g);
          hg = HasRules (al_Geo al)
      in \<lparr>acl_name = al_Name al, satisfyAny = al_SatisfyAny al,
          defaultAllow = (al_DefaultAction al = ActionAllow),
          explicitDeny = (al_DefaultAction al = ActionDeny),
          acl_rules = rules, acl_users = users, hasIP = (rules \<noteq> []), hasAuth = (users \<noteq> []), hasGeo = hg,
          geoCountryAllow = (if hg \<and> CountryAllow geo \<noteq> [] then Some (map ToUpper (CountryAllow geo)) else None),
          geoCountryDeny = (if hg \<and> CountryAllow geo = [] then map ToUpper (CountryDeny geo) else []),
          geoOnUnknownAllow =
            (hg \<and> (if OnUnknown geo = ActionAllow then True
                    else if OnUnknown geo = ActionDeny then False
                    else CountryAllow geo = []))\<rparr>)"

section \<open>Evaluation\<close>

type_synonym geo_lookup = "(ip \<Rightarrow> string option) option"

definition geo_blind :: "access_list \<Rightarrow> bool option \<Rightarrow> bool" where
  "geo_blind c geoLoaded \<longleftrightarrow> hasGeo c \<and> (geoLoaded = None \<or> geoLoaded = Some False)"

definition geo_verdict :: "access_list \<Rightarrow> geo_lookup \<Rightarrow> ip \<Rightarrow> (bool \<times> bool) option" where
  "geo_verdict c geoLookup a =
     (case (case geoLookup of None \<Rightarrow> None | Some f \<Rightarrow> f a) of
        None \<Rightarrow> Some (geoOnUnknownAllow c, True)
      | Some country0 \<Rightarrow>
          (let country = ToUpper country0 in
           case geoCountryAllow c of
             Some allow \<Rightarrow> Some (country \<in> set allow, True)
           | None \<Rightarrow> if country \<in> set (geoCountryDeny c) then Some (False, True) else None))"

definition decide ::
  "access_list \<Rightarrow> ip option \<Rightarrow> string \<Rightarrow> string \<Rightarrow> geo_lookup \<Rightarrow> bool option \<Rightarrow> bool \<times> bool" where
  "decide c a path meth geoLookup geoLoaded =
     (case a of
        None \<Rightarrow> (False, False)
      | Some a \<Rightarrow>
          if geo_blind c geoLoaded then (False, False)
          else (case find (\<lambda>r. netRule_matches r a path meth) (acl_rules c) of
                  Some r \<Rightarrow> (nr_allow r, False)
                | None \<Rightarrow>
                    (case (if hasGeo c then geo_verdict c geoLookup a else None) of
                       Some v \<Rightarrow> v
                     | None \<Rightarrow> (defaultAllow c, False))))"

definition allowed ::
  "access_list \<Rightarrow> ip option \<Rightarrow> string \<Rightarrow> string \<Rightarrow> geo_lookup \<Rightarrow> bool option \<Rightarrow> bool" where
  "allowed c a path meth geoLookup geoLoaded = fst (decide c a path meth geoLookup geoLoaded)"

definition ipAllowed :: "access_list \<Rightarrow> ip option \<Rightarrow> geo_lookup \<Rightarrow> bool option \<Rightarrow> bool" where
  "ipAllowed c a geoLookup geoLoaded = allowed c a [] [] geoLookup geoLoaded"

definition accessListHandler ::
  "bcrypt_compare \<Rightarrow> access_list \<Rightarrow> (http_request \<Rightarrow> ip option) \<Rightarrow> geo_lookup \<Rightarrow> bool option \<Rightarrow>
   int \<Rightarrow> bool \<Rightarrow> http_request \<Rightarrow> gate \<Rightarrow> verdict \<times> gate" where
  "accessListHandler bcrypt c ipOf geoLookup geoLoaded now acquired r g =
     (if \<not> hasIP c \<and> \<not> hasAuth c \<and> \<not> hasGeo c then
        (if explicitDeny c then Refuse 403 ''access-list'' None else Pass, g)
      else
        let (ipOK, byGeo) =
              (if hasIP c \<or> hasGeo c
               then decide c (ipOf r) (url_Path r) (ToUpper (Method r)) geoLookup geoLoaded
               else (True, False));
            denyReason = (if byGeo \<or> geo_blind c geoLoaded then ''geo'' else ''access-list'');
            (authOK, g') =
              (if hasAuth c
               then throttled_verify now (authGateKey (Some ipOf) r) (req_BasicAuth r \<noteq> None)
                      (verify bcrypt acquired (acl_users c) r) g
               else (True, g));
            pass = (if satisfyAny c \<and> (hasIP c \<or> hasGeo c) \<and> hasAuth c then ipOK \<or> authOK
                    else ipOK \<and> authOK)
        in (if pass then Pass
            else if hasAuth c \<and> \<not> authOK \<and> (\<not> satisfyAny c \<or> \<not> ipOK)
                 then Refuse 401 ''access-list-auth'' (Some (basic_challenge (acl_name c)))
                 else Refuse 403 denyReason None, g'))"

definition accessListAllowNets :: "source_sets \<Rightarrow> access_list_cfg \<Rightarrow> ipnet list" where
  "accessListAllowNets sources al =
     concat (map (\<lambda>r.
        if rule_Action r \<noteq> ActionAllow \<or> PathScoped r then []
        else if rule_Source r \<noteq> [] then source_nets sources (AccessListSourceKey (al_Name al) (rule_Source r))
        else (case ParseNet (rule_CIDR r) of None \<Rightarrow> [] | Some n \<Rightarrow> [n])) (al_Rules al))"

lemmas [go_eval] = ActionAllow_def ActionDeny_def httpMethods_def PathScoped_def EffectiveMethods_def
  HasRules_def validateRulePaths_def country_code_def validate_geo_def HasRequestScopedRules_def
  AccessListSourceKey_def entry_Key_def compileAccessListSources_def source_nets_def netRule_matches_def
  rule_literal_net_def compileRule_def compileAccessList_def geo_blind_def geo_verdict_def decide_def
  allowed_def ipAllowed_def accessListHandler_def accessListAllowNets_def

section \<open>Rules of the configuration and rules of the compiled list\<close>

text \<open>A configured rule covers a request when it compiles and its compiled form matches.\<close>

definition rule_covers :: "source_sets \<Rightarrow> string \<Rightarrow> ip \<Rightarrow> string \<Rightarrow> string \<Rightarrow> ip_rule \<Rightarrow> bool" where
  "rule_covers sources name a path meth r =
     (case compileRule sources name r of None \<Rightarrow> False | Some nr \<Rightarrow> netRule_matches nr a path meth)"

lemma compile_fields [simp]:
  "acl_rules (compileAccessList sources al) = List.map_filter (compileRule sources (al_Name al)) (al_Rules al)"
  "acl_name (compileAccessList sources al) = al_Name al"
  "satisfyAny (compileAccessList sources al) = al_SatisfyAny al"
  "hasGeo (compileAccessList sources al) = HasRules (al_Geo al)"
  "hasAuth (compileAccessList sources al) \<longleftrightarrow> al_BasicAuth al \<noteq> []"
  "hasIP (compileAccessList sources al) \<longleftrightarrow> List.map_filter (compileRule sources (al_Name al)) (al_Rules al) \<noteq> []"
  "defaultAllow (compileAccessList sources al) \<longleftrightarrow> al_DefaultAction al = ActionAllow"
  by (simp_all add: compileAccessList_def Let_def compileBasicAuthUsers_empty)

lemma geo_fields:
  "geoOnUnknownAllow (compileAccessList sources (al\<lparr>al_Rules := rs\<rparr>)) = geoOnUnknownAllow (compileAccessList sources al)"
  "geoCountryAllow (compileAccessList sources (al\<lparr>al_Rules := rs\<rparr>)) = geoCountryAllow (compileAccessList sources al)"
  "geoCountryDeny (compileAccessList sources (al\<lparr>al_Rules := rs\<rparr>)) = geoCountryDeny (compileAccessList sources al)"
  by (simp_all add: compileAccessList_def Let_def)

lemma geo_compiled:
  "geo_verdict (compileAccessList sources (al\<lparr>al_Rules := rs\<rparr>)) = geo_verdict (compileAccessList sources al)"
  "geo_blind (compileAccessList sources (al\<lparr>al_Rules := rs\<rparr>)) = geo_blind (compileAccessList sources al)"
  by (simp_all add: geo_verdict_def geo_blind_def fun_eq_iff geo_fields cong: option.case_cong)

lemma compileRule_action: "compileRule sources name r = Some nr \<Longrightarrow> nr_allow nr \<longleftrightarrow> rule_Action r = ActionAllow"
  by (auto simp: compileRule_def Let_def split: if_splits)

lemma find_compiled:
  "find (\<lambda>nr. netRule_matches nr a path meth) (acl_rules (compileAccessList sources al)) =
     (case find (rule_covers sources (al_Name al) a path meth) (al_Rules al) of
        None \<Rightarrow> None | Some r \<Rightarrow> compileRule sources (al_Name al) r)"
proof -
  have "(\<lambda>r. \<exists>nr. compileRule sources (al_Name al) r = Some nr \<and> netRule_matches nr a path meth) =
        rule_covers sources (al_Name al) a path meth"
    by (auto simp: rule_covers_def fun_eq_iff split: option.splits)
  then show ?thesis by (simp add: find_map_filter)
qed

lemma decide_drop:
  assumes "\<And>r a'. a = Some a' \<Longrightarrow> r \<in> set (al_Rules al) \<Longrightarrow>
             rule_covers sources (al_Name al) a' path meth r \<Longrightarrow> Q r"
  shows "decide (compileAccessList sources (al\<lparr>al_Rules := filter Q (al_Rules al)\<rparr>)) a path meth gl gd =
         decide (compileAccessList sources al) a path meth gl gd"
proof (cases a)
  case (Some a')
  then have "find (rule_covers sources (al_Name al) a' path meth) (filter Q (al_Rules al)) =
        find (rule_covers sources (al_Name al) a' path meth) (al_Rules al)"
    using assms by (intro find_filter_drop) auto
  with Some show ?thesis
    using find_compiled [of a' path meth sources al]
      find_compiled [of a' path meth sources "al\<lparr>al_Rules := filter Q (al_Rules al)\<rparr>"]
    by (simp add: decide_def geo_compiled del: compile_fields(1) cong: option.case_cong)
qed (simp add: decide_def)

lemma no_path_not_covered: "PathScoped r \<Longrightarrow> \<not> rule_covers sources name a [] meth r"
  by (auto simp: rule_covers_def compileRule_def Let_def netRule_matches_def split: if_splits option.splits)

lemma unfetched_not_covered:
  "rule_Source r \<noteq> [] \<Longrightarrow> sources (AccessListSourceKey name (rule_Source r)) = None \<Longrightarrow>
     \<not> rule_covers sources name a path meth r"
  by (simp add: rule_covers_def compileRule_def Let_def netRule_matches_def source_nets_def)

section \<open>Sample lists\<close>

definition mapped_client :: ip where
  "mapped_client = v4InV6Prefix @ [203, 0, 113, 9]"

definition mapped_deny_list :: access_list_cfg where
  "mapped_deny_list =
     \<lparr>al_Name = ''edge'', al_SatisfyAny = False, al_BasicAuth = [],
      al_Rules = [\<lparr>rule_Action = ''deny'', rule_CIDR = ''::ffff:203.0.113.9'', rule_Source = [], rule_Paths = [], rule_Methods = []\<rparr>],
      al_Sources = [], al_DefaultAction = ''allow'', al_Geo = None\<rparr>"

definition lan_rule :: ip_rule where
  "lan_rule = \<lparr>rule_Action = ''allow'', rule_CIDR = ''203.0.113.0/24'', rule_Source = [], rule_Paths = [], rule_Methods = []\<rparr>"

definition health_rule :: ip_rule where
  "health_rule = \<lparr>rule_Action = ''allow'', rule_CIDR = ''0.0.0.0/0'', rule_Source = [], rule_Paths = [''/health''], rule_Methods = []\<rparr>"

definition feed_rule :: ip_rule where
  "feed_rule = \<lparr>rule_Action = ''allow'', rule_CIDR = [], rule_Source = ''feed'', rule_Paths = [], rule_Methods = []\<rparr>"

definition sample_list :: "ip_rule list \<Rightarrow> access_list_geo option \<Rightarrow> access_list_cfg" where
  "sample_list rs geo =
     \<lparr>al_Name = ''edge'', al_SatisfyAny = False, al_BasicAuth = [], al_Rules = rs, al_Sources = [''feed''],
      al_DefaultAction = ''deny'', al_Geo = geo\<rparr>"

section \<open>Properties\<close>

text \<open>First match wins. When the geo database is there for a list that needs it, the first
  configured rule that covers the client address, the path and the method decides, whatever the
  rules after it, the geo rules and the default say.\<close>

theorem first_match_wins:
  assumes "al_Rules al = pre @ r # post"
    and "list_all (\<lambda>r'. \<not> rule_covers sources (al_Name al) a path meth r') pre"
    and "rule_covers sources (al_Name al) a path meth r"
    and "HasRules (al_Geo al) \<longrightarrow> geoLoaded = Some True"
  shows "decide (compileAccessList sources al) (Some a) path meth geoLookup geoLoaded =
         (rule_Action r = ActionAllow, False)"
proof -
  obtain nr where nr: "compileRule sources (al_Name al) r = Some nr"
    using assms(3) by (auto simp: rule_covers_def split: option.splits)
  have "find (rule_covers sources (al_Name al) a path meth) (al_Rules al) = Some r"
    unfolding assms(1) by (rule find_first [where P = "rule_covers sources (al_Name al) a path meth", OF assms(3,2)])
  with find_compiled [of a path meth sources al] nr compileRule_action [OF nr] assms(4) show ?thesis
    by (auto simp: decide_def geo_blind_def simp del: compile_fields(1))
qed

theorem first_match_wins_witness:
  "decide (compileAccessList Map.empty (sample_list [health_rule, lan_rule] None)) (Some mapped_client) ''/x'' ''GET'' None None =
   (True, False)"
proof -
  have "\<not> rule_covers Map.empty ''edge'' mapped_client ''/x'' ''GET'' health_rule"
    and "rule_covers Map.empty ''edge'' mapped_client ''/x'' ''GET'' lan_rule" by code_simp+
  then show ?thesis
    using first_match_wins [of "sample_list [health_rule, lan_rule] None" "[health_rule]" lan_rule "[]"
        Map.empty mapped_client "''/x''" "''GET''" None None]
    by (simp add: sample_list_def HasRules_def lan_rule_def ActionAllow_def)
qed

text \<open>On a raw stream, where there is no request path, a path-scoped rule never matches: the
  verdict is that of the same list with those rules removed.\<close>

theorem stream_ignores_path_rules:
  "ipAllowed (compileAccessList sources al) a geoLookup geoLoaded =
   ipAllowed (compileAccessList sources (al\<lparr>al_Rules := filter (\<lambda>r. \<not> PathScoped r) (al_Rules al)\<rparr>))
     a geoLookup geoLoaded"
  unfolding ipAllowed_def allowed_def
  by (subst decide_drop) (auto dest: no_path_not_covered)

text \<open>A source that was never fetched cannot widen access. Its rules change no verdict of the
  list, and a list made only of such rules, with no geo rules, no users and no allow default, refuses
  every request rather than turning into a list with nothing to match on.\<close>

theorem unfetched_source_never_widens:
  assumes "al_Rules al \<noteq> []"
    and "list_all (\<lambda>r. rule_Source r \<noteq> [] \<and> sources (AccessListSourceKey (al_Name al) (rule_Source r)) = None) (al_Rules al)"
    and "al_DefaultAction al \<noteq> ActionAllow" "\<not> HasRules (al_Geo al)" "al_BasicAuth al = []"
  shows "accessListHandler bcrypt (compileAccessList sources al) ipOf geoLookup geoLoaded now acquired r g =
         (Refuse 403 ''access-list'' None, g)"
proof -
  let ?c = "compileAccessList sources al"
  have "decide ?c a path meth geoLookup geoLoaded = decide (compileAccessList sources (al\<lparr>al_Rules := []\<rparr>)) a path meth geoLookup geoLoaded"
    for a path meth
    using decide_drop [of a al sources path meth "\<lambda>_. False" geoLookup geoLoaded] assms(2)
      unfetched_not_covered by (fastforce simp: list_all_iff)
  then have dec: "decide ?c a path meth geoLookup geoLoaded = (False, False)" for a path meth
    using assms(3,4) by (auto simp: decide_def geo_blind_def List.map_filter_def split: option.splits)
  obtain r1 rs where "al_Rules al = r1 # rs" using assms(1) by (cases "al_Rules al") auto
  then have "hasIP ?c" using assms(2) by (simp add: List.map_filter_def compileRule_def Let_def)
  with assms(4,5) dec show ?thesis
    by (simp add: accessListHandler_def geo_blind_def del: compile_fields(6))
qed

theorem unfetched_source_never_widens_witness:
  "accessListHandler (\<lambda>_ _. True) (compileAccessList Map.empty (sample_list [feed_rule] None)) PeerIP None None 0 True
     sample_request (newAuthGate 900 5 10) = (Refuse 403 ''access-list'' None, newAuthGate 900 5 10)"
  using unfetched_source_never_widens [of "sample_list [feed_rule] None" Map.empty]
  by (simp add: sample_list_def feed_rule_def HasRules_def ActionAllow_def)



text \<open>A bare IPv4-mapped address in a rule does not mean that address. The compiler appends \<open>/32\<close>
  because the address has a 4-byte form, but \<open>net.ParseCIDR\<close> reads the text as an IPv6 network, so
  the rule becomes \<open>::/32\<close>: a deny rule for \<open>::ffff:203.0.113.9\<close> lets that very client through, and
  matches the unrelated \<open>::1\<close>. \<open>clientip.ParseNet\<close>, which every other network setting goes through,
  reads the same text as exactly that address.\<close>

theorem mapped_bare_rule_misses:
  "ParseIP ''::ffff:203.0.113.9'' = Some mapped_client \<and>
   allowed (compileAccessList Map.empty mapped_deny_list) (Some mapped_client) ''/'' ''GET'' None None \<and>
   \<not> allowed (compileAccessList Map.empty mapped_deny_list) (ParseIP ''::1'') ''/'' ''GET'' None None \<and>
   InNets mapped_client (Compile [''::ffff:203.0.113.9''])"
  by code_simp

lemma clean_rooted:
  assumes "Sublist.prefix ''/'' p" "path_Clean p = p"
  shows "cleanPath p = p"
proof -
  let ?segs = "clean_segs True [] (split_on (CHR ''/'') p)"
  have plain: "list_all plain_seg ?segs" by (rule clean_segs_plain) (auto dest: sep_notin_split_on)
  have "p = seg_path ?segs False"
    using assms by (cases p) (auto simp: path_Clean_def Let_def seg_path_def)
  with cleanPath_seg_path [OF plain, of False] show ?thesis by simp
qed

lemma validate_paths_clean: "validate_paths seen ps = None \<Longrightarrow> list_all (\<lambda>p. cleanPath p = p) ps \<and> distinct ps \<and> set ps \<inter> set seen = {}"
proof (induction ps arbitrary: seen)
  case (Cons p ps)
  then have "Sublist.prefix ''/'' p" "path_Clean p = p" "p \<notin> set seen" "validate_paths (p # seen) ps = None"
    by (auto split: if_splits)
  with Cons.IH [OF this(4)] clean_rooted show ?case by auto
qed simp

text \<open>A path-scoped rule that passes validation can fire and can only widen. It is an allow rule,
  each of its paths is already in the cleaned form the router compares requests in, no path is
  listed twice, and each of its methods is a standard upper-case one.\<close>

theorem validated_path_rule:
  assumes "validateRulePaths r = None" "PathScoped r"
  shows "rule_Action r \<noteq> ActionDeny \<and> list_all (\<lambda>p. cleanPath p = p) (rule_Paths r) \<and>
         distinct (rule_Paths r) \<and> list_all (\<lambda>m. m \<in> set httpMethods) (rule_Methods r)"
  using assms validate_paths_clean [of "[]" "rule_Paths r"]
  by (auto simp: validateRulePaths_def find_None_iff list_all_iff split: if_splits option.splits)

theorem validated_path_rule_witness:
  "list_all (\<lambda>p. cleanPath p = p) (rule_Paths health_rule)"
proof -
  have "validateRulePaths health_rule = None" "PathScoped health_rule" by code_simp+
  from validated_path_rule [OF this] show ?thesis by blast
qed

end
