(* ===== verification/Discovery.thy ===== *)
theory Discovery
  imports Go_Prelude
begin

text \<open>
  Object discovery: the source-agnostic full-state planner (\<open>internal/discovery/plan.go\<close>) and the
  parts of the discovery settings it relies on (\<open>internal/model/ingressdisc.go\<close>,
  \<open>internal/model/dockerdisc.go\<close>, and the \<open>ownership\<close> functions of \<open>internal/k8s/discovery.go\<close> and
  \<open>internal/docker/discovery.go\<close>).

  A proxy host is the fields the planner reads or writes, and the rest as one value of type \<open>'r\<close>.
  Label maps and the maps the planner iterates over are association lists, iterated in the order of
  their sorted keys as the code does; the map of claimed domains is a partial function. Log lines are
  not modelled, and the texts of \<open>Reason\<close> are constructors with the same data.

  The locale \<open>discovery_source\<close> is what the planner relies on of a source: that ownership is
  witnessed by the source's own label value. Both sources interpret it.
\<close>

section \<open>Hosts, ownership, items\<close>

type_synonym labels = "(string \<times> string) list"

record 'r proxy_host =
  ph_Name :: string
  ph_Labels :: labels
  ph_Domains :: "string list"
  ph_Disabled :: bool
  ph_Maintenance :: bool
  ph_CreatedAt :: int
  ph_UpdatedAt :: int
  ph_rest :: 'r

record simple_host =
  sh_Name :: string
  sh_Domains :: "string list"

record 'r config =
  ProxyHosts :: "'r proxy_host list"
  RedirectHosts :: "simple_host list"
  ParkedHosts :: "simple_host list"

record ownership =
  ManagedByKey :: string
  DisabledByKey :: string
  Value :: string
  Migrate :: bool
  HasStaleManaged :: "(labels \<Rightarrow> bool) option"
  HasStaleDisabled :: "(labels \<Rightarrow> bool) option"
  StripStale :: "(labels \<Rightarrow> labels) option"

record 'r item =
  it_Ref :: string
  it_Name :: string
  it_Host :: "'r proxy_host"
  it_Profile :: string
  it_Err :: "string option"
  it_UnknownProfile :: bool

definition label_get :: "labels \<Rightarrow> string \<Rightarrow> string" where
  "label_get m k = (case map_of m k of None \<Rightarrow> [] | Some v \<Rightarrow> v)"

definition stale :: "(labels \<Rightarrow> bool) option \<Rightarrow> labels \<Rightarrow> bool" where
  "stale f m = (case f of None \<Rightarrow> False | Some f \<Rightarrow> f m)"

definition owns :: "ownership \<Rightarrow> labels \<Rightarrow> bool" where
  "owns own m \<longleftrightarrow> label_get m (ManagedByKey own) = Value own \<or> Migrate own \<and> stale (HasStaleManaged own) m"

definition Managed :: "ownership \<Rightarrow> 'r proxy_host \<Rightarrow> bool" where
  "Managed own h \<longleftrightarrow> owns own (ph_Labels h)"

definition OperatorDisabled :: "ownership \<Rightarrow> 'r proxy_host \<Rightarrow> bool" where
  "OperatorDisabled own cur \<longleftrightarrow>
     ph_Disabled cur \<and> label_get (ph_Labels cur) (DisabledByKey own) \<noteq> Value own \<and>
     \<not> (Migrate own \<and> stale (HasStaleDisabled own) (ph_Labels cur))"

definition cloneLabels :: "labels \<Rightarrow> labels" where
  "cloneLabels m = m"

definition DomainKey :: "string \<Rightarrow> string" where
  "DomainKey d = ToLower (TrimSpace d)"

type_synonym claims = "string \<rightharpoonup> string"

fun firstClaimed :: "string list \<Rightarrow> claims \<Rightarrow> (string \<times> string) option" where
  "firstClaimed [] claimed = None"
| "firstClaimed (d # ds) claimed =
     (case claimed (DomainKey d) of Some owner \<Rightarrow> Some (DomainKey d, owner) | None \<Rightarrow> firstClaimed ds claimed)"

text \<open>\<open>reflect.DeepEqual\<close> on label maps compares them as maps.\<close>

definition same_labels :: "labels \<Rightarrow> labels \<Rightarrow> bool" where
  "same_labels a b \<longleftrightarrow> list_all (\<lambda>k. map_of a k = map_of b k) (map fst a @ map fst b)"

definition SameHost :: "'r proxy_host \<Rightarrow> 'r proxy_host \<Rightarrow> bool" where
  "SameHost a b \<longleftrightarrow>
     ph_Name a = ph_Name b \<and> same_labels (ph_Labels a) (ph_Labels b) \<and> ph_Domains a = ph_Domains b \<and>
     ph_Disabled a = ph_Disabled b \<and> ph_Maintenance a = ph_Maintenance b \<and> ph_rest a = ph_rest b"

section \<open>The plan\<close>

datatype action = Created | Updated | Unchanged | Deleted | Skipped

datatype reason =
  NoReason | DeriveError string | DisabledProfile string | NameCollision string
  | DomainTaken string string | NameTaken | OperatorHeld | Reenabled

record host_result =
  hr_Name :: string
  hr_Ref :: string
  hr_Domains :: "string list"
  hr_Action :: action
  hr_Profile :: string
  hr_Reason :: reason

record 'r result =
  Upserts :: "'r proxy_host list"
  Deletes :: "string list"
  n_Discovered :: nat
  n_Created :: nat
  n_Updated :: nat
  n_Skipped :: nat
  ManagedAfter :: int
  Hosts :: "host_result list"

definition no_result :: "'r result" where
  "no_result = \<lparr>Upserts = [], Deletes = [], n_Discovered = 0, n_Created = 0, n_Updated = 0, n_Skipped = 0,
     ManagedAfter = 0, Hosts = []\<rparr>"

text \<open>The local variables of \<open>Plan\<close> while it goes over the items.\<close>

record 'r derive_state =
  ds_result :: "'r result"
  desired :: "(string \<times> 'r proxy_host) list"
  src_of :: "(string \<times> string) list"
  profile_of :: "(string \<times> string) list"
  protected :: "string list"
  disable :: "(string \<times> 'r proxy_host) list"

definition add_host :: "host_result \<Rightarrow> 'r result \<Rightarrow> 'r result" where
  "add_host hr p = p\<lparr>Hosts := Hosts p @ [hr]\<rparr>"

definition skip_host :: "host_result \<Rightarrow> 'r result \<Rightarrow> 'r result" where
  "skip_host hr p = add_host hr (p\<lparr>n_Skipped := n_Skipped p + 1\<rparr>)"

definition current_hosts :: "'r config \<Rightarrow> (string \<times> 'r proxy_host) list" where
  "current_hosts cfg = foldl (\<lambda>m h. AList.update (ph_Name h) h m) [] (ProxyHosts cfg)"

definition managed_hosts :: "ownership \<Rightarrow> 'r config \<Rightarrow> (string \<times> 'r proxy_host) list" where
  "managed_hosts own cfg =
     foldl (\<lambda>m h. if Managed own h then AList.update (ph_Name h) h m else m) [] (ProxyHosts cfg)"

definition disabled_copy :: "ownership \<Rightarrow> 'r proxy_host \<Rightarrow> 'r proxy_host" where
  "disabled_copy own cur =
     (let ls = cloneLabels (ph_Labels cur);
          ls1 = (if Migrate own then (case StripStale own of Some f \<Rightarrow> f ls | None \<Rightarrow> ls) else ls)
      in cur\<lparr>ph_Disabled := True,
             ph_Labels := AList.update (DisabledByKey own) (Value own) (AList.update (ManagedByKey own) (Value own) ls1)\<rparr>)"

definition plan_item ::
  "ownership \<Rightarrow> (string \<times> 'r proxy_host) list \<Rightarrow> 'r derive_state \<Rightarrow> 'r item \<Rightarrow> 'r derive_state" where
  "plan_item own managed s0 it =
     (let s = s0\<lparr>ds_result := (ds_result s0)\<lparr>n_Discovered := n_Discovered (ds_result s0) + 1\<rparr>\<rparr>;
          hr = \<lparr>hr_Name = it_Name it, hr_Ref = it_Ref it, hr_Domains = [], hr_Action = Skipped,
                hr_Profile = it_Profile it, hr_Reason = NoReason\<rparr>
      in case it_Err it of
           Some err \<Rightarrow>
             (let s1 = (if it_Name it \<noteq> [] then s\<lparr>protected := it_Name it # protected s\<rparr> else s)
              in case map_of managed (it_Name it) of
                   Some cur \<Rightarrow>
                     if it_UnknownProfile it \<and> \<not> ph_Disabled cur
                     then s1\<lparr>disable := AList.update (it_Name it) (disabled_copy own cur) (disable s1),
                             ds_result := add_host (hr\<lparr>hr_Domains := ph_Domains cur, hr_Action := Updated,
                                 hr_Reason := DisabledProfile err\<rparr>)
                               ((ds_result s1)\<lparr>n_Updated := n_Updated (ds_result s1) + 1\<rparr>)\<rparr>
                     else s1\<lparr>ds_result := skip_host (hr\<lparr>hr_Reason := DeriveError err\<rparr>) (ds_result s1)\<rparr>
                 | None \<Rightarrow> s1\<lparr>ds_result := skip_host (hr\<lparr>hr_Reason := DeriveError err\<rparr>) (ds_result s1)\<rparr>)
         | None \<Rightarrow>
             (case map_of (src_of s) (it_Name it) of
                Some prev \<Rightarrow> s\<lparr>ds_result := skip_host (hr\<lparr>hr_Reason := NameCollision prev\<rparr>) (ds_result s)\<rparr>
              | None \<Rightarrow>
                  s\<lparr>desired := AList.update (it_Name it) (it_Host it) (desired s),
                    src_of := AList.update (it_Name it) (it_Ref it) (src_of s),
                    profile_of := AList.update (it_Name it) (it_Profile it) (profile_of s)\<rparr>))"

definition derive_items ::
  "ownership \<Rightarrow> (string \<times> 'r proxy_host) list \<Rightarrow> 'r item list \<Rightarrow> 'r derive_state" where
  "derive_items own managed its =
     foldl (plan_item own managed)
       \<lparr>ds_result = no_result, desired = [], src_of = [], profile_of = [], protected = [], disable = []\<rparr> its"

definition doomed :: "(string \<times> 'r proxy_host) list \<Rightarrow> 'r derive_state \<Rightarrow> string \<Rightarrow> bool" where
  "doomed managed s name \<longleftrightarrow>
     map_of managed name \<noteq> None \<and> map_of (desired s) name = None \<and> name \<notin> set (protected s)"

fun claim :: "string \<Rightarrow> string list \<Rightarrow> claims \<Rightarrow> claims" where
  "claim owner [] claimed = claimed"
| "claim owner (d # ds) claimed =
     (let key = DomainKey d in
      claim owner ds (if key = [] \<or> claimed key \<noteq> None then claimed else claimed(key \<mapsto> owner)))"

definition claim_all :: "(string \<times> string list) list \<Rightarrow> claims \<Rightarrow> claims" where
  "claim_all xs claimed = foldl (\<lambda>c (n, ds). claim n ds c) claimed xs"

text \<open>The claims before any derived host is placed: kept hosts, redirect and parked hosts, then what
  the rewritten managed hosts serve today, then what they want.\<close>

definition kept_claims ::
  "ownership \<Rightarrow> 'r config \<Rightarrow> (string \<times> 'r proxy_host) list \<Rightarrow> 'r derive_state \<Rightarrow> claims" where
  "kept_claims own cfg managed s =
     (let kept = filter (\<lambda>h. \<not> (Managed own h \<and> (map_of (desired s) (ph_Name h) \<noteq> None \<or> doomed managed s (ph_Name h))))
                   (ProxyHosts cfg);
          cur = current_hosts cfg;
          rewritten = filter (\<lambda>n. (case map_of cur n of None \<Rightarrow> False | Some h \<Rightarrow> Managed own h) \<and> \<not> doomed managed s n)
                        (sorted_keys (desired s));
          c0 = claim_all (map (\<lambda>h. (ph_Name h, ph_Domains h)) kept) Map.empty;
          c1 = claim_all (map (\<lambda>h. (sh_Name h, sh_Domains h)) (RedirectHosts cfg)) c0;
          c2 = claim_all (map (\<lambda>h. (sh_Name h, sh_Domains h)) (ParkedHosts cfg)) c1;
          c3 = claim_all (map (\<lambda>n. (n, ph_Domains (the (map_of cur n)))) rewritten) c2
      in claim_all (map (\<lambda>n. (n, ph_Domains (the (map_of (desired s) n)))) rewritten) c3)"

text \<open>What an existing managed host is rewritten to: the derived host, with the state the operator owns
  carried over.\<close>

definition carry_over :: "ownership \<Rightarrow> 'r proxy_host \<Rightarrow> 'r proxy_host \<Rightarrow> 'r proxy_host" where
  "carry_over own cur want =
     want\<lparr>ph_CreatedAt := ph_CreatedAt cur, ph_Maintenance := ph_Maintenance cur,
          ph_Disabled := (if OperatorDisabled own cur then True else ph_Disabled want)\<rparr>"

definition place_host ::
  "ownership \<Rightarrow> (string \<times> 'r proxy_host) list \<Rightarrow> 'r derive_state \<Rightarrow> claims \<times> 'r result \<Rightarrow> string \<Rightarrow> claims \<times> 'r result" where
  "place_host own current s cp name =
     (case cp of (claimed, p) \<Rightarrow>
      (let want = the (map_of (desired s) name);
           cur = map_of current name;
           hr = \<lparr>hr_Name = name, hr_Ref = label_get (src_of s) name, hr_Domains = ph_Domains want,
                 hr_Action = Skipped, hr_Profile = label_get (profile_of s) name, hr_Reason = NoReason\<rparr>;
           skip = (\<lambda>r. (case cur of Some c \<Rightarrow> claim name (ph_Domains c) claimed | None \<Rightarrow> claimed,
                        skip_host (hr\<lparr>hr_Reason := r\<rparr>) p));
           taken = firstClaimed (ph_Domains want) claimed
       in if taken \<noteq> None \<and> fst (the taken) \<noteq> [] \<and> snd (the taken) \<noteq> name
          then skip (DomainTaken (fst (the taken)) (snd (the taken)))
          else case cur of
            None \<Rightarrow>
              (claim name (ph_Domains want) claimed,
               add_host (hr\<lparr>hr_Action := Created\<rparr>) (p\<lparr>Upserts := Upserts p @ [want], n_Created := n_Created p + 1\<rparr>))
          | Some c \<Rightarrow>
              if \<not> Managed own c then skip NameTaken
              else let want' = carry_over own c want;
                       reenable = (\<not> OperatorDisabled own c \<and> ph_Disabled c)
                   in (claim name (ph_Domains want) claimed,
                       if SameHost c want' then add_host (hr\<lparr>hr_Action := Unchanged\<rparr>) p
                       else add_host (hr\<lparr>hr_Action := Updated,
                                 hr_Reason := (if OperatorDisabled own c then OperatorHeld
                                               else if reenable then Reenabled else NoReason)\<rparr>)
                              (p\<lparr>Upserts := Upserts p @ [want'], n_Updated := n_Updated p + 1\<rparr>))))"

definition Plan :: "'r config \<Rightarrow> ownership \<Rightarrow> 'r item list \<Rightarrow> 'r result" where
  "Plan cfg own its =
     (let current = current_hosts cfg;
          managed = managed_hosts own cfg;
          s = derive_items own managed its;
          (claimed, p1) = foldl (place_host own current s) (kept_claims own cfg managed s, ds_result s) (sorted_keys (desired s));
          p2 = p1\<lparr>Upserts := Upserts p1 @ map (\<lambda>n. the (map_of (disable s) n)) (sorted_keys (disable s))\<rparr>;
          gone = filter (doomed managed s) (sorted_keys managed);
          p3 = foldl (\<lambda>p n. add_host \<lparr>hr_Name = n, hr_Ref = [], hr_Domains = ph_Domains (the (map_of managed n)),
                       hr_Action = Deleted, hr_Profile = [], hr_Reason = NoReason\<rparr> (p\<lparr>Deletes := Deletes p @ [n]\<rparr>)) p2 gone
      in p3\<lparr>ManagedAfter := int (length managed) + int (n_Created p3) - int (length (Deletes p3))\<rparr>)"

section \<open>The two sources\<close>

definition DefaultAnnotationPrefix :: string where "DefaultAnnotationPrefix = ''gpm.rake.pro''"
definition ManagedByIngressDiscovery :: string where "ManagedByIngressDiscovery = ''ingress-discovery''"
definition ManagedByDockerDiscovery :: string where "ManagedByDockerDiscovery = ''docker-discovery''"

record ('t) discovery_settings =
  AnnotationPrefix :: string
  PrefixMigrate :: bool
  Template :: 't
  Profiles :: "string \<rightharpoonup> 't"
  ProfileRules :: "(string \<times> labels \<times> string) list"
  ProfileSelection :: string
  AllowedDomainSuffixes :: "string list"

definition Prefix :: "'t discovery_settings \<Rightarrow> string" where
  "Prefix d = (if AnnotationPrefix d = [] then DefaultAnnotationPrefix else AnnotationPrefix d)"

definition ManagedByLabel :: "'t discovery_settings \<Rightarrow> string" where
  "ManagedByLabel d = Prefix d @ ''/managed-by''"

definition DisabledByLabel :: "'t discovery_settings \<Rightarrow> string" where
  "DisabledByLabel d = Prefix d @ ''/disabled-by''"

definition hasStaleDiscoveryLabel :: "string \<Rightarrow> string \<Rightarrow> string \<Rightarrow> labels \<Rightarrow> bool" where
  "hasStaleDiscoveryLabel currentKey suf val m =
     list_ex (\<lambda>k. k \<noteq> currentKey \<and> map_of m k = Some val \<and> suffix suf k) (map fst m)"

definition StripStaleDiscoveryLabels :: "'t discovery_settings \<Rightarrow> string \<Rightarrow> labels \<Rightarrow> labels" where
  "StripStaleDiscoveryLabels d val m =
     filter (\<lambda>(k, v). \<not> (v = val \<and> k \<noteq> ManagedByLabel d \<and> k \<noteq> DisabledByLabel d \<and>
        (suffix ''/managed-by'' k \<or> suffix ''/disabled-by'' k))) m"

definition ownership_of :: "string \<Rightarrow> 't discovery_settings \<Rightarrow> ownership" where
  "ownership_of val d =
     \<lparr>ManagedByKey = ManagedByLabel d, DisabledByKey = DisabledByLabel d, Value = val, Migrate = PrefixMigrate d,
      HasStaleManaged = Some (hasStaleDiscoveryLabel (ManagedByLabel d) ''/managed-by'' val),
      HasStaleDisabled = Some (hasStaleDiscoveryLabel (DisabledByLabel d) ''/disabled-by'' val),
      StripStale = Some (StripStaleDiscoveryLabels d val)\<rparr>"

definition ingress_ownership :: "'t discovery_settings \<Rightarrow> ownership" where
  "ingress_ownership d = ownership_of ManagedByIngressDiscovery d"

definition docker_ownership :: "'t discovery_settings \<Rightarrow> ownership" where
  "docker_ownership d = ownership_of ManagedByDockerDiscovery d"

subsection \<open>Profiles and domain suffixes\<close>

definition ResolveProfile :: "'t discovery_settings \<Rightarrow> string \<Rightarrow> 't option \<times> string" where
  "ResolveProfile d raw =
     (let name = TrimSpace raw in
      if name = [] then (Some (Template d), ''template'') else (Profiles d name, name))"

definition rule_matches :: "string \<times> labels \<times> string \<Rightarrow> string \<Rightarrow> labels \<Rightarrow> bool" where
  "rule_matches r ns m =
     (case r of (rns, want, prof) \<Rightarrow>
        (rns = [] \<or> rns = ns) \<and> list_all (\<lambda>k. label_get m k = label_get want k) (map fst want))"

definition ResolveProfileFor :: "'t discovery_settings \<Rightarrow> string \<Rightarrow> labels \<Rightarrow> string \<Rightarrow> 't option \<times> string" where
  "ResolveProfileFor d ns m raw =
     (case find (\<lambda>r. rule_matches r ns m) (ProfileRules d) of
        Some (_, _, prof) \<Rightarrow>
          if prof = ''template'' then (Some (Template d), ''template'') else (Profiles d prof, prof)
      | None \<Rightarrow>
          if ProfileSelection d = ''rules-only'' then (Some (Template d), ''template'') else ResolveProfile d raw)"

definition norm_suffix :: "string \<Rightarrow> string" where
  "norm_suffix raw = (let s = ToLower (TrimSpace raw) in if Sublist.prefix ''.'' s then tl s else s)"

definition matchesSuffixList :: "string \<Rightarrow> string list \<Rightarrow> bool" where
  "matchesSuffixList name sfxs =
     list_ex (\<lambda>raw. let s = norm_suffix raw in s \<noteq> [] \<and> (name = s \<or> suffix (''.'' @ s) name)) sfxs"

definition suffixesSubsetOf :: "string list \<Rightarrow> string list \<Rightarrow> string option" where
  "suffixesSubsetOf narrow global = find (\<lambda>n. \<not> matchesSuffixList (norm_suffix n) global) narrow"

definition AllowedDomain :: "'t discovery_settings \<Rightarrow> string \<Rightarrow> bool" where
  "AllowedDomain d name = matchesSuffixList name (AllowedDomainSuffixes d)"

definition AllowedDomainFor :: "'t discovery_settings \<Rightarrow> string list \<Rightarrow> string \<Rightarrow> bool" where
  "AllowedDomainFor d tmplSuffixes name =
     (if tmplSuffixes \<noteq> [] then matchesSuffixList name tmplSuffixes else AllowedDomain d name)"

lemmas [go_eval] = label_get_def stale_def owns_def Managed_def OperatorDisabled_def cloneLabels_def DomainKey_def
  same_labels_def SameHost_def no_result_def add_host_def skip_host_def current_hosts_def managed_hosts_def
  disabled_copy_def plan_item_def derive_items_def doomed_def claim_all_def kept_claims_def carry_over_def
  place_host_def Plan_def Prefix_def ManagedByLabel_def DisabledByLabel_def hasStaleDiscoveryLabel_def
  StripStaleDiscoveryLabels_def ownership_of_def ingress_ownership_def docker_ownership_def

section \<open>The shape of a plan\<close>

lemma current_lookup:
  assumes "distinct (map ph_Name (ProxyHosts cfg))"
  shows "map_of (current_hosts cfg) n = Some h \<longleftrightarrow> h \<in> set (ProxyHosts cfg) \<and> ph_Name h = n"
  using fold_update_iff [OF assms, where g = "\<lambda>h. h"] by (auto simp: current_hosts_def)

lemma managed_filter:
  "managed_hosts own cfg = foldl (\<lambda>m h. AList.update (ph_Name h) h m) [] (filter (Managed own) (ProxyHosts cfg))"
proof -
  have "foldl (\<lambda>m h. if Managed own h then AList.update (ph_Name h) h m else m) m hs =
        foldl (\<lambda>m h. AList.update (ph_Name h) h m) m (filter (Managed own) hs)" for m hs
    by (induction hs arbitrary: m) auto
  then show ?thesis by (simp add: managed_hosts_def)
qed

lemma managed_lookup:
  assumes "distinct (map ph_Name (ProxyHosts cfg))"
  shows "map_of (managed_hosts own cfg) n = Some h \<longleftrightarrow> h \<in> set (ProxyHosts cfg) \<and> Managed own h \<and> ph_Name h = n"
proof -
  have d: "distinct (map ph_Name (filter (Managed own) (ProxyHosts cfg)))"
    using assms by (simp add: distinct_map_filter)
  show ?thesis unfolding managed_filter using fold_update_iff [OF d, where g = "\<lambda>h. h"] by auto
qed

text \<open>A derived host comes from an item without an error, and a host is only ever disabled because
  an item named an unknown profile for it.\<close>

definition derive_inv :: "ownership \<Rightarrow> (string \<times> 'r proxy_host) list \<Rightarrow> 'r item list \<Rightarrow> 'r derive_state \<Rightarrow> bool" where
  "derive_inv own managed its s \<longleftrightarrow>
     (\<forall>n h. map_of (desired s) n = Some h \<longrightarrow> (\<exists>it \<in> set its. it_Err it = None \<and> it_Name it = n \<and> it_Host it = h)) \<and>
     (\<forall>n h. map_of (disable s) n = Some h \<longrightarrow>
        (\<exists>it \<in> set its. it_Err it \<noteq> None \<and> it_UnknownProfile it \<and> it_Name it = n \<and>
          (\<exists>cur. map_of managed n = Some cur \<and> \<not> ph_Disabled cur \<and> h = disabled_copy own cur))) \<and>
     set (protected s) = {n. n \<noteq> [] \<and> (\<exists>it \<in> set its. it_Err it \<noteq> None \<and> it_Name it = n)} \<and>
     dom (map_of (desired s)) = {n. \<exists>it \<in> set its. it_Err it = None \<and> it_Name it = n} \<and>
     dom (map_of (src_of s)) = dom (map_of (desired s)) \<and>
     (\<forall>it \<in> set its. it_Err it \<noteq> None \<longrightarrow> it_UnknownProfile it \<longrightarrow>
        (\<forall>cur. map_of managed (it_Name it) = Some cur \<longrightarrow> \<not> ph_Disabled cur \<longrightarrow> map_of (disable s) (it_Name it) \<noteq> None)) \<and>
     Upserts (ds_result s) = [] \<and> Deletes (ds_result s) = []"

lemma plan_item_inv:
  assumes "derive_inv own managed its s"
  shows "derive_inv own managed (its @ [it]) (plan_item own managed s it)"
proof (cases "it_Err it")
  case ok: None
  show ?thesis
  proof (cases "map_of (src_of s) (it_Name it)")
    case None
    with assms ok show ?thesis
      unfolding derive_inv_def plan_item_def by (auto simp: Let_def update_conv')
  next
    case (Some prev)
    then have "it_Name it \<in> dom (map_of (src_of s))" by auto
    then obtain it' where "it' \<in> set its" "it_Err it' = None" "it_Name it' = it_Name it"
      using assms unfolding derive_inv_def by auto
    then have "{n. \<exists>x \<in> set (its @ [it]). it_Err x = None \<and> it_Name x = n} = {n. \<exists>x \<in> set its. it_Err x = None \<and> it_Name x = n}"
      by auto
    with assms ok Some show ?thesis
      unfolding derive_inv_def plan_item_def by (auto simp: Let_def skip_host_def add_host_def)
  qed
next
  case (Some e)
  show ?thesis
  proof (cases "map_of managed (it_Name it)")
    case None
    with assms Some show ?thesis
      unfolding derive_inv_def plan_item_def
      by (auto simp: Let_def skip_host_def add_host_def)
  next
    case (Some cur)
    with assms \<open>it_Err it = Some e\<close> show ?thesis
      unfolding derive_inv_def plan_item_def
      by (auto simp: Let_def update_conv' skip_host_def add_host_def)
  qed
qed

lemma derive_items_inv: "derive_inv own managed its (derive_items own managed its)"
proof (induction its rule: rev_induct)
  case Nil
  show ?case by (simp add: derive_inv_def derive_items_def no_result_def)
next
  case (snoc it its)
  from plan_item_inv [OF this] show ?case by (simp add: derive_items_def)
qed

lemma derive_invD:
  assumes "derive_inv own managed its s"
  shows "map_of (desired s) n = Some h \<Longrightarrow> \<exists>it \<in> set its. it_Err it = None \<and> it_Name it = n \<and> it_Host it = h"
    and "map_of (disable s) n = Some h \<Longrightarrow>
          \<exists>cur. map_of managed n = Some cur \<and> \<not> ph_Disabled cur \<and> h = disabled_copy own cur"
    and "map_of (disable s) n = Some h \<Longrightarrow> \<exists>it \<in> set its. it_Err it \<noteq> None \<and> it_UnknownProfile it \<and> it_Name it = n"
    and "it \<in> set its \<Longrightarrow> it_Err it \<noteq> None \<Longrightarrow> it_Name it \<noteq> [] \<Longrightarrow> it_Name it \<in> set (protected s)"
    and "it \<in> set its \<Longrightarrow> it_Err it = None \<Longrightarrow> map_of (desired s) (it_Name it) \<noteq> None"
    and "it \<in> set its \<Longrightarrow> it_Err it \<noteq> None \<Longrightarrow> it_UnknownProfile it \<Longrightarrow>
          map_of managed (it_Name it) = Some cur \<Longrightarrow> \<not> ph_Disabled cur \<Longrightarrow> map_of (disable s) (it_Name it) \<noteq> None"
    and "Upserts (ds_result s) = []" "Deletes (ds_result s) = []"
proof -
  note inv = assms [unfolded derive_inv_def]
  note a = inv [THEN conjunct1] and b = inv [THEN conjunct2, THEN conjunct1]
    and c = inv [THEN conjunct2, THEN conjunct2, THEN conjunct1]
    and d = inv [THEN conjunct2, THEN conjunct2, THEN conjunct2, THEN conjunct1]
    and e = inv [THEN conjunct2, THEN conjunct2, THEN conjunct2, THEN conjunct2, THEN conjunct2, THEN conjunct1]
    and f = inv [THEN conjunct2, THEN conjunct2, THEN conjunct2, THEN conjunct2, THEN conjunct2, THEN conjunct2]
  show "map_of (desired s) n = Some h \<Longrightarrow> \<exists>it \<in> set its. it_Err it = None \<and> it_Name it = n \<and> it_Host it = h"
    using a by blast
  show "map_of (disable s) n = Some h \<Longrightarrow> \<exists>cur. map_of managed n = Some cur \<and> \<not> ph_Disabled cur \<and> h = disabled_copy own cur"
    and "map_of (disable s) n = Some h \<Longrightarrow> \<exists>it \<in> set its. it_Err it \<noteq> None \<and> it_UnknownProfile it \<and> it_Name it = n"
    using b by blast+
  show "it \<in> set its \<Longrightarrow> it_Err it \<noteq> None \<Longrightarrow> it_Name it \<noteq> [] \<Longrightarrow> it_Name it \<in> set (protected s)"
    unfolding c by blast
  show "it \<in> set its \<Longrightarrow> it_Err it = None \<Longrightarrow> map_of (desired s) (it_Name it) \<noteq> None"
    unfolding domIff [symmetric] d by blast
  show "it \<in> set its \<Longrightarrow> it_Err it \<noteq> None \<Longrightarrow> it_UnknownProfile it \<Longrightarrow>
          map_of managed (it_Name it) = Some cur \<Longrightarrow> \<not> ph_Disabled cur \<Longrightarrow> map_of (disable s) (it_Name it) \<noteq> None"
    using e by blast
  show "Upserts (ds_result s) = []" "Deletes (ds_result s) = []" using f by simp_all
qed

text \<open>An upsert of the placement loop is a derived host under a free name, or a derived host merged
  into the managed host of that name.\<close>

definition placed :: "ownership \<Rightarrow> (string \<times> 'r proxy_host) list \<Rightarrow> 'r derive_state \<Rightarrow> 'r proxy_host \<Rightarrow> bool" where
  "placed own current s u \<longleftrightarrow>
     (\<exists>name want. map_of (desired s) name = Some want \<and>
        (map_of current name = None \<and> u = want \<or>
         (\<exists>c. map_of current name = Some c \<and> Managed own c \<and> u = carry_over own c want)))"

lemma place_host_step:
  assumes "map_of (desired s) name = Some want"
  shows "(\<exists>us. Upserts (snd (place_host own current s (claimed, p) name)) = Upserts p @ us \<and> list_all (placed own current s) us) \<and>
     Deletes (snd (place_host own current s (claimed, p) name)) = Deletes p"
proof (cases "map_of current name")
  case None
  have "placed own current s want" using assms None by (auto simp: placed_def)
  with assms None show ?thesis
    by (auto simp: place_host_def Let_def skip_host_def add_host_def)
next
  case (Some c)
  show ?thesis
  proof (cases "Managed own c")
    case True
    have "placed own current s (carry_over own c want)" using assms Some True by (auto simp: placed_def)
    with assms Some True show ?thesis
      by (auto simp: place_host_def Let_def skip_host_def add_host_def)
  next
    case False
    with assms Some show ?thesis
      by (auto simp: place_host_def Let_def skip_host_def add_host_def)
  qed
qed

lemma place_fold:
  assumes "set ns \<subseteq> dom (map_of (desired s))"
  shows "(\<exists>us. Upserts (snd (foldl (place_host own current s) (claimed, p) ns)) = Upserts p @ us \<and> list_all (placed own current s) us) \<and>
     Deletes (snd (foldl (place_host own current s) (claimed, p) ns)) = Deletes p"
  using assms
proof (induction ns arbitrary: claimed p)
  case (Cons n ns)
  obtain want where w: "map_of (desired s) n = Some want" using Cons.prems by auto
  obtain c1 p1 where st: "place_host own current s (claimed, p) n = (c1, p1)" by fastforce
  obtain us where us: "Upserts p1 = Upserts p @ us" "list_all (placed own current s) us" "Deletes p1 = Deletes p"
    using place_host_step [OF w, of own current claimed p] by (auto simp: st)
  obtain vs where vs: "Upserts (snd (foldl (place_host own current s) (c1, p1) ns)) = Upserts p1 @ vs"
      "list_all (placed own current s) vs" "Deletes (snd (foldl (place_host own current s) (c1, p1) ns)) = Deletes p1"
    using Cons.IH [of c1 p1] Cons.prems by auto
  show ?case using us vs by (auto simp: st intro!: exI [of _ "us @ vs"])
qed simp

lemma gone_fold:
  "Upserts (foldl (\<lambda>p n. add_host (f n) (p\<lparr>Deletes := Deletes p @ [n]\<rparr>)) p ns) = Upserts p"
  "Deletes (foldl (\<lambda>p n. add_host (f n) (p\<lparr>Deletes := Deletes p @ [n]\<rparr>)) p ns) = Deletes p @ ns"
  by (induction ns arbitrary: p) (simp_all add: add_host_def)

lemma Plan_shape:
  obtains us where
    "Upserts (Plan cfg own its) = us @
       map (\<lambda>n. the (map_of (disable (derive_items own (managed_hosts own cfg) its)) n))
         (sorted_keys (disable (derive_items own (managed_hosts own cfg) its)))"
    "list_all (placed own (current_hosts cfg) (derive_items own (managed_hosts own cfg) its)) us"
    "Deletes (Plan cfg own its) =
       filter (doomed (managed_hosts own cfg) (derive_items own (managed_hosts own cfg) its)) (sorted_keys (managed_hosts own cfg))"
proof -
  let ?m = "managed_hosts own cfg" and ?c = "current_hosts cfg"
  let ?s = "derive_items own ?m its"
  have inv: "derive_inv own ?m its ?s" by (rule derive_items_inv)
  obtain cl p1 where f: "foldl (place_host own ?c ?s) (kept_claims own cfg ?m ?s, ds_result ?s) (sorted_keys (desired ?s)) = (cl, p1)"
    by fastforce
  obtain us where us: "Upserts p1 = Upserts (ds_result ?s) @ us" "list_all (placed own ?c ?s) us" "Deletes p1 = Deletes (ds_result ?s)"
    using place_fold [of "sorted_keys (desired ?s)" ?s own ?c "kept_claims own cfg ?m ?s" "ds_result ?s"] by (auto simp: f)
  with derive_invD(7,8) [OF inv] us f show ?thesis by (intro that [of us]) (simp_all add: Plan_def Let_def gone_fold)
qed

definition items_ok :: "'r item list \<Rightarrow> bool" where
  "items_ok its \<longleftrightarrow> list_all (\<lambda>it. it_Err it = None \<longrightarrow> ph_Name (it_Host it) = it_Name it) its"

definition names_ok :: "'r config \<Rightarrow> bool" where
  "names_ok cfg \<longleftrightarrow> distinct (map ph_Name (ProxyHosts cfg))"

lemma disabled_copy_name [simp]: "ph_Name (disabled_copy own cur) = ph_Name cur" "ph_Disabled (disabled_copy own cur)"
  by (simp_all add: disabled_copy_def Let_def)

lemma carry_over_name [simp]: "ph_Name (carry_over own c w) = ph_Name w"
  by (simp add: carry_over_def)

text \<open>Every write of a plan concerns a free name or a managed host.\<close>

lemma plan_writes_managed:
  assumes "names_ok cfg" "items_ok its"
  shows "\<forall>u \<in> set (Upserts (Plan cfg own its)). \<forall>h \<in> set (ProxyHosts cfg). ph_Name h = ph_Name u \<longrightarrow> Managed own h"
    and "\<forall>n \<in> set (Deletes (Plan cfg own its)). \<forall>h \<in> set (ProxyHosts cfg). ph_Name h = n \<longrightarrow> Managed own h"
proof -
  let ?m = "managed_hosts own cfg" and ?c = "current_hosts cfg"
  let ?s = "derive_items own ?m its"
  have dn: "distinct (map ph_Name (ProxyHosts cfg))" using assms(1) by (simp add: names_ok_def)
  note cur = current_lookup [OF dn] and man = managed_lookup [OF dn]
  have inv: "derive_inv own ?m its ?s" by (rule derive_items_inv)
  obtain us where us: "Upserts (Plan cfg own its) = us @ map (\<lambda>n. the (map_of (disable ?s) n)) (sorted_keys (disable ?s))"
      "list_all (placed own ?c ?s) us" "Deletes (Plan cfg own its) = filter (doomed ?m ?s) (sorted_keys ?m)"
    by (rule Plan_shape)
  have uniq: "h = h'" if "h \<in> set (ProxyHosts cfg)" "h' \<in> set (ProxyHosts cfg)" "ph_Name h = ph_Name h'" for h h'
    using dn that by (auto simp: distinct_map inj_on_def)
  have "Managed own h" if u: "placed own ?c ?s u" and h: "h \<in> set (ProxyHosts cfg)" "ph_Name h = ph_Name u" for u h
  proof -
    obtain name want where w: "map_of (desired ?s) name = Some want"
      and k: "map_of ?c name = None \<and> u = want \<or> (\<exists>c. map_of ?c name = Some c \<and> Managed own c \<and> u = carry_over own c want)"
      using u by (auto simp: placed_def)
    have "ph_Name want = name"
      using derive_invD(1) [OF inv w] assms(2) by (auto simp: items_ok_def list_all_iff)
    then have n: "ph_Name u = name" using k by auto
    then have "map_of ?c name = Some h" using h cur [of name h] by simp
    with k show ?thesis by auto
  qed
  moreover have "Managed own h"
    if n: "n \<in> set (sorted_keys (disable ?s))" and h: "h \<in> set (ProxyHosts cfg)" "ph_Name h = ph_Name (the (map_of (disable ?s) n))" for n h
  proof -
    obtain d where "map_of (disable ?s) n = Some d" using n by auto
    moreover obtain c where "map_of ?m n = Some c" "d = disabled_copy own c"
      using derive_invD(2) [OF inv calculation] by blast
    ultimately have "c \<in> set (ProxyHosts cfg)" "Managed own c" "ph_Name c = ph_Name h" using man [of own n c] h by auto
    with uniq h show ?thesis by blast
  qed
  ultimately show "\<forall>u \<in> set (Upserts (Plan cfg own its)). \<forall>h \<in> set (ProxyHosts cfg). ph_Name h = ph_Name u \<longrightarrow> Managed own h"
    using us(2) unfolding us(1) set_append ball_Un list_all_iff set_map ball_simps by meson
  show "\<forall>n \<in> set (Deletes (Plan cfg own its)). \<forall>h \<in> set (ProxyHosts cfg). ph_Name h = n \<longrightarrow> Managed own h"
  proof (intro ballI impI)
    fix n h assume n: "n \<in> set (Deletes (Plan cfg own its))" and h: "h \<in> set (ProxyHosts cfg)" "ph_Name h = n"
    then obtain c where "map_of ?m n = Some c" using us(3) by (auto simp: doomed_def)
    then have "c \<in> set (ProxyHosts cfg)" "Managed own c" "ph_Name c = n" using man [of own n c] by auto
    with uniq h show "Managed own h" by blast
  qed
qed

section \<open>What a source promises\<close>

definition carries :: "string \<Rightarrow> labels \<Rightarrow> bool" where
  "carries val m \<longleftrightarrow> list_ex (\<lambda>k. map_of m k = Some val \<and> suffix ''/managed-by'' k) (map fst m)"

lemma disabled_is_recoverable:
  "Managed own (disabled_copy own cur) \<and> \<not> OperatorDisabled own (disabled_copy own cur)"
  by (auto simp: Managed_def owns_def OperatorDisabled_def disabled_copy_def Let_def label_get_def update_conv')

locale discovery_source =
  fixes own :: ownership
  assumes owns_carries: "owns own m \<Longrightarrow> carries (Value own) m"
begin

lemma writes_only_own:
  assumes "names_ok cfg" "items_ok its" "h \<in> set (ProxyHosts cfg)" "\<not> carries (Value own) (ph_Labels h)"
  shows "ph_Name h \<notin> ph_Name ` set (Upserts (Plan cfg own its)) \<and> ph_Name h \<notin> set (Deletes (Plan cfg own its))"
  using plan_writes_managed [OF assms(1,2), of own] owns_carries assms(3,4) by (auto simp: Managed_def)

end

lemma carriesI: "map_of m k = Some val \<Longrightarrow> suffix ''/managed-by'' k \<Longrightarrow> carries val m"
  unfolding carries_def list_ex_iff by (metis list.set_map map_of_eq_None_iff option.distinct(1))

lemma ownership_carries:
  assumes "val \<noteq> []" "owns (ownership_of val d) m"
  shows "carries val m"
proof (cases "map_of m (ManagedByLabel d) = Some val")
  case True
  moreover have "suffix ''/managed-by'' (ManagedByLabel d)" unfolding ManagedByLabel_def by (rule suffixI) simp
  ultimately show ?thesis by (rule carriesI)
next
  case False
  then have "hasStaleDiscoveryLabel (ManagedByLabel d) ''/managed-by'' val m"
    using assms by (auto simp: owns_def ownership_of_def label_get_def stale_def split: option.splits)
  then show ?thesis unfolding hasStaleDiscoveryLabel_def list_ex_iff using carriesI by blast
qed

interpretation ingress: discovery_source "ingress_ownership d" for d
  by unfold_locales (auto simp: ingress_ownership_def ManagedByIngressDiscovery_def ownership_of_def
      dest: ownership_carries [rotated, unfolded ownership_of_def])

interpretation docker: discovery_source "docker_ownership d" for d
  by unfold_locales (auto simp: docker_ownership_def ManagedByDockerDiscovery_def ownership_of_def
      dest: ownership_carries [rotated, unfolded ownership_of_def])

section \<open>Properties\<close>

text \<open>C29: Discovery writes only what it owns. Neither source ever updates or deletes a proxy host that
  does not carry its own managed-by value under some prefix: a host written by hand, or one that
  belongs to the other source, keeps its name and its content whatever the source declares.\<close>

theorem discovery_writes_only_its_own:
  assumes "names_ok cfg" "items_ok its" "h \<in> set (ProxyHosts cfg)"
    and "own = ingress_ownership d \<and> \<not> carries ManagedByIngressDiscovery (ph_Labels h) \<or>
         own = docker_ownership d \<and> \<not> carries ManagedByDockerDiscovery (ph_Labels h)"
  shows "ph_Name h \<notin> ph_Name ` set (Upserts (Plan cfg own its)) \<and> ph_Name h \<notin> set (Deletes (Plan cfg own its))"
  using assms(4) ingress.writes_only_own [OF assms(1,2,3)] docker.writes_only_own [OF assms(1,2,3)]
  by (auto simp: ingress_ownership_def docker_ownership_def ownership_of_def)

definition unit_host :: "string \<Rightarrow> labels \<Rightarrow> string list \<Rightarrow> unit proxy_host" where
  "unit_host n ls ds = \<lparr>ph_Name = n, ph_Labels = ls, ph_Domains = ds, ph_Disabled = False, ph_Maintenance = False,
     ph_CreatedAt = 0, ph_UpdatedAt = 0, ph_rest = ()\<rparr>"

definition unit_item :: "string \<Rightarrow> string list \<Rightarrow> unit item" where
  "unit_item n ds = \<lparr>it_Ref = n, it_Name = n, it_Host = unit_host n [(''gpm.rake.pro/managed-by'', ''ingress-discovery'')] ds,
     it_Profile = ''template'', it_Err = None, it_UnknownProfile = False\<rparr>"

definition plain_settings :: "unit discovery_settings" where
  "plain_settings = \<lparr>AnnotationPrefix = [], PrefixMigrate = False, Template = (), Profiles = Map.empty, ProfileRules = [],
     ProfileSelection = [], AllowedDomainSuffixes = []\<rparr>"

definition operator_config :: "unit config" where
  "operator_config = \<lparr>ProxyHosts = [unit_host ''app'' [(''gpm.rake.pro/managed-by'', ''ingress-discovery'')] [''app.example.com''],
       unit_host ''vault'' [] [''vault.example.com'']],
     RedirectHosts = [], ParkedHosts = []\<rparr>"

lemma operator_config_ok: "names_ok operator_config" "items_ok [unit_item ''vault'' [''x.example.com'']]"
  "items_ok [unit_item ''app'' [''app.example.com'', ''vault.example.com'']]" "items_ok ([] :: unit item list)"
  by (simp_all add: names_ok_def items_ok_def operator_config_def unit_host_def unit_item_def)

theorem discovery_writes_only_its_own_witness:
  "''vault'' \<notin> ph_Name ` set (Upserts (Plan operator_config (ingress_ownership plain_settings) [unit_item ''vault'' [''x.example.com'']]))"
  using discovery_writes_only_its_own [OF operator_config_ok(1,2), of "unit_host ''vault'' [] [''vault.example.com'']"
      "ingress_ownership plain_settings" plain_settings]
  by (simp add: operator_config_def carries_def) (simp add: unit_host_def)

lemma sorted_keys_mem: "k \<in> set (sorted_keys m) \<longleftrightarrow> map_of m k \<noteq> None"
  by (auto simp: domIff)

text \<open>A derive failure freezes the host it belongs to. When the only items of a name failed to
  derive, its host is not deleted; and unless one of them names an unknown profile, it is not written
  at all.\<close>

theorem failed_derive_freezes:
  assumes "names_ok cfg" "items_ok its" "it \<in> set its" "it_Err it \<noteq> None" "it_Name it = n" "n \<noteq> []"
    and "list_all (\<lambda>x. it_Name x = n \<longrightarrow> it_Err x \<noteq> None) its"
  shows "n \<notin> set (Deletes (Plan cfg own its)) \<and>
     (list_all (\<lambda>x. it_Name x = n \<longrightarrow> \<not> it_UnknownProfile x) its \<longrightarrow> n \<notin> ph_Name ` set (Upserts (Plan cfg own its)))"
proof -
  let ?m = "managed_hosts own cfg" and ?s = "derive_items own (managed_hosts own cfg) its"
  have inv: "derive_inv own ?m its ?s" by (rule derive_items_inv)
  obtain us where us: "Upserts (Plan cfg own its) = us @ map (\<lambda>n. the (map_of (disable ?s) n)) (sorted_keys (disable ?s))"
      "list_all (placed own (current_hosts cfg) ?s) us" "Deletes (Plan cfg own its) = filter (doomed ?m ?s) (sorted_keys ?m)"
    by (rule Plan_shape)
  have "n \<notin> set (Deletes (Plan cfg own its))"
    using derive_invD(4) [OF inv assms(3,4)] assms(5,6) by (simp add: us(3) doomed_def)
  moreover have "n \<notin> ph_Name ` set us"
  proof
    assume "n \<in> ph_Name ` set us"
    then obtain u where u: "placed own (current_hosts cfg) ?s u" "ph_Name u = n" using us(2) by (auto simp: list_all_iff)
    then obtain k want where w: "map_of (desired ?s) k = Some want" "ph_Name want = n" by (auto simp: placed_def)
    from derive_invD(1) [OF inv w(1)] obtain x where "x \<in> set its" "it_Err x = None" "it_Host x = want" by blast
    with assms(2,7) w(2) show False by (auto simp: items_ok_def list_all_iff)
  qed
  moreover have "n \<noteq> ph_Name (the (map_of (disable ?s) k))"
    if "list_all (\<lambda>x. it_Name x = n \<longrightarrow> \<not> it_UnknownProfile x) its" "k \<in> set (sorted_keys (disable ?s))" for k
  proof -
    obtain h where h: "map_of (disable ?s) k = Some h" using \<open>k \<in> _\<close> by (auto simp: sorted_keys_mem simp del: set_sorted_keys)
    obtain c where c: "map_of ?m k = Some c" "h = disabled_copy own c" using derive_invD(2) [OF inv h] by blast
    then have "ph_Name h = k" using managed_lookup [of cfg own k c] assms(1) by (simp add: names_ok_def)
    moreover obtain x where "x \<in> set its" "it_UnknownProfile x" "it_Name x = k" using derive_invD(3) [OF inv h] by blast
    ultimately show ?thesis using that(1) h by (auto simp: list_all_iff)
  qed
  ultimately show ?thesis unfolding us(1) by auto
qed

text \<open>What the operator set on a managed host survives a reconcile. Every rewrite of an existing
  host keeps its creation time and its maintenance flag, and leaves it disabled if the operator had
  disabled it; the only other write is the fail-closed disable.\<close>

theorem operator_state_survives:
  assumes "names_ok cfg" "items_ok its" "u \<in> set (Upserts (Plan cfg own its))"
    and "c \<in> set (ProxyHosts cfg)" "ph_Name c = ph_Name u"
  shows "ph_CreatedAt u = ph_CreatedAt c \<and> ph_Maintenance u = ph_Maintenance c \<and>
         (OperatorDisabled own c \<longrightarrow> ph_Disabled u) \<and> Managed own c"
proof -
  let ?m = "managed_hosts own cfg" and ?s = "derive_items own (managed_hosts own cfg) its"
  have dn: "distinct (map ph_Name (ProxyHosts cfg))" using assms(1) by (simp add: names_ok_def)
  have inv: "derive_inv own ?m its ?s" by (rule derive_items_inv)
  have man: "Managed own c" using plan_writes_managed(1) [OF assms(1,2), of own] assms(3,4,5) by blast
  obtain us where us: "Upserts (Plan cfg own its) = us @ map (\<lambda>n. the (map_of (disable ?s) n)) (sorted_keys (disable ?s))"
      "list_all (placed own (current_hosts cfg) ?s) us"
    by (rule Plan_shape)
  then consider (placed) "placed own (current_hosts cfg) ?s u" | (off) k where "map_of (disable ?s) k = Some u"
    using assms(3) unfolding us(1) by (auto simp: list_all_iff)
  then show ?thesis
  proof cases
    case placed
    then obtain k want where w: "map_of (desired ?s) k = Some want"
      and k: "map_of (current_hosts cfg) k = None \<and> u = want \<or>
        (\<exists>c. map_of (current_hosts cfg) k = Some c \<and> Managed own c \<and> u = carry_over own c want)"
      by (auto simp: placed_def)
    have "ph_Name want = k" using derive_invD(1) [OF inv w] assms(2) by (auto simp: items_ok_def list_all_iff)
    then have "ph_Name u = k" using k by auto
    then have "map_of (current_hosts cfg) k = Some c" using current_lookup [OF dn, of k c] assms(4,5) by simp
    then show ?thesis using k man by (auto simp: carry_over_def)
  next
    case off
    obtain c' where c': "map_of ?m k = Some c'" "u = disabled_copy own c'" using derive_invD(2) [OF inv off] by blast
    then have "c' \<in> set (ProxyHosts cfg)" "ph_Name c' = ph_Name c" using managed_lookup [OF dn, of own k c'] assms(5) by auto
    then have "c' = c" using dn assms(4) by (auto simp: distinct_map inj_on_def)
    then show ?thesis using c' man by (simp add: disabled_copy_def Let_def)
  qed
qed

definition failing_item :: "bool \<Rightarrow> unit item" where
  "failing_item unknown = (unit_item ''app'' [])\<lparr>it_Err := Some ''bad'', it_UnknownProfile := unknown\<rparr>"

lemma failing_item_ok: "items_ok [failing_item unknown]"
  by (simp add: items_ok_def failing_item_def unit_item_def)

theorem failed_derive_freezes_witness:
  "''app'' \<notin> set (Deletes (Plan operator_config (ingress_ownership plain_settings) [failing_item False]))"
  using failed_derive_freezes [OF operator_config_ok(1) failing_item_ok, of "failing_item False" False "''app''"]
  by (simp add: failing_item_def unit_item_def)

lemma shadow_plan:
  "Upserts (Plan operator_config (ingress_ownership plain_settings) [unit_item ''app'' [''app.example.com'', ''vault.example.com'']]) =
   [unit_host ''app'' [(''gpm.rake.pro/managed-by'', ''ingress-discovery'')] [''app.example.com'', ''vault.example.com'']]"
  by code_simp

theorem operator_state_survives_witness:
  "ph_Maintenance (unit_host ''app'' [(''gpm.rake.pro/managed-by'', ''ingress-discovery'')] [''app.example.com'', ''vault.example.com'']) =
   ph_Maintenance (unit_host ''app'' [(''gpm.rake.pro/managed-by'', ''ingress-discovery'')] [''app.example.com''])"
  using operator_state_survives [OF operator_config_ok(1,3), of
      "unit_host ''app'' [(''gpm.rake.pro/managed-by'', ''ingress-discovery'')] [''app.example.com'', ''vault.example.com'']"
      "ingress_ownership plain_settings" "unit_host ''app'' [(''gpm.rake.pro/managed-by'', ''ingress-discovery'')] [''app.example.com'']"]
  by (simp add: shadow_plan operator_config_def) (simp add: unit_host_def)

text \<open>Revoking a profile revokes the hosts that use it. When an item names a profile that does not
  resolve, the enabled managed host of that name ends the reconcile disabled: the last write for its
  name is the disabled copy, even if another item of the same name derived cleanly. The copy is still
  managed, and its disable is not taken for the operator's, so a later clean derive lifts it.\<close>

theorem revoked_profile_fails_closed:
  assumes "names_ok cfg" "it \<in> set its" "it_Err it \<noteq> None" "it_UnknownProfile it"
    and "c \<in> set (ProxyHosts cfg)" "Managed own c" "ph_Name c = it_Name it" "\<not> ph_Disabled c"
  shows "filter (\<lambda>u. ph_Name u = ph_Name c) (Upserts (Plan cfg own its)) \<noteq> [] \<and>
     last (filter (\<lambda>u. ph_Name u = ph_Name c) (Upserts (Plan cfg own its))) = disabled_copy own c \<and>
     ph_Disabled (disabled_copy own c) \<and> Managed own (disabled_copy own c) \<and> \<not> OperatorDisabled own (disabled_copy own c)"
proof -
  let ?m = "managed_hosts own cfg" and ?s = "derive_items own (managed_hosts own cfg) its"
  have dn: "distinct (map ph_Name (ProxyHosts cfg))" using assms(1) by (simp add: names_ok_def)
  have inv: "derive_inv own ?m its ?s" by (rule derive_items_inv)
  obtain us where us: "Upserts (Plan cfg own its) = us @ map (\<lambda>n. the (map_of (disable ?s) n)) (sorted_keys (disable ?s))"
    by (rule Plan_shape)
  let ?off = "filter (\<lambda>u. ph_Name u = ph_Name c) (map (\<lambda>n. the (map_of (disable ?s) n)) (sorted_keys (disable ?s)))"
  have mc: "map_of ?m (it_Name it) = Some c" using managed_lookup [OF dn, of own "it_Name it" c] assms(5-7) by simp
  have all: "u = disabled_copy own c" if u: "u \<in> set ?off" for u
  proof -
    obtain k where k: "map_of (disable ?s) k = Some u" "ph_Name u = ph_Name c" using u by auto
    obtain c' where c': "map_of ?m k = Some c'" "u = disabled_copy own c'" using derive_invD(2) [OF inv k(1)] by blast
    then have "ph_Name c' = k" using managed_lookup [OF dn, of own k c'] by simp
    with c' k(2) mc assms(7) show ?thesis by simp
  qed
  obtain d where d: "map_of (disable ?s) (it_Name it) = Some d"
    using derive_invD(6) [OF inv assms(2-4) mc assms(8)] by auto
  then have "d = disabled_copy own c" using derive_invD(2) [OF inv d] mc by auto
  then have "d \<in> set ?off" using d by force
  then have ne: "?off \<noteq> []" by (metis empty_iff empty_set)
  then have "last ?off = disabled_copy own c" by (intro all last_in_set)
  with ne disabled_is_recoverable show ?thesis unfolding us by (simp del: filter_map)
qed

theorem revoked_profile_fails_closed_witness:
  "ph_Disabled (last (filter (\<lambda>u. ph_Name u = ''app'')
     (Upserts (Plan operator_config (ingress_ownership plain_settings) [failing_item True]))))"
  using revoked_profile_fails_closed [OF operator_config_ok(1), of "failing_item True" "[failing_item True]"
      "unit_host ''app'' [(''gpm.rake.pro/managed-by'', ''ingress-discovery'')] [''app.example.com'']"
      "ingress_ownership plain_settings"]
  by (simp add: failing_item_def unit_item_def operator_config_def)
     (simp add: unit_host_def Managed_def owns_def ingress_ownership_def ownership_of_def ManagedByLabel_def Prefix_def
        plain_settings_def DefaultAnnotationPrefix_def label_get_def ManagedByIngressDiscovery_def)

text \<open>The domain gate of the planner looks only at the first claimed domain. A managed host whose
  first domain is its own may add any domain of a host it does not own behind it: the plan upserts it
  with that domain. Listed the other way round the same request is refused.\<close>

theorem domain_gate_checks_first_claim_only:
  "Upserts (Plan operator_config (ingress_ownership plain_settings) [unit_item ''app'' [''app.example.com'', ''vault.example.com'']]) =
     [unit_host ''app'' [(''gpm.rake.pro/managed-by'', ''ingress-discovery'')] [''app.example.com'', ''vault.example.com'']] \<and>
   Upserts (Plan operator_config (ingress_ownership plain_settings) [unit_item ''app'' [''vault.example.com'', ''app.example.com'']]) = []"
  by code_simp

end
