(* ===== verification/Host_Model.thy ===== *)
theory Host_Model
  imports Complex_Main Access_List Discovery
begin

text \<open>
  The objects of the configuration that serve traffic and their own validation:
  \<open>internal/model/host.go\<close>, \<open>ValidateName\<close> of \<open>model.go\<close>, the auth and rate-limit specifications of
  \<open>middleware.go\<close> that a host may carry inline, and the header and trusted-proxy validators of
  \<open>settings.go\<close>.

  A validator returns the first error of the code, \<^const>\<open>None\<close> when the object passes. An error is the
  dotted path of the field it is about, with which every message of the code starts; the sentence
  after it and the owner before it are not kept. The regular expressions of the code are written as
  predicates on strings. \<open>float64\<close> values are rational numbers: configured ones are finite decimals,
  and the code only compares them. A Go map is an association list with distinct keys; where an error
  depends on the order of a map iteration, the model takes the order of the list.
\<close>

section \<open>First error\<close>

type_synonym verr = "string option"

fun first_err :: "verr list \<Rightarrow> verr" where
  "first_err [] = None"
| "first_err (Some e # es) = Some e"
| "first_err (None # es) = first_err es"

definition check :: "bool \<Rightarrow> string \<Rightarrow> verr" where
  "check ok field = (if ok then None else Some field)"

definition under :: "string \<Rightarrow> verr \<Rightarrow> verr" where
  "under path e = map_option (\<lambda>f. path @ f) e"

lemma first_err_None [simp]: "first_err es = None \<longleftrightarrow> list_all (\<lambda>e. e = None) es"
  by (induction es rule: first_err.induct) auto

lemma check_None [simp]: "check ok field = None \<longleftrightarrow> ok"
  by (simp add: check_def)

lemma under_None [simp]: "under path e = None \<longleftrightarrow> e = None"
  by (simp add: under_def)

lemma list_all_map_None [simp]: "list_all (\<lambda>e. e = None) (map f xs) \<longleftrightarrow> list_all (\<lambda>x. f x = None) xs"
  by (simp add: list_all_iff)

section \<open>Durations\<close>

text \<open>\<open>time.ParseDuration\<close>: a sign and a sequence of numbers with units, in nanoseconds. A fractional part is
  cut exactly, where Go goes through \<open>float64\<close>.\<close>

definition unit_ns :: "string \<Rightarrow> int option" where
  "unit_ns u =
     (if u = ''ns'' then Some 1 else if u \<in> {''us'', [CHR 0xC2, CHR 0xB5, CHR ''s''], [CHR 0xCE, CHR 0xBC, CHR ''s'']} then Some 1000 else if u = ''ms'' then Some 1000000
      else if u = ''s'' then Some 1000000000 else if u = ''m'' then Some 60000000000
      else if u = ''h'' then Some 3600000000000 else None)"

definition dec_val :: "string \<Rightarrow> int" where
  "dec_val s = foldl (\<lambda>a c. 10 * a + int (digit_val c)) 0 s"

definition in_number :: "char \<Rightarrow> bool" where
  "in_number c \<longleftrightarrow> c = CHR ''.'' \<or> is_digit c"

text \<open>The digits before the dot, the digits after it, and what follows the number.\<close>

definition number_parts :: "string \<Rightarrow> string \<times> string \<times> string" where
  "number_parts s =
     (let s1 = dropWhile is_digit s in
      if s1 \<noteq> [] \<and> hd s1 = CHR ''.'' then (takeWhile is_digit s, takeWhile is_digit (tl s1), dropWhile is_digit (tl s1))
      else (takeWhile is_digit s, [], s1))"

lemma number_parts_rest: "number_parts s = (w, f, rest) \<Longrightarrow> length rest \<le> length s"
  using length_dropWhile_le [of is_digit s] length_dropWhile_le [of is_digit "tl (dropWhile is_digit s)"]
  by (auto simp: number_parts_def Let_def split: if_splits)

lemma dropWhile_shorter: "takeWhile P s \<noteq> [] \<Longrightarrow> length (dropWhile P s) < length s"
  using takeWhile_dropWhile_id [of P s] by (metis length_append length_greater_0_conv less_add_same_cancel2)

function parse_parts :: "int \<Rightarrow> string \<Rightarrow> int option" where
  "parse_parts d s =
     (if s = [] then Some d
      else case number_parts s of (whole, post, s3) \<Rightarrow>
        (let u = takeWhile (\<lambda>c. \<not> in_number c) s3
         in if \<not> in_number (hd s) \<or> (whole = [] \<and> post = []) \<or> dec_val whole > 2 ^ 63 \<or> u = [] then None
            else case unit_ns u of
              None \<Rightarrow> None
            | Some n \<Rightarrow>
                let v = dec_val whole * n + dec_val post * n div 10 ^ length post
                in if dec_val whole > 2 ^ 63 div n \<or> v > 2 ^ 63 \<or> d + v > 2 ^ 63 then None
                   else parse_parts (d + v) (dropWhile (\<lambda>c. \<not> in_number c) s3)))"
  by pat_completeness auto

lemma parse_parts_less:
  assumes "(w, y) = number_parts s" "(f, rest) = y" "takeWhile P rest \<noteq> []"
  shows "length (dropWhile P rest) < length s"
proof -
  have "number_parts s = (w, f, rest)" using assms(1,2) by simp
  then show ?thesis using number_parts_rest [of s w f rest] dropWhile_shorter [OF assms(3)] by simp
qed

termination parse_parts
  by (relation "measure (\<lambda>(d, s). length s)", simp)
     (simp only: in_measure split_conv de_Morgan_disj, elim conjE, rule parse_parts_less, assumption+)

definition ParseDuration :: "string \<Rightarrow> int option" where
  "ParseDuration s0 =
     (let neg = (s0 \<noteq> [] \<and> hd s0 = CHR ''-'');
          s = (if s0 \<noteq> [] \<and> (hd s0 = CHR ''-'' \<or> hd s0 = CHR ''+'') then tl s0 else s0)
      in if s = ''0'' then Some 0
         else if s = [] then None
         else case parse_parts 0 s of
           None \<Rightarrow> None
         | Some d \<Rightarrow> if neg then Some (- d) else if d > 2 ^ 63 - 1 then None else Some d)"

lemma ParseDuration_test: "ParseDuration ''1m'' = Some 60000000000 \<and> ParseDuration ''1h30m'' = Some 5400000000000 \<and>
   ParseDuration ''1.5s'' = Some 1500000000 \<and> ParseDuration ''-2ms'' = Some (-2000000) \<and> ParseDuration ''5'' = None"
  by code_simp

section \<open>Names and hostnames\<close>

definition is_lower :: "char \<Rightarrow> bool" where
  "is_lower c \<longleftrightarrow> 97 \<le> byte_of c \<and> byte_of c \<le> 122"

definition is_upper :: "char \<Rightarrow> bool" where
  "is_upper c \<longleftrightarrow> 65 \<le> byte_of c \<and> byte_of c \<le> 90"

definition lower_alnum :: "char \<Rightarrow> bool" where
  "lower_alnum c \<longleftrightarrow> is_lower c \<or> is_digit c"

definition alnum :: "char \<Rightarrow> bool" where
  "alnum c \<longleftrightarrow> lower_alnum c \<or> is_upper c"

text \<open>The shape \<open>X(Y{0,n-2}X)?\<close> of the code's regular expressions: at most \<open>n\<close> characters of class \<open>Y\<close>,
  the first and the last of class \<open>X\<close> (every class \<open>X\<close> used is contained in its \<open>Y\<close>).\<close>

definition label_like :: "(char \<Rightarrow> bool) \<Rightarrow> (char \<Rightarrow> bool) \<Rightarrow> nat \<Rightarrow> string \<Rightarrow> bool" where
  "label_like X Y n s \<longleftrightarrow> s \<noteq> [] \<and> length s \<le> n \<and> X (hd s) \<and> X (last s) \<and> list_all Y s"

definition name_char :: "char \<Rightarrow> bool" where
  "name_char c \<longleftrightarrow> lower_alnum c \<or> c \<in> set ''-_.''"

definition ldh :: "char \<Rightarrow> bool" where
  "ldh c \<longleftrightarrow> lower_alnum c \<or> c = CHR ''-''"

definition ValidateName :: "string \<Rightarrow> verr" where
  "ValidateName name = (if name = [] then Some ''name'' else check (label_like lower_alnum name_char 253 name) ''name'')"

definition IsDNSLabel :: "string \<Rightarrow> bool" where
  "IsDNSLabel s = label_like lower_alnum ldh 63 s"

definition NormalizeHostname :: "string \<Rightarrow> string" where
  "NormalizeHostname s = TrimSuffix (ToLower (TrimSpace s)) ''.''"

definition IsHostname :: "string \<Rightarrow> bool" where
  "IsHostname s \<longleftrightarrow> length s \<le> 253 \<and>
     (let ls = split_on (CHR ''.'') s in length ls \<ge> 2 \<and> list_all IsDNSLabel ls)"

section \<open>Upstreams\<close>

record upstream =
  u_Scheme :: string
  u_Host :: string
  u_Port :: int
  u_Path :: string
  u_HostHeader :: string

definition no_upstream :: upstream where
  "no_upstream = \<lparr>u_Scheme = [], u_Host = [], u_Port = 0, u_Path = [], u_HostHeader = []\<rparr>"

definition validateUpstreamPath :: "string \<Rightarrow> verr" where
  "validateUpstreamPath p =
     (if p = [] then None
      else check (Sublist.prefix ''/'' p \<and> \<not> contains_any p ''?#'' \<and> \<not> contains_any p [CHR 0x5C, CHR '';''] \<and>
                  list_all (\<lambda>seg. seg \<noteq> ''.'' \<and> seg \<noteq> ''..'') (split_on (CHR ''/'') p)) ''path'')"

text \<open>\<open>upstreamHostHeaderRe\<close>: labels joined by dots, then an optional port of one to five digits.\<close>

definition host_header_shape :: "string \<Rightarrow> bool" where
  "host_header_shape h \<longleftrightarrow>
     (let host = before (CHR '':'') h; port = after (CHR '':'') h in
      list_all (label_like alnum (\<lambda>c. alnum c \<or> c = CHR ''-'') 63) (split_on (CHR ''.'') host) \<and>
      (CHR '':'' \<in> set h \<longrightarrow> port \<noteq> [] \<and> length port \<le> 5 \<and> list_all is_digit port))"

definition validateUpstreamHostHeader :: "string \<Rightarrow> verr" where
  "validateUpstreamHostHeader h =
     (if h = [] \<or> h = ''upstream'' then None else check (length h \<le> 253 \<and> host_header_shape h) ''hostHeader'')"

definition validate_upstream :: "upstream \<Rightarrow> verr" where
  "validate_upstream u = under ''upstream.'' (first_err
     [check (u_Scheme u = ''http'' \<or> u_Scheme u = ''https'') ''scheme'',
      check (u_Host u \<noteq> []) ''host'',
      check (1 \<le> u_Port u \<and> u_Port u \<le> 65535) ''port'',
      validateUpstreamPath (u_Path u),
      validateUpstreamHostHeader (u_HostHeader u)])"

section \<open>TLS settings\<close>

record hsts =
  hsts_Enabled :: bool
  hsts_MaxAge :: int
  hsts_IncludeSubdomains :: bool
  hsts_Preload :: bool

record client_cert_headers =
  SubjectHeader :: string
  cch_SAN :: bool
  cch_Serial :: bool
  cch_Fingerprint :: bool

record client_auth =
  CARef :: string
  ca_Mode :: string
  IdentityHeaders :: "client_cert_headers option"

record tls_settings =
  CertificateRef :: string
  ForceSSL :: bool
  tls_HTTP2 :: bool
  tls_HSTS :: hsts
  MinTLSVersion :: string
  ClientAuth :: "client_auth option"

definition validHeaderName :: "string \<Rightarrow> bool" where
  "validHeaderName s \<longleftrightarrow> s \<noteq> [] \<and>
     list_all (\<lambda>c. byte_of c \<le> 126 \<and> 32 < byte_of c \<and> c \<notin> set (CHR 0x22 # ''(),/:;<=>?@['' @ [CHR 0x5C] @ '']{}'')) s"

definition validate_client_auth :: "bool \<Rightarrow> client_auth \<Rightarrow> verr" where
  "validate_client_auth force a = first_err
     [check force ''tls.clientAuth'',
      check (CARef a \<noteq> []) ''tls.clientAuth.caRef'',
      check (ca_Mode a \<in> {[], ''require'', ''optional''}) ''tls.clientAuth.mode'',
      (case IdentityHeaders a of
         Some ih \<Rightarrow>
           if SubjectHeader ih = [] then None
           else check (validHeaderName (SubjectHeader ih) \<and> \<not> Sublist.prefix ''x-forwarded-'' (ToLower (SubjectHeader ih)))
                  ''tls.clientAuth.identityHeaders.subjectHeader''
       | None \<Rightarrow> None)]"

definition validate_tls :: "tls_settings \<Rightarrow> verr" where
  "validate_tls t = first_err
     [check (MinTLSVersion t \<in> {[], ''1.2'', ''1.3''}) ''tls.minTLSVersion'',
      (case ClientAuth t of None \<Rightarrow> None | Some a \<Rightarrow> validate_client_auth (ForceSSL t) a)]"

section \<open>Auth and rate-limit specifications\<close>

record auth_middleware =
  am_IdentityProvider :: string
  am_Mode :: string
  RequiredRoles :: "string list"
  am_AllowFrom :: "string list"
  ClientCertRoles :: "(string \<times> string) list"
  am_Basic :: "basic_auth_spec option"

definition validCIDROrIP :: "string \<Rightarrow> bool" where
  "validCIDROrIP s \<longleftrightarrow> ParseCIDR s \<noteq> None \<or> ParseIP s \<noteq> None"

definition validate_auth_mode :: "auth_middleware \<Rightarrow> verr" where
  "validate_auth_mode a =
     (let mode = am_Mode a in
      if mode = ''oidc'' \<or> mode = ''forward-auth'' then check (am_AllowFrom a = []) ''auth.allowFrom''
      else if mode = [] then None
      else if mode = ''basic'' then first_err
        [check (am_IdentityProvider a = []) ''auth.identityProvider'',
         check (RequiredRoles a = []) ''auth.requiredRoles'',
         (case am_Basic a of None \<Rightarrow> Some ''auth.basic''
          | Some b \<Rightarrow> check (validate_basic b = None) ''auth.basic'')]
      else if mode = ''client-cert'' then first_err
        [check (am_IdentityProvider a = []) ''auth.identityProvider'',
         check (RequiredRoles a = [] \<or> ClientCertRoles a \<noteq> []) ''auth.requiredRoles'']
      else if mode = ''auth-request'' then check (RequiredRoles a = []) ''auth.requiredRoles''
      else Some ''auth.mode'')"

definition validate_auth :: "auth_middleware \<Rightarrow> verr" where
  "validate_auth a = first_err
     [check (am_Mode a = ''client-cert'' \<or> am_Mode a = ''basic'' \<or> am_IdentityProvider a \<noteq> []) ''auth.identityProvider'',
      validate_auth_mode a,
      check (ClientCertRoles a = [] \<or> am_Mode a = ''client-cert'') ''auth.clientCertRoles'',
      check (am_Basic a = None \<or> am_Mode a = ''basic'') ''auth.basic'',
      check (list_all validCIDROrIP (am_AllowFrom a)) ''auth.allowFrom'']"

record rate_limit =
  RequestsPerSecond :: rat
  Requests :: rat
  Window :: string
  Burst :: int
  rl_AllowFrom :: "string list"
  BlockFor :: string
  BlockBackoff :: rat
  BlockMax :: string

definition AccessListRef :: "string \<Rightarrow> string option" where
  "AccessListRef entry = (if Sublist.prefix ''@'' entry then Some (tl entry) else None)"

definition AccessListRefs :: "rate_limit \<Rightarrow> string list" where
  "AccessListRefs r = List.map_filter AccessListRef (rl_AllowFrom r)"

definition usesWindow :: "rate_limit \<Rightarrow> bool" where
  "usesWindow r \<longleftrightarrow> Requests r > 0 \<or> Window r \<noteq> []"

text \<open>A positive duration, or the error of the field; the empty string is an unset field.\<close>

definition positive_duration :: "string \<Rightarrow> string \<Rightarrow> verr" where
  "positive_duration s field = (case ParseDuration s of None \<Rightarrow> Some field | Some d \<Rightarrow> check (d > 0) field)"

definition blockFor_ns :: "rate_limit \<Rightarrow> int" where
  "blockFor_ns r = (if BlockFor r = [] then 0 else case ParseDuration (BlockFor r) of None \<Rightarrow> 0 | Some d \<Rightarrow> d)"

definition validate_rate_limit :: "rate_limit \<Rightarrow> verr" where
  "validate_rate_limit r = first_err
     [check (\<not> (RequestsPerSecond r > 0 \<and> usesWindow r)) ''rateLimit'',
      check (RequestsPerSecond r > 0 \<or> usesWindow r) ''rateLimit.requestsPerSecond'',
      (if usesWindow r then first_err [check (Requests r > 0) ''rateLimit.requests'', positive_duration (Window r) ''rateLimit.window'']
       else None),
      check (list_all (\<lambda>c. case AccessListRef c of Some n \<Rightarrow> ValidateName n = None | None \<Rightarrow> validCIDROrIP c) (rl_AllowFrom r))
        ''rateLimit.allowFrom'',
      (if BlockFor r = [] then None else positive_duration (BlockFor r) ''rateLimit.blockFor''),
      (if BlockBackoff r = 0 then None else check (blockFor_ns r \<noteq> 0 \<and> BlockBackoff r > 1) ''rateLimit.blockBackoff''),
      (if BlockMax r = [] then None
       else if blockFor_ns r = 0 then Some ''rateLimit.blockMax''
       else case ParseDuration (BlockMax r) of None \<Rightarrow> Some ''rateLimit.blockMax''
            | Some d \<Rightarrow> check (blockFor_ns r \<le> d) ''rateLimit.blockMax'')]"

definition validateInline :: "('a \<Rightarrow> verr) \<Rightarrow> 'a option \<Rightarrow> verr" where
  "validateInline v x = (case x of None \<Rightarrow> None | Some a \<Rightarrow> v a)"

section \<open>Parts of a proxy host\<close>

record host_timeouts =
  ConnectSeconds :: int
  ReadSeconds :: int

definition validate_timeouts :: "host_timeouts option \<Rightarrow> verr" where
  "validate_timeouts t =
     (case t of None \<Rightarrow> None
      | Some t \<Rightarrow> first_err
          [check (0 \<le> ConnectSeconds t \<and> ConnectSeconds t \<le> 3600) ''timeouts.connectSeconds'',
           check (0 \<le> ReadSeconds t \<and> ReadSeconds t \<le> 3600) ''timeouts.readSeconds''])"

record location =
  loc_Path :: string
  loc_Upstream :: "upstream option"
  loc_UpstreamGroupRef :: string
  loc_Middlewares :: "string list"
  loc_AccessLists :: "string list"
  loc_StripPrefix :: bool
  loc_Auth :: "auth_middleware option"
  loc_RateLimit :: "rate_limit option"

definition validate_location :: "location \<Rightarrow> verr" where
  "validate_location l = first_err
     [check (loc_Path l \<noteq> []) ''locations'',
      (case loc_Upstream l of None \<Rightarrow> None
       | Some u \<Rightarrow> first_err [check (loc_UpstreamGroupRef l = []) ''locations'', under ''locations: '' (validate_upstream u)]),
      under ''locations: '' (validateInline validate_auth (loc_Auth l)),
      under ''locations: '' (validateInline validate_rate_limit (loc_RateLimit l))]"

definition validateLocations :: "location list \<Rightarrow> verr" where
  "validateLocations ls = first_err (map validate_location ls)"

text \<open>A copy of a location shares no slice or pointer with the original; its value is the same.\<close>

definition CloneLocations :: "location list \<Rightarrow> location list" where
  "CloneLocations ls = map (\<lambda>l. l\<lparr>loc_Upstream := map_option (\<lambda>u. u) (loc_Upstream l),
     loc_Auth := map_option (\<lambda>a. a) (loc_Auth l), loc_RateLimit := map_option (\<lambda>r. r) (loc_RateLimit l),
     loc_Middlewares := [] @ loc_Middlewares l, loc_AccessLists := [] @ loc_AccessLists l\<rparr>) ls"

record compression =
  comp_Enabled :: bool
  MinBytes :: int
  comp_Types :: "string list"

definition DefaultCompressionMinBytes :: int where "DefaultCompressionMinBytes = 1024"

definition EffectiveMinBytes :: "compression \<Rightarrow> int" where
  "EffectiveMinBytes c = (if MinBytes c > 0 then MinBytes c else DefaultCompressionMinBytes)"

definition validate_compression :: "compression \<Rightarrow> verr" where
  "validate_compression c =
     (if \<not> comp_Enabled c then None
      else first_err [check (MinBytes c \<ge> 0) ''compression.minBytes'',
             check (list_all (\<lambda>t. TrimSpace t \<noteq> []) (comp_Types c)) ''compression.types''])"

text \<open>Error pages: whether an inline template parses is decided by Go's \<open>html/template\<close>, an argument.\<close>

record error_pages =
  ep_Dir :: string
  ep_Inline :: "(string \<times> string) list"
  InterceptUpstream :: "int list"

definition has_dotdot :: "string \<Rightarrow> bool" where
  "has_dotdot s \<longleftrightarrow> Sublist.sublist ''..'' s"

definition validate_error_pages :: "(string \<Rightarrow> bool) \<Rightarrow> error_pages \<Rightarrow> verr" where
  "validate_error_pages parses e = first_err
     [check (ep_Dir e = [] \<or> \<not> (Sublist.prefix ''/'' (ep_Dir e) \<or> Sublist.prefix [CHR 0x5C] (ep_Dir e) \<or> has_dotdot (path_Clean (ep_Dir e))))
        ''errorPages.dir'',
      first_err (map (\<lambda>(k, src). first_err
        [(if k = ''default'' then None
          else case Atoi k of None \<Rightarrow> Some ''errorPages.inline'' | Some n \<Rightarrow> check (100 \<le> n \<and> n \<le> 599) ''errorPages.inline''),
         check (parses src) ''errorPages.inline'']) (ep_Inline e)),
      check (list_all (\<lambda>s. 400 \<le> s \<and> s \<le> 599) (InterceptUpstream e)) ''errorPages.interceptUpstream'']"

definition hopByHopHeaders :: "string set" where
  "hopByHopHeaders = {''connection'', ''keep-alive'', ''proxy-authenticate'', ''proxy-authorization'', ''te'', ''trailer'',
     ''transfer-encoding'', ''upgrade''}"

definition unstrippableHeaders :: "string set" where
  "unstrippableHeaders = {''content-encoding'', ''content-length'', ''content-type'', ''location'', ''vary'',
     ''sec-websocket-accept'', ''sec-websocket-protocol'', ''sec-websocket-extensions''}"

definition validHeaderValue :: "string \<Rightarrow> bool" where
  "validHeaderValue v \<longleftrightarrow> list_all (\<lambda>c. byte_of c = 9 \<or> \<not> (byte_of c < 32 \<or> byte_of c = 127)) v"

type_synonym security_headers = "(string \<times> string \<times> string) list"

fun security_headers_scan :: "string list \<Rightarrow> security_headers \<Rightarrow> verr" where
  "security_headers_scan seen [] = None"
| "security_headers_scan seen ((k, v, scope) # m) =
     (let lk = ToLower k in
      if \<not> validHeaderName k \<or> lk = ''strict-transport-security'' \<or> lk \<in> hopByHopHeaders \<or> lk \<in> set seen \<or>
         \<not> validHeaderValue v \<or> scope \<notin> {[], ''all'', ''generated-only'', ''proxied-only''}
      then Some ''securityHeaders'' else security_headers_scan (lk # seen) m)"

definition validateSecurityHeaders :: "security_headers \<Rightarrow> verr" where
  "validateSecurityHeaders m = security_headers_scan [] m"

fun strip_headers_scan :: "string list \<Rightarrow> string list \<Rightarrow> verr" where
  "strip_headers_scan seen [] = None"
| "strip_headers_scan seen (k # ks) =
     (let lk = ToLower k in
      if \<not> validHeaderName k \<or> lk \<in> hopByHopHeaders \<or> lk \<in> unstrippableHeaders \<or> lk \<in> set seen
      then Some ''stripResponseHeaders'' else strip_headers_scan (lk # seen) ks)"

definition validateStripResponseHeaders :: "string list \<Rightarrow> verr" where
  "validateStripResponseHeaders names = strip_headers_scan [] names"

definition StripResponseHeaderRefused :: "string \<Rightarrow> bool" where
  "StripResponseHeaderRefused name \<longleftrightarrow> ToLower name \<in> hopByHopHeaders \<union> unstrippableHeaders"

definition ValidateTrustedProxies :: "string list \<Rightarrow> verr" where
  "ValidateTrustedProxies es = first_err (map (\<lambda>c. check (TrimSpace c \<noteq> [] \<and> validCIDROrIP c) ''trustedProxies'') es)"

section \<open>Hosts\<close>

text \<open>What a proxy host holds beyond the fields the discovery planner reads: the parameter \<open>'r\<close> of the
  planner's record of a proxy host.\<close>

record dns_policy =
  LanDirect :: bool
  PublicCname :: bool

record host_shape =
  hs_DisplayName :: string
  hs_Tags :: "string list"
  hs_Upstream :: upstream
  hs_UpstreamGroupRef :: string
  hs_WebsocketsUpgrade :: bool
  hs_RobotsNoIndex :: bool
  hs_Timeouts :: "host_timeouts option"
  hs_TLS :: tls_settings
  hs_DNS :: "dns_policy option"
  hs_Middlewares :: "string list"
  hs_AccessLists :: "string list"
  hs_Locations :: "location list"
  hs_AdminEdge :: bool
  hs_Auth :: "auth_middleware option"
  hs_RateLimit :: "rate_limit option"
  hs_Compression :: compression
  hs_ErrorPages :: "error_pages option"
  hs_SecurityHeaders :: security_headers
  hs_StripResponseHeaders :: "string list"
  hs_TrustedProxies :: "string list option"

definition validate_shape :: "(string \<Rightarrow> bool) \<Rightarrow> host_shape \<Rightarrow> verr" where
  "validate_shape parses h = first_err
     [(if hs_UpstreamGroupRef h = [] then validate_upstream (hs_Upstream h) else check (hs_Upstream h = no_upstream) ''upstream''),
      validate_tls (hs_TLS h),
      validate_timeouts (hs_Timeouts h),
      validate_compression (hs_Compression h),
      validateInline (validate_error_pages parses) (hs_ErrorPages h),
      validateSecurityHeaders (hs_SecurityHeaders h),
      validateStripResponseHeaders (hs_StripResponseHeaders h),
      validateInline ValidateTrustedProxies (hs_TrustedProxies h),
      validateInline validate_auth (hs_Auth h),
      validateInline validate_rate_limit (hs_RateLimit h),
      validateLocations (hs_Locations h)]"

definition validate_proxy_host :: "(string \<Rightarrow> bool) \<Rightarrow> host_shape proxy_host \<Rightarrow> verr" where
  "validate_proxy_host parses h = first_err
     [ValidateName (ph_Name h), check (ph_Domains h \<noteq> []) ''domains'', validate_shape parses (ph_rest h)]"

record redirect_host =
  rh_Name :: string
  rh_Disabled :: bool
  rh_Domains :: "string list"
  TargetScheme :: string
  TargetDomain :: string
  rh_StatusCode :: int
  PreservePath :: bool
  rh_TLS :: tls_settings

definition validate_redirect_host :: "redirect_host \<Rightarrow> verr" where
  "validate_redirect_host h = first_err
     [ValidateName (rh_Name h), check (rh_Domains h \<noteq> []) ''domains'', check (TargetDomain h \<noteq> []) ''targetDomain'',
      check (rh_StatusCode h \<in> {0, 301, 302, 307, 308}) ''statusCode'']"

record parked_host =
  pk_Name :: string
  pk_Disabled :: bool
  pk_Domains :: "string list"
  pk_StatusCode :: int
  pk_TLS :: tls_settings

definition validate_parked_host :: "parked_host \<Rightarrow> verr" where
  "validate_parked_host h = first_err [ValidateName (pk_Name h), check (pk_Domains h \<noteq> []) ''domains'']"

subsection \<open>Stream hosts\<close>

record stream_tls =
  st_Mode :: string
  SNIMatch :: "string list"
  st_CertificateRef :: string

definition validSNIMatch :: "string \<Rightarrow> bool" where
  "validSNIMatch s0 =
     (let s = (if Sublist.prefix ''*.'' s0 then drop 2 s0 else s0) in
      s \<noteq> [] \<and> length s \<le> 253 \<and> list_all IsDNSLabel (split_on (CHR ''.'') s))"

definition sni_key :: "string \<Rightarrow> string" where
  "sni_key n = ToLower (TrimSpace n)"

fun sni_scan :: "string list \<Rightarrow> string list \<Rightarrow> verr" where
  "sni_scan seen [] = None"
| "sni_scan seen (n # ns) =
     (let name = sni_key n in
      if name = [] \<or> \<not> validSNIMatch name \<or> name \<in> set seen then Some ''tls.sniMatch'' else sni_scan (name # seen) ns)"

definition validate_stream_tls :: "stream_tls option \<Rightarrow> string \<Rightarrow> verr" where
  "validate_stream_tls t protocol =
     (case t of None \<Rightarrow> None
      | Some t \<Rightarrow> first_err
          [check (protocol = ''tcp'') ''tls'',
           (if st_Mode t = ''passthrough'' then check (st_CertificateRef t = []) ''tls.certificateRef''
            else if st_Mode t = ''terminate'' then check (st_CertificateRef t \<noteq> []) ''tls.certificateRef''
            else Some ''tls.mode''),
           sni_scan [] (SNIMatch t)])"

record stream_host =
  sh_SName :: string
  sh_Disabled :: bool
  ListenPort :: int
  Protocol :: string
  Target_Host :: string
  Target_Port :: int
  LegacyForwardHost :: string
  LegacyForwardPort :: int
  sh_TLS :: "stream_tls option"
  sh_AccessLists :: "string list"

definition validate_stream_host :: "stream_host \<Rightarrow> verr" where
  "validate_stream_host h = first_err
     [ValidateName (sh_SName h),
      check (Protocol h \<in> {''tcp'', ''udp'', ''both''}) ''protocol'',
      check (1 \<le> ListenPort h \<and> ListenPort h \<le> 65535) ''listenPort'',
      check (LegacyForwardHost h = [] \<and> LegacyForwardPort h = 0) ''target'',
      check (Target_Host h \<noteq> []) ''target.host'',
      check (1 \<le> Target_Port h \<and> Target_Port h \<le> 65535) ''target.port'',
      validate_stream_tls (sh_TLS h) (Protocol h)]"

definition SNINames :: "stream_host \<Rightarrow> string list" where
  "SNINames h = (case sh_TLS h of None \<Rightarrow> [] | Some t \<Rightarrow> map sni_key (SNIMatch t))"

lemmas [go_eval] = check_def under_def unit_ns_def dec_val_def in_number_def number_parts_def ParseDuration_def
  is_lower_def is_upper_def lower_alnum_def alnum_def label_like_def name_char_def ldh_def ValidateName_def IsDNSLabel_def
  NormalizeHostname_def IsHostname_def no_upstream_def validateUpstreamPath_def host_header_shape_def
  validateUpstreamHostHeader_def validate_upstream_def validHeaderName_def validate_client_auth_def validate_tls_def
  validCIDROrIP_def validate_auth_mode_def validate_auth_def AccessListRef_def AccessListRefs_def usesWindow_def
  positive_duration_def blockFor_ns_def validate_rate_limit_def validateInline_def validate_timeouts_def
  validate_location_def validateLocations_def CloneLocations_def validate_compression_def validate_error_pages_def
  validHeaderValue_def validateSecurityHeaders_def validateStripResponseHeaders_def ValidateTrustedProxies_def
  validate_shape_def validate_proxy_host_def validate_redirect_host_def validate_parked_host_def validSNIMatch_def
  sni_key_def validate_stream_tls_def validate_stream_host_def SNINames_def

section \<open>Base paths that validation accepts\<close>

lemma no_double_slash:
  assumes "list_all plain_seg segs"
  shows "\<not> Sublist.sublist ''//'' (seg_path segs t)"
proof
  assume "Sublist.sublist ''//'' (seg_path segs t)"
  then obtain a b where ab: "seg_path segs t = a @ CHR ''/'' # CHR ''/'' # b" by (auto simp: Sublist.sublist_def)
  have "split_on (CHR ''/'') (seg_path segs t) = split_on (CHR ''/'') a @ [] # split_on (CHR ''/'') b"
    unfolding ab by (subst split_on_append_gen) simp
  then have "[] \<in> set (butlast (tl (split_on (CHR ''/'') (seg_path segs t))))"
    by (cases "split_on (CHR ''/'') a") (auto simp: butlast_append)
  moreover have "[] \<notin> set segs" using assms by (auto simp: list_all_iff plain_seg_def)
  ultimately show False
    unfolding split_seg_path [OF assms] by (auto simp: butlast_append split: if_splits dest: in_set_butlastD)
qed

lemma cleanPath_no_double_slash: "\<not> Sublist.sublist ''//'' (cleanPath p)"
  using cleanPath_form [of p] no_double_slash by metis

text \<open>Validation accepts an upstream base path with an empty segment in it, and such a base path
  swallows every request: whatever the client asks for, the upstream is sent the base path itself.
  The composed path is cleaned before it is compared with the base as written, so the comparison
  always fails.\<close>

theorem unclean_base_swallows_paths:
  assumes "validateUpstreamPath p = None" "base = TrimSuffix (TrimSuffix p ''/'') ''/''" "Sublist.sublist ''//'' base"
  shows "joinUpstreamBasePath p (cleanPath q) = base @ ''/''"
proof -
  have ne: "base \<noteq> []" "base \<noteq> ''/''" using assms(3) by (auto simp: Sublist.sublist_def Cons_eq_append_conv)
  then have "TrimSuffix p ''/'' \<noteq> []" using assms(2) by (auto simp: TrimSuffix_def)
  moreover have "cleanPath x \<noteq> base \<and> \<not> Sublist.prefix (base @ ''/'') (cleanPath x)" for x
    using cleanPath_no_double_slash [of x] assms(3)
    by (metis Sublist.sublist_order.order_trans Sublist.sublist_append_rightI prefix_imp_sublist)
  ultimately show ?thesis
    using ne by (simp add: joinUpstreamBasePath_def confineUpstreamPath_def Let_def flip: assms(2))
qed

theorem unclean_base_swallows_paths_witness:
  "validateUpstreamPath ''/api//v1'' = None \<and> joinUpstreamBasePath ''/api//v1'' (cleanPath ''/users/7'') = ''/api//v1/''"
proof -
  have v: "validateUpstreamPath ''/api//v1'' = None" by code_simp
  have t: "TrimSuffix (TrimSuffix ''/api//v1'' ''/'') ''/'' = ''/api//v1''" by code_simp
  have s: "Sublist.sublist ''//'' ''/api//v1''" by code_simp
  show ?thesis using unclean_base_swallows_paths [OF v t [symmetric] s, of "''/users/7''"] v by simp
qed

end
