(* ===== verification/Upstream_Order.thy ===== *)
theory Upstream_Order
  imports Go_Prelude
begin

text \<open>
  Upstream groups, first half (\<open>internal/dataplane/upstreamgroup.go\<close>, \<open>internal/model/upstreamgroup.go\<close>):
  the health of one upstream as a state machine fed by probes and live traffic, and the order in
  which a group offers its upstreams to a request under each policy.

  A group's upstreams are a list; an \<open>*upstreamHealth\<close> is its index in that list, so that aliasing
  between \<open>g.ups\<close>, the candidate lists and \<open>byLabel\<close> is kept. Counters are \<^typ>\<open>int\<close> as in the source;
  the largest products compared (in-flight requests times a weight of at most 256) are far below
  the range of \<open>int64\<close>. The FNV-1a hash is computed on \<open>64 word\<close>.
\<close>

section \<open>State\<close>

record upstream_health =
  up_scheme :: string
  up_addr :: string
  up_label :: string
  up_path :: string
  up_hostHeader :: string
  weight :: int
  healthy :: bool
  active :: int
  rrCur :: int
  consecOK :: int
  consecBad :: int
  rise :: int
  fall :: int

record health_check =
  hc_Path :: string
  IntervalSeconds :: int
  TimeoutSeconds :: int
  Rise :: int
  Fall :: int

definition EffectiveWeight :: "int \<Rightarrow> int" where
  "EffectiveWeight w = (if w > 0 then w else 1)"

definition Interval :: "health_check \<Rightarrow> int" where
  "Interval h = (if IntervalSeconds h > 0 then IntervalSeconds h else 5)"

definition Timeout :: "health_check \<Rightarrow> int" where
  "Timeout h = (if TimeoutSeconds h > 0 then TimeoutSeconds h else 3)"

definition RiseCount :: "health_check \<Rightarrow> int" where
  "RiseCount h = (if Rise h > 0 then Rise h else 2)"

definition FallCount :: "health_check \<Rightarrow> int" where
  "FallCount h = (if Fall h > 0 then Fall h else 2)"

datatype health_check_error = HcPath string | HcInterval int | HcTimeout int | HcRise int | HcFall int

definition validate_health :: "health_check \<Rightarrow> health_check_error option" where
  "validate_health h =
     (if hc_Path h \<noteq> [] \<and> \<not> Sublist.prefix ''/'' (hc_Path h) then Some (HcPath (hc_Path h))
      else if IntervalSeconds h < 0 \<or> IntervalSeconds h > 3600 then Some (HcInterval (IntervalSeconds h))
      else if TimeoutSeconds h < 0 \<or> TimeoutSeconds h > 60 then Some (HcTimeout (TimeoutSeconds h))
      else if Rise h < 0 \<or> Rise h > 10 then Some (HcRise (Rise h))
      else if Fall h < 0 \<or> Fall h > 10 then Some (HcFall (Fall h))
      else None)"

section \<open>The health of one upstream\<close>

text \<open>Each report answers whether it flipped the marker, which is when the log line is written and
  the notify hook is called with the new marker.\<close>

definition reportSuccess :: "upstream_health \<Rightarrow> upstream_health \<times> bool option" where
  "reportSuccess u0 =
     (let u = u0\<lparr>consecBad := 0\<rparr> in
      if healthy u then (u, None)
      else let u1 = u\<lparr>consecOK := consecOK u + 1\<rparr> in
           if consecOK u1 \<ge> rise u1 then (u1\<lparr>consecOK := 0, healthy := True\<rparr>, Some True)
           else (u1, None))"

definition reportFailure :: "upstream_health \<Rightarrow> upstream_health \<times> bool option" where
  "reportFailure u0 =
     (let u = u0\<lparr>consecOK := 0\<rparr> in
      if \<not> healthy u then (u, None)
      else let u1 = u\<lparr>consecBad := consecBad u + 1\<rparr> in
           if consecBad u1 \<ge> fall u1 then (u1\<lparr>consecBad := 0, healthy := False\<rparr>, Some False)
           else (u1, None))"

text \<open>One report, and a whole history of them, oldest first.\<close>

definition report :: "bool \<Rightarrow> upstream_health \<Rightarrow> upstream_health" where
  "report ok u = fst (if ok then reportSuccess u else reportFailure u)"

definition reports :: "bool list \<Rightarrow> upstream_health \<Rightarrow> upstream_health" where
  "reports obs u = fold report obs u"

inductive health_step :: "upstream_health \<Rightarrow> upstream_health \<Rightarrow> bool" where
  up: "reportSuccess u = (u', e) \<Longrightarrow> health_step u u'"
| down: "reportFailure u = (u', e) \<Longrightarrow> health_step u u'"

inductive_cases health_stepE: "health_step u u'"

definition health_inv :: "upstream_health \<Rightarrow> bool" where
  "health_inv u \<longleftrightarrow>
     rise u \<ge> 1 \<and> fall u \<ge> 1 \<and> weight u \<ge> 1 \<and>
     (if healthy u then consecOK u = 0 \<and> 0 \<le> consecBad u \<and> consecBad u < fall u
      else consecBad u = 0 \<and> 0 \<le> consecOK u \<and> consecOK u < rise u)"

lemmas [go_eval] = EffectiveWeight_def Interval_def Timeout_def RiseCount_def FallCount_def
  validate_health_def reportSuccess_def reportFailure_def report_def reports_def health_inv_def

lemma health_step_inv:
  assumes "health_step u u'" "health_inv u"
  shows "health_inv u'"
  using assms(1)
proof cases
  case (up e)
  with assms(2) show ?thesis
    by (auto simp: health_inv_def reportSuccess_def Let_def split: if_splits)
next
  case (down e)
  with assms(2) show ?thesis
    by (auto simp: health_inv_def reportFailure_def Let_def split: if_splits)
qed

lemma report_step: "health_step u (report ok u)"
  by (cases ok) (auto simp: report_def intro: health_step.intros [OF prod.collapse [symmetric]])

lemma report_inv: "health_inv u \<Longrightarrow> health_inv (report ok u)"
  using health_step_inv [OF report_step] .

lemma report_frame [simp]:
  "up_scheme (report ok u) = up_scheme u" "up_addr (report ok u) = up_addr u"
  "up_label (report ok u) = up_label u" "up_path (report ok u) = up_path u"
  "up_hostHeader (report ok u) = up_hostHeader u" "weight (report ok u) = weight u"
  "active (report ok u) = active u" "rrCur (report ok u) = rrCur u"
  "rise (report ok u) = rise u" "fall (report ok u) = fall u"
  by (simp_all add: report_def reportSuccess_def reportFailure_def Let_def)

lemma reports_Cons [simp]: "reports (b # bs) u = reports bs (report b u)"
  and reports_Nil [simp]: "reports [] u = u"
  by (simp_all add: reports_def)

lemma reports_frame [simp]: "rise (reports bs u) = rise u" "fall (reports bs u) = fall u"
  by (induction bs arbitrary: u) simp_all

lemma reports_inv: "health_inv u \<Longrightarrow> health_inv (reports bs u)"
  by (induction bs arbitrary: u) (auto intro: report_inv)

lemma down_stays_down: "\<not> healthy u \<Longrightarrow> \<not> healthy (reports (replicate n False) u)"
  by (induction n arbitrary: u) (auto simp: report_def reportFailure_def Let_def)

lemma up_stays_up: "healthy u \<Longrightarrow> healthy (reports (replicate n True) u)"
  by (induction n arbitrary: u) (auto simp: report_def reportSuccess_def Let_def)

lemma failures_healthy:
  "health_inv u \<Longrightarrow> healthy u \<Longrightarrow>
     (healthy (reports (replicate n False) u) \<longleftrightarrow> consecBad u + int n < fall u)"
proof (induction n arbitrary: u)
  case (Suc n)
  have inv: "health_inv (report False u)" using report_inv Suc.prems(1) .
  show ?case
  proof (cases "healthy (report False u)")
    case True
    then have "consecBad (report False u) = consecBad u + 1"
      using Suc.prems by (auto simp: report_def reportFailure_def Let_def split: if_splits)
    with Suc.IH [OF inv True] show ?thesis by (simp add: algebra_simps)
  next
    case False
    then have "\<not> healthy (reports (replicate n False) (report False u))" by (rule down_stays_down)
    moreover have "fall u \<le> consecBad u + 1"
      using False Suc.prems by (auto simp: report_def reportFailure_def Let_def split: if_splits)
    ultimately show ?thesis by simp
  qed
qed (auto simp: health_inv_def)

lemma successes_healthy:
  "health_inv u \<Longrightarrow> \<not> healthy u \<Longrightarrow>
     (healthy (reports (replicate n True) u) \<longleftrightarrow> rise u \<le> consecOK u + int n)"
proof (induction n arbitrary: u)
  case (Suc n)
  have inv: "health_inv (report True u)" using report_inv Suc.prems(1) .
  show ?case
  proof (cases "healthy (report True u)")
    case False
    then have "consecOK (report True u) = consecOK u + 1"
      using Suc.prems by (auto simp: report_def reportSuccess_def Let_def split: if_splits)
    with Suc.IH [OF inv False] show ?thesis by (simp add: algebra_simps)
  next
    case True
    then have "healthy (reports (replicate n True) (report True u))" by (rule up_stays_up)
    moreover have "rise u \<le> consecOK u + 1"
      using True Suc.prems by (auto simp: report_def reportSuccess_def Let_def split: if_splits)
    ultimately show ?thesis by simp
  qed
qed (auto simp: health_inv_def)

lemma reports_append: "reports (xs @ ys) u = reports ys (reports xs u)"
  by (simp add: reports_def)

text \<open>How many of the latest reports were \<open>b\<close>, without a break.\<close>

definition trailing :: "bool \<Rightarrow> bool list \<Rightarrow> int" where
  "trailing b obs = int (length (takeWhile (\<lambda>x. x = b) (rev obs)))"

lemma trailing_snoc: "trailing b (obs @ [x]) = (if x = b then trailing b obs + 1 else 0)"
  by (simp add: trailing_def)

lemma counters_trailing:
  assumes "consecOK u = 0" "consecBad u = 0"
  shows "consecBad (reports obs u) \<le> trailing False obs \<and> consecOK (reports obs u) \<le> trailing True obs"
proof (induction obs rule: rev_induct)
  case Nil
  then show ?case using assms by (simp add: trailing_def)
next
  case (snoc b obs)
  have "0 \<le> trailing b obs" by (simp add: trailing_def)
  with snoc show ?case
    by (cases b) (auto simp: reports_append report_def reportSuccess_def reportFailure_def Let_def trailing_snoc)
qed

section \<open>Orders\<close>

text \<open>\<open>promote\<close> and the end of \<open>orderRoundRobin\<close> both move one candidate to the front and keep the
  order of the rest; the candidates are distinct upstreams.\<close>

definition promote :: "nat list \<Rightarrow> nat \<Rightarrow> nat list" where
  "promote cands u = (if u \<in> set cands then u # remove1 u cands else cands)"

text \<open>The scan of \<open>orderRoundRobin\<close>: every weight is added to its upstream's running score, the
  total is summed up, and the first upstream with the highest score so far is remembered.\<close>

fun rr_scan :: "nat list \<Rightarrow> int \<Rightarrow> nat \<Rightarrow> upstream_health list \<Rightarrow> int \<times> nat \<times> upstream_health list" where
  "rr_scan [] tot best ups = (tot, best, ups)"
| "rr_scan (i # hs) tot best ups =
     (let ups' = ups[i := (ups ! i)\<lparr>rrCur := rrCur (ups ! i) + weight (ups ! i)\<rparr>];
          best' = (if rrCur (ups' ! i) > rrCur (ups' ! best) then i else best)
      in rr_scan hs (tot + weight (ups ! i)) best' ups')"

definition orderRoundRobin :: "nat list \<Rightarrow> upstream_health list \<Rightarrow> nat list \<times> upstream_health list" where
  "orderRoundRobin hs ups =
     (if length hs < 2 then (hs, ups)
      else case rr_scan hs 0 (hd hs) ups of
        (tot, best, ups1) \<Rightarrow>
          (promote hs best, ups1[best := (ups1 ! best)\<lparr>rrCur := rrCur (ups1 ! best) - tot\<rparr>]))"

definition orderLeastConnections :: "upstream_health list \<Rightarrow> nat list \<Rightarrow> nat list" where
  "orderLeastConnections ups hs =
     sort_stable (\<lambda>i j. active (ups ! i) * weight (ups ! j) < active (ups ! j) * weight (ups ! i)) hs"

definition fnv64a :: "nat list \<Rightarrow> 64 word" where
  "fnv64a bs = foldl (\<lambda>h b. (h XOR word_of_nat b) * 1099511628211) 14695981039346656037 bs"

definition ip_hash_score :: "string \<Rightarrow> string \<Rightarrow> 64 word" where
  "ip_hash_score clientKey label = fnv64a (map byte_of clientKey @ [0] @ map byte_of label)"

definition orderIPHash :: "upstream_health list \<Rightarrow> string \<Rightarrow> nat list \<Rightarrow> nat list" where
  "orderIPHash ups clientKey hs =
     sort_stable (\<lambda>i j. ip_hash_score clientKey (up_label (ups ! i)) > ip_hash_score clientKey (up_label (ups ! j))) hs"

definition candidates :: "string \<Rightarrow> string \<Rightarrow> upstream_health list \<Rightarrow> nat list \<times> upstream_health list" where
  "candidates policy clientKey ups =
     (let up = filter (\<lambda>i. healthy (ups ! i)) [0..<length ups];
          down = filter (\<lambda>i. \<not> healthy (ups ! i)) [0..<length ups];
          (order, ups') =
            (if policy = ''round-robin'' then orderRoundRobin up ups
             else if policy = ''least-connections'' then (orderLeastConnections ups up, ups)
             else if policy = ''ip-hash'' then (orderIPHash ups clientKey up, ups)
             else (up, ups))
      in (order @ down, ups'))"

lemmas [go_eval] = promote_def orderRoundRobin_def orderLeastConnections_def fnv64a_def
  ip_hash_score_def orderIPHash_def candidates_def

lemma mset_promote [simp]: "mset (promote cands u) = mset cands"
  by (simp add: promote_def)

lemma set_promote [simp]: "set (promote cands u) = set cands"
  by (metis mset_promote set_mset_mset)

lemma distinct_promote [simp]: "distinct (promote cands u) = distinct cands"
  by (metis mset_eq_imp_distinct_iff mset_promote)

lemma length_promote [simp]: "length (promote cands u) = length cands"
  by (metis mset_promote size_mset)

subsection \<open>Smooth weighted round robin\<close>

definition add_weight :: "upstream_health \<Rightarrow> upstream_health" where
  "add_weight u = u\<lparr>rrCur := rrCur u + weight u\<rparr>"

lemma rr_scan_spec:
  assumes "distinct hs" "set hs \<subseteq> {..<length ups}" "rr_scan hs tot best ups = (t, b, ups')"
    and "best \<notin> set hs \<or> hs \<noteq> [] \<and> best = hd hs"
  shows "t = tot + (\<Sum>i\<leftarrow>hs. weight (ups ! i)) \<and> length ups' = length ups \<and>
    (\<forall>i. ups' ! i = (if i \<in> set hs then add_weight (ups ! i) else ups ! i)) \<and>
    b \<in> insert best (set hs) \<and> (\<forall>j \<in> insert best (set hs). rrCur (ups' ! j) \<le> rrCur (ups' ! b))"
  using assms
proof (induction hs arbitrary: tot best ups)
  case (Cons i hs)
  let ?ups = "ups[i := add_weight (ups ! i)]"
  let ?best = "if rrCur (?ups ! i) > rrCur (?ups ! best) then i else best"
  have r: "rr_scan hs (tot + weight (ups ! i)) ?best ?ups = (t, b, ups')"
    using Cons.prems(3) by (simp add: Let_def add_weight_def)
  have i: "i < length ups" "i \<notin> set hs" "distinct hs" "best \<notin> set hs" using Cons.prems(1,2,4) by auto
  have sub: "set hs \<subseteq> {..<length ?ups}" "?best \<notin> set hs" using Cons.prems(2) i by auto
  have w: "(\<Sum>j\<leftarrow>hs. weight (?ups ! j)) = (\<Sum>j\<leftarrow>hs. weight (ups ! j))"
    using i(2) by (intro arg_cong [where f = sum_list] map_cong) (auto simp: nth_update)
  note IH = Cons.IH [OF i(3) sub(1) r disjI1 [OF sub(2)]]
  have nth: "\<forall>j. ups' ! j = (if j \<in> set (i # hs) then add_weight (ups ! j) else ups ! j)"
    using IH i by (auto simp: nth_update)
  have "rrCur (ups' ! i) \<le> rrCur (ups' ! ?best) \<and> rrCur (ups' ! best) \<le> rrCur (ups' ! ?best)"
    using IH i by (auto simp: nth_update)
  moreover have "rrCur (ups' ! ?best) \<le> rrCur (ups' ! b)" using IH by blast
  ultimately have "rrCur (ups' ! i) \<le> rrCur (ups' ! b)" "rrCur (ups' ! best) \<le> rrCur (ups' ! b)"
    by linarith+
  with IH nth w show ?case by (auto split: if_splits)
qed auto

text \<open>What one pick does to the running scores: each healthy upstream gains its weight, and the
  picked one, which has the highest score, pays the total.\<close>

definition rr_total :: "upstream_health list \<Rightarrow> nat list \<Rightarrow> int" where
  "rr_total ups hs = (\<Sum>i\<leftarrow>hs. weight (ups ! i))"

lemma orderRoundRobin_spec:
  assumes "distinct hs" "set hs \<subseteq> {..<length ups}" "2 \<le> length hs" "orderRoundRobin hs ups = (order, ups')"
  obtains b where "b \<in> set hs" "order = b # remove1 b hs" "length ups' = length ups"
    "\<forall>j \<in> set hs. rrCur (ups ! j) + weight (ups ! j) \<le> rrCur (ups ! b) + weight (ups ! b)"
    "\<forall>i. ups' ! i = (if i \<in> set hs then (ups ! i)\<lparr>rrCur := rrCur (ups ! i) + weight (ups ! i) -
        (if i = b then rr_total ups hs else 0)\<rparr> else ups ! i)"
proof -
  obtain t b ups1 where sc: "rr_scan hs 0 (hd hs) ups = (t, b, ups1)" by (metis prod_cases3)
  have ne: "hs \<noteq> []" "\<not> length hs < 2" using assms(3) by auto
  note spec = rr_scan_spec [OF assms(1,2) sc disjI2]
  have b: "b \<in> set hs" using spec ne by (metis hd_in_set insert_absorb)
  have bl: "b < length ups1" using b assms(2) spec ne by auto
  have o: "order = b # remove1 b hs" "ups' = ups1[b := (ups1 ! b)\<lparr>rrCur := rrCur (ups1 ! b) - t\<rparr>]"
    using assms(4) sc ne b by (auto simp: orderRoundRobin_def promote_def)
  show ?thesis
  proof (rule that [OF b o(1)])
    show "length ups' = length ups" using o spec ne by simp
    show "\<forall>j \<in> set hs. rrCur (ups ! j) + weight (ups ! j) \<le> rrCur (ups ! b) + weight (ups ! b)"
      using spec ne b by (auto simp: add_weight_def)
    show "\<forall>i. ups' ! i = (if i \<in> set hs then (ups ! i)\<lparr>rrCur := rrCur (ups ! i) + weight (ups ! i) -
        (if i = b then rr_total ups hs else 0)\<rparr> else ups ! i)"
      using spec ne b bl o(2) by (auto simp: add_weight_def rr_total_def nth_update)
  qed
qed

text \<open>Serving requests by one policy: the upstream each request is sent to first.\<close>

definition first_pick :: "string \<Rightarrow> string \<Rightarrow> upstream_health list \<Rightarrow> nat \<times> upstream_health list" where
  "first_pick policy clientKey ups = (let (cands, ups') = candidates policy clientKey ups in (hd cands, ups'))"

definition rr_score :: "upstream_health list \<Rightarrow> nat \<Rightarrow> nat list \<Rightarrow> int" where
  "rr_score ups i picks =
     int (length picks) * weight (ups ! i) - int (count_list picks i) * rr_total ups [0..<length ups]"

text \<open>The state after some picks from a fresh group: every running score is what the picks so far
  have earned and cost, and none has fallen to minus the total.\<close>

definition rr_state :: "upstream_health list \<Rightarrow> nat list \<Rightarrow> upstream_health list \<Rightarrow> bool" where
  "rr_state ups picks ups' \<longleftrightarrow>
     length ups' = length ups \<and> set picks \<subseteq> {..<length ups} \<and>
     (\<forall>i < length ups. ups' ! i = (ups ! i)\<lparr>rrCur := rr_score ups i picks\<rparr> \<and>
        - rr_total ups [0..<length ups] < rr_score ups i picks)"

definition all_up :: "upstream_health list \<Rightarrow> bool" where
  "all_up ups \<longleftrightarrow> 2 \<le> length ups \<and> list_all (\<lambda>u. healthy u \<and> weight u \<ge> 1) ups"

lemma rr_total_sum: "rr_total ups [0..<length ups] = (\<Sum>i<length ups. weight (ups ! i))"
  by (simp add: rr_total_def interv_sum_list_conv_sum_set_nat atLeast0LessThan)

lemma rr_score_sum:
  assumes "set picks \<subseteq> {..<length ups}"
  shows "(\<Sum>i<length ups. rr_score ups i picks) = 0"
proof -
  let ?W = "rr_total ups [0..<length ups]"
  have "(\<Sum>i<length ups. rr_score ups i picks) =
      int (length picks) * ?W - int (\<Sum>i<length ups. count_list picks i) * ?W"
    unfolding rr_score_def sum_subtractf
    by (simp only: sum_distrib_left [symmetric] sum_distrib_right [symmetric] rr_total_sum of_nat_sum)
  then show ?thesis using length_sum_count [OF assms] by simp
qed

lemma rr_pick:
  assumes up: "all_up ups" and st: "rr_state ups picks ups'"
  obtains b ups'' where "first_pick ''round-robin'' key ups' = (b, ups'')" "rr_state ups (picks @ [b]) ups''"
proof -
  let ?n = "length ups" let ?hs = "[0..<length ups]" let ?W = "rr_total ups ?hs"
  have len: "length ups' = ?n" "2 \<le> length ?hs" using st up by (auto simp: rr_state_def all_up_def)
  have nth: "ups' ! i = (ups ! i)\<lparr>rrCur := rr_score ups i picks\<rparr>" if "i < ?n" for i
    using st that by (simp add: rr_state_def)
  have hs: "filter (\<lambda>i. healthy (ups' ! i)) [0..<length ups'] = ?hs"
    using up nth len by (auto simp: all_up_def list_all_length intro!: filter_True)
  have W: "rr_total ups' ?hs = ?W"
    unfolding rr_total_def by (intro arg_cong [where f = sum_list] map_cong) (auto simp: nth)
  have sub: "distinct ?hs" "set ?hs \<subseteq> {..<length ups'}" using len(1) by auto
  obtain order ups'' where o: "orderRoundRobin ?hs ups' = (order, ups'')" by fastforce
  obtain b where b: "b \<in> set ?hs" "order = b # remove1 b ?hs" "length ups'' = length ups'"
      "\<forall>j \<in> set ?hs. rrCur (ups' ! j) + weight (ups' ! j) \<le> rrCur (ups' ! b) + weight (ups' ! b)"
      "\<forall>i. ups'' ! i = (if i \<in> set ?hs then (ups' ! i)\<lparr>rrCur := rrCur (ups' ! i) + weight (ups' ! i) -
        (if i = b then rr_total ups' ?hs else 0)\<rparr> else ups' ! i)"
    using orderRoundRobin_spec [OF _ _ len(2) o] sub by blast
  have pick: "first_pick ''round-robin'' key ups' = (b, ups'')"
    by (simp add: first_pick_def candidates_def hs o b(2) split: prod.split)
  have top: "rr_score ups j picks + weight (ups ! j) \<le> rr_score ups b picks + weight (ups ! b)" if "j < ?n" for j
    using b(1,4) that nth by auto
  have pos: "0 < rr_score ups b picks + weight (ups ! b)"
  proof (rule ccontr)
    assume "\<not> ?thesis"
    then have "(\<Sum>j<?n. rr_score ups j picks + weight (ups ! j)) \<le> 0"
      using top by (intro sum_nonpos) force
    moreover have "(\<Sum>j<?n. rr_score ups j picks + weight (ups ! j)) = ?W"
      using st rr_score_sum [of picks ups] by (simp add: sum.distrib rr_total_sum rr_state_def)
    moreover have "0 < ?W"
      using up by (force simp: rr_total_sum all_up_def list_all_length lessThan_empty_iff intro!: sum_pos)
    ultimately show False by simp
  qed
  have score: "rr_score ups i (picks @ [b]) = rr_score ups i picks + weight (ups ! i) - (if i = b then ?W else 0)" for i
    by (simp add: rr_score_def algebra_simps)
  have "rr_state ups (picks @ [b]) ups''"
    using b(1,3,5) st len nth pos up unfolding rr_state_def
    by (auto simp: score W all_up_def list_all_length) (smt (verit) )+
  with pick show ?thesis by (rule that)
qed

lemma rr_run:
  assumes "all_up ups" "list_all (\<lambda>u. rrCur u = 0) ups"
  shows "rr_state ups (fst (run_all (first_pick ''round-robin'') keys ups)) (snd (run_all (first_pick ''round-robin'') keys ups))"
proof (induction keys rule: rev_induct)
  case Nil
  have "0 < rr_total ups [0..<length ups]"
    using assms(1) by (force simp: rr_total_sum all_up_def list_all_length lessThan_empty_iff intro!: sum_pos)
  then show ?case
    using assms by (auto simp: rr_state_def rr_score_def list_all_length)
next
  case (snoc key keys)
  obtain b ups' where p: "first_pick ''round-robin'' key (snd (run_all (first_pick ''round-robin'') keys ups)) = (b, ups')"
      "rr_state ups (fst (run_all (first_pick ''round-robin'') keys ups) @ [b]) ups'"
    using rr_pick [OF assms(1) snoc] by blast
  from p(2) show ?case by (simp only: run_all_snoc p(1) fst_conv snd_conv)
qed

subsection \<open>Least connections\<close>

lemma least_connections_weak:
  assumes "\<forall>i \<in> A. 0 < weight (ups ! i)"
  shows "strict_weak (\<lambda>i j. active (ups ! i) * weight (ups ! j) < active (ups ! j) * weight (ups ! i)) A"
proof -
  have trans: "active (ups ! x) * weight (ups ! z) \<le> active (ups ! z) * weight (ups ! x)"
    if A: "x \<in> A" "y \<in> A" "z \<in> A"
      and yx: "active (ups ! x) * weight (ups ! y) \<le> active (ups ! y) * weight (ups ! x)"
      and zy: "active (ups ! y) * weight (ups ! z) \<le> active (ups ! z) * weight (ups ! y)" for x y z
  proof -
    let ?a = "\<lambda>i. active (ups ! i)" let ?w = "\<lambda>i. weight (ups ! i)"
    have pos: "0 < ?w x" "0 < ?w y" "0 < ?w z" using assms A by auto
    have "(?a x * ?w y) * ?w z \<le> (?a y * ?w x) * ?w z" using yx pos by (intro mult_right_mono) auto
    also have "\<dots> = (?a y * ?w z) * ?w x" by (simp add: mult_ac)
    also have "\<dots> \<le> (?a z * ?w y) * ?w x" using zy pos by (intro mult_right_mono) auto
    finally have "?w y * (?a x * ?w z) \<le> ?w y * (?a z * ?w x)" by (simp add: mult_ac)
    then show ?thesis unfolding mult_le_cancel_left_pos [OF pos(2)] .
  qed
  show ?thesis unfolding strict_weak_def not_less
  proof (intro conjI ballI impI)
    fix x y assume "active (ups ! x) * weight (ups ! y) < active (ups ! y) * weight (ups ! x)"
    then show "active (ups ! x) * weight (ups ! y) \<le> active (ups ! y) * weight (ups ! x)" by (rule less_imp_le)
  qed (rule trans)
qed

subsection \<open>Rendezvous hashing\<close>

lemma insert_by_front: "\<forall>y \<in> set ys. \<not> lt y x \<Longrightarrow> insert_by lt x ys = x # ys"
  by (cases ys) auto

lemma filter_insert_by:
  assumes "strict_weak lt A" "insert x (set xs) \<subseteq> A" "sorted_wrt (\<lambda>a b. \<not> lt b a) xs"
  shows "filter P (insert_by lt x xs) = (if P x then insert_by lt x (filter P xs) else filter P xs)"
  using assms(2,3)
proof (induction xs)
  case (Cons y ys)
  show ?case
  proof (cases "lt y x")
    case True
    with Cons show ?thesis by auto
  next
    case False
    have "\<not> lt z x" if "z \<in> set ys" for z
      using strict_weakD(2) [OF assms(1), of x y z] False Cons.prems that by auto
    then have "insert_by lt x (filter P ys) = x # filter P ys" if "P x"
      by (intro insert_by_front) auto
    with False Cons show ?thesis by auto
  qed
qed simp

lemma filter_sort_stable:
  assumes "strict_weak lt (set xs)"
  shows "filter P (sort_stable lt xs) = sort_stable lt (filter P xs)"
proof -
  have "set ys \<subseteq> set xs \<Longrightarrow> sorted_wrt (\<lambda>a b. \<not> lt b a) (sort_stable lt ys) \<and>
        filter P (sort_stable lt ys) = sort_stable lt (filter P ys)" for ys
    by (induction ys) (auto simp: filter_insert_by [OF assms] intro!: sorted_insert_by [OF assms])
  then show ?thesis by blast
qed

section \<open>Properties\<close>

definition sample_up :: "string \<Rightarrow> int \<Rightarrow> upstream_health" where
  "sample_up label w =
     \<lparr>up_scheme = ''http'', up_addr = label, up_label = ''http://'' @ label, up_path = [], up_hostHeader = [],
      weight = w, healthy = True, active = 0, rrCur = 0, consecOK = 0, consecBad = 0, rise = 2, fall = 2\<rparr>"

text \<open>Health markers have hysteresis. From any state of the machine, whatever was reported before,
  \<open>fall\<close> failures in a row take the upstream down and \<open>rise\<close> successes in a row bring it back; and on a
  fresh upstream the marker only ever flips down at the end of at least \<open>fall\<close> consecutive failures,
  and up at the end of at least \<open>rise\<close> consecutive successes.\<close>

theorem health_hysteresis:
  assumes "health_inv u"
  shows "\<not> healthy (reports (obs @ replicate (nat (fall u)) False) u) \<and>
    healthy (reports (obs @ replicate (nat (rise u)) True) u) \<and>
    (consecOK u = 0 \<and> consecBad u = 0 \<longrightarrow>
       (healthy (reports obs u) \<and> \<not> healthy (reports (obs @ [b]) u) \<longrightarrow> fall u \<le> trailing False (obs @ [b])) \<and>
       (\<not> healthy (reports obs u) \<and> healthy (reports (obs @ [b]) u) \<longrightarrow> rise u \<le> trailing True (obs @ [b])))"
proof -
  let ?v = "reports obs u"
  have inv: "health_inv ?v" using reports_inv assms .
  then have pos: "rise u \<ge> 1" "fall u \<ge> 1" by (auto simp: health_inv_def)
  have "\<not> healthy (reports (obs @ replicate (nat (fall u)) False) u)"
    using failures_healthy [OF inv, of "nat (fall u)"] down_stays_down [of ?v] inv pos
    by (cases "healthy ?v") (auto simp: reports_append health_inv_def)
  moreover have "healthy (reports (obs @ replicate (nat (rise u)) True) u)"
    using successes_healthy [OF inv, of "nat (rise u)"] up_stays_up [of ?v] inv pos
    by (cases "healthy ?v") (auto simp: reports_append health_inv_def)
  moreover have "fall u \<le> trailing False (obs @ [b])"
    if "consecOK u = 0" "consecBad u = 0" "healthy ?v" "\<not> healthy (reports (obs @ [b]) u)"
    using counters_trailing [OF that(1,2), of obs] that reports_frame [of obs u]
    by (cases b) (auto simp: reports_append report_def reportSuccess_def reportFailure_def Let_def
        trailing_snoc split: if_splits)
  moreover have "rise u \<le> trailing True (obs @ [b])"
    if "consecOK u = 0" "consecBad u = 0" "\<not> healthy ?v" "healthy (reports (obs @ [b]) u)"
    using counters_trailing [OF that(1,2), of obs] that reports_frame [of obs u]
    by (cases b) (auto simp: reports_append report_def reportSuccess_def reportFailure_def Let_def
        trailing_snoc split: if_splits)
  ultimately show ?thesis by blast
qed

theorem health_hysteresis_witness:
  "\<not> healthy (reports ([False, True] @ replicate (nat (fall (sample_up ''a'' 1))) False) (sample_up ''a'' 1))"
  using health_hysteresis [of "sample_up ''a'' 1" "[False, True]"]
  by (simp add: health_inv_def sample_up_def del: append.simps)

lemma orders_permute:
  "mset (fst (orderRoundRobin hs ups)) = mset hs"
  "mset (orderLeastConnections ups hs) = mset hs"
  "mset (orderIPHash ups key hs) = mset hs"
  by (simp_all add: orderRoundRobin_def orderLeastConnections_def orderIPHash_def split: prod.split)

lemma candidates_order:
  obtains order where "fst (candidates policy key ups) = order @ filter (\<lambda>i. \<not> healthy (ups ! i)) [0..<length ups]"
    "mset order = mset (filter (\<lambda>i. healthy (ups ! i)) [0..<length ups])"
proof -
  let ?h = "filter (\<lambda>i. healthy (ups ! i)) [0..<length ups]"
  let ?o = "if policy = ''round-robin'' then orderRoundRobin ?h ups
     else if policy = ''least-connections'' then (orderLeastConnections ups ?h, ups)
     else if policy = ''ip-hash'' then (orderIPHash ups key ?h, ups) else (?h, ups)"
  have "fst (candidates policy key ups) = fst ?o @ filter (\<lambda>i. \<not> healthy (ups ! i)) [0..<length ups]"
    unfolding candidates_def Let_def by (cases ?o) simp
  moreover have "mset (fst ?o) = mset ?h" by (simp add: orders_permute del: mset_filter)
  ultimately show ?thesis by (rule that)
qed

lemma candidates_mset: "mset (fst (candidates policy key ups)) = mset [0..<length ups]"
proof -
  obtain order where o: "fst (candidates policy key ups) = order @ filter (\<lambda>i. \<not> healthy (ups ! i)) [0..<length ups]"
    "mset order = mset (filter (\<lambda>i. healthy (ups ! i)) [0..<length ups])"
    by (rule candidates_order)
  show ?thesis unfolding o(1) mset_append o(2) mset_filter by (rule multiset_partition [symmetric])
qed

text \<open>A group fails open and prefers the healthy. Under every policy the candidates of a request
  are all upstreams of the group, each exactly once, with every healthy one before every unhealthy
  one; and picking changes nothing of an upstream but its running score.\<close>

theorem candidates_complete:
  "mset (fst (candidates policy key ups)) = mset [0..<length ups] \<and>
   sorted_wrt (\<lambda>i j. if healthy (ups ! j) then healthy (ups ! i) else True) (fst (candidates policy key ups))"
proof -
  obtain order where o: "fst (candidates policy key ups) = order @ filter (\<lambda>i. \<not> healthy (ups ! i)) [0..<length ups]"
    "mset order = mset (filter (\<lambda>i. healthy (ups ! i)) [0..<length ups])"
    by (rule candidates_order)
  have h: "healthy (ups ! i)" if "i \<in> set order" for i
    using that o(2) by (metis (mono_tags, lifting) mem_Collect_eq set_filter set_mset_mset)
  have "sorted_wrt (\<lambda>i j. if healthy (ups ! j) then healthy (ups ! i) else True) (fst (candidates policy key ups))"
    unfolding o(1) sorted_wrt_append using h by (auto intro!: sorted_wrt_all)
  with candidates_mset show ?thesis by blast
qed

text \<open>C22: Weighted round robin is exact. While all upstreams stay healthy, any run of as many requests
  as the weights add up to, from a fresh group, sends to every upstream exactly as many of them as
  its weight says, and leaves every running score at zero again, so the next such run does the same.\<close>

theorem round_robin_exact:
  assumes "all_up ups" "list_all (\<lambda>u. rrCur u = 0) ups"
    and "int (length keys) = rr_total ups [0..<length ups]" and "i < length ups"
  shows "int (count_list (fst (run_all (first_pick ''round-robin'') keys ups)) i) = weight (ups ! i) \<and>
         snd (run_all (first_pick ''round-robin'') keys ups) = ups"
proof -
  let ?p = "fst (run_all (first_pick ''round-robin'') keys ups)" and ?W = "rr_total ups [0..<length ups]"
  let ?n = "length ups"
  have st: "rr_state ups ?p (snd (run_all (first_pick ''round-robin'') keys ups))" using rr_run [OF assms(1,2)] .
  have W: "0 < ?W"
    using assms(1) by (force simp: rr_total_sum all_up_def list_all_length lessThan_empty_iff intro!: sum_pos)
  have le: "int (count_list ?p j) \<le> weight (ups ! j)" if "j < ?n" for j
  proof -
    have "- ?W < ?W * weight (ups ! j) - int (count_list ?p j) * ?W"
      using st that assms(3) by (auto simp: rr_state_def rr_score_def)
    then have "?W * (int (count_list ?p j) - 1) < ?W * weight (ups ! j)" by (simp add: algebra_simps)
    then show ?thesis using W by (simp only: mult_less_cancel_left_pos)
  qed
  have "(\<Sum>j<?n. int (count_list ?p j)) = (\<Sum>j<?n. weight (ups ! j))"
    using length_sum_count [of ?p ?n] st assms(3) by (simp add: rr_state_def rr_total_sum of_nat_sum [symmetric] del: of_nat_sum)
  then have eq: "int (count_list ?p j) = weight (ups ! j)" if "j < ?n" for j
    using sum_mono_inv [of "\<lambda>j. int (count_list ?p j)" "{..<?n}" "\<lambda>j. weight (ups ! j)" j] le that by simp
  have "snd (run_all (first_pick ''round-robin'') keys ups) = ups"
    using st eq assms(2,3)
    by (intro nth_equalityI) (auto simp: rr_state_def rr_score_def list_all_length)
  with eq [OF assms(4)] show ?thesis by blast
qed

theorem round_robin_exact_witness:
  "int (count_list (fst (run_all (first_pick ''round-robin'') [''x'', ''y'', ''z'', ''x'']
     [sample_up ''a'' 3, sample_up ''b'' 1])) 0) = 3"
  using round_robin_exact [of "[sample_up ''a'' 3, sample_up ''b'' 1]" "[''x'', ''y'', ''z'', ''x'']" 0]
  by (simp add: all_up_def sample_up_def rr_total_def del: run_all.simps)

text \<open>The ip-hash policy moves only the clients of the upstream that died. When one healthy
  upstream goes down, every client whose first choice was another one keeps its first choice.\<close>

theorem ip_hash_minimal_disruption:
  assumes "d < length ups" "healthy (ups ! d)" "fst (first_pick ''ip-hash'' key ups) \<noteq> d"
  shows "fst (first_pick ''ip-hash'' key (ups[d := (ups ! d)\<lparr>healthy := False\<rparr>])) = fst (first_pick ''ip-hash'' key ups)"
proof -
  let ?ups = "ups[d := (ups ! d)\<lparr>healthy := False\<rparr>]"
  let ?h = "filter (\<lambda>i. healthy (ups ! i)) [0..<length ups]" and ?o = "orderIPHash ups key"
  have lab: "up_label (?ups ! i) = up_label (ups ! i)" for i by (simp add: nth_update)
  have h': "filter (\<lambda>i. healthy (?ups ! i)) [0..<length ?ups] = filter (\<lambda>i. i \<noteq> d) ?h"
    using assms(1) by (auto simp: nth_update intro!: filter_cong)
  have "orderIPHash ?ups key (filter (\<lambda>i. i \<noteq> d) ?h) = filter (\<lambda>i. i \<noteq> d) (?o ?h)"
    unfolding orderIPHash_def lab by (rule filter_sort_stable [symmetric]) (rule strict_weak_key)
  moreover have ne: "?o ?h \<noteq> []"
  proof -
    have "d \<in> set (?o ?h)" using assms(1,2) by (simp add: orderIPHash_def)
    then show ?thesis by auto
  qed
  moreover have "hd (?o ?h) \<noteq> d"
    using assms(3) ne by (simp add: first_pick_def candidates_def)
  ultimately show ?thesis
    using h' by (cases "?o ?h") (auto simp: first_pick_def candidates_def)
qed

definition two_ups :: "upstream_health list" where
  "two_ups = [sample_up ''a:80'' 1, sample_up ''b:80'' 1]"

lemma two_ups_pick: "fst (first_pick ''ip-hash'' ''10.0.0.2'' two_ups) = 0"
  by code_simp

theorem ip_hash_minimal_disruption_witness:
  "fst (first_pick ''ip-hash'' ''10.0.0.2'' (two_ups[1 := (two_ups ! 1)\<lparr>healthy := False\<rparr>])) = 0"
  using ip_hash_minimal_disruption [of 1 two_ups "''10.0.0.2''"]
  by (simp add: two_ups_pick) (simp add: two_ups_def sample_up_def)

text \<open>Least connections offers the least loaded first: in the candidate order no upstream has
  more requests in flight per unit of weight than a later one, compared without division.\<close>

theorem least_connections_order:
  assumes "list_all (\<lambda>i. 0 < weight (ups ! i)) hs"
  shows "sorted_wrt (\<lambda>i j. active (ups ! i) * weight (ups ! j) \<le> active (ups ! j) * weight (ups ! i))
           (orderLeastConnections ups hs) \<and> mset (orderLeastConnections ups hs) = mset hs"
  using sorted_sort_stable [OF least_connections_weak, of hs ups] assms orders_permute(2) [of ups hs]
  by (simp add: orderLeastConnections_def not_less list_all_iff)

theorem least_connections_order_witness:
  "mset (orderLeastConnections [sample_up ''a'' 3, sample_up ''b'' 1] [0, 1]) = mset [0, 1]"
  using least_connections_order [of "[sample_up ''a'' 3, sample_up ''b'' 1]" "[0, 1]"]
  by (simp add: sample_up_def)

end
