(* ===== verification/Object_Validate.thy ===== *)
theory Object_Validate
  imports Host_Model Upstream_Order
begin

text \<open>
  Validation of the configuration objects a host refers to: certificates and DNS providers
  (\<open>internal/model/cert.go\<close>), client CAs (\<open>clientca.go\<close>), identity providers (\<open>identity.go\<close>), upstream
  groups with their stickiness (\<open>upstreamgroup.go\<close>), access lists (\<open>access.go\<close>), middlewares
  (\<open>middleware.go\<close>) and API tokens with their scopes (\<open>apitoken.go\<close>).

  Errors are field paths, as in \<open>Host_Model\<close>. Three pieces of Go's library are arguments: \<open>url_parse\<close> (the
  scheme and the host of \<open>url.Parse\<close>, \<^const>\<open>None\<close> when it fails), \<open>re_ok\<close> (whether
  \<open>regexp.Compile\<close> accepts a pattern) and \<open>key_ok\<close> (whether an inline CA key matches its certificate).
\<close>

type_synonym url_parse = "string \<Rightarrow> (string \<times> string) option"

definition http_url :: "url_parse \<Rightarrow> string \<Rightarrow> bool" where
  "http_url url_parse s = (case url_parse s of Some (scheme, host) \<Rightarrow> (scheme = ''http'' \<or> scheme = ''https'') \<and> host \<noteq> [] | None \<Rightarrow> False)"

definition secret_IsEmpty :: "string \<Rightarrow> bool" where
  "secret_IsEmpty s \<longleftrightarrow> TrimSpace s = []"

text \<open>A path inside the managed certificate store.\<close>

definition store_path :: "string \<Rightarrow> bool" where
  "store_path f \<longleftrightarrow> \<not> (Sublist.prefix ''/'' f \<or> Sublist.prefix [CHR 0x5C] f \<or> has_dotdot (path_Clean f))"

definition confinedStorePath :: "string \<Rightarrow> string \<Rightarrow> verr" where
  "confinedStorePath field p = (if p = [] then None else check (store_path p) field)"

section \<open>Certificates and DNS providers\<close>

record acme_spec =
  acme_Email :: string
  acme_KeyType :: string
  acme_Challenge :: string
  acme_DNSProvider :: string
  acme_EAB :: "(string \<times> string) option"

record certificate =
  cert_Name :: string
  cert_Disabled :: bool
  cert_Type :: string
  cert_Domains :: "string list"
  cert_ACME :: "acme_spec option"
  cert_Custom :: "(string \<times> string) option"

definition EffectiveChallenge :: "acme_spec \<Rightarrow> string" where
  "EffectiveChallenge a =
     (if acme_Challenge a \<noteq> [] then acme_Challenge a else if acme_DNSProvider a \<noteq> [] then ''dns-01'' else ''http-01'')"

definition validate_acme :: "string list \<Rightarrow> acme_spec \<Rightarrow> verr" where
  "validate_acme domains a = first_err
     [check (acme_Email a \<noteq> []) ''acme.email'',
      check (acme_KeyType a \<in> {[], ''ecdsa''}) ''acme.keyType'',
      check (acme_Challenge a \<in> {[], ''dns-01'', ''http-01''}) ''acme.challenge'',
      (if EffectiveChallenge a = ''dns-01'' then check (acme_DNSProvider a \<noteq> []) ''acme.dnsProvider''
       else if EffectiveChallenge a = ''http-01'' then first_err
         [check (acme_DNSProvider a = []) ''acme.dnsProvider'',
          check (list_all (\<lambda>d. \<not> Sublist.prefix ''*.'' d) domains) ''domains'']
       else None),
      (case acme_EAB a of None \<Rightarrow> None
       | Some (kid, hmac) \<Rightarrow> first_err [check (TrimSpace kid \<noteq> []) ''acme.eab.kid'', check (\<not> secret_IsEmpty hmac) ''acme.eab.hmacKey''])]"

definition validate_certificate :: "certificate \<Rightarrow> verr" where
  "validate_certificate c = first_err
     [ValidateName (cert_Name c),
      check (cert_Domains c \<noteq> []) ''domains'',
      (if cert_Type c = ''acme'' then (case cert_ACME c of None \<Rightarrow> Some ''acme'' | Some a \<Rightarrow> validate_acme (cert_Domains c) a)
       else if cert_Type c = ''custom'' then
         (case cert_Custom c of None \<Rightarrow> Some ''custom''
          | Some (cf, kf) \<Rightarrow> check (cf \<noteq> [] \<and> kf \<noteq> [] \<and> store_path cf \<and> store_path kf) ''custom'')
       else Some ''type'')]"

record dns_provider =
  dp_Name :: string
  dp_Provider :: string
  dp_Config :: "(string \<times> string) list"

definition KnownDNSProviders :: "string list" where
  "KnownDNSProviders = [''cloudflare'', ''digitalocean'', ''hetzner'', ''desec'', ''rfc2136'', ''acme-dns'']"

definition TSIGAlgorithms :: "string list" where
  "TSIGAlgorithms = [''hmac-sha1'', ''hmac-sha224'', ''hmac-sha256'', ''hmac-sha384'', ''hmac-sha512'']"

definition requireConfig :: "dns_provider \<Rightarrow> string list \<Rightarrow> verr" where
  "requireConfig p keys = first_err (map (\<lambda>k. check (\<not> secret_IsEmpty (label_get (dp_Config p) k)) (''config.'' @ k)) keys)"

definition validateRFC2136 :: "dns_provider \<Rightarrow> verr" where
  "validateRFC2136 p =
     (let alg = ToLower (TrimSpace (label_get (dp_Config p) ''tsigAlgorithm''));
          tr = ToLower (TrimSpace (label_get (dp_Config p) ''transport''));
          ttl = TrimSpace (label_get (dp_Config p) ''ttl''); tmo = TrimSpace (label_get (dp_Config p) ''timeout'')
      in first_err
        [requireConfig p [''server'', ''zone'', ''tsigKeyName'', ''tsigSecret''],
         check (alg = [] \<or> alg \<in> set TSIGAlgorithms) ''config.tsigAlgorithm'',
         check (tr \<in> {[], ''tcp'', ''udp''}) ''config.transport'',
         (if ttl = [] then None else case Atoi ttl of None \<Rightarrow> Some ''config.ttl'' | Some n \<Rightarrow> check (1 \<le> n \<and> n \<le> 86400) ''config.ttl''),
         (if tmo = [] then None else positive_duration tmo ''config.timeout'')])"

definition IsTruthyConfig :: "string \<Rightarrow> bool" where
  "IsTruthyConfig v \<longleftrightarrow> ToLower (TrimSpace v) \<in> {''true'', ''yes'', ''1'', ''on''}"

text \<open>The base URL of an acme-dns server (\<open>ValidateOutboundBaseURL\<close>) is checked by the argument
  \<open>outbound_ok\<close>: it parses the URL and classifies the address.\<close>

definition validate_dns_provider :: "(string \<Rightarrow> bool \<Rightarrow> bool) \<Rightarrow> (string \<Rightarrow> bool) \<Rightarrow> dns_provider \<Rightarrow> verr" where
  "validate_dns_provider outbound_ok is_placeholder p = first_err
     [ValidateName (dp_Name p),
      check (dp_Provider p \<noteq> []) ''provider'',
      check (dp_Provider p \<in> set KnownDNSProviders) ''provider'',
      (if dp_Provider p = ''rfc2136'' then validateRFC2136 p
       else if dp_Provider p = ''acme-dns'' then first_err
         [requireConfig p [''baseURL'', ''username'', ''password'', ''subdomain''],
          (let base = label_get (dp_Config p) ''baseURL'' in
           if is_placeholder base then None
           else check (outbound_ok (TrimSpace base) (IsTruthyConfig (label_get (dp_Config p) ''allowInsecureLocal''))) ''config.baseURL'')]
       else check (\<not> secret_IsEmpty (label_get (dp_Config p) ''apiToken'')) ''config.apiToken'')]"

section \<open>Client CAs\<close>

record client_ca =
  cca_Name :: string
  cca_Disabled :: bool
  CAPEM :: string
  CRLFile :: string
  CRLPEM :: string
  CRLPolicy :: string
  CAKeyFile :: string
  CAKeyPEM :: string
  ExpiryWarningDays :: int

definition WarningDays :: "client_ca \<Rightarrow> int" where
  "WarningDays c = (if ExpiryWarningDays c \<le> 0 then 30 else ExpiryWarningDays c)"

definition validate_client_ca :: "(string \<Rightarrow> string \<Rightarrow> bool) \<Rightarrow> client_ca \<Rightarrow> verr" where
  "validate_client_ca key_ok c = first_err
     [ValidateName (cca_Name c),
      check (CAPEM c \<noteq> []) ''caPEM'',
      check (\<not> (CRLFile c \<noteq> [] \<and> CRLPEM c \<noteq> [])) ''crlFile'',
      confinedStorePath ''crlFile'' (CRLFile c),
      check (\<not> (CAKeyFile c \<noteq> [] \<and> \<not> secret_IsEmpty (CAKeyPEM c))) ''caKeyFile'',
      confinedStorePath ''caKeyFile'' (CAKeyFile c),
      check (secret_IsEmpty (CAKeyPEM c) \<or> key_ok (CAPEM c) (CAKeyPEM c)) ''caKeyPEM'',
      check (0 \<le> ExpiryWarningDays c \<and> ExpiryWarningDays c \<le> 3650) ''expiryWarningDays'',
      check (CRLPolicy c \<in> {[], ''fail-closed'', ''fail-open''}) ''crlPolicy'',
      check (CRLPolicy c = [] \<or> CRLFile c \<noteq> [] \<or> CRLPEM c \<noteq> []) ''crlPolicy'']"

section \<open>Identity providers\<close>

record role_mapping =
  GroupsClaim :: string
  AdminGroups :: "string list"
  UserGroups :: "string list"
  DefaultRole :: string
  AllowDefaultAdmin :: bool

record oidc_spec =
  IssuerURL :: string
  ClientID :: string
  ClientSecret :: string
  oidc_Scopes :: "string list"
  UsePKCE :: "bool option"
  RequireVerifiedEmail :: bool

record forward_auth_spec =
  fa_TrustedProxies :: "string list"
  UserHeader :: string
  EmailHeader :: string
  NameHeader :: string
  GroupsHeader :: string
  GroupsDelimiter :: string
  AMRHeader :: string

record auth_request_spec =
  OutpostURL :: string
  ar_PathPrefix :: string
  AuthPath :: string
  CopyHeaders :: "string list"

record identity_provider =
  idp_Name :: string
  idp_Type :: string
  idp_OIDC :: "oidc_spec option"
  idp_ForwardAuth :: "forward_auth_spec option"
  idp_AuthRequest :: "auth_request_spec option"
  idp_RoleMapping :: "role_mapping option"

definition validate_role_mapping :: "role_mapping \<Rightarrow> verr" where
  "validate_role_mapping rm =
     (if DefaultRole rm = [] \<or> DefaultRole rm = ''user'' then None
      else if DefaultRole rm = ''admin'' then check (AllowDefaultAdmin rm) ''roleMapping.defaultRole''
      else Some ''roleMapping.defaultRole'')"

definition validate_identity_provider :: "url_parse \<Rightarrow> identity_provider \<Rightarrow> verr" where
  "validate_identity_provider url_parse p = first_err
     [ValidateName (idp_Name p),
      (if idp_Type p = ''oidc'' then
         (case idp_OIDC p of None \<Rightarrow> Some ''oidc'' | Some o' \<Rightarrow> check (IssuerURL o' \<noteq> [] \<and> ClientID o' \<noteq> []) ''oidc'')
       else if idp_Type p = ''forward-auth'' then
         (case idp_ForwardAuth p of None \<Rightarrow> Some ''forwardAuth''
          | Some fa \<Rightarrow> first_err
              [check (fa_TrustedProxies fa \<noteq> []) ''forwardAuth.trustedProxies'', check (UserHeader fa \<noteq> []) ''forwardAuth.userHeader''])
       else if idp_Type p = ''auth-request'' then
         (case idp_AuthRequest p of None \<Rightarrow> Some ''authRequest''
          | Some ar \<Rightarrow> first_err
              [check (http_url url_parse (OutpostURL ar)) ''authRequest.outpostURL'',
               check (ar_PathPrefix ar = [] \<or> hd (ar_PathPrefix ar) = CHR ''/'') ''authRequest.pathPrefix''])
       else Some ''type''),
      validateInline validate_role_mapping (idp_RoleMapping p)]"

section \<open>Upstream groups\<close>

text \<open>Go's \<open>int64\<close> arithmetic wraps.\<close>

definition wrap64 :: "int \<Rightarrow> int" where
  "wrap64 x = (x + 2 ^ 63) mod 2 ^ 64 - 2 ^ 63"

record stickiness =
  st_Cookie :: string
  st_TTL :: string

record group_upstream =
  gu_Upstream :: upstream
  gu_Weight :: int

record upstream_group =
  ug_Name :: string
  ug_Disabled :: bool
  ug_Upstreams :: "group_upstream list"
  ug_Policy :: string
  ug_Stickiness :: "stickiness option"
  ug_HealthCheck :: health_check

definition CookieName :: "upstream_group \<Rightarrow> string" where
  "CookieName g =
     (case ug_Stickiness g of
        Some s \<Rightarrow> if st_Cookie s \<noteq> [] then st_Cookie s else ''gpm-sticky-'' @ ug_Name g
      | None \<Rightarrow> ''gpm-sticky-'' @ ug_Name g)"

definition ParseTTL :: "stickiness \<Rightarrow> int option" where
  "ParseTTL s =
     (let v = TrimSpace (st_TTL s) in
      if v \<noteq> [] \<and> last v = CHR ''d''
      then map_option (\<lambda>n. wrap64 (wrap64 (n * 24) * 3600000000000)) (Atoi (butlast v))
      else ParseDuration v)"

definition cookie_char :: "char \<Rightarrow> bool" where
  "cookie_char c \<longleftrightarrow> alnum c \<or> c \<in> set (''!#$%&*+-.^_|~'' @ [CHR 0x27, CHR 0x60])"

definition validate_stickiness :: "stickiness \<Rightarrow> verr" where
  "validate_stickiness s = first_err
     [check (list_all cookie_char (st_Cookie s)) ''stickiness.cookie'',
      (case ParseTTL s of None \<Rightarrow> Some ''stickiness.ttl'' | Some d \<Rightarrow> check (d > 0) ''stickiness.ttl'')]"

definition upstream_key :: "upstream \<Rightarrow> string \<times> string \<times> int" where
  "upstream_key u = (u_Scheme u, ToLower (u_Host u), u_Port u)"

fun group_scan :: "(string \<times> string \<times> int) list \<Rightarrow> group_upstream list \<Rightarrow> verr" where
  "group_scan seen [] = None"
| "group_scan seen (u # us) = first_err
     [validate_upstream (gu_Upstream u),
      check (0 \<le> gu_Weight u \<and> gu_Weight u \<le> 256) ''upstreams.weight'',
      check (upstream_key (gu_Upstream u) \<notin> set seen) ''upstreams'',
      group_scan (upstream_key (gu_Upstream u) # seen) us]"

definition validate_upstream_group :: "upstream_group \<Rightarrow> verr" where
  "validate_upstream_group g = first_err
     [ValidateName (ug_Name g),
      check (ug_Upstreams g \<noteq> []) ''upstreams'',
      check (ug_Policy g \<in> {[], ''failover'', ''round-robin'', ''least-connections'', ''ip-hash''}) ''policy'',
      group_scan [] (ug_Upstreams g),
      validateInline validate_stickiness (ug_Stickiness g),
      check (validate_health (ug_HealthCheck g) = None) ''healthCheck'']"

section \<open>Access lists\<close>

record access_list_source =
  als_Name :: string
  als_URL :: string
  als_Interval :: string
  als_MaxEntries :: int

definition MinAccessListSourceInterval :: int where "MinAccessListSourceInterval = 3600000000000"

definition FetchInterval :: "access_list_source \<Rightarrow> int" where
  "FetchInterval s =
     (if als_Interval s = [] then 86400000000000
      else case ParseDuration (als_Interval s) of
        None \<Rightarrow> 86400000000000 | Some d \<Rightarrow> if d < MinAccessListSourceInterval then 86400000000000 else d)"

definition EntryLimit :: "access_list_source \<Rightarrow> int" where
  "EntryLimit s = (if als_MaxEntries s \<le> 0 then 10000 else als_MaxEntries s)"

fun validate_sources :: "url_parse \<Rightarrow> string list \<Rightarrow> access_list_source list \<Rightarrow> verr" where
  "validate_sources url_parse seen [] = None"
| "validate_sources url_parse seen (s # ss) = first_err
     [under ''sources: '' (ValidateName (als_Name s)),
      check (als_Name s \<notin> set seen) ''sources'',
      check (case url_parse (als_URL s) of Some (scheme, host) \<Rightarrow> scheme = ''https'' \<and> host \<noteq> [] | None \<Rightarrow> False) ''sources'',
      (if als_Interval s = [] then None
       else case ParseDuration (als_Interval s) of None \<Rightarrow> Some ''sources'' | Some d \<Rightarrow> check (MinAccessListSourceInterval \<le> d) ''sources''),
      check (als_MaxEntries s \<ge> 0) ''sources'',
      validate_sources url_parse (als_Name s # seen) ss]"

definition validate_ip_rule :: "string list \<Rightarrow> ip_rule \<Rightarrow> verr" where
  "validate_ip_rule sources r = first_err
     [check (rule_Action r = ActionAllow \<or> rule_Action r = ActionDeny) ''rules'',
      (if rule_CIDR r \<noteq> [] \<and> rule_Source r \<noteq> [] then Some ''rules''
       else if rule_CIDR r = [] \<and> rule_Source r = [] then Some ''rules''
       else if rule_Source r \<noteq> [] then check (rule_Source r \<in> set sources) ''rules''
       else check (validCIDROrIP (rule_CIDR r)) ''rules''),
      check (validateRulePaths r = None) ''rules'']"

text \<open>The sources of a list are given beside it; the list itself holds their names.\<close>

definition validate_access_list :: "url_parse \<Rightarrow> access_list_source list \<Rightarrow> access_list_cfg \<Rightarrow> verr" where
  "validate_access_list url_parse srcs a = first_err
     [ValidateName (al_Name a),
      validate_sources url_parse [] srcs,
      first_err (map (validate_ip_rule (map als_Name srcs)) (al_Rules a)),
      check (al_DefaultAction a \<in> {[], ActionAllow, ActionDeny}) ''defaultAction'',
      check (validate_geo (al_Geo a) = None) ''geo'',
      check (list_all (\<lambda>u. Username u \<noteq> [] \<and> PasswordHash u \<noteq> []) (al_BasicAuth a)) ''basicAuth'']"

section \<open>Middlewares\<close>

record guard_trigger =
  gt_Name :: string
  gt_Paths :: "string list"
  gt_Methods :: "string list"
  gt_QueryEquals :: "(string \<times> string) list"

record guard_middleware =
  gm_Triggers :: "guard_trigger list"
  gm_AllowFrom :: "string list"
  gm_DenyStatus :: int

definition validate_guard :: "guard_middleware option \<Rightarrow> verr" where
  "validate_guard g =
     (case g of None \<Rightarrow> Some ''guard''
      | Some g \<Rightarrow> first_err
          [first_err (map (\<lambda>t. if gt_Name t = [] then None
             else first_err [under ''guard: triggers.'' (ValidateName (gt_Name t)), check (length (gt_Name t) \<le> 64) ''guard: triggers.name''])
             (gm_Triggers g)),
           check (gm_Triggers g \<noteq> []) ''guard'',
           check (list_all validCIDROrIP (gm_AllowFrom g)) ''guard.allowFrom'',
           check (gm_DenyStatus g = 0 \<or> 400 \<le> gm_DenyStatus g \<and> gm_DenyStatus g \<le> 599) ''guard.denyStatus''])"

definition validateRewriteTarget :: "string \<Rightarrow> verr" where
  "validateRewriteTarget t = check
     (t \<noteq> [] \<and> Sublist.prefix ''/'' t \<and> \<not> contains_any t ''?#'' \<and> \<not> contains_any t [CHR 0x5C, CHR '';''] \<and>
      list_all (\<lambda>seg. seg \<noteq> ''.'' \<and> seg \<noteq> ''..'') (split_on (CHR ''/'') t)) ''rewrite''"

record rewrite_middleware =
  rw_ReplacePath :: "(string \<times> string) list"
  rw_PrefixRules :: "(string \<times> string) list"
  rw_RegexRules :: "(string \<times> string) list"

definition AnchorRewritePattern :: "string \<Rightarrow> string" where
  "AnchorRewritePattern p = (if Sublist.prefix ''^'' p then p else ''^'' @ p)"

definition path_rule_ok :: "string \<times> string \<Rightarrow> verr" where
  "path_rule_ok r = (case r of (f, t) \<Rightarrow>
     first_err [check (f \<noteq> [] \<and> Sublist.prefix ''/'' f) ''rewrite'', validateRewriteTarget t, check (f \<noteq> t) ''rewrite''])"

definition validate_rewrite :: "(string \<Rightarrow> bool) \<Rightarrow> rewrite_middleware \<Rightarrow> verr" where
  "validate_rewrite re_ok rw = first_err
     [check (rw_ReplacePath rw \<noteq> [] \<or> rw_PrefixRules rw \<noteq> [] \<or> rw_RegexRules rw \<noteq> []) ''rewrite'',
      first_err (map path_rule_ok (rw_ReplacePath rw)),
      check (length (rw_PrefixRules rw) \<le> 32) ''rewrite.prefixRules'',
      first_err (map path_rule_ok (rw_PrefixRules rw)),
      check (length (rw_RegexRules rw) \<le> 32) ''rewrite.regexRules'',
      first_err (map (\<lambda>(f, t). first_err
        [check (f \<noteq> []) ''rewrite.regexRules'', check (length f \<le> 256) ''rewrite.regexRules'',
         check (re_ok (AnchorRewritePattern f)) ''rewrite.regexRules'', validateRewriteTarget t]) (rw_RegexRules rw))]"

record bouncer_middleware =
  bo_Provider :: string
  bo_URL :: string
  bo_APIKey :: string
  bo_Timeout :: string
  bo_CacheTTL :: string
  bo_CacheMaxEntries :: int
  bo_OnError :: string
  bo_DenyStatus :: int
  bo_DenyWith :: string
  bo_AllowFrom :: "string list"
  bo_Stream :: bool

definition ProviderOrDefault :: "bouncer_middleware \<Rightarrow> string" where
  "ProviderOrDefault b = (if bo_Provider b = [] then ''crowdsec'' else bo_Provider b)"

definition FailOpen :: "bouncer_middleware \<Rightarrow> bool" where
  "FailOpen b \<longleftrightarrow> bo_OnError b \<noteq> ''fail-closed''"

definition durationOr :: "string \<Rightarrow> int \<Rightarrow> int" where
  "durationOr s d = (if s = [] then d else case ParseDuration s of None \<Rightarrow> d | Some x \<Rightarrow> if x \<le> 0 then d else x)"

definition validate_bouncer :: "url_parse \<Rightarrow> bouncer_middleware \<Rightarrow> verr" where
  "validate_bouncer url_parse b = first_err
     [check (ProviderOrDefault b \<in> {''crowdsec'', ''http''}) ''bouncer.provider'',
      check (TrimSpace (bo_URL b) \<noteq> []) ''bouncer.url'',
      check (http_url url_parse (bo_URL b)) ''bouncer.url'',
      check (\<not> (ProviderOrDefault b = ''crowdsec'' \<and> secret_IsEmpty (bo_APIKey b))) ''bouncer.apiKey'',
      check (\<not> (bo_Stream b \<and> ProviderOrDefault b \<noteq> ''crowdsec'')) ''bouncer.stream'',
      (if bo_Timeout b = [] then None else positive_duration (bo_Timeout b) ''bouncer.timeout''),
      (if bo_CacheTTL b = [] then None else positive_duration (bo_CacheTTL b) ''bouncer.cacheTTL''),
      check (bo_CacheMaxEntries b \<ge> 0) ''bouncer.cacheMaxEntries'',
      check (bo_OnError b \<in> {[], ''fail-open'', ''fail-closed''}) ''bouncer.onError'',
      check (bo_DenyWith b \<in> {[], ''error-page'', ''plain''}) ''bouncer.denyWith'',
      check (bo_DenyStatus b = 0 \<or> 400 \<le> bo_DenyStatus b \<and> bo_DenyStatus b \<le> 599) ''bouncer.denyStatus'',
      check (list_all validCIDROrIP (bo_AllowFrom b)) ''bouncer.allowFrom'']"

text \<open>A headers middleware has no checked content; only its presence matters to validation. Its maps are
  association lists.\<close>

record headers_middleware =
  SetRequest :: "(string \<times> string) list"
  SetResponse :: "(string \<times> string) list"
  RemoveRequest :: "string list"
  RemoveResponse :: "string list"

record middleware =
  mw_Name :: string
  mw_Type :: string
  mw_Auth :: "auth_middleware option"
  mw_Headers :: "headers_middleware option"
  mw_Guard :: "guard_middleware option"
  mw_RateLimit :: "rate_limit option"
  mw_Rewrite :: "rewrite_middleware option"
  mw_Bouncer :: "bouncer_middleware option"

definition no_rewrite :: rewrite_middleware where
  "no_rewrite = \<lparr>rw_ReplacePath = [], rw_PrefixRules = [], rw_RegexRules = []\<rparr>"

definition validate_middleware :: "url_parse \<Rightarrow> (string \<Rightarrow> bool) \<Rightarrow> middleware \<Rightarrow> verr" where
  "validate_middleware url_parse re_ok m = first_err
     [ValidateName (mw_Name m),
      (if mw_Type m = ''auth'' then (case mw_Auth m of None \<Rightarrow> Some ''auth'' | Some a \<Rightarrow> validate_auth a)
       else if mw_Type m = ''headers'' then check (mw_Headers m \<noteq> None) ''headers''
       else if mw_Type m = ''guard'' then validate_guard (mw_Guard m)
       else if mw_Type m = ''rate-limit'' then
         (case mw_RateLimit m of None \<Rightarrow> Some ''rateLimit.requestsPerSecond'' | Some r \<Rightarrow> validate_rate_limit r)
       else if mw_Type m = ''rewrite'' then
         validate_rewrite re_ok (case mw_Rewrite m of None \<Rightarrow> no_rewrite | Some rw \<Rightarrow> rw)
       else if mw_Type m = ''bouncer'' then (case mw_Bouncer m of None \<Rightarrow> Some ''bouncer'' | Some b \<Rightarrow> validate_bouncer url_parse b)
       else Some ''type'')]"

section \<open>API tokens\<close>

definition ScopePlurals :: "string list" where
  "ScopePlurals = [''proxy-hosts'', ''redirect-hosts'', ''stream-hosts'', ''parked-hosts'', ''certificates'', ''client-cas'',
     ''dns-providers'', ''identity-providers'', ''upstream-groups'', ''access-lists'', ''middlewares'', ''api-tokens'',
     ''settings'', ''dns-sync'', ''ingress-discovery'', ''docker-discovery'', ''metrics'']"

definition splitScopeRaw :: "string \<Rightarrow> (string \<times> string) option" where
  "splitScopeRaw s =
     (let plural = before (CHR '':'') s; verb = after (CHR '':'') s in
      if CHR '':'' \<notin> set s \<or> plural = [] \<or> verb = [] \<or> (verb \<noteq> ''read'' \<and> verb \<noteq> ''write'') then None
      else Some (plural, verb))"

definition splitScope :: "string \<Rightarrow> (string \<times> string) option" where
  "splitScope s = map_option (\<lambda>(p, v). (if p = ''dead-hosts'' then ''parked-hosts'' else p, v)) (splitScopeRaw s)"

definition ScopeSatisfied :: "string list \<Rightarrow> string \<Rightarrow> bool" where
  "ScopeSatisfied granted required =
     (if required = ''admin'' then ''admin'' \<in> set granted
      else case splitScope required of
        None \<Rightarrow> False
      | Some (rp, rv) \<Rightarrow>
          list_ex (\<lambda>g. g = ''admin'' \<or>
            (case splitScope g of None \<Rightarrow> False
             | Some (gp, gv) \<Rightarrow> (gp = ''*'' \<or> gp = rp) \<and> (gv = rv \<or> gv = ''write''))) granted)"

record api_token =
  tok_Name :: string
  tok_Disabled :: bool
  TokenHash :: string
  tok_Scopes :: "string list"
  ExpiresAt :: "int option"

definition scope_err :: "string \<Rightarrow> verr" where
  "scope_err s =
     (if s = ''admin'' then None
      else case splitScope s of None \<Rightarrow> Some ''scopes'' | Some (p, _) \<Rightarrow> check (p = ''*'' \<or> p \<in> set ScopePlurals) ''scopes'')"

definition validate_api_token :: "api_token \<Rightarrow> verr" where
  "validate_api_token t = first_err
     [ValidateName (tok_Name t),
      check (tok_Scopes t \<noteq> []) ''scopes'',
      first_err (map scope_err (tok_Scopes t))]"

definition token_Expired :: "api_token \<Rightarrow> int \<Rightarrow> bool" where
  "token_Expired t now = (case ExpiresAt t of None \<Rightarrow> False | Some e \<Rightarrow> e < now)"

lemmas [go_eval] = http_url_def secret_IsEmpty_def store_path_def confinedStorePath_def EffectiveChallenge_def
  validate_acme_def validate_certificate_def KnownDNSProviders_def TSIGAlgorithms_def requireConfig_def validateRFC2136_def
  IsTruthyConfig_def validate_dns_provider_def validate_client_ca_def validate_role_mapping_def
  validate_identity_provider_def wrap64_def ParseTTL_def cookie_char_def validate_stickiness_def upstream_key_def
  validate_upstream_group_def validate_ip_rule_def validate_access_list_def validate_guard_def validateRewriteTarget_def
  AnchorRewritePattern_def path_rule_ok_def validate_rewrite_def ProviderOrDefault_def validate_bouncer_def no_rewrite_def
  validate_middleware_def ScopePlurals_def splitScopeRaw_def splitScope_def ScopeSatisfied_def scope_err_def validate_api_token_def

section \<open>Properties\<close>

text \<open>A token does only what its scopes name. A valid token that does not hold the admin scope never
  passes an admin check; it passes a check on a whole-configuration read or write only through a star
  scope, and one on a resource only through a star scope or a scope of that resource; and no write
  check passes on read scopes.\<close>

theorem scopes_grant_no_more:
  assumes "validate_api_token t = None" "''admin'' \<notin> set (tok_Scopes t)"
    and "required = ''admin'' \<or> splitScope required = Some (rp, rv)" "ScopeSatisfied (tok_Scopes t) required"
  shows "required \<noteq> ''admin'' \<and>
    (\<exists>g \<in> set (tok_Scopes t). \<exists>gp gv. splitScope g = Some (gp, gv) \<and> (gp = ''*'' \<or> gp = rp \<and> rp \<in> set ScopePlurals) \<and>
       (rv = ''write'' \<longrightarrow> gv = ''write''))"
proof -
  have na: "required \<noteq> ''admin''" using assms(2,4) by (auto simp: ScopeSatisfied_def)
  then have sr: "splitScope required = Some (rp, rv)" using assms(3) by simp
  obtain g gp gv where g: "g \<in> set (tok_Scopes t)" "splitScope g = Some (gp, gv)" "gp = ''*'' \<or> gp = rp" "gv = rv \<or> gv = ''write''"
    using assms(2,4) na sr by (auto simp: ScopeSatisfied_def list_ex_iff split: option.splits)
  have "gp = ''*'' \<or> gp \<in> set ScopePlurals"
  proof -
    have "g \<noteq> ''admin''" using assms(2) g(1) by blast
    moreover have "list_all (\<lambda>s. scope_err s = None) (tok_Scopes t)" using assms(1) by (simp add: validate_api_token_def)
    ultimately have "check (gp = ''*'' \<or> gp \<in> set ScopePlurals) ''scopes'' = None"
      using g(1,2) by (auto simp: list_all_iff scope_err_def dest!: bspec [where x = g])
    then show ?thesis by simp
  qed
  with g na show ?thesis by blast
qed

theorem scopes_grant_no_more_witness:
  "\<exists>g \<in> {''certificates:write'', ''proxy-hosts:read''}. \<exists>gp gv. splitScope g = Some (gp, gv) \<and> (gp = ''*'' \<or> gp = ''certificates'')"
proof -
  define t where "t = \<lparr>tok_Name = ''ci'', tok_Disabled = False, TokenHash = [], tok_Scopes = [''certificates:write'', ''proxy-hosts:read''],
    ExpiresAt = None\<rparr>"
  have v: "validate_api_token t = None" unfolding t_def by code_simp
  have s: "splitScope ''certificates:read'' = Some (''certificates'', ''read'')" by code_simp
  have r: "ScopeSatisfied (tok_Scopes t) ''certificates:read''" unfolding t_def by code_simp
  show ?thesis using scopes_grant_no_more [OF v _ disjI2 [OF s] r] by (auto simp: t_def)
qed

text \<open>A stickiness TTL given in days is multiplied in wrapping 64-bit arithmetic before it is compared
  with zero. 213504 days, about 584 years, validates and becomes 25 minutes; minus 106752 days
  validates too and becomes 292 years.\<close>

theorem sticky_ttl_wraps:
  "validate_stickiness \<lparr>st_Cookie = [], st_TTL = ''213504d''\<rparr> = None \<and>
   ParseTTL \<lparr>st_Cookie = [], st_TTL = ''213504d''\<rparr> = Some 1526290448384 \<and>
   validate_stickiness \<lparr>st_Cookie = [], st_TTL = ''-106752d''\<rparr> = None \<and>
   ParseTTL \<lparr>st_Cookie = [], st_TTL = ''-106752d''\<rparr> = Some 9223371273709551616"
proof -
  have a: "Atoi ''213504'' = Some 213504" "Atoi ''-106752'' = Some (- 106752)"
    by (simp_all add: Atoi_def all_digits_def is_digit_def digits_val_def digit_val_def byte_of_def Let_def)
  have t: "TrimSpace ''213504d'' = ''213504d''" "TrimSpace ''-106752d'' = ''-106752d''" by code_simp+
  have p: "ParseTTL \<lparr>st_Cookie = [], st_TTL = ''213504d''\<rparr> = Some 1526290448384"
    "ParseTTL \<lparr>st_Cookie = [], st_TTL = ''-106752d''\<rparr> = Some 9223371273709551616"
    by (simp_all add: ParseTTL_def t a wrap64_def)
  then show ?thesis by (simp add: validate_stickiness_def)
qed

end
