(* ===== verification/Config_Validate.thy ===== *)
theory Config_Validate
  imports Object_Validate
begin

text \<open>
  \<open>Config.Validate\<close> of \<open>internal/model/validate.go\<close>: every object's own validation, unique names, references
  between objects, shared listen ports of stream hosts, and domains claimed twice.

  The result is the list of errors the code joins; a configuration is valid when it is empty. Errors
  carry the data of the code's messages. They come in the code's order but for two loops: the udp
  ports are checked after the other stream-host checks, not between them, and the tcp ports are
  visited in the order of their first host, where the code goes over a map.
\<close>

section \<open>The configuration\<close>

text \<open>What validation takes from Go's library (see \<open>Object_Validate\<close> and \<open>Host_Model\<close>).\<close>

record go_env =
  env_url :: url_parse
  env_regexp :: "string \<Rightarrow> bool"
  env_template :: "string \<Rightarrow> bool"
  env_key :: "string \<Rightarrow> string \<Rightarrow> bool"
  env_outbound :: "string \<Rightarrow> bool \<Rightarrow> bool"
  env_placeholder :: "string \<Rightarrow> bool"

record gpm_config =
  c_Certificates :: "certificate list"
  c_ClientCAs :: "client_ca list"
  c_DNSProviders :: "dns_provider list"
  c_Middlewares :: "middleware list"
  c_AccessLists :: "(access_list_cfg \<times> access_list_source list) list"
  c_IdentityProviders :: "identity_provider list"
  c_UpstreamGroups :: "upstream_group list"
  c_APITokens :: "api_token list"
  c_ProxyHosts :: "host_shape proxy_host list"
  c_RedirectHosts :: "redirect_host list"
  c_ParkedHosts :: "parked_host list"
  c_StreamHosts :: "stream_host list"

datatype config_error =
  OwnError string string string
  | DuplicateName string string
  | UnknownRef string string string string
  | DisabledRef string string string string
  | AllowFromMode string string
  | StreamBasicAuth string string
  | StreamRequestScoped string string
  | UdpPortTaken string int string
  | TcpPortShared string int
  | SniTaken string string int string
  | DomainClaimed string string string "string \<times> string"

text \<open>The fleet-wide maintenance switch of the settings, which the router and the settings share.\<close>

record maintenance_settings =
  mt_Enabled :: bool
  RetryAfterSeconds :: int

definition DefaultMaintenanceRetryAfter :: int where "DefaultMaintenanceRetryAfter = 300"

definition EffectiveRetryAfter :: "maintenance_settings \<Rightarrow> int" where
  "EffectiveRetryAfter m = (if RetryAfterSeconds m > 0 then RetryAfterSeconds m else DefaultMaintenanceRetryAfter)"

section \<open>The checks\<close>

definition own_err :: "string \<Rightarrow> string \<Rightarrow> verr \<Rightarrow> config_error list" where
  "own_err kind name e = (case e of None \<Rightarrow> [] | Some f \<Rightarrow> [OwnError kind name f])"

text \<open>One pass over the objects of a kind: the object's own validation, the registration of its name among
  those \<open>seen\<close>, and its references.\<close>

fun check_objects ::
  "string \<Rightarrow> ('o \<Rightarrow> string) \<Rightarrow> ('o \<Rightarrow> verr) \<Rightarrow> ('o \<Rightarrow> config_error list) \<Rightarrow> string list \<Rightarrow> 'o list \<Rightarrow> config_error list" where
  "check_objects kind nm v refs seen [] = []"
| "check_objects kind nm v refs seen (x # xs) =
     own_err kind (nm x) (v x) @
     (if nm x \<noteq> [] \<and> nm x \<in> set seen then [DuplicateName kind (nm x)] else []) @
     refs x @ check_objects kind nm v refs (if nm x = [] then seen else nm x # seen) xs"

definition no_refs :: "'o \<Rightarrow> config_error list" where
  "no_refs x = []"

definition checkRef :: "string \<Rightarrow> string \<Rightarrow> string \<Rightarrow> string \<Rightarrow> string list \<Rightarrow> config_error list" where
  "checkRef kind owner field ref known = (if ref = [] \<or> ref \<in> set known then [] else [UnknownRef kind owner field ref])"

definition ca_names :: "gpm_config \<Rightarrow> string list" where
  "ca_names c = map cca_Name (c_ClientCAs c)"

definition disabled_cas :: "gpm_config \<Rightarrow> string list" where
  "disabled_cas c = map cca_Name (filter cca_Disabled (c_ClientCAs c))"

definition group_names :: "gpm_config \<Rightarrow> string list" where
  "group_names c = map ug_Name (c_UpstreamGroups c)"

definition disabled_groups :: "gpm_config \<Rightarrow> string list" where
  "disabled_groups c = map ug_Name (filter ug_Disabled (c_UpstreamGroups c))"

definition list_names :: "gpm_config \<Rightarrow> string list" where
  "list_names c = map (al_Name \<circ> fst) (c_AccessLists c)"

definition checkClientAuthRef :: "gpm_config \<Rightarrow> string \<Rightarrow> string \<Rightarrow> tls_settings \<Rightarrow> config_error list" where
  "checkClientAuthRef c kind owner t =
     (case ClientAuth t of
        None \<Rightarrow> []
      | Some a \<Rightarrow>
          checkRef kind owner ''tls.clientAuth.caRef'' (CARef a) (ca_names c) @
          (if CARef a \<noteq> [] \<and> CARef a \<in> set (ca_names c) \<and> CARef a \<in> set (disabled_cas c)
           then [DisabledRef kind owner ''tls.clientAuth.caRef'' (CARef a)] else []))"

definition checkGroupRef :: "gpm_config \<Rightarrow> string \<Rightarrow> bool \<Rightarrow> string \<Rightarrow> string \<Rightarrow> config_error list" where
  "checkGroupRef c owner off field ref =
     checkRef ''proxy host'' owner field ref (group_names c) @
     (if \<not> off \<and> ref \<noteq> [] \<and> ref \<in> set (group_names c) \<and> ref \<in> set (disabled_groups c)
      then [DisabledRef ''proxy host'' owner field ref] else [])"

definition checkAuthAllowFromMode :: "gpm_config \<Rightarrow> string \<Rightarrow> auth_middleware \<Rightarrow> config_error list" where
  "checkAuthAllowFromMode c owner a =
     (if am_AllowFrom a = [] \<or> am_Mode a \<noteq> [] then []
      else case map_of (rev (map (\<lambda>p. (idp_Name p, idp_Type p)) (c_IdentityProviders c))) (am_IdentityProvider a) of
        None \<Rightarrow> [AllowFromMode owner (am_IdentityProvider a)]
      | Some ty \<Rightarrow> if ty = ''auth-request'' then [] else [AllowFromMode owner (am_IdentityProvider a)])"

definition checkInlineAuth :: "gpm_config \<Rightarrow> string \<Rightarrow> string \<Rightarrow> auth_middleware option \<Rightarrow> config_error list" where
  "checkInlineAuth c kind owner a =
     (case a of
        None \<Rightarrow> []
      | Some a \<Rightarrow>
          checkRef kind owner ''auth.identityProvider'' (am_IdentityProvider a) (map idp_Name (c_IdentityProviders c)) @
          checkAuthAllowFromMode c owner a)"

definition list_refs :: "gpm_config \<Rightarrow> string \<Rightarrow> string \<Rightarrow> string \<Rightarrow> string list \<Rightarrow> config_error list" where
  "list_refs c kind owner field refs = concat (map (\<lambda>a. checkRef kind owner field a (list_names c)) refs)"

definition rate_refs :: "gpm_config \<Rightarrow> string \<Rightarrow> string \<Rightarrow> rate_limit option \<Rightarrow> config_error list" where
  "rate_refs c kind owner r = (case r of None \<Rightarrow> [] | Some r \<Rightarrow> list_refs c kind owner ''rateLimit.allowFrom'' (AccessListRefs r))"

definition mw_refs :: "gpm_config \<Rightarrow> string \<Rightarrow> string list \<Rightarrow> config_error list" where
  "mw_refs c owner refs = concat (map (\<lambda>m. checkRef ''proxy host'' owner ''middlewares'' m (map mw_Name (c_Middlewares c))) refs)"

definition cert_ref :: "gpm_config \<Rightarrow> string \<Rightarrow> string \<Rightarrow> string \<Rightarrow> config_error list" where
  "cert_ref c kind owner ref = checkRef kind owner ''tls.certificateRef'' ref (map cert_Name (c_Certificates c))"

definition location_refs :: "gpm_config \<Rightarrow> string \<Rightarrow> bool \<Rightarrow> location \<Rightarrow> config_error list" where
  "location_refs c owner off l =
     rate_refs c ''proxy host'' owner (loc_RateLimit l) @
     checkGroupRef c owner off ''upstreamGroupRef'' (loc_UpstreamGroupRef l) @
     mw_refs c owner (loc_Middlewares l) @
     list_refs c ''proxy host'' owner ''accessLists'' (loc_AccessLists l) @
     checkInlineAuth c ''proxy host'' owner (loc_Auth l)"

definition proxy_host_refs :: "gpm_config \<Rightarrow> host_shape proxy_host \<Rightarrow> config_error list" where
  "proxy_host_refs c h =
     (let s = ph_rest h; owner = ph_Name h in
      cert_ref c ''proxy host'' owner (CertificateRef (hs_TLS s)) @
      checkClientAuthRef c ''proxy host'' owner (hs_TLS s) @
      checkGroupRef c owner (ph_Disabled h) ''upstreamGroupRef'' (hs_UpstreamGroupRef s) @
      mw_refs c owner (hs_Middlewares s) @
      list_refs c ''proxy host'' owner ''accessLists'' (hs_AccessLists s) @
      checkInlineAuth c ''proxy host'' owner (hs_Auth s) @
      rate_refs c ''proxy host'' owner (hs_RateLimit s) @
      concat (map (location_refs c owner (ph_Disabled h)) (hs_Locations s)))"

definition tls_refs :: "gpm_config \<Rightarrow> string \<Rightarrow> string \<Rightarrow> tls_settings \<Rightarrow> config_error list" where
  "tls_refs c kind owner t = cert_ref c kind owner (CertificateRef t) @ checkClientAuthRef c kind owner t"

definition stream_list_errs :: "gpm_config \<Rightarrow> string \<Rightarrow> string \<Rightarrow> config_error list" where
  "stream_list_errs c owner a =
     checkRef ''stream host'' owner ''accessLists'' a (list_names c) @
     (if list_ex (\<lambda>(l, _). al_Name l = a \<and> al_BasicAuth l \<noteq> []) (c_AccessLists c) then [StreamBasicAuth owner a] else []) @
     (if list_ex (\<lambda>(l, _). al_Name l = a \<and> HasRequestScopedRules l) (c_AccessLists c) then [StreamRequestScoped owner a] else [])"

definition stream_refs :: "gpm_config \<Rightarrow> stream_host \<Rightarrow> config_error list" where
  "stream_refs c h =
     (case sh_TLS h of None \<Rightarrow> [] | Some t \<Rightarrow> cert_ref c ''stream host'' (sh_SName h) (st_CertificateRef t)) @
     concat (map (stream_list_errs c (sh_SName h)) (sh_AccessLists h))"

subsection \<open>Listen ports\<close>

definition on_tcp :: "stream_host \<Rightarrow> bool" where
  "on_tcp h \<longleftrightarrow> \<not> sh_Disabled h \<and> (Protocol h = ''tcp'' \<or> Protocol h = ''both'')"

definition on_udp :: "stream_host \<Rightarrow> bool" where
  "on_udp h \<longleftrightarrow> \<not> sh_Disabled h \<and> (Protocol h = ''udp'' \<or> Protocol h = ''both'')"

fun udp_conflicts :: "(int \<times> string) list \<Rightarrow> stream_host list \<Rightarrow> config_error list" where
  "udp_conflicts taken [] = []"
| "udp_conflicts taken (h # hs) =
     (if \<not> on_udp h then udp_conflicts taken hs
      else case map_of taken (ListenPort h) of
        Some other \<Rightarrow> UdpPortTaken (sh_SName h) (ListenPort h) other # udp_conflicts taken hs
      | None \<Rightarrow> udp_conflicts ((ListenPort h, sh_SName h) # taken) hs)"

fun sni_names :: "string \<Rightarrow> int \<Rightarrow> (string \<times> string) list \<Rightarrow> string list \<Rightarrow> config_error list \<times> (string \<times> string) list" where
  "sni_names host port names [] = ([], names)"
| "sni_names host port names (n # ns) =
     (case map_of names n of
        Some other \<Rightarrow> (case sni_names host port names ns of (es, names') \<Rightarrow> (SniTaken host n port other # es, names'))
      | None \<Rightarrow> sni_names host port ((n, host) # names) ns)"

fun sni_conflicts :: "int \<Rightarrow> (string \<times> string) list \<Rightarrow> stream_host list \<Rightarrow> config_error list" where
  "sni_conflicts port names [] = []"
| "sni_conflicts port names (h # hs) =
     (if SNINames h = [] then TcpPortShared (sh_SName h) port # sni_conflicts port names hs
      else case sni_names (sh_SName h) port names (SNINames h) of (es, names') \<Rightarrow> es @ sni_conflicts port names' hs)"

definition tcp_conflicts :: "stream_host list \<Rightarrow> config_error list" where
  "tcp_conflicts hs =
     (let tcp = filter on_tcp hs in
      concat (map (\<lambda>port. let claims = filter (\<lambda>h. ListenPort h = port) tcp in
                if length claims < 2 then [] else sni_conflicts port [] claims)
        (remdups (map ListenPort tcp))))"

subsection \<open>Domains\<close>

fun claim_conflicts :: "(string \<times> string \<times> string) list \<Rightarrow> (string \<times> string \<times> string) list \<Rightarrow> config_error list" where
  "claim_conflicts claimed [] = []"
| "claim_conflicts claimed ((kind, name, d) # ds) =
     (let key = DomainKey d in
      if key = [] then claim_conflicts claimed ds
      else case map_of claimed key of
        Some other \<Rightarrow> DomainClaimed kind name key other # claim_conflicts claimed ds
      | None \<Rightarrow> claim_conflicts ((key, kind, name) # claimed) ds)"

definition domain_claims :: "string \<Rightarrow> string \<Rightarrow> bool \<Rightarrow> string list \<Rightarrow> (string \<times> string \<times> string) list" where
  "domain_claims kind name off ds = (if off then [] else map (\<lambda>d. (kind, name, d)) ds)"

definition host_claims :: "gpm_config \<Rightarrow> (string \<times> string \<times> string) list" where
  "host_claims c =
     concat (map (\<lambda>h. domain_claims ''proxy host'' (ph_Name h) (ph_Disabled h) (ph_Domains h)) (c_ProxyHosts c)) @
     concat (map (\<lambda>h. domain_claims ''redirect host'' (rh_Name h) (rh_Disabled h) (rh_Domains h)) (c_RedirectHosts c)) @
     concat (map (\<lambda>h. domain_claims ''parked host'' (pk_Name h) (pk_Disabled h) (pk_Domains h)) (c_ParkedHosts c))"

definition cert_claims :: "gpm_config \<Rightarrow> (string \<times> string \<times> string) list" where
  "cert_claims c = concat (map (\<lambda>ct. domain_claims ''certificate'' (cert_Name ct) (cert_Disabled ct) (cert_Domains ct)) (c_Certificates c))"

subsection \<open>Config.Validate\<close>

definition object_errors :: "go_env \<Rightarrow> gpm_config \<Rightarrow> config_error list" where
  "object_errors env c =
     check_objects ''certificate'' cert_Name validate_certificate no_refs [] (c_Certificates c) @
     check_objects ''clientCA'' cca_Name (validate_client_ca (env_key env)) no_refs [] (c_ClientCAs c) @
     check_objects ''dnsProvider'' dp_Name (validate_dns_provider (env_outbound env) (env_placeholder env)) no_refs [] (c_DNSProviders c) @
     check_objects ''middleware'' mw_Name (validate_middleware (env_url env) (env_regexp env)) no_refs [] (c_Middlewares c) @
     check_objects ''accessList'' (al_Name \<circ> fst) (\<lambda>(a, srcs). validate_access_list (env_url env) srcs a) no_refs [] (c_AccessLists c) @
     check_objects ''identityProvider'' idp_Name (validate_identity_provider (env_url env)) no_refs [] (c_IdentityProviders c) @
     check_objects ''upstreamGroup'' ug_Name validate_upstream_group no_refs [] (c_UpstreamGroups c) @
     check_objects ''apiToken'' tok_Name validate_api_token no_refs [] (c_APITokens c) @
     concat (map (\<lambda>m. if mw_Type m = ''rate-limit'' then rate_refs c ''middleware'' (mw_Name m) (mw_RateLimit m) else []) (c_Middlewares c))"

definition host_errors :: "go_env \<Rightarrow> gpm_config \<Rightarrow> config_error list" where
  "host_errors env c =
     (let s1 = map ph_Name (c_ProxyHosts c); s2 = s1 @ map rh_Name (c_RedirectHosts c); s3 = s2 @ map pk_Name (c_ParkedHosts c) in
      check_objects ''host'' ph_Name (validate_proxy_host (env_template env)) (proxy_host_refs c) [] (c_ProxyHosts c) @
      check_objects ''host'' rh_Name validate_redirect_host (\<lambda>h. tls_refs c ''redirect host'' (rh_Name h) (rh_TLS h)) s1 (c_RedirectHosts c) @
      check_objects ''host'' pk_Name validate_parked_host (\<lambda>h. tls_refs c ''parked host'' (pk_Name h) (pk_TLS h)) s2 (c_ParkedHosts c) @
      check_objects ''host'' sh_SName validate_stream_host (stream_refs c) s3 (c_StreamHosts c))"

definition final_refs :: "gpm_config \<Rightarrow> config_error list" where
  "final_refs c =
     concat (map (\<lambda>ct. case cert_ACME ct of None \<Rightarrow> []
        | Some a \<Rightarrow> checkRef ''certificate'' (cert_Name ct) ''acme.dnsProvider'' (acme_DNSProvider a) (map dp_Name (c_DNSProviders c)))
        (c_Certificates c)) @
     claim_conflicts [] (cert_claims c) @
     concat (map (\<lambda>m. checkInlineAuth c ''middleware'' (mw_Name m) (mw_Auth m)) (c_Middlewares c))"

definition Validate :: "go_env \<Rightarrow> gpm_config \<Rightarrow> config_error list" where
  "Validate env c =
     object_errors env c @ host_errors env c @
     udp_conflicts [] (c_StreamHosts c) @ tcp_conflicts (c_StreamHosts c) @
     claim_conflicts [] (host_claims c) @ final_refs c"

lemmas [go_eval] = own_err_def no_refs_def checkRef_def ca_names_def disabled_cas_def group_names_def disabled_groups_def
  list_names_def checkClientAuthRef_def checkGroupRef_def checkAuthAllowFromMode_def checkInlineAuth_def list_refs_def
  rate_refs_def mw_refs_def cert_ref_def location_refs_def proxy_host_refs_def tls_refs_def stream_list_errs_def
  stream_refs_def on_tcp_def on_udp_def tcp_conflicts_def domain_claims_def host_claims_def cert_claims_def
  object_errors_def host_errors_def final_refs_def Validate_def

section \<open>What an empty error list means\<close>

definition nonempty :: "string list \<Rightarrow> string list" where
  "nonempty xs = filter (\<lambda>x. x \<noteq> []) xs"

lemma nonempty_simps [simp]:
  "nonempty [] = []" "nonempty (x # xs) = (if x = [] then nonempty xs else x # nonempty xs)"
  "nonempty (xs @ ys) = nonempty xs @ nonempty ys" "set (nonempty xs) = set xs - {[]}"
  by (auto simp: nonempty_def)

lemma nonempty_id: "[] \<notin> set xs \<Longrightarrow> nonempty xs = xs"
  by (auto simp: nonempty_def intro: filter_True)

lemma own_err_Nil [simp]: "own_err kind name e = [] \<longleftrightarrow> e = None"
  by (simp add: own_err_def split: option.splits)

lemma checkRef_Nil [simp]: "checkRef kind owner field ref known = [] \<longleftrightarrow> ref = [] \<or> ref \<in> set known"
  by (simp add: checkRef_def)

lemma map_of_fst: "map_of m k = Some v \<Longrightarrow> k \<in> fst ` set m"
  by (force dest: map_of_SomeD)

lemma check_objects_Nil:
  "check_objects kind nm v refs seen xs = [] \<longleftrightarrow>
     list_all (\<lambda>x. v x = None \<and> refs x = []) xs \<and> distinct (nonempty (map nm xs)) \<and> set (nonempty (map nm xs)) \<inter> set seen = {}"
  by (induction xs arbitrary: seen) auto

lemma claim_conflicts_Nil:
  "claim_conflicts claimed ds = [] \<longleftrightarrow>
     distinct (nonempty (map (\<lambda>(_, _, d). DomainKey d) ds)) \<and> set (nonempty (map (\<lambda>(_, _, d). DomainKey d) ds)) \<inter> fst ` set claimed = {}"
proof (induction claimed ds rule: claim_conflicts.induct)
  case (2 claimed kind name d ds)
  show ?case
  proof (cases "map_of claimed (DomainKey d)")
    case None
    moreover from None have "(DomainKey d) \<notin> fst ` set claimed" by (simp add: map_of_eq_None_iff)
    ultimately show ?thesis using 2 by (auto simp: Let_def)
  next
    case (Some other)
    moreover from Some have "(DomainKey d) \<in> fst ` set claimed" by (rule map_of_fst)
    ultimately show ?thesis using 2 by (auto simp: Let_def)
  qed
qed simp

lemma udp_conflicts_Nil:
  "udp_conflicts taken hs = [] \<longleftrightarrow>
     distinct (map ListenPort (filter on_udp hs)) \<and> set (map ListenPort (filter on_udp hs)) \<inter> fst ` set taken = {}"
proof (induction taken hs rule: udp_conflicts.induct)
  case (2 taken h hs)
  show ?case
  proof (cases "map_of taken (ListenPort h)")
    case None
    moreover from None have "(ListenPort h) \<notin> fst ` set taken" by (simp add: map_of_eq_None_iff)
    ultimately show ?thesis using 2 by (auto simp: Let_def)
  next
    case (Some other)
    moreover from Some have "(ListenPort h) \<in> fst ` set taken" by (rule map_of_fst)
    ultimately show ?thesis using 2 by (auto simp: Let_def)
  qed
qed simp

lemma sni_names_Nil:
  "fst (sni_names host port names ns) = [] \<longleftrightarrow> distinct ns \<and> set ns \<inter> fst ` set names = {}"
proof (induction host port names ns rule: sni_names.induct)
  case (2 host port names n ns)
  show ?case
  proof (cases "map_of names n")
    case None
    moreover from None have "n \<notin> fst ` set names" by (simp add: map_of_eq_None_iff)
    ultimately show ?thesis using 2 by (auto simp: Let_def split: prod.splits)
  next
    case (Some other)
    moreover from Some have "n \<in> fst ` set names" by (rule map_of_fst)
    ultimately show ?thesis using 2 by (auto simp: Let_def split: prod.splits)
  qed
qed simp

lemma sni_names_snd: "fst (sni_names host port names ns) = [] \<Longrightarrow> fst ` set (snd (sni_names host port names ns)) = fst ` set names \<union> set ns"
proof (induction host port names ns rule: sni_names.induct)
  case (2 host port names n ns)
  then show ?case by (cases "map_of names n") (auto split: prod.splits)
qed simp

lemma sni_conflicts_Nil:
  "sni_conflicts port names hs = [] \<longleftrightarrow>
     list_all (\<lambda>h. SNINames h \<noteq> []) hs \<and> distinct (concat (map SNINames hs)) \<and> set (concat (map SNINames hs)) \<inter> fst ` set names = {}"
proof (induction port names hs rule: sni_conflicts.induct)
  case (2 port names h hs)
  obtain es names' where s: "sni_names (sh_SName h) port names (SNINames h) = (es, names')" by fastforce
  have e: "es = [] \<longleftrightarrow> distinct (SNINames h) \<and> set (SNINames h) \<inter> fst ` set names = {}"
    using sni_names_Nil [of "sh_SName h" port names "SNINames h"] by (simp add: s)
  have n: "es = [] \<Longrightarrow> fst ` set names' = fst ` set names \<union> set (SNINames h)"
    using sni_names_snd [of "sh_SName h" port names "SNINames h"] by (simp add: s)
  show ?case
  proof (cases "SNINames h = [] \<or> es \<noteq> []")
    case True
    then show ?thesis using e by (auto simp: s)
  next
    case False
    then have "sni_conflicts port names' hs = [] \<longleftrightarrow>
        list_all (\<lambda>h. SNINames h \<noteq> []) hs \<and> distinct (concat (map SNINames hs)) \<and> set (concat (map SNINames hs)) \<inter> fst ` set names' = {}"
      using 2 s by simp
    with False e n show ?thesis by (auto simp: s)
  qed
qed simp

lemma tcp_conflictsD:
  assumes "tcp_conflicts (xs @ a # ys @ b # zs) = []" "on_tcp a" "on_tcp b" "ListenPort a = ListenPort b"
  shows "SNINames a \<noteq> [] \<and> SNINames b \<noteq> [] \<and> set (SNINames a) \<inter> set (SNINames b) = {}"
proof -
  let ?claims = "filter (\<lambda>h. ListenPort h = ListenPort b) (filter on_tcp (xs @ a # ys @ b # zs))"
  have "length ?claims \<ge> 2" using assms(2-4) by simp
  moreover have "ListenPort b \<in> set (remdups (map ListenPort (filter on_tcp (xs @ a # ys @ b # zs))))" using assms(3) by simp
  ultimately have "sni_conflicts (ListenPort b) [] ?claims = []"
    using assms(1) unfolding tcp_conflicts_def Let_def by (auto split: if_splits)
  then show ?thesis using assms(2-4) by (auto simp: sni_conflicts_Nil)
qed

lemma ValidateName_nonempty: "ValidateName n = None \<Longrightarrow> n \<noteq> []"
  by (auto simp: ValidateName_def)

lemma Validate_parts:
  assumes "Validate env c = []"
  shows "object_errors env c = []" "host_errors env c = []" "udp_conflicts [] (c_StreamHosts c) = []"
    "tcp_conflicts (c_StreamHosts c) = []" "claim_conflicts [] (host_claims c) = []" "final_refs c = []"
  using assms by (simp_all add: Validate_def)

definition all_host_names :: "gpm_config \<Rightarrow> string list" where
  "all_host_names c = map ph_Name (c_ProxyHosts c) @ map rh_Name (c_RedirectHosts c) @ map pk_Name (c_ParkedHosts c) @
     map sh_SName (c_StreamHosts c)"

lemma host_errors_Nil:
  assumes "host_errors env c = []"
  shows "list_all (\<lambda>h. validate_proxy_host (env_template env) h = None \<and> proxy_host_refs c h = []) (c_ProxyHosts c)"
    "list_all (\<lambda>h. validate_redirect_host h = None \<and> tls_refs c ''redirect host'' (rh_Name h) (rh_TLS h) = []) (c_RedirectHosts c)"
    "list_all (\<lambda>h. validate_parked_host h = None \<and> tls_refs c ''parked host'' (pk_Name h) (pk_TLS h) = []) (c_ParkedHosts c)"
    "list_all (\<lambda>h. validate_stream_host h = None \<and> stream_refs c h = []) (c_StreamHosts c)"
    "distinct (nonempty (all_host_names c))"
  using assms unfolding host_errors_def Let_def append_is_Nil_conv check_objects_Nil all_host_names_def
  by (auto simp: list_all_iff)

lemma valid_host_names:
  assumes "host_errors env c = []"
  shows "distinct (all_host_names c)"
proof -
  have "[] \<notin> set (all_host_names c)"
    using host_errors_Nil(1-4) [OF assms]
    by (auto simp: all_host_names_def list_all_iff validate_proxy_host_def validate_redirect_host_def validate_parked_host_def
        validate_stream_host_def dest!: ValidateName_nonempty)
  then show ?thesis using host_errors_Nil(5) [OF assms] by (simp add: nonempty_id)
qed

section \<open>Properties\<close>

text \<open>In a valid configuration no domain is claimed twice. The domains of all enabled proxy, redirect and
  parked hosts are pairwise different up to case and surrounding space, also within one host, and all
  hosts, streams included, have different names.\<close>

theorem valid_config_domains:
  assumes "Validate env c = []"
  shows "distinct (nonempty (map (\<lambda>(_, _, d). DomainKey d) (host_claims c))) \<and> distinct (all_host_names c)"
  using Validate_parts(2,5) [OF assms] valid_host_names by (simp add: claim_conflicts_Nil)

text \<open>In a valid configuration two enabled stream hosts on one port are told apart by SNI. They never
  share a udp port; on a tcp port each lists server names, and no name is on both lists.\<close>

theorem valid_config_ports:
  assumes "Validate env c = []" "c_StreamHosts c = xs @ a # ys @ b # zs" "ListenPort a = ListenPort b"
  shows "\<not> (on_udp a \<and> on_udp b) \<and>
    (on_tcp a \<and> on_tcp b \<longrightarrow> SNINames a \<noteq> [] \<and> SNINames b \<noteq> [] \<and> set (SNINames a) \<inter> set (SNINames b) = {})"
proof -
  have "distinct (map ListenPort (filter on_udp (xs @ a # ys @ b # zs)))"
    using Validate_parts(3) [OF assms(1)] by (simp add: udp_conflicts_Nil assms(2))
  then have "\<not> (on_udp a \<and> on_udp b)" using assms(3) by auto
  then show ?thesis using tcp_conflictsD Validate_parts(4) [OF assms(1)] assms(2,3) by auto
qed

lemma concat_map_Nil: "concat (map f xs) = [] \<longleftrightarrow> list_all (\<lambda>x. f x = []) xs"
  by (induction xs) auto

text \<open>A valid configuration has no dangling reference. Every enabled proxy host finds what its data plane
  is built from: its upstream group and those of its locations exist and are enabled, its mTLS trust
  anchor exists and is enabled and the host redirects to TLS, and its middlewares, access lists and
  identity provider exist.\<close>

theorem valid_config_refs:
  assumes "Validate env c = []" "h \<in> set (c_ProxyHosts c)" "\<not> ph_Disabled h" "s = ph_rest h"
  shows "list_all (\<lambda>g. g = [] \<or> list_ex (\<lambda>x. ug_Name x = g \<and> \<not> ug_Disabled x) (c_UpstreamGroups c))
           (hs_UpstreamGroupRef s # map loc_UpstreamGroupRef (hs_Locations s)) \<and>
    (case ClientAuth (hs_TLS s) of None \<Rightarrow> True
     | Some a \<Rightarrow> list_ex (\<lambda>x. cca_Name x = CARef a \<and> \<not> cca_Disabled x) (c_ClientCAs c) \<and> ForceSSL (hs_TLS s)) \<and>
    set (hs_Middlewares s) - {[]} \<subseteq> mw_Name ` set (c_Middlewares c) \<and>
    set (hs_AccessLists s) - {[]} \<subseteq> set (list_names c) \<and>
    (case hs_Auth s of None \<Rightarrow> True
     | Some a \<Rightarrow> am_IdentityProvider a = [] \<or> am_IdentityProvider a \<in> idp_Name ` set (c_IdentityProviders c))"
proof -
  have ok: "validate_proxy_host (env_template env) h = None" and refs: "proxy_host_refs c h = []"
    using host_errors_Nil(1) [OF Validate_parts(2) [OF assms(1)]] assms(2) by (auto simp: list_all_iff)
  have r: "checkClientAuthRef c ''proxy host'' (ph_Name h) (hs_TLS s) = []"
    "list_all (\<lambda>g. checkGroupRef c (ph_Name h) False ''upstreamGroupRef'' g = []) (hs_UpstreamGroupRef s # map loc_UpstreamGroupRef (hs_Locations s))"
    "mw_refs c (ph_Name h) (hs_Middlewares s) = []" "list_refs c ''proxy host'' (ph_Name h) ''accessLists'' (hs_AccessLists s) = []"
    "checkInlineAuth c ''proxy host'' (ph_Name h) (hs_Auth s) = []"
    using refs assms(3,4) by (auto simp: proxy_host_refs_def Let_def concat_map_Nil location_refs_def list_all_iff)
  have g: "g = [] \<or> list_ex (\<lambda>x. ug_Name x = g \<and> \<not> ug_Disabled x) (c_UpstreamGroups c)"
    if "checkGroupRef c (ph_Name h) False ''upstreamGroupRef'' g = []" for g
    using that by (auto simp: checkGroupRef_def group_names_def disabled_groups_def list_ex_iff split: if_splits)
  have m: "set (hs_Middlewares s) - {[]} \<subseteq> mw_Name ` set (c_Middlewares c)"
    using r(3) by (auto simp: mw_refs_def concat_map_Nil list_all_iff)
  have l: "set (hs_AccessLists s) - {[]} \<subseteq> set (list_names c)"
    using r(4) by (auto simp: list_refs_def concat_map_Nil list_all_iff)
  have tls: "validate_tls (hs_TLS s) = None" using ok assms(4) by (simp add: validate_proxy_host_def validate_shape_def)
  have ca: "case ClientAuth (hs_TLS s) of None \<Rightarrow> True
     | Some a \<Rightarrow> list_ex (\<lambda>x. cca_Name x = CARef a \<and> \<not> cca_Disabled x) (c_ClientCAs c) \<and> ForceSSL (hs_TLS s)"
  proof (cases "ClientAuth (hs_TLS s)")
    case (Some a)
    have "CARef a \<noteq> []" "ForceSSL (hs_TLS s)" using tls Some by (simp_all add: validate_tls_def validate_client_auth_def)
    then show ?thesis using r(1) Some
      by (auto simp: checkClientAuthRef_def ca_names_def disabled_cas_def list_ex_iff split: if_splits)
  qed simp
  show ?thesis using g r(2) m l ca r(5) by (auto simp: list_all_iff checkInlineAuth_def split: option.splits)
qed

text \<open>A small valid configuration: an mTLS host backed by a group, and two stream hosts on one port.\<close>

definition plain_tls :: tls_settings where
  "plain_tls = \<lparr>CertificateRef = [], ForceSSL = False, tls_HTTP2 = False,
     tls_HSTS = \<lparr>hsts_Enabled = False, hsts_MaxAge = 0, hsts_IncludeSubdomains = False, hsts_Preload = False\<rparr>,
     MinTLSVersion = [], ClientAuth = None\<rparr>"

definition plain_shape :: host_shape where
  "plain_shape = \<lparr>hs_DisplayName = [], hs_Tags = [], hs_Upstream = no_upstream, hs_UpstreamGroupRef = [],
     hs_WebsocketsUpgrade = False, hs_RobotsNoIndex = False, hs_Timeouts = None, hs_TLS = plain_tls, hs_DNS = None,
     hs_Middlewares = [], hs_AccessLists = [], hs_Locations = [], hs_AdminEdge = False, hs_Auth = None, hs_RateLimit = None,
     hs_Compression = \<lparr>comp_Enabled = False, MinBytes = 0, comp_Types = []\<rparr>, hs_ErrorPages = None, hs_SecurityHeaders = [],
     hs_StripResponseHeaders = [], hs_TrustedProxies = None\<rparr>"

definition named_host :: "string \<Rightarrow> string list \<Rightarrow> host_shape \<Rightarrow> host_shape proxy_host" where
  "named_host n ds s = \<lparr>ph_Name = n, ph_Labels = [], ph_Domains = ds, ph_Disabled = False, ph_Maintenance = False,
     ph_CreatedAt = 0, ph_UpdatedAt = 0, ph_rest = s\<rparr>"

definition backend :: upstream where
  "backend = no_upstream\<lparr>u_Scheme := ''http'', u_Host := ''10.0.0.5'', u_Port := 80\<rparr>"

definition mtls_shape :: host_shape where
  "mtls_shape = plain_shape\<lparr>hs_UpstreamGroupRef := ''pool'',
     hs_TLS := plain_tls\<lparr>ForceSSL := True, ClientAuth := Some \<lparr>CARef = ''corp'', ca_Mode = [], IdentityHeaders = None\<rparr>\<rparr>\<rparr>"

definition sni_host :: "string \<Rightarrow> string \<Rightarrow> stream_host" where
  "sni_host n sni = \<lparr>sh_SName = n, sh_Disabled = False, ListenPort = 8443, Protocol = ''tcp'', Target_Host = ''10.0.0.6'', Target_Port = 443,
     LegacyForwardHost = [], LegacyForwardPort = 0, sh_TLS = Some \<lparr>st_Mode = ''passthrough'', SNIMatch = [sni], st_CertificateRef = []\<rparr>,
     sh_AccessLists = []\<rparr>"

definition demo_config :: gpm_config where
  "demo_config = \<lparr>c_Certificates = [],
     c_ClientCAs = [\<lparr>cca_Name = ''corp'', cca_Disabled = False, CAPEM = ''pem'', CRLFile = [], CRLPEM = [], CRLPolicy = [], CAKeyFile = [],
       CAKeyPEM = [], ExpiryWarningDays = 0\<rparr>],
     c_DNSProviders = [], c_Middlewares = [], c_AccessLists = [], c_IdentityProviders = [],
     c_UpstreamGroups = [\<lparr>ug_Name = ''pool'', ug_Disabled = False, ug_Upstreams = [\<lparr>gu_Upstream = backend, gu_Weight = 1\<rparr>], ug_Policy = [],
       ug_Stickiness = None, ug_HealthCheck = \<lparr>hc_Path = [], IntervalSeconds = 0, TimeoutSeconds = 0, Rise = 0, Fall = 0\<rparr>\<rparr>],
     c_APITokens = [],
     c_ProxyHosts = [named_host ''app'' [''App.example.com''] mtls_shape,
       named_host ''wiki'' [''wiki.example.com''] (plain_shape\<lparr>hs_Upstream := backend\<rparr>)],
     c_RedirectHosts = [], c_ParkedHosts = [],
     c_StreamHosts = [sni_host ''db'' ''db.example.com'', sni_host ''mq'' ''mq.example.com'']\<rparr>"

definition any_env :: go_env where
  "any_env = \<lparr>env_url = (\<lambda>s. Some (''https'', ''h'')), env_regexp = (\<lambda>_. True), env_template = (\<lambda>_. True), env_key = (\<lambda>_ _. True),
     env_outbound = (\<lambda>_ _. True), env_placeholder = (\<lambda>_. False)\<rparr>"

lemma demo_valid: "Validate any_env demo_config = []"
  by code_simp

theorem valid_config_domains_witness: "distinct (all_host_names demo_config)"
  using valid_config_domains [OF demo_valid] by blast

theorem valid_config_ports_witness:
  "set (SNINames (sni_host ''db'' ''db.example.com'')) \<inter> set (SNINames (sni_host ''mq'' ''mq.example.com'')) = {}"
proof -
  have "c_StreamHosts demo_config = [] @ sni_host ''db'' ''db.example.com'' # [] @ sni_host ''mq'' ''mq.example.com'' # []"
    by (simp add: demo_config_def)
  from valid_config_ports [OF demo_valid this] show ?thesis by (simp add: sni_host_def on_tcp_def on_udp_def)
qed

theorem valid_config_refs_witness:
  "list_ex (\<lambda>x. cca_Name x = ''corp'' \<and> \<not> cca_Disabled x) (c_ClientCAs demo_config)"
proof -
  have "named_host ''app'' [''App.example.com''] mtls_shape \<in> set (c_ProxyHosts demo_config)" by (simp add: demo_config_def)
  from valid_config_refs [OF demo_valid this _ refl] show ?thesis by (simp add: named_host_def mtls_shape_def)
qed

end
