(* ===== verification/Go_Url.thy ===== *)
theory Go_Url
  imports Basic_Auth Url_Path
begin

text \<open>
  What the gates use of Go's library around URLs and cookies: \<open>strings.Split\<close>, query parsing and
  escaping (\<open>net/url\<close>), the request URI, unpadded URL-safe base64 (\<open>encoding/base64\<close>) and the parsing of
  the \<open>Cookie\<close> header (\<open>net/http\<close>). The lemmas are the round trips the gates rely on.
\<close>

section \<open>Splitting\<close>

function split_str :: "string \<Rightarrow> string \<Rightarrow> string list" where
  "split_str sep [] = [[]]"
| "split_str sep (c # cs) =
     (if sep \<noteq> [] \<and> Sublist.prefix sep (c # cs) then [] # split_str sep (drop (length sep) (c # cs))
      else case split_str sep cs of [] \<Rightarrow> [[c]] | w # ws \<Rightarrow> (c # w) # ws)"
  by pat_completeness auto

termination split_str
  by (relation "measure (length \<circ> snd)") (auto simp: Suc_le_eq)

section \<open>Queries\<close>

fun query_unescape :: "string \<Rightarrow> string option" where
  "query_unescape [] = Some []"
| "query_unescape (c # s) =
     (if c = CHR ''%'' then
        (case s of
           a # b # r \<Rightarrow>
             (case (hex_digit a, hex_digit b) of
                (Some x, Some y) \<Rightarrow> map_option ((#) (char_of (16 * x + y))) (query_unescape r)
              | _ \<Rightarrow> None)
         | _ \<Rightarrow> None)
      else map_option ((#) (if c = CHR ''+'' then CHR '' '' else c)) (query_unescape s))"

definition query_pair :: "string \<Rightarrow> (string \<times> string) option" where
  "query_pair p =
     (if CHR '';'' \<in> set p \<or> p = [] then None
      else case (query_unescape (before (CHR ''='') p), query_unescape (after (CHR ''='') p)) of
        (Some k, Some v) \<Rightarrow> Some (k, v) | _ \<Rightarrow> None)"

definition ParseQuery :: "string \<Rightarrow> (string \<times> string) list" where
  "ParseQuery q = List.map_filter query_pair (split_on (CHR ''&'') q)"

definition query_vals :: "string \<Rightarrow> string \<Rightarrow> string list" where
  "query_vals q k = map snd (filter (\<lambda>(k', v). k' = k) (ParseQuery q))"

definition query_Get :: "string \<Rightarrow> string \<Rightarrow> string" where
  "query_Get q k = (case query_vals q k of [] \<Rightarrow> [] | v # _ \<Rightarrow> v)"

definition unreserved :: "char \<Rightarrow> bool" where
  "unreserved c \<longleftrightarrow>
     is_digit c \<or> (65 \<le> byte_of c \<and> byte_of c \<le> 90) \<or> (97 \<le> byte_of c \<and> byte_of c \<le> 122) \<or> c \<in> set ''-_.~''"

definition hex_upper :: "nat \<Rightarrow> char" where
  "hex_upper d = (if d < 10 then char_of (48 + d) else char_of (55 + d))"

definition pct :: "char \<Rightarrow> string" where
  "pct c = [CHR ''%'', hex_upper (byte_of c div 16), hex_upper (byte_of c mod 16)]"

definition QueryEscape :: "string \<Rightarrow> string" where
  "QueryEscape s = concat (map (\<lambda>c. if unreserved c then [c] else if c = CHR '' '' then ''+'' else pct c) s)"

text \<open>\<open>URL.RequestURI\<close> of a request whose \<open>RawPath\<close> is empty, which is how the router leaves it.\<close>

definition EscapedPath :: "string \<Rightarrow> string" where
  "EscapedPath p =
     (if p = ''*'' then p
      else concat (map (\<lambda>c. if unreserved c \<or> c \<in> set ''$&+,/:;=@'' then [c] else pct c) p))"

definition RequestURI :: "http_request \<Rightarrow> string" where
  "RequestURI r =
     (let p = EscapedPath (url_Path r) in
      (if p = [] then ''/'' else p) @ (if url_RawQuery r = [] then [] else ''?'' @ url_RawQuery r))"

section \<open>Unpadded URL-safe base64\<close>

definition b64url_val :: "char \<Rightarrow> nat option" where
  "b64url_val c =
     (let b = byte_of c in
      if 65 \<le> b \<and> b \<le> 90 then Some (b - 65)
      else if 97 \<le> b \<and> b \<le> 122 then Some (b - 71)
      else if 48 \<le> b \<and> b \<le> 57 then Some (b + 4)
      else if b = 45 then Some 62
      else if b = 95 then Some 63
      else None)"

definition b64url_char :: "nat \<Rightarrow> char" where
  "b64url_char v =
     (if v < 26 then char_of (v + 65) else if v < 52 then char_of (v + 71) else if v < 62 then char_of (v - 4)
      else if v = 62 then CHR ''-'' else CHR ''_'')"

fun b64url_encode :: "string \<Rightarrow> string" where
  "b64url_encode [] = []"
| "b64url_encode [a] = [b64url_char (byte_of a div 4), b64url_char (byte_of a mod 4 * 16)]"
| "b64url_encode [a, b] =
     [b64url_char (byte_of a div 4), b64url_char (byte_of a mod 4 * 16 + byte_of b div 16), b64url_char (byte_of b mod 16 * 4)]"
| "b64url_encode (a # b # c # r) =
     b64url_char (byte_of a div 4) # b64url_char (byte_of a mod 4 * 16 + byte_of b div 16) #
     b64url_char (byte_of b mod 16 * 4 + byte_of c div 64) # b64url_char (byte_of c mod 64) # b64url_encode r"

fun b64url_chars :: "string \<Rightarrow> string option" where
  "b64url_chars [] = Some []"
| "b64url_chars [a] = None"
| "b64url_chars [a, b] =
     (case (b64url_val a, b64url_val b) of (Some x, Some y) \<Rightarrow> Some (take 1 (b64_quad x y 0 0)) | _ \<Rightarrow> None)"
| "b64url_chars [a, b, c] =
     (case (b64url_val a, b64url_val b, b64url_val c) of
        (Some x, Some y, Some z) \<Rightarrow> Some (take 2 (b64_quad x y z 0)) | _ \<Rightarrow> None)"
| "b64url_chars (a # b # c # d # r) =
     (case (b64url_val a, b64url_val b, b64url_val c, b64url_val d) of
        (Some x, Some y, Some z, Some w) \<Rightarrow> map_option ((@) (b64_quad x y z w)) (b64url_chars r) | _ \<Rightarrow> None)"

text \<open>The decoder skips line breaks.\<close>

definition b64url_decode :: "string \<Rightarrow> string option" where
  "b64url_decode s = b64url_chars (filter (\<lambda>c. byte_of c \<noteq> 10 \<and> byte_of c \<noteq> 13) s)"

section \<open>Cookies\<close>

definition cookie_value_byte :: "char \<Rightarrow> bool" where
  "cookie_value_byte c \<longleftrightarrow> 32 \<le> byte_of c \<and> byte_of c < 127 \<and> byte_of c \<noteq> 34 \<and> c \<noteq> CHR '';'' \<and> byte_of c \<noteq> 92"

text \<open>A value may be quoted; the quotes are dropped.\<close>

definition cookie_value :: "string \<Rightarrow> string option" where
  "cookie_value v =
     (let v' = (if length v > 1 \<and> byte_of (hd v) = 34 \<and> byte_of (last v) = 34 then butlast (tl v) else v) in
      if list_all cookie_value_byte v' then Some v' else None)"

definition cookie_part :: "string \<Rightarrow> (string \<times> string) option" where
  "cookie_part p0 =
     (let p = TrimSpace p0; n = TrimSpace (before (CHR ''='') p) in
      if p = [] \<or> n = [] \<or> \<not> list_all token_byte n then None
      else map_option (Pair n) (cookie_value (after (CHR ''='') p)))"

definition req_Cookie :: "http_request \<Rightarrow> string \<Rightarrow> string option" where
  "req_Cookie r name =
     map_of (List.map_filter cookie_part (concat (map (split_on (CHR '';'')) (hdr_Values (Header r) ''Cookie'')))) name"

lemmas [go_eval] = query_pair_def ParseQuery_def query_vals_def query_Get_def unreserved_def hex_upper_def pct_def
  QueryEscape_def EscapedPath_def RequestURI_def b64url_val_def b64url_char_def b64url_decode_def b64_quad_def
  cookie_value_byte_def cookie_value_def cookie_part_def req_Cookie_def

section \<open>Round trips\<close>

lemma hex_digit_upper: "d < 16 \<Longrightarrow> hex_digit (hex_upper d) = Some d"
  by (auto simp: hex_digit_def hex_upper_def Let_def)

lemma query_unescape_pct: "query_unescape (pct c @ s) = map_option ((#) c) (query_unescape s)"
proof -
  have "byte_of c div 16 < 16" using byte_of_less [of c] by auto
  moreover have "char_of (16 * (byte_of c div 16) + byte_of c mod 16) = c"
    by (simp add: byte_of_def)
  ultimately show ?thesis by (simp add: pct_def hex_digit_upper)
qed

lemma unreserved_plain: "unreserved c \<Longrightarrow> c \<noteq> CHR ''%'' \<and> c \<noteq> CHR ''+'' \<and> c \<noteq> CHR ''&'' \<and> c \<noteq> CHR '';'' \<and> c \<noteq> CHR ''=''"
  by (auto simp: unreserved_def is_digit_def byte_of_def)

lemma query_unescape_escape: "query_unescape (QueryEscape s) = Some s"
proof (induction s)
  case (Cons c s)
  then show ?case
    using unreserved_plain [of c] query_unescape_pct [of c "QueryEscape s"] by (auto simp: QueryEscape_def)
qed (simp add: QueryEscape_def)

lemma byte_div16: "byte_of c div 16 < 16"
  using byte_of_less [of c] by (simp add: less_mult_imp_div_less)

lemma pct_chars: "c \<in> set (pct d) \<Longrightarrow> c = CHR ''%'' \<or> (\<exists>x < 16. c = hex_upper x)"
proof -
  assume "c \<in> set (pct d)"
  then have "c = CHR ''%'' \<or> c = hex_upper (byte_of d div 16) \<or> c = hex_upper (byte_of d mod 16)" by (simp add: pct_def)
  moreover have "byte_of d mod 16 < 16" by simp
  ultimately show ?thesis using byte_div16 [of d] by blast
qed

lemma hex_upper_safe: "x < 16 \<Longrightarrow> c = hex_upper x \<Longrightarrow> c \<noteq> CHR ''&'' \<and> c \<noteq> CHR '';'' \<and> c \<noteq> CHR ''=''"
  using hex_digit_upper [of x] by (auto simp: hex_digit_def byte_of_def Let_def)

lemma QueryEscape_safe: "c \<in> set (QueryEscape s) \<Longrightarrow> c \<noteq> CHR ''&'' \<and> c \<noteq> CHR '';'' \<and> c \<noteq> CHR ''=''"
proof (induction s)
  case (Cons d s)
  show ?case
  proof (cases "c \<in> set (QueryEscape s)")
    case False
    with Cons.prems have "unreserved d \<and> c = d \<or> c = CHR ''+'' \<or> c \<in> set (pct d)"
      by (auto simp: QueryEscape_def split: if_splits)
    then show ?thesis using unreserved_plain pct_chars hex_upper_safe by blast
  qed (rule Cons.IH)
qed (simp add: QueryEscape_def)

lemma byte_of_b64url_char:
  "v < 64 \<Longrightarrow> byte_of (b64url_char v) =
     (if v < 26 then v + 65 else if v < 52 then v + 71 else if v < 62 then v - 4 else if v = 62 then 45 else 95)"
  by (simp add: b64url_char_def) (simp add: byte_of_def)

lemma b64url_char_ok:
  assumes "v < 64"
  shows "b64url_val (b64url_char v) = Some v" "byte_of (b64url_char v) \<noteq> 10" "byte_of (b64url_char v) \<noteq> 13" "b64url_char v \<noteq> CHR ''.''"
proof -
  note b = byte_of_b64url_char [OF assms]
  show "byte_of (b64url_char v) \<noteq> 10" "byte_of (b64url_char v) \<noteq> 13" unfolding b by (simp_all, linarith+)
  have "byte_of (b64url_char v) \<noteq> byte_of (CHR ''.'')" unfolding b by (simp add: byte_of_def) linarith
  then show "b64url_char v \<noteq> CHR ''.''" by metis
  consider "v < 26" | "26 \<le> v" "v < 52" | "52 \<le> v" "v < 62" | "v = 62" | "v = 63" using assms by linarith
  then show "b64url_val (b64url_char v) = Some v"
    by cases (auto simp: b64url_val_def byte_of_b64url_char Let_def)
qed

lemma split_digits:
  fixes q r :: nat
  shows "r < 16 \<Longrightarrow> (q * 16 + r) div 16 = q" "r < 16 \<Longrightarrow> (q * 16 + r) mod 16 = r"
    "r < 4 \<Longrightarrow> (q * 4 + r) div 4 = q" "r < 4 \<Longrightarrow> (q * 4 + r) mod 4 = r"
  by simp_all

lemma byte_parts: "byte_of a div 4 < 64" "byte_of a mod 4 < 4" "byte_of a div 16 < 16" "byte_of a mod 16 < 16" "byte_of a div 64 < 4" "byte_of a mod 64 < 64"
  using byte_of_less [of a] by (simp_all add: less_mult_imp_div_less)

lemma b64_bytes:
  "byte_of a div 4 < 64" "byte_of a mod 4 * 16 + byte_of b div 16 < 64" "byte_of a mod 4 * 16 < 64"
  "byte_of b mod 16 * 4 + byte_of c div 64 < 64" "byte_of b mod 16 * 4 < 64" "byte_of c mod 64 < 64"
  using byte_parts [of a] byte_parts [of b] byte_parts [of c] by linarith+

lemma char_of_byte_of [simp]: "char_of (byte_of c) = c"
  by (simp add: byte_of_def)

lemma b64_quad_rejoin:
  "b64_quad (byte_of a div 4) (byte_of a mod 4 * 16 + byte_of b div 16) (byte_of b mod 16 * 4 + byte_of c div 64) (byte_of c mod 64) = [a, b, c]"
  "take 2 (b64_quad (byte_of a div 4) (byte_of a mod 4 * 16 + byte_of b div 16) (byte_of b mod 16 * 4) 0) = [a, b]"
  "take (Suc 0) (b64_quad (byte_of a div 4) (byte_of a mod 4 * 16) 0 0) = [a]"
  by (simp_all add: b64_quad_def split_digits byte_parts div_mult_mod_eq)

lemma b64url_chars_encode: "b64url_chars (b64url_encode s) = Some s"
  by (induction s rule: b64url_encode.induct) (simp_all add: b64url_char_ok b64_bytes b64_quad_rejoin)

lemma b64url_encode_chars: "c \<in> set (b64url_encode s) \<Longrightarrow> \<exists>v < 64. c = b64url_char v"
  by (induction s rule: b64url_encode.induct) (auto intro: b64_bytes)

lemma b64url_decode_encode [simp]: "b64url_decode (b64url_encode s) = Some s"
proof -
  have "filter (\<lambda>c. byte_of c \<noteq> 10 \<and> byte_of c \<noteq> 13) (b64url_encode s) = b64url_encode s"
    using b64url_encode_chars b64url_char_ok by (fastforce intro: filter_True)
  then show ?thesis by (simp add: b64url_decode_def b64url_chars_encode)
qed

lemma b64url_encode_no_dot: "CHR ''.'' \<notin> set (b64url_encode s)"
proof
  assume "CHR ''.'' \<in> set (b64url_encode s)"
  then obtain v where "v < 64" "CHR ''.'' = b64url_char v" using b64url_encode_chars by blast
  then show False using b64url_char_ok(4) [of v] by simp
qed

end
