(* ===== verification/Auth_Gates.thy ===== *)
theory Auth_Gates
  imports Object_Validate Go_Url
begin

text \<open>
  The gates of a proxied host that decide who gets through: the conditional deny rules of
  \<open>internal/dataplane/guard.go\<close>, role mapping (\<open>internal/auth/identity.go\<close>), the trusted forward-auth
  identity (\<open>internal/auth/forwardauth.go\<close>), revocation lists (\<open>crl.go\<close>), the client-certificate gate and
  the forward-auth gate (\<open>auth.go\<close>) and the auth-request gate (\<open>authrequest.go\<close>).

  The auth server is the argument \<open>server\<close> (the network); the parsing and the signature check of a
  certificate or a revocation list are arguments (\<open>crypto/x509\<close>). Log lines, metrics and the body of an error page
  are not modelled: a refusal is its status, the reason it is counted under (empty when it is not
  counted) and its challenge.
\<close>

text \<open>What a gate makes of a request: it hands it inwards (with the cookies it adds to the response), refuses
  it, redirects it, or proxies it to the auth server.\<close>

datatype outcome =
  Next http_request "string list"
  | Deny nat string "string option"
  | Found string "string list"
  | Outpost http_request

definition of_verdict :: "http_request \<Rightarrow> verdict \<Rightarrow> outcome" where
  "of_verdict r v = (case v of Pass \<Rightarrow> Next r [] | Refuse s why ch \<Rightarrow> Deny s why ch)"

definition forwards :: "outcome \<Rightarrow> bool" where
  "forwards out \<longleftrightarrow> (case out of Next _ _ \<Rightarrow> True | _ \<Rightarrow> False)"

section \<open>Guards\<close>

record guard_rule =
  gr_name :: string
  gr_paths :: "string list option"
  gr_methods :: "string list option"
  gr_queryEquals :: "(string \<times> string) list"

record guard =
  g_triggers :: "guard_rule list"
  g_allowNets :: "ipnet list"
  g_denyStatus :: nat
  g_hasQueryEquals :: bool

definition compileTrigger :: "guard_trigger \<Rightarrow> guard_rule" where
  "compileTrigger t =
     \<lparr>gr_name = gt_Name t,
      gr_paths = (if gt_Paths t = [] then None else Some (map cleanPath (gt_Paths t))),
      gr_methods = (if gt_Methods t = [] then None else Some (map ToUpper (gt_Methods t))),
      gr_queryEquals = gt_QueryEquals t\<rparr>"

definition compileGuard :: "guard_middleware \<Rightarrow> guard" where
  "compileGuard g =
     \<lparr>g_triggers = map compileTrigger (gm_Triggers g),
      g_allowNets = List.map_filter ParseNet (gm_AllowFrom g),
      g_denyStatus = (if gm_DenyStatus g = 0 then 403 else nat (gm_DenyStatus g)),
      g_hasQueryEquals = list_ex (\<lambda>t. gt_QueryEquals t \<noteq> []) (gm_Triggers g)\<rparr>"

definition query_matches :: "string \<Rightarrow> string \<times> string \<Rightarrow> bool" where
  "query_matches q kv = (case kv of (k, v) \<Rightarrow> length (query_vals q k) > 1 \<or> query_Get q k = v)"

definition guard_matches :: "guard_rule \<Rightarrow> http_request \<Rightarrow> bool" where
  "guard_matches t r \<longleftrightarrow>
     (case gr_paths t of None \<Rightarrow> True | Some ps \<Rightarrow> url_Path r \<in> set ps) \<and>
     (case gr_methods t of None \<Rightarrow> True | Some ms \<Rightarrow> Method r \<in> set ms) \<and>
     list_all (query_matches (url_RawQuery r)) (gr_queryEquals t)"

definition guardHandler :: "guard \<Rightarrow> (http_request \<Rightarrow> ip option) \<Rightarrow> http_request \<Rightarrow> outcome" where
  "guardHandler c ipOf r =
     (if g_hasQueryEquals c \<and> CHR '';'' \<in> set (url_RawQuery r) then Deny 400 [] None
      else if list_ex (\<lambda>t. guard_matches t r) (g_triggers c) \<and> \<not> InNets_opt (ipOf r) (g_allowNets c)
           then Deny (g_denyStatus c) ''guard'' None
      else Next r [])"

section \<open>Roles\<close>

definition MapRole :: "string list \<Rightarrow> role_mapping option \<Rightarrow> string" where
  "MapRole groups rm =
     (case rm of
        None \<Rightarrow> []
      | Some m \<Rightarrow>
          if list_ex (\<lambda>g. g \<in> set groups) (AdminGroups m) then ''admin''
          else if list_ex (\<lambda>g. g \<in> set groups) (UserGroups m) then ''user''
          else if DefaultRole m = ''admin'' then ''admin''
          else if DefaultRole m = ''user'' then ''user''
          else [])"

definition roleAllowed :: "string \<Rightarrow> string list \<Rightarrow> bool" where
  "roleAllowed role required \<longleftrightarrow> role \<noteq> [] \<and> (required = [] \<or> role \<in> set required)"

record identity =
  id_Subject :: string
  id_Email :: string
  id_Name :: string
  id_Groups :: "string list"
  AMR :: "string list"
  ACR :: string
  IdP :: string

definition MFASatisfied :: "identity \<Rightarrow> bool" where
  "MFASatisfied i \<longleftrightarrow>
     list_ex (\<lambda>m. m \<in> {''mfa'', ''otp'', ''hwk'', ''sms'', ''swk'', ''tel'', ''fpt'', ''face'', ''iris'', ''retina'', ''vbm'', ''pin''}) (AMR i) \<or>
     ACR i \<notin> {[], ''0'', ''urn:mace:incommon:iap:silver''}"

section \<open>Forward auth\<close>

record forward_auth =
  fa_idpName :: string
  fa_trusted :: "ipnet list"
  userH :: string
  emailH :: string
  nameH :: string
  groupsH :: string
  amrH :: string
  fa_delim :: string

text \<open>A bare address of the trusted list becomes its host network, as in \<^const>\<open>ParseNet\<close>.\<close>

definition CompileForwardAuth :: "forward_auth_spec \<Rightarrow> string \<Rightarrow> forward_auth" where
  "CompileForwardAuth spec idp =
     \<lparr>fa_idpName = idp,
      fa_trusted = List.map_filter ParseNet (fa_TrustedProxies spec),
      userH = UserHeader spec, emailH = EmailHeader spec, nameH = NameHeader spec,
      groupsH = GroupsHeader spec, amrH = AMRHeader spec,
      fa_delim = (if GroupsDelimiter spec = [] then '','' else GroupsDelimiter spec)\<rparr>"

definition connIP :: "http_request \<Rightarrow> ip option" where
  "connIP r = ParseIP (TrimSpace (case SplitHostPort (RemoteAddr r) of Some (h, _) \<Rightarrow> h | None \<Rightarrow> RemoteAddr r))"

definition ClientTrusted :: "forward_auth \<Rightarrow> http_request \<Rightarrow> bool" where
  "ClientTrusted f r \<longleftrightarrow>
     (case connIP r of None \<Rightarrow> False | Some a \<Rightarrow> list_ex (\<lambda>n. net_contains n a) (fa_trusted f))"

definition headerOr :: "http_request \<Rightarrow> string \<Rightarrow> string \<Rightarrow> string" where
  "headerOr r h dflt =
     (if h = [] then dflt else let v = TrimSpace (hdr_Get (Header r) h) in if v = [] then dflt else v)"

definition fa_amr :: "forward_auth \<Rightarrow> http_request \<Rightarrow> string list" where
  "fa_amr f r =
     (if amrH f = [] then []
      else filter (\<lambda>m. m \<noteq> []) (map TrimSpace (concat (map (split_on (CHR '' '')) (split_on (CHR '','') (TrimSpace (hdr_Get (Header r) (amrH f))))))))"

definition fa_groups :: "forward_auth \<Rightarrow> http_request \<Rightarrow> string list" where
  "fa_groups f r =
     (if groupsH f = [] then []
      else let raw = TrimSpace (hdr_Get (Header r) (groupsH f)) in
        if raw = [] then [] else filter (\<lambda>g. g \<noteq> []) (map TrimSpace (split_str (fa_delim f) raw)))"

definition Identity :: "forward_auth \<Rightarrow> http_request \<Rightarrow> identity option" where
  "Identity f r =
     (if \<not> ClientTrusted f r then None
      else let user = TrimSpace (hdr_Get (Header r) (userH f)) in
        if user = [] then None
        else Some \<lparr>id_Subject = user, id_Email = TrimSpace (hdr_Get (Header r) (emailH f)), id_Name = headerOr r (nameH f) user,
                   id_Groups = fa_groups f r, AMR = fa_amr f r, ACR = [], IdP = fa_idpName f\<rparr>)"

definition fa_Strip :: "forward_auth \<Rightarrow> http_request \<Rightarrow> http_request" where
  "fa_Strip f r = r\<lparr>Header := hdr_Del_all (Header r) (filter (\<lambda>h. h \<noteq> []) [userH f, emailH f, nameH f, groupsH f, amrH f])\<rparr>"

text \<open>A refused request is not handed inwards, so the headers \<^const>\<open>fa_Strip\<close> removes from it are seen by nobody.\<close>

definition forwardAuthGate :: "forward_auth \<Rightarrow> role_mapping option \<Rightarrow> string list \<Rightarrow> http_request \<Rightarrow> outcome" where
  "forwardAuthGate fa rm required r =
     (case Identity fa r of
        None \<Rightarrow> Deny 401 ''auth-forward'' None
      | Some i \<Rightarrow> if roleAllowed (MapRole (id_Groups i) rm) required then Next r [] else Deny 403 ''auth-forward'' None)"

section \<open>Revocation lists\<close>

text \<open>A list as \<open>x509.ParseRevocationList\<close> returns it, and the list the code keeps: the revoked serial numbers and
  the earliest \<open>nextUpdate\<close>.\<close>

record crl_list =
  rl_entries :: "nat list"
  rl_nextUpdate :: "int option"

record revocation_list =
  revoked :: "nat list"
  nextUpdate :: "int option"

record ca_anchor =
  an_name :: string
  an_issuers :: "byte list list"
  crlConfigured :: bool
  an_crlFile :: string
  an_failOpen :: bool
  an_crl :: "revocation_list option"
  an_modTime :: int

definition earlier :: "int option \<Rightarrow> int option \<Rightarrow> int option" where
  "earlier new old =
     (case (new, old) of (None, _) \<Rightarrow> old | (Some n, None) \<Rightarrow> Some n | (Some n, Some m) \<Rightarrow> if n < m then Some n else old)"

text \<open>\<open>ders\<close> are the lists of the file (PEM blocks, or the file itself); \<open>parse\<close> and \<open>sig_ok\<close> are \<open>crypto/x509\<close>.\<close>

fun parseCRL ::
  "('d \<Rightarrow> crl_list option) \<Rightarrow> ('d \<Rightarrow> byte list \<Rightarrow> bool) \<Rightarrow> byte list list \<Rightarrow> revocation_list \<Rightarrow> 'd list \<Rightarrow> revocation_list option" where
  "parseCRL parse sig_ok issuers out [] = Some out"
| "parseCRL parse sig_ok issuers out (d # ds) =
     (case parse d of
        None \<Rightarrow> None
      | Some l \<Rightarrow>
          if \<not> list_ex (sig_ok d) issuers then None
          else parseCRL parse sig_ok issuers
                 \<lparr>revoked = revoked out @ rl_entries l, nextUpdate = earlier (rl_nextUpdate l) (nextUpdate out)\<rparr> ds)"

definition crl_load ::
  "('d \<Rightarrow> crl_list option) \<Rightarrow> ('d \<Rightarrow> byte list \<Rightarrow> bool) \<Rightarrow> 'd list \<Rightarrow> ca_anchor \<Rightarrow> ca_anchor option" where
  "crl_load parse sig_ok ders a =
     map_option (\<lambda>l. a\<lparr>an_crl := Some l\<rparr>) (parseCRL parse sig_ok (an_issuers a) \<lparr>revoked = [], nextUpdate = None\<rparr> ders)"

text \<open>The CRL file on disk: its modification time and its lists, \<^const>\<open>None\<close> when it cannot be read.\<close>

definition reloadFile ::
  "('d \<Rightarrow> crl_list option) \<Rightarrow> ('d \<Rightarrow> byte list \<Rightarrow> bool) \<Rightarrow> (int \<times> 'd list) option \<Rightarrow> ca_anchor \<Rightarrow> ca_anchor option" where
  "reloadFile parse sig_ok file a =
     (case file of
        None \<Rightarrow> None
      | Some (mtime, ders) \<Rightarrow> map_option (\<lambda>a'. a'\<lparr>an_modTime := mtime\<rparr>) (crl_load parse sig_ok ders a))"

definition reloadIfChanged ::
  "('d \<Rightarrow> crl_list option) \<Rightarrow> ('d \<Rightarrow> byte list \<Rightarrow> bool) \<Rightarrow> (int \<times> 'd list) option \<Rightarrow> ca_anchor \<Rightarrow> ca_anchor" where
  "reloadIfChanged parse sig_ok file a =
     (if an_crlFile a = [] then a
      else case file of
        None \<Rightarrow> a
      | Some (mtime, _) \<Rightarrow>
          if mtime \<le> an_modTime a then a
          else case reloadFile parse sig_ok file a of None \<Rightarrow> a | Some a' \<Rightarrow> a')"

definition chain_serials :: "x509_cert list list \<Rightarrow> nat list" where
  "chain_serials vchains = concat (map (map cert_serial) vchains)"

text \<open>The handshake's verdict on a client certificate; \<open>parse_cert\<close> is \<open>x509.ParseCertificate\<close>.\<close>

definition verifyPeer :: "(byte list \<Rightarrow> x509_cert option) \<Rightarrow> int \<Rightarrow> ca_anchor \<Rightarrow> byte list list \<Rightarrow> x509_cert list list \<Rightarrow> bool" where
  "verifyPeer parse_cert now a rawCerts vchains =
     (if rawCerts = [] then True
      else case an_crl a of
        None \<Rightarrow> an_failOpen a
      | Some snap \<Rightarrow>
          if (case nextUpdate snap of None \<Rightarrow> False | Some t \<Rightarrow> now > t) then an_failOpen a
          else if list_ex (\<lambda>s. s \<in> set (revoked snap)) (chain_serials vchains) then False
          else if vchains = [] then
            (case parse_cert (hd rawCerts) of None \<Rightarrow> False | Some c \<Rightarrow> cert_serial c \<notin> set (revoked snap))
          else True)"

definition verifyResumed :: "(byte list \<Rightarrow> x509_cert option) \<Rightarrow> int \<Rightarrow> ca_anchor \<Rightarrow> bool \<Rightarrow> tls_state \<Rightarrow> bool" where
  "verifyResumed parse_cert now a didResume cs =
     (if \<not> didResume \<or> PeerCertificates cs = [] then True
      else verifyPeer parse_cert now a (map cert_raw (PeerCertificates cs))
             (if VerifiedChains cs = [] then [PeerCertificates cs] else VerifiedChains cs))"

definition chainRevoked :: "ca_anchor \<Rightarrow> x509_cert list list \<Rightarrow> bool" where
  "chainRevoked a vchains =
     (case an_crl a of None \<Rightarrow> False | Some snap \<Rightarrow> list_ex (\<lambda>s. s \<in> set (revoked snap)) (chain_serials vchains))"

definition revokedNow :: "ca_anchor list \<Rightarrow> x509_cert list list \<Rightarrow> bool" where
  "revokedNow anchors vchains =
     (case vchains of
        (leaf # _) # _ \<Rightarrow> list_ex (\<lambda>a. RawIssuer leaf \<in> set (an_issuers a) \<and> chainRevoked a vchains) anchors
      | _ \<Rightarrow> False)"

section \<open>Client certificates\<close>

definition own_names :: "string list \<Rightarrow> string list" where
  "own_names domains = filter (\<lambda>k. k \<noteq> []) (map hostKey domains)"

definition cert_role :: "(string \<times> string) list \<Rightarrow> x509_cert \<Rightarrow> string option" where
  "cert_role roles c = (case map_of roles (cert_subject c) of Some ro \<Rightarrow> Some ro | None \<Rightarrow> map_of roles (cert_CommonName c))"

definition clientCertGate ::
  "ca_anchor list \<Rightarrow> auth_middleware \<Rightarrow> (http_request \<Rightarrow> ip option) option \<Rightarrow> ipnet list \<Rightarrow> string list \<Rightarrow> http_request \<Rightarrow> outcome" where
  "clientCertGate anchors spec clientIP allowNets domains r =
     (if net_exempt clientIP allowNets r then Next r []
      else case TLS r of
        None \<Rightarrow> Deny 401 ''auth-client-cert'' None
      | Some t \<Rightarrow>
          if VerifiedChains t = [] \<or> PeerCertificates t = [] then Deny 401 ''auth-client-cert'' None
          else if own_names domains \<noteq> [] \<and> hostKey (ServerName t) \<notin> set (own_names domains) then Deny 401 ''auth-client-cert'' None
          else if revokedNow anchors (VerifiedChains t) then Deny 401 ''auth-client-cert'' None
          else if ClientCertRoles spec = [] then Next r []
          else case cert_role (ClientCertRoles spec) (hd (PeerCertificates t)) of
            None \<Rightarrow> Deny 403 ''auth-client-cert'' None
          | Some ro \<Rightarrow> if roleAllowed ro (RequiredRoles spec) then Next r [] else Deny 403 ''auth-client-cert'' None)"

definition allowFromNets :: "string list \<Rightarrow> ipnet list" where
  "allowFromNets cidrs = List.map_filter ParseNet cidrs"

section \<open>Auth requests\<close>

definition defaultOutpostPrefix :: string where
  "defaultOutpostPrefix = ''/outpost.goauthentik.io''"

definition defaultAuthRequestHeaders :: "string list" where
  "defaultAuthRequestHeaders = [''X-authentik-username'', ''X-authentik-groups'', ''X-authentik-entitlements'',
     ''X-authentik-email'', ''X-authentik-name'', ''X-authentik-uid'']"

record auth_request_proxy =
  authURL :: string
  arp_prefix :: string
  copyHeaders :: "string list"

definition compileAuthRequest :: "url_parse \<Rightarrow> auth_request_spec \<Rightarrow> auth_request_proxy option" where
  "compileAuthRequest url_parse spec =
     (if url_parse (OutpostURL spec) = None then None
      else
        (let pre = (if ar_PathPrefix spec = [] then defaultOutpostPrefix else ar_PathPrefix spec);
             path = (if AuthPath spec = [] then pre @ ''/auth/nginx'' else AuthPath spec) in
         Some \<lparr>authURL = trim_right (\<lambda>c. c = CHR ''/'') (OutpostURL spec) @ path,
               arp_prefix = pre,
               copyHeaders = (if CopyHeaders spec = [] then defaultAuthRequestHeaders else CopyHeaders spec)\<rparr>))"

definition requestScheme :: "http_request \<Rightarrow> string" where
  "requestScheme r = (if TLS r = None then ''http'' else ''https'')"

definition absoluteURL :: "http_request \<Rightarrow> string" where
  "absoluteURL r = requestScheme r @ ''://'' @ Host r @ RequestURI r"

record subrequest =
  sub_url :: string
  sub_Host :: string
  sub_Header :: http_header

record auth_response =
  rsp_status :: nat
  rsp_Header :: http_header

definition authenticate :: "auth_request_proxy \<Rightarrow> http_request \<Rightarrow> subrequest" where
  "authenticate p r =
     (let h0 = (if hdr_Get (Header r) ''Cookie'' = [] then Map.empty else hdr_Set Map.empty ''Cookie'' (hdr_Get (Header r) ''Cookie''));
          h1 = hdr_Set h0 ''X-Original-URL'' (absoluteURL r);
          h2 = hdr_Set h1 ''X-Forwarded-Proto'' (requestScheme r);
          h3 = hdr_Set h2 ''X-Forwarded-Host'' (Host r);
          h4 = hdr_Set h3 ''X-Forwarded-Uri'' (RequestURI r) in
      \<lparr>sub_url = authURL p, sub_Host = Host r,
       sub_Header = (case requestClientIP r of None \<Rightarrow> h4 | Some a \<Rightarrow> hdr_Set h4 ''X-Forwarded-For'' (ip_string a))\<rparr>)"

definition copy_headers :: "string list \<Rightarrow> http_header \<Rightarrow> http_header \<Rightarrow> http_header" where
  "copy_headers ks src h = fold (\<lambda>k h. fold (\<lambda>v h. hdr_Add h k v) (hdr_Values src k) h) ks h"

definition authRequestHandler ::
  "auth_request_proxy \<Rightarrow> (subrequest \<Rightarrow> auth_response option) \<Rightarrow> (http_request \<Rightarrow> ip option) \<Rightarrow> ipnet list \<Rightarrow> http_request \<Rightarrow> outcome" where
  "authRequestHandler p server clientIP allowNets r0 =
     (let r = r0\<lparr>Header := hdr_Del_all (Header r0) (copyHeaders p)\<rparr> in
      if url_Path r = arp_prefix p \<or> Sublist.prefix (arp_prefix p @ ''/'') (url_Path r) then Outpost r
      else if net_exempt (Some clientIP) allowNets r then Next r []
      else case server (authenticate p r) of
        None \<Rightarrow> Deny 502 [] None
      | Some rsp \<Rightarrow>
          if 200 \<le> rsp_status rsp \<and> rsp_status rsp < 300 then
            Next (r\<lparr>Header := copy_headers (copyHeaders p) (rsp_Header rsp) (Header r)\<rparr>) (hdr_Values (rsp_Header rsp) ''Set-Cookie'')
          else if rsp_status rsp = 401 then
            Found (arp_prefix p @ ''/start?rd='' @ QueryEscape (absoluteURL r)) (hdr_Values (rsp_Header rsp) ''Set-Cookie'')
          else if rsp_status rsp = 403 then Deny 403 ''auth-request'' None
          else Deny 502 [] None)"

lemmas [go_eval] = of_verdict_def forwards_def compileTrigger_def compileGuard_def query_matches_def guard_matches_def
  guardHandler_def MapRole_def roleAllowed_def MFASatisfied_def CompileForwardAuth_def connIP_def ClientTrusted_def
  headerOr_def fa_amr_def fa_groups_def Identity_def fa_Strip_def forwardAuthGate_def earlier_def crl_load_def
  reloadFile_def reloadIfChanged_def chain_serials_def verifyPeer_def verifyResumed_def chainRevoked_def revokedNow_def
  own_names_def cert_role_def clientCertGate_def allowFromNets_def defaultOutpostPrefix_def defaultAuthRequestHeaders_def
  compileAuthRequest_def requestScheme_def absoluteURL_def authenticate_def copy_headers_def authRequestHandler_def

section \<open>Guards cannot be dodged\<close>

lemma query_matches_present:
  assumes "(k, v) \<in> set (ParseQuery q)"
  shows "query_matches q (k, v)"
proof -
  have "v \<in> set (query_vals q k)" using assms by (force simp: query_vals_def)
  then show ?thesis by (cases "query_vals q k") (auto simp: query_matches_def query_Get_def)
qed

lemma guard_matches_trigger:
  assumes "gt_Paths t \<noteq> [] \<Longrightarrow> url_Path r \<in> cleanPath ` set (gt_Paths t)"
    and "gt_Methods t \<noteq> [] \<Longrightarrow> Method r \<in> ToUpper ` set (gt_Methods t)"
    and "set (gt_QueryEquals t) \<subseteq> set (ParseQuery (url_RawQuery r))"
  shows "guard_matches (compileTrigger t) r"
proof -
  have "list_all (query_matches (url_RawQuery r)) (gt_QueryEquals t)"
    using assms(3) query_matches_present by (fastforce simp: list_all_iff)
  with assms(1,2) show ?thesis by (auto simp: guard_matches_def compileTrigger_def)
qed

text \<open>A guard cannot be dodged by how a request is spelled. If the path a client sent cleans to the cleaned path of a
  trigger, the method is one of its methods and every parameter it names occurs with the trigger's value somewhere in the
  query (repeated, or in any position), then the guard refuses the request, unless the client's address is in the guard's
  networks.\<close>

theorem guard_not_dodged:
  assumes "normalizeRequestPath r = Some r'" "t \<in> set (gm_Triggers g)"
    and "gt_Paths t = [] \<or> cleanPath (url_Path r) \<in> cleanPath ` set (gt_Paths t)"
    and "gt_Methods t = [] \<or> Method r \<in> ToUpper ` set (gt_Methods t)"
    and "set (gt_QueryEquals t) \<subseteq> set (ParseQuery (url_RawQuery r))"
    and "\<not> InNets_opt (ipOf r') (List.map_filter ParseNet (gm_AllowFrom g))"
  shows "\<not> forwards (guardHandler (compileGuard g) ipOf r')"
proof -
  have r': "url_Path r' = cleanPath (url_Path r)" "Method r' = Method r" "url_RawQuery r' = url_RawQuery r"
    using assms(1) by (auto simp: normalizeRequestPath_def Let_def split: if_splits)
  have "guard_matches (compileTrigger t) r'" using assms(3-5) by (intro guard_matches_trigger) (auto simp: r')
  with assms(2,6) show ?thesis by (auto simp: guardHandler_def compileGuard_def forwards_def list_ex_iff)
qed

section \<open>Revocation\<close>

lemma parseCRL_SomeD:
  "parseCRL parse sig_ok iss out ds = Some rl \<Longrightarrow>
     set (revoked rl) = set (revoked out) \<union> (\<Union>d \<in> set ds. set (rl_entries (the (parse d)))) \<and>
     (\<forall>d \<in> set ds. list_ex (sig_ok d) iss)"
proof (induction ds arbitrary: out)
  case (Cons d ds)
  then obtain l where l: "parse d = Some l" "list_ex (sig_ok d) iss" by (auto split: option.splits if_splits)
  with Cons.prems Cons.IH show ?case by fastforce
qed simp

lemma parseCRL_total:
  "list_all (\<lambda>d. parse d \<noteq> None \<and> list_ex (sig_ok d) iss) ds \<Longrightarrow> \<exists>rl. parseCRL parse sig_ok iss out ds = Some rl"
  by (induction ds arbitrary: out) auto

text \<open>A file that cannot be read, does not parse, or is not signed by the CA leaves the last good list in force.\<close>

lemma reloadIfChanged_keeps:
  assumes "fl = None \<or> (\<exists>d \<in> set (snd (the fl)). parse d = None \<or> \<not> list_ex (sig_ok d) (an_issuers a))"
  shows "reloadIfChanged parse sig_ok fl a = a"
proof -
  have "parseCRL parse sig_ok iss out ds = None" if "\<exists>d \<in> set ds. parse d = None \<or> \<not> list_ex (sig_ok d) iss" for iss out ds
    using that by (induction ds arbitrary: out) (auto split: option.splits)
  with assms have "reloadFile parse sig_ok fl a = None"
    by (cases fl) (auto simp: reloadFile_def crl_load_def, blast+)
  then show ?thesis by (auto simp: reloadIfChanged_def split: option.splits)
qed

lemma reloadIfChanged_lists:
  assumes "an_crlFile a \<noteq> []" "an_modTime a < mtime"
    and "list_all (\<lambda>d. parse d \<noteq> None \<and> list_ex (sig_ok d) (an_issuers a)) ds"
  shows "\<exists>rl. an_crl (reloadIfChanged parse sig_ok (Some (mtime, ds)) a) = Some rl \<and>
    set (revoked rl) = (\<Union>d \<in> set ds. set (rl_entries (the (parse d)))) \<and>
    an_issuers (reloadIfChanged parse sig_ok (Some (mtime, ds)) a) = an_issuers a"
proof -
  obtain rl where "parseCRL parse sig_ok (an_issuers a) \<lparr>revoked = [], nextUpdate = None\<rparr> ds = Some rl"
    using parseCRL_total [OF assms(3)] by blast
  with assms(1,2) parseCRL_SomeD [OF this] show ?thesis
    by (auto simp: reloadIfChanged_def reloadFile_def crl_load_def)
qed

lemma revokedNowI:
  assumes "a \<in> set anchors" "an_crl a = Some rl" "RawIssuer leaf \<in> set (an_issuers a)"
    and "vchains = (leaf # ch) # cs" "ch' \<in> set vchains" "c \<in> set ch'" "cert_serial c \<in> set (revoked rl)"
  shows "revokedNow anchors vchains"
proof -
  have "cert_serial c \<in> set (chain_serials vchains)" using assms(5,6) by (auto simp: chain_serials_def)
  then have "chainRevoked a vchains" using assms(2,7) by (auto simp: chainRevoked_def list_ex_iff)
  with assms(1,3,4) show ?thesis by (auto simp: revokedNow_def list_ex_iff)
qed

text \<open>A revocation takes effect at the next request. Once the watch has seen a changed CRL file whose lists parse and
  are signed by the CA, the client-certificate gate refuses every request of a connection whose verified chain holds a
  certificate on those lists, unless the client's network is exempt; the connection need not be closed.\<close>

theorem revocation_effective:
  assumes "an_crlFile a \<noteq> []" "an_modTime a < mtime"
    and "list_all (\<lambda>d. parse d \<noteq> None \<and> list_ex (sig_ok d) (an_issuers a)) ds"
    and "d \<in> set ds" "parse d = Some l" "cert_serial c \<in> set (rl_entries l)"
    and "reloadIfChanged parse sig_ok (Some (mtime, ds)) a \<in> set anchors"
    and "TLS r = Some t" "VerifiedChains t = (leaf # ch) # cs" "RawIssuer leaf \<in> set (an_issuers a)"
    and "ch' \<in> set (VerifiedChains t)" "c \<in> set ch'"
    and "\<not> net_exempt clientIP allowNets r"
  shows "\<not> forwards (clientCertGate anchors spec clientIP allowNets domains r)"
proof -
  obtain rl where rl: "an_crl (reloadIfChanged parse sig_ok (Some (mtime, ds)) a) = Some rl"
    "set (revoked rl) = (\<Union>d \<in> set ds. set (rl_entries (the (parse d))))"
    "an_issuers (reloadIfChanged parse sig_ok (Some (mtime, ds)) a) = an_issuers a"
    using reloadIfChanged_lists [OF assms(1-3)] by blast
  have "cert_serial c \<in> set (revoked rl)" using rl(2) assms(4-6) by force
  then have "revokedNow anchors (VerifiedChains t)"
    using revokedNowI [OF assms(7) rl(1) _ assms(9,11,12)] rl(3) assms(10) by simp
  with assms(8,13) show ?thesis by (auto simp: clientCertGate_def forwards_def)
qed

section \<open>Identity from the auth server\<close>

lemma fold_hdr_Add:
  "fold (\<lambda>v h. hdr_Add h k v) vs h x =
     (if vs \<noteq> [] \<and> x = CanonicalMIMEHeaderKey k then Some (hdr_Values h k @ vs) else h x)"
proof (induction vs arbitrary: h)
  case (Cons v vs)
  have "hdr_Values (hdr_Add h k v) k = hdr_Values h k @ [v]" by (simp add: hdr_Add_def hdr_Values_def)
  then show ?case using Cons [of "hdr_Add h k v"] by (simp add: hdr_Add_def)
qed simp

lemma copy_headers_apply:
  assumes "distinct (map CanonicalMIMEHeaderKey ks)"
  shows "hdr_Values (copy_headers ks src h) n =
    hdr_Values h n @ (if CanonicalMIMEHeaderKey n \<in> CanonicalMIMEHeaderKey ` set ks then hdr_Values src n else [])"
  using assms unfolding copy_headers_def
proof (induction ks arbitrary: h)
  case (Cons k ks)
  have step: "hdr_Values (fold (\<lambda>v h. hdr_Add h k v) (hdr_Values src k) h) n =
    hdr_Values h n @ (if CanonicalMIMEHeaderKey n = CanonicalMIMEHeaderKey k then hdr_Values src n else [])"
    by (auto simp: fold_hdr_Add hdr_Values_def split: option.splits)
  show ?case
  proof (cases "CanonicalMIMEHeaderKey n = CanonicalMIMEHeaderKey k")
    case True
    with Cons.prems have "CanonicalMIMEHeaderKey n \<notin> CanonicalMIMEHeaderKey ` set ks" by auto
    with Cons True step show ?thesis by simp
  qed (use Cons step in simp)
qed simp

text \<open>The identity headers of an auth-request gate come from the auth server alone. When the gate hands a request
  inwards, each header it copies carries exactly the values of a 2xx answer of the server to the subrequest for this
  request, or no value when the client's network is exempt; whatever the client itself sent under these names is gone, and
  every other header is as it was.\<close>

theorem auth_request_identity:
  assumes "authRequestHandler p server clientIP allowNets r = Next r' ck"
    and "distinct (map CanonicalMIMEHeaderKey (copyHeaders p))"
  shows "\<exists>answer. (net_exempt (Some clientIP) allowNets (r\<lparr>Header := hdr_Del_all (Header r) (copyHeaders p)\<rparr>) \<and> answer = Map.empty \<or>
      (\<exists>rsp. server (authenticate p (r\<lparr>Header := hdr_Del_all (Header r) (copyHeaders p)\<rparr>)) = Some rsp \<and>
         200 \<le> rsp_status rsp \<and> rsp_status rsp < 300 \<and> answer = rsp_Header rsp)) \<and>
    (\<forall>n. hdr_Values (Header r') n =
       (if CanonicalMIMEHeaderKey n \<in> CanonicalMIMEHeaderKey ` set (copyHeaders p) then hdr_Values answer n else hdr_Values (Header r) n))"
proof -
  let ?r = "r\<lparr>Header := hdr_Del_all (Header r) (copyHeaders p)\<rparr>"
  have del: "hdr_Values (hdr_Del_all (Header r) (copyHeaders p)) n =
    (if CanonicalMIMEHeaderKey n \<in> CanonicalMIMEHeaderKey ` set (copyHeaders p) then [] else hdr_Values (Header r) n)" for n
    by (simp add: hdr_Values_def hdr_Del_all_apply)
  consider "net_exempt (Some clientIP) allowNets ?r" "r' = ?r"
    | rsp where "server (authenticate p ?r) = Some rsp" "200 \<le> rsp_status rsp" "rsp_status rsp < 300"
        "r' = ?r\<lparr>Header := copy_headers (copyHeaders p) (rsp_Header rsp) (Header ?r)\<rparr>"
    using assms(1) by (auto simp: authRequestHandler_def Let_def split: if_splits option.splits)
  then show ?thesis
  proof cases
    case 1
    then show ?thesis by (intro exI [of _ Map.empty]) (simp add: del, simp add: hdr_Values_def)
  next
    case 2
    then show ?thesis by (intro exI [of _ "rsp_Header rsp"]) (simp add: copy_headers_apply [OF assms(2)] del)
  qed
qed

section \<open>Concrete gates\<close>

definition login_guard :: guard_middleware where
  "login_guard = \<lparr>gm_Triggers = [\<lparr>gt_Name = [], gt_Paths = [''/login''], gt_Methods = [''post''], gt_QueryEquals = [(''direct'', ''1'')]\<rparr>],
     gm_AllowFrom = [''10.0.0.0/8''], gm_DenyStatus = 0\<rparr>"

definition login_request :: http_request where
  "login_request = sample_request\<lparr>Method := ''POST'', url_Path := ''/x/../login'', url_RawQuery := ''direct=0&direct=1''\<rparr>"

theorem guard_not_dodged_witness:
  "\<not> forwards (guardHandler (compileGuard login_guard) (\<lambda>_. None) (login_request\<lparr>url_Path := ''/login''\<rparr>))"
proof (rule guard_not_dodged)
  have c: "cleanPath ''/x/../login'' = ''/login''" "cleanPath ''/login'' = ''/login''" "ToUpper ''post'' = ''POST''"
    "ParseQuery ''direct=0&direct=1'' = [(''direct'', ''0''), (''direct'', ''1'')]" by code_simp+
  show "normalizeRequestPath login_request = Some (login_request\<lparr>url_Path := ''/login''\<rparr>)"
    by (simp add: normalizeRequestPath_def login_request_def c contains_any_def)
  show "hd (gm_Triggers login_guard) \<in> set (gm_Triggers login_guard)" by (simp add: login_guard_def)
  show "gt_Paths (hd (gm_Triggers login_guard)) = [] \<or> cleanPath (url_Path login_request) \<in> cleanPath ` set (gt_Paths (hd (gm_Triggers login_guard)))"
    by (simp add: login_guard_def login_request_def c)
  show "gt_Methods (hd (gm_Triggers login_guard)) = [] \<or> Method login_request \<in> ToUpper ` set (gt_Methods (hd (gm_Triggers login_guard)))"
    by (simp add: login_guard_def login_request_def c)
  show "set (gt_QueryEquals (hd (gm_Triggers login_guard))) \<subseteq> set (ParseQuery (url_RawQuery login_request))"
    by (simp add: login_guard_def login_request_def c)
  have "\<not> InNets_opt None (List.map_filter ParseNet [''10.0.0.0/8''])" by code_simp
  then show "\<not> InNets_opt None (List.map_filter ParseNet (gm_AllowFrom login_guard))" by (simp add: login_guard_def)
qed

definition demo_cert :: x509_cert where
  "demo_cert = \<lparr>cert_subject = ''CN=ops'', cert_CommonName = ''ops'', cert_DNSNames = [''ops.lan''], cert_EmailAddresses = [], cert_IPAddresses = [], cert_URIs = [], cert_serial = 7, cert_raw = [1], RawIssuer = [9]\<rparr>"

definition demo_anchor :: ca_anchor where
  "demo_anchor = \<lparr>an_name = ''ca'', an_issuers = [[9]], crlConfigured = True, an_crlFile = ''ca.crl'', an_failOpen = False, an_crl = None, an_modTime = 0\<rparr>"

definition mtls_request :: http_request where
  "mtls_request = sample_request\<lparr>TLS := Some \<lparr>ServerName = ''app.example.com'', VerifiedChains = [[demo_cert]], PeerCertificates = [demo_cert]\<rparr>\<rparr>"

definition demo_client_cert :: auth_middleware where
  "demo_client_cert = \<lparr>am_IdentityProvider = [], am_Mode = ''client-cert'', RequiredRoles = [], am_AllowFrom = [], ClientCertRoles = [], am_Basic = None\<rparr>"

theorem revocation_effective_witness:
  "\<not> forwards (clientCertGate
      [reloadIfChanged (\<lambda>d. Some \<lparr>rl_entries = [d], rl_nextUpdate = None\<rparr>) (\<lambda>d i. i = [9]) (Some (5, [7])) demo_anchor]
      demo_client_cert None [] [''app.example.com''] mtls_request)"
  by (rule revocation_effective [where d = 7 and c = demo_cert and leaf = demo_cert and ch = "[]" and cs = "[]" and ch' = "[demo_cert]" and mtime = 5
      and l = "\<lparr>rl_entries = [7], rl_nextUpdate = None\<rparr>" and a = demo_anchor and ds = "[7]"
      and t = "\<lparr>ServerName = ''app.example.com'', VerifiedChains = [[demo_cert]], PeerCertificates = [demo_cert]\<rparr>"])
    (simp_all add: demo_anchor_def demo_cert_def mtls_request_def net_exempt_def)

definition demo_outpost :: auth_request_proxy where
  "demo_outpost = \<lparr>authURL = ''http://o/auth'', arp_prefix = ''/outpost'', copyHeaders = [''X-User'']\<rparr>"

definition demo_server :: "subrequest \<Rightarrow> auth_response option" where
  "demo_server s = Some \<lparr>rsp_status = 200, rsp_Header = [''X-User'' \<mapsto> [''alice'']]\<rparr>"

theorem auth_request_identity_witness:
  "\<exists>r' ck. authRequestHandler demo_outpost demo_server (\<lambda>_. None) [] (sample_request\<lparr>Header := [''X-User'' \<mapsto> [''root'']]\<rparr>) = Next r' ck \<and>
     hdr_Values (Header r') ''X-User'' = [''alice'']"
proof -
  let ?r = "sample_request\<lparr>Header := [''X-User'' \<mapsto> [''root'']]\<rparr>"
  have path: "url_Path sample_request = ''/''" by (simp add: sample_request_def)
  have canon: "CanonicalMIMEHeaderKey ''X-User'' = ''X-User''" by code_simp
  obtain r' ck where n: "authRequestHandler demo_outpost demo_server (\<lambda>_. None) [] ?r = Next r' ck"
    by (auto simp: authRequestHandler_def demo_outpost_def demo_server_def net_exempt_def path Let_def)
  have "hdr_Values (Header r') ''X-User'' = [''alice'']"
    using auth_request_identity [OF n]
    by (simp add: demo_outpost_def demo_server_def net_exempt_def canon) (simp add: hdr_Values_def canon)
  with n show ?thesis by blast
qed

end
