(* ===== verification/Lru.thy ===== *)
theory Lru
  imports Go_Prelude
begin

text \<open>
  The bounded least-recently-used map that the rate limiter (\<open>ratelimit.go\<close>) and the verdict cache
  (\<open>bouncer.go\<close>) build from a Go map and a \<open>container/list\<close>: one association list, the least recently used entry
  first. Storing a key moves it to the back; a new key evicts the front entry when the map is full.
\<close>

definition lru_put :: "nat \<Rightarrow> 'k \<Rightarrow> 'v \<Rightarrow> ('k \<times> 'v) list \<Rightarrow> ('k \<times> 'v) list" where
  "lru_put n key v xs =
     filter (\<lambda>(k, _). k \<noteq> key) (if key \<notin> fst ` set xs \<and> length xs \<ge> n then tl xs else xs) @ [(key, v)]"

definition lru_del :: "'k \<Rightarrow> ('k \<times> 'v) list \<Rightarrow> ('k \<times> 'v) list" where
  "lru_del key xs = filter (\<lambda>(k, _). k \<noteq> key) xs"

definition lru_ok :: "nat \<Rightarrow> ('k \<times> 'v) list \<Rightarrow> bool" where
  "lru_ok n xs \<longleftrightarrow> distinct (map fst xs) \<and> length xs \<le> n"

lemma in_tl: "x \<in> set (tl xs) \<Longrightarrow> x \<in> set xs"
  by (cases xs) auto

lemma distinct_filter_keys: "distinct (map fst xs) \<Longrightarrow> distinct (map fst (filter P xs))"
  by (induction xs) auto

lemma lru_put_members: "e \<in> set (lru_put n key v xs) \<Longrightarrow> e = (key, v) \<or> e \<in> set xs \<and> fst e \<noteq> key"
  by (auto simp: lru_put_def split: if_splits dest: in_tl)

lemma lru_del_members: "e \<in> set (lru_del key xs) \<Longrightarrow> e \<in> set xs \<and> fst e \<noteq> key"
  by (auto simp: lru_del_def)

lemma lru_ok_del: "lru_ok n xs \<Longrightarrow> lru_ok n (lru_del key xs)"
  using order_trans [OF length_filter_le [of "\<lambda>(k, _). k \<noteq> key" xs]] by (simp add: lru_ok_def lru_del_def distinct_filter_keys)

lemma lru_ok_put:
  assumes "lru_ok n xs" "0 < n"
  shows "lru_ok n (lru_put n key v xs)"
proof -
  let ?ys = "filter (\<lambda>(k, _). k \<noteq> key) (if key \<notin> fst ` set xs \<and> length xs \<ge> n then tl xs else xs)"
  have "distinct (map fst ?ys)" using assms(1) by (auto simp: lru_ok_def map_tl distinct_tl intro!: distinct_filter_keys)
  moreover have "key \<notin> fst ` set ?ys" by auto
  moreover have "length ?ys < n"
  proof (cases "key \<in> fst ` set xs")
    case True
    then obtain b where "(key, b) \<in> set xs" by auto
    then have "length ?ys < length xs" using True by (auto intro!: length_filter_less)
    with assms(1) show ?thesis by (simp add: lru_ok_def)
  next
    case False
    then have "length ?ys \<le> (if length xs \<ge> n then length xs - 1 else length xs)"
      using length_filter_le [of "\<lambda>(k, _). k \<noteq> key" "tl xs"] by auto
    moreover have "(if length xs \<ge> n then length xs - 1 else length xs) < n" using assms by (auto simp: lru_ok_def)
    ultimately show ?thesis by linarith
  qed
  ultimately show ?thesis by (auto simp: lru_ok_def lru_put_def)
qed

lemma map_of_moved: "map_of (filter (\<lambda>(k, _). k \<noteq> key) xs @ [(key, v)]) k = (if k = key then Some v else map_of xs k)"
  by (induction xs) auto

text \<open>While there is room, storing a key changes no other entry.\<close>

lemma lru_put_room:
  assumes "key \<in> fst ` set xs \<or> length xs < n"
  shows "map_of (lru_put n key v xs) k = (if k = key then Some v else map_of xs k)"
    "fst ` set (lru_put n key v xs) = insert key (fst ` set xs)"
proof -
  have put: "lru_put n key v xs = filter (\<lambda>(k, _). k \<noteq> key) xs @ [(key, v)]" using assms by (auto simp: lru_put_def)
  then show "map_of (lru_put n key v xs) k = (if k = key then Some v else map_of xs k)" using map_of_moved [of key xs v k] by simp
  show "fst ` set (lru_put n key v xs) = insert key (fst ` set xs)" unfolding put by force
qed

lemmas [go_eval] = lru_put_def lru_del_def

end
