(* ===== verification/Rate_Limit.thy ===== *)
theory Rate_Limit
  imports Auth_Gates Lru
begin

text \<open>
  The per-client rate limit of a host (\<open>internal/dataplane/ratelimit.go\<close>, with
  \<open>RateAndDefaultBurst\<close> of \<open>internal/model/middleware.go\<close>): token buckets in an LRU of bounded size, and blocks with
  backoff.

  Time is in nanoseconds. Go's \<open>float64\<close> is a rational here, so rounding is not modelled; a block too long for
  \<open>time.Duration\<close> is capped in both. The zero \<open>time.Time\<close> of a bucket never blocked is \<^const>\<open>None\<close>. The map and the
  list of the LRU are one association list, the least recently used bucket first.
\<close>

definition maxRateLimitBuckets :: nat where "maxRateLimitBuckets = 16384"

definition nilIPRateLimitKey :: string where "nilIPRateLimitKey = CHR 0x00 # ''nil''"

definition seconds :: "int \<Rightarrow> rat" where
  "seconds d = rat_of_int d / 1000000000"

definition RateAndDefaultBurst :: "rate_limit \<Rightarrow> rat \<times> int" where
  "RateAndDefaultBurst r =
     (if usesWindow r then
        (case ParseDuration (Window r) of
           None \<Rightarrow> (0, 1)
         | Some d \<Rightarrow> if d \<le> 0 then (0, 1) else (Requests r / seconds d, max 1 \<lceil>Requests r\<rceil>))
      else (RequestsPerSecond r, max 1 \<lceil>RequestsPerSecond r\<rceil>))"

record token_bucket =
  tokens :: rat
  tb_last :: int
  blockedUntil :: "int option"
  lastBlock :: int
  strikes :: nat

record rate_limiter =
  capacity :: rat
  refill :: rat
  lim_blockFor :: int
  lim_backoff :: rat
  lim_blockMax :: int
  buckets :: "(string \<times> token_bucket) list"

definition DefaultBlockMax :: int where "DefaultBlockMax = 86400000000000"

definition newRateLimiter :: "rate_limit \<Rightarrow> rate_limiter" where
  "newRateLimiter r =
     (let (rate, defaultBurst) = RateAndDefaultBurst r;
          burst = max 1 (if Burst r \<le> 0 then defaultBurst else Burst r);
          blockFor = (if BlockFor r = [] then 0 else case ParseDuration (BlockFor r) of None \<Rightarrow> 0 | Some d \<Rightarrow> if d > 0 then d else 0);
          backing = (blockFor > 0 \<and> BlockBackoff r > 1)
      in \<lparr>capacity = rat_of_int burst, refill = rate, lim_blockFor = blockFor,
          lim_backoff = (if backing then BlockBackoff r else 0),
          lim_blockMax = (if \<not> backing then blockFor
             else if BlockMax r = [] then DefaultBlockMax
             else case ParseDuration (BlockMax r) of None \<Rightarrow> DefaultBlockMax | Some d \<Rightarrow> if d \<ge> blockFor then d else DefaultBlockMax),
          buckets = []\<rparr>)"

definition nextBlock :: "rate_limiter \<Rightarrow> token_bucket \<Rightarrow> int \<Rightarrow> int \<times> token_bucket" where
  "nextBlock l b now =
     (if lim_backoff l \<le> 1 then (lim_blockFor l, b)
      else
        (let b' = (if strikes b > 0 \<and> (case blockedUntil b of None \<Rightarrow> True | Some u \<Rightarrow> u + lastBlock b \<le> now) then b\<lparr>strikes := 0\<rparr> else b);
             d = \<lfloor>rat_of_int (lim_blockFor l) * lim_backoff l ^ strikes b'\<rfloor>
         in (if d \<le> 0 \<or> d > lim_blockMax l then lim_blockMax l else d, b')))"

definition bucket_blocked :: "rate_limiter \<Rightarrow> token_bucket \<Rightarrow> int \<Rightarrow> bool" where
  "bucket_blocked l b now \<longleftrightarrow> lim_blockFor l > 0 \<and> (case blockedUntil b of None \<Rightarrow> False | Some u \<Rightarrow> now < u)"

definition refilled :: "rate_limiter \<Rightarrow> token_bucket \<Rightarrow> int \<Rightarrow> token_bucket" where
  "refilled l b now =
     (if now > tb_last b then b\<lparr>tokens := min (capacity l) (tokens b + seconds (now - tb_last b) * refill l), tb_last := now\<rparr> else b)"

text \<open>Taking a token from an unblocked bucket: whether the request may proceed, the seconds to wait, and the bucket.\<close>

definition take_token :: "rate_limiter \<Rightarrow> token_bucket \<Rightarrow> int \<Rightarrow> bool \<times> int \<times> token_bucket" where
  "take_token l b now =
     (if tokens b \<ge> 1 then (True, 0, b\<lparr>tokens := tokens b - 1\<rparr>)
      else if lim_blockFor l > 0 then
        (case nextBlock l b now of (d, b') \<Rightarrow>
           (False, \<lceil>seconds d\<rceil>, b'\<lparr>blockedUntil := Some (now + d), lastBlock := d, strikes := strikes b' + 1\<rparr>))
      else (False, \<lceil>(1 - tokens b) / refill l\<rceil>, b))"

definition new_bucket :: "rate_limiter \<Rightarrow> int \<Rightarrow> token_bucket" where
  "new_bucket l now = \<lparr>tokens = capacity l, tb_last = now, blockedUntil = None, lastBlock = 0, strikes = 0\<rparr>"

definition allow :: "int \<Rightarrow> string \<Rightarrow> rate_limiter \<Rightarrow> bool \<times> int \<times> rate_limiter" where
  "allow now key l =
     (case map_of (buckets l) key of
        Some b \<Rightarrow>
          if bucket_blocked l b now
          then (False, \<lceil>seconds (the (blockedUntil b) - now)\<rceil>, l\<lparr>buckets := lru_put maxRateLimitBuckets key b (buckets l)\<rparr>)
          else (case take_token l (refilled l b now) now of
                  (ok, retry, b') \<Rightarrow> (ok, retry, l\<lparr>buckets := lru_put maxRateLimitBuckets key b' (buckets l)\<rparr>))
      | None \<Rightarrow>
          (case take_token l (new_bucket l now) now of
             (ok, retry, b') \<Rightarrow> (ok, retry, l\<lparr>buckets := lru_put maxRateLimitBuckets key b' (buckets l)\<rparr>)))"

text \<open>The networks exempt from the limit; \<open>listNets\<close> gives the networks an access list allows.\<close>

definition rate_exempt_nets :: "(string \<Rightarrow> ipnet list) \<Rightarrow> rate_limit \<Rightarrow> ipnet list" where
  "rate_exempt_nets listNets r =
     concat (map (\<lambda>c. case AccessListRef c of
        Some n \<Rightarrow> listNets n
      | None \<Rightarrow> (case ParseNet c of None \<Rightarrow> [] | Some n \<Rightarrow> [n])) (rl_AllowFrom r))"

text \<open>The handler. A refusal carries the value of its \<open>Retry-After\<close> header.\<close>

definition rateLimitHandler ::
  "(string \<Rightarrow> ipnet list) \<Rightarrow> rate_limit \<Rightarrow> (http_request \<Rightarrow> ip option) \<Rightarrow> int \<Rightarrow> http_request \<Rightarrow> rate_limiter \<Rightarrow> outcome \<times> rate_limiter" where
  "rateLimitHandler listNets rl ipOf now r l =
     (if InNets_opt (ipOf r) (rate_exempt_nets listNets rl) then (Next r [], l)
      else let key = (case ipOf r of None \<Rightarrow> nilIPRateLimitKey | Some a \<Rightarrow> ipBucketKey (Some a)) in
        case allow now key l of
          (True, _, l') \<Rightarrow> (Next r [], l')
        | (False, retry, l') \<Rightarrow> (Deny 429 ''rate-limit'' (Some (itoa (nat (max 1 retry)))), l'))"

section \<open>The bound\<close>

text \<open>The tokens a key could draw at a time.\<close>

definition level :: "rate_limiter \<Rightarrow> string \<Rightarrow> int \<Rightarrow> rat" where
  "level l k t =
     (case map_of (buckets l) k of
        None \<Rightarrow> capacity l
      | Some b \<Rightarrow> min (capacity l) (tokens b + seconds (t - tb_last b) * refill l))"

definition limiter_ok :: "int \<Rightarrow> rate_limiter \<Rightarrow> bool" where
  "limiter_ok now l \<longleftrightarrow> capacity l \<ge> 1 \<and> refill l \<ge> 0 \<and> lru_ok maxRateLimitBuckets (buckets l) \<and>
     (\<forall>(k, b) \<in> set (buckets l). 0 \<le> tokens b \<and> tokens b \<le> capacity l \<and> tb_last b \<le> now)"

lemma seconds_mono: "s \<le> t \<Longrightarrow> seconds s \<le> seconds t"
  by (simp add: seconds_def divide_right_mono)

lemma seconds_nonneg: "0 \<le> s \<Longrightarrow> 0 \<le> seconds s"
  by (simp add: seconds_def)

lemma seconds_diff: "seconds (t - r) = seconds (t - s) + seconds (s - r)"
  by (simp add: seconds_def add_divide_distrib [symmetric])

lemma tokens_nextBlock: "tokens (snd (nextBlock l b now)) = tokens b" "tb_last (snd (nextBlock l b now)) = tb_last b"
  by (simp_all add: nextBlock_def Let_def)

lemma take_token_cases:
  assumes "take_token l b now = (ok, retry, b')"
  shows "tb_last b' = tb_last b" "tokens b' = (if ok then tokens b - 1 else tokens b)" "ok \<longleftrightarrow> tokens b \<ge> 1"
  using assms tokens_nextBlock [of l b now] by (auto simp: take_token_def split: if_splits prod.splits)

lemma refilled_props:
  assumes "0 \<le> tokens b" "tokens b \<le> capacity l" "tb_last b \<le> now" "refill l \<ge> 0"
  shows "tokens (refilled l b now) = min (capacity l) (tokens b + seconds (now - tb_last b) * refill l)"
    "tb_last (refilled l b now) = now" "0 \<le> tokens (refilled l b now)" "tokens (refilled l b now) \<le> capacity l"
proof -
  have "0 \<le> seconds (now - tb_last b) * refill l" using assms by (simp add: seconds_nonneg)
  then show "tokens (refilled l b now) = min (capacity l) (tokens b + seconds (now - tb_last b) * refill l)"
    "tb_last (refilled l b now) = now" "0 \<le> tokens (refilled l b now)" "tokens (refilled l b now) \<le> capacity l"
    using assms by (auto simp: refilled_def seconds_def)
qed

text \<open>The bucket of a key after a request, wherever it was found.\<close>

lemma allow_bucket:
  assumes "limiter_ok t0 l" "t0 \<le> now" "allow now key l = (ok, retry, l')"
  obtains b' where "l' = l\<lparr>buckets := lru_put maxRateLimitBuckets key b' (buckets l)\<rparr>"
    "tb_last b' \<le> now" "0 \<le> tokens b'" "tokens b' \<le> capacity l"
    "min (capacity l) (tokens b' + seconds (now - tb_last b') * refill l) = level l key now - (if ok then 1 else 0)"
proof (cases "map_of (buckets l) key")
  case None
  with assms(3) obtain b' where b': "take_token l (new_bucket l now) now = (ok, retry, b')"
    "l' = l\<lparr>buckets := lru_put maxRateLimitBuckets key b' (buckets l)\<rparr>"
    by (auto simp: allow_def split: prod.splits)
  have "ok \<longleftrightarrow> capacity l \<ge> 1" "tb_last b' = now" "tokens b' = (if ok then capacity l - 1 else capacity l)"
    using take_token_cases [OF b'(1)] by (simp_all add: new_bucket_def)
  then show ?thesis using that [OF b'(2)] None assms(1) by (simp add: level_def limiter_ok_def seconds_def)
next
  case (Some b)
  have b: "0 \<le> tokens b" "tokens b \<le> capacity l" "tb_last b \<le> now" "refill l \<ge> 0"
    using assms(1,2) map_of_SomeD [OF Some] by (auto simp: limiter_ok_def)
  show ?thesis
  proof (cases "bucket_blocked l b now")
    case True
    with assms(3) Some have "\<not> ok" "l' = l\<lparr>buckets := lru_put maxRateLimitBuckets key b (buckets l)\<rparr>"
      by (auto simp: allow_def)
    with that [OF this(2)] b Some show ?thesis by (simp add: level_def)
  next
    case False
    with assms(3) Some obtain b' where b': "take_token l (refilled l b now) now = (ok, retry, b')"
      "l' = l\<lparr>buckets := lru_put maxRateLimitBuckets key b' (buckets l)\<rparr>"
      by (auto simp: allow_def split: prod.splits)
    note c = take_token_cases [OF b'(1)] and p = refilled_props [OF b]
    have "tokens b' = level l key now - (if ok then 1 else 0)" using c(2) p(1) Some by (simp add: level_def)
    moreover have "tokens b' \<le> capacity l" "0 \<le> tokens b'" using c p by auto
    ultimately show ?thesis using that [OF b'(2)] c p by (simp add: seconds_def)
  qed
qed

lemma allow_ok:
  assumes "limiter_ok t0 l" "t0 \<le> now" "allow now key l = (ok, retry, l')"
  shows "limiter_ok now l'"
proof -
  obtain b' where l': "l' = l\<lparr>buckets := lru_put maxRateLimitBuckets key b' (buckets l)\<rparr>"
    and b': "tb_last b' \<le> now" "0 \<le> tokens b'" "tokens b' \<le> capacity l"
    using allow_bucket [OF assms] by metis
  have "0 < maxRateLimitBuckets" by (simp add: maxRateLimitBuckets_def)
  then show ?thesis
    using assms(1,2) b' by (fastforce simp: limiter_ok_def l' intro: lru_ok_put dest: lru_put_members)
qed

text \<open>A request of a key changes only its own level, by the token it takes.\<close>

lemma allow_level:
  assumes "limiter_ok t0 l" "t0 \<le> now" "allow now key l = (ok, retry, l')"
    and "key \<in> fst ` set (buckets l) \<or> length (buckets l) < maxRateLimitBuckets"
  shows "level l' k t = (if k = key then level l' key t else level l k t)"
    "level l' key now = level l key now - (if ok then 1 else 0)"
    "fst ` set (buckets l') = insert key (fst ` set (buckets l))" "capacity l' = capacity l" "refill l' = refill l"
proof -
  obtain b' where l': "l' = l\<lparr>buckets := lru_put maxRateLimitBuckets key b' (buckets l)\<rparr>"
    and lev: "min (capacity l) (tokens b' + seconds (now - tb_last b') * refill l) = level l key now - (if ok then 1 else 0)"
    using allow_bucket [OF assms(1-3)] by metis
  note put = lru_put_room [OF assms(4), of b', unfolded l' [symmetric]]
  have mo: "map_of (buckets l') k = (if k = key then Some b' else map_of (buckets l) k)" for k by (simp add: l' put)
  show cr: "capacity l' = capacity l" "refill l' = refill l" by (simp_all add: l')
  show "level l' k t = (if k = key then level l' key t else level l k t)"
    by (cases "map_of (buckets l) k") (simp_all add: level_def mo cr)
  show "level l' key now = level l key now - (if ok then 1 else 0)" using lev by (simp add: level_def mo cr)
  show "fst ` set (buckets l') = insert key (fst ` set (buckets l))" by (simp add: l' put)
qed

lemma level_grows:
  assumes "limiter_ok t0 l" "s \<le> t"
  shows "level l k t \<le> level l k s + seconds (t - s) * refill l"
proof (cases "map_of (buckets l) k")
  case None
  then show ?thesis using assms by (simp add: level_def limiter_ok_def seconds_nonneg)
next
  case (Some b)
  have "seconds (t - tb_last b) = seconds (t - s) + seconds (s - tb_last b)" by (rule seconds_diff)
  moreover have "0 \<le> seconds (t - s) * refill l" using assms by (simp add: limiter_ok_def seconds_nonneg)
  ultimately show ?thesis using Some by (auto simp: level_def distrib_right min_def)
qed

lemma level_bounds:
  assumes "limiter_ok t0 l" "t0 \<le> t"
  shows "0 \<le> level l k t" "level l k t \<le> capacity l"
proof -
  have "0 \<le> tokens b + seconds (t - tb_last b) * refill l" if "map_of (buckets l) k = Some b" for b
    using assms map_of_SomeD [OF that] by (force simp: limiter_ok_def intro!: add_nonneg_nonneg mult_nonneg_nonneg seconds_nonneg)
  then show "0 \<le> level l k t" using assms(1) by (auto simp: level_def limiter_ok_def split: option.splits)
  show "level l k t \<le> capacity l" by (auto simp: level_def split: option.splits)
qed

text \<open>Serving a sequence of requests, each a time and a key: how many of a key's requests were let through.\<close>

fun admitted :: "string \<Rightarrow> (int \<times> string) list \<Rightarrow> rate_limiter \<Rightarrow> nat" where
  "admitted k [] l = 0"
| "admitted k ((now, key) # es) l =
     (case allow now key l of (ok, _, l') \<Rightarrow> (if ok \<and> key = k then 1 else 0) + admitted k es l')"

lemma admitted_le:
  assumes "limiter_ok t0 l" "sorted (t0 # map fst es @ [t1])"
    and "card (fst ` set (buckets l) \<union> snd ` set es) \<le> maxRateLimitBuckets"
  shows "rat_of_nat (admitted k es l) \<le> level l k t0 + seconds (t1 - t0) * refill l"
  using assms
proof (induction es arbitrary: l t0)
  case Nil
  then show ?case using level_grows [of t0 l t0 t1 k] level_bounds [of t0 l t1 k] by auto
next
  case (Cons e es)
  obtain now key where e: "e = (now, key)" by (cases e)
  obtain ok retry l' where a: "allow now key l = (ok, retry, l')" by (cases "allow now key l")
  have times: "t0 \<le> now" "now \<le> t1" "sorted (now # map fst es @ [t1])" using Cons.prems(2) by (auto simp: e)
  have fin: "finite (fst ` set (buckets l) \<union> snd ` set (e # es))" by simp
  have room: "key \<in> fst ` set (buckets l) \<or> length (buckets l) < maxRateLimitBuckets"
  proof (rule ccontr)
    assume no: "\<not> ?thesis"
    have "card (fst ` set (buckets l)) = length (buckets l)"
      using Cons.prems(1) distinct_card [of "map fst (buckets l)"] by (simp add: limiter_ok_def lru_ok_def)
    moreover have "card (insert key (fst ` set (buckets l))) \<le> card (fst ` set (buckets l) \<union> snd ` set (e # es))"
      by (rule card_mono [OF fin]) (auto simp: e)
    ultimately show False using no Cons.prems(3) by simp
  qed
  note lev = allow_level [OF Cons.prems(1) times(1) a room]
  have "card (fst ` set (buckets l') \<union> snd ` set es) \<le> maxRateLimitBuckets"
    using Cons.prems(3) by (simp add: lev(3) e)
  with Cons.IH [OF allow_ok [OF Cons.prems(1) times(1) a] times(3)]
  have "rat_of_nat (admitted k es l') \<le> level l' k now + seconds (t1 - now) * refill l" by (simp add: lev(5))
  moreover have "level l' k now = level l k now - (if ok \<and> key = k then 1 else 0)" using lev(1) [of k now] lev(2) by auto
  moreover have "level l k now \<le> level l k t0 + seconds (now - t0) * refill l" by (rule level_grows [OF Cons.prems(1) times(1)])
  moreover have "seconds (t1 - t0) * refill l = seconds (t1 - now) * refill l + seconds (now - t0) * refill l"
    using seconds_diff [of t1 t0 now] by (simp add: distrib_right)
  ultimately show ?case by (auto simp: e a)
qed

lemma newRateLimiter_ok:
  assumes "validate_rate_limit r = None"
  shows "limiter_ok t (newRateLimiter r)"
proof -
  have "fst (RateAndDefaultBurst r) \<ge> 0"
    using assms by (auto simp: validate_rate_limit_def RateAndDefaultBurst_def seconds_def split: option.splits)
  then show ?thesis
    by (cases "RateAndDefaultBurst r") (auto simp: newRateLimiter_def limiter_ok_def lru_ok_def Let_def)
qed

lemma newRateLimiter_buckets: "buckets (newRateLimiter r) = []"
  by (simp add: newRateLimiter_def Let_def split: prod.split)

text \<open>C27: The rate limit limits. From a fresh limiter of a valid configuration, over any sequence of requests in time order
  with at most as many different clients as the limiter tracks, the number of requests of a client that are let through up
  to a time is at most the burst plus the refill rate times the time since the first, whatever the other clients do and
  whether or not blocks are configured.\<close>

theorem rate_limit_bound:
  assumes "validate_rate_limit r = None" "sorted (t0 # map fst es @ [t1])" "card (snd ` set es) \<le> maxRateLimitBuckets"
  shows "rat_of_nat (admitted k es (newRateLimiter r))
    \<le> capacity (newRateLimiter r) + seconds (t1 - t0) * refill (newRateLimiter r)"
  using admitted_le [OF newRateLimiter_ok [OF assms(1)] assms(2)] assms(3)
  by (simp add: newRateLimiter_buckets level_def)

definition demo_rate :: rate_limit where
  "demo_rate = \<lparr>RequestsPerSecond = 2, Requests = 0, Window = [], Burst = 3, rl_AllowFrom = [], BlockFor = [], BlockBackoff = 0, BlockMax = []\<rparr>"

theorem rate_limit_bound_witness:
  "rat_of_nat (admitted ''a'' [(0, ''a''), (0, ''b''), (500000000, ''a'')] (newRateLimiter demo_rate)) \<le> 3 + seconds 1000000000 * 2"
proof -
  have "validate_rate_limit demo_rate = None" by (simp add: validate_rate_limit_def demo_rate_def usesWindow_def)
  moreover have "capacity (newRateLimiter demo_rate) = 3" "refill (newRateLimiter demo_rate) = 2"
    by (simp_all add: newRateLimiter_def RateAndDefaultBurst_def demo_rate_def usesWindow_def Let_def)
  moreover have "card (snd ` set [(0::int, ''a''), (0, ''b''), (500000000, ''a'')]) \<le> maxRateLimitBuckets"
    by (rule order_trans [OF card_image_le]) (auto simp: maxRateLimitBuckets_def card_insert_if)
  ultimately show ?thesis
    using rate_limit_bound [of demo_rate 0 "[(0, ''a''), (0, ''b''), (500000000, ''a'')]" 1000000000 "''a''"] by simp
qed

end
