(* ===== verification/Bouncer.thy ===== *)
theory Bouncer
  imports Auth_Gates Lru
begin

text \<open>
  The bouncer middleware (\<open>internal/dataplane/bouncer.go\<close>): the verdict cache, the decision set of stream mode,
  live verdicts of a CrowdSec LAPI or of a generic HTTP hook, and the handler with its on-error policy.

  The bouncer's answers are arguments (the network): a reply is a status and a body, \<^const>\<open>None\<close> an error of the
  call, and a body is what is read of it within its size bound; \<open>encoding/json\<close> is the argument \<open>decode\<close>. The refresh that stream mode runs in the background is the separate
  operation \<open>stream_refresh\<close>, and the concurrency of several callers of the start-up pull is not modelled. Time is in
  nanoseconds.
\<close>

section \<open>Decisions\<close>

record decision =
  dc_Type :: string
  dc_Scope :: string
  dc_Value :: string
  dc_Scenario :: string

definition isDeny :: "decision \<Rightarrow> bool" where
  "isDeny d \<longleftrightarrow> ToLower (dc_Type d) = ''ban'' \<or> ToLower (dc_Type d) = ''captcha''"

definition scenarioLabel :: "string \<Rightarrow> string" where
  "scenarioLabel s0 =
     (let s = take 64 (ToLower (TrimSpace s0)) in
      if list_ex (\<lambda>c. byte_of c < 33 \<or> byte_of c > 126 \<or> c = CHR ''|'') s then [] else s)"

section \<open>The verdict cache\<close>

record verdict_entry =
  ve_deny :: bool
  ve_scenario :: string
  ve_expires :: int

type_synonym verdict_cache = "(string \<times> verdict_entry) list"

definition cache_get :: "int \<Rightarrow> string \<Rightarrow> verdict_cache \<Rightarrow> (bool \<times> string) option \<times> verdict_cache" where
  "cache_get now key c =
     (case map_of c key of
        None \<Rightarrow> (None, c)
      | Some e \<Rightarrow>
          if \<not> now < ve_expires e then (None, lru_del key c)
          else (Some (ve_deny e, ve_scenario e), lru_del key c @ [(key, e)]))"

definition cache_put :: "nat \<Rightarrow> int \<Rightarrow> string \<Rightarrow> bool \<Rightarrow> string \<Rightarrow> int \<Rightarrow> verdict_cache \<Rightarrow> verdict_cache" where
  "cache_put n now key deny scenario ttl c =
     (if ttl \<le> 0 then c else lru_put n key \<lparr>ve_deny = deny, ve_scenario = scenario, ve_expires = now + ttl\<rparr> c)"

section \<open>Stream mode\<close>

record stream_state =
  ss_ips :: "string list"
  ss_scen :: "(string \<times> string) list"
  ss_nets :: "ipnet list"
  ss_ready :: bool
  ss_next :: int

definition newStreamState :: stream_state where
  "newStreamState = \<lparr>ss_ips = [], ss_scen = [], ss_nets = [], ss_ready = False, ss_next = 0\<rparr>"

definition byte_ones :: "byte \<Rightarrow> nat" where
  "byte_ones b = (if b = 254 then 7 else if b = 252 then 6 else if b = 248 then 5 else if b = 240 then 4
     else if b = 224 then 3 else if b = 192 then 2 else if b = 128 then 1 else 0)"

fun mask_ones :: "byte list \<Rightarrow> nat" where
  "mask_ones [] = 0"
| "mask_ones (b # bs) = (if b = 255 then 8 + mask_ones bs else byte_ones b)"

text \<open>\<open>IPNet.String\<close> for the masks \<^const>\<open>ParseNet\<close> builds.\<close>

definition net_string :: "ipnet \<Rightarrow> string" where
  "net_string n =
     (case networkNumberAndMask n of None \<Rightarrow> ''<nil>'' | Some (a, m) \<Rightarrow> ip_string a @ ''/'' @ itoa (mask_ones m))"

definition removeNet :: "string \<Rightarrow> ipnet list \<Rightarrow> ipnet list" where
  "removeNet v nets =
     (case ParseNet v of None \<Rightarrow> nets | Some n \<Rightarrow> filter (\<lambda>x. net_string x \<noteq> net_string n) nets)"

definition stream_lookup :: "stream_state \<Rightarrow> ip \<Rightarrow> bool \<times> string" where
  "stream_lookup s a =
     (let key = ip_string a; scen = (\<lambda>k. case map_of (ss_scen s) k of None \<Rightarrow> [] | Some x \<Rightarrow> x) in
      if key \<in> set (ss_ips s) then (True, scen key)
      else case find (\<lambda>n. net_contains n a) (ss_nets s) of
        Some n \<Rightarrow> (True, scen (net_string n)) | None \<Rightarrow> (False, []))"

definition apply_deleted :: "decision \<Rightarrow> stream_state \<Rightarrow> stream_state" where
  "apply_deleted d s =
     (let v = TrimSpace (dc_Value d) in
      if v = [] then s
      else s\<lparr>ss_ips := filter (\<lambda>x. x \<noteq> v) (ss_ips s),
             ss_scen := (let sc = AList.delete v (ss_scen s) in
               case ParseNet v of None \<Rightarrow> sc | Some n \<Rightarrow> AList.delete (net_string n) sc),
             ss_nets := removeNet v (ss_nets s)\<rparr>)"

definition apply_new :: "decision \<Rightarrow> stream_state \<Rightarrow> stream_state" where
  "apply_new d s =
     (let v = TrimSpace (dc_Value d); scen = scenarioLabel (dc_Scenario d);
          label = (\<lambda>k sc. if scen = [] then sc else AList.update k scen sc) in
      if \<not> isDeny d \<or> v = [] then s
      else if ToLower (dc_Scope d) = ''range'' \<or> CHR ''/'' \<in> set v then
        (case ParseNet v of
           None \<Rightarrow> s
         | Some n \<Rightarrow> s\<lparr>ss_nets := removeNet v (ss_nets s) @ [n], ss_scen := label (net_string n) (ss_scen s)\<rparr>)
      else s\<lparr>ss_ips := (if v \<in> set (ss_ips s) then ss_ips s else v # ss_ips s), ss_scen := label v (ss_scen s)\<rparr>)"

definition stream_apply :: "int \<Rightarrow> int \<Rightarrow> decision list \<Rightarrow> decision list \<Rightarrow> bool \<Rightarrow> stream_state \<Rightarrow> stream_state" where
  "stream_apply now ttl new deleted startup s =
     (let s0 = (if startup then s\<lparr>ss_ips := [], ss_nets := [], ss_scen := []\<rparr> else s);
          s1 = fold apply_deleted deleted s0;
          s2 = fold apply_new new s1
      in s2\<lparr>ss_ready := True, ss_next := now + ttl\<rparr>)"

section \<open>Verdicts\<close>

record bouncer =
  bn_name :: string
  bn_provider :: string
  bn_baseURL :: string
  bn_apiKey :: "string option"
  bn_timeout :: int
  bn_ttl :: int
  bn_failOpen :: bool
  bn_denyStatus :: nat
  bn_denyWith :: string
  bn_cacheMax :: nat
  bn_stream :: bool
  bn_allowNets :: "ipnet list"

definition TimeoutOrDefault :: "bouncer_middleware \<Rightarrow> int" where
  "TimeoutOrDefault b = durationOr (bo_Timeout b) 2000000000"

definition CacheTTLOrDefault :: "bouncer_middleware \<Rightarrow> int" where
  "CacheTTLOrDefault b = durationOr (bo_CacheTTL b) 60000000000"

definition CacheMaxEntriesOrDefault :: "bouncer_middleware \<Rightarrow> nat" where
  "CacheMaxEntriesOrDefault b = (if bo_CacheMaxEntries b \<le> 0 then 10000 else nat (bo_CacheMaxEntries b))"

definition DenyStatusOrDefault :: "bouncer_middleware \<Rightarrow> nat" where
  "DenyStatusOrDefault b = (if bo_DenyStatus b = 0 then 403 else nat (bo_DenyStatus b))"

text \<open>\<open>resolve\<close> resolves a secret; an API key that cannot be resolved is \<^const>\<open>None\<close>.\<close>

definition compileBouncer :: "(string \<Rightarrow> string option) \<Rightarrow> string \<Rightarrow> bouncer_middleware \<Rightarrow> bouncer" where
  "compileBouncer resolve name spec =
     \<lparr>bn_name = name, bn_provider = ProviderOrDefault spec, bn_baseURL = trim_right (\<lambda>c. c = CHR ''/'') (bo_URL spec),
      bn_apiKey = (if secret_IsEmpty (bo_APIKey spec) then Some [] else resolve (bo_APIKey spec)),
      bn_timeout = TimeoutOrDefault spec, bn_ttl = CacheTTLOrDefault spec, bn_failOpen = FailOpen spec,
      bn_denyStatus = DenyStatusOrDefault spec, bn_denyWith = bo_DenyWith spec,
      bn_cacheMax = CacheMaxEntriesOrDefault spec,
      bn_stream = (bo_Stream spec \<and> ProviderOrDefault spec = ''crowdsec''),
      bn_allowNets = List.map_filter ParseNet (bo_AllowFrom spec)\<rparr>"

definition MaxBouncerErrorCacheTTL :: int where "MaxBouncerErrorCacheTTL = 5000000000"

definition errCacheTTL :: "bouncer \<Rightarrow> int" where
  "errCacheTTL b = (if bn_ttl b < MaxBouncerErrorCacheTTL then bn_ttl b else MaxBouncerErrorCacheTTL)"

text \<open>The answers of the outside world at one request: a live lookup of an address, the generic hook, and the stream
  endpoint.\<close>

record bouncer_world =
  bw_now :: int
  bw_decode :: "string \<Rightarrow> decision list option"
  bw_decodeStream :: "string \<Rightarrow> (decision list \<times> decision list) option"
  bw_lapi :: "string \<Rightarrow> (nat \<times> string) option"
  bw_hook :: "string \<Rightarrow> http_request \<Rightarrow> nat option"
  bw_pull :: "bool \<Rightarrow> (nat \<times> string) option"

definition crowdsecVerdict :: "bouncer_world \<Rightarrow> ip \<Rightarrow> (bool \<times> string) option" where
  "crowdsecVerdict w a =
     (case bw_lapi w (ip_string a) of
        None \<Rightarrow> None
      | Some (st, body) \<Rightarrow>
          if st \<noteq> 200 then None
          else if TrimSpace body = [] \<or> TrimSpace body = ''null'' then Some (False, [])
          else case bw_decode w body of
            None \<Rightarrow> None
          | Some ds \<Rightarrow> (case find isDeny ds of None \<Rightarrow> Some (False, []) | Some d \<Rightarrow> Some (True, scenarioLabel (dc_Scenario d))))"

definition httpVerdict :: "bouncer_world \<Rightarrow> http_request \<Rightarrow> ip \<Rightarrow> bool option" where
  "httpVerdict w r a =
     (case bw_hook w (ip_string a) r of
        None \<Rightarrow> None
      | Some st \<Rightarrow> if 200 \<le> st \<and> st < 300 then Some False else if st = 403 then Some True else None)"

definition pullStream :: "bouncer_world \<Rightarrow> bouncer \<Rightarrow> bool \<Rightarrow> stream_state \<Rightarrow> stream_state option" where
  "pullStream w b startup s =
     (case bw_pull w startup of
        None \<Rightarrow> None
      | Some (st, body) \<Rightarrow>
          if st \<noteq> 200 then None
          else case (if TrimSpace body = [] then Some ([], []) else bw_decodeStream w body) of
            None \<Rightarrow> None
          | Some (new, deleted) \<Rightarrow> Some (stream_apply (bw_now w) (bn_ttl b) new deleted startup s))"

definition stream_refresh :: "bouncer_world \<Rightarrow> bouncer \<Rightarrow> stream_state \<Rightarrow> stream_state" where
  "stream_refresh w b s =
     (case pullStream w b False s of Some s' \<Rightarrow> s' | None \<Rightarrow> s\<lparr>ss_next := bw_now w + bn_ttl b\<rparr>)"

definition streamVerdict :: "bouncer_world \<Rightarrow> bouncer \<Rightarrow> ip \<Rightarrow> stream_state \<Rightarrow> (bool \<times> string) option \<times> stream_state" where
  "streamVerdict w b a s =
     (if ss_ready s then (Some (stream_lookup s a), s)
      else case pullStream w b True s of None \<Rightarrow> (None, s) | Some s' \<Rightarrow> (Some (stream_lookup s' a), s'))"

definition bouncer_verdict :: "bouncer_world \<Rightarrow> bouncer \<Rightarrow> http_request \<Rightarrow> ip \<Rightarrow> stream_state \<Rightarrow> (bool \<times> string) option \<times> stream_state" where
  "bouncer_verdict w b r a s =
     (if bn_apiKey b = None then (None, s)
      else if bn_stream b then streamVerdict w b a s
      else if bn_provider b = ''http'' then (map_option (\<lambda>d. (d, [])) (httpVerdict w r a), s)
      else (crowdsecVerdict w a, s))"

definition bouncer_deny :: "bouncer \<Rightarrow> outcome" where
  "bouncer_deny b = Deny (bn_denyStatus b) ''bouncer'' None"

definition bouncerHandler ::
  "bouncer_world \<Rightarrow> bouncer \<Rightarrow> (http_request \<Rightarrow> ip option) \<Rightarrow> http_request \<Rightarrow> verdict_cache \<Rightarrow> stream_state \<Rightarrow>
   outcome \<times> verdict_cache \<times> stream_state" where
  "bouncerHandler w b ipOf r c s =
     (case ipOf r of
        None \<Rightarrow> (if bn_failOpen b then Next r [] else bouncer_deny b, c, s)
      | Some a \<Rightarrow>
          if InNets a (bn_allowNets b) then (Next r [], c, s)
          else case cache_get (bw_now w) (ip_string a) c of
            (Some (deny, _), c') \<Rightarrow> (if deny then bouncer_deny b else Next r [], c', s)
          | (None, c') \<Rightarrow>
              (case bouncer_verdict w b r a s of
                 (Some (deny, scen), s') \<Rightarrow>
                   (if deny then bouncer_deny b else Next r [], cache_put (bn_cacheMax b) (bw_now w) (ip_string a) deny scen (bn_ttl b) c', s')
               | (None, s') \<Rightarrow>
                   (if bn_failOpen b then Next r [] else bouncer_deny b,
                    cache_put (bn_cacheMax b) (bw_now w) (ip_string a) (\<not> bn_failOpen b) [] (errCacheTTL b) c', s')))"

lemmas [go_eval] = isDeny_def scenarioLabel_def cache_get_def cache_put_def newStreamState_def byte_ones_def net_string_def
  removeNet_def stream_lookup_def apply_deleted_def apply_new_def stream_apply_def TimeoutOrDefault_def CacheTTLOrDefault_def
  CacheMaxEntriesOrDefault_def DenyStatusOrDefault_def compileBouncer_def MaxBouncerErrorCacheTTL_def errCacheTTL_def
  crowdsecVerdict_def httpVerdict_def pullStream_def stream_refresh_def streamVerdict_def bouncer_verdict_def bouncer_deny_def
  bouncerHandler_def

section \<open>How old a verdict may be\<close>

text \<open>Serving requests one after the other. For each request of a known, not exempt client the log holds the time, the
  client, what the bouncer answered (\<^const>\<open>None\<close> when the cache answered) and whether the request went through.\<close>

fun bouncer_log ::
  "bouncer \<Rightarrow> (http_request \<Rightarrow> ip option) \<Rightarrow> (bouncer_world \<times> http_request) list \<Rightarrow> verdict_cache \<Rightarrow> stream_state \<Rightarrow>
   (int \<times> string \<times> (bool \<times> string) option option \<times> bool) list" where
  "bouncer_log b ipOf [] c s = []"
| "bouncer_log b ipOf ((w, r) # es) c s =
     (case bouncerHandler w b ipOf r c s of
        (out, c', s') \<Rightarrow>
          (case ipOf r of
             None \<Rightarrow> []
           | Some a \<Rightarrow>
               if InNets a (bn_allowNets b) then []
               else [(bw_now w, ip_string a,
                      if fst (cache_get (bw_now w) (ip_string a) c) = None then Some (fst (bouncer_verdict w b r a s)) else None,
                      forwards out)]) @ bouncer_log b ipOf es c' s')"

definition lets_through :: "bouncer \<Rightarrow> (bool \<times> string) option \<Rightarrow> bool" where
  "lets_through b ans \<longleftrightarrow> (case ans of None \<Rightarrow> bn_failOpen b | Some (deny, _) \<Rightarrow> \<not> deny)"

text \<open>Every verdict of the cache that lets a client through comes from an answer in \<open>A\<close>, no older than the TTL.\<close>

definition cache_from :: "bouncer \<Rightarrow> (int \<times> string) set \<Rightarrow> int \<Rightarrow> verdict_cache \<Rightarrow> bool" where
  "cache_from b A now c \<longleftrightarrow>
     (\<forall>(k, e) \<in> set c. ve_deny e \<or> (\<exists>t. (t, k) \<in> A \<and> t \<le> now \<and> ve_expires e \<le> t + bn_ttl b))"

lemma cache_from_mono: "cache_from b A now c \<Longrightarrow> A \<subseteq> A' \<Longrightarrow> now \<le> now' \<Longrightarrow> cache_from b A' now' c"
  unfolding cache_from_def by (fastforce intro: order_trans)

lemma cache_getD:
  assumes "cache_get now key c = (got, c')"
  shows "set c' \<subseteq> set c" "got = Some (deny, sc) \<Longrightarrow> \<exists>e. (key, e) \<in> set c \<and> ve_deny e = deny \<and> now < ve_expires e"
  using assms map_of_SomeD [of c key] by (auto simp: cache_get_def split: option.splits if_splits dest!: lru_del_members)

lemma cache_from_put:
  assumes "cache_from b A now c" "deny \<or> (now, key) \<in> A" "ttl \<le> bn_ttl b"
  shows "cache_from b A now (cache_put n now key deny scen ttl c)"
  using assms by (fastforce simp: cache_from_def cache_put_def dest: lru_put_members)

lemma errCacheTTL_le: "errCacheTTL b \<le> bn_ttl b"
  by (simp add: errCacheTTL_def MaxBouncerErrorCacheTTL_def)

text \<open>One request: where a pass comes from, and what the cache may hold afterwards.\<close>

lemma bouncer_step:
  assumes "cache_from b A now c" "now \<le> bw_now w" "0 < bn_ttl b" "bouncerHandler w b ipOf r c s = (out, c', s')"
    and "ipOf r = Some a" "\<not> InNets a (bn_allowNets b)"
  shows "let fresh = (fst (cache_get (bw_now w) (ip_string a) c) = None);
             A' = A \<union> (if fresh \<and> lets_through b (fst (bouncer_verdict w b r a s)) then {(bw_now w, ip_string a)} else {})
         in cache_from b A' (bw_now w) c' \<and>
            (fresh \<longrightarrow> forwards out = lets_through b (fst (bouncer_verdict w b r a s))) \<and>
            (forwards out \<longrightarrow> (\<exists>t. (t, ip_string a) \<in> A' \<and> t \<le> bw_now w \<and> bw_now w < t + bn_ttl b))"
proof -
  obtain got c1 where g: "cache_get (bw_now w) (ip_string a) c = (got, c1)" by (cases "cache_get (bw_now w) (ip_string a) c")
  have c1: "cache_from b A (bw_now w) c1"
    using cache_getD(1) [OF g] cache_from_mono [OF assms(1) order_refl assms(2)] by (auto simp: cache_from_def)
  show ?thesis
  proof (cases got)
    case (Some v)
    obtain deny sc where v: "v = (deny, sc)" by (cases v)
    then obtain e where e: "(ip_string a, e) \<in> set c" "ve_deny e = deny" "bw_now w < ve_expires e"
      using cache_getD(2) [OF g, of deny sc] Some by auto
    from assms(4-6) g Some v have h: "out = (if deny then bouncer_deny b else Next r [])" "c' = c1"
      by (auto simp: bouncerHandler_def)
    have "\<exists>t. (t, ip_string a) \<in> A \<and> t \<le> bw_now w \<and> bw_now w < t + bn_ttl b" if "\<not> deny"
      using assms(1,2) e that by (fastforce simp: cache_from_def)
    with c1 h g Some show ?thesis by (auto simp: forwards_def bouncer_deny_def)
  next
    case None
    obtain ans s2 where ans: "bouncer_verdict w b r a s = (ans, s2)" by (cases "bouncer_verdict w b r a s")
    let ?A = "A \<union> (if lets_through b ans then {(bw_now w, ip_string a)} else {})"
    have c1': "cache_from b ?A (bw_now w) c1" by (rule cache_from_mono [OF c1]) auto
    from assms(4-6) g None ans have h: "forwards out = lets_through b ans"
      "\<exists>sc ttl. c' = cache_put (bn_cacheMax b) (bw_now w) (ip_string a) (\<not> lets_through b ans) sc ttl c1 \<and> ttl \<le> bn_ttl b"
      using errCacheTTL_le [of b]
      by (auto simp: bouncerHandler_def forwards_def bouncer_deny_def lets_through_def split: option.splits if_splits)
    have "cache_from b ?A (bw_now w) c'" using h(2) cache_from_put [OF c1'] by auto
    with h(1) g None ans assms(3) show ?thesis by auto
  qed
qed

lemma bouncer_log_recent:
  assumes "cache_from b A now c" "sorted (now # map (bw_now \<circ> fst) es)" "0 < bn_ttl b"
    and "(t, k, ans, True) \<in> set (bouncer_log b ipOf es c s)"
  shows "\<exists>t'. t' \<le> t \<and> t < t' + bn_ttl b \<and>
    ((t', k) \<in> A \<or> (\<exists>v. (t', k, Some v, True) \<in> set (bouncer_log b ipOf es c s) \<and> lets_through b v))"
  using assms
proof (induction es arbitrary: A now c s)
  case (Cons e es)
  obtain w r where e: "e = (w, r)" by (cases e)
  obtain out c' s' where h: "bouncerHandler w b ipOf r c s = (out, c', s')" by (cases "bouncerHandler w b ipOf r c s")
  have times: "now \<le> bw_now w" "sorted (bw_now w # map (bw_now \<circ> fst) es)" using Cons.prems(2) by (auto simp: e comp_def)
  show ?case
  proof (cases "\<exists>a. ipOf r = Some a \<and> \<not> InNets a (bn_allowNets b)")
    case False
    then have "c' = c" "s' = s" using h by (auto simp: bouncerHandler_def split: option.splits if_splits)
    with False h have log: "set (bouncer_log b ipOf (e # es) c s) = set (bouncer_log b ipOf es c s)"
      by (cases "ipOf r") (auto simp: e)
    show ?thesis using Cons.IH [OF cache_from_mono [OF Cons.prems(1) order_refl times(1)] times(2) Cons.prems(3)] Cons.prems(4)
      by (simp add: log)
  next
    case True
    then obtain a where a: "ipOf r = Some a" "\<not> InNets a (bn_allowNets b)" by blast
    define v where "v = fst (bouncer_verdict w b r a s)"
    define fresh where "fresh \<longleftrightarrow> fst (cache_get (bw_now w) (ip_string a) c) = None"
    define A' where "A' = A \<union> (if fresh \<and> lets_through b v then {(bw_now w, ip_string a)} else {})"
    have head: "set (bouncer_log b ipOf (e # es) c s) =
      insert (bw_now w, ip_string a, if fresh then Some v else None, forwards out) (set (bouncer_log b ipOf es c' s'))"
      using a h by (simp add: e v_def fresh_def)
    have step: "cache_from b A' (bw_now w) c'" "fresh \<longrightarrow> forwards out = lets_through b v"
      "forwards out \<longrightarrow> (\<exists>t. (t, ip_string a) \<in> A' \<and> t \<le> bw_now w \<and> bw_now w < t + bn_ttl b)"
      using bouncer_step [OF Cons.prems(1) times(1) Cons.prems(3) h a]
      by (simp_all add: Let_def A'_def fresh_def v_def)
    have "\<exists>t'. t' \<le> t \<and> t < t' + bn_ttl b \<and>
      ((t', k) \<in> A' \<or> (\<exists>v. (t', k, Some v, True) \<in> set (bouncer_log b ipOf es c' s') \<and> lets_through b v))"
      using Cons.prems(4) step(3) Cons.IH [OF step(1) times(2) Cons.prems(3)] unfolding head by auto
    moreover have "(t', k) \<in> A \<or> (\<exists>v. (t', k, Some v, True) \<in> set (bouncer_log b ipOf (e # es) c s) \<and> lets_through b v)"
      if "(t', k) \<in> A'" for t'
      using that step(2) unfolding head by (auto simp: A'_def split: if_splits)
    ultimately show ?thesis unfolding head by blast
  qed
qed simp

lemma compileBouncer_ttl: "0 < bn_ttl (compileBouncer resolve name spec)"
  by (auto simp: compileBouncer_def CacheTTLOrDefault_def durationOr_def split: option.splits)

text \<open>A client passes the bouncer only on a recent answer. Whatever the requests of all clients were, a client that is let
  through and is not on the operator's allow-list was cleared less than a cache TTL before: at such a time the bouncer was
  asked about it and did not ban it, or could not be asked and the policy is to fail open. So a ban takes effect within the
  TTL, and with fail-closed only real answers let clients through.\<close>

theorem bouncer_pass_is_recent:
  assumes "b = compileBouncer resolve name spec" "sorted (map (bw_now \<circ> fst) es)"
    and "(t, k, ans, True) \<in> set (bouncer_log b ipOf es [] newStreamState)"
  shows "\<exists>t' v. t' \<le> t \<and> t < t' + bn_ttl b \<and> lets_through b v \<and>
    (t', k, Some v, True) \<in> set (bouncer_log b ipOf es [] newStreamState)"
proof (cases es)
  case (Cons e es')
  have "sorted (bw_now (fst e) # map (bw_now \<circ> fst) es)" using assms(2) Cons by auto
  then show ?thesis
    using bouncer_log_recent [of b "{}" "bw_now (fst e)" "[]"] assms(1,3) compileBouncer_ttl
    by (fastforce simp: cache_from_def)
qed (use assms(3) in simp)

definition demo_bouncer :: bouncer_middleware where
  "demo_bouncer = \<lparr>bo_Provider = ''http'', bo_URL = ''http://b'', bo_APIKey = [], bo_Timeout = [], bo_CacheTTL = [],
     bo_CacheMaxEntries = 0, bo_OnError = ''fail-closed'', bo_DenyStatus = 0, bo_DenyWith = [], bo_AllowFrom = [], bo_Stream = False\<rparr>"

definition demo_world :: "int \<Rightarrow> nat \<Rightarrow> bouncer_world" where
  "demo_world t st = \<lparr>bw_now = t, bw_decode = (\<lambda>_. None), bw_decodeStream = (\<lambda>_. None), bw_lapi = (\<lambda>_. None),
     bw_hook = (\<lambda>_ _. Some st), bw_pull = (\<lambda>_. None)\<rparr>"

theorem bouncer_pass_is_recent_witness:
  "\<exists>t' v. t' \<le> 9 \<and> 9 < t' + 60000000000 \<and> lets_through (compileBouncer (\<lambda>_. None) ''b'' demo_bouncer) v \<and>
    (t', ip_string [192,0,2,1], Some v, True) \<in> set (bouncer_log (compileBouncer (\<lambda>_. None) ''b'' demo_bouncer) (\<lambda>_. Some [192,0,2,1])
      [(demo_world 5 200, sample_request), (demo_world 9 403, sample_request)] [] newStreamState)"
proof -
  let ?b = "compileBouncer (\<lambda>_. None) ''b'' demo_bouncer"
  have b: "bn_ttl ?b = 60000000000" "bn_apiKey ?b = Some []" "bn_provider ?b = ''http''" "\<not> bn_stream ?b" "bn_allowNets ?b = []"
    "bn_cacheMax ?b = 10000"
    by (simp_all add: compileBouncer_def demo_bouncer_def CacheTTLOrDefault_def durationOr_def secret_IsEmpty_def
        ProviderOrDefault_def CacheMaxEntriesOrDefault_def List.map_filter_def TrimSpace_def trim_left_def trim_right_def)
  have "(9, ip_string [192,0,2,1], None, True) \<in> set (bouncer_log ?b (\<lambda>_. Some [192,0,2,1])
      [(demo_world 5 200, sample_request), (demo_world 9 403, sample_request)] [] newStreamState)"
    by (simp add: bouncerHandler_def b demo_world_def cache_get_def cache_put_def lru_put_def lru_del_def bouncer_verdict_def
        httpVerdict_def forwards_def)
  from bouncer_pass_is_recent [OF refl _ this] show ?thesis by (simp add: b demo_world_def)
qed

section \<open>Stream mode and the spelling of an address\<close>

definition shouting_ban :: decision where
  "shouting_ban = \<lparr>dc_Type = ''ban'', dc_Scope = ''Ip'', dc_Value = ''2001:DB8::1'', dc_Scenario = []\<rparr>"

text \<open>In stream mode a ban counts only if its text is the canonical spelling of the address. The decision set keeps the
  text of a banned address and looks up the canonical text, so a ban of \<open>2001:DB8::1\<close>, which names the same address as
  \<open>2001:db8::1\<close>, bans nobody.\<close>

theorem stream_ban_by_spelling:
  "\<exists>a. ParseIP (dc_Value shouting_ban) = Some a \<and> isDeny shouting_ban \<and>
     stream_lookup (stream_apply 0 60 [shouting_ban] [] True newStreamState) a = (False, []) \<and>
     stream_lookup (stream_apply 0 60 [shouting_ban\<lparr>dc_Value := ''2001:db8::1''\<rparr>] [] True newStreamState) a = (True, [])"
proof (intro exI conjI)
  let ?a = "[0x20, 0x01, 0x0d, 0xb8, 0, 0, 0, 0, 0, 0, 0, 0, 0, 0, 0, 1] :: ip"
  show "ParseIP (dc_Value shouting_ban) = Some ?a" by code_simp
  show "isDeny shouting_ban" by code_simp
  show "stream_lookup (stream_apply 0 60 [shouting_ban] [] True newStreamState) ?a = (False, [])" by code_simp
  show "stream_lookup (stream_apply 0 60 [shouting_ban\<lparr>dc_Value := ''2001:db8::1''\<rparr>] [] True newStreamState) ?a = (True, [])" by code_simp
qed

end
