(* ===== verification/Sso_Gate.thy ===== *)
theory Sso_Gate
  imports Auth_Gates
begin

text \<open>
  The OIDC gate of a proxied host (\<open>internal/dataplane/oidcgate.go\<close>): signed cookies, the revocation
  watermark, the session check, the login redirect and the callback.

  HMAC-SHA256 under the process key is the argument \<open>mac\<close>; \<open>encoding/json\<close> is a codec; the OIDC client
  (discovery, authorisation URL and code exchange of \<open>internal/oidc\<close>, which calls a third-party library and the
  network), the clock, the resolution of the client secret and the random state are arguments. A cookie on a
  response is written \<open>name=value\<close>; its fixed attributes, and the cleared state cookie on a refused callback, are not modelled. The wait of concurrent callers
  for one discovery is not modelled: a call either finds the key cached or performs the discovery.
\<close>

section \<open>Signed tokens\<close>

definition macLabelSSOSession :: string where "macLabelSSOSession = ''gpm-sso-v1|''"
definition macLabelSSOState :: string where "macLabelSSOState = ''gpm-sso-state-v1|''"
definition macLabelSticky :: string where "macLabelSticky = ''gpm-sticky-v1|''"

type_synonym mac = "string \<Rightarrow> string"

definition signToken :: "mac \<Rightarrow> string \<Rightarrow> string \<Rightarrow> string" where
  "signToken mac label payload = b64url_encode payload @ ''.'' @ b64url_encode (mac (label @ payload))"

definition verifyToken :: "mac \<Rightarrow> string \<Rightarrow> string \<Rightarrow> string option" where
  "verifyToken mac label tok =
     (if CHR ''.'' \<notin> set tok then None
      else case (b64url_decode (before (CHR ''.'') tok), b64url_decode (after (CHR ''.'') tok)) of
        (Some payload, Some sig) \<Rightarrow> if sig = mac (label @ payload) then Some payload else None
      | _ \<Rightarrow> None)"

record oidc_session =
  os_Sub :: string
  os_Email :: string
  os_Name :: string
  os_Groups :: "string list"
  os_Host :: string
  os_IdP :: string
  os_Exp :: int
  os_Iat :: int

record login_state =
  ls_State :: string
  ls_Nonce :: string
  ls_Verifier :: string
  ls_Return :: string
  ls_Exp :: int

definition readSignedCookie :: "mac \<Rightarrow> (string \<Rightarrow> 'a option) \<Rightarrow> http_request \<Rightarrow> string \<Rightarrow> string \<Rightarrow> 'a option" where
  "readSignedCookie mac decode r name label =
     (case req_Cookie r name of
        None \<Rightarrow> None
      | Some tok \<Rightarrow> (case verifyToken mac label tok of None \<Rightarrow> None | Some payload \<Rightarrow> decode payload))"

definition setSignedCookie :: "mac \<Rightarrow> string \<Rightarrow> string \<Rightarrow> string \<Rightarrow> string" where
  "setSignedCookie mac name label payload = name @ ''='' @ signToken mac label payload"

definition clearSignedCookie :: "string \<Rightarrow> string" where
  "clearSignedCookie name = name @ ''=''"

section \<open>The revocation watermark\<close>

text \<open>The in-memory watermark, whether the lazy load from the state directory has run, whether a state directory is
  configured, and the content of the watermark file (\<^const>\<open>None\<close> when it cannot be read).\<close>

record sso_state =
  sso_loaded :: bool
  sso_notBefore :: int
  sso_dir :: bool
  sso_file :: "string option"

definition parse_watermark :: "string option \<Rightarrow> int option" where
  "parse_watermark f = (case f of None \<Rightarrow> None | Some b \<Rightarrow> Atoi (TrimSpace b))"

definition ssoRevokedAt :: "sso_state \<Rightarrow> int \<times> sso_state" where
  "ssoRevokedAt st =
     (let st' = (if sso_loaded st then st
                 else st\<lparr>sso_loaded := True,
                         sso_notBefore := (if \<not> sso_dir st then sso_notBefore st
                           else case parse_watermark (sso_file st) of None \<Rightarrow> sso_notBefore st | Some v \<Rightarrow> v)\<rparr>)
      in (sso_notBefore st', st'))"

definition refreshSSOWatermark :: "sso_state \<Rightarrow> sso_state" where
  "refreshSSOWatermark st =
     (case ssoRevokedAt st of (cur, st') \<Rightarrow>
        if \<not> sso_dir st' then st'
        else case parse_watermark (sso_file st') of
          None \<Rightarrow> st'
        | Some v \<Rightarrow> if v > cur then st'\<lparr>sso_notBefore := v\<rparr> else st')"

text \<open>\<open>written\<close> tells whether the watermark file could be written.\<close>

definition RevokeAllSSOSessions :: "int \<Rightarrow> bool \<Rightarrow> sso_state \<Rightarrow> sso_state" where
  "RevokeAllSSOSessions now written st =
     (case ssoRevokedAt st of (cur, st') \<Rightarrow>
        let t = max cur now; st2 = st'\<lparr>sso_notBefore := t\<rparr> in
        if sso_dir st2 \<and> written then st2\<lparr>sso_file := Some (itoa (nat t))\<rparr> else st2)"

section \<open>The gate\<close>

definition oidcCallbackPath :: string where "oidcCallbackPath = ''/__gpm/oidc/callback''"
definition oidcSessionCookie :: string where "oidcSessionCookie = ''__Host-gpm_sso''"
definition oidcStateCookie :: string where "oidcStateCookie = ''__Host-gpm_sso_state''"
definition oidcSessionTTL :: int where "oidcSessionTTL = 3600"
definition oidcStateTTL :: int where "oidcStateTTL = 600"
definition maxOIDCClients :: nat where "maxOIDCClients = 64"

record data_oidc =
  do_IssuerURL :: string
  do_ClientID :: string
  do_ClientSecret :: string
  do_Scopes :: "string list"
  do_UsePKCE :: bool
  do_RequireVerifiedEmail :: bool
  do_GroupsClaim :: string
  do_roleMapping :: "role_mapping option"
  do_required :: "string list"
  do_hostName :: string
  do_idpName :: string
  do_domains :: "string list"

definition compileDataOIDC ::
  "(string \<Rightarrow> string option) \<Rightarrow> identity_provider \<Rightarrow> oidc_spec \<Rightarrow> string list \<Rightarrow> string \<Rightarrow> string list \<Rightarrow> data_oidc option" where
  "compileDataOIDC resolve idp spec required hostName domains =
     (case resolve (ClientSecret spec) of
        None \<Rightarrow> None
      | Some secret \<Rightarrow> Some
          \<lparr>do_IssuerURL = IssuerURL spec, do_ClientID = ClientID spec, do_ClientSecret = secret, do_Scopes = oidc_Scopes spec,
           do_UsePKCE = (case UsePKCE spec of None \<Rightarrow> True | Some b \<Rightarrow> b),
           do_RequireVerifiedEmail = RequireVerifiedEmail spec,
           do_GroupsClaim = (case idp_RoleMapping idp of
              None \<Rightarrow> ''groups'' | Some rm \<Rightarrow> if GroupsClaim rm = [] then ''groups'' else GroupsClaim rm),
           do_roleMapping = idp_RoleMapping idp, do_required = required, do_hostName = hostName,
           do_idpName = idp_Name idp, do_domains = own_names domains\<rparr>)"

record claims =
  cl_Subject :: string
  cl_Email :: string
  cl_Name :: string
  cl_Groups :: "string list"

text \<open>What the gate takes from outside at one request: the clock (Unix seconds), the codec, whether discovery for a
  redirect URL succeeds, the exchange of a code, the random values of a new login and the authorisation URL.\<close>

record sso_env =
  se_mac :: mac
  se_now :: int
  se_decSession :: "string \<Rightarrow> oidc_session option"
  se_encSession :: "oidc_session \<Rightarrow> string"
  se_decState :: "string \<Rightarrow> login_state option"
  se_encState :: "login_state \<Rightarrow> string"
  se_discover :: "string \<Rightarrow> bool"
  se_exchange :: "string \<Rightarrow> string \<Rightarrow> string \<Rightarrow> string \<Rightarrow> claims option"
  se_newState :: "string option"
  se_nonce :: string
  se_verifier :: string
  se_authURL :: "string \<Rightarrow> string \<Rightarrow> string \<Rightarrow> string \<Rightarrow> string"

datatype client_result = NotConfigured | ClientError | Client string

text \<open>The client of a request host, named by its redirect URL, and the keys cached afterwards.\<close>

definition oidc_client :: "sso_env \<Rightarrow> data_oidc \<Rightarrow> string \<Rightarrow> string list \<Rightarrow> client_result \<times> string list" where
  "oidc_client env d host cached =
     (let key = hostKey host; url = ''https://'' @ key @ oidcCallbackPath in
      if key \<notin> set (do_domains d) then (NotConfigured, cached)
      else if key \<in> set cached then (Client url, cached)
      else if length cached \<ge> maxOIDCClients then (ClientError, cached)
      else if se_discover env url then (Client url, key # cached)
      else (ClientError, cached))"

definition sso_authorized :: "data_oidc \<Rightarrow> string list \<Rightarrow> bool" where
  "sso_authorized d groups \<longleftrightarrow>
     do_roleMapping d = None \<and> do_required d = [] \<or> roleAllowed (MapRole groups (do_roleMapping d)) (do_required d)"

definition sanitizeSSOReturn :: "string \<Rightarrow> string" where
  "sanitizeSSOReturn p =
     (if p = [] \<or> hd p \<noteq> CHR ''/'' \<or> Sublist.prefix ''//'' p \<or> contains_any p [CHR 0x5C, CHR 0x0D, CHR 0x0A, CHR 0x00]
      then ''/'' else p)"

definition injectSSOIdentity :: "oidc_session \<Rightarrow> http_request \<Rightarrow> http_request" where
  "injectSSOIdentity s r =
     (let user = (if os_Email s = [] then os_Sub s else os_Email s);
          h1 = hdr_Set (Header r) ''X-Forwarded-User'' user;
          h2 = (if os_Email s = [] then h1 else hdr_Set h1 ''X-Forwarded-Email'' (os_Email s));
          h3 = (if os_Groups s = [] then h2 else hdr_Set h2 ''X-Forwarded-Groups'' (join_with '','' (os_Groups s)))
      in r\<lparr>Header := h3\<rparr>)"

definition beginLogin :: "sso_env \<Rightarrow> data_oidc \<Rightarrow> http_request \<Rightarrow> string list \<Rightarrow> outcome \<times> string list" where
  "beginLogin env d r cached =
     (case oidc_client env d (Host r) cached of
        (NotConfigured, c) \<Rightarrow> (Deny 404 [] None, c)
      | (ClientError, c) \<Rightarrow> (Deny 502 [] None, c)
      | (Client url, c) \<Rightarrow>
          (case se_newState env of
             None \<Rightarrow> (Deny 500 [] None, c)
           | Some state \<Rightarrow>
               (Found (se_authURL env url state (se_nonce env) (se_verifier env))
                  [setSignedCookie (se_mac env) oidcStateCookie macLabelSSOState
                     (se_encState env \<lparr>ls_State = state, ls_Nonce = se_nonce env, ls_Verifier = se_verifier env,
                        ls_Return = sanitizeSSOReturn (RequestURI r), ls_Exp = se_now env + oidcStateTTL\<rparr>)], c)))"

definition new_session :: "sso_env \<Rightarrow> data_oidc \<Rightarrow> claims \<Rightarrow> oidc_session" where
  "new_session env d cl =
     \<lparr>os_Sub = cl_Subject cl, os_Email = cl_Email cl, os_Name = cl_Name cl, os_Groups = cl_Groups cl,
      os_Host = do_hostName d, os_IdP = do_idpName d, os_Exp = se_now env + oidcSessionTTL, os_Iat = se_now env\<rparr>"

definition handleCallback :: "sso_env \<Rightarrow> data_oidc \<Rightarrow> http_request \<Rightarrow> string list \<Rightarrow> outcome \<times> string list" where
  "handleCallback env d r cached =
     (let q = url_RawQuery r; state = query_Get q ''state'' in
      if query_Get q ''error'' \<noteq> [] then (Deny 401 [] None, cached)
      else case readSignedCookie (se_mac env) (se_decState env) r oidcStateCookie macLabelSSOState of
        None \<Rightarrow> (Deny 400 [] None, cached)
      | Some st \<Rightarrow>
          if ls_Exp st < se_now env \<or> state = [] \<or> ls_State st \<noteq> state then (Deny 400 [] None, cached)
          else case oidc_client env d (Host r) cached of
            (NotConfigured, c) \<Rightarrow> (Deny 404 [] None, c)
          | (ClientError, c) \<Rightarrow> (Deny 502 [] None, c)
          | (Client url, c) \<Rightarrow>
              (case se_exchange env url (query_Get q ''code'') (ls_Verifier st) (ls_Nonce st) of
                 None \<Rightarrow> (Deny 401 ''auth-oidc'' None, c)
               | Some cl \<Rightarrow>
                   if \<not> sso_authorized d (cl_Groups cl) then (Deny 403 ''auth-oidc'' None, c)
                   else (Found (sanitizeSSOReturn (ls_Return st))
                           [clearSignedCookie oidcStateCookie,
                            setSignedCookie (se_mac env) oidcSessionCookie macLabelSSOSession (se_encSession env (new_session env d cl))], c)))"

text \<open>The session of a request, if its cookie carries one this gate accepts. The watermark is read last, and only for a
  session that passed the other checks, which is when its lazy load happens.\<close>

definition live_session :: "sso_env \<Rightarrow> data_oidc \<Rightarrow> http_request \<Rightarrow> sso_state \<Rightarrow> oidc_session option \<times> sso_state" where
  "live_session env d r st =
     (case readSignedCookie (se_mac env) (se_decSession env) r oidcSessionCookie macLabelSSOSession of
        None \<Rightarrow> (None, st)
      | Some s \<Rightarrow>
          if os_Exp s > se_now env \<and> os_Host s = do_hostName d \<and> os_IdP s = do_idpName d
          then (case ssoRevokedAt st of (w, st') \<Rightarrow> (if os_Iat s \<ge> w then Some s else None, st'))
          else (None, st))"

definition oidc_handler ::
  "sso_env \<Rightarrow> data_oidc \<Rightarrow> http_request \<Rightarrow> sso_state \<Rightarrow> string list \<Rightarrow> outcome \<times> sso_state \<times> string list" where
  "oidc_handler env d r st cached =
     (if hostKey (Host r) \<notin> set (do_domains d) then (Deny 404 [] None, st, cached)
      else if url_Path r = oidcCallbackPath then (case handleCallback env d r cached of (out, c) \<Rightarrow> (out, st, c))
      else case live_session env d r st of
        (Some s, st') \<Rightarrow>
          (if sso_authorized d (os_Groups s) then Next (injectSSOIdentity s r) [] else Deny 403 ''auth-oidc'' None, st', cached)
      | (None, st') \<Rightarrow> (case beginLogin env d r cached of (out, c) \<Rightarrow> (out, st', c)))"

lemmas [go_eval] = macLabelSSOSession_def macLabelSSOState_def macLabelSticky_def signToken_def verifyToken_def
  readSignedCookie_def setSignedCookie_def clearSignedCookie_def parse_watermark_def ssoRevokedAt_def refreshSSOWatermark_def
  RevokeAllSSOSessions_def oidcCallbackPath_def oidcSessionCookie_def oidcStateCookie_def oidcSessionTTL_def oidcStateTTL_def
  maxOIDCClients_def compileDataOIDC_def oidc_client_def sso_authorized_def sanitizeSSOReturn_def injectSSOIdentity_def
  beginLogin_def new_session_def handleCallback_def live_session_def oidc_handler_def

section \<open>Tokens\<close>

lemma before_after_sep:
  "c \<notin> set p \<Longrightarrow> before c (p @ c # s) = p" "c \<notin> set p \<Longrightarrow> after c (p @ c # s) = s"
  by (induction p) (auto simp: before_def after_def)

lemma verify_signed:
  "verifyToken mac l' (signToken mac l p) = (if mac (l @ p) = mac (l' @ p) then Some p else None)"
  by (simp add: verifyToken_def signToken_def before_after_sep [OF b64url_encode_no_dot])

definition mac_labels :: "string set" where
  "mac_labels = {macLabelSSOSession, macLabelSSOState, macLabelSticky}"

lemma labels_differ: "l \<in> mac_labels \<Longrightarrow> l' \<in> mac_labels \<Longrightarrow> l @ p = l' @ q \<Longrightarrow> l = l'"
  by (auto simp: mac_labels_def macLabelSSOSession_def macLabelSSOState_def macLabelSticky_def)

text \<open>Signed cookies round-trip and cannot be confused. A token minted for one cookie type verifies under its own
  label and returns the payload it was minted for, and under any of the other labels it does not verify, however the
  payload is chosen, provided HMAC maps different inputs to different values.\<close>

theorem signed_token_roundtrip:
  assumes "inj mac" "l \<in> mac_labels" "l' \<in> mac_labels"
  shows "verifyToken mac l' (signToken mac l p) = (if l' = l then Some p else None)"
  using assms labels_differ [of l l' p p] by (auto simp: verify_signed dest: injD)

theorem signed_token_roundtrip_witness:
  "verifyToken (\<lambda>s. s) macLabelSSOState (signToken (\<lambda>s. s) macLabelSSOSession ''x'') = None"
  using signed_token_roundtrip [of "\<lambda>s. s" macLabelSSOSession macLabelSSOState "''x''"]
  by (simp add: mac_labels_def macLabelSSOSession_def macLabelSSOState_def)

section \<open>Who gets through\<close>

lemma live_session_SomeD:
  assumes "live_session env d r st = (Some s, st')"
  shows "readSignedCookie (se_mac env) (se_decSession env) r oidcSessionCookie macLabelSSOSession = Some s"
    "os_Exp s > se_now env" "os_Host s = do_hostName d" "os_IdP s = do_idpName d" "os_Iat s \<ge> fst (ssoRevokedAt st)"
  using assms by (auto simp: live_session_def split: option.splits if_splits prod.splits)

lemma handleCallback_not_Next: "fst (handleCallback env d r cached) \<noteq> Next r' ck"
  by (auto simp: handleCallback_def Let_def split: option.splits client_result.splits prod.splits)

lemma beginLogin_not_Next: "fst (beginLogin env d r cached) \<noteq> Next r' ck"
  by (auto simp: beginLogin_def split: option.splits client_result.splits prod.splits)

lemma oidc_handler_NextD:
  assumes "oidc_handler env d r st cached = (Next r' ck, st', c)"
  obtains s where "live_session env d r st = (Some s, st')" "sso_authorized d (os_Groups s)" "r' = injectSSOIdentity s r"
    "hostKey (Host r) \<in> set (do_domains d)"
  using assms handleCallback_not_Next [of env d r cached] beginLogin_not_Next [of env d r cached]
  by (auto simp: oidc_handler_def split: option.splits if_splits prod.splits)


section \<open>The life of the watermark\<close>

text \<open>What happens to the watermark: a request or the watch reads it, an administrator revokes all sessions, and
  anything may happen to the file.\<close>

inductive sso_step :: "sso_state \<Rightarrow> sso_state \<Rightarrow> bool" where
  sso_load: "sso_step st (snd (ssoRevokedAt st))"
| sso_refresh: "sso_step st (refreshSSOWatermark st)"
| sso_revoke: "sso_step st (RevokeAllSSOSessions now written st)"
| sso_disk: "sso_step st (st\<lparr>sso_file := f\<rparr>)"

inductive_cases sso_stepE: "sso_step st st'"

lemma sso_step_forward: "sso_step st st' \<Longrightarrow> sso_loaded st \<Longrightarrow> sso_loaded st' \<and> sso_notBefore st \<le> sso_notBefore st'"
  by (erule sso_stepE)
    (auto simp: ssoRevokedAt_def refreshSSOWatermark_def RevokeAllSSOSessions_def Let_def split: option.splits)

lemma sso_steps_forward: "sso_step\<^sup>*\<^sup>* st st' \<Longrightarrow> sso_loaded st \<Longrightarrow> sso_loaded st' \<and> sso_notBefore st \<le> sso_notBefore st'"
  by (induction rule: rtranclp_induct) (auto dest: sso_step_forward)

lemma revoke_sets: "sso_loaded (RevokeAllSSOSessions t w st) \<and> t \<le> sso_notBefore (RevokeAllSSOSessions t w st)"
  by (auto simp: RevokeAllSSOSessions_def ssoRevokedAt_def Let_def)

text \<open>C26: Revocation is permanent. After all sessions were revoked at a time, no reload of the watermark file, whatever
  its content, and no later revocation with a clock that runs behind lets a session issued before that time through.\<close>

theorem sso_revocation_permanent:
  assumes "sso_step\<^sup>*\<^sup>* (RevokeAllSSOSessions t w st0) st"
    and "oidc_handler env d r st cached = (Next r' ck, st', c)"
  shows "\<exists>s. readSignedCookie (se_mac env) (se_decSession env) r oidcSessionCookie macLabelSSOSession = Some s \<and> t \<le> os_Iat s"
proof -
  obtain s where s: "live_session env d r st = (Some s, st')" using oidc_handler_NextD [OF assms(2)] by metis
  have "sso_loaded st \<and> t \<le> sso_notBefore st" using sso_steps_forward [OF assms(1)] revoke_sets [of t w st0] by force
  then have "t \<le> fst (ssoRevokedAt st)" by (simp add: ssoRevokedAt_def)
  with live_session_SomeD [OF s] show ?thesis by force
qed

section \<open>Logging in\<close>

text \<open>A login ends in a session only for the browser that began it. The callback sets a session cookie only if the
  signed state cookie has not expired and its state is the one the provider returned; the code is exchanged with the
  verifier and the nonce of that cookie; the session is the exchanged claims', for this host and provider; and the browser
  is sent to a path of this site.\<close>

theorem sso_callback_bound:
  assumes "handleCallback env d r cached = (Found dest ck, c)"
  shows "\<exists>st url cl. readSignedCookie (se_mac env) (se_decState env) r oidcStateCookie macLabelSSOState = Some st \<and>
    se_now env \<le> ls_Exp st \<and> ls_State st = query_Get (url_RawQuery r) ''state'' \<and> ls_State st \<noteq> [] \<and>
    se_exchange env url (query_Get (url_RawQuery r) ''code'') (ls_Verifier st) (ls_Nonce st) = Some cl \<and>
    sso_authorized d (cl_Groups cl) \<and> hd dest = CHR ''/'' \<and> \<not> Sublist.prefix ''//'' dest \<and>
    ck = [clearSignedCookie oidcStateCookie,
          setSignedCookie (se_mac env) oidcSessionCookie macLabelSSOSession (se_encSession env (new_session env d cl))]"
proof -
  have "hd (sanitizeSSOReturn p) = CHR ''/'' \<and> \<not> Sublist.prefix ''//'' (sanitizeSSOReturn p)" for p
    by (simp add: sanitizeSSOReturn_def)
  with assms show ?thesis
    by (fastforce simp: handleCallback_def Let_def split: option.splits client_result.splits prod.splits if_splits)
qed

section \<open>A concrete login\<close>

definition demo_gate :: data_oidc where
  "demo_gate = \<lparr>do_IssuerURL = ''https://id'', do_ClientID = ''gpm'', do_ClientSecret = [], do_Scopes = [], do_UsePKCE = True,
     do_RequireVerifiedEmail = False, do_GroupsClaim = ''groups'', do_roleMapping = None, do_required = [],
     do_hostName = ''app'', do_idpName = ''idp'', do_domains = [''a.example'']\<rparr>"

definition demo_session :: oidc_session where
  "demo_session = \<lparr>os_Sub = ''u'', os_Email = [], os_Name = [], os_Groups = [], os_Host = ''app'', os_IdP = ''idp'', os_Exp = 200, os_Iat = 100\<rparr>"

definition demo_login :: login_state where
  "demo_login = \<lparr>ls_State = ''x'', ls_Nonce = ''n'', ls_Verifier = ''v'', ls_Return = ''/in'', ls_Exp = 200\<rparr>"

text \<open>A codec that knows one session and one login state, and a MAC that keeps its input.\<close>

definition demo_sso :: sso_env where
  "demo_sso = \<lparr>se_mac = (\<lambda>s. s), se_now = 150, se_decSession = (\<lambda>p. if p = ''s'' then Some demo_session else None),
     se_encSession = (\<lambda>_. ''s''), se_decState = (\<lambda>p. if p = ''l'' then Some demo_login else None), se_encState = (\<lambda>_. ''l''),
     se_discover = (\<lambda>_. True), se_exchange = (\<lambda>_ _ _ _. Some \<lparr>cl_Subject = ''u'', cl_Email = [], cl_Name = [], cl_Groups = []\<rparr>),
     se_newState = Some ''x'', se_nonce = ''n'', se_verifier = ''v'', se_authURL = (\<lambda>u _ _ _. u)\<rparr>"

definition demo_sso_request :: "string \<Rightarrow> string \<Rightarrow> string \<Rightarrow> http_request" where
  "demo_sso_request path query cookie =
     \<lparr>RemoteAddr = ''192.0.2.1:5'', Host = ''a.example'', Method = ''GET'', url_Path = path, url_RawQuery = query,
      Header = [''Cookie'' \<mapsto> [cookie]], TLS = None, ctx_clientIP = None\<rparr>"

definition session_cookie :: string where
  "session_cookie = setSignedCookie (\<lambda>s. s) oidcSessionCookie macLabelSSOSession ''s''"

definition state_cookie :: string where
  "state_cookie = setSignedCookie (\<lambda>s. s) oidcStateCookie macLabelSSOState ''l''"

lemma demo_cookies:
  "readSignedCookie (\<lambda>s. s) (\<lambda>p. if p = ''s'' then Some demo_session else None)
     (demo_sso_request ''/'' [] session_cookie) oidcSessionCookie macLabelSSOSession = Some demo_session"
  "readSignedCookie (\<lambda>s. s) (\<lambda>p. if p = ''l'' then Some demo_login else None)
     (demo_sso_request oidcCallbackPath ''state=x&code=c'' state_cookie) oidcStateCookie macLabelSSOState = Some demo_login"
  by code_simp+

definition demo_watermark :: sso_state where
  "demo_watermark = \<lparr>sso_loaded = True, sso_notBefore = 50, sso_dir = False, sso_file = None\<rparr>"

lemma demo_host: "hostKey (Host (demo_sso_request p q ck)) \<in> set (do_domains demo_gate)"
  unfolding demo_sso_request_def demo_gate_def by (simp, code_simp)

lemma demo_admits:
  assumes "sso_loaded st" "sso_notBefore st \<le> 100"
  shows "oidc_handler demo_sso demo_gate (demo_sso_request ''/'' [] session_cookie) st []
    = (Next (injectSSOIdentity demo_session (demo_sso_request ''/'' [] session_cookie)) [], st, [])"
proof -
  have "live_session demo_sso demo_gate (demo_sso_request ''/'' [] session_cookie) st = (Some demo_session, st)"
    using assms demo_cookies(1) by (simp add: live_session_def demo_sso_def demo_gate_def demo_session_def ssoRevokedAt_def)
  moreover have "url_Path (demo_sso_request ''/'' [] session_cookie) \<noteq> oidcCallbackPath"
    by (simp add: demo_sso_request_def oidcCallbackPath_def)
  ultimately show ?thesis using demo_host
    by (simp add: oidc_handler_def sso_authorized_def demo_gate_def)
qed


theorem sso_revocation_permanent_witness:
  "\<exists>s. readSignedCookie (se_mac demo_sso) (se_decSession demo_sso) (demo_sso_request ''/'' [] session_cookie)
      oidcSessionCookie macLabelSSOSession = Some s \<and> 90 \<le> os_Iat s"
  using sso_revocation_permanent [OF rtranclp.rtrancl_refl demo_admits [of "RevokeAllSSOSessions 90 True demo_watermark"]]
  by (simp add: RevokeAllSSOSessions_def demo_watermark_def ssoRevokedAt_def Let_def)

lemma demo_callback:
  "handleCallback demo_sso demo_gate (demo_sso_request oidcCallbackPath ''state=x&code=c'' state_cookie) [''a.example'']
    = (Found ''/in'' [clearSignedCookie oidcStateCookie, session_cookie], [''a.example''])"
proof -
  let ?r = "demo_sso_request oidcCallbackPath ''state=x&code=c'' state_cookie"
  have q: "url_RawQuery ?r = ''state=x&code=c''" by (simp add: demo_sso_request_def)
  have e: "query_Get ''state=x&code=c'' ''error'' = []" and st: "query_Get ''state=x&code=c'' ''state'' = ''x''"
    and code: "query_Get ''state=x&code=c'' ''code'' = ''c''" by code_simp+
  have h: "hostKey (Host ?r) = ''a.example''" unfolding demo_sso_request_def by (simp, code_simp)
  have s: "sanitizeSSOReturn ''/in'' = ''/in''" by code_simp
  show ?thesis
    using demo_cookies(2) demo_host [of oidcCallbackPath "''state=x&code=c''" state_cookie]
    by (simp add: handleCallback_def q e st code h s demo_sso_def demo_login_def oidc_client_def demo_gate_def
        sso_authorized_def session_cookie_def Let_def)
qed

theorem sso_callback_bound_witness:
  "\<exists>st. readSignedCookie (se_mac demo_sso) (se_decState demo_sso)
      (demo_sso_request oidcCallbackPath ''state=x&code=c'' state_cookie) oidcStateCookie macLabelSSOState = Some st \<and> ls_State st \<noteq> []"
  using sso_callback_bound [OF demo_callback] by blast

end
