(* ===== verification/Gate_Chain.thy ===== *)
theory Gate_Chain
  imports Config_Validate Rate_Limit Bouncer Sso_Gate
begin

text \<open>
  The chain of a host (\<open>internal/dataplane/chain.go\<close>, with \<open>authHandler\<close> of \<open>auth.go\<close>, \<open>headers.go\<close> and the
  location part of \<open>buildLocations\<close> in \<open>router.go\<close>): the registry of shared objects, the canonical order of the tiers, the
  stacking of inline blocks, and the request's way through them.

  A chain is the list of its tiers, the outermost first. Each tier keeps its own state (a limiter, a failure
  throttle, a verdict cache, the cached OIDC clients); the SSO watermark is shared. What a tier takes from outside is
  the environment: bcrypt, the GeoIP database, the auth server, the bouncer, the OIDC provider, regular expressions,
  the clock. Changes to response headers are not modelled, except the cookies an auth gate adds.
\<close>

section \<open>The registry\<close>

record registry =
  reg_accessLists :: "(string \<times> access_list_cfg) list"
  reg_middlewares :: "(string \<times> middleware) list"
  reg_idps :: "(string \<times> identity_provider) list"

text \<open>A later object of the same name replaces an earlier one.\<close>

definition buildRegistry :: "gpm_config \<Rightarrow> registry" where
  "buildRegistry c =
     \<lparr>reg_accessLists = rev (map (\<lambda>(a, _). (al_Name a, a)) (c_AccessLists c)),
      reg_middlewares = rev (map (\<lambda>m. (mw_Name m, m)) (c_Middlewares c)),
      reg_idps = rev (map (\<lambda>p. (idp_Name p, p)) (c_IdentityProviders c))\<rparr>"

definition unresolvedRefs :: "host_shape \<Rightarrow> registry \<Rightarrow> string option" where
  "unresolvedRefs h reg =
     (case find (\<lambda>n. map_of (reg_accessLists reg) n = None) (hs_AccessLists h) of
        Some n \<Rightarrow> Some (''accessList '' @ n)
      | None \<Rightarrow>
          (case find (\<lambda>n. map_of (reg_middlewares reg) n = None) (hs_Middlewares h) of
             Some n \<Rightarrow> Some (''middleware '' @ n)
           | None \<Rightarrow> None))"

section \<open>Tiers\<close>

datatype tier =
  RateTier rate_limit
  | ListTier access_list
  | BounceTier bouncer
  | AuthTier auth_middleware
  | GuardTier guard
  | HeadersTier headers_middleware
  | StripTier string
  | RewriteTier rewrite_rules

datatype tier_state =
  NoState
  | RateState rate_limiter
  | ThrottleState gate
  | BounceState verdict_cache stream_state
  | OidcState "string list"

definition compileRewrite :: "(string \<Rightarrow> string \<Rightarrow> regex_rule option) \<Rightarrow> rewrite_middleware \<Rightarrow> rewrite_rules" where
  "compileRewrite re rw =
     \<lparr>rw_exact = map_of (rw_ReplacePath rw), prefix_rules = compile_prefix_rules (rw_PrefixRules rw),
      regex_rules = List.map_filter (\<lambda>(f, t). re (AnchorRewritePattern f) t) (rw_RegexRules rw)\<rparr>"

text \<open>What a chain takes from outside at one request.\<close>

record chain_env =
  ce_bcrypt :: bcrypt_compare
  ce_acquired :: bool
  ce_now :: int
  ce_trusted :: trusted_global
  ce_sources :: source_sets
  ce_geo :: geo_lookup
  ce_geoLoaded :: "bool option"
  ce_anchors :: "ca_anchor list"
  ce_url :: url_parse
  ce_server :: "subrequest \<Rightarrow> auth_response option"
  ce_resolve :: "string \<Rightarrow> string option"
  ce_regexp :: "string \<Rightarrow> string \<Rightarrow> regex_rule option"
  ce_bouncer :: bouncer_world
  ce_sso :: sso_env

record inline_chain =
  in_auth :: "auth_middleware list"
  in_rateLimit :: "rate_limit list"
  in_stripPrefix :: string

definition hostInline :: "host_shape \<Rightarrow> inline_chain" where
  "hostInline h =
     \<lparr>in_auth = (case hs_Auth h of None \<Rightarrow> [] | Some a \<Rightarrow> [a]),
      in_rateLimit = (case hs_RateLimit h of None \<Rightarrow> [] | Some r \<Rightarrow> [r]), in_stripPrefix = []\<rparr>"

definition locationInline :: "host_shape \<Rightarrow> location \<Rightarrow> inline_chain" where
  "locationInline h loc =
     \<lparr>in_auth = in_auth (hostInline h) @ (case loc_Auth loc of None \<Rightarrow> [] | Some a \<Rightarrow> [a]),
      in_rateLimit = in_rateLimit (hostInline h) @ (case loc_RateLimit loc of None \<Rightarrow> [] | Some r \<Rightarrow> [r]),
      in_stripPrefix = (if loc_StripPrefix loc then normalizeLocationPrefix (loc_Path loc) else [])\<rparr>"

text \<open>The referenced middlewares of one kind, in the order they are named.\<close>

definition of_kind :: "registry \<Rightarrow> string \<Rightarrow> (middleware \<Rightarrow> 'a option) \<Rightarrow> string list \<Rightarrow> 'a list" where
  "of_kind reg ty sel names =
     List.map_filter (\<lambda>n. case map_of (reg_middlewares reg) n of
        None \<Rightarrow> None | Some m \<Rightarrow> if mw_Type m = ty then sel m else None) names"

text \<open>Each wrap goes around the handler built so far, so within a kind the last named is the outermost. \<^const>\<open>None\<close> is the
  handler that answers every request with 503.\<close>

definition gate_tiers :: "chain_env \<Rightarrow> host_shape \<Rightarrow> inline_chain \<Rightarrow> registry \<Rightarrow> tier list" where
  "gate_tiers env h inline reg =
     map RateTier (rev (in_rateLimit inline)) @
     map RateTier (rev (of_kind reg ''rate-limit'' mw_RateLimit (hs_Middlewares h))) @
     map (\<lambda>al. ListTier (compileAccessList (ce_sources env) al)) (rev (List.map_filter (map_of (reg_accessLists reg)) (hs_AccessLists h))) @
     map BounceTier (rev (of_kind reg ''bouncer'' (\<lambda>m. map_option (compileBouncer (ce_resolve env) (mw_Name m)) (mw_Bouncer m)) (hs_Middlewares h))) @
     map AuthTier (rev (in_auth inline)) @
     map AuthTier (rev (of_kind reg ''auth'' mw_Auth (hs_Middlewares h))) @
     map (\<lambda>g. GuardTier (compileGuard g)) (rev (of_kind reg ''guard'' mw_Guard (hs_Middlewares h)))"

definition shape_tiers :: "chain_env \<Rightarrow> host_shape \<Rightarrow> inline_chain \<Rightarrow> registry \<Rightarrow> tier list" where
  "shape_tiers env h inline reg =
     map HeadersTier (rev (of_kind reg ''headers'' mw_Headers (hs_Middlewares h))) @
     (if in_stripPrefix inline = [] then [] else [StripTier (in_stripPrefix inline)]) @
     map (\<lambda>rw. RewriteTier (compileRewrite (ce_regexp env) rw)) (rev (of_kind reg ''rewrite'' mw_Rewrite (hs_Middlewares h)))"

definition buildChainInline :: "chain_env \<Rightarrow> host_shape \<Rightarrow> inline_chain \<Rightarrow> registry \<Rightarrow> tier list option" where
  "buildChainInline env h inline reg =
     (if unresolvedRefs h reg \<noteq> None then None else Some (gate_tiers env h inline reg @ shape_tiers env h inline reg))"

definition buildChain :: "chain_env \<Rightarrow> host_shape \<Rightarrow> registry \<Rightarrow> tier list option" where
  "buildChain env h reg = buildChainInline env h (hostInline h) reg"

text \<open>The host copy a location's chain is built from: the location's names appended to the host's, its backend in place of
  the host's.\<close>

definition location_host :: "host_shape \<Rightarrow> location \<Rightarrow> host_shape" where
  "location_host h loc =
     (let h1 = (case loc_Upstream loc of
                  Some u \<Rightarrow> h\<lparr>hs_Upstream := u, hs_UpstreamGroupRef := []\<rparr>
                | None \<Rightarrow> if loc_UpstreamGroupRef loc \<noteq> []
                    then h\<lparr>hs_UpstreamGroupRef := loc_UpstreamGroupRef loc, hs_Upstream := no_upstream\<rparr> else h)
      in h1\<lparr>hs_Middlewares := hs_Middlewares h @ loc_Middlewares loc, hs_AccessLists := hs_AccessLists h @ loc_AccessLists loc,
            hs_Locations := []\<rparr>)"

definition location_chain :: "chain_env \<Rightarrow> host_shape \<Rightarrow> location \<Rightarrow> registry \<Rightarrow> tier list option" where
  "location_chain env h loc reg = buildChainInline env (location_host h loc) (locationInline h loc) reg"

section \<open>The auth tier\<close>

definition throttle_of :: "tier_state \<Rightarrow> gate" where
  "throttle_of st = (case st of ThrottleState g \<Rightarrow> g | _ \<Rightarrow> newAuthGate basicAuthLockout maxBasicAuthFails maxBasicAuthKeys)"

definition auth_unavailable :: outcome where
  "auth_unavailable = Deny 503 [] None"

definition authHandler ::
  "chain_env \<Rightarrow> registry \<Rightarrow> host_shape proxy_host \<Rightarrow> (http_request \<Rightarrow> ip option) \<Rightarrow> auth_middleware \<Rightarrow> http_request \<Rightarrow>
   tier_state \<Rightarrow> sso_state \<Rightarrow> outcome \<times> tier_state \<times> sso_state" where
  "authHandler env reg h clientIP a r st sso =
     (if am_Mode a = ''client-cert'' then
        (clientCertGate (ce_anchors env) a (Some clientIP) (allowFromNets (am_AllowFrom a)) (ph_Domains h) r, st, sso)
      else if am_Mode a = ''basic'' then
        (case basicAuthGate (ce_bcrypt env) (am_Basic a) (ph_Name h) (Some clientIP) (allowFromNets (am_AllowFrom a))
                (ce_now env) (ce_acquired env) r (throttle_of st) of
           (v, g) \<Rightarrow> (of_verdict r v, ThrottleState g, sso))
      else case map_of (reg_idps reg) (am_IdentityProvider a) of
        None \<Rightarrow> (auth_unavailable, st, sso)
      | Some idp \<Rightarrow>
          (let mode = (if am_Mode a = [] then idp_Type idp else am_Mode a) in
           if mode = ''forward-auth'' then
             (case idp_ForwardAuth idp of
                None \<Rightarrow> (auth_unavailable, st, sso)
              | Some fa \<Rightarrow> (forwardAuthGate (CompileForwardAuth fa (am_IdentityProvider a)) (idp_RoleMapping idp) (RequiredRoles a) r, st, sso))
           else if mode = ''auth-request'' then
             (case idp_AuthRequest idp of
                None \<Rightarrow> (auth_unavailable, st, sso)
              | Some ar \<Rightarrow>
                  (case compileAuthRequest (ce_url env) ar of
                     None \<Rightarrow> (auth_unavailable, st, sso)
                   | Some p \<Rightarrow> (authRequestHandler p (ce_server env) clientIP (allowFromNets (am_AllowFrom a)) r, st, sso)))
           else if mode = ''oidc'' then
             (case idp_OIDC idp of
                None \<Rightarrow> (auth_unavailable, st, sso)
              | Some spec \<Rightarrow>
                  (case compileDataOIDC (ce_resolve env) idp spec (RequiredRoles a) (ph_Name h) (ph_Domains h) of
                     None \<Rightarrow> (auth_unavailable, st, sso)
                   | Some d \<Rightarrow>
                       (case oidc_handler (ce_sso env) d r sso (case st of OidcState ks \<Rightarrow> ks | _ \<Rightarrow> []) of
                          (out, sso', ks) \<Rightarrow> (out, OidcState ks, sso'))))
           else (auth_unavailable, st, sso)))"

definition authHandlerFor ::
  "chain_env \<Rightarrow> registry \<Rightarrow> host_shape proxy_host \<Rightarrow> (http_request \<Rightarrow> ip option) \<Rightarrow> auth_middleware \<Rightarrow> http_request \<Rightarrow>
   tier_state \<Rightarrow> sso_state \<Rightarrow> outcome \<times> tier_state \<times> sso_state" where
  "authHandlerFor env reg h clientIP a r st sso =
     (if am_Mode a \<noteq> ''client-cert'' \<or> ClientAuth (hs_TLS (ph_rest h)) \<noteq> None then authHandler env reg h clientIP a r st sso
      else if net_exempt (Some clientIP) (allowFromNets (am_AllowFrom a)) r then (Next r [], st, sso)
      else (Deny 401 ''auth-client-cert'' None, st, sso))"

section \<open>Serving a chain\<close>

definition headersHandler :: "headers_middleware \<Rightarrow> http_request \<Rightarrow> http_request" where
  "headersHandler spec r =
     r\<lparr>Header := fold (\<lambda>(k, v) h. hdr_Set h k v) (SetRequest spec) (hdr_Del_all (Header r) (RemoveRequest spec))\<rparr>"

definition serve_tier ::
  "chain_env \<Rightarrow> registry \<Rightarrow> host_shape proxy_host \<Rightarrow> tier \<Rightarrow> http_request \<Rightarrow> tier_state \<Rightarrow> sso_state \<Rightarrow> outcome \<times> tier_state \<times> sso_state" where
  "serve_tier env reg h t r st sso =
     (let clientIP = clientIPResolver (hostTrustedProxies (hs_TrustedProxies (ph_rest h)) (ce_trusted env));
          listNets = (\<lambda>n. case map_of (reg_accessLists reg) n of None \<Rightarrow> [] | Some al \<Rightarrow> accessListAllowNets (ce_sources env) al) in
      case t of
        RateTier rl \<Rightarrow>
          (case rateLimitHandler listNets rl clientIP (ce_now env) r (case st of RateState l \<Rightarrow> l | _ \<Rightarrow> newRateLimiter rl) of
             (out, l) \<Rightarrow> (out, RateState l, sso))
      | ListTier al \<Rightarrow>
          (case accessListHandler (ce_bcrypt env) al clientIP (ce_geo env) (ce_geoLoaded env) (ce_now env) (ce_acquired env) r (throttle_of st) of
             (v, g) \<Rightarrow> (of_verdict r v, ThrottleState g, sso))
      | BounceTier b \<Rightarrow>
          (case (case st of BounceState c s \<Rightarrow> (c, s) | _ \<Rightarrow> ([], newStreamState)) of
             (c, s) \<Rightarrow> (case bouncerHandler (ce_bouncer env) b clientIP r c s of (out, c', s') \<Rightarrow> (out, BounceState c' s', sso)))
      | AuthTier a \<Rightarrow> authHandlerFor env reg h clientIP a r st sso
      | GuardTier g \<Rightarrow> (guardHandler g clientIP r, st, sso)
      | HeadersTier spec \<Rightarrow> (Next (headersHandler spec r) [], st, sso)
      | StripTier pre \<Rightarrow> (Next (r\<lparr>url_Path := stripPrefix pre (url_Path r)\<rparr>) [], st, sso)
      | RewriteTier rw \<Rightarrow>
          (case rewriteHandler rw (url_Path r) of
             None \<Rightarrow> (Deny 400 [] None, st, sso) | Some p \<Rightarrow> (Next (r\<lparr>url_Path := p\<rparr>) [], st, sso)))"

datatype chain_result = Proxied http_request "string list" | Stopped outcome

text \<open>The way of a request through the tiers: the tiers it reached with the request each saw, what came out, and the new
  states.\<close>

fun serve_chain ::
  "chain_env \<Rightarrow> registry \<Rightarrow> host_shape proxy_host \<Rightarrow> tier list \<Rightarrow> tier_state list \<Rightarrow> sso_state \<Rightarrow> http_request \<Rightarrow> string list \<Rightarrow>
   (tier \<times> http_request) list \<times> chain_result \<times> tier_state list \<times> sso_state" where
  "serve_chain env reg h [] sts sso r ck = ([], Proxied r ck, sts, sso)"
| "serve_chain env reg h (t # ts) sts sso r ck =
     (case serve_tier env reg h t r (case sts of [] \<Rightarrow> NoState | s # _ \<Rightarrow> s) sso of
        (out, s', sso') \<Rightarrow>
          (case out of
             Next r' ck' \<Rightarrow>
               (case serve_chain env reg h ts (drop 1 sts) sso' r' (ck @ ck') of
                  (vis, res, ss, sso2) \<Rightarrow> ((t, r) # vis, res, s' # ss, sso2))
           | _ \<Rightarrow> ([(t, r)], Stopped out, s' # drop 1 sts, sso')))"

definition serve_host ::
  "chain_env \<Rightarrow> registry \<Rightarrow> host_shape proxy_host \<Rightarrow> tier list option \<Rightarrow> tier_state list \<Rightarrow> sso_state \<Rightarrow> http_request \<Rightarrow>
   (tier \<times> http_request) list \<times> chain_result \<times> tier_state list \<times> sso_state" where
  "serve_host env reg h built sts sso r =
     (case built of None \<Rightarrow> ([], Stopped (Deny 503 [] None), sts, sso) | Some ts \<Rightarrow> serve_chain env reg h ts sts sso r [])"

section \<open>The contract of a gate\<close>

text \<open>Whatever a gate hands inwards differs from what it got in the headers only.\<close>

definition same_request :: "http_request \<Rightarrow> http_request \<Rightarrow> bool" where
  "same_request r r' \<longleftrightarrow> r' = r\<lparr>Header := Header r'\<rparr>"

lemma same_request_refl [simp]: "same_request r r"
  by (simp add: same_request_def)

lemma same_request_header [simp]: "same_request r (r\<lparr>Header := hs\<rparr>)"
  by (simp add: same_request_def)

lemma same_request_trans: "same_request r r1 \<Longrightarrow> same_request r1 r2 \<Longrightarrow> same_request r r2"
  by (cases r, cases r1, cases r2) (simp add: same_request_def)

lemma same_requestD: "same_request r r' \<Longrightarrow> url_Path r' = url_Path r \<and> Method r' = Method r \<and> url_RawQuery r' = url_RawQuery r \<and>
    RemoteAddr r' = RemoteAddr r \<and> Host r' = Host r \<and> TLS r' = TLS r \<and> ctx_clientIP r' = ctx_clientIP r"
  by (cases r, cases r') (simp add: same_request_def)

locale gate_handler =
  fixes serve :: "http_request \<Rightarrow> 's \<Rightarrow> outcome \<times> 's"
  assumes keeps: "fst (serve r s) = Next r' ck \<Longrightarrow> same_request r r'"
begin

lemma keeps_from: "same_request r0 r \<Longrightarrow> fst (serve r s) = Next r' ck \<Longrightarrow> same_request r0 r'"
  using keeps same_request_trans by blast

lemma keeps_result: "serve r s = (Next r' ck, s') \<Longrightarrow> same_request r r'"
  using keeps [of r s r' ck] by simp

end

lemma of_verdict_Next: "of_verdict r v = Next r' ck \<Longrightarrow> r' = r"
  by (cases v) (auto simp: of_verdict_def)

interpretation rate_gate: gate_handler "\<lambda>r l. rateLimitHandler listNets rl ipOf now r l" for listNets rl ipOf now
  by unfold_locales (auto simp: rateLimitHandler_def Let_def split: if_splits prod.splits bool.splits)

interpretation list_gate: gate_handler
  "\<lambda>r g. case accessListHandler bcrypt al ipOf geo geoLoaded now acquired r g of (v, g') \<Rightarrow> (of_verdict r v, g')"
  for bcrypt al ipOf geo geoLoaded now acquired
  by unfold_locales (auto dest: of_verdict_Next split: prod.splits)

interpretation bounce_gate: gate_handler
  "\<lambda>r (c, s). case bouncerHandler w b ipOf r c s of (out, c', s') \<Rightarrow> (out, (c', s'))" for w b ipOf
  by unfold_locales
    (auto simp: bouncerHandler_def bouncer_deny_def split: if_splits prod.splits option.splits)

interpretation guard_gate: gate_handler "\<lambda>r (s :: unit). (guardHandler g ipOf r, s)" for g ipOf
  by unfold_locales (auto simp: guardHandler_def split: if_splits)

lemma forwardAuthGate_Next: "forwardAuthGate fa rm req r = Next r' ck \<Longrightarrow> r' = r"
  by (auto simp: forwardAuthGate_def split: option.splits if_splits)

lemma clientCertGate_Next: "clientCertGate anchors spec ip nets ds r = Next r' ck \<Longrightarrow> r' = r"
  by (auto simp: clientCertGate_def split: option.splits if_splits)

lemma authRequestHandler_Next: "authRequestHandler p server ip nets r = Next r' ck \<Longrightarrow> same_request r r'"
  by (auto simp: authRequestHandler_def Let_def split: option.splits if_splits)

lemma oidc_handler_Next: "oidc_handler env d r st cached = (Next r' ck, st', c) \<Longrightarrow> same_request r r'"
  by (erule oidc_handler_NextD) (simp add: injectSSOIdentity_def Let_def)

lemma authHandler_Next: "authHandler env reg h ip a r st sso = (Next r' ck, st', sso') \<Longrightarrow> same_request r r'"
  by (auto simp: authHandler_def auth_unavailable_def Let_def split: if_splits option.splits prod.splits
      dest: clientCertGate_Next forwardAuthGate_Next authRequestHandler_Next oidc_handler_Next of_verdict_Next)

lemma authHandlerFor_Next: "authHandlerFor env reg h ip a r st sso = (Next r' ck, st', sso') \<Longrightarrow> same_request r r'"
  by (auto simp: authHandlerFor_def split: if_splits dest: authHandler_Next)

interpretation auth_gate: gate_handler
  "\<lambda>r (st, sso). authHandlerFor env reg h ip a r st sso" for env reg h ip a
  by unfold_locales (auto split: prod.splits, metis authHandlerFor_Next prod.collapse)

definition is_gate :: "tier \<Rightarrow> bool" where
  "is_gate t = (case t of HeadersTier _ \<Rightarrow> False | StripTier _ \<Rightarrow> False | RewriteTier _ \<Rightarrow> False | _ \<Rightarrow> True)"

lemma serve_gate_keeps:
  assumes "is_gate t" "serve_tier env reg h t r st sso = (Next r' ck, st', sso')"
  shows "same_request r r'"
proof (cases t)
  case (RateTier rl)
  with assms(2) show ?thesis by (auto simp: serve_tier_def Let_def split: prod.splits dest: rate_gate.keeps_result)
next
  case (ListTier al)
  with assms(2) show ?thesis by (auto simp: serve_tier_def Let_def split: prod.splits dest: of_verdict_Next)
next
  case (BounceTier b)
  with assms(2) bounce_gate.keeps_result [of "ce_bouncer env" b _ r] show ?thesis
    by (fastforce simp: serve_tier_def Let_def split: prod.splits)
next
  case (AuthTier a)
  with assms(2) show ?thesis by (auto simp: serve_tier_def Let_def dest: authHandlerFor_Next)
next
  case (GuardTier g)
  with assms(2) show ?thesis by (auto simp: serve_tier_def Let_def guardHandler_def split: if_splits)
qed (use assms(1) in \<open>simp_all add: is_gate_def\<close>)

section \<open>The way through a chain\<close>

lemma serve_chain_prefix:
  "serve_chain env reg h ts sts sso r ck = (vis, res, sts', sso') \<Longrightarrow> \<exists>zs. ts = map fst vis @ zs \<and> (zs \<noteq> [] \<longrightarrow> (\<exists>out. res = Stopped out))"
proof (induction ts arbitrary: sts sso r ck vis res sts' sso')
  case (Cons t ts)
  obtain out s' sso1 where tr: "serve_tier env reg h t r (case sts of [] \<Rightarrow> NoState | s # _ \<Rightarrow> s) sso = (out, s', sso1)"
    by (metis prod_cases3)
  show ?case
  proof (cases out)
    case (Next r' ck')
    obtain v rs ss s2 where rec: "serve_chain env reg h ts (drop 1 sts) sso1 r' (ck @ ck') = (v, rs, ss, s2)" by (metis prod_cases4)
    with Cons.prems tr Next have "vis = (t, r) # v" "res = rs" by auto
    with Cons.IH [OF rec] show ?thesis by auto
  qed (use Cons.prems tr in auto)
qed simp

lemma serve_chain_gates:
  assumes "serve_chain env reg h (gs @ ss) sts sso r ck = (vis, res, sts', sso')"
    and "list_all is_gate gs" "list_all (\<lambda>t. \<not> is_gate t) ss" "(t, r') \<in> set vis" "is_gate t"
  shows "same_request r r'"
  using assms
proof (induction gs arbitrary: sts sso r ck vis res sts' sso')
  case Nil
  obtain zs where "ss = map fst vis @ zs" using serve_chain_prefix [OF Nil.prems(1)] by auto
  with Nil.prems(4) have "t \<in> set ss" by force
  with Nil.prems(3,5) show ?case by (auto simp: list_all_iff)
next
  case (Cons g gs)
  obtain out s' sso1 where tr: "serve_tier env reg h g r (case sts of [] \<Rightarrow> NoState | s # _ \<Rightarrow> s) sso = (out, s', sso1)"
    by (metis prod_cases3)
  show ?case
  proof (cases out)
    case (Next r1 ck')
    obtain v rs st2 s2 where rec: "serve_chain env reg h (gs @ ss) (drop 1 sts) sso1 r1 (ck @ ck') = (v, rs, st2, s2)" by (metis prod_cases4)
    with Cons.prems(1) tr Next have "vis = (g, r) # v" by auto
    moreover have "same_request r r1" using serve_gate_keeps [of g] tr Next Cons.prems(2) by auto
    ultimately show ?thesis using Cons.IH [OF rec _ Cons.prems(3) _ Cons.prems(5)] Cons.prems(2,4) same_request_trans by auto
  qed (use Cons.prems tr in auto)
qed

lemma gate_tiers_gates: "list_all is_gate (gate_tiers env h inline reg)"
  by (auto simp: gate_tiers_def list_all_iff is_gate_def)

lemma shape_tiers_shape: "list_all (\<lambda>t. \<not> is_gate t) (shape_tiers env h inline reg)"
  by (auto simp: shape_tiers_def list_all_iff is_gate_def)

text \<open>Every security tier judges the request the client sent. Whatever headers the gates before it added, and although
  strip and rewrite tiers change the path for the backend, each rate limit, access list, bouncer, auth gate and guard of a
  host's or location's chain that a request reaches sees its path, method, query, peer, host and TLS state unchanged.\<close>

theorem gates_see_client_request:
  assumes "serve_host env reg h (buildChainInline env hs inline reg) sts sso r = (vis, res, sts', sso')"
    and "(t, r') \<in> set vis" "is_gate t"
  shows "r' = r\<lparr>Header := Header r'\<rparr>"
proof -
  have "serve_chain env reg h (gate_tiers env hs inline reg @ shape_tiers env hs inline reg) sts sso r [] = (vis, res, sts', sso')"
    using assms(1,2) by (auto simp: serve_host_def buildChainInline_def split: if_splits)
  from serve_chain_gates [OF this gate_tiers_gates shape_tiers_shape assms(2,3)] show ?thesis by (simp add: same_request_def)
qed

section \<open>Locations\<close>

lemma map_filter_append: "List.map_filter f (xs @ ys) = List.map_filter f xs @ List.map_filter f ys"
  by (simp add: List.map_filter_def)

lemma location_host_fields [simp]:
  "hs_Middlewares (location_host h loc) = hs_Middlewares h @ loc_Middlewares loc"
  "hs_AccessLists (location_host h loc) = hs_AccessLists h @ loc_AccessLists loc"
  by (simp_all add: location_host_def Let_def)

lemma location_gates: "set (gate_tiers env h (hostInline h) reg) \<subseteq> set (gate_tiers env (location_host h loc) (locationInline h loc) reg)"
  by (auto simp: gate_tiers_def of_kind_def map_filter_append locationInline_def)

lemma find_unknown: "find (\<lambda>n. map_of m n = None) ns = None \<longleftrightarrow> set ns \<subseteq> dom (map_of m)"
  by (auto simp: find_None_iff)

lemma unresolved_None: "unresolvedRefs h reg = None \<longleftrightarrow>
    set (hs_AccessLists h) \<subseteq> dom (map_of (reg_accessLists reg)) \<and> set (hs_Middlewares h) \<subseteq> dom (map_of (reg_middlewares reg))"
  unfolding find_unknown [symmetric] by (simp add: unresolvedRefs_def split: option.split)

lemma serve_chain_Proxied:
  assumes "serve_chain env reg h ts sts sso r ck = (vis, Proxied r' ck', sts', sso')"
  shows "map fst vis = ts"
  using serve_chain_prefix [OF assms] by auto

text \<open>C23: A location is at least as strict as its host. When a request is proxied by a location's chain, the host's own chain
  is one that could be built, and the request has passed every gate of it on the way, each judging the request the client
  sent; a location that cannot resolve a name of its host or of its own proxies nothing.\<close>

theorem location_at_least_as_strict:
  assumes "serve_host env reg h (location_chain env hs loc reg) sts sso r = (vis, Proxied r' ck, sts', sso')"
  shows "\<exists>ts. buildChain env hs reg = Some ts \<and>
    (\<forall>t \<in> set ts. is_gate t \<longrightarrow> (\<exists>r1. (t, r1) \<in> set vis \<and> r1 = r\<lparr>Header := Header r1\<rparr>))"
proof -
  let ?gs = "gate_tiers env (location_host hs loc) (locationInline hs loc) reg"
  let ?ss = "shape_tiers env (location_host hs loc) (locationInline hs loc) reg"
  have res: "unresolvedRefs (location_host hs loc) reg = None"
    and serve: "serve_chain env reg h (?gs @ ?ss) sts sso r [] = (vis, Proxied r' ck, sts', sso')"
    using assms by (auto simp: serve_host_def location_chain_def buildChainInline_def split: if_splits)
  have "unresolvedRefs hs reg = None" using res by (simp add: unresolved_None)
  then have built: "buildChain env hs reg = Some (gate_tiers env hs (hostInline hs) reg @ shape_tiers env hs (hostInline hs) reg)"
    by (simp add: buildChain_def buildChainInline_def)
  have "\<exists>r1. (t, r1) \<in> set vis \<and> r1 = r\<lparr>Header := Header r1\<rparr>"
    if t: "t \<in> set (gate_tiers env hs (hostInline hs) reg @ shape_tiers env hs (hostInline hs) reg)" "is_gate t" for t
  proof -
    have "t \<in> set (gate_tiers env hs (hostInline hs) reg)" using t shape_tiers_shape by (fastforce simp: list_all_iff)
    then have "t \<in> set ?gs" using location_gates by blast
    then have "t \<in> fst ` set vis" using serve_chain_Proxied [OF serve] by (metis Un_iff list.set_map set_append)
    then obtain r1 where "(t, r1) \<in> set vis" by force
    then show ?thesis
      using serve_chain_gates [OF serve gate_tiers_gates shape_tiers_shape _ t(2)] by (auto simp: same_request_def)
  qed
  with built show ?thesis by auto
qed

section \<open>The order of the tiers\<close>

definition network_gate :: "tier \<Rightarrow> bool" where
  "network_gate t = (case t of RateTier _ \<Rightarrow> True | ListTier _ \<Rightarrow> True | BounceTier _ \<Rightarrow> True | _ \<Rightarrow> False)"

lemma gate_tiers_split:
  obtains ns gs where "gate_tiers env h inline reg = ns @ gs" "list_all network_gate ns" "list_all (\<lambda>t. \<not> network_gate t) gs"
proof -
  let ?ns = "map RateTier (rev (in_rateLimit inline)) @
     map RateTier (rev (of_kind reg ''rate-limit'' mw_RateLimit (hs_Middlewares h))) @
     map (\<lambda>al. ListTier (compileAccessList (ce_sources env) al)) (rev (List.map_filter (map_of (reg_accessLists reg)) (hs_AccessLists h))) @
     map BounceTier (rev (of_kind reg ''bouncer'' (\<lambda>m. map_option (compileBouncer (ce_resolve env) (mw_Name m)) (mw_Bouncer m)) (hs_Middlewares h)))"
  let ?gs = "map AuthTier (rev (in_auth inline)) @ map AuthTier (rev (of_kind reg ''auth'' mw_Auth (hs_Middlewares h))) @
     map (\<lambda>g. GuardTier (compileGuard g)) (rev (of_kind reg ''guard'' mw_Guard (hs_Middlewares h)))"
  have "gate_tiers env h inline reg = ?ns @ ?gs" by (simp add: gate_tiers_def)
  moreover have "list_all network_gate ?ns" "list_all (\<lambda>t. \<not> network_gate t) ?gs" by (auto simp: network_gate_def list_all_iff)
  ultimately show ?thesis using that by blast
qed

text \<open>A request reaches an auth gate, a guard or the backend only after every network control let it through. If a tier
  that is not a rate limit, access list or bouncer sees the request, each rate limit, access list and bouncer of the chain
  saw it before and passed it, so a client they refuse never causes a login redirect or an auth subrequest.\<close>

theorem network_gates_first:
  assumes "serve_host env reg h (buildChainInline env hs inline reg) sts sso r = (vis, res, sts', sso')"
    and "vis = before_t @ (t, r') # after_t" "\<not> network_gate t" "n \<in> set (gate_tiers env hs inline reg)" "network_gate n"
  shows "n \<in> fst ` set before_t"
proof -
  obtain ns gs where g: "gate_tiers env hs inline reg = ns @ gs" "list_all network_gate ns" "list_all (\<lambda>t. \<not> network_gate t) gs"
    by (rule gate_tiers_split)
  have "serve_chain env reg h ((ns @ gs) @ shape_tiers env hs inline reg) sts sso r [] = (vis, res, sts', sso')"
    using assms(1,2) g(1) by (auto simp: serve_host_def buildChainInline_def split: if_splits)
  from serve_chain_prefix [OF this] obtain zs where zs: "ns @ gs @ shape_tiers env hs inline reg = map fst vis @ zs" by auto
  have "length ns \<le> length before_t"
  proof (rule ccontr)
    assume short: "\<not> ?thesis"
    have "(ns @ gs @ shape_tiers env hs inline reg) ! length before_t = t" unfolding zs by (simp add: assms(2) nth_append)
    with short have "t \<in> set ns" by (metis not_le nth_append nth_mem)
    with g(2) assms(3) show False by (auto simp: list_all_iff)
  qed
  then have "ns = take (length ns) (map fst before_t)"
    using arg_cong [OF zs, of "take (length ns)"] by (simp add: assms(2))
  moreover have "n \<in> set ns" using assms(4,5) g by (auto simp: list_all_iff)
  ultimately show ?thesis by (metis in_set_takeD list.set_map)
qed

section \<open>Validated configurations\<close>

lemma registry_dom:
  "dom (map_of (reg_middlewares (buildRegistry c))) = mw_Name ` set (c_Middlewares c)"
  "dom (map_of (reg_accessLists (buildRegistry c))) = set (list_names c)"
  by (force simp: buildRegistry_def dom_map_of_conv_image_fst list_names_def)+

lemma names_known:
  "mw_refs c owner names = [] \<Longrightarrow> [] \<notin> set names \<Longrightarrow> set names \<subseteq> mw_Name ` set (c_Middlewares c)"
  "list_refs c kind owner field names = [] \<Longrightarrow> [] \<notin> set names \<Longrightarrow> set names \<subseteq> set (list_names c)"
  by (auto simp: mw_refs_def list_refs_def concat_map_Nil list_all_iff)

text \<open>C24: A valid configuration builds every chain. Each proxy host of a valid configuration, and each of its locations, gets
  its full chain and not the 503 answer, provided no reference is the empty string.\<close>

theorem valid_config_builds_chains:
  assumes "Validate genv c = []" "h \<in> set (c_ProxyHosts c)" "s = ph_rest h"
    and "[] \<notin> set (hs_Middlewares s @ hs_AccessLists s)"
    and "list_all (\<lambda>l. [] \<notin> set (loc_Middlewares l @ loc_AccessLists l)) (hs_Locations s)"
  shows "buildChain env s (buildRegistry c) \<noteq> None \<and>
    list_all (\<lambda>l. location_chain env s l (buildRegistry c) \<noteq> None) (hs_Locations s)"
proof -
  have refs: "proxy_host_refs c h = []"
    using host_errors_Nil(1) [OF Validate_parts(2) [OF assms(1)]] assms(2) by (auto simp: list_all_iff)
  have own: "mw_refs c (ph_Name h) (hs_Middlewares s) = []" "list_refs c ''proxy host'' (ph_Name h) ''accessLists'' (hs_AccessLists s) = []"
    and locs: "list_all (\<lambda>l. location_refs c (ph_Name h) (ph_Disabled h) l = []) (hs_Locations s)"
    using refs assms(3) by (auto simp: proxy_host_refs_def Let_def concat_map_Nil list_all_iff)
  have host: "unresolvedRefs s (buildRegistry c) = None"
    using names_known(1) [OF own(1)] names_known(2) [OF own(2)] assms(4) by (simp add: unresolved_None registry_dom)
  have "unresolvedRefs (location_host s l) (buildRegistry c) = None" if l: "l \<in> set (hs_Locations s)" for l
  proof -
    have "mw_refs c (ph_Name h) (loc_Middlewares l) = []" "list_refs c ''proxy host'' (ph_Name h) ''accessLists'' (loc_AccessLists l) = []"
      using locs l by (auto simp: list_all_iff location_refs_def)
    then show ?thesis using host assms(5) l names_known by (simp add: unresolved_None registry_dom list_all_iff)
  qed
  with host show ?thesis by (simp add: buildChain_def location_chain_def buildChainInline_def list_all_iff)
qed

definition empty_ref_config :: gpm_config where
  "empty_ref_config = demo_config\<lparr>c_ProxyHosts := [named_host ''wiki'' [''wiki.example.com''] (plain_shape\<lparr>hs_Upstream := backend, hs_Middlewares := [[]]\<rparr>)]\<rparr>"

text \<open>Validation accepts an empty reference that the data plane does not. A configuration whose enabled host names the
  middleware \<open>""\<close> is valid, and the host answers every request with 503.\<close>

theorem empty_reference_stops_host:
  "Validate any_env empty_ref_config = [] \<and>
   serve_host env reg h (buildChain env (ph_rest (hd (c_ProxyHosts empty_ref_config))) (buildRegistry empty_ref_config)) sts sso r
     = ([], Stopped (Deny 503 [] None), sts, sso)"
proof
  show "Validate any_env empty_ref_config = []" by code_simp
  have "unresolvedRefs (ph_rest (hd (c_ProxyHosts empty_ref_config))) (buildRegistry empty_ref_config) = Some ''middleware ''" by code_simp
  then show "serve_host env reg h (buildChain env (ph_rest (hd (c_ProxyHosts empty_ref_config))) (buildRegistry empty_ref_config)) sts sso r
     = ([], Stopped (Deny 503 [] None), sts, sso)"
    by (simp add: serve_host_def buildChain_def buildChainInline_def)
qed

section \<open>A concrete chain\<close>

definition demo_env :: chain_env where
  "demo_env = \<lparr>ce_bcrypt = (\<lambda>_ _. False), ce_acquired = True, ce_now = 0, ce_trusted = None, ce_sources = Map.empty, ce_geo = None,
     ce_geoLoaded = None, ce_anchors = [], ce_url = (\<lambda>_. None), ce_server = (\<lambda>_. None), ce_resolve = (\<lambda>_. None),
     ce_regexp = (\<lambda>_ _. None), ce_bouncer = demo_world 0 200, ce_sso = demo_sso\<rparr>"

definition demo_registry :: registry where
  "demo_registry = \<lparr>reg_accessLists = [], reg_middlewares = [], reg_idps = []\<rparr>"

definition limited_shape :: host_shape where
  "limited_shape = plain_shape\<lparr>hs_RateLimit := Some demo_rate\<rparr>"

definition app_location :: location where
  "app_location = \<lparr>loc_Path = ''/app'', loc_Upstream = None, loc_UpstreamGroupRef = [], loc_Middlewares = [], loc_AccessLists = [],
     loc_StripPrefix = True, loc_Auth = None, loc_RateLimit = Some demo_rate\<rparr>"

definition limited_host :: "host_shape proxy_host" where
  "limited_host = named_host ''app'' [''app.example.com''] limited_shape"

lemma first_request_passes: "\<exists>l. rateLimitHandler listNets demo_rate ipOf now r (newRateLimiter demo_rate) = (Next r [], l)"
proof -
  have "rate_exempt_nets listNets demo_rate = []" by (simp add: rate_exempt_nets_def demo_rate_def)
  moreover have "fst (allow now key (newRateLimiter demo_rate)) = True" for key
    by (simp add: allow_def newRateLimiter_buckets take_token_def new_bucket_def)
      (simp add: newRateLimiter_def RateAndDefaultBurst_def demo_rate_def usesWindow_def Let_def)
  then obtain b l where "allow now (case ipOf r of None \<Rightarrow> nilIPRateLimitKey | Some a \<Rightarrow> ipBucketKey (Some a)) (newRateLimiter demo_rate) = (True, b, l)"
    by (metis prod.collapse)
  ultimately show ?thesis by (auto simp: rateLimitHandler_def InNets_opt_def Let_def)
qed

lemma demo_chain:
  "location_chain demo_env limited_shape app_location demo_registry = Some [RateTier demo_rate, RateTier demo_rate, StripTier ''/app'']"
proof -
  have "normalizeLocationPrefix ''/app'' = ''/app''" by code_simp
  then show ?thesis
    by (simp add: location_chain_def buildChainInline_def unresolved_None gate_tiers_def shape_tiers_def of_kind_def locationInline_def
        hostInline_def limited_shape_def app_location_def plain_shape_def List.map_filter_def)
qed

lemma demo_serve:
  "\<exists>sts. serve_host demo_env demo_registry limited_host (location_chain demo_env limited_shape app_location demo_registry) [] sso r =
     ([(RateTier demo_rate, r), (RateTier demo_rate, r), (StripTier ''/app'', r)],
      Proxied (r\<lparr>url_Path := stripPrefix ''/app'' (url_Path r)\<rparr>) [], sts, sso)"
proof -
  have "\<exists>l. serve_tier demo_env demo_registry limited_host (RateTier demo_rate) r NoState sso = (Next r [], RateState l, sso)"
    using first_request_passes by (simp add: serve_tier_def Let_def) (metis (no_types, lifting) old.prod.case)
  then obtain l where "serve_tier demo_env demo_registry limited_host (RateTier demo_rate) r NoState sso = (Next r [], RateState l, sso)" ..
  then show ?thesis by (simp add: demo_chain serve_host_def serve_tier_def [of _ _ _ "StripTier _"])
qed

theorem gates_see_client_request_witness:
  "\<exists>vis res sts. serve_host demo_env demo_registry limited_host (location_chain demo_env limited_shape app_location demo_registry) []
      demo_watermark sample_request = (vis, res, sts, demo_watermark) \<and> list_all (\<lambda>(t, r). is_gate t \<longrightarrow> url_Path r = ''/'') vis"
proof -
  obtain sts where v: "serve_host demo_env demo_registry limited_host (location_chain demo_env limited_shape app_location demo_registry) []
      demo_watermark sample_request =
     ([(RateTier demo_rate, sample_request), (RateTier demo_rate, sample_request), (StripTier ''/app'', sample_request)],
      Proxied (sample_request\<lparr>url_Path := stripPrefix ''/app'' (url_Path sample_request)\<rparr>) [], sts, demo_watermark)"
    using demo_serve by blast
  have "sample_request = sample_request\<lparr>Header := Header sample_request\<rparr>"
    by (rule gates_see_client_request [OF v [unfolded location_chain_def], of "RateTier demo_rate"]) (simp_all add: is_gate_def)
  with v show ?thesis by (auto simp: sample_request_def is_gate_def)
qed

theorem location_at_least_as_strict_witness:
  "\<exists>ts. buildChain demo_env limited_shape demo_registry = Some ts"
  using location_at_least_as_strict demo_serve [of demo_watermark sample_request] by blast

theorem network_gates_first_witness:
  "RateTier demo_rate \<in> fst ` set [(RateTier demo_rate, sample_request), (RateTier demo_rate, sample_request)]"
proof -
  obtain sts where v: "serve_host demo_env demo_registry limited_host (location_chain demo_env limited_shape app_location demo_registry) []
      demo_watermark sample_request =
     ([(RateTier demo_rate, sample_request), (RateTier demo_rate, sample_request), (StripTier ''/app'', sample_request)],
      Proxied (sample_request\<lparr>url_Path := stripPrefix ''/app'' (url_Path sample_request)\<rparr>) [], sts, demo_watermark)"
    using demo_serve by blast
  have "RateTier demo_rate \<in> set (gate_tiers demo_env (location_host limited_shape app_location) (locationInline limited_shape app_location) demo_registry)"
    by (simp add: gate_tiers_def locationInline_def app_location_def)
  from network_gates_first [OF v [unfolded location_chain_def], of "[(RateTier demo_rate, sample_request), (RateTier demo_rate, sample_request)]"
      "StripTier ''/app''" sample_request "[]", OF _ _ this]
  show ?thesis by (simp add: network_gate_def)
qed

theorem valid_config_builds_chains_witness:
  "buildChain demo_env mtls_shape (buildRegistry demo_config) \<noteq> None"
proof -
  have h: "named_host ''app'' [''App.example.com''] mtls_shape \<in> set (c_ProxyHosts demo_config)" by (simp add: demo_config_def)
  from valid_config_builds_chains [OF demo_valid h refl] show ?thesis by (simp add: named_host_def mtls_shape_def plain_shape_def)
qed

end
