(* ===== verification/Upstream_Group.thy ===== *)
theory Upstream_Group
  imports Upstream_Order Client_IP Url_Path
begin

text \<open>
  Upstream groups, second half (\<open>internal/dataplane/upstreamgroup.go\<close>): the failover round trip, its
  request body source and in-flight gauge, and the health manager that starts and stops probe loops
  across reloads.

  The network is an argument: \<open>env_result n i\<close> is how the \<open>n\<close>-th attempt, at upstream \<open>i\<close>, ended, and
  \<open>env_ctx n\<close> whether the client was gone before it. The upstream a sticky cookie pins the request to
  is the argument \<open>pinned\<close>. A request body is its bytes and, if reading it fails, the position of the
  failure.
\<close>

section \<open>Request bodies\<close>

record body_in =
  body_bytes :: "byte list"
  body_fails :: "nat option"

record body_source =
  buf :: "byte list"
  stream :: "byte list option"
  body_none :: bool

definition groupRetryBufBytes :: nat where "groupRetryBufBytes = 1048576"

text \<open>The read stops at \<open>lim + 1\<close> bytes; it fails when the failure lies before that.\<close>

definition newBodySource :: "nat \<Rightarrow> body_in option \<Rightarrow> (body_source \<times> bool) option" where
  "newBodySource lim b =
     (case b of
        None \<Rightarrow> Some (\<lparr>buf = [], stream = None, body_none = True\<rparr>, True)
      | Some b \<Rightarrow>
          if (case body_fails b of None \<Rightarrow> False | Some p \<Rightarrow> p < lim + 1) then None
          else let data = take (lim + 1) (body_bytes b) in
               if length data \<le> lim then Some (\<lparr>buf = data, stream = None, body_none = False\<rparr>, True)
               else Some (\<lparr>buf = data, stream = Some (drop (lim + 1) (body_bytes b)), body_none = False\<rparr>, False))"

definition body_next :: "body_source \<Rightarrow> byte list option" where
  "body_next b =
     (if body_none b then None
      else case stream b of Some rest \<Rightarrow> Some (buf b @ rest) | None \<Rightarrow> Some (buf b))"

section \<open>The failover round trip\<close>

datatype attempt_result = GotResponse | ConnectError | OtherError

record out_request =
  out_scheme :: string
  out_urlHost :: string
  out_path :: string
  out_Host :: string
  out_body :: "byte list option"

definition applyHostHeader :: "string \<Rightarrow> string \<Rightarrow> string" where
  "applyHostHeader hostHeader clientHost =
     (if hostHeader = [] then clientHost else if hostHeader = ''upstream'' then [] else hostHeader)"

definition attempt_request :: "upstream_health \<Rightarrow> http_request \<Rightarrow> body_source \<Rightarrow> out_request" where
  "attempt_request u req b =
     \<lparr>out_scheme = up_scheme u, out_urlHost = up_addr u,
      out_path = (if up_path u \<noteq> [] then joinUpstreamBasePath (up_path u) (url_Path req) else url_Path req),
      out_Host = (if up_hostHeader u \<noteq> [] then applyHostHeader (up_hostHeader u) (Host req) else Host req),
      out_body = body_next b\<rparr>"

datatype rt_result =
  RtResponse (rt_upstream: nat) (rt_setCookie: bool)
  | RtBodyError | RtContext | RtOther | RtLastConnect | RtNothing

record group_health =
  gh_name :: string
  gh_policy :: string
  gh_sticky :: bool
  gh_ups :: "upstream_health list"

record net_env =
  env_result :: "nat \<Rightarrow> nat \<Rightarrow> attempt_result"
  env_ctx :: "nat \<Rightarrow> bool"

definition add_active :: "nat \<Rightarrow> int \<Rightarrow> upstream_health list \<Rightarrow> upstream_health list" where
  "add_active i d ups = ups[i := (ups ! i)\<lparr>active := active (ups ! i) + d\<rparr>]"

definition report_at :: "nat \<Rightarrow> bool \<Rightarrow> upstream_health list \<Rightarrow> upstream_health list" where
  "report_at i ok ups = ups[i := report ok (ups ! i)]"

text \<open>The attempt loop: the result, the attempts made (which upstream, what was sent) and the group's
  upstreams afterwards. \<open>n\<close> counts the attempts made so far.\<close>

fun try_candidates ::
  "net_env \<Rightarrow> http_request \<Rightarrow> body_source \<Rightarrow> bool \<Rightarrow> nat option \<Rightarrow> nat \<Rightarrow> nat list \<Rightarrow> upstream_health list \<Rightarrow>
   rt_result \<times> (nat \<times> out_request) list \<times> upstream_health list" where
  "try_candidates env req body sticky pinned n [] ups = (if n = 0 then RtNothing else RtLastConnect, [], ups)"
| "try_candidates env req body sticky pinned n (i # cs) ups =
     (if env_ctx env n then (RtContext, [], ups)
      else let out = attempt_request (ups ! i) req body;
               ups1 = add_active i 1 ups
           in case env_result env n i of
                GotResponse \<Rightarrow> (RtResponse i (sticky \<and> pinned \<noteq> Some i), [(i, out)], report_at i True ups1)
              | OtherError \<Rightarrow> (RtOther, [(i, out)], add_active i (-1) ups1)
              | ConnectError \<Rightarrow>
                  (case try_candidates env req body sticky pinned (n + 1) cs (report_at i False (add_active i (-1) ups1)) of
                     (res, log, ups2) \<Rightarrow> (res, (i, out) # log, ups2)))"

definition RoundTrip ::
  "net_env \<Rightarrow> nat \<Rightarrow> nat option \<Rightarrow> body_in option \<Rightarrow> http_request \<Rightarrow> group_health \<Rightarrow>
   rt_result \<times> (nat \<times> out_request) list \<times> group_health" where
  "RoundTrip env lim pinned body req g =
     (let (cands0, ups) = candidates (gh_policy g) (clientKey req) (gh_ups g);
          cands1 = (case pinned of None \<Rightarrow> cands0 | Some u \<Rightarrow> promote cands0 u)
      in case newBodySource lim body of
           None \<Rightarrow> (RtBodyError, [], g\<lparr>gh_ups := ups\<rparr>)
         | Some (src, retriable) \<Rightarrow>
             (let cands = (if \<not> retriable \<and> length cands1 > 1 then take 1 cands1 else cands1)
              in case try_candidates env req src (gh_sticky g) pinned 0 cands ups of
                   (res, log, ups') \<Rightarrow> (res, log, g\<lparr>gh_ups := ups'\<rparr>)))"

text \<open>The response body keeps its request counted until it is closed; closing again changes
  nothing.\<close>

definition countedBody_Close :: "nat \<Rightarrow> bool \<times> upstream_health list \<Rightarrow> bool \<times> upstream_health list" where
  "countedBody_Close i s = (case s of (closed, ups) \<Rightarrow> (True, if closed then ups else add_active i (-1) ups))"

section \<open>The health manager\<close>

text \<open>A \<open>*groupHealth\<close> is a number; \<open>hm_spec\<close> gives the spec it was built from. \<open>hm_started\<close> are those
  whose probe loop was started, \<open>hm_stopped\<close> those whose stop channel was closed (a second close
  panics in Go).\<close>

record 'spec group_cfg =
  g_Name :: string
  g_Disabled :: bool
  g_spec :: 'spec

record 'spec health_manager =
  hm_groups :: "(string \<times> nat) list"
  hm_spec :: "nat \<Rightarrow> 'spec"
  hm_fresh :: nat
  hm_started :: "nat set"
  hm_stopped :: "nat set"

record health_stage =
  st_next :: "(string \<times> nat) list"
  st_added :: "nat list"

definition stage_one ::
  "'spec group_cfg \<Rightarrow> health_stage \<times> 'spec health_manager \<Rightarrow> health_stage \<times> 'spec health_manager" where
  "stage_one g s =
     (case s of (st, m) \<Rightarrow>
        if g_Disabled g then (st, m)
        else case map_of (hm_groups m) (g_Name g) of
          Some cur \<Rightarrow>
            if hm_spec m cur = g_spec g
            then (st\<lparr>st_next := AList.update (g_Name g) cur (st_next st)\<rparr>, m)
            else (st\<lparr>st_next := AList.update (g_Name g) (hm_fresh m) (st_next st), st_added := st_added st @ [hm_fresh m]\<rparr>,
                  m\<lparr>hm_fresh := hm_fresh m + 1, hm_spec := (hm_spec m)(hm_fresh m := g_spec g)\<rparr>)
        | None \<Rightarrow>
            (st\<lparr>st_next := AList.update (g_Name g) (hm_fresh m) (st_next st), st_added := st_added st @ [hm_fresh m]\<rparr>,
             m\<lparr>hm_fresh := hm_fresh m + 1, hm_spec := (hm_spec m)(hm_fresh m := g_spec g)\<rparr>))"

definition stage :: "'spec group_cfg list \<Rightarrow> 'spec health_manager \<Rightarrow> health_stage \<times> 'spec health_manager" where
  "stage gs m = foldl (\<lambda>s g. stage_one g s) (\<lparr>st_next = [], st_added = []\<rparr>, m) gs"

definition commit_closes :: "health_stage \<Rightarrow> 'spec health_manager \<Rightarrow> nat list" where
  "commit_closes st m = map snd (filter (\<lambda>(name, gh). map_of (st_next st) name \<noteq> Some gh) (hm_groups m))"

definition commit :: "health_stage \<Rightarrow> 'spec health_manager \<Rightarrow> 'spec health_manager" where
  "commit st m =
     m\<lparr>hm_groups := st_next st,
       hm_stopped := hm_stopped m \<union> set (commit_closes st m),
       hm_started := hm_started m \<union> set (st_added st)\<rparr>"

definition stopAll :: "'spec health_manager \<Rightarrow> 'spec health_manager" where
  "stopAll m = m\<lparr>hm_groups := [], hm_stopped := hm_stopped m \<union> snd ` set (hm_groups m)\<rparr>"

definition probing :: "'spec health_manager \<Rightarrow> nat set" where
  "probing m = hm_started m - hm_stopped m"

lemmas [go_eval] = newBodySource_def body_next_def applyHostHeader_def attempt_request_def add_active_def
  report_at_def RoundTrip_def countedBody_Close_def stage_one_def stage_def commit_closes_def commit_def
  stopAll_def probing_def

section \<open>Lemmas on the round trip\<close>

lemma length_updates [simp]:
  "length (add_active i d ups) = length ups" "length (report_at i ok ups) = length ups"
  by (simp_all add: add_active_def report_at_def)

lemma active_updates:
  "i < length ups \<Longrightarrow> active (add_active i d ups ! j) = active (ups ! j) + (if i = j then d else 0)"
  "active (report_at i ok ups ! j) = active (ups ! j)"
  by (auto simp: add_active_def report_at_def nth_update)

text \<open>What stays of an upstream while a request is served.\<close>

definition same_target :: "upstream_health \<Rightarrow> upstream_health \<Rightarrow> bool" where
  "same_target u v \<longleftrightarrow>
     up_scheme u = up_scheme v \<and> up_addr u = up_addr v \<and> up_path u = up_path v \<and> up_hostHeader u = up_hostHeader v"

lemma same_target_updates:
  "same_target (add_active i d ups ! j) (ups ! j)" "same_target (report_at i ok ups ! j) (ups ! j)"
  by (auto simp: same_target_def add_active_def report_at_def nth_update)

lemma same_target_trans: "same_target u v \<Longrightarrow> same_target v w \<Longrightarrow> same_target u w"
  by (simp add: same_target_def)

lemma same_target_request: "same_target u v \<Longrightarrow> attempt_request u req b = attempt_request v req b"
  by (simp add: same_target_def attempt_request_def)

lemma connect_target: "same_target (report_at i False (add_active i (-1) (add_active i 1 ups)) ! j) (ups ! j)"
  by (rule same_target_trans [OF same_target_updates(2) same_target_trans [OF same_target_updates(1) same_target_updates(1)]])

lemma connect_active:
  "i < length ups \<Longrightarrow> active (report_at i False (add_active i (-1) (add_active i 1 ups)) ! j) = active (ups ! j)"
  by (simp add: active_updates)

text \<open>The attempts are a prefix of the candidates, each built from the request as it came; all but
  the last failed to connect; only a response leaves a request counted; and when nothing but
  connect errors happened every candidate was tried.\<close>

definition trip_ok ::
  "net_env \<Rightarrow> http_request \<Rightarrow> body_source \<Rightarrow> nat \<Rightarrow> nat list \<Rightarrow> upstream_health list \<Rightarrow>
   rt_result \<Rightarrow> (nat \<times> out_request) list \<Rightarrow> upstream_health list \<Rightarrow> bool" where
  "trip_ok env req body n cs ups res log ups' \<longleftrightarrow>
     Sublist.prefix (map fst log) cs \<and>
     (\<forall>(i, out) \<in> set log. out = attempt_request (ups ! i) req body) \<and>
     (\<forall>k < length log - 1. env_result env (n + k) (fst (log ! k)) = ConnectError) \<and>
     length ups' = length ups \<and>
     (\<forall>j. active (ups' ! j) = active (ups ! j) + (if \<exists>c. res = RtResponse j c then 1 else 0)) \<and>
     (\<forall>j c. res = RtResponse j c \<longrightarrow> log \<noteq> [] \<and> fst (last log) = j) \<and>
     (res = RtLastConnect \<longrightarrow> map fst log = cs)"

lemma trip_ok_cons:
  assumes "trip_ok env req body (n + 1) cs (report_at i False (add_active i (-1) (add_active i 1 ups))) res log ups'"
    and "env_result env n i = ConnectError" "i < length ups"
  shows "trip_ok env req body n (i # cs) ups res ((i, attempt_request (ups ! i) req body) # log) ups'"
proof -
  let ?ups = "report_at i False (add_active i (-1) (add_active i 1 ups))"
  have K: "env_result env (n + k) (fst (((i, x) # log) ! k)) = ConnectError" if "k < length log" for k x
  proof (cases k)
    case (Suc l)
    with that have "l < length log - 1" by simp
    with assms(1) Suc show ?thesis by (simp add: trip_ok_def)
  qed (simp add: assms(2))
  have R: "attempt_request (?ups ! j) req body = attempt_request (ups ! j) req body" for j
    using connect_target same_target_request by blast
  have A: "active (?ups ! j) = active (ups ! j)" for j using connect_active [OF assms(3)] .
  have L: "log \<noteq> [] \<Longrightarrow> last ((i, x) # log) = last log" for x by simp
  note t = assms(1) [unfolded trip_ok_def R A length_updates]
  show ?thesis unfolding trip_ok_def
    using t K L by (intro conjI) (simp only: list.map fst_conv Sublist.prefix_order.order_refl Cons_prefix_Cons, auto)
qed

lemma try_candidates_ok:
  assumes "try_candidates env req body sticky pinned n cs ups = (res, log, ups')" "set cs \<subseteq> {..<length ups}"
  shows "trip_ok env req body n cs ups res log ups'"
  using assms
proof (induction cs arbitrary: n ups res log ups')
  case Nil
  then show ?case by (auto simp: trip_ok_def split: if_splits)
next
  case (Cons i cs)
  have i: "i < length ups" using Cons.prems(2) by simp
  show ?case
  proof (cases "\<not> env_ctx env n \<and> env_result env n i = ConnectError")
    case True
    let ?ups = "report_at i False (add_active i (-1) (add_active i 1 ups))"
    obtain res1 log1 ups1 where t: "try_candidates env req body sticky pinned (n + 1) cs ?ups = (res1, log1, ups1)"
      by (metis prod_cases3)
    have "trip_ok env req body (n + 1) cs ?ups res1 log1 ups1"
      using Cons.IH [OF t] Cons.prems(2) by simp
    from trip_ok_cons [OF this] True i t Cons.prems(1) show ?thesis by (auto simp: Let_def)
  next
    case False
    then consider (ctx) "env_ctx env n" | (resp) "\<not> env_ctx env n" "env_result env n i = GotResponse"
      | (err) "\<not> env_ctx env n" "env_result env n i = OtherError"
      by (cases "env_result env n i") auto
    then show ?thesis
    proof cases
      case ctx
      with Cons.prems(1) show ?thesis by (auto simp: trip_ok_def)
    next
      case resp
      with Cons.prems(1) have "res = RtResponse i (sticky \<and> pinned \<noteq> Some i)"
        "log = [(i, attempt_request (ups ! i) req body)]" "ups' = report_at i True (add_active i 1 ups)"
        by (simp_all add: Let_def)
      with i show ?thesis by (simp add: trip_ok_def active_updates)
    next
      case err
      with Cons.prems(1) have "res = RtOther" "log = [(i, attempt_request (ups ! i) req body)]"
        "ups' = add_active i (-1) (add_active i 1 ups)"
        by (simp_all add: Let_def)
      with i show ?thesis by (simp add: trip_ok_def active_updates)
    qed
  qed
qed

lemma body_complete:
  assumes "newBodySource lim b = Some (src, retriable)"
  shows "body_next src = map_option body_bytes b"
  using assms by (auto simp: newBodySource_def body_next_def Let_def split: option.splits if_splits)

lemma orderRoundRobin_frame:
  assumes "distinct hs" "set hs \<subseteq> {..<length ups}"
  shows "length (snd (orderRoundRobin hs ups)) = length ups \<and>
    (\<forall>i. \<exists>c. snd (orderRoundRobin hs ups) ! i = (ups ! i)\<lparr>rrCur := c\<rparr>)"
proof (cases "2 \<le> length hs")
  case True
  obtain order ups' where o: "orderRoundRobin hs ups = (order, ups')" by fastforce
  obtain b where "length ups' = length ups"
    "\<forall>i. ups' ! i = (if i \<in> set hs then (ups ! i)\<lparr>rrCur := rrCur (ups ! i) + weight (ups ! i) -
        (if i = b then rr_total ups hs else 0)\<rparr> else ups ! i)"
    using orderRoundRobin_spec [OF assms True o] by blast
  moreover have "\<exists>c. ups ! i = (ups ! i)\<lparr>rrCur := c\<rparr>" for i
    by (rule exI [of _ "rrCur (ups ! i)"]) simp
  ultimately show ?thesis using o by auto
next
  case False
  have "\<exists>c. ups ! i = (ups ! i)\<lparr>rrCur := c\<rparr>" for i by (rule exI [of _ "rrCur (ups ! i)"]) simp
  with False show ?thesis by (simp add: orderRoundRobin_def)
qed

lemma candidates_frame:
  "length (snd (candidates policy key ups)) = length ups \<and>
   (\<forall>i. \<exists>c. snd (candidates policy key ups) ! i = (ups ! i)\<lparr>rrCur := c\<rparr>)"
proof -
  let ?h = "filter (\<lambda>i. healthy (ups ! i)) [0..<length ups]"
  have same: "\<exists>c. ups ! i = (ups ! i)\<lparr>rrCur := c\<rparr>" for i by (rule exI [of _ "rrCur (ups ! i)"]) simp
  have "snd (candidates policy key ups) = (if policy = ''round-robin'' then snd (orderRoundRobin ?h ups) else ups)"
    by (simp add: candidates_def Let_def split: prod.split)
  with orderRoundRobin_frame [of ?h ups] same show ?thesis by auto
qed

lemma candidates_members: "distinct (fst (candidates policy key ups))" "set (fst (candidates policy key ups)) = {..<length ups}"
proof -
  note m = candidates_mset [of policy key ups]
  show "distinct (fst (candidates policy key ups))" unfolding mset_eq_imp_distinct_iff [OF m] by (rule distinct_upt)
  show "set (fst (candidates policy key ups)) = {..<length ups}" unfolding mset_eq_setD [OF m] by auto
qed

section \<open>Properties of the round trip\<close>

lemma RoundTrip_cases:
  assumes "RoundTrip env lim pinned body req g = (res, log, g')"
  obtains (unreadable) "newBodySource lim body = None" "res = RtBodyError" "log = []"
      "gh_ups g' = snd (candidates (gh_policy g) (clientKey req) (gh_ups g))"
  | (tried) src retriable cands where "newBodySource lim body = Some (src, retriable)"
      "distinct cands" "set cands \<subseteq> {..<length (gh_ups g)}" "retriable \<longrightarrow> set cands = {..<length (gh_ups g)}"
      "\<not> retriable \<longrightarrow> length cands \<le> 1"
      "trip_ok env req src 0 cands (snd (candidates (gh_policy g) (clientKey req) (gh_ups g))) res log (gh_ups g')"
proof -
  let ?c = "candidates (gh_policy g) (clientKey req) (gh_ups g)"
  define cands1 where "cands1 = (case pinned of None \<Rightarrow> fst ?c | Some u \<Rightarrow> promote (fst ?c) u)"
  have c1: "distinct cands1" "set cands1 = {..<length (gh_ups g)}"
    using candidates_members by (auto simp: cands1_def split: option.splits)
  show ?thesis
  proof (cases "newBodySource lim body")
    case None
    with assms show ?thesis by (intro unreadable) (auto simp: RoundTrip_def Let_def split: prod.splits)
  next
    case (Some sr)
    obtain src retriable where sr: "sr = (src, retriable)" by (cases sr)
    define cands where "cands = (if \<not> retriable \<and> length cands1 > 1 then take 1 cands1 else cands1)"
    obtain r l u where t: "try_candidates env req src (gh_sticky g) pinned 0 cands (snd ?c) = (r, l, u)"
      by (metis prod_cases3)
    obtain cs us where c: "?c = (cs, us)" by fastforce
    have rt: "res = r" "log = l" "gh_ups g' = u"
      using assms Some sr t unfolding RoundTrip_def Let_def cands_def cands1_def c fst_conv snd_conv by auto
    have sub: "set cands \<subseteq> {..<length (gh_ups g)}"
      using c1 set_take_subset [of 1 cands1] by (auto simp: cands_def)
    show ?thesis
      using try_candidates_ok [OF t] sub c1 Some sr rt candidates_frame
      by (intro tried [of src retriable cands]) (auto simp: cands_def)
  qed
qed

text \<open>C21: A failover never replays a request that may have been received. All attempts but the last
  ended in a connect error, they go to different upstreams, and each sends the whole body, the path
  composed from the original request path and the scheme and address of its own upstream. A body
  too large to buffer, or one that cannot be read, gets at most one attempt.\<close>

theorem failover_is_safe:
  assumes "RoundTrip env lim pinned body req g = (res, log, g')"
  shows "distinct (map fst log) \<and>
     (\<forall>k. k + 1 < length log \<longrightarrow> env_result env k (fst (log ! k)) = ConnectError) \<and>
     list_all (\<lambda>(i, out). i < length (gh_ups g) \<and> out_body out = map_option body_bytes body \<and>
        out_urlHost out = up_addr (gh_ups g ! i) \<and> out_scheme out = up_scheme (gh_ups g ! i)) log \<and>
     ((\<exists>b. body = Some b \<and> lim < length (body_bytes b)) \<longrightarrow> length log \<le> 1)"
  using assms
proof (cases rule: RoundTrip_cases)
  case unreadable
  then show ?thesis by simp
next
  case (tried src retriable cands)
  let ?u = "snd (candidates (gh_policy g) (clientKey req) (gh_ups g))"
  have pre: "Sublist.prefix (map fst log) cands" and out: "\<forall>(i, out) \<in> set log. out = attempt_request (?u ! i) req src"
    and conn: "\<forall>k < length log - 1. env_result env (0 + k) (fst (log ! k)) = ConnectError"
    using tried(6) by (auto simp: trip_ok_def)
  have "distinct (map fst log)" "set (map fst log) \<subseteq> set cands"
    using pre tried(2) set_mono_prefix [OF pre] by (auto simp: prefix_def)
  moreover have "length log \<le> 1" if "lim < length (body_bytes b)" "body = Some b" for b
  proof -
    have "\<not> retriable" using tried(1) that by (auto simp: newBodySource_def Let_def split: if_splits option.splits)
    with tried(5) prefix_length_le [OF pre] show ?thesis by simp
  qed
  moreover have "up_addr (?u ! i) = up_addr (gh_ups g ! i)" "up_scheme (?u ! i) = up_scheme (gh_ups g ! i)" for i
    using candidates_frame [of "gh_policy g" "clientKey req" "gh_ups g"]
    by (metis upstream_health.select_convs upstream_health.surjective upstream_health.update_convs)+
  ultimately show ?thesis
    using conn out tried(3) body_complete [OF tried(1)]
    by (fastforce simp: list_all_iff attempt_request_def)
qed

definition sample_group :: group_health where
  "sample_group = \<lparr>gh_name = ''pool'', gh_policy = ''failover'', gh_sticky = False,
     gh_ups = [sample_up ''a:80'' 1, sample_up ''b:80'' 1]\<rparr>"

definition first_down :: net_env where
  "first_down = \<lparr>env_result = (\<lambda>n i. if i = 0 then ConnectError else GotResponse), env_ctx = (\<lambda>n. False)\<rparr>"

lemma sample_trip:
  "RoundTrip first_down 10 None None sample_request sample_group =
   (RtResponse 1 False,
    [(0, attempt_request (sample_up ''a:80'' 1) sample_request \<lparr>buf = [], stream = None, body_none = True\<rparr>),
     (1, attempt_request (sample_up ''b:80'' 1) sample_request \<lparr>buf = [], stream = None, body_none = True\<rparr>)],
    sample_group\<lparr>gh_ups := [report False (sample_up ''a:80'' 1), (report True (sample_up ''b:80'' 1))\<lparr>active := 1\<rparr>]\<rparr>)"
  by (simp add: RoundTrip_def sample_group_def first_down_def candidates_def newBodySource_def sample_up_def
      add_active_def report_at_def report_def reportSuccess_def reportFailure_def upt_rec)

theorem failover_is_safe_witness:
  "distinct (map fst (fst (snd (RoundTrip first_down 10 None None sample_request sample_group))))"
  using failover_is_safe [OF sample_trip] by (simp only: sample_trip fst_conv snd_conv)

text \<open>Failover tries everything before it gives up. When a request whose body fits the buffer is
  answered with a connect error while the client is still there, every upstream of the group, healthy
  or not, was tried; and a response comes from the last upstream tried.\<close>

theorem failover_is_exhaustive:
  assumes "RoundTrip env lim pinned body req g = (res, log, g')"
    and "\<not> (\<exists>b. body = Some b \<and> lim < length (body_bytes b))"
  shows "(res = RtLastConnect \<longrightarrow> set (map fst log) = {..<length (gh_ups g)}) \<and>
         (\<forall>i c. res = RtResponse i c \<longrightarrow> log \<noteq> [] \<and> fst (last log) = i)"
  using assms(1)
proof (cases rule: RoundTrip_cases)
  case unreadable
  then show ?thesis by simp
next
  case (tried src retriable cands)
  have "retriable"
    using tried(1) assms(2) by (auto simp: newBodySource_def Let_def split: if_splits option.splits)
  with tried(4,6) show ?thesis by (auto simp: trip_ok_def)
qed

theorem failover_is_exhaustive_witness:
  "fst (last (fst (snd (RoundTrip first_down 10 None None sample_request sample_group)))) = 1"
  using failover_is_exhaustive [OF sample_trip] by (simp only: sample_trip fst_conv snd_conv) simp

lemma close_again: "countedBody_Close i (True, ups) = (True, ups)"
  by (simp add: countedBody_Close_def)

lemma close_many: "(countedBody_Close i ^^ Suc n) (False, ups) = (True, add_active i (-1) ups)"
proof (induction n)
  case (Suc n)
  show ?case by (subst funpow.simps(2)) (simp only: o_apply Suc close_again)
qed (simp add: countedBody_Close_def)

text \<open>The group's upstreams once the response body, if there is one, was closed \<open>n + 1\<close> times.\<close>

definition after_close :: "nat \<Rightarrow> rt_result \<Rightarrow> upstream_health list \<Rightarrow> upstream_health list" where
  "after_close n res ups =
     (case res of RtResponse i c \<Rightarrow> snd ((countedBody_Close i ^^ Suc n) (False, ups)) | _ \<Rightarrow> ups)"

text \<open>The in-flight gauge does not drift. A round trip leaves every upstream's count as it was,
  except one more for the upstream whose response is returned, and closing that response's body any
  number of times takes exactly that one away again.\<close>

theorem gauge_balanced:
  assumes "RoundTrip env lim pinned body req g = (res, log, g')"
  shows "map active (after_close n res (gh_ups g')) = map active (gh_ups g)"
  using assms
proof (cases rule: RoundTrip_cases)
  let ?u = "snd (candidates (gh_policy g) (clientKey req) (gh_ups g))"
  have u: "length ?u = length (gh_ups g)" "active (?u ! j) = active (gh_ups g ! j)" for j
    using candidates_frame [of "gh_policy g" "clientKey req" "gh_ups g"]
    by (auto, metis upstream_health.select_convs(8) upstream_health.surjective upstream_health.update_convs(9))
  {
    case unreadable
    with u show ?thesis by (intro nth_equalityI) (auto simp: after_close_def)
  next
    case (tried src retriable cands)
    have len: "length (gh_ups g') = length (gh_ups g)"
      and act: "active (gh_ups g' ! j) = active (gh_ups g ! j) + (if \<exists>c. res = RtResponse j c then 1 else 0)" for j
      using tried(6) u by (auto simp: trip_ok_def)
    have "i < length (gh_ups g)" if "res = RtResponse i c" for i c
    proof -
      have "i \<in> set (map fst log)" using tried(6) that by (auto simp: trip_ok_def intro: imageI)
      then show ?thesis using tried(3,6) set_mono_prefix by (fastforce simp: trip_ok_def)
    qed
    then show ?thesis
      using len act by (intro nth_equalityI) (auto simp: after_close_def close_many active_updates simp del: funpow.simps split: rt_result.splits)
  }
qed

theorem gauge_balanced_witness:
  "map active (after_close 3 (RtResponse 1 False)
     (gh_ups (snd (snd (RoundTrip first_down 10 None None sample_request sample_group))))) = [0, 0]"
  using gauge_balanced [OF sample_trip, of 3]
  by (simp only: sample_trip snd_conv) (simp add: sample_group_def sample_up_def)

section \<open>The health manager across reloads\<close>

text \<open>The running probe loops are exactly those of the live groups, every live group's channel is
  still open, and numbers not yet given out are unused.\<close>

definition hm_inv :: "'spec health_manager \<Rightarrow> bool" where
  "hm_inv m \<longleftrightarrow>
     distinct (map fst (hm_groups m)) \<and> distinct (map snd (hm_groups m)) \<and>
     probing m = snd ` set (hm_groups m) \<and> hm_stopped m \<inter> snd ` set (hm_groups m) = {} \<and>
     hm_started m \<union> hm_stopped m \<subseteq> {..<hm_fresh m}"

definition enabled_names :: "'spec group_cfg list \<Rightarrow> string list" where
  "enabled_names gs = map g_Name (filter (\<lambda>g. \<not> g_Disabled g) gs)"

text \<open>One staged entry: the number it maps to belongs to an enabled wanted group of that name and
  spec, is the live one if that has the same spec, and is new otherwise.\<close>

definition entry_ok ::
  "'spec health_manager \<Rightarrow> (nat \<Rightarrow> 'spec) \<Rightarrow> nat \<Rightarrow> 'spec group_cfg list \<Rightarrow> string \<times> nat \<Rightarrow> bool" where
  "entry_ok m0 spec fresh gs e \<longleftrightarrow>
     snd e < fresh \<and> (snd e < hm_fresh m0 \<longrightarrow> map_of (hm_groups m0) (fst e) = Some (snd e)) \<and>
     (\<exists>g \<in> set gs. \<not> g_Disabled g \<and> g_Name g = fst e \<and> spec (snd e) = g_spec g \<and>
        (\<forall>c. map_of (hm_groups m0) (fst e) = Some c \<and> hm_spec m0 c = g_spec g \<longrightarrow> snd e = c))"

definition stage_frame :: "'spec health_manager \<Rightarrow> 'spec health_manager \<Rightarrow> bool" where
  "stage_frame m0 m \<longleftrightarrow>
     hm_groups m = hm_groups m0 \<and> hm_started m = hm_started m0 \<and> hm_stopped m = hm_stopped m0 \<and>
     hm_fresh m0 \<le> hm_fresh m \<and> (\<forall>i < hm_fresh m0. hm_spec m i = hm_spec m0 i)"

text \<open>The state of staging after a prefix \<open>gs\<close> of the wanted groups, over the manager \<open>m0\<close>.\<close>

definition staged :: "'spec health_manager \<Rightarrow> 'spec group_cfg list \<Rightarrow> health_stage \<times> 'spec health_manager \<Rightarrow> bool" where
  "staged m0 gs s \<longleftrightarrow>
     stage_frame m0 (snd s) \<and> map fst (st_next (fst s)) = enabled_names gs \<and>
     set (st_added (fst s)) = {i \<in> snd ` set (st_next (fst s)). hm_fresh m0 \<le> i} \<and>
     distinct (map snd (st_next (fst s))) \<and>
     list_all (entry_ok m0 (hm_spec (snd s)) (hm_fresh (snd s)) gs) (st_next (fst s))"

lemma entry_ok_snoc: "entry_ok m0 spec fresh gs e \<Longrightarrow> entry_ok m0 spec fresh (gs @ [g]) e"
  unfolding entry_ok_def by auto

lemma entries_snoc: "list_all (entry_ok m0 spec fresh gs) es \<Longrightarrow> list_all (entry_ok m0 spec fresh (gs @ [g])) es"
  by (erule list.pred_mono_strong) (rule entry_ok_snoc)

lemma entry_ok_fresh:
  assumes "entry_ok m0 spec fresh gs e"
  shows "entry_ok m0 (spec(fresh := s)) (fresh + 1) gs e"
proof -
  have "snd e \<noteq> fresh" "snd e < fresh" using assms by (auto simp: entry_ok_def)
  with assms show ?thesis by (simp add: entry_ok_def)
qed

lemma entries_fresh:
  "list_all (entry_ok m0 spec fresh gs) es \<Longrightarrow> list_all (entry_ok m0 (spec(fresh := s)) (fresh + 1) gs) es"
  by (erule list.pred_mono_strong) (rule entry_ok_fresh)

lemma update_fresh: "k \<notin> fst ` set xs \<Longrightarrow> AList.update k v xs = xs @ [(k, v)]"
  by (induction xs) auto

lemma live_below_fresh: "hm_inv m \<Longrightarrow> map_of (hm_groups m) n = Some i \<Longrightarrow> i < hm_fresh m"
  by (force simp: hm_inv_def probing_def dest!: map_of_SomeD)

lemma staged_keep:
  assumes inv: "hm_inv m0" and st: "staged m0 gs (st, m)" and new: "g_Name g \<notin> set (enabled_names gs)" "\<not> g_Disabled g"
    and cur: "map_of (hm_groups m0) (g_Name g) = Some c" "hm_spec m0 c = g_spec g"
  shows "staged m0 (gs @ [g]) (st\<lparr>st_next := st_next st @ [(g_Name g, c)]\<rparr>, m)"
proof -
  have c: "c < hm_fresh m0" using live_below_fresh [OF inv cur(1)] .
  have names: "map fst (st_next st) = enabled_names gs" using st by (simp add: staged_def)
  have "c \<notin> snd ` set (st_next st)"
  proof
    assume "c \<in> snd ` set (st_next st)"
    then obtain n where n: "(n, c) \<in> set (st_next st)" by auto
    then have "entry_ok m0 (hm_spec m) (hm_fresh m) gs (n, c)" using st by (auto simp: staged_def list_all_iff)
    with c have "map_of (hm_groups m0) n = Some c" by (simp add: entry_ok_def)
    moreover have "inj_on snd (set (hm_groups m0))" using inv by (simp add: hm_inv_def distinct_map)
    ultimately have "(n, c) = (g_Name g, c)"
      using inj_onD [of snd "set (hm_groups m0)" "(n, c)" "(g_Name g, c)"] map_of_SomeD [OF cur(1)] map_of_SomeD by force
    then have "n = g_Name g" by simp
    moreover have "n \<in> set (enabled_names gs)" using n unfolding names [symmetric] by force
    ultimately show False using new by simp
  qed
  moreover have "entry_ok m0 (hm_spec m) (hm_fresh m) (gs @ [g]) (g_Name g, c)"
  proof -
    have "c < hm_fresh m" "hm_spec m c = g_spec g" using st c cur(2) by (auto simp: staged_def stage_frame_def)
    with cur new show ?thesis by (simp add: entry_ok_def)
  qed
  moreover have "list_all (entry_ok m0 (hm_spec m) (hm_fresh m) (gs @ [g])) (st_next st)"
    using st by (intro entries_snoc) (simp add: staged_def)
  ultimately show ?thesis
    using st new c names by (auto simp: staged_def enabled_names_def)
qed

lemma staged_fresh:
  assumes inv: "hm_inv m0" and st: "staged m0 gs (st, m)" and new: "\<not> g_Disabled g"
    and old: "\<And>c. map_of (hm_groups m0) (g_Name g) = Some c \<Longrightarrow> hm_spec m0 c \<noteq> g_spec g"
  shows "staged m0 (gs @ [g])
     (st\<lparr>st_next := st_next st @ [(g_Name g, hm_fresh m)], st_added := st_added st @ [hm_fresh m]\<rparr>,
      m\<lparr>hm_fresh := hm_fresh m + 1, hm_spec := (hm_spec m)(hm_fresh m := g_spec g)\<rparr>)"
proof -
  have old_ok: "list_all (entry_ok m0 (hm_spec m) (hm_fresh m) gs) (st_next st)" using st by (simp add: staged_def)
  then have "\<forall>e \<in> set (st_next st). snd e < hm_fresh m" unfolding list_all_iff entry_ok_def by blast
  then have f: "hm_fresh m \<notin> snd ` set (st_next st)" by (metis imageE less_irrefl)
  have fr: "stage_frame m0 m" using st by (simp add: staged_def)
  have "list_all (entry_ok m0 ((hm_spec m)(hm_fresh m := g_spec g)) (hm_fresh m + 1) (gs @ [g])) (st_next st)"
    by (intro entries_snoc entries_fresh old_ok)
  moreover have "entry_ok m0 ((hm_spec m)(hm_fresh m := g_spec g)) (hm_fresh m + 1) (gs @ [g]) (g_Name g, hm_fresh m)"
    using fr new old by (auto simp: entry_ok_def stage_frame_def)
  moreover have "stage_frame m0 (m\<lparr>hm_fresh := hm_fresh m + 1, hm_spec := (hm_spec m)(hm_fresh m := g_spec g)\<rparr>)"
    using fr by (simp add: stage_frame_def)
  moreover have "hm_fresh m0 \<le> hm_fresh m" using fr by (simp add: stage_frame_def)
  ultimately show ?thesis
    using st new f by (auto simp: staged_def enabled_names_def)
qed

lemma stage_one_staged:
  assumes "hm_inv m0" "staged m0 gs s" "distinct (enabled_names (gs @ [g]))"
  shows "staged m0 (gs @ [g]) (stage_one g s)"
proof -
  obtain st m where s: "s = (st, m)" by (cases s)
  note st = assms(2) [unfolded s]
  have fr: "stage_frame m0 m" and names: "map fst (st_next st) = enabled_names gs" using st by (simp_all add: staged_def)
  show ?thesis
  proof (cases "g_Disabled g")
    case True
    have "list_all (entry_ok m0 (hm_spec m) (hm_fresh m) (gs @ [g])) (st_next st)"
      using st by (intro entries_snoc) (simp add: staged_def)
    with True st show ?thesis by (simp add: s stage_one_def staged_def enabled_names_def)
  next
    case False
    then have new: "g_Name g \<notin> set (enabled_names gs)" using assms(3) by (simp add: enabled_names_def)
    have upd: "AList.update (g_Name g) v (st_next st) = st_next st @ [(g_Name g, v)]" for v
      by (rule update_fresh) (metis names new list.set_map)
    show ?thesis
    proof (cases "\<exists>c. map_of (hm_groups m0) (g_Name g) = Some c \<and> hm_spec m0 c = g_spec g")
      case True
      then obtain c where c: "map_of (hm_groups m0) (g_Name g) = Some c" "hm_spec m0 c = g_spec g" by blast
      have "hm_spec m c = g_spec g" using fr c live_below_fresh [OF assms(1) c(1)] by (simp add: stage_frame_def)
      then have "stage_one g s = (st\<lparr>st_next := st_next st @ [(g_Name g, c)]\<rparr>, m)"
        using False fr c by (simp add: s stage_one_def upd stage_frame_def)
      with staged_keep [OF assms(1) st new False c] show ?thesis by simp
    next
      case changed: False
      then have "stage_one g s =
          (st\<lparr>st_next := st_next st @ [(g_Name g, hm_fresh m)], st_added := st_added st @ [hm_fresh m]\<rparr>,
           m\<lparr>hm_fresh := hm_fresh m + 1, hm_spec := (hm_spec m)(hm_fresh m := g_spec g)\<rparr>)"
        using False fr live_below_fresh [OF assms(1), of "g_Name g"]
        by (auto simp: s stage_one_def upd stage_frame_def split: option.split)
      with staged_fresh [OF assms(1) st False] changed show ?thesis by auto
    qed
  qed
qed

lemma stage_staged:
  assumes "hm_inv m0" "distinct (enabled_names gs)"
  shows "staged m0 gs (stage gs m0)"
  using assms(2)
proof (induction gs rule: rev_induct)
  case Nil
  then show ?case by (simp add: stage_def staged_def stage_frame_def enabled_names_def)
next
  case (snoc g gs)
  then have "distinct (enabled_names gs)" by (simp add: enabled_names_def)
  with stage_one_staged [OF assms(1) snoc.IH snoc.prems] show ?case by (simp add: stage_def)
qed

definition reload_groups :: "'spec group_cfg list \<Rightarrow> 'spec health_manager \<Rightarrow> 'spec health_manager" where
  "reload_groups gs m = (case stage gs m of (st, m') \<Rightarrow> commit st m')"

lemma commit_closes_iff:
  "i \<in> set (commit_closes st m) \<longleftrightarrow> (\<exists>n. (n, i) \<in> set (hm_groups m) \<and> map_of (st_next st) n \<noteq> Some i)"
  by (force simp: commit_closes_def)

lemma kept_iff:
  assumes inv: "hm_inv m0" and st: "staged m0 gs (st, m)" and dn: "distinct (enabled_names gs)"
    and old: "i < hm_fresh m0"
  shows "i \<in> snd ` set (st_next st) \<longleftrightarrow> i \<in> snd ` set (hm_groups m0) \<and> i \<notin> set (commit_closes st m)"
proof
  have grp: "hm_groups m = hm_groups m0" and names: "map fst (st_next st) = enabled_names gs"
    using st by (simp_all add: staged_def stage_frame_def)
  {
    assume "i \<in> snd ` set (st_next st)"
    then obtain n where n: "(n, i) \<in> set (st_next st)" by auto
    then have "entry_ok m0 (hm_spec m) (hm_fresh m) gs (n, i)" using st by (auto simp: staged_def list_all_iff)
    with old have g: "(n, i) \<in> set (hm_groups m0)" by (auto simp: entry_ok_def dest: map_of_SomeD)
    moreover have "n' = n" if "(n', i) \<in> set (hm_groups m0)" for n'
    proof -
      have "inj_on snd (set (hm_groups m0))" using inv by (simp add: hm_inv_def distinct_map)
      from inj_onD [OF this _ that g] show ?thesis by simp
    qed
    moreover have "map_of (st_next st) n = Some i" using n names dn by (intro map_of_is_SomeI) simp_all
    ultimately show "i \<in> snd ` set (hm_groups m0) \<and> i \<notin> set (commit_closes st m)"
      unfolding commit_closes_iff grp by (metis image_eqI snd_conv)
  }
  {
    assume "i \<in> snd ` set (hm_groups m0) \<and> i \<notin> set (commit_closes st m)"
    then obtain n where "map_of (st_next st) n = Some i" unfolding commit_closes_iff grp by auto
    then show "i \<in> snd ` set (st_next st)" by (metis image_eqI map_of_SomeD snd_conv)
  }
qed

lemma live_probing: "hm_inv m \<Longrightarrow> i \<in> snd ` set (hm_groups m) \<longleftrightarrow> i \<in> hm_started m \<and> i \<notin> hm_stopped m"
  by (auto simp: hm_inv_def probing_def)

lemma commit_inv:
  assumes inv: "hm_inv m0" and st: "staged m0 gs (st, m)" and dn: "distinct (enabled_names gs)"
  shows "hm_inv (commit st m)" and "set (commit_closes st m) \<inter> hm_stopped m = {}" and "distinct (commit_closes st m)"
proof -
  have fr: "hm_groups m = hm_groups m0" "hm_started m = hm_started m0" "hm_stopped m = hm_stopped m0" "hm_fresh m0 \<le> hm_fresh m"
    and names: "map fst (st_next st) = enabled_names gs" and ds: "distinct (map snd (st_next st))"
    and added: "set (st_added st) = {i \<in> snd ` set (st_next st). hm_fresh m0 \<le> i}"
    using st by (simp_all add: staged_def stage_frame_def)
  have bound: "i < hm_fresh m" if "i \<in> snd ` set (st_next st)" for i
    using st that by (auto simp: staged_def list_all_iff entry_ok_def)
  have below: "hm_started m0 \<subseteq> {..<hm_fresh m0}" "hm_stopped m0 \<subseteq> {..<hm_fresh m0}" using inv by (auto simp: hm_inv_def)
  have closed: "i \<in> hm_started m0 \<and> i \<notin> hm_stopped m0 \<and> i < hm_fresh m0" if "i \<in> set (commit_closes st m)" for i
  proof -
    have "i \<in> snd ` set (hm_groups m0)" using that unfolding commit_closes_iff fr by force
    with live_probing [OF inv, of i] below show ?thesis by auto
  qed
  have live: "i \<in> snd ` set (st_next st) \<longleftrightarrow>
      i \<in> (hm_started m0 \<union> set (st_added st)) - (hm_stopped m0 \<union> set (commit_closes st m))" for i
  proof (cases "i < hm_fresh m0")
    case True
    then show ?thesis using kept_iff [OF inv st dn True] live_probing [OF inv, of i] added by auto
  next
    case False
    then have "i \<notin> hm_started m0" "i \<notin> hm_stopped m0" "i \<notin> set (commit_closes st m)"
      using below closed by auto
    with False show ?thesis unfolding added by simp
  qed
  have "hm_started (commit st m) \<union> hm_stopped (commit st m) \<subseteq> {..<hm_fresh (commit st m)}"
  proof -
    have "set (st_added st) \<subseteq> {..<hm_fresh m}" unfolding added using bound by auto
    moreover have "set (commit_closes st m) \<subseteq> {..<hm_fresh m}" using closed fr(4) by fastforce
    moreover have "hm_started m0 \<subseteq> {..<hm_fresh m}" "hm_stopped m0 \<subseteq> {..<hm_fresh m}" using below fr(4) by auto
    ultimately show ?thesis by (simp add: commit_def fr)
  qed
  moreover have "probing (commit st m) = snd ` set (hm_groups (commit st m))"
    unfolding probing_def commit_def fr using live by auto
  moreover have "hm_stopped (commit st m) \<inter> snd ` set (hm_groups (commit st m)) = {}"
    unfolding commit_def fr using live by auto
  ultimately show "hm_inv (commit st m)"
    using ds names dn by (simp add: hm_inv_def commit_def)
  show "set (commit_closes st m) \<inter> hm_stopped m = {}" using closed fr by auto
  show "distinct (commit_closes st m)"
    using inv fr by (simp add: commit_closes_def hm_inv_def distinct_map_filter)
qed

text \<open>C28: Reloads neither leak nor restart probe loops. From a consistent manager, staging and
  committing a new configuration (with no name twice) leaves a manager whose running probe loops are
  exactly those of the enabled wanted groups; a group whose spec did not change keeps its live state;
  and no stop channel is ever closed twice. Shutting down stops every loop.\<close>

theorem reload_reconciles:
  assumes "hm_inv m" "distinct (enabled_names gs)" and "stage gs m = (st, m')"
  shows "hm_inv (commit st m') \<and> map fst (hm_groups (commit st m')) = enabled_names gs \<and>
     distinct (commit_closes st m') \<and> set (commit_closes st m') \<inter> hm_stopped m' = {} \<and>
     (\<forall>g c. g \<in> set gs \<and> \<not> g_Disabled g \<and> map_of (hm_groups m) (g_Name g) = Some c \<and> hm_spec m c = g_spec g \<longrightarrow>
        map_of (hm_groups (commit st m')) (g_Name g) = Some c) \<and>
     hm_inv (stopAll m) \<and> probing (stopAll m) = {}"
proof -
  have st: "staged m gs (st, m')" using stage_staged [OF assms(1,2)] assms(3) by simp
  have names: "map fst (st_next st) = enabled_names gs" using st by (simp add: staged_def)
  have keep: "map_of (st_next st) (g_Name g) = Some c"
    if g: "g \<in> set gs" "\<not> g_Disabled g" and c: "map_of (hm_groups m) (g_Name g) = Some c" "hm_spec m c = g_spec g" for g c
  proof -
    have "g_Name g \<in> fst ` set (st_next st)"
      using g arg_cong [OF names, of set] by (auto simp: enabled_names_def)
    then obtain i where i: "(g_Name g, i) \<in> set (st_next st)" by auto
    then have "entry_ok m (hm_spec m') (hm_fresh m') gs (g_Name g, i)" using st by (auto simp: staged_def list_all_iff)
    then obtain g' where g': "g' \<in> set gs" "\<not> g_Disabled g'" "g_Name g' = g_Name g"
        "\<forall>c. map_of (hm_groups m) (g_Name g) = Some c \<and> hm_spec m c = g_spec g' \<longrightarrow> i = c"
      by (auto simp: entry_ok_def)
    have "inj_on g_Name (set (filter (\<lambda>g. \<not> g_Disabled g) gs))"
      using assms(2) by (simp add: enabled_names_def distinct_map)
    then have "g' = g" using g g' by (auto dest: inj_onD)
    with g'(4) c have "i = c" by simp
    then show ?thesis using i names assms(2) by (intro map_of_is_SomeI) simp_all
  qed
  have stop: "hm_inv (stopAll m) \<and> probing (stopAll m) = {}"
    using assms(1) by (auto simp: hm_inv_def stopAll_def probing_def)
  show ?thesis
    using commit_inv [OF assms(1) st assms(2)] names keep stop by (auto simp: commit_def)
qed

definition empty_manager :: "nat health_manager" where
  "empty_manager = \<lparr>hm_groups = [], hm_spec = (\<lambda>_. 0), hm_fresh = 0, hm_started = {}, hm_stopped = {}\<rparr>"

lemma empty_manager_inv: "hm_inv empty_manager"
  by (simp add: hm_inv_def empty_manager_def probing_def)

theorem reload_reconciles_witness:
  "hm_inv (commit (fst (stage [\<lparr>g_Name = ''pool'', g_Disabled = False, g_spec = 7\<rparr>] empty_manager))
     (snd (stage [\<lparr>g_Name = ''pool'', g_Disabled = False, g_spec = 7\<rparr>] empty_manager)))"
proof -
  have "distinct (enabled_names [\<lparr>g_Name = ''pool'', g_Disabled = False, g_spec = 7::nat\<rparr>])"
    by (simp add: enabled_names_def)
  from reload_reconciles [OF empty_manager_inv this prod.collapse [symmetric]] show ?thesis by blast
qed

end
