(* ===== verification/Identity_Headers.thy ===== *)
theory Identity_Headers
  imports Gate_Chain Upstream_Group
begin

text \<open>
  Who may tell the backend who the client is: the header denylists and per-host trust of \<open>chain.go\<close>, the strip and the
  client-certificate passthrough of \<open>router.go\<close>, and the outbound request of \<open>proxy.go\<close> (forwarded client, Host header,
  identity restored after the purge that \<open>httputil.ReverseProxy\<close> makes for the client's \<open>Connection\<close> header). SHA-256 is
  an argument.
\<close>

section \<open>The denylists\<close>

definition DefaultClientCertSubjectHeader :: string where "DefaultClientCertSubjectHeader = ''X-Client-Cert-Subject''"
definition ClientCertSANHeader :: string where "ClientCertSANHeader = ''X-Client-Cert-SAN''"
definition ClientCertSerialHeader :: string where "ClientCertSerialHeader = ''X-Client-Cert-Serial''"
definition ClientCertFingerprintHeader :: string where "ClientCertFingerprintHeader = ''X-Client-Cert-Fingerprint''"

definition baselineIdentityHeaders :: "string list" where
  "baselineIdentityHeaders =
     [''Remote-User'', ''Remote-Groups'', ''Remote-Name'', ''Remote-Email'',
      ''X-Forwarded-User'', ''X-Forwarded-Email'', ''X-Forwarded-Groups'', ''X-Forwarded-Preferred-Username'',
      ''X-User'', ''X-Email'', ''X-Groups'',
      ''X-Webauth-User'', ''X-Webauth-Email'', ''X-Webauth-Name'', ''X-Webauth-Groups'',
      DefaultClientCertSubjectHeader, ClientCertSANHeader, ClientCertSerialHeader, ClientCertFingerprintHeader]"

definition baselineOverrideHeaders :: "string list" where
  "baselineOverrideHeaders =
     [''X-Original-Url'', ''X-Rewrite-Url'', ''X-Original-Uri'', ''X-Forwarded-Uri'', ''X-Forwarded-Method'',
      ''X-Http-Method-Override'', ''X-Http-Method'', ''X-Method-Override'']"

definition clientAddressHeaders :: "string list" where
  "clientAddressHeaders = [''True-Client-Ip'', ''X-Client-Ip'', ''X-Real-Ip'', ''Cf-Connecting-Ip'', ''Forwarded'']"

definition baselineIdentityPrefixes :: "string list" where
  "baselineIdentityPrefixes = [''X-Auth-Request-'', ''X-Authentik-'']"

definition identityPrefixExceptions :: "string list" where
  "identityPrefixExceptions = [''X-Authentik-Csrf'']"

definition family_member :: "string \<Rightarrow> bool" where
  "family_member k \<longleftrightarrow> k \<notin> set identityPrefixExceptions \<and> list_ex (\<lambda>p. Sublist.prefix p k) baselineIdentityPrefixes"

definition stripIdentityHeaders :: "string list \<Rightarrow> http_header \<Rightarrow> http_header" where
  "stripIdentityHeaders extra h =
     (let h1 = hdr_Del_all (hdr_Del_all h baselineIdentityHeaders) extra in (\<lambda>k. if family_member k then None else h1 k))"

section \<open>What a host's providers assert, and whom it trusts\<close>

definition hostAuthSpecs :: "host_shape \<Rightarrow> registry \<Rightarrow> auth_middleware list" where
  "hostAuthSpecs h reg =
     of_kind reg ''auth'' mw_Auth (hs_Middlewares h) @ (case hs_Auth h of None \<Rightarrow> [] | Some a \<Rightarrow> [a]) @
     concat (map (\<lambda>loc. of_kind reg ''auth'' mw_Auth (loc_Middlewares loc) @ (case loc_Auth loc of None \<Rightarrow> [] | Some a \<Rightarrow> [a])) (hs_Locations h))"

definition add_name :: "string \<Rightarrow> string list \<Rightarrow> string list" where
  "add_name n acc = (let k = CanonicalMIMEHeaderKey n in if k = [] \<or> k \<in> set acc then acc else acc @ [k])"

definition provider_headers :: "identity_provider \<Rightarrow> string list" where
  "provider_headers idp =
     (case idp_ForwardAuth idp of
        None \<Rightarrow> []
      | Some f \<Rightarrow> filter (\<lambda>n. n \<noteq> []) [UserHeader f, EmailHeader f, NameHeader f, GroupsHeader f, AMRHeader f]) @
     (case idp_AuthRequest idp of
        None \<Rightarrow> []
      | Some a \<Rightarrow> if CopyHeaders a = [] then defaultAuthRequestHeaders else CopyHeaders a)"

definition identityTrust :: "auth_middleware list \<Rightarrow> registry \<Rightarrow> string list \<times> ipnet list" where
  "identityTrust specs reg =
     (let idps = List.map_filter (\<lambda>s. map_of (reg_idps reg) (am_IdentityProvider s)) specs in
      (fold add_name (concat (map provider_headers idps)) [],
       concat (map (\<lambda>idp. case idp_ForwardAuth idp of None \<Rightarrow> [] | Some f \<Rightarrow> List.map_filter ParseNet (fa_TrustedProxies f)) idps)))"

definition hostIdentityTrust :: "host_shape \<Rightarrow> registry \<Rightarrow> string list \<times> ipnet list" where
  "hostIdentityTrust h reg = identityTrust (hostAuthSpecs h reg) reg"

section \<open>Client-certificate passthrough\<close>

record cert_identity =
  ci_subject :: string
  ci_san :: bool
  ci_serial :: bool
  ci_fingerprint :: bool

definition compileCertIdentity :: "tls_settings \<Rightarrow> cert_identity option" where
  "compileCertIdentity t =
     (case ClientAuth t of
        None \<Rightarrow> None
      | Some a \<Rightarrow>
          (case IdentityHeaders a of
             None \<Rightarrow> None
           | Some ih \<Rightarrow>
               Some \<lparr>ci_subject = CanonicalMIMEHeaderKey (if SubjectHeader ih = [] then DefaultClientCertSubjectHeader else SubjectHeader ih),
                     ci_san = cch_SAN ih, ci_serial = cch_Serial ih, ci_fingerprint = cch_Fingerprint ih\<rparr>))"

definition headerSafe :: "string \<Rightarrow> string" where
  "headerSafe v = filter (\<lambda>c. 32 \<le> byte_of c \<and> byte_of c < 127) v"

definition certSANs :: "x509_cert \<Rightarrow> string list" where
  "certSANs c = cert_DNSNames c @ cert_EmailAddresses c @ map ip_string (cert_IPAddresses c) @ cert_URIs c"

text \<open>\<open>big.Int.Text(16)\<close> and \<open>hex.EncodeToString\<close>.\<close>

fun hex_text :: "nat \<Rightarrow> string" where
  "hex_text n = (if n < 16 then [hex_char n] else hex_text (n div 16) @ [hex_char (n mod 16)])"

declare hex_text.simps [simp del]

definition serialKey :: "nat \<Rightarrow> string" where
  "serialKey n = hex_text n"

definition hex_bytes :: "byte list \<Rightarrow> string" where
  "hex_bytes bs = concat (map (\<lambda>b. [hex_char (unat b div 16), hex_char (unat b mod 16)]) bs)"

type_synonym sha256 = "byte list \<Rightarrow> byte list"

definition verified_cert :: "http_request \<Rightarrow> x509_cert option" where
  "verified_cert r =
     (case TLS r of
        None \<Rightarrow> None
      | Some t \<Rightarrow> (case PeerCertificates t of [] \<Rightarrow> None | c # _ \<Rightarrow> if VerifiedChains t = [] then None else Some c))"

definition cert_identity_apply :: "sha256 \<Rightarrow> cert_identity \<Rightarrow> http_request \<Rightarrow> http_request" where
  "cert_identity_apply sha ci r =
     (case verified_cert r of
        None \<Rightarrow> r
      | Some c \<Rightarrow>
          (let h1 = hdr_Set (Header r) (ci_subject ci) (headerSafe (cert_subject c));
               h2 = (if ci_san ci then hdr_Set h1 ClientCertSANHeader (headerSafe (join_with '','' (certSANs c))) else h1);
               h3 = (if ci_serial ci then hdr_Set h2 ClientCertSerialHeader (serialKey (cert_serial c)) else h2);
               h4 = (if ci_fingerprint ci then hdr_Set h3 ClientCertFingerprintHeader (hex_bytes (sha (cert_raw c))) else h3)
           in r\<lparr>Header := h4\<rparr>))"

definition stripUntrustedIdentity :: "string list \<Rightarrow> ipnet list \<Rightarrow> ipnet list \<Rightarrow> http_request \<Rightarrow> http_request" where
  "stripUntrustedIdentity identityHeaders trustedNets trustedProxies r =
     (let inside = (\<lambda>nets. case PeerIP r of None \<Rightarrow> False | Some a \<Rightarrow> InNets a nets);
          h1 = hdr_Del_all (Header r) baselineOverrideHeaders;
          h2 = (if inside trustedProxies then h1 else hdr_Del_all h1 clientAddressHeaders);
          h3 = (if inside trustedNets then h2 else stripIdentityHeaders identityHeaders h2)
      in r\<lparr>Header := h3\<rparr>)"

definition assertedIdentityHeaders :: "host_shape \<Rightarrow> registry \<Rightarrow> string list" where
  "assertedIdentityHeaders h reg =
     fold add_name (baselineIdentityHeaders @ fst (hostIdentityTrust h reg) @
       (case compileCertIdentity (hs_TLS h) of None \<Rightarrow> [] | Some ci \<Rightarrow> [ci_subject ci])) []"

section \<open>The outbound request\<close>

text \<open>What \<open>httputil.ReverseProxy\<close> does to the headers before it calls the rewrite hook: the headers the client's
  \<open>Connection\<close> header names and the hop-by-hop headers go, a protocol upgrade and \<open>TE: trailers\<close> are put back, and the
  forwarding headers of the client go.\<close>

definition header_tokens :: "http_header \<Rightarrow> string \<Rightarrow> string list" where
  "header_tokens h k = filter (\<lambda>t. t \<noteq> []) (map TrimSpace (concat (map (split_on (CHR '','')) (hdr_Values h k))))"

definition hopHeaders :: "string list" where
  "hopHeaders = [''Connection'', ''Proxy-Connection'', ''Keep-Alive'', ''Proxy-Authenticate'', ''Proxy-Authorization'', ''Te'',
     ''Trailer'', ''Transfer-Encoding'', ''Upgrade'']"

definition isUpgradeRequest :: "http_request \<Rightarrow> bool" where
  "isUpgradeRequest r \<longleftrightarrow> hdr_Get (Header r) ''Upgrade'' \<noteq> [] \<and>
     list_ex (\<lambda>t. ToLower t = ''upgrade'') (header_tokens (Header r) ''Connection'')"

definition rp_headers :: "http_request \<Rightarrow> http_header" where
  "rp_headers r =
     (let h0 = Header r;
          h1 = hdr_Del_all (hdr_Del_all h0 (header_tokens h0 ''Connection'')) hopHeaders;
          h2 = (if list_ex (\<lambda>t. ToLower t = ''trailers'') (header_tokens h0 ''Te'') then hdr_Set h1 ''Te'' ''trailers'' else h1);
          h3 = (if isUpgradeRequest r then hdr_Set (hdr_Set h2 ''Connection'' ''Upgrade'') ''Upgrade'' (hdr_Get h0 ''Upgrade'') else h2)
      in hdr_Del_all h3 [''Forwarded'', ''X-Forwarded-For'', ''X-Forwarded-Host'', ''X-Forwarded-Proto''])"

definition singleJoiningSlash :: "string \<Rightarrow> string \<Rightarrow> string" where
  "singleJoiningSlash a b =
     (let s = suffix ''/'' a; t = Sublist.prefix ''/'' b in
      if s \<and> t then a @ tl b else if \<not> s \<and> \<not> t then a @ ''/'' @ b else a @ b)"

text \<open>\<open>ProxyRequest.SetXForwarded\<close> on headers the proxy has already cleared.\<close>

definition SetXForwarded :: "http_request \<Rightarrow> http_header \<Rightarrow> http_header" where
  "SetXForwarded r out =
     (let h1 = (case SplitHostPort (RemoteAddr r) of Some (a, _) \<Rightarrow> hdr_Set out ''X-Forwarded-For'' a | None \<Rightarrow> hdr_Del out ''X-Forwarded-For'');
          h2 = hdr_Set h1 ''X-Forwarded-Host'' (Host r)
      in hdr_Set h2 ''X-Forwarded-Proto'' (if TLS r = None then ''http'' else ''https''))"

definition setForwardedClient :: "http_request \<Rightarrow> http_header \<Rightarrow> http_header" where
  "setForwardedClient r out =
     (case requestClientIP r of
        None \<Rightarrow> hdr_Del out ''X-Real-Ip''
      | Some a \<Rightarrow>
          (let h1 = hdr_Set out ''X-Real-Ip'' (ip_string a) in
           if \<not> requestPeerTrusted r then hdr_Set h1 ''X-Forwarded-For'' (ip_string a)
           else
             (let chain = map ip_string (List.map_filter ParseForwardedEntry (ForwardedChain r));
                  peer = hdr_Get h1 ''X-Forwarded-For'' in
              if chain = [] then h1
              else hdr_Set h1 ''X-Forwarded-For'' (join_with '', '' (if peer = [] then chain else chain @ [peer])))))"

definition reassertIdentity :: "string list \<Rightarrow> http_header \<Rightarrow> http_header \<Rightarrow> http_header" where
  "reassertIdentity names inbound out =
     fold (\<lambda>n h. case inbound n of None \<Rightarrow> h | Some [] \<Rightarrow> h | Some (v # vs) \<Rightarrow> h(n \<mapsto> v # vs)) names out"

record proxy_target =
  pt_Scheme :: string
  pt_Host :: string
  pt_Path :: string

record outbound =
  ob_target :: proxy_target
  ob_Path :: string
  ob_Host :: string
  ob_Header :: http_header

definition newProxyWith :: "proxy_target \<Rightarrow> string list \<Rightarrow> string \<Rightarrow> http_request \<Rightarrow> outbound" where
  "newProxyWith target identityHeaders hostHeader r =
     \<lparr>ob_target = target,
      ob_Path = confineUpstreamPath (pt_Path target) (singleJoiningSlash (pt_Path target) (url_Path r)),
      ob_Host = applyHostHeader hostHeader (Host r),
      ob_Header = reassertIdentity identityHeaders (Header r) (setForwardedClient r (SetXForwarded r (rp_headers r)))\<rparr>"

definition newReverseProxy :: "upstream \<Rightarrow> string list \<Rightarrow> http_request \<Rightarrow> outbound" where
  "newReverseProxy up identityHeaders r =
     newProxyWith \<lparr>pt_Scheme = u_Scheme up, pt_Host = JoinHostPort (u_Host up) (itoa (nat (u_Port up))), pt_Path = TrimSuffix (u_Path up) ''/''\<rparr>
       identityHeaders (u_HostHeader up) r"

lemmas [go_eval] = DefaultClientCertSubjectHeader_def ClientCertSANHeader_def ClientCertSerialHeader_def ClientCertFingerprintHeader_def
  baselineIdentityHeaders_def baselineOverrideHeaders_def clientAddressHeaders_def baselineIdentityPrefixes_def
  identityPrefixExceptions_def family_member_def stripIdentityHeaders_def hostAuthSpecs_def add_name_def provider_headers_def
  identityTrust_def hostIdentityTrust_def compileCertIdentity_def headerSafe_def certSANs_def serialKey_def hex_bytes_def
  verified_cert_def cert_identity_apply_def stripUntrustedIdentity_def assertedIdentityHeaders_def header_tokens_def hopHeaders_def
  isUpgradeRequest_def rp_headers_def singleJoiningSlash_def SetXForwarded_def setForwardedClient_def reassertIdentity_def
  newProxyWith_def newReverseProxy_def

section \<open>Names\<close>

lemma set_add_name: "set (add_name n acc) = set acc \<union> ({CanonicalMIMEHeaderKey n} - {[]})"
  by (auto simp: add_name_def Let_def)

lemma set_add_names: "set (fold add_name ns acc) = set acc \<union> (CanonicalMIMEHeaderKey ` set ns - {[]})"
  by (induction ns arbitrary: acc) (auto simp: set_add_name)

lemma add_names_canonical: "list_all (\<lambda>n. CanonicalMIMEHeaderKey n = n) acc \<Longrightarrow> list_all (\<lambda>n. CanonicalMIMEHeaderKey n = n) (fold add_name ns acc)"
  by (induction ns arbitrary: acc) (auto simp: add_name_def Let_def)

lemma canon_nonempty: "CanonicalMIMEHeaderKey n = [] \<longleftrightarrow> n = []"
  by (cases n) (auto simp: CanonicalMIMEHeaderKey_def)

lemma asserted_baseline: "n \<in> set baselineIdentityHeaders \<Longrightarrow> CanonicalMIMEHeaderKey n \<in> set (assertedIdentityHeaders h reg)"
proof -
  assume n: "n \<in> set baselineIdentityHeaders"
  then have "n \<noteq> []" unfolding baselineIdentityHeaders_def DefaultClientCertSubjectHeader_def ClientCertSANHeader_def
      ClientCertSerialHeader_def ClientCertFingerprintHeader_def by auto
  with n show ?thesis by (simp add: assertedIdentityHeaders_def set_add_names canon_nonempty)
qed

lemma asserted_provider:
  assumes "a \<in> set (hostAuthSpecs h reg)" "map_of (reg_idps reg) (am_IdentityProvider a) = Some idp" "n \<in> set (provider_headers idp)" "n \<noteq> []"
  shows "CanonicalMIMEHeaderKey n \<in> set (assertedIdentityHeaders h reg)"
proof -
  have "idp \<in> set (List.map_filter (\<lambda>s. map_of (reg_idps reg) (am_IdentityProvider s)) (hostAuthSpecs h reg))"
    using assms(1,2) by (force simp: List.map_filter_def)
  with assms(3,4) have "CanonicalMIMEHeaderKey n \<in> set (fst (hostIdentityTrust h reg))"
    by (auto simp: hostIdentityTrust_def identityTrust_def Let_def set_add_names canon_nonempty)
  then show ?thesis using assms(4)
    by (simp add: assertedIdentityHeaders_def set_add_names canon_nonempty) (metis CanonicalMIMEHeaderKey_idem canon_nonempty image_eqI)
qed

lemma reassert_apply:
  "reassertIdentity names inb out k = (if k \<in> set names \<and> inb k \<noteq> None \<and> inb k \<noteq> Some [] then inb k else out k)"
  unfolding reassertIdentity_def
  by (induction names arbitrary: out) (auto split: option.splits list.splits)

lemmas canon_eval = CanonicalMIMEHeaderKey_def token_byte_def to_upper_char_def to_lower_char_def byte_of_def is_digit_def

lemma forwarding_canon [simp]:
  "CanonicalMIMEHeaderKey ''X-Real-Ip'' = ''X-Real-Ip''" "CanonicalMIMEHeaderKey ''X-Forwarded-For'' = ''X-Forwarded-For''"
  "CanonicalMIMEHeaderKey ''X-Forwarded-Host'' = ''X-Forwarded-Host''" "CanonicalMIMEHeaderKey ''X-Forwarded-Proto'' = ''X-Forwarded-Proto''"
  "CanonicalMIMEHeaderKey ''Forwarded'' = ''Forwarded''" "CanonicalMIMEHeaderKey ''Te'' = ''Te''"
  "CanonicalMIMEHeaderKey ''Connection'' = ''Connection''" "CanonicalMIMEHeaderKey ''Upgrade'' = ''Upgrade''"
  by (simp_all add: canon_eval)

lemma forwarded_other:
  "k \<notin> {''X-Real-Ip'', ''X-Forwarded-For'', ''X-Forwarded-Host'', ''X-Forwarded-Proto''} \<Longrightarrow>
     setForwardedClient r (SetXForwarded r out) k = out k"
  by (simp add: setForwardedClient_def SetXForwarded_def hdr_Set_def hdr_Del_def Let_def split: option.splits)

lemma purged_by_connection:
  "k \<in> CanonicalMIMEHeaderKey ` set (header_tokens (Header r) ''Connection'') \<Longrightarrow> k \<notin> {''Te'', ''Connection'', ''Upgrade''} \<Longrightarrow>
     rp_headers r k = None"
  by (simp add: rp_headers_def hdr_Del_all_apply hdr_Set_def Let_def)

section \<open>What the auth tiers write\<close>

lemma copy_headers_other: "k \<notin> CanonicalMIMEHeaderKey ` set ks \<Longrightarrow> copy_headers ks src h k = h k"
  unfolding copy_headers_def by (induction ks arbitrary: h) (auto simp: fold_hdr_Add)

lemma authRequest_writes:
  assumes "authRequestHandler p server clientIP allowNets r = Next r' ck" "k \<notin> CanonicalMIMEHeaderKey ` set (copyHeaders p)"
  shows "Header r' k = Header r k"
  using assms by (auto simp: authRequestHandler_def Let_def hdr_Del_all_apply copy_headers_other split: if_splits option.splits)

lemma sso_names:
  "CanonicalMIMEHeaderKey ''X-Forwarded-User'' = ''X-Forwarded-User''"
  "CanonicalMIMEHeaderKey ''X-Forwarded-Email'' = ''X-Forwarded-Email''"
  "CanonicalMIMEHeaderKey ''X-Forwarded-Groups'' = ''X-Forwarded-Groups''"
  by (simp_all add: canon_eval)

lemma inject_writes:
  "k \<notin> {''X-Forwarded-User'', ''X-Forwarded-Email'', ''X-Forwarded-Groups''} \<Longrightarrow> Header (injectSSOIdentity s r) k = Header r k"
  by (simp add: injectSSOIdentity_def Let_def hdr_Set_def sso_names)

lemma sso_writes:
  assumes "oidc_handler env d r st cached = (Next r' ck, st', c)" "k \<notin> CanonicalMIMEHeaderKey ` set baselineIdentityHeaders"
  shows "Header r' k = Header r k"
proof -
  have "''X-Forwarded-User'' \<in> CanonicalMIMEHeaderKey ` set baselineIdentityHeaders"
    "''X-Forwarded-Email'' \<in> CanonicalMIMEHeaderKey ` set baselineIdentityHeaders"
    "''X-Forwarded-Groups'' \<in> CanonicalMIMEHeaderKey ` set baselineIdentityHeaders"
    using sso_names by (auto simp: baselineIdentityHeaders_def image_iff intro: bexI)
  with assms(2) have k: "k \<notin> {''X-Forwarded-User'', ''X-Forwarded-Email'', ''X-Forwarded-Groups''}" by blast
  obtain s where "r' = injectSSOIdentity s r" using assms(1) oidc_handler_NextD by blast
  with k show ?thesis by (simp add: inject_writes)
qed

lemma compileAuthRequest_copies:
  "compileAuthRequest url_parse spec = Some p \<Longrightarrow>
     copyHeaders p = (if CopyHeaders spec = [] then defaultAuthRequestHeaders else CopyHeaders spec)"
  by (auto simp: compileAuthRequest_def Let_def split: if_splits)

lemma auth_writes:
  assumes "authHandler env reg h ip a r st sso = (Next r' ck, st', sso')" "Header r' k \<noteq> Header r k"
  shows "k \<in> CanonicalMIMEHeaderKey ` set baselineIdentityHeaders \<or>
    (\<exists>idp. map_of (reg_idps reg) (am_IdentityProvider a) = Some idp \<and> k \<in> CanonicalMIMEHeaderKey ` set (provider_headers idp))"
proof (rule ccontr)
  assume no: "\<not> ?thesis"
  have base: "k \<notin> CanonicalMIMEHeaderKey ` set baselineIdentityHeaders" using no by blast
  have idp: "k \<notin> CanonicalMIMEHeaderKey ` set (provider_headers idp)" if "map_of (reg_idps reg) (am_IdentityProvider a) = Some idp" for idp
    using no that by blast
  have req: "Header r' k = Header r k"
    if "map_of (reg_idps reg) (am_IdentityProvider a) = Some idp" "idp_AuthRequest idp = Some ar" "compileAuthRequest (ce_url env) ar = Some p"
      "authRequestHandler p (ce_server env) ip nets r = Next r' ck" for idp ar p nets
    using authRequest_writes [OF that(4)] idp [OF that(1)] that(2) compileAuthRequest_copies [OF that(3)]
    by (auto simp: provider_headers_def split: if_splits)
  have sso: "Header r' k = Header r k" if "oidc_handler (ce_sso env) d r sso ks = (Next r' ck, sso'', ks')" for d ks sso'' ks'
    using sso_writes [OF that base] .
  from assms show False
    by (auto simp: authHandler_def Let_def auth_unavailable_def dest!: of_verdict_Next forwardAuthGate_Next clientCertGate_Next req sso
        split: if_splits option.splits prod.splits)
qed

lemma authFor_writes:
  assumes "authHandlerFor env reg h ip a r st sso = (Next r' ck, st', sso')" "Header r' k \<noteq> Header r k"
  shows "k \<in> CanonicalMIMEHeaderKey ` set baselineIdentityHeaders \<or>
    (\<exists>idp. map_of (reg_idps reg) (am_IdentityProvider a) = Some idp \<and> k \<in> CanonicalMIMEHeaderKey ` set (provider_headers idp))"
  using assms auth_writes by (auto simp: authHandlerFor_def split: if_splits)

lemma host_chain_auth:
  assumes "buildChainInline env s inline reg = Some ts" "AuthTier a \<in> set ts" "in_auth inline = in_auth (hostInline s)"
  shows "a \<in> set (hostAuthSpecs s reg)"
proof -
  have "AuthTier a \<in> set (gate_tiers env s inline reg)"
    using assms(1,2) shape_tiers_shape [of env s inline reg]
    by (force simp: buildChainInline_def list_all_iff is_gate_def split: if_splits)
  then show ?thesis using assms(3) by (auto simp: gate_tiers_def hostAuthSpecs_def hostInline_def)
qed

lemma outbound_asserted:
  "k \<in> set names \<Longrightarrow> Header r k = Some (v # vs) \<Longrightarrow> ob_Header (newProxyWith t names hh r) k = Some (v # vs)"
  by (simp add: newProxyWith_def reassert_apply)


definition team_idp :: identity_provider where
  "team_idp = \<lparr>idp_Name = ''team'', idp_Type = ''auth-request'', idp_OIDC = None, idp_ForwardAuth = None,
     idp_AuthRequest = Some \<lparr>OutpostURL = ''http://idp'', ar_PathPrefix = [], AuthPath = [], CopyHeaders = [''X-Team-User'']\<rparr>, idp_RoleMapping = None\<rparr>"

definition team_registry :: registry where
  "team_registry = \<lparr>reg_accessLists = [], reg_middlewares = [], reg_idps = [(''team'', team_idp)]\<rparr>"

definition team_auth :: auth_middleware where
  "team_auth = \<lparr>am_IdentityProvider = ''team'', am_Mode = [], RequiredRoles = [], am_AllowFrom = [], ClientCertRoles = [], am_Basic = None\<rparr>"

definition team_location :: location where
  "team_location = \<lparr>loc_Path = ''/'', loc_Upstream = None, loc_UpstreamGroupRef = [], loc_Middlewares = [], loc_AccessLists = [],
     loc_StripPrefix = False, loc_Auth = Some team_auth, loc_RateLimit = None\<rparr>"

definition team_env :: chain_env where
  "team_env = demo_env\<lparr>ce_url := (\<lambda>_. Some (''http'', ''idp'')),
     ce_server := (\<lambda>_. Some \<lparr>rsp_status = 200, rsp_Header = [''X-Team-User'' \<mapsto> [''alice'']]\<rparr>)\<rparr>"

definition dropping_request :: http_request where
  "dropping_request = sample_request\<lparr>Header := [''Connection'' \<mapsto> [''X-Team-User'']]\<rparr>"

lemma team_canon: "CanonicalMIMEHeaderKey ''X-Team-User'' = ''X-Team-User''" "CanonicalMIMEHeaderKey ''Set-Cookie'' = ''Set-Cookie''"
  by (simp_all add: canon_eval)

lemma team_serves:
  "serve_tier team_env team_registry h (AuthTier team_auth) dropping_request NoState sso =
     (Next (dropping_request\<lparr>Header := [''Connection'' \<mapsto> [''X-Team-User''], ''X-Team-User'' \<mapsto> [''alice'']]\<rparr>) [], NoState, sso)"
proof -
  have copies: "copy_headers [''X-Team-User''] [''X-Team-User'' \<mapsto> [''alice'']] (hdr_Del_all [''Connection'' \<mapsto> [''X-Team-User'']] [''X-Team-User'']) =
    [''Connection'' \<mapsto> [''X-Team-User''], ''X-Team-User'' \<mapsto> [''alice'']]"
    by (simp add: copy_headers_def hdr_Del_all_def hdr_Del_def hdr_Values_def hdr_Add_def team_canon)
  have cookies: "hdr_Values [''X-Team-User'' \<mapsto> [''alice'']] ''Set-Cookie'' = []"
    by (simp add: hdr_Values_def team_canon)
  show ?thesis
    by (simp add: serve_tier_def authHandlerFor_def authHandler_def Let_def team_auth_def team_registry_def team_idp_def team_env_def demo_env_def
        compileAuthRequest_def allowFromNets_def authRequestHandler_def net_exempt_def dropping_request_def sample_request_def
        defaultOutpostPrefix_def copies cookies)
qed

text \<open>An auth block on a location does not protect its identity headers. A location whose inline auth block asks an
  auth server puts the server's user header into the request, but the list of headers to restore is computed from a copy of
  the host that has no locations and not this block; so a client that names the header in \<open>Connection\<close> has it dropped
  from what the upstream gets. The same block on the host keeps it.\<close>

theorem location_identity_dropped:
  "let s = plain_shape\<lparr>hs_Locations := [team_location]\<rparr>; s' = plain_shape\<lparr>hs_Auth := Some team_auth\<rparr>;
       h = named_host ''app'' [''app.example.com''] s; r' = dropping_request\<lparr>Header := [''Connection'' \<mapsto> [''X-Team-User''], ''X-Team-User'' \<mapsto> [''alice'']]\<rparr> in
   (\<exists>vis sts. serve_host team_env team_registry h (location_chain team_env s team_location team_registry) [] demo_watermark dropping_request =
      (vis, Proxied r' [], sts, demo_watermark)) \<and>
   ob_Header (newReverseProxy no_upstream (assertedIdentityHeaders (location_host s team_location) team_registry) r') ''X-Team-User'' = None \<and>
   ob_Header (newReverseProxy no_upstream (assertedIdentityHeaders s' team_registry) r') ''X-Team-User'' = Some [''alice'']"
proof -
  define s where "s = plain_shape\<lparr>hs_Locations := [team_location]\<rparr>"
  define r' where "r' = dropping_request\<lparr>Header := [''Connection'' \<mapsto> [''X-Team-User''], ''X-Team-User'' \<mapsto> [''alice'']]\<rparr>"
  have chain: "location_chain team_env s team_location team_registry = Some [AuthTier team_auth]"
    by (simp add: location_chain_def buildChainInline_def unresolved_None gate_tiers_def shape_tiers_def of_kind_def locationInline_def
        hostInline_def s_def team_location_def plain_shape_def List.map_filter_def)
  have serve: "\<exists>vis sts. serve_host team_env team_registry h (location_chain team_env s team_location team_registry) [] demo_watermark dropping_request =
      (vis, Proxied r' [], sts, demo_watermark)" for h
    by (simp add: chain serve_host_def team_serves r'_def)
  have names: "''X-Team-User'' \<notin> set (assertedIdentityHeaders (location_host s team_location) team_registry)"
    "''X-Team-User'' \<in> set (assertedIdentityHeaders (plain_shape\<lparr>hs_Auth := Some team_auth\<rparr>) team_registry)"
    by (simp_all add: assertedIdentityHeaders_def hostIdentityTrust_def identityTrust_def set_add_name set_add_names hostAuthSpecs_def of_kind_def
        location_host_def Let_def s_def team_location_def team_auth_def team_registry_def team_idp_def plain_shape_def List.map_filter_def
        provider_headers_def compileCertIdentity_def plain_tls_def baselineIdentityHeaders_def DefaultClientCertSubjectHeader_def
        ClientCertSANHeader_def ClientCertSerialHeader_def ClientCertFingerprintHeader_def canon_eval)
  have "header_tokens (Header r') ''Connection'' = [''X-Team-User'']"
    by (simp add: header_tokens_def r'_def hdr_Values_def TrimSpace_def trim_left_def trim_right_def is_space_def byte_of_def)
  then have purged: "setForwardedClient r' (SetXForwarded r' (rp_headers r')) ''X-Team-User'' = None"
    by (simp add: forwarded_other purged_by_connection team_canon)
  show ?thesis
    using serve names purged
    by (simp add: s_def [symmetric] r'_def [symmetric] Let_def newReverseProxy_def newProxyWith_def reassert_apply) (simp add: r'_def)
qed


end
