(* ===== verification/Response_Headers.thy ===== *)
theory Response_Headers
  imports Gate_Chain
begin

text \<open>
  The response headers of the data plane: the configured security headers with their scopes and the writer that adds them
  (\<open>securityheaders.go\<close>), the headers taken off what an upstream sends (\<open>stripheaders.go\<close>), the response half of a
  headers middleware (\<open>headers.go\<close>), the custom error pages (\<open>errorpages.go\<close>), and the hooks of the reverse proxy that a
  response passes, with the correction of redirects to the upstream's own address (\<open>proxy.go\<close>).

  A response writer is a state: the header map handlers write to, and what has been sent. The two wrapping writers keep
  their own flags. An exchange is what \<open>httputil.ReverseProxy\<close> does with an upstream's answer: each interim (1xx) answer
  is copied into the header map, sent, and the map is cleared; then the final answer is changed by \<open>ModifyResponse\<close>, copied and sent.

  Of Go's library, parsing a template and executing one, and parsing a URL and printing it with another scheme and host, are
  arguments; a template is its source text.
\<close>

section \<open>Configured headers\<close>

record header_rule =
  hr_value :: string
  hr_scope :: string

definition compileSecurityHeaders :: "security_headers \<Rightarrow> (string \<times> header_rule) list" where
  "compileSecurityHeaders m =
     fold (\<lambda>(k, v, scope) out.
       let ck = CanonicalMIMEHeaderKey k in
       if ck = [] \<or> ToLower ck = ''strict-transport-security'' then out
       else AList.update ck \<lparr>hr_value = v, hr_scope = (if scope = [] then ''all'' else scope)\<rparr> out) m []"

definition mergedSecurityHeaders :: "(string \<times> header_rule) list \<Rightarrow> security_headers \<Rightarrow> (string \<times> header_rule) list" where
  "mergedSecurityHeaders base override = AList.merge base (compileSecurityHeaders override)"

type_synonym header_list = "(string \<times> string list) list"

record scoped_headers =
  sc_generated :: header_list
  sc_proxied :: header_list

definition of_scope :: "string \<Rightarrow> (string \<times> header_rule) list \<Rightarrow> header_list" where
  "of_scope side rules =
     List.map_filter (\<lambda>(k, ru). if hr_scope ru = ''all'' \<or> hr_scope ru = side then Some (k, [hr_value ru]) else None) rules"

definition partitionSecurityHeaders :: "(string \<times> header_rule) list \<Rightarrow> scoped_headers" where
  "partitionSecurityHeaders rules = \<lparr>sc_generated = of_scope ''generated-only'' rules, sc_proxied = of_scope ''proxied-only'' rules\<rparr>"

definition add_strip :: "string \<Rightarrow> string list \<Rightarrow> string list" where
  "add_strip n out =
     (let ck = CanonicalMIMEHeaderKey n in
      if ck = [] \<or> StripResponseHeaderRefused ck \<or> ck \<in> set out then out else out @ [ck])"

definition compileStripResponseHeaders :: "string list \<Rightarrow> string list" where
  "compileStripResponseHeaders names = fold add_strip names []"

definition mergedStripResponseHeaders :: "string list \<Rightarrow> string list \<Rightarrow> string list" where
  "mergedStripResponseHeaders base override =
     (if base = [] \<and> override = [] then [] else compileStripResponseHeaders (base @ override))"

definition stripUpstreamResponseHeaders :: "string list \<Rightarrow> http_header \<Rightarrow> http_header" where
  "stripUpstreamResponseHeaders names h = hdr_Del_all h names"

section \<open>Writers\<close>

record response =
  rs_Header :: http_header
  rs_sent :: "(nat \<times> http_header) list"

text \<open>The server's own writer: a 1xx answer goes out at once, the first other one is final.\<close>

definition final_sent :: "response \<Rightarrow> bool" where
  "final_sent rs \<longleftrightarrow> list_ex (\<lambda>(code, _). 200 \<le> code) (rs_sent rs)"

definition base_WriteHeader :: "nat \<Rightarrow> response \<Rightarrow> response" where
  "base_WriteHeader code rs = (if final_sent rs then rs else rs\<lparr>rs_sent := rs_sent rs @ [(code, rs_Header rs)]\<rparr>)"

record security_writer =
  sw_generated :: header_list
  sw_proxied :: header_list
  sw_isProxied :: bool
  sw_hsts :: string
  sw_robots :: string
  sw_wrote :: bool

definition absent :: "http_header \<Rightarrow> string \<Rightarrow> bool" where
  "absent h k \<longleftrightarrow> h k = None \<or> h k = Some []"

definition injected :: "security_writer \<Rightarrow> http_header \<Rightarrow> http_header" where
  "injected sw dst =
     (let src = (if sw_isProxied sw then sw_proxied sw else sw_generated sw);
          h1 = (\<lambda>k. case map_of src k of None \<Rightarrow> dst k | Some vs \<Rightarrow> if absent dst k then Some vs else dst k);
          h2 = (if sw_robots sw \<noteq> [] \<and> hdr_Get h1 ''X-Robots-Tag'' = [] then hdr_Set h1 ''X-Robots-Tag'' (sw_robots sw) else h1)
      in (if sw_hsts sw \<noteq> [] then hdr_Set h2 ''Strict-Transport-Security'' (sw_hsts sw) else h2))"

definition inject :: "security_writer \<Rightarrow> response \<Rightarrow> security_writer \<times> response" where
  "inject sw rs = (if sw_wrote sw then (sw, rs) else (sw\<lparr>sw_wrote := True\<rparr>, rs\<lparr>rs_Header := injected sw (rs_Header rs)\<rparr>))"

definition sw_WriteHeader :: "nat \<Rightarrow> security_writer \<Rightarrow> response \<Rightarrow> security_writer \<times> response" where
  "sw_WriteHeader code sw rs =
     (case (if 200 \<le> code then inject sw rs else (sw, rs)) of (sw', rs') \<Rightarrow> (sw', base_WriteHeader code rs'))"

text \<open>The dispatch writer is \<^const>\<open>None\<close> where nothing is configured.\<close>

definition withSecurityHeaders :: "scoped_headers \<Rightarrow> security_writer option" where
  "withSecurityHeaders sh =
     (if sc_generated sh = [] \<and> sc_proxied sh = [] then None
      else Some \<lparr>sw_generated = sc_generated sh, sw_proxied = sc_proxied sh, sw_isProxied = False, sw_hsts = [], sw_robots = [], sw_wrote = False\<rparr>)"

definition withHostResponseHeaders :: "security_writer option \<Rightarrow> string \<Rightarrow> string \<Rightarrow> security_writer option" where
  "withHostResponseHeaders w hst rob =
     (if hst = [] \<and> rob = [] then w
      else
        (let sw = (case w of Some sw \<Rightarrow> sw | None \<Rightarrow>
                \<lparr>sw_generated = [], sw_proxied = [], sw_isProxied = False, sw_hsts = [], sw_robots = [], sw_wrote = False\<rparr>);
             sw1 = (if hst = [] then sw else sw\<lparr>sw_hsts := hst\<rparr>)
         in Some (if rob = [] then sw1 else sw1\<lparr>sw_robots := rob\<rparr>)))"

definition markProxiedResponse :: "security_writer option \<Rightarrow> security_writer option" where
  "markProxiedResponse w = map_option (\<lambda>sw. sw\<lparr>sw_isProxied := True\<rparr>) w"

definition out_WriteHeader :: "nat \<Rightarrow> security_writer option \<Rightarrow> response \<Rightarrow> security_writer option \<times> response" where
  "out_WriteHeader code w rs =
     (case w of None \<Rightarrow> (None, base_WriteHeader code rs)
      | Some sw \<Rightarrow> (case sw_WriteHeader code sw rs of (sw', rs') \<Rightarrow> (Some sw', rs')))"

record header_rw =
  rw_spec :: headers_middleware
  rw_written :: bool

definition mutate_response :: "headers_middleware \<Rightarrow> http_header \<Rightarrow> http_header" where
  "mutate_response spec h = fold (\<lambda>(k, v) h. hdr_Set h k v) (SetResponse spec) (hdr_Del_all h (RemoveResponse spec))"

text \<open>The writers of the headers middlewares, the innermost first, around the dispatch writer.\<close>

fun stack_WriteHeader :: "nat \<Rightarrow> header_rw list \<Rightarrow> security_writer option \<Rightarrow> response \<Rightarrow> header_rw list \<times> security_writer option \<times> response" where
  "stack_WriteHeader code [] w rs = (case out_WriteHeader code w rs of (w', rs') \<Rightarrow> ([], w', rs'))"
| "stack_WriteHeader code (h # hs) w rs =
     (let rs1 = (if rw_written h then rs else rs\<lparr>rs_Header := mutate_response (rw_spec h) (rs_Header rs)\<rparr>) in
      case stack_WriteHeader code hs w rs1 of (hs', w', rs') \<Rightarrow> (h\<lparr>rw_written := True\<rparr> # hs', w', rs'))"

section \<open>An exchange with an upstream\<close>

definition copyHeader :: "http_header \<Rightarrow> http_header \<Rightarrow> http_header" where
  "copyHeader src dst k =
     (case src k of None \<Rightarrow> dst k | Some [] \<Rightarrow> dst k
      | Some (v # vs) \<Rightarrow> Some ((case dst k of None \<Rightarrow> [] | Some us \<Rightarrow> us) @ v # vs))"

fun interim_answers :: "(nat \<times> http_header) list \<Rightarrow> header_rw list \<Rightarrow> security_writer option \<Rightarrow> response \<Rightarrow> header_rw list \<times> security_writer option \<times> response" where
  "interim_answers [] hs w rs = (hs, w, rs)"
| "interim_answers ((code, hd1) # as) hs w rs =
     (case stack_WriteHeader code hs w (rs\<lparr>rs_Header := copyHeader hd1 (rs_Header rs)\<rparr>) of
        (hs', w', rs') \<Rightarrow> interim_answers as hs' w' (rs'\<lparr>rs_Header := Map.empty\<rparr>))"

section \<open>Error pages\<close>

record compiled_error_pages =
  cep_byStatus :: "(int \<times> string) list"
  cep_def :: "string option"
  cep_intercept :: "int list"

definition file_Ext :: "string \<Rightarrow> string" where
  "file_Ext name = (if CHR ''.'' \<in> set name then ''.'' @ rev (before (CHR ''.'') (rev name)) else [])"

text \<open>A directory is the list of its entries: name, whether it is a directory, and the content if it can be read.\<close>

fun dir_pages :: "(string \<Rightarrow> bool) \<Rightarrow> (string \<times> bool \<times> string option) list \<Rightarrow> compiled_error_pages \<Rightarrow> string + compiled_error_pages" where
  "dir_pages parses [] cep = Inr cep"
| "dir_pages parses ((file_name, is_dir, src) # es) cep =
     (if is_dir \<or> ToLower (file_Ext file_name) \<noteq> ''.html'' then dir_pages parses es cep
      else let name = TrimSuffix file_name (file_Ext file_name) in
        case src of
          None \<Rightarrow> Inl file_name
        | Some t \<Rightarrow>
            if \<not> parses t then Inl file_name
            else if name = ''default'' then dir_pages parses es (cep\<lparr>cep_def := Some t\<rparr>)
            else (case Atoi name of
                    None \<Rightarrow> dir_pages parses es cep
                  | Some n \<Rightarrow>
                      if n < 100 \<or> n > 599 then dir_pages parses es cep
                      else dir_pages parses es (cep\<lparr>cep_byStatus := AList.update n t (cep_byStatus cep)\<rparr>)))"

fun inline_pages :: "(string \<Rightarrow> bool) \<Rightarrow> (string \<times> string) list \<Rightarrow> compiled_error_pages \<Rightarrow> string + compiled_error_pages" where
  "inline_pages parses [] cep = Inr cep"
| "inline_pages parses ((key, t) # ks) cep =
     (if \<not> parses t then Inl key
      else if key = ''default'' then inline_pages parses ks (cep\<lparr>cep_def := Some t\<rparr>)
      else case Atoi key of
        None \<Rightarrow> Inl key
      | Some n \<Rightarrow> inline_pages parses ks (cep\<lparr>cep_byStatus := AList.update n t (cep_byStatus cep)\<rparr>))"

definition compileErrorPages ::
  "(string \<Rightarrow> bool) \<Rightarrow> (string \<Rightarrow> (string \<times> bool \<times> string option) list option) \<Rightarrow> error_pages \<Rightarrow> string + compiled_error_pages option" where
  "compileErrorPages parses read_dir cfg =
     (let cep = \<lparr>cep_byStatus = [], cep_def = None, cep_intercept = InterceptUpstream cfg\<rparr> in
      if ep_Dir cfg = [] \<and> ep_Inline cfg = [] then Inr None
      else case (if ep_Dir cfg = [] then Inr cep
                 else case read_dir (ep_Dir cfg) of None \<Rightarrow> Inl (ep_Dir cfg) | Some es \<Rightarrow> dir_pages parses es cep) of
        Inl e \<Rightarrow> Inl e
      | Inr cep' \<Rightarrow> (case inline_pages parses (ep_Inline cfg) cep' of Inl e \<Rightarrow> Inl e | Inr c \<Rightarrow> Inr (Some c)))"

definition SetErrorPages ::
  "(string \<Rightarrow> bool) \<Rightarrow> (string \<Rightarrow> (string \<times> bool \<times> string option) list option) \<Rightarrow> error_pages \<Rightarrow> compiled_error_pages option \<Rightarrow>
   string option \<times> compiled_error_pages option" where
  "SetErrorPages parses read_dir cfg current =
     (case compileErrorPages parses read_dir cfg of Inl e \<Rightarrow> (Some e, current) | Inr cep \<Rightarrow> (None, cep))"

definition lookupTemplate :: "compiled_error_pages option \<Rightarrow> int \<Rightarrow> string option" where
  "lookupTemplate ep sc =
     (case ep of None \<Rightarrow> None | Some c \<Rightarrow> (case map_of (cep_byStatus c) sc of Some t \<Rightarrow> Some t | None \<Rightarrow> cep_def c))"

text \<open>What an exchange is configured with: the host's and the settings' pages and the execution of templates, by template, status,
  host and request id; the names to strip; the outbound request as the response refers to it; and \<open>url.Parse\<close> (scheme and host of a URL)
  and \<open>url.URL.String\<close> of a URL whose scheme and host were replaced.\<close>

record outbound_request =
  or_URLHost :: string
  or_Host :: string
  or_Header :: http_header

record exchange =
  xc_hostPages :: "compiled_error_pages option"
  xc_globalPages :: "compiled_error_pages option"
  xc_render :: "string \<Rightarrow> int \<Rightarrow> string \<Rightarrow> string \<Rightarrow> string option"
  xc_host :: string
  xc_strip :: "string list"
  xc_request :: "outbound_request option"
  xc_parse :: url_parse
  xc_with :: "string \<Rightarrow> string \<Rightarrow> string \<Rightarrow> string"

definition resolveTemplate :: "exchange \<Rightarrow> int \<Rightarrow> string option" where
  "resolveTemplate x sc =
     (case lookupTemplate (xc_hostPages x) sc of Some t \<Rightarrow> Some t | None \<Rightarrow> lookupTemplate (xc_globalPages x) sc)"

definition html_page :: "string \<Rightarrow> http_header \<Rightarrow> http_header" where
  "html_page body h = hdr_Set (hdr_Set h ''Content-Type'' ''text/html; charset=utf-8'') ''Content-Length'' (itoa (length body))"

text \<open>Headers and body of an error response; \<open>def\<close> is the answer without a configured page.\<close>

definition serveErrorPage :: "exchange \<Rightarrow> int \<Rightarrow> (http_header \<Rightarrow> http_header \<times> string) \<Rightarrow> http_header \<Rightarrow> http_header \<times> string" where
  "serveErrorPage x sc def h =
     (case resolveTemplate x sc of
        None \<Rightarrow> def h
      | Some t \<Rightarrow>
          (case xc_render x t sc (xc_host x) (hdr_Get h ''X-GPM-Request-Id'') of
             None \<Rightarrow> def h
           | Some body \<Rightarrow> (hdr_Set (html_page body h) ''X-Content-Type-Options'' ''nosniff'', body)))"

definition http_Error :: "string \<Rightarrow> http_header \<Rightarrow> http_header \<times> string" where
  "http_Error msg h =
     (hdr_Set (hdr_Set (hdr_Del h ''Content-Length'')
        ''Content-Type'' ''text/plain; charset=utf-8'') ''X-Content-Type-Options'' ''nosniff'', msg @ [CHR 0x0A])"

definition refuse_page :: "exchange \<Rightarrow> int \<Rightarrow> string \<Rightarrow> http_header \<Rightarrow> http_header \<times> string" where
  "refuse_page x sc msg h = serveErrorPage x sc (http_Error msg) h"

definition wantsUpstreamIntercept :: "exchange \<Rightarrow> int \<Rightarrow> bool" where
  "wantsUpstreamIntercept x sc =
     (case (if xc_hostPages x = None then xc_globalPages x else xc_hostPages x) of
        None \<Rightarrow> False
      | Some c \<Rightarrow> sc \<in> set (cep_intercept c))"

definition interceptUpstreamResponse :: "exchange \<Rightarrow> int \<Rightarrow> http_header \<times> string \<Rightarrow> http_header \<times> string" where
  "interceptUpstreamResponse x sc resp =
     (if \<not> wantsUpstreamIntercept x sc then resp
      else case resolveTemplate x sc of
        None \<Rightarrow> resp
      | Some t \<Rightarrow>
          (case xc_render x t sc (xc_host x) [] of
             None \<Rightarrow> resp
           | Some body \<Rightarrow> (hdr_Del (html_page body (fst resp)) ''Content-Encoding'', body)))"

section \<open>The final answer\<close>

definition rewriteUpstreamRedirect :: "exchange \<Rightarrow> http_header \<Rightarrow> http_header" where
  "rewriteUpstreamRedirect x h =
     (let loc = hdr_Get h ''Location'' in
      if loc = [] then h
      else case xc_request x of
        None \<Rightarrow> h
      | Some q \<Rightarrow>
          (case xc_parse x loc of
             None \<Rightarrow> h
           | Some (scheme, host) \<Rightarrow>
               if scheme = [] then h
               else if host \<noteq> or_URLHost q then h
               else if or_Host q = [] then h
               else (let proto = hdr_Get (or_Header q) ''X-Forwarded-Proto''
                     in hdr_Set h ''Location'' (xc_with x loc (if proto = [] then ''https'' else proto) (or_Host q)))))"

definition ModifyResponse :: "exchange \<Rightarrow> nat \<Rightarrow> http_header \<times> string \<Rightarrow> http_header \<times> string" where
  "ModifyResponse x code resp =
     (case resp of (h, body) \<Rightarrow>
        interceptUpstreamResponse x (int code) (rewriteUpstreamRedirect x (stripUpstreamResponseHeaders (xc_strip x) h), body))"

text \<open>The final answer and the body that goes out with it: \<open>ModifyResponse\<close> marks it as proxied and changes it first.\<close>

definition final_answer ::
  "exchange \<Rightarrow> nat \<times> http_header \<times> string \<Rightarrow> header_rw list \<Rightarrow> security_writer option \<Rightarrow> response \<Rightarrow> response \<times> string" where
  "final_answer x ans hs w rs =
     (case ans of (code, resp) \<Rightarrow>
        (case ModifyResponse x code resp of (h, body) \<Rightarrow>
           (snd (snd (stack_WriteHeader code hs (if xc_request x = None then w else markProxiedResponse w)
              (rs\<lparr>rs_Header := copyHeader h (rs_Header rs)\<rparr>))), body)))"

definition proxied_exchange ::
  "exchange \<Rightarrow> (nat \<times> http_header) list \<Rightarrow> nat \<times> http_header \<times> string \<Rightarrow> header_rw list \<Rightarrow> security_writer option \<Rightarrow> response \<Rightarrow>
   response \<times> string" where
  "proxied_exchange x interim ans hs w rs =
     (case interim_answers interim hs w rs of (hs', w', rs') \<Rightarrow> final_answer x ans hs' w' rs')"

text \<open>The \<open>ErrorHandler\<close>: no upstream answered, in time or at all.\<close>

definition failed_exchange :: "exchange \<Rightarrow> bool \<Rightarrow> header_rw list \<Rightarrow> security_writer option \<Rightarrow> response \<Rightarrow> response \<times> string" where
  "failed_exchange x timeout hs w rs =
     (let sc = (if timeout then 504 else 502) in
      case serveErrorPage x (int sc) (\<lambda>h. (h, [])) (rs_Header rs) of
        (h, body) \<Rightarrow> (snd (snd (stack_WriteHeader sc hs w (rs\<lparr>rs_Header := h\<rparr>))), body))"

definition new_response :: response where
  "new_response = \<lparr>rs_Header = Map.empty, rs_sent = []\<rparr>"

lemmas [go_eval] = compileSecurityHeaders_def mergedSecurityHeaders_def of_scope_def partitionSecurityHeaders_def add_strip_def
  compileStripResponseHeaders_def mergedStripResponseHeaders_def stripUpstreamResponseHeaders_def final_sent_def
  base_WriteHeader_def absent_def injected_def inject_def sw_WriteHeader_def withSecurityHeaders_def withHostResponseHeaders_def
  markProxiedResponse_def out_WriteHeader_def mutate_response_def copyHeader_def final_answer_def proxied_exchange_def new_response_def
  file_Ext_def compileErrorPages_def lookupTemplate_def resolveTemplate_def html_page_def serveErrorPage_def wantsUpstreamIntercept_def
  interceptUpstreamResponse_def rewriteUpstreamRedirect_def ModifyResponse_def

section \<open>The final answer does not depend on interim ones\<close>

lemma copyHeader_empty [simp]: "copyHeader h Map.empty k = (if h k = Some [] then None else h k)"
  by (simp add: copyHeader_def split: option.splits list.splits)

lemma interim_write:
  "code < 200 \<Longrightarrow> \<not> final_sent rs \<Longrightarrow> stack_WriteHeader code [] w rs = ([], w, rs\<lparr>rs_sent := rs_sent rs @ [(code, rs_Header rs)]\<rparr>)"
  by (cases w) (simp_all add: out_WriteHeader_def sw_WriteHeader_def base_WriteHeader_def)

lemma interims_pass:
  assumes "list_all (\<lambda>(code, _). code < 200) interim" "\<not> final_sent rs" "rs_Header rs = Map.empty"
  shows "\<exists>rs'. interim_answers interim [] w rs = ([], w, rs') \<and> \<not> final_sent rs' \<and> rs_Header rs' = Map.empty"
  using assms
proof (induction interim arbitrary: rs)
  case (Cons a as)
  obtain code h where a: "a = (code, h)" by (cases a)
  let ?rs1 = "rs\<lparr>rs_Header := copyHeader h (rs_Header rs)\<rparr>"
  let ?rs2 = "?rs1\<lparr>rs_sent := rs_sent ?rs1 @ [(code, rs_Header ?rs1)]\<rparr>"
  have "stack_WriteHeader code [] w ?rs1 = ([], w, ?rs2)"
    by (rule interim_write) (use Cons.prems a in \<open>simp_all add: final_sent_def\<close>)
  then have "interim_answers (a # as) [] w rs = interim_answers as [] w (?rs2\<lparr>rs_Header := Map.empty\<rparr>)"
    by (simp add: a del: stack_WriteHeader.simps)
  moreover have "\<exists>rs'. interim_answers as [] w (?rs2\<lparr>rs_Header := Map.empty\<rparr>) = ([], w, rs') \<and> \<not> final_sent rs' \<and> rs_Header rs' = Map.empty"
    by (rule Cons.IH) (use Cons.prems a in \<open>simp_all add: final_sent_def\<close>)
  ultimately show ?case by simp
qed simp

lemma add_strip_canonical:
  "list_all (\<lambda>n. CanonicalMIMEHeaderKey n = n) acc \<Longrightarrow> list_all (\<lambda>n. CanonicalMIMEHeaderKey n = n) (fold add_strip names acc)"
  by (induction names arbitrary: acc) (auto simp: add_strip_def Let_def)

lemma strip_apply:
  assumes "strip = mergedStripResponseHeaders base override"
  shows "stripUpstreamResponseHeaders strip h k = (if k \<in> set strip then None else h k)"
proof -
  have "list_all (\<lambda>n. CanonicalMIMEHeaderKey n = n) strip"
    unfolding assms mergedStripResponseHeaders_def compileStripResponseHeaders_def by (simp add: add_strip_canonical)
  then have "CanonicalMIMEHeaderKey ` set strip = set strip" by (force simp: list_all_iff)
  then show ?thesis by (simp add: stripUpstreamResponseHeaders_def hdr_Del_all_apply)
qed

lemma response_names [simp]:
  "CanonicalMIMEHeaderKey ''X-Robots-Tag'' = ''X-Robots-Tag''" "CanonicalMIMEHeaderKey ''Strict-Transport-Security'' = ''Strict-Transport-Security''"
  by (simp_all add: CanonicalMIMEHeaderKey_def token_byte_def to_upper_char_def to_lower_char_def byte_of_def is_digit_def)

lemma final_sent_last:
  "200 \<le> code \<Longrightarrow> \<not> final_sent rs \<Longrightarrow> rs_sent (snd (snd (stack_WriteHeader code [] (Some sw) rs))) =
     rs_sent rs @ [(code, if sw_wrote sw then rs_Header rs else injected sw (rs_Header rs))]"
  by (simp add: out_WriteHeader_def sw_WriteHeader_def inject_def base_WriteHeader_def final_sent_def)

lemma page_names [simp]:
  "CanonicalMIMEHeaderKey ''Location'' = ''Location''" "CanonicalMIMEHeaderKey ''Content-Type'' = ''Content-Type''"
  "CanonicalMIMEHeaderKey ''Content-Length'' = ''Content-Length''" "CanonicalMIMEHeaderKey ''Content-Encoding'' = ''Content-Encoding''"
  by (simp_all add: CanonicalMIMEHeaderKey_def token_byte_def to_upper_char_def to_lower_char_def byte_of_def is_digit_def)

text \<open>The headers a hook may set are never stripped.\<close>

lemma add_strip_kept: "k \<notin> set acc \<Longrightarrow> StripResponseHeaderRefused k \<Longrightarrow> k \<notin> set (fold add_strip names acc)"
proof (induction names arbitrary: acc)
  case (Cons n names)
  then have "k \<notin> set (add_strip n acc)" by (simp add: add_strip_def Let_def) blast
  then show ?case using Cons by simp
qed simp

lemma strip_spares:
  assumes "strip = mergedStripResponseHeaders base override"
  shows "''Location'' \<notin> set strip" "''Content-Type'' \<notin> set strip" "''Content-Length'' \<notin> set strip" "''Content-Encoding'' \<notin> set strip"
proof -
  have "StripResponseHeaderRefused ''Location''" "StripResponseHeaderRefused ''Content-Type''" "StripResponseHeaderRefused ''Content-Length''"
    "StripResponseHeaderRefused ''Content-Encoding''" by code_simp+
  then show "''Location'' \<notin> set strip" "''Content-Type'' \<notin> set strip" "''Content-Length'' \<notin> set strip" "''Content-Encoding'' \<notin> set strip"
    using add_strip_kept [of _ "[]" "base @ override"]
    by (simp_all add: assms mergedStripResponseHeaders_def compileStripResponseHeaders_def del: fold_append)
qed

text \<open>The page that takes the place of an upstream's body, if any, and the location a client is sent to.\<close>

definition replaced_body :: "exchange \<Rightarrow> nat \<Rightarrow> string option" where
  "replaced_body x code =
     (if wantsUpstreamIntercept x (int code)
      then Option.bind (resolveTemplate x (int code)) (\<lambda>t. xc_render x t (int code) (xc_host x) []) else None)"

definition own_redirect :: "exchange \<Rightarrow> outbound_request \<Rightarrow> string \<Rightarrow> bool" where
  "own_redirect x q loc \<longleftrightarrow>
     loc \<noteq> [] \<and> or_Host q \<noteq> [] \<and> (\<exists>scheme. scheme \<noteq> [] \<and> xc_parse x loc = Some (scheme, or_URLHost q))"

definition client_proto :: "outbound_request \<Rightarrow> string" where
  "client_proto q = (let proto = hdr_Get (or_Header q) ''X-Forwarded-Proto'' in if proto = [] then ''https'' else proto)"

definition upstream_header :: "exchange \<Rightarrow> outbound_request \<Rightarrow> nat \<Rightarrow> http_header \<Rightarrow> http_header" where
  "upstream_header x q code h k =
     (if k = ''Location'' \<and> own_redirect x q (hdr_Get h k) then Some [xc_with x (hdr_Get h k) (client_proto q) (or_Host q)]
      else case replaced_body x code of
        None \<Rightarrow> h k
      | Some body \<Rightarrow>
          if k = ''Content-Type'' then Some [''text/html; charset=utf-8'']
          else if k = ''Content-Length'' then Some [itoa (length body)]
          else if k = ''Content-Encoding'' then None
          else h k)"

lemma intercept_parts:
  "interceptUpstreamResponse x (int code) (h, body) =
     (case replaced_body x code of None \<Rightarrow> (h, body) | Some b \<Rightarrow> (hdr_Del (html_page b h) ''Content-Encoding'', b))"
  by (auto simp: interceptUpstreamResponse_def replaced_body_def split: option.splits)

lemma redirect_apply:
  assumes "xc_request x = Some q"
  shows "rewriteUpstreamRedirect x h k =
    (if k = ''Location'' \<and> own_redirect x q (hdr_Get h k) then Some [xc_with x (hdr_Get h k) (client_proto q) (or_Host q)] else h k)"
  by (auto simp: rewriteUpstreamRedirect_def assms own_redirect_def client_proto_def Let_def hdr_Set_def split: option.splits)

lemma ModifyResponse_apply:
  assumes "xc_request x = Some q" "xc_strip x = mergedStripResponseHeaders base override"
  shows "fst (ModifyResponse x code (h, body)) k = (if k \<in> set (xc_strip x) then None else upstream_header x q code h k)"
    and "snd (ModifyResponse x code (h, body)) = (case replaced_body x code of None \<Rightarrow> body | Some b \<Rightarrow> b)"
proof -
  note strip = strip_apply [OF assms(2)] and spare = strip_spares [OF assms(2)]
  have "hdr_Get (stripUpstreamResponseHeaders (xc_strip x) h) ''Location'' = hdr_Get h ''Location''"
    using spare(1) by (simp add: hdr_Get_def hdr_Values_def strip)
  then show "fst (ModifyResponse x code (h, body)) k = (if k \<in> set (xc_strip x) then None else upstream_header x q code h k)"
    using spare
    by (auto simp: ModifyResponse_def intercept_parts upstream_header_def redirect_apply [OF assms(1)] html_page_def hdr_Set_def hdr_Del_def strip
      split: option.splits)
  show "snd (ModifyResponse x code (h, body)) = (case replaced_body x code of None \<Rightarrow> body | Some b \<Rightarrow> b)"
    by (simp add: ModifyResponse_def intercept_parts split: option.splits)
qed


text \<open>A response the program makes itself because no upstream answered gets the headers of the generated scope.\<close>

lemma failed_response_headers:
  assumes "w = withHostResponseHeaders (withSecurityHeaders (partitionSecurityHeaders rules)) hst rob" "w = Some sw" "absent h k"
    and "k \<noteq> ''X-Robots-Tag''" "k \<noteq> ''Strict-Transport-Security''" "resolveTemplate x (if timeout then 504 else 502) = None"
  shows "snd (last (rs_sent (fst (failed_exchange x timeout [] w \<lparr>rs_Header = h, rs_sent = []\<rparr>)))) k =
    (case map_of (of_scope ''generated-only'' rules) k of None \<Rightarrow> h k | Some vs \<Rightarrow> Some vs)"
proof -
  have sw: "\<not> sw_wrote sw" "sw_generated sw = of_scope ''generated-only'' rules" "\<not> sw_isProxied sw"
    using assms(1,2) by (auto simp: withHostResponseHeaders_def withSecurityHeaders_def partitionSecurityHeaders_def Let_def split: if_splits)
  then show ?thesis
    using assms(3-6)
    by (cases timeout)
      (auto simp: failed_exchange_def serveErrorPage_def assms(2) out_WriteHeader_def sw_WriteHeader_def inject_def base_WriteHeader_def final_sent_def
        injected_def Let_def hdr_Set_def split: option.splits)
qed

definition plain_exchange :: exchange where
  "plain_exchange = \<lparr>xc_hostPages = None, xc_globalPages = None, xc_render = (\<lambda>_ _ _ _. None), xc_host = ''app'', xc_strip = [],
     xc_request = Some \<lparr>or_URLHost = ''10.0.0.5:80'', or_Host = ''app.ex.com'', or_Header = Map.empty\<rparr>,
     xc_parse = (\<lambda>u. if u = ''http://10.0.0.5:80/login'' then Some (''http'', ''10.0.0.5:80'') else None),
     xc_with = (\<lambda>_ scheme host. scheme @ ''://'' @ host @ ''/login'')\<rparr>"

definition hide_server :: headers_middleware where
  "hide_server = \<lparr>SetRequest = [], SetResponse = [], RemoveRequest = [], RemoveResponse = [''Server'']\<rparr>"

text \<open>A headers middleware does not survive an interim answer. The writer of a headers middleware takes any status for
  the final one: after a 103 from the upstream the header map is cleared but the mutations are not made again, so a header
  the middleware is configured to remove reaches the client.\<close>

theorem header_mutations_lost_after_interim:
  "let sent = (\<lambda>interim. snd (last (rs_sent (fst (proxied_exchange plain_exchange interim (200, [''Server'' \<mapsto> [''backend/1.0'']], [])
        [\<lparr>rw_spec = hide_server, rw_written = False\<rparr>] None new_response)))) ''Server'') in
   sent [] = None \<and> sent [(103, Map.empty)] = Some [''backend/1.0'']"
proof -
  have "CanonicalMIMEHeaderKey ''Server'' = ''Server''"
    by (simp add: CanonicalMIMEHeaderKey_def token_byte_def to_upper_char_def to_lower_char_def byte_of_def is_digit_def)
  then show ?thesis
    by (simp add: proxied_exchange_def final_answer_def markProxiedResponse_def out_WriteHeader_def base_WriteHeader_def final_sent_def
        new_response_def mutate_response_def hide_server_def hdr_Del_all_def hdr_Del_def copyHeader_def stripUpstreamResponseHeaders_def
        ModifyResponse_def intercept_parts replaced_body_def wantsUpstreamIntercept_def rewriteUpstreamRedirect_def plain_exchange_def hdr_Get_def
        hdr_Values_def)
qed


end
