(* ===== verification/Router.thy ===== *)
theory Router
  imports Identity_Headers Response_Headers
begin

text \<open>
  The router of the data plane: \<open>router.go\<close> with \<open>tlsfloor.go\<close>, \<open>maintenance.go\<close> and \<open>simplehosts.go\<close>. Building turns a
  configuration into tables keyed by \<open>hostKey\<close>; serving finds the host, checks the client certificate requirement, the
  maintenance switch and the path, derives the client address and strips what the peer may not assert, and hands the
  request to the host's or location's chain.

  A \<open>*tls.Config\<close> is compared by pointer, so each one built carries the number of its allocation. The revocation lists
  of the client CAs are read at request time. Compiling error pages and looking up an upstream group are arguments.
\<close>

section \<open>TLS floors and configurations\<close>

definition VersionTLS12 :: nat where "VersionTLS12 = 0x0303"
definition VersionTLS13 :: nat where "VersionTLS13 = 0x0304"

definition tlsFloor :: "string \<Rightarrow> nat" where
  "tlsFloor v = (if v = ''1.3'' then VersionTLS13 else VersionTLS12)"

definition effectiveTLSFloor :: "string \<Rightarrow> nat \<Rightarrow> nat" where
  "effectiveTLSFloor pin fleet = (if pin \<noteq> [] then tlsFloor pin else fleet)"

datatype client_auth_type = NoClientCert | VerifyClientCertIfGiven | RequireAndVerifyClientCert

record tls_config =
  tc_ptr :: nat
  tc_MinVersion :: nat
  tc_ClientAuth :: client_auth_type
  tc_ClientCAs :: "string option"
  tc_checksCRL :: bool

definition baseHostTLSConfig :: "nat \<Rightarrow> nat \<Rightarrow> tls_config" where
  "baseHostTLSConfig ptr v = \<lparr>tc_ptr = ptr, tc_MinVersion = v, tc_ClientAuth = NoClientCert, tc_ClientCAs = None, tc_checksCRL = False\<rparr>"

definition hostTLSConfig :: "nat \<Rightarrow> string \<Rightarrow> nat \<Rightarrow> tls_config option" where
  "hostTLSConfig ptr pin fleet =
     (let eff = effectiveTLSFloor pin fleet in if eff = fleet then None else Some (baseHostTLSConfig ptr eff))"

definition clientAuthType :: "string \<Rightarrow> client_auth_type" where
  "clientAuthType mode = (if mode = ''optional'' then VerifyClientCertIfGiven else RequireAndVerifyClientCert)"

type_synonym anchors = "(string \<times> ca_anchor) list"

definition hostSNIConfig :: "nat \<Rightarrow> tls_settings \<Rightarrow> nat \<Rightarrow> anchors \<Rightarrow> string + tls_config option" where
  "hostSNIConfig ptr t fleet cas =
     (let c = hostTLSConfig ptr (MinTLSVersion t) fleet in
      case ClientAuth t of
        None \<Rightarrow> Inr c
      | Some ca \<Rightarrow>
          (case map_of cas (CARef ca) of
             None \<Rightarrow> Inl ''clientAuth''
           | Some anchor \<Rightarrow>
               Inr (Some ((case c of None \<Rightarrow> baseHostTLSConfig ptr fleet | Some c1 \<Rightarrow> c1)
                 \<lparr>tc_ClientCAs := Some (CARef ca), tc_ClientAuth := clientAuthType (ca_Mode ca), tc_checksCRL := crlConfigured anchor\<rparr>))))"

section \<open>Simple hosts\<close>

record redirect_handler =
  rd_forceSSL :: bool
  rd_targetScheme :: string
  rd_targetDomain :: string
  rd_status :: int
  rd_preservePath :: bool

definition newRedirectHandler :: "redirect_host \<Rightarrow> redirect_handler" where
  "newRedirectHandler h =
     \<lparr>rd_forceSSL = ForceSSL (rh_TLS h), rd_targetScheme = TargetScheme h, rd_targetDomain = TargetDomain h,
      rd_status = (if rh_StatusCode h = 0 then 301 else rh_StatusCode h), rd_preservePath = PreservePath h\<rparr>"

definition redirect_serve :: "redirect_handler \<Rightarrow> http_request \<Rightarrow> int \<times> string" where
  "redirect_serve h r =
     (let scheme = (if rd_targetScheme h = [] \<or> rd_targetScheme h = ''auto'' then requestScheme r else rd_targetScheme h)
      in (rd_status h, scheme @ ''://'' @ rd_targetDomain h @ (if rd_preservePath h then RequestURI r else [])))"

record parked_handler =
  pd_forceSSL :: bool
  pd_status :: int
  pd_name :: string

definition newParkedHandler :: "parked_host \<Rightarrow> parked_handler" where
  "newParkedHandler h =
     \<lparr>pd_forceSSL = ForceSSL (pk_TLS h), pd_status = (if pk_StatusCode h = 0 then 404 else pk_StatusCode h), pd_name = pk_Name h\<rparr>"

section \<open>Maintenance\<close>

definition isMaintenanceExempt :: "string list \<Rightarrow> string \<Rightarrow> bool" where
  "isMaintenanceExempt installed name = list_ex (\<lambda>e. name = hostKey e) installed"

definition maintenanceActive :: "bool \<Rightarrow> bool \<Rightarrow> bool \<Rightarrow> bool" where
  "maintenanceActive fleet hostFlag exempt \<longleftrightarrow> hostFlag \<or> fleet \<and> \<not> exempt"

definition acceptsMediaType :: "string \<Rightarrow> string \<Rightarrow> bool" where
  "acceptsMediaType accept want =
     list_ex (\<lambda>part. ToLower (TrimSpace (before (CHR '';'') (TrimSpace part))) = ToLower want) (split_on (CHR '','') accept)"

datatype maintenance_body = MaintenanceJSON | MaintenanceHTML | MaintenancePlain

definition maintenanceBody :: "string \<Rightarrow> maintenance_body \<times> string" where
  "maintenanceBody accept =
     (if acceptsMediaType accept ''application/json'' then (MaintenanceJSON, ''application/json; charset=utf-8'')
      else if acceptsMediaType accept ''text/html'' then (MaintenanceHTML, ''text/html; charset=utf-8'')
      else (MaintenancePlain, ''text/plain; charset=utf-8''))"

section \<open>Host response headers\<close>

definition hstsDefaultMaxAge :: int where "hstsDefaultMaxAge = 31536000"

definition hstsHeader :: "hsts \<Rightarrow> string" where
  "hstsHeader h =
     (if \<not> hsts_Enabled h then []
      else ''max-age='' @ itoa (nat (if hsts_MaxAge h \<le> 0 then hstsDefaultMaxAge else hsts_MaxAge h)) @
        (if hsts_IncludeSubdomains h then ''; includeSubDomains'' else []) @ (if hsts_Preload h then ''; preload'' else []))"

definition robotsHeader :: "bool \<Rightarrow> string" where
  "robotsHeader noIndex = (if noIndex then ''noindex, nofollow'' else [])"

section \<open>Building\<close>

record router_env =
  re_chain :: chain_env
  re_cas :: anchors
  re_fleetFloor :: nat
  re_securityHeaders :: "(string \<times> header_rule) list"
  re_stripHeaders :: "string list"
  re_errorPages :: "error_pages \<Rightarrow> bool"
  re_groups :: "string \<Rightarrow> bool"

text \<open>What a route ends in: the chain in front and the terminal proxy behind it.\<close>

record host_route =
  ro_chain :: "tier list option"
  ro_backend :: "upstream + string"
  ro_identity :: "string list"
  ro_strip :: "string list"
  ro_compress :: bool

record host_handler =
  hh_host :: "host_shape proxy_host"
  hh_route :: host_route
  hh_locations :: "host_route location_route list"
  hh_upstream :: string
  hh_forceSSL :: bool
  hh_hsts :: string
  hh_robots :: string
  hh_securityHeaders :: scoped_headers
  hh_identityHeaders :: "string list"
  hh_trustedNets :: "ipnet list"
  hh_trustedProxies :: "ipnet list"
  hh_certID :: "cert_identity option"
  hh_maintenance :: bool
  hh_maintenanceExempt :: bool

record client_auth_req =
  cr_cfg :: tls_config
  requireChain :: bool
  cr_anchor :: string

record router =
  rt_hosts :: "string \<rightharpoonup> host_handler"
  rt_redirects :: "string \<rightharpoonup> redirect_handler"
  rt_parked :: "string \<rightharpoonup> parked_handler"
  rt_tlsConfigs :: "string \<rightharpoonup> tls_config"
  rt_clientAuth :: "string \<rightharpoonup> client_auth_req"
  rt_defaultTLS :: "tls_config option"
  rt_securityHeaders :: scoped_headers
  rt_allocated :: nat

definition upstreamLabel :: "upstream \<Rightarrow> string" where
  "upstreamLabel up = u_Scheme up @ ''://'' @ JoinHostPort (u_Host up) (itoa (nat (u_Port up)))"

definition hostProxy :: "router_env \<Rightarrow> host_shape \<Rightarrow> registry \<Rightarrow> tier list option \<Rightarrow> string + host_route \<times> string" where
  "hostProxy env h reg chain =
     (let ro = (\<lambda>backend. \<lparr>ro_chain = chain, ro_backend = backend, ro_identity = assertedIdentityHeaders h reg,
                  ro_strip = mergedStripResponseHeaders (re_stripHeaders env) (hs_StripResponseHeaders h),
                  ro_compress = comp_Enabled (hs_Compression h)\<rparr>) in
      if hs_UpstreamGroupRef h = [] then Inr (ro (Inl (hs_Upstream h)), upstreamLabel (hs_Upstream h))
      else if re_groups env (hs_UpstreamGroupRef h) then Inr (ro (Inr (hs_UpstreamGroupRef h)), ''group:'' @ hs_UpstreamGroupRef h)
      else Inl ''upstream group'')"

fun all_built :: "('e + 'a) list \<Rightarrow> 'e + 'a list" where
  "all_built [] = Inr []"
| "all_built (Inl e # xs) = Inl e"
| "all_built (Inr x # xs) = (case all_built xs of Inl e \<Rightarrow> Inl e | Inr ys \<Rightarrow> Inr (x # ys))"

definition buildLocations :: "router_env \<Rightarrow> host_shape \<Rightarrow> registry \<Rightarrow> string + host_route location_route list" where
  "buildLocations env h reg =
     all_built (map (\<lambda>(p, loc).
       case hostProxy env (location_host h loc) reg (location_chain (re_chain env) h loc reg) of
         Inl e \<Rightarrow> Inl e
       | Inr (ro, label) \<Rightarrow> Inr \<lparr>lr_prefix = normalizeLocationPrefix p, lr_handler = ro, lr_upstream = label\<rparr>)
       (order_locations (map (\<lambda>loc. (loc_Path loc, loc)) (hs_Locations h))))"

definition compile_host :: "router_env \<Rightarrow> registry \<Rightarrow> host_shape proxy_host \<Rightarrow> string + host_handler" where
  "compile_host env reg h =
     (let s = ph_rest h; certID = compileCertIdentity (hs_TLS s); trust = hostIdentityTrust s reg in
      if (case hs_ErrorPages s of None \<Rightarrow> False | Some ep \<Rightarrow> \<not> re_errorPages env ep) then Inl ''errorPages''
      else case hostProxy env s reg (buildChain (re_chain env) s reg) of
        Inl e \<Rightarrow> Inl e
      | Inr (ro, label) \<Rightarrow>
          (case buildLocations env s reg of
             Inl e \<Rightarrow> Inl e
           | Inr locs \<Rightarrow>
               Inr \<lparr>hh_host = h, hh_route = ro, hh_locations = locs, hh_upstream = label, hh_forceSSL = ForceSSL (hs_TLS s),
                    hh_hsts = hstsHeader (tls_HSTS (hs_TLS s)), hh_robots = robotsHeader (hs_RobotsNoIndex s),
                    hh_securityHeaders = partitionSecurityHeaders (mergedSecurityHeaders (re_securityHeaders env) (hs_SecurityHeaders s)),
                    hh_identityHeaders = fst trust @ (case certID of None \<Rightarrow> [] | Some ci \<Rightarrow> [ci_subject ci]),
                    hh_trustedNets = snd trust,
                    hh_trustedProxies = hostTrustedProxies (hs_TrustedProxies s) (ce_trusted (re_chain env)),
                    hh_certID = certID, hh_maintenance = ph_Maintenance h, hh_maintenanceExempt = hs_AdminEdge s\<rparr>))"

definition set_keys :: "string list \<Rightarrow> 'v \<Rightarrow> (string \<rightharpoonup> 'v) \<Rightarrow> string \<rightharpoonup> 'v" where
  "set_keys ds v m = fold (\<lambda>d m. m(hostKey d \<mapsto> v)) ds m"

definition pinTLS :: "router_env \<Rightarrow> string list \<Rightarrow> tls_settings \<Rightarrow> router \<Rightarrow> string + router" where
  "pinTLS env ds t rt =
     (case hostSNIConfig (rt_allocated rt) t (re_fleetFloor env) (re_cas env) of
        Inl e \<Rightarrow> Inl e
      | Inr None \<Rightarrow> Inr rt
      | Inr (Some c) \<Rightarrow>
          (let rt1 = rt\<lparr>rt_tlsConfigs := set_keys ds c (rt_tlsConfigs rt), rt_allocated := rt_allocated rt + 1\<rparr> in
           case ClientAuth t of
             None \<Rightarrow> Inr rt1
           | Some ca \<Rightarrow>
               Inr (rt1\<lparr>rt_clientAuth := set_keys ds \<lparr>cr_cfg = c, requireChain = (ca_Mode ca \<noteq> ''optional''), cr_anchor = CARef ca\<rparr>
                 (rt_clientAuth rt1)\<rparr>)))"

definition add_proxy_host :: "router_env \<Rightarrow> registry \<Rightarrow> host_shape proxy_host \<Rightarrow> router \<Rightarrow> string + router" where
  "add_proxy_host env reg h rt =
     (if ph_Disabled h then Inr rt
      else case compile_host env reg h of
        Inl e \<Rightarrow> Inl e
      | Inr hh \<Rightarrow> pinTLS env (ph_Domains h) (hs_TLS (ph_rest h)) (rt\<lparr>rt_hosts := set_keys (ph_Domains h) hh (rt_hosts rt)\<rparr>))"

definition add_redirect_host :: "router_env \<Rightarrow> redirect_host \<Rightarrow> router \<Rightarrow> string + router" where
  "add_redirect_host env h rt =
     (if rh_Disabled h then Inr rt
      else pinTLS env (rh_Domains h) (rh_TLS h) (rt\<lparr>rt_redirects := set_keys (rh_Domains h) (newRedirectHandler h) (rt_redirects rt)\<rparr>))"

definition add_parked_host :: "router_env \<Rightarrow> parked_host \<Rightarrow> router \<Rightarrow> string + router" where
  "add_parked_host env h rt =
     (if pk_Disabled h then Inr rt
      else pinTLS env (pk_Domains h) (pk_TLS h) (rt\<lparr>rt_parked := set_keys (pk_Domains h) (newParkedHandler h) (rt_parked rt)\<rparr>))"

fun build_with :: "('a \<Rightarrow> router \<Rightarrow> string + router) \<Rightarrow> 'a list \<Rightarrow> router \<Rightarrow> string + router" where
  "build_with f [] rt = Inr rt"
| "build_with f (x # xs) rt = (case f x rt of Inl e \<Rightarrow> Inl e | Inr rt' \<Rightarrow> build_with f xs rt')"

definition empty_router :: "router_env \<Rightarrow> router" where
  "empty_router env =
     \<lparr>rt_hosts = Map.empty, rt_redirects = Map.empty, rt_parked = Map.empty, rt_tlsConfigs = Map.empty, rt_clientAuth = Map.empty,
      rt_defaultTLS = (if re_fleetFloor env = VersionTLS12 then None else Some (baseHostTLSConfig 0 (re_fleetFloor env))),
      rt_securityHeaders = partitionSecurityHeaders (re_securityHeaders env), rt_allocated = 1\<rparr>"

definition buildRouter :: "router_env \<Rightarrow> gpm_config \<Rightarrow> string + router" where
  "buildRouter env cfg =
     (case build_with (add_proxy_host env (buildRegistry cfg)) (c_ProxyHosts cfg) (empty_router env) of
        Inl e \<Rightarrow> Inl e
      | Inr rt1 \<Rightarrow>
          (case build_with (add_redirect_host env) (c_RedirectHosts cfg) rt1 of
             Inl e \<Rightarrow> Inl e
           | Inr rt2 \<Rightarrow> build_with (add_parked_host env) (c_ParkedHosts cfg) rt2))"

section \<open>Serving\<close>

text \<open>What is read at request time: the anchors with their current revocation lists, the fleet-wide maintenance switch and
  the names it leaves up.\<close>

record live_env =
  lv_anchors :: anchors
  lv_maintenance :: maintenance_settings
  lv_exempt :: "string list"
  lv_sha :: sha256

definition tlsConfigForSNI :: "router \<Rightarrow> string \<Rightarrow> tls_config option" where
  "tlsConfigForSNI rt name = (case rt_tlsConfigs rt (hostKey name) of Some c \<Rightarrow> Some c | None \<Rightarrow> rt_defaultTLS rt)"

definition securityHeadersFor :: "router \<Rightarrow> string \<Rightarrow> scoped_headers" where
  "securityHeadersFor rt name = (case rt_hosts rt name of Some hh \<Rightarrow> hh_securityHeaders hh | None \<Rightarrow> rt_securityHeaders rt)"

definition clientAuthSatisfied :: "live_env \<Rightarrow> router \<Rightarrow> client_auth_req \<Rightarrow> http_request \<Rightarrow> bool" where
  "clientAuthSatisfied lv rt req r =
     (case TLS r of
        None \<Rightarrow> False
      | Some t \<Rightarrow>
          (case tlsConfigForSNI rt (ServerName t) of None \<Rightarrow> False | Some c \<Rightarrow> tc_ptr c = tc_ptr (cr_cfg req)) \<and>
          \<not> (requireChain req \<and> VerifiedChains t = []) \<and>
          \<not> (case map_of (lv_anchors lv) (cr_anchor req) of
               None \<Rightarrow> False | Some a \<Rightarrow> VerifiedChains t \<noteq> [] \<and> chainRevoked a (VerifiedChains t)))"

datatype dispatch =
  BadRequest string
  | Misdirected
  | InMaintenance string int maintenance_body
  | Served host_handler host_route http_request "security_writer option"
  | RedirectTo int string
  | ParkedWith int
  | NoSuchHost

definition serveMaintenance :: "live_env \<Rightarrow> host_handler \<Rightarrow> http_request \<Rightarrow> dispatch" where
  "serveMaintenance lv hh r =
     InMaintenance (ph_Name (hh_host hh)) (EffectiveRetryAfter (lv_maintenance lv)) (fst (maintenanceBody (hdr_Get (Header r) ''Accept'')))"

definition in_maintenance :: "live_env \<Rightarrow> host_handler \<Rightarrow> string \<Rightarrow> bool" where
  "in_maintenance lv hh name =
     maintenanceActive (mt_Enabled (lv_maintenance lv)) (hh_maintenance hh) (hh_maintenanceExempt hh \<or> isMaintenanceExempt (lv_exempt lv) name)"

text \<open>The request the chain gets: client address derived, unproven identity stripped.\<close>

definition admit :: "host_handler \<Rightarrow> http_request \<Rightarrow> http_request" where
  "admit hh r =
     stripUntrustedIdentity (hh_identityHeaders hh) (hh_trustedNets hh) (hh_trustedProxies hh)
       (withClientIP r (deriveClientIP r (hh_trustedProxies hh)))"

definition serve_proxy_host :: "router \<Rightarrow> host_handler \<Rightarrow> string \<Rightarrow> http_request \<Rightarrow> dispatch" where
  "serve_proxy_host rt hh hst r =
     Served hh (fst (route (hh_locations hh) (hh_route hh, hh_upstream hh) (url_Path r))) r
       (withHostResponseHeaders (withSecurityHeaders (hh_securityHeaders hh)) hst (hh_robots hh))"

definition serveHTTPS :: "live_env \<Rightarrow> router \<Rightarrow> http_request \<Rightarrow> dispatch" where
  "serveHTTPS lv rt r =
     (if \<not> validHostHeader (Host r) then BadRequest ''host''
      else
        (let name = hostKey (Host r) in
         if (case rt_clientAuth rt name of None \<Rightarrow> False | Some req \<Rightarrow> \<not> clientAuthSatisfied lv rt req r) then Misdirected
         else case rt_hosts rt name of
           Some hh \<Rightarrow>
             if in_maintenance lv hh name then serveMaintenance lv hh r
             else (case normalizeRequestPath r of
                     None \<Rightarrow> BadRequest ''path''
                   | Some r1 \<Rightarrow>
                       (let r2 = admit hh r1; r3 = (case hh_certID hh of None \<Rightarrow> r2 | Some ci \<Rightarrow> cert_identity_apply (lv_sha lv) ci r2)
                        in serve_proxy_host rt hh (hh_hsts hh) r3))
         | None \<Rightarrow>
             (case rt_redirects rt name of
                Some rh \<Rightarrow> (case redirect_serve rh r of (st, url) \<Rightarrow> RedirectTo st url)
              | None \<Rightarrow> (case rt_parked rt name of Some ph \<Rightarrow> ParkedWith (pd_status ph) | None \<Rightarrow> NoSuchHost))))"

definition redirectToHTTPS :: "http_request \<Rightarrow> dispatch" where
  "redirectToHTTPS r =
     RedirectTo 308 (''https://'' @ hostKey (Host r) @ EscapedPath (url_Path r) @ (if url_RawQuery r = [] then [] else ''?'' @ url_RawQuery r))"

definition serveHTTP :: "live_env \<Rightarrow> router \<Rightarrow> http_request \<Rightarrow> dispatch" where
  "serveHTTP lv rt r =
     (if \<not> validHostHeader (Host r) then BadRequest ''host''
      else
        (let name = hostKey (Host r) in
         if rt_clientAuth rt name \<noteq> None then redirectToHTTPS r
         else case rt_hosts rt name of
           Some hh \<Rightarrow>
             (case normalizeRequestPath r of
                None \<Rightarrow> BadRequest ''path''
              | Some r1 \<Rightarrow>
                  if hh_forceSSL hh then redirectToHTTPS r1
                  else if in_maintenance lv hh name then serveMaintenance lv hh r1
                  else serve_proxy_host rt hh [] (admit hh r1))
         | None \<Rightarrow>
             (case rt_redirects rt name of
                Some rh \<Rightarrow>
                  if rd_forceSSL rh then redirectToHTTPS r
                  else (case redirect_serve rh r of (st, url) \<Rightarrow> RedirectTo st url)
              | None \<Rightarrow>
                  (case rt_parked rt name of
                     Some ph \<Rightarrow> if pd_forceSSL ph then redirectToHTTPS r else ParkedWith (pd_status ph)
                   | None \<Rightarrow> NoSuchHost))))"

lemmas [go_eval] = VersionTLS12_def VersionTLS13_def tlsFloor_def effectiveTLSFloor_def baseHostTLSConfig_def hostTLSConfig_def clientAuthType_def
  hostSNIConfig_def newRedirectHandler_def redirect_serve_def newParkedHandler_def isMaintenanceExempt_def maintenanceActive_def
  acceptsMediaType_def maintenanceBody_def hstsDefaultMaxAge_def hstsHeader_def robotsHeader_def upstreamLabel_def hostProxy_def
  buildLocations_def compile_host_def set_keys_def pinTLS_def add_proxy_host_def add_redirect_host_def add_parked_host_def
  empty_router_def buildRouter_def DefaultMaintenanceRetryAfter_def EffectiveRetryAfter_def tlsConfigForSNI_def securityHeadersFor_def
  clientAuthSatisfied_def serveMaintenance_def in_maintenance_def admit_def serve_proxy_host_def serveHTTPS_def redirectToHTTPS_def serveHTTP_def

section \<open>The tables\<close>

abbreviation keys :: "string list \<Rightarrow> string set" where
  "keys ds \<equiv> hostKey ` set ds"

lemma set_keys_apply: "set_keys ds v m k = (if k \<in> keys ds then Some v else m k)"
  unfolding set_keys_def by (induction ds arbitrary: m) auto

text \<open>The domains and TLS settings of the hosts a router was built from, in build order.\<close>

type_synonym claim = "string list \<times> tls_settings"

definition proxy_claim :: "host_shape proxy_host \<Rightarrow> claim option" where
  "proxy_claim h = (if ph_Disabled h then None else Some (ph_Domains h, hs_TLS (ph_rest h)))"

definition redirect_claim :: "redirect_host \<Rightarrow> claim option" where
  "redirect_claim h = (if rh_Disabled h then None else Some (rh_Domains h, rh_TLS h))"

definition parked_claim :: "parked_host \<Rightarrow> claim option" where
  "parked_claim h = (if pk_Disabled h then None else Some (pk_Domains h, pk_TLS h))"

definition tls_claims :: "gpm_config \<Rightarrow> claim list" where
  "tls_claims cfg = List.map_filter proxy_claim (c_ProxyHosts cfg) @ List.map_filter redirect_claim (c_RedirectHosts cfg) @
     List.map_filter parked_claim (c_ParkedHosts cfg)"

definition disjoint_claims :: "claim list \<Rightarrow> bool" where
  "disjoint_claims cs = sorted_wrt (\<lambda>a b. keys (fst a) \<inter> keys (fst b) = {}) cs"

text \<open>Configurations of different hosts are different objects, and every name of a host that asks for client certificates
  has that host's configuration and requirement.\<close>

definition fresh_configs :: "router \<Rightarrow> bool" where
  "fresh_configs rt \<longleftrightarrow> 0 < rt_allocated rt \<and> (\<forall>k c. rt_tlsConfigs rt k = Some c \<longrightarrow> 0 < tc_ptr c \<and> tc_ptr c < rt_allocated rt)"

definition own_configs :: "claim list \<Rightarrow> router \<Rightarrow> bool" where
  "own_configs cs rt \<longleftrightarrow>
     (\<forall>k1 c1 k2 c2. rt_tlsConfigs rt k1 = Some c1 \<longrightarrow> rt_tlsConfigs rt k2 = Some c2 \<longrightarrow> tc_ptr c1 = tc_ptr c2 \<longrightarrow>
        (\<exists>cl \<in> set cs. k1 \<in> keys (fst cl) \<and> k2 \<in> keys (fst cl)))"

definition requires :: "claim \<Rightarrow> router \<Rightarrow> bool" where
  "requires cl rt \<longleftrightarrow>
     (\<forall>ca k. ClientAuth (snd cl) = Some ca \<longrightarrow> k \<in> keys (fst cl) \<longrightarrow>
        (\<exists>c. rt_tlsConfigs rt k = Some c \<and>
           rt_clientAuth rt k = Some \<lparr>cr_cfg = c, requireChain = (ca_Mode ca \<noteq> ''optional''), cr_anchor = CARef ca\<rparr>))"

definition pinned :: "claim list \<Rightarrow> router \<Rightarrow> bool" where
  "pinned cs rt \<longleftrightarrow> fresh_configs rt \<and> own_configs cs rt \<and> list_all (\<lambda>cl. requires cl rt) cs"

definition same_pins :: "router \<Rightarrow> router \<Rightarrow> bool" where
  "same_pins rt rt' \<longleftrightarrow> rt_tlsConfigs rt' = rt_tlsConfigs rt \<and> rt_clientAuth rt' = rt_clientAuth rt \<and> rt_allocated rt' = rt_allocated rt \<and>
     rt_defaultTLS rt' = rt_defaultTLS rt"

lemma pinned_same: "same_pins rt rt' \<Longrightarrow> pinned cs rt' = pinned cs rt"
  unfolding same_pins_def pinned_def fresh_configs_def own_configs_def requires_def by simp

lemma hostSNIConfig_ptr: "hostSNIConfig ptr t fleet cas = Inr (Some c) \<Longrightarrow> tc_ptr c = ptr"
  by (auto simp: hostSNIConfig_def hostTLSConfig_def baseHostTLSConfig_def Let_def split: option.splits if_splits)

lemma hostSNIConfig_None: "hostSNIConfig ptr t fleet cas = Inr None \<Longrightarrow> ClientAuth t = None"
  by (auto simp: hostSNIConfig_def Let_def split: option.splits)

lemma pinTLS_cases:
  assumes "pinTLS env ds t rt = Inr rt'"
  obtains (plain) "rt' = rt" "ClientAuth t = None"
    | (config) c where "tc_ptr c = rt_allocated rt" "rt_tlsConfigs rt' = set_keys ds c (rt_tlsConfigs rt)" "rt_allocated rt' = rt_allocated rt + 1"
        "rt_clientAuth rt' = (case ClientAuth t of None \<Rightarrow> rt_clientAuth rt
           | Some ca \<Rightarrow> set_keys ds \<lparr>cr_cfg = c, requireChain = (ca_Mode ca \<noteq> ''optional''), cr_anchor = CARef ca\<rparr> (rt_clientAuth rt))"
proof (cases "hostSNIConfig (rt_allocated rt) t (re_fleetFloor env) (re_cas env)")
  case (Inr oc)
  show ?thesis
  proof (cases oc)
    case None
    with Inr assms hostSNIConfig_None plain show ?thesis by (auto simp: pinTLS_def)
  next
    case (Some c)
    with Inr assms hostSNIConfig_ptr config [of c] show ?thesis by (auto simp: pinTLS_def Let_def split: option.splits)
  qed
qed (use assms in \<open>simp add: pinTLS_def\<close>)

lemma pinTLS_frame:
  "pinTLS env ds t rt = Inr rt' \<Longrightarrow> rt_hosts rt' = rt_hosts rt \<and> rt_redirects rt' = rt_redirects rt \<and> rt_parked rt' = rt_parked rt \<and>
     rt_defaultTLS rt' = rt_defaultTLS rt"
  by (auto simp: pinTLS_def Let_def split: sum.splits option.splits)

lemma own_configs_step:
  assumes "own_configs cs rt" "fresh_configs rt" "tc_ptr c = rt_allocated rt" "rt_tlsConfigs rt' = set_keys ds c (rt_tlsConfigs rt)"
  shows "own_configs (cs @ [(ds, t)]) rt'"
  unfolding own_configs_def
proof (intro allI impI)
  fix k1 c1 k2 c2
  assume k: "rt_tlsConfigs rt' k1 = Some c1" "rt_tlsConfigs rt' k2 = Some c2" "tc_ptr c1 = tc_ptr c2"
  have new: "k \<in> keys ds \<longleftrightarrow> tc_ptr c' = rt_allocated rt" if "rt_tlsConfigs rt' k = Some c'" for k c'
    using that assms(2-4) by (cases "k \<in> keys ds") (force simp: set_keys_apply fresh_configs_def)+
  show "\<exists>cl \<in> set (cs @ [(ds, t)]). k1 \<in> keys (fst cl) \<and> k2 \<in> keys (fst cl)"
  proof (cases "k1 \<in> keys ds")
    case True
    with k new have "k2 \<in> keys ds" by metis
    with True show ?thesis by auto
  next
    case False
    with k new have "k2 \<notin> keys ds" by metis
    with False k have "rt_tlsConfigs rt k1 = Some c1" "rt_tlsConfigs rt k2 = Some c2" by (simp_all add: assms(4) set_keys_apply)
    with k(3) assms(1) have "\<exists>cl \<in> set cs. k1 \<in> keys (fst cl) \<and> k2 \<in> keys (fst cl)" unfolding own_configs_def by blast
    then show ?thesis by auto
  qed
qed

lemma requires_step:
  assumes "requires cl rt" "keys (fst cl) \<inter> keys ds = {}" "rt_tlsConfigs rt' = set_keys ds c (rt_tlsConfigs rt)"
    "rt_clientAuth rt' = (case ca of None \<Rightarrow> rt_clientAuth rt | Some a \<Rightarrow> set_keys ds (f a) (rt_clientAuth rt))"
  shows "requires cl rt'"
  unfolding requires_def
proof (intro allI impI)
  fix a k assume k: "ClientAuth (snd cl) = Some a" "k \<in> keys (fst cl)"
  then have "k \<notin> keys ds" using assms(2) by auto
  moreover obtain c' where "rt_tlsConfigs rt k = Some c'"
      "rt_clientAuth rt k = Some \<lparr>cr_cfg = c', requireChain = (ca_Mode a \<noteq> ''optional''), cr_anchor = CARef a\<rparr>"
    using assms(1) k unfolding requires_def by blast
  ultimately show "\<exists>c. rt_tlsConfigs rt' k = Some c \<and>
           rt_clientAuth rt' k = Some \<lparr>cr_cfg = c, requireChain = (ca_Mode a \<noteq> ''optional''), cr_anchor = CARef a\<rparr>"
    by (cases ca) (simp_all add: assms(3,4) set_keys_apply)
qed

lemma pin_step:
  assumes "pinned cs rt" "pinTLS env ds t rt = Inr rt'" "list_all (\<lambda>cl. keys (fst cl) \<inter> keys ds = {}) cs"
  shows "pinned (cs @ [(ds, t)]) rt'"
  using assms(2)
proof (cases rule: pinTLS_cases)
  case plain
  have "own_configs (cs @ [(ds, t)]) rt" using assms(1) unfolding pinned_def own_configs_def by fastforce
  with plain assms(1) show ?thesis by (auto simp: pinned_def requires_def)
next
  case (config c)
  have fresh: "fresh_configs rt'"
    using assms(1) config by (auto simp: pinned_def fresh_configs_def set_keys_apply less_Suc_eq split: if_splits)
  have own: "own_configs (cs @ [(ds, t)]) rt'"
    using own_configs_step [of cs rt c rt' ds t] config assms(1) by (simp add: pinned_def)
  have old: "list_all (\<lambda>cl. requires cl rt') cs"
    using assms(1,3) requires_step [OF _ _ config(2,4)] by (simp add: pinned_def list_all_iff)
  have "requires (ds, t) rt'" unfolding requires_def using config by (simp add: set_keys_apply)
  with fresh own old show ?thesis by (simp add: pinned_def)
qed

text \<open>What the three kinds of host share: adding an enabled host pins its claim, adding a disabled one does nothing.\<close>

locale host_kind =
  fixes env :: router_env and add :: "'h \<Rightarrow> router \<Rightarrow> string + router" and claim :: "'h \<Rightarrow> claim option"
  assumes disabled: "claim h = None \<Longrightarrow> add h rt = Inr rt' \<Longrightarrow> rt' = rt"
    and enabled: "claim h = Some (ds, t) \<Longrightarrow> add h rt = Inr rt' \<Longrightarrow> \<exists>rt0. same_pins rt rt0 \<and> pinTLS env ds t rt0 = Inr rt'"
begin

lemma add_pinned:
  assumes "add h rt = Inr rt'" "pinned cs rt" "case claim h of None \<Rightarrow> True | Some cl \<Rightarrow> list_all (\<lambda>c. keys (fst c) \<inter> keys (fst cl) = {}) cs"
  shows "pinned (cs @ (case claim h of None \<Rightarrow> [] | Some cl \<Rightarrow> [cl])) rt' \<and> rt_defaultTLS rt' = rt_defaultTLS rt"
proof (cases "claim h")
  case None
  with disabled [OF None assms(1)] assms(2) show ?thesis by simp
next
  case (Some cl)
  obtain ds t where cl: "cl = (ds, t)" by (cases cl)
  with Some enabled assms(1) obtain rt0 where rt0: "same_pins rt rt0" "pinTLS env ds t rt0 = Inr rt'" by blast
  have "pinned (cs @ [(ds, t)]) rt'"
    using pin_step [OF _ rt0(2)] pinned_same [OF rt0(1)] assms(2,3) Some cl by simp
  moreover have "rt_defaultTLS rt' = rt_defaultTLS rt" using pinTLS_frame [OF rt0(2)] rt0(1) by (simp add: same_pins_def)
  ultimately show ?thesis using Some cl by simp
qed

lemma all_pinned:
  assumes "build_with add hs rt = Inr rt'" "pinned cs rt" "disjoint_claims (cs @ List.map_filter claim hs)"
  shows "pinned (cs @ List.map_filter claim hs) rt' \<and> rt_defaultTLS rt' = rt_defaultTLS rt"
  using assms
proof (induction hs arbitrary: rt cs)
  case (Cons h hs)
  then obtain rt1 where rt1: "add h rt = Inr rt1" "build_with add hs rt1 = Inr rt'" by (auto split: sum.splits)
  let ?cl = "case claim h of None \<Rightarrow> [] | Some cl \<Rightarrow> [cl]"
  have split: "cs @ List.map_filter claim (h # hs) = (cs @ ?cl) @ List.map_filter claim hs"
    by (simp add: List.map_filter_def split: option.splits)
  have "case claim h of None \<Rightarrow> True | Some cl \<Rightarrow> list_all (\<lambda>c. keys (fst c) \<inter> keys (fst cl) = {}) cs"
    using Cons.prems(3) unfolding split by (cases "claim h") (simp_all add: disjoint_claims_def sorted_wrt_append list_all_iff)
  from add_pinned [OF rt1(1) Cons.prems(2) this] have step: "pinned (cs @ ?cl) rt1" "rt_defaultTLS rt1 = rt_defaultTLS rt" by simp_all
  from Cons.IH [OF rt1(2) step(1)] Cons.prems(3) step(2) show ?case unfolding split by simp
qed (simp add: List.map_filter_def)

end

interpretation proxy_kind: host_kind env "add_proxy_host env reg" proxy_claim for env reg
proof
  fix h rt rt' assume "proxy_claim h = None" "add_proxy_host env reg h rt = Inr rt'"
  then show "rt' = rt" by (simp add: proxy_claim_def add_proxy_host_def split: if_splits)
next
  fix h ds t rt rt' assume "proxy_claim h = Some (ds, t)" "add_proxy_host env reg h rt = Inr rt'"
  then obtain hh where "pinTLS env ds t (rt\<lparr>rt_hosts := set_keys (ph_Domains h) hh (rt_hosts rt)\<rparr>) = Inr rt'"
    by (auto simp: proxy_claim_def add_proxy_host_def split: if_splits sum.splits)
  then show "\<exists>rt0. same_pins rt rt0 \<and> pinTLS env ds t rt0 = Inr rt'"
    by (intro exI [of _ "rt\<lparr>rt_hosts := set_keys (ph_Domains h) hh (rt_hosts rt)\<rparr>"]) (simp add: same_pins_def)
qed

interpretation redirect_kind: host_kind env "add_redirect_host env" redirect_claim for env
proof
  fix h rt rt' assume "redirect_claim h = None" "add_redirect_host env h rt = Inr rt'"
  then show "rt' = rt" by (simp add: redirect_claim_def add_redirect_host_def split: if_splits)
next
  fix h ds t rt rt' assume "redirect_claim h = Some (ds, t)" "add_redirect_host env h rt = Inr rt'"
  then show "\<exists>rt0. same_pins rt rt0 \<and> pinTLS env ds t rt0 = Inr rt'"
    by (intro exI [of _ "rt\<lparr>rt_redirects := set_keys (rh_Domains h) (newRedirectHandler h) (rt_redirects rt)\<rparr>"])
      (simp add: same_pins_def redirect_claim_def add_redirect_host_def split: if_splits)
qed

interpretation parked_kind: host_kind env "add_parked_host env" parked_claim for env
proof
  fix h rt rt' assume "parked_claim h = None" "add_parked_host env h rt = Inr rt'"
  then show "rt' = rt" by (simp add: parked_claim_def add_parked_host_def split: if_splits)
next
  fix h ds t rt rt' assume "parked_claim h = Some (ds, t)" "add_parked_host env h rt = Inr rt'"
  then show "\<exists>rt0. same_pins rt rt0 \<and> pinTLS env ds t rt0 = Inr rt'"
    by (intro exI [of _ "rt\<lparr>rt_parked := set_keys (pk_Domains h) (newParkedHandler h) (rt_parked rt)\<rparr>"])
      (simp add: same_pins_def parked_claim_def add_parked_host_def split: if_splits)
qed

lemma buildRouter_parts:
  assumes "buildRouter env cfg = Inr rt"
  obtains rt1 rt2 where "build_with (add_proxy_host env (buildRegistry cfg)) (c_ProxyHosts cfg) (empty_router env) = Inr rt1"
    "build_with (add_redirect_host env) (c_RedirectHosts cfg) rt1 = Inr rt2" "build_with (add_parked_host env) (c_ParkedHosts cfg) rt2 = Inr rt"
  using assms by (auto simp: buildRouter_def split: sum.splits)

lemma buildRouter_pinned:
  assumes "buildRouter env cfg = Inr rt" "disjoint_claims (tls_claims cfg)"
  shows "pinned (tls_claims cfg) rt \<and> rt_defaultTLS rt = rt_defaultTLS (empty_router env)"
  using assms(1)
proof (rule buildRouter_parts)
  fix rt1 rt2
  let ?p = "List.map_filter proxy_claim (c_ProxyHosts cfg)" and ?r = "List.map_filter redirect_claim (c_RedirectHosts cfg)"
  assume b: "build_with (add_proxy_host env (buildRegistry cfg)) (c_ProxyHosts cfg) (empty_router env) = Inr rt1"
    "build_with (add_redirect_host env) (c_RedirectHosts cfg) rt1 = Inr rt2" "build_with (add_parked_host env) (c_ParkedHosts cfg) rt2 = Inr rt"
  have "pinned [] (empty_router env)" by (simp add: pinned_def fresh_configs_def own_configs_def empty_router_def)
  from proxy_kind.all_pinned [OF b(1) this] assms(2)
  have 1: "pinned ?p rt1" "rt_defaultTLS rt1 = rt_defaultTLS (empty_router env)" by (simp_all add: tls_claims_def disjoint_claims_def sorted_wrt_append)
  from redirect_kind.all_pinned [OF b(2) 1(1)] assms(2)
  have 2: "pinned (?p @ ?r) rt2" "rt_defaultTLS rt2 = rt_defaultTLS rt1" by (auto simp: tls_claims_def disjoint_claims_def sorted_wrt_append)
  from parked_kind.all_pinned [OF b(3) 2(1)] assms(2) 1(2) 2(2)
  show ?thesis by (simp add: tls_claims_def)
qed

section \<open>Client certificates\<close>

lemma proxy_claim_in: "h \<in> set (c_ProxyHosts cfg) \<Longrightarrow> \<not> ph_Disabled h \<Longrightarrow> (ph_Domains h, hs_TLS (ph_rest h)) \<in> set (tls_claims cfg)"
  by (force simp: tls_claims_def List.map_filter_def proxy_claim_def)

lemma disjoint_same:
  "disjoint_claims cs \<Longrightarrow> a \<in> set cs \<Longrightarrow> b \<in> set cs \<Longrightarrow> k \<in> keys (fst a) \<Longrightarrow> k \<in> keys (fst b) \<Longrightarrow> keys (fst a) = keys (fst b)"
  unfolding disjoint_claims_def by (induction cs) auto

lemma sni_is_own:
  assumes "pinned cs rt" "disjoint_claims cs" "cl \<in> set cs" "rt_tlsConfigs rt k = Some c" "k \<in> keys (fst cl)"
    and "tlsConfigForSNI rt n = Some c'" "tc_ptr c' = tc_ptr c" "rt_defaultTLS rt = None \<or> tc_ptr (the (rt_defaultTLS rt)) = 0"
  shows "hostKey n \<in> keys (fst cl)"
proof -
  have "0 < tc_ptr c" using assms(1,4) by (auto simp: pinned_def fresh_configs_def)
  then have "rt_tlsConfigs rt (hostKey n) = Some c'"
    using assms(6-8) by (auto simp: tlsConfigForSNI_def split: option.splits)
  then obtain cl' where cl': "cl' \<in> set cs" "k \<in> keys (fst cl')" "hostKey n \<in> keys (fst cl')"
    using assms(1,4,7) unfolding pinned_def own_configs_def by metis
  with disjoint_same [OF assms(2) cl'(1) assms(3) cl'(2) assms(5)] show ?thesis by simp
qed

text \<open>C3: A host that asks for client certificates is reached only with one. Let no name belong to two enabled hosts. A
  request for a name of such a host gets past the TLS dispatch only if the connection was negotiated for a name of this
  host, and, unless the host's mode is optional, with a verified certificate; no certificate of the connection is on the
  current revocation list of the host's CA. In the clear the request is never served: it is refused or sent to https.\<close>

theorem client_auth_enforced:
  assumes "buildRouter env cfg = Inr rt" "disjoint_claims (tls_claims cfg)"
    and "h \<in> set (c_ProxyHosts cfg)" "\<not> ph_Disabled h" "ClientAuth (hs_TLS (ph_rest h)) = Some ca"
    and "hostKey (Host r) \<in> keys (ph_Domains h)"
  shows "(serveHTTPS lv rt r \<noteq> Misdirected \<and> serveHTTPS lv rt r \<noteq> BadRequest ''host'' \<longrightarrow>
      (\<exists>t. TLS r = Some t \<and> hostKey (ServerName t) \<in> keys (ph_Domains h) \<and>
         (ca_Mode ca \<noteq> ''optional'' \<longrightarrow> VerifiedChains t \<noteq> []) \<and>
         (\<forall>a. map_of (lv_anchors lv) (CARef ca) = Some a \<longrightarrow> VerifiedChains t \<noteq> [] \<longrightarrow> \<not> chainRevoked a (VerifiedChains t)))) \<and>
    serveHTTP lv rt r \<in> {BadRequest ''host'', redirectToHTTPS r}"
proof -
  let ?cl = "(ph_Domains h, hs_TLS (ph_rest h))"
  have pin: "pinned (tls_claims cfg) rt" "rt_defaultTLS rt = rt_defaultTLS (empty_router env)"
    using buildRouter_pinned [OF assms(1,2)] by simp_all
  have cl: "?cl \<in> set (tls_claims cfg)" using assms(3,4) by (rule proxy_claim_in)
  then have "requires ?cl rt" using pin(1) unfolding pinned_def list_all_iff by blast
  then obtain c where c: "rt_tlsConfigs rt (hostKey (Host r)) = Some c"
      "rt_clientAuth rt (hostKey (Host r)) = Some \<lparr>cr_cfg = c, requireChain = (ca_Mode ca \<noteq> ''optional''), cr_anchor = CARef ca\<rparr>"
    unfolding requires_def fst_conv snd_conv using assms(5,6) by blast
  have zero: "rt_defaultTLS rt = None \<or> tc_ptr (the (rt_defaultTLS rt)) = 0" by (simp add: pin(2) empty_router_def baseHostTLSConfig_def)
  have "\<exists>t. TLS r = Some t \<and> hostKey (ServerName t) \<in> keys (ph_Domains h) \<and> (ca_Mode ca \<noteq> ''optional'' \<longrightarrow> VerifiedChains t \<noteq> []) \<and>
         (\<forall>a. map_of (lv_anchors lv) (CARef ca) = Some a \<longrightarrow> VerifiedChains t \<noteq> [] \<longrightarrow> \<not> chainRevoked a (VerifiedChains t))"
    if "serveHTTPS lv rt r \<noteq> Misdirected" "serveHTTPS lv rt r \<noteq> BadRequest ''host''"
  proof -
    have "clientAuthSatisfied lv rt \<lparr>cr_cfg = c, requireChain = (ca_Mode ca \<noteq> ''optional''), cr_anchor = CARef ca\<rparr> r"
      using that c(2) by (simp add: serveHTTPS_def Let_def split: if_splits)
    then obtain t c' where t: "TLS r = Some t" "tlsConfigForSNI rt (ServerName t) = Some c'" "tc_ptr c' = tc_ptr c"
      "ca_Mode ca \<noteq> ''optional'' \<longrightarrow> VerifiedChains t \<noteq> []"
      "\<forall>a. map_of (lv_anchors lv) (CARef ca) = Some a \<longrightarrow> VerifiedChains t \<noteq> [] \<longrightarrow> \<not> chainRevoked a (VerifiedChains t)"
      by (auto simp: clientAuthSatisfied_def split: option.splits)
    from sni_is_own [OF pin(1) assms(2) cl c(1) _ t(2,3) zero] assms(6) t show ?thesis by auto
  qed
  moreover have "serveHTTP lv rt r \<in> {BadRequest ''host'', redirectToHTTPS r}" using c(2) by (simp add: serveHTTP_def Let_def)
  ultimately show ?thesis by blast
qed

section \<open>Identity headers at dispatch\<close>

lemma verified_cert_header [simp]: "verified_cert (r\<lparr>Header := hs\<rparr>) = verified_cert r" "verified_cert (r\<lparr>url_Path := p\<rparr>) = verified_cert r"
  "verified_cert (withClientIP r i) = verified_cert r"
  by (simp_all add: verified_cert_def withClientIP_def)

text \<open>What the certificate passthrough writes does not depend on what was there before, where that was stripped.\<close>

lemma cert_apply_stripped:
  assumes "Header r k = None"
  shows "Header (cert_identity_apply sha ci r) k = Header (cert_identity_apply sha ci (r\<lparr>Header := Map.empty\<rparr>)) k"
  using assms by (cases "verified_cert r") (auto simp: cert_identity_apply_def Let_def hdr_Set_def)

lemma PeerIP_frame [simp]: "PeerIP (r\<lparr>url_Path := p\<rparr>) = PeerIP r" "PeerIP (withClientIP r i) = PeerIP r"
  by (simp_all add: PeerIP_def withClientIP_def split: option.splits)

lemma strip_removes:
  assumes "case PeerIP r of None \<Rightarrow> True | Some a \<Rightarrow> \<not> InNets a nets"
    and "k \<in> CanonicalMIMEHeaderKey ` set baselineIdentityHeaders \<or> k \<in> CanonicalMIMEHeaderKey ` set names \<or> family_member k"
  shows "Header (stripUntrustedIdentity names nets proxies r) k = None"
  using assms by (auto simp: stripUntrustedIdentity_def stripIdentityHeaders_def hdr_Del_all_apply Let_def split: option.splits)

lemma asserted_stripped:
  assumes "compile_host env reg h = Inr hh" "k \<in> set (assertedIdentityHeaders (ph_rest h) reg)"
  shows "k \<in> CanonicalMIMEHeaderKey ` set baselineIdentityHeaders \<or> k \<in> CanonicalMIMEHeaderKey ` set (hh_identityHeaders hh)"
proof -
  have "hh_identityHeaders hh = fst (hostIdentityTrust (ph_rest h) reg) @ (case compileCertIdentity (hs_TLS (ph_rest h)) of None \<Rightarrow> [] | Some ci \<Rightarrow> [ci_subject ci])"
    using assms(1) by (auto simp: compile_host_def Let_def split: if_splits sum.splits prod.splits)
  with assms(2) show ?thesis by (auto simp: assertedIdentityHeaders_def set_add_names)
qed

lemma hosts_table:
  assumes "build_with (add_proxy_host env reg) hs rt = Inr rt'" "rt_hosts rt' k = Some hh"
    "\<And>hh'. rt_hosts rt k = Some hh' \<Longrightarrow> \<exists>h \<in> H. compile_host env reg h = Inr hh' \<and> k \<in> keys (ph_Domains h)"
    "\<And>h. h \<in> set hs \<Longrightarrow> \<not> ph_Disabled h \<Longrightarrow> h \<in> H"
  shows "\<exists>h \<in> H. compile_host env reg h = Inr hh \<and> k \<in> keys (ph_Domains h)"
  using assms
proof (induction hs arbitrary: rt)
  case Nil
  then show ?case by simp
next
  case (Cons h hs)
  then obtain rt1 where rt1: "add_proxy_host env reg h rt = Inr rt1" "build_with (add_proxy_host env reg) hs rt1 = Inr rt'" by (auto split: sum.splits)
  have "\<exists>h \<in> H. compile_host env reg h = Inr hh' \<and> k \<in> keys (ph_Domains h)" if "rt_hosts rt1 k = Some hh'" for hh'
  proof (cases "ph_Disabled h")
    case True
    with rt1(1) Cons.prems(3) that show ?thesis by (simp add: add_proxy_host_def)
  next
    case False
    with rt1(1) obtain hh1 where hh1: "compile_host env reg h = Inr hh1"
      "pinTLS env (ph_Domains h) (hs_TLS (ph_rest h)) (rt\<lparr>rt_hosts := set_keys (ph_Domains h) hh1 (rt_hosts rt)\<rparr>) = Inr rt1"
      by (auto simp: add_proxy_host_def split: sum.splits)
    have "rt_hosts rt1 = set_keys (ph_Domains h) hh1 (rt_hosts rt)" using pinTLS_frame [OF hh1(2)] by simp
    with that hh1(1) Cons.prems(3,4) False show ?thesis by (auto simp: set_keys_apply split: if_splits)
  qed
  with Cons.IH [OF rt1(2) Cons.prems(2)] Cons.prems(4) show ?case by simp
qed

lemma later_hosts_table:
  "build_with (add_redirect_host env) rs rt = Inr rt' \<Longrightarrow> rt_hosts rt' = rt_hosts rt"
  "build_with (add_parked_host env) ps rt = Inr rt' \<Longrightarrow> rt_hosts rt' = rt_hosts rt"
proof -
  show "build_with (add_redirect_host env) rs rt = Inr rt' \<Longrightarrow> rt_hosts rt' = rt_hosts rt"
    by (induction rs arbitrary: rt) (auto simp: add_redirect_host_def dest!: pinTLS_frame split: sum.splits if_splits)
  show "build_with (add_parked_host env) ps rt = Inr rt' \<Longrightarrow> rt_hosts rt' = rt_hosts rt"
    by (induction ps arbitrary: rt) (auto simp: add_parked_host_def dest!: pinTLS_frame split: sum.splits if_splits)
qed

lemma router_hosts:
  assumes "buildRouter env cfg = Inr rt" "rt_hosts rt k = Some hh"
  obtains h where "h \<in> set (c_ProxyHosts cfg)" "\<not> ph_Disabled h" "compile_host env (buildRegistry cfg) h = Inr hh" "k \<in> keys (ph_Domains h)"
proof -
  obtain rt1 where "build_with (add_proxy_host env (buildRegistry cfg)) (c_ProxyHosts cfg) (empty_router env) = Inr rt1" "rt_hosts rt1 k = Some hh"
    using assms by (metis buildRouter_parts later_hosts_table)
  from hosts_table [OF this, of "{h \<in> set (c_ProxyHosts cfg). \<not> ph_Disabled h}"] that show ?thesis by (auto simp: empty_router_def)
qed

lemma served_request:
  assumes "serveHTTPS lv rt r = Served hh ro r' w"
  obtains p where "rt_hosts rt (hostKey (Host r)) = Some hh"
    "r' = (case hh_certID hh of None \<Rightarrow> admit hh (r\<lparr>url_Path := p\<rparr>) | Some ci \<Rightarrow> cert_identity_apply (lv_sha lv) ci (admit hh (r\<lparr>url_Path := p\<rparr>)))"
    "ro = fst (route (hh_locations hh) (hh_route hh, hh_upstream hh) (url_Path r'))"
  using assms
  by (auto simp: serveHTTPS_def serve_proxy_host_def serveMaintenance_def normalizeRequestPath_def Let_def split: if_splits option.splits prod.splits)

text \<open>C4: Nobody but the gateway tells a backend who the client is. Of a request that the TLS dispatch hands to a host's
  chain, from a peer that none of the host's providers trusts, every header by which the host's tiers or backends know an
  identity (the baseline names, the header families, what the host's providers assert, its certificate subject header)
  holds exactly what the certificate passthrough writes into an empty header, whatever the client sent.\<close>

theorem identity_not_forged:
  assumes "buildRouter env cfg = Inr rt" "serveHTTPS lv rt r = Served hh ro r' w"
    and "case PeerIP r of None \<Rightarrow> True | Some a \<Rightarrow> \<not> InNets a (hh_trustedNets hh)"
    and "k \<in> set (assertedIdentityHeaders (ph_rest (hh_host hh)) (buildRegistry cfg)) \<or> family_member k"
  shows "Header r' k =
    (case hh_certID hh of None \<Rightarrow> None | Some ci \<Rightarrow> Header (cert_identity_apply (lv_sha lv) ci (r\<lparr>Header := Map.empty\<rparr>)) k)"
proof -
  obtain p where p: "rt_hosts rt (hostKey (Host r)) = Some hh"
    "r' = (case hh_certID hh of None \<Rightarrow> admit hh (r\<lparr>url_Path := p\<rparr>) | Some ci \<Rightarrow> cert_identity_apply (lv_sha lv) ci (admit hh (r\<lparr>url_Path := p\<rparr>)))"
    using assms(2) by (rule served_request)
  obtain h where h: "compile_host env (buildRegistry cfg) h = Inr hh" using assms(1) p(1) by (rule router_hosts)
  then have "hh_host hh = h" by (auto simp: compile_host_def Let_def split: if_splits sum.splits prod.splits)
  with assms(4) asserted_stripped [OF h]
  have k: "k \<in> CanonicalMIMEHeaderKey ` set baselineIdentityHeaders \<or> k \<in> CanonicalMIMEHeaderKey ` set (hh_identityHeaders hh) \<or> family_member k" by auto
  let ?r = "admit hh (r\<lparr>url_Path := p\<rparr>)"
  have gone: "Header ?r k = None"
    unfolding admit_def using assms(3) k by (intro strip_removes) simp_all
  have cert: "verified_cert ?r = verified_cert r"
    unfolding admit_def stripUntrustedIdentity_def by (simp add: Let_def)
  show ?thesis
  proof (cases "hh_certID hh")
    case None
    with p(2) gone show ?thesis by simp
  next
    case (Some ci)
    with p(2) have "Header r' k = Header (cert_identity_apply (lv_sha lv) ci (?r\<lparr>Header := Map.empty\<rparr>)) k"
      using cert_apply_stripped [OF gone] by simp
    also have "\<dots> = Header (cert_identity_apply (lv_sha lv) ci (r\<lparr>Header := Map.empty\<rparr>)) k"
      by (simp add: cert_identity_apply_def cert Let_def split: option.splits)
    finally show ?thesis using Some by simp
  qed
qed

section \<open>The client address from the peer to the upstream\<close>

lemma serve_tier_ctx: "serve_tier env reg h t r st sso = (Next r' ck, st', sso') \<Longrightarrow> ctx_clientIP r' = ctx_clientIP r"
proof (cases "is_gate t")
  case True
  assume "serve_tier env reg h t r st sso = (Next r' ck, st', sso')"
  with True serve_gate_keeps same_requestD show ?thesis by blast
next
  case False
  assume "serve_tier env reg h t r st sso = (Next r' ck, st', sso')"
  with False show ?thesis by (cases t) (auto simp: serve_tier_def is_gate_def headersHandler_def Let_def split: option.splits)
qed

lemma serve_chain_ctx:
  "serve_chain env reg h ts sts sso r ck = (vis, res, sts', sso') \<Longrightarrow>
     (\<forall>(t, q) \<in> set vis. ctx_clientIP q = ctx_clientIP r) \<and> (\<forall>r2 ck2. res = Proxied r2 ck2 \<longrightarrow> ctx_clientIP r2 = ctx_clientIP r)"
proof (induction ts arbitrary: sts sso r ck vis res sts' sso')
  case (Cons t ts)
  obtain out s1 sso1 where t: "serve_tier env reg h t r (case sts of [] \<Rightarrow> NoState | s # _ \<Rightarrow> s) sso = (out, s1, sso1)" by (metis prod_cases3)
  show ?case
  proof (cases out)
    case (Next r1 ck1)
    obtain vis1 res1 ss1 sso2 where rest: "serve_chain env reg h ts (drop 1 sts) sso1 r1 (ck @ ck1) = (vis1, res1, ss1, sso2)" by (metis prod_cases4)
    have "ctx_clientIP r1 = ctx_clientIP r" using t Next serve_tier_ctx by blast
    with Cons.IH [OF rest] Cons.prems t Next rest show ?thesis by auto
  qed (use Cons.prems t in auto)
qed simp

text \<open>C16: The upstream is told the address that the gates compared. For a request that the TLS dispatch hands to a host,
  every tier it reaches resolves the client to the one address derived from the peer and the host's trusted proxies; if the
  chain lets it through, \<open>X-Real-IP\<close> is that address, and from a peer outside the trusted proxies so is
  \<open>X-Forwarded-For\<close>, and nothing else.\<close>

theorem upstream_sees_admitted_client:
  assumes "serveHTTPS lv rt r = Served hh ro r1 w"
    and "serve_host env reg h (ro_chain ro) sts sso r1 = (vis, Proxied r2 ck, sts', sso')"
    and "Derive r (hh_trustedProxies hh) = (Some a, trusted)"
    and "''X-Real-Ip'' \<notin> set (ro_identity ro)" "''X-Forwarded-For'' \<notin> set (ro_identity ro)"
  shows "(\<forall>(t, q) \<in> set vis. \<forall>nets. clientIPResolver nets q = Some a) \<and>
    (let out = ob_Header (newReverseProxy up (ro_identity ro) r2) in
     out ''X-Real-Ip'' = Some [ip_string a] \<and> (\<not> trusted \<longrightarrow> out ''X-Forwarded-For'' = Some [ip_string a]))"
proof -
  obtain p where r1: "r1 = (case hh_certID hh of None \<Rightarrow> admit hh (r\<lparr>url_Path := p\<rparr>)
      | Some ci \<Rightarrow> cert_identity_apply (lv_sha lv) ci (admit hh (r\<lparr>url_Path := p\<rparr>)))"
    using assms(1) by (rule served_request)
  have "Derive (r\<lparr>url_Path := p\<rparr>) (hh_trustedProxies hh) = Derive r (hh_trustedProxies hh)"
    by (simp add: Derive_def ForwardedChain_def split: option.splits)
  then have ctx: "ctx_clientIP r1 = Some \<lparr>info_ip = Some a, peerTrusted = trusted\<rparr>"
    using assms(3) by (simp add: r1 admit_def stripUntrustedIdentity_def withClientIP_def deriveClientIP_def cert_identity_apply_def Let_def split: option.splits)
  obtain ts where ts: "ro_chain ro = Some ts" "serve_chain env reg h ts sts sso r1 [] = (vis, Proxied r2 ck, sts', sso')"
    using assms(2) by (auto simp: serve_host_def split: option.splits)
  have vis: "\<forall>(t, q) \<in> set vis. ctx_clientIP q = ctx_clientIP r1" and r2: "ctx_clientIP r2 = ctx_clientIP r1"
    using serve_chain_ctx [OF ts(2)] by simp_all
  have "setForwardedClient r2 out ''X-Real-Ip'' = Some [ip_string a] \<and> (\<not> trusted \<longrightarrow> setForwardedClient r2 out ''X-Forwarded-For'' = Some [ip_string a])" for out
    using r2 ctx by (simp add: setForwardedClient_def requestClientIP_def requestPeerTrusted_def hdr_Set_def Let_def)
  then show ?thesis using vis ctx assms(4,5)
    by (auto simp: clientIPResolver_def newReverseProxy_def newProxyWith_def reassert_apply Let_def)
qed

section \<open>Concrete routers\<close>

definition corp_anchor :: ca_anchor where
  "corp_anchor = \<lparr>an_name = ''corp'', an_issuers = [[9]], crlConfigured = False, an_crlFile = [], an_failOpen = False, an_crl = None, an_modTime = 0\<rparr>"

definition demo_router_env :: router_env where
  "demo_router_env = \<lparr>re_chain = demo_env, re_cas = [(''corp'', corp_anchor)], re_fleetFloor = VersionTLS12, re_securityHeaders = [],
     re_stripHeaders = [], re_errorPages = (\<lambda>_. True), re_groups = (\<lambda>_. True)\<rparr>"

definition demo_live :: live_env where
  "demo_live = \<lparr>lv_anchors = [(''corp'', corp_anchor)], lv_maintenance = \<lparr>mt_Enabled = False, RetryAfterSeconds = 0\<rparr>, lv_exempt = [], lv_sha = (\<lambda>_. [])\<rparr>"

lemma compile_plain:
  assumes "hs_Locations (ph_rest h) = []" "hs_ErrorPages (ph_rest h) = None" "hs_UpstreamGroupRef (ph_rest h) \<noteq> [] \<longrightarrow> re_groups env (hs_UpstreamGroupRef (ph_rest h))"
  obtains hh where "compile_host env reg h = Inr hh" "hh_host hh = h" "hh_locations hh = []" "ro_chain (hh_route hh) = buildChain (re_chain env) (ph_rest h) reg"
    "ro_identity (hh_route hh) = assertedIdentityHeaders (ph_rest h) reg" "hh_trustedNets hh = snd (hostIdentityTrust (ph_rest h) reg)"
    "hh_trustedProxies hh = hostTrustedProxies (hs_TrustedProxies (ph_rest h)) (ce_trusted (re_chain env))"
    "hh_certID hh = compileCertIdentity (hs_TLS (ph_rest h))" "hh_maintenance hh = ph_Maintenance h"
proof -
  let ?chain = "buildChain (re_chain env) (ph_rest h) reg"
  obtain ro label where hp: "hostProxy env (ph_rest h) reg ?chain = Inr (ro, label)" "ro_chain ro = ?chain"
      "ro_identity ro = assertedIdentityHeaders (ph_rest h) reg"
    using assms(3) by (cases "hs_UpstreamGroupRef (ph_rest h) = []") (auto simp: hostProxy_def Let_def)
  have bl: "buildLocations env (ph_rest h) reg = Inr []" by (simp add: buildLocations_def order_locations_def assms(1))
  obtain hh where hh: "compile_host env reg h = Inr hh" by (simp add: compile_host_def hp bl assms(2) Let_def)
  then show ?thesis using that [OF hh] hp(2,3) by (auto simp: compile_host_def hp bl assms(2) Let_def)
qed

lemma demo_keys: "hostKey ''App.example.com'' = ''app.example.com''" "hostKey ''wiki.example.com'' = ''wiki.example.com''"
  "hostKey ''app.example.com'' = ''app.example.com''" "hostKey ''app.example.com:8443'' = ''app.example.com''"
proof -
  have "char_of (97 :: nat) = CHR ''a''" by code_simp
  then show "hostKey ''App.example.com'' = ''app.example.com''" "hostKey ''wiki.example.com'' = ''wiki.example.com''"
    "hostKey ''app.example.com'' = ''app.example.com''" "hostKey ''app.example.com:8443'' = ''app.example.com''"
    by (simp_all add: hostKey_def before_def ToLower_def TrimSpace_def trim_left_def trim_right_def is_space_def byte_of_def to_lower_char_def)
qed

definition wiki_host :: "host_shape proxy_host" where
  "wiki_host = named_host ''wiki'' [''wiki.example.com''] (plain_shape\<lparr>hs_Upstream := backend\<rparr>)"

lemma pin_plain: "pinTLS demo_router_env ds plain_tls rt = Inr rt"
  by (simp add: pinTLS_def hostSNIConfig_def hostTLSConfig_def effectiveTLSFloor_def plain_tls_def demo_router_env_def Let_def)

lemma demo_tables:
  obtains rt hh where "buildRouter demo_router_env demo_config = Inr rt" "rt_hosts rt ''wiki.example.com'' = Some hh" "rt_clientAuth rt ''wiki.example.com'' = None"
    "compile_host demo_router_env (buildRegistry demo_config) wiki_host = Inr hh"
proof -
  let ?app = "named_host ''app'' [''App.example.com''] mtls_shape"
  obtain ha where ha: "compile_host demo_router_env (buildRegistry demo_config) ?app = Inr ha"
    by (rule compile_plain [of ?app demo_router_env "buildRegistry demo_config"]) (simp_all add: named_host_def mtls_shape_def plain_shape_def demo_router_env_def)
  obtain hw where hw: "compile_host demo_router_env (buildRegistry demo_config) wiki_host = Inr hw"
    by (rule compile_plain [of wiki_host demo_router_env "buildRegistry demo_config"]) (simp_all add: wiki_host_def named_host_def plain_shape_def demo_router_env_def)
  have hosts: "c_ProxyHosts demo_config = [?app, wiki_host]" "c_RedirectHosts demo_config = []" "c_ParkedHosts demo_config = []"
    by (simp_all add: demo_config_def wiki_host_def)
  have app: "ph_Domains ?app = [''App.example.com'']" "\<not> ph_Disabled ?app" "ph_rest ?app = mtls_shape" by (simp_all add: named_host_def)
  have wiki: "ph_Domains wiki_host = [''wiki.example.com'']" "\<not> ph_Disabled wiki_host" "hs_TLS (ph_rest wiki_host) = plain_tls"
    by (simp_all add: wiki_host_def named_host_def plain_shape_def)
  have "\<exists>rt. pinTLS demo_router_env [''App.example.com''] (hs_TLS mtls_shape) rt0 = Inr rt \<and> rt_clientAuth rt ''wiki.example.com'' = rt_clientAuth rt0 ''wiki.example.com''" for rt0
    by (simp add: pinTLS_def hostSNIConfig_def mtls_shape_def plain_shape_def plain_tls_def demo_router_env_def Let_def set_keys_apply demo_keys)
  then obtain rt where rt: "pinTLS demo_router_env [''App.example.com''] (hs_TLS mtls_shape)
      (empty_router demo_router_env\<lparr>rt_hosts := set_keys [''App.example.com''] ha Map.empty\<rparr>) = Inr rt" "rt_clientAuth rt ''wiki.example.com'' = None"
    by (metis (no_types, lifting) empty_router_def router.select_convs(5) router.update_convs(1))
  have "buildRouter demo_router_env demo_config = Inr (rt\<lparr>rt_hosts := set_keys [''wiki.example.com''] hw (rt_hosts rt)\<rparr>)"
    using rt(1) by (simp add: buildRouter_def hosts add_proxy_host_def ha hw app wiki pin_plain empty_router_def)
  with rt(2) hw that show ?thesis by (simp add: set_keys_apply demo_keys)
qed

definition wiki_request :: http_request where
  "wiki_request = \<lparr>RemoteAddr = ''203.0.113.9:4711'', Host = ''wiki.example.com'', Method = ''GET'', url_Path = ''/'', url_RawQuery = [],
     Header = [''X-User'' \<mapsto> [''root''], ''X-Forwarded-For'' \<mapsto> [''10.0.0.1'']],
     TLS = Some \<lparr>ServerName = ''wiki.example.com'', VerifiedChains = [], PeerCertificates = []\<rparr>, ctx_clientIP = None\<rparr>"

lemma wiki_served:
  assumes "rt_hosts rt ''wiki.example.com'' = Some hh" "rt_clientAuth rt ''wiki.example.com'' = None"
    "compile_host demo_router_env (buildRegistry demo_config) wiki_host = Inr hh"
  obtains r1 w where "serveHTTPS demo_live rt wiki_request = Served hh (hh_route hh) r1 w" "ro_chain (hh_route hh) = Some []"
    "''X-Real-Ip'' \<notin> set (ro_identity (hh_route hh))" "''X-Forwarded-For'' \<notin> set (ro_identity (hh_route hh))" "hh_certID hh = None"
    "hh_trustedNets hh = []" "hh_trustedProxies hh = []" "hh_host hh = wiki_host"
    "''X-User'' \<in> set (assertedIdentityHeaders (ph_rest wiki_host) (buildRegistry demo_config))"
proof (rule compile_plain [of wiki_host demo_router_env "buildRegistry demo_config"])
  fix hh'
  let ?s = "ph_rest wiki_host" and ?reg = "buildRegistry demo_config"
  assume "compile_host demo_router_env ?reg wiki_host = Inr hh'" and hh: "hh_host hh' = wiki_host" "hh_locations hh' = []"
    "ro_chain (hh_route hh') = buildChain (re_chain demo_router_env) ?s ?reg" "ro_identity (hh_route hh') = assertedIdentityHeaders ?s ?reg"
    "hh_trustedNets hh' = snd (hostIdentityTrust ?s ?reg)" "hh_trustedProxies hh' = hostTrustedProxies (hs_TrustedProxies ?s) (ce_trusted (re_chain demo_router_env))"
    "hh_certID hh' = compileCertIdentity (hs_TLS ?s)" "hh_maintenance hh' = ph_Maintenance wiki_host"
  with assms(3) have [simp]: "hh' = hh" by simp
  have specs: "hostAuthSpecs ?s ?reg = []" by (simp add: hostAuthSpecs_def of_kind_def wiki_host_def named_host_def plain_shape_def List.map_filter_def)
  have cert: "compileCertIdentity (hs_TLS ?s) = None"
    by (simp add: compileCertIdentity_def wiki_host_def named_host_def plain_shape_def plain_tls_def)
  have names: "set (assertedIdentityHeaders ?s ?reg) = CanonicalMIMEHeaderKey ` set baselineIdentityHeaders - {[]}"
    by (simp add: assertedIdentityHeaders_def set_add_names hostIdentityTrust_def identityTrust_def specs cert List.map_filter_def)
  have base: "''X-Real-Ip'' \<notin> CanonicalMIMEHeaderKey ` set baselineIdentityHeaders" "''X-Forwarded-For'' \<notin> CanonicalMIMEHeaderKey ` set baselineIdentityHeaders"
    "''X-User'' \<in> CanonicalMIMEHeaderKey ` set baselineIdentityHeaders"
    by (simp_all add: baselineIdentityHeaders_def DefaultClientCertSubjectHeader_def ClientCertSANHeader_def ClientCertSerialHeader_def
        ClientCertFingerprintHeader_def canon_eval)
  have chain: "buildChain (re_chain demo_router_env) ?s ?reg = Some []"
    by (simp add: buildChain_def buildChainInline_def unresolved_None gate_tiers_def shape_tiers_def of_kind_def hostInline_def wiki_host_def
        named_host_def plain_shape_def List.map_filter_def)
  have host: "validHostHeader ''wiki.example.com''" "normalizeRequestPath wiki_request = Some wiki_request"
    by code_simp (simp add: wiki_request_def normalizeRequestPath_def cleanPath_def path_Clean_def contains_any_def Let_def)
  have trust: "snd (hostIdentityTrust ?s ?reg) = []" "hostTrustedProxies (hs_TrustedProxies ?s) (ce_trusted (re_chain demo_router_env)) = []"
    by (simp add: hostIdentityTrust_def identityTrust_def specs List.map_filter_def)
      (simp add: hostTrustedProxies_def demo_router_env_def demo_env_def Trusted_def wiki_host_def named_host_def plain_shape_def)
  have req: "Host wiki_request = ''wiki.example.com''" "\<not> ph_Maintenance wiki_host" "\<not> mt_Enabled (lv_maintenance demo_live)"
    by (simp_all add: wiki_request_def wiki_host_def named_host_def demo_live_def)
  have "\<exists>r1 w. serveHTTPS demo_live rt wiki_request = Served hh (hh_route hh) r1 w"
    using host hh(2,8) assms(1,2)
    by (simp add: serveHTTPS_def req demo_keys in_maintenance_def maintenanceActive_def serve_proxy_host_def route_def Let_def)
  then obtain r1 w where "serveHTTPS demo_live rt wiki_request = Served hh (hh_route hh) r1 w" by blast
  then show ?thesis
    by (rule that) (use hh chain cert names base trust in simp_all)
qed (simp_all add: wiki_host_def named_host_def plain_shape_def demo_router_env_def)

theorem identity_not_forged_witness:
  "\<exists>rt hh ro r1 w. buildRouter demo_router_env demo_config = Inr rt \<and> serveHTTPS demo_live rt wiki_request = Served hh ro r1 w \<and> Header r1 ''X-User'' = None"
proof (rule demo_tables)
  fix rt hh
  assume rt: "buildRouter demo_router_env demo_config = Inr rt" "rt_hosts rt ''wiki.example.com'' = Some hh" "rt_clientAuth rt ''wiki.example.com'' = None"
    "compile_host demo_router_env (buildRegistry demo_config) wiki_host = Inr hh"
  from rt(2-4) show ?thesis
  proof (rule wiki_served)
    fix r1 w
    assume s: "serveHTTPS demo_live rt wiki_request = Served hh (hh_route hh) r1 w" "hh_certID hh = None" "hh_trustedNets hh = []" "hh_host hh = wiki_host"
      "''X-User'' \<in> set (assertedIdentityHeaders (ph_rest wiki_host) (buildRegistry demo_config))"
    have "Header r1 ''X-User'' = None"
      using identity_not_forged [OF rt(1) s(1), of "''X-User''"] s by (simp split: option.splits)
    with rt(1) s(1) show ?thesis by blast
  qed
qed

theorem upstream_sees_admitted_client_witness:
  "\<exists>rt hh r1 w. buildRouter demo_router_env demo_config = Inr rt \<and> serveHTTPS demo_live rt wiki_request = Served hh (hh_route hh) r1 w \<and>
     ob_Header (newReverseProxy backend (ro_identity (hh_route hh)) r1) ''X-Forwarded-For'' = Some [''203.0.113.9'']"
proof (rule demo_tables)
  fix rt hh
  assume rt: "buildRouter demo_router_env demo_config = Inr rt" "rt_hosts rt ''wiki.example.com'' = Some hh" "rt_clientAuth rt ''wiki.example.com'' = None"
    "compile_host demo_router_env (buildRegistry demo_config) wiki_host = Inr hh"
  from rt(2-4) show ?thesis
  proof (rule wiki_served)
    fix r1 w
    assume s: "serveHTTPS demo_live rt wiki_request = Served hh (hh_route hh) r1 w" "ro_chain (hh_route hh) = Some []"
      "''X-Real-Ip'' \<notin> set (ro_identity (hh_route hh))" "''X-Forwarded-For'' \<notin> set (ro_identity (hh_route hh))" "hh_trustedProxies hh = []"
    have peer: "Derive wiki_request [] = (ParseIP ''203.0.113.9'', False) \<and> map_option ip_string (ParseIP ''203.0.113.9'') = Some ''203.0.113.9''"
      by code_simp
    then obtain a where a: "Derive wiki_request [] = (Some a, False)" "ip_string a = ''203.0.113.9''" by auto
    have chain: "serve_host demo_env (buildRegistry demo_config) wiki_host (ro_chain (hh_route hh)) [] demo_watermark r1 = ([], Proxied r1 [], [], demo_watermark)"
      by (simp add: s(2) serve_host_def)
    from upstream_sees_admitted_client [OF s(1) chain _ s(3,4), of a False backend] s(5) a rt(1) s(1) show ?thesis by (auto simp: Let_def)
  qed
qed

definition certless_request :: http_request where
  "certless_request = wiki_request\<lparr>Host := ''app.example.com''\<rparr>"

theorem client_auth_enforced_witness:
  "\<exists>rt. buildRouter demo_router_env demo_config = Inr rt \<and> serveHTTPS demo_live rt certless_request \<in> {Misdirected, BadRequest ''host''}"
proof (rule demo_tables)
  fix rt assume rt: "buildRouter demo_router_env demo_config = Inr rt"
  let ?app = "named_host ''app'' [''App.example.com''] mtls_shape"
  have claims: "disjoint_claims (tls_claims demo_config)"
    by (simp add: disjoint_claims_def tls_claims_def demo_config_def List.map_filter_def proxy_claim_def named_host_def demo_keys)
  have app: "?app \<in> set (c_ProxyHosts demo_config)" by (simp add: demo_config_def)
  have "serveHTTPS demo_live rt certless_request \<in> {Misdirected, BadRequest ''host''}"
    using client_auth_enforced [OF rt claims app, of _ certless_request demo_live]
    by (auto simp: named_host_def mtls_shape_def certless_request_def wiki_request_def demo_keys)
  with rt show ?thesis by blast
qed

section \<open>Names that collide only in the router\<close>

definition shadow_config :: gpm_config where
  "shadow_config = demo_config\<lparr>c_ProxyHosts :=
     [named_host ''app'' [''app.example.com''] (plain_shape\<lparr>hs_Upstream := backend\<rparr>),
      named_host ''late'' [''app.example.com:8443''] (plain_shape\<lparr>hs_Upstream := backend\<rparr>)]\<rparr>"

text \<open>Two enabled hosts can claim one name. Validation compares domains as written, lower-cased and trimmed, while the
  router looks hosts up under the domain without its port. A configuration in which one host claims \<open>app.example.com\<close> and
  another \<open>app.example.com:8443\<close> is valid, and every request for \<open>app.example.com\<close> goes to the host built last.\<close>

theorem port_suffix_shadows_host:
  "Validate any_env shadow_config = [] \<and>
   (\<exists>rt hh. buildRouter demo_router_env shadow_config = Inr rt \<and> rt_hosts rt (hostKey ''app.example.com'') = Some hh \<and> ph_Name (hh_host hh) = ''late'')"
proof
  show "Validate any_env shadow_config = []" by code_simp
  let ?s = "plain_shape\<lparr>hs_Upstream := backend\<rparr>" and ?reg = "buildRegistry shadow_config"
  let ?a = "named_host ''app'' [''app.example.com''] ?s" and ?b = "named_host ''late'' [''app.example.com:8443''] ?s"
  obtain ha where ha: "compile_host demo_router_env ?reg ?a = Inr ha"
    by (rule compile_plain [of ?a demo_router_env ?reg]) (simp_all add: named_host_def plain_shape_def)
  obtain hb where hb: "compile_host demo_router_env ?reg ?b = Inr hb" "hh_host hb = ?b"
    by (rule compile_plain [of ?b demo_router_env ?reg]) (simp_all add: named_host_def plain_shape_def)
  have hosts: "c_ProxyHosts shadow_config = [?a, ?b]" "c_RedirectHosts shadow_config = []" "c_ParkedHosts shadow_config = []"
    by (simp_all add: shadow_config_def demo_config_def)
  have fields: "ph_Domains ?a = [''app.example.com'']" "\<not> ph_Disabled ?a" "ph_Domains ?b = [''app.example.com:8443'']" "\<not> ph_Disabled ?b"
    "hs_TLS (ph_rest ?a) = plain_tls" "hs_TLS (ph_rest ?b) = plain_tls" "ph_Name ?b = ''late''"
    by (simp_all add: named_host_def plain_shape_def)
  show "\<exists>rt hh. buildRouter demo_router_env shadow_config = Inr rt \<and> rt_hosts rt (hostKey ''app.example.com'') = Some hh \<and> ph_Name (hh_host hh) = ''late''"
    by (simp add: buildRouter_def hosts add_proxy_host_def ha hb fields pin_plain set_keys_apply demo_keys)
qed

end
