(* ===== verification/Net_Conn.thy ===== *)
theory Net_Conn
  imports Go_Net
begin

text \<open>
  Accepted connections, as the two header readers of the data plane use them
  (\<open>dataplane/clienthello.go\<close> and \<open>dataplane/proxyproto.go\<close>).

  A connection is the script of what its \<open>Read\<close> will deliver: chunks of bytes, each with the error
  that comes with its last byte, and end of file after the last chunk. The chunks are the peer's
  (or the network's) choice: nothing in a theorem may depend on them, and \<open>avail\<close> is what the
  chunks carry before the first error. \<open>Read\<close> with a buffer of \<open>k\<close> bytes takes at most \<open>k\<close>
  bytes of the first chunk. The locale \<open>exact_reader\<close> is the contract of \<open>readUpTo\<close> and \<open>fill\<close>.
\<close>

datatype conn_err =
    ErrEOF
  | ErrIO string
  | errNotTLS
  | errBadClientHello
  | errHelloTooLarge
  | ErrProxyHeader string

type_synonym net_script = "(byte list \<times> conn_err option) list"

fun conn_Read :: "nat \<Rightarrow> net_script \<Rightarrow> (byte list \<times> conn_err option) \<times> net_script" where
  "conn_Read k [] = (([], Some ErrEOF), [])"
| "conn_Read k ((bs, e) # s) =
     (if length bs \<le> k then ((bs, e), s) else ((take k bs, None), (drop k bs, e) # s))"

text \<open>Every byte still to come, and the bytes that come before the first error.\<close>

definition unread :: "net_script \<Rightarrow> byte list" where
  "unread s = concat (map fst s)"

definition avail :: "net_script \<Rightarrow> byte list" where
  "avail s = concat (map fst (takeWhile (\<lambda>c. snd c = None) s))"

definition script_size :: "net_script \<Rightarrow> nat" where
  "script_size s = sum_list (map (\<lambda>c. Suc (length (fst c))) s)"

lemma unread_simps [simp]: "unread [] = []" "unread (c # s) = fst c @ unread s"
  by (simp_all add: unread_def)

lemma avail_simps [simp]:
  "avail [] = []" "avail (c # s) = (if snd c = None then fst c @ avail s else [])"
  by (cases "snd c"; simp add: avail_def)+

lemma conn_Read_smaller: "conn_Read k s = ((m, None), s') \<Longrightarrow> 0 < k \<Longrightarrow> script_size s' < script_size s"
  by (cases "(k, s)" rule: conn_Read.cases) (auto simp: script_size_def split: if_splits)

lemma conn_Read_unread: "conn_Read k s = ((m, e), s') \<Longrightarrow> m @ unread s' = unread s"
  by (cases "(k, s)" rule: conn_Read.cases) (auto split: if_splits)

lemma conn_Read_length: "conn_Read k s = ((m, e), s') \<Longrightarrow> length m \<le> k"
  by (cases "(k, s)" rule: conn_Read.cases) (auto split: if_splits)

text \<open>While \<open>avail\<close> is longer than the buffer is short, \<open>Read\<close> reports no error.\<close>

lemma conn_Read_avail:
  assumes "conn_Read k s = ((m, e), s')" "k \<le> length (avail s)" "0 < k"
  shows "e = None \<and> m = take (length m) (avail s) \<and> avail s' = drop (length m) (avail s)"
proof (cases s)
  case Nil
  with assms show ?thesis by simp
next
  case (Cons c t)
  with assms have "snd c = None" by (auto split: if_splits)
  with Cons assms show ?thesis by (cases c) (auto split: if_splits)
qed

section \<open>Reading an exact number of bytes\<close>

text \<open>The loop \<open>readUpTo\<close> and \<open>fill\<close> share: \<open>Read\<close> into the rest of the buffer until it is full,
  stopping at the first error with what came before it.\<close>

function read_loop :: "nat \<Rightarrow> byte list \<Rightarrow> net_script \<Rightarrow> byte list \<times> conn_err option \<times> net_script" where
  "read_loop n buf s =
     (if length buf < n then
        (case conn_Read (n - length buf) s of
           ((m, f), s') \<Rightarrow>
             (case f of Some e \<Rightarrow> (buf @ m, Some e, s') | None \<Rightarrow> read_loop n (buf @ m) s'))
      else (buf, None, s))"
  by pat_completeness auto

termination read_loop
  by (relation "measure (\<lambda>(n, buf, s). script_size s)")
    (auto dest: conn_Read_smaller [OF sym])

declare read_loop.simps [simp del]

lemma read_loop_conserves: "read_loop n buf s = (buf', e, s') \<Longrightarrow> buf' @ unread s' = buf @ unread s"
proof (induction n buf s rule: read_loop.induct)
  case (1 n buf s)
  obtain m f t where r: "conn_Read (n - length buf) s = ((m, f), t)" by (metis prod.exhaust)
  with 1 conn_Read_unread [OF r] show ?case
    by (cases f) (auto simp: read_loop.simps [of n buf s] split: if_splits)
qed

lemma read_loop_length:
  "read_loop n buf s = (buf', e, s') \<Longrightarrow>
     length buf' \<le> max (length buf) n \<and> (e = None \<longrightarrow> n \<le> length buf') \<and> prefix buf buf'"
proof (induction n buf s rule: read_loop.induct)
  case (1 n buf s)
  obtain m f t where r: "conn_Read (n - length buf) s = ((m, f), t)" by (metis prod.exhaust)
  show ?case
  proof (cases "length buf < n \<and> f = None")
    case True
    with 1(2) r have "read_loop n (buf @ m) t = (buf', e, s')" by (simp add: read_loop.simps [of n buf s])
    with 1(1) True r have "length buf' \<le> max (length (buf @ m)) n \<and> (e = None \<longrightarrow> n \<le> length buf') \<and> prefix (buf @ m) buf'"
      by simp
    with True conn_Read_length [OF r] show ?thesis by (auto intro: append_prefixD)
  qed (use 1(2) r conn_Read_length [OF r] in \<open>auto simp: read_loop.simps [of n buf s] split: if_splits option.splits\<close>)
qed

lemma read_loop_avail:
  "length buf \<le> n \<Longrightarrow> n - length buf \<le> length (avail s) \<Longrightarrow>
     \<exists>s'. read_loop n buf s = (buf @ take (n - length buf) (avail s), None, s') \<and>
          avail s' = drop (n - length buf) (avail s)"
proof (induction n buf s rule: read_loop.induct)
  case (1 n buf s)
  show ?case
  proof (cases "length buf < n")
    case True
    obtain m f t where r: "conn_Read (n - length buf) s = ((m, f), t)" by (metis prod.exhaust)
    have ok: "f = None" "m = take (length m) (avail s)" "avail t = drop (length m) (avail s)"
      using conn_Read_avail [OF r] 1(3) True by auto
    have len: "length m \<le> n - length buf" using conn_Read_length [OF r] .
    have "m @ take (n - length buf - length m) (avail t) = take (n - length buf) (avail s)"
      using ok(2) len ok(3) by (metis le_add_diff_inverse take_add)
    moreover have "drop (n - length buf - length m) (avail t) = drop (n - length buf) (avail s)"
      using len ok(3) by (simp only: drop_drop le_add_diff_inverse2)
    moreover have "\<exists>s'. read_loop n (buf @ m) t =
        (buf @ m @ take (n - length (buf @ m)) (avail t), None, s') \<and> avail s' = drop (n - length (buf @ m)) (avail t)"
      using 1(1) [OF True r [symmetric] refl] ok len True 1(3) r by auto
    ultimately show ?thesis using True r ok(1) by (simp add: read_loop.simps [of n buf s] diff_diff_left)
  qed (use 1 in \<open>simp add: read_loop.simps [of n buf s]\<close>)
qed

section \<open>The contract of a bounded exact reader\<close>

locale exact_reader =
  fixes rd :: "net_script \<Rightarrow> byte list \<Rightarrow> nat \<Rightarrow> byte list \<times> conn_err option \<times> net_script"
    and lim :: nat
  assumes rd_conserves: "rd s buf n = (buf', e, s') \<Longrightarrow> buf' @ unread s' = buf @ unread s"
    and rd_extends: "rd s buf n = (buf', e, s') \<Longrightarrow> prefix buf buf'"
    and rd_exact: "rd s buf n = (buf', None, s') \<Longrightarrow> length buf \<le> n \<Longrightarrow> length buf' = n"
    and rd_bounded: "rd s buf n = (buf', e, s') \<Longrightarrow> length buf \<le> lim \<Longrightarrow> length buf' \<le> lim"
    and rd_limit: "rd s buf n = (buf', None, s') \<Longrightarrow> n \<le> lim"
    and rd_avail: "length buf \<le> n \<Longrightarrow> n \<le> lim \<Longrightarrow> n - length buf \<le> length (avail s) \<Longrightarrow>
      \<exists>s'. rd s buf n = (buf @ take (n - length buf) (avail s), None, s') \<and>
           avail s' = drop (n - length buf) (avail s)"
begin

text \<open>The next \<open>k\<close> bytes of a connection that has them, however they are chunked.\<close>

lemma rd_next:
  assumes "avail s = x @ y" "length buf + length x \<le> lim"
  obtains s' where "rd s buf (length buf + length x) = (buf @ x, None, s')" "avail s' = y"
  using rd_avail [of buf "length buf + length x" s] assms by auto

text \<open>A successful read appends exactly the bytes it takes off the connection.\<close>

lemma rd_takes:
  assumes "rd s buf n = (buf', None, s')" "length buf \<le> n"
  obtains x where "buf' = buf @ x" "length x = n - length buf" "unread s = x @ unread s'" "n \<le> lim"
proof -
  obtain x where x: "buf' = buf @ x" using rd_extends [OF assms(1)] by (auto simp: prefix_def)
  moreover have "length x = n - length buf" using rd_exact [OF assms] x by simp
  moreover have "unread s = x @ unread s'" using rd_conserves [OF assms(1)] x by simp
  ultimately show thesis using that rd_limit [OF assms(1)] by blast
qed

end

section \<open>A bounded reader\<close>

text \<open>What both readers are: the size limit first, then the loop.\<close>

definition bounded_read ::
  "nat \<Rightarrow> conn_err \<Rightarrow> net_script \<Rightarrow> byte list \<Rightarrow> nat \<Rightarrow> byte list \<times> conn_err option \<times> net_script" where
  "bounded_read lim err c buf n = (if lim < n then (buf, Some err, c) else read_loop n buf c)"

lemma bounded_read_exact: "exact_reader (bounded_read lim err) lim"
proof
  fix s buf n buf' e s'
  assume r: "bounded_read lim err s buf n = (buf', e, s')"
  show "buf' @ unread s' = buf @ unread s"
    using r read_loop_conserves by (auto simp: bounded_read_def split: if_splits)
  show "prefix buf buf'"
    using r read_loop_length by (fastforce simp: bounded_read_def split: if_splits)
  show "length buf' \<le> lim" if "length buf \<le> lim"
    using r that read_loop_length [of n buf s] by (auto simp: bounded_read_def split: if_splits)
next
  fix s buf n buf' s'
  assume r: "bounded_read lim err s buf n = (buf', None, s')"
  show "n \<le> lim" using r by (auto simp: bounded_read_def split: if_splits)
  show "length buf' = n" if "length buf \<le> n"
    using r that read_loop_length [of n buf s] by (auto simp: bounded_read_def split: if_splits)
qed (auto simp: bounded_read_def read_loop_avail)

text \<open>Big-endian integers (\<open>binary.BigEndian.Uint16\<close>) and their encoding.\<close>

definition Uint16 :: "byte list \<Rightarrow> nat" where
  "Uint16 b = 256 * unat (b ! 0) + unat (b ! 1)"

definition PutUint16 :: "nat \<Rightarrow> byte list" where
  "PutUint16 n = [word_of_nat (n div 256), word_of_nat (n mod 256)]"

lemma length_PutUint16 [simp]: "length (PutUint16 n) = 2"
  by (simp add: PutUint16_def)

lemma unat_byte: "n < 256 \<Longrightarrow> unat (word_of_nat n :: byte) = n"
  by (simp add: unat_of_nat take_bit_eq_mod)

lemma byte_less [simp]: "unat (x :: byte) < 256"
  using unsigned_less [of x] by simp

lemma Uint16_Put [simp]: "n < 65536 \<Longrightarrow> Uint16 (PutUint16 n @ r) = n"
  by (simp add: Uint16_def PutUint16_def unat_byte)

lemma Uint16_Put' [simp]: "n < 65536 \<Longrightarrow> Uint16 (PutUint16 n) = n"
  using Uint16_Put [of n "[]"] by simp

lemma Uint16_less: "Uint16 b < 65536"
  using byte_less [of "b ! 0"] byte_less [of "b ! 1"] by (simp add: Uint16_def del: byte_less)

lemmas [go_eval] = unread_def avail_def Uint16_def PutUint16_def

end
