(* ===== verification/Client_Hello.thy ===== *)
theory Client_Hello
  imports Net_Conn
begin

text \<open>
  SNI extraction from a TLS ClientHello (\<open>dataplane/clienthello.go\<close>): the bounded read of the
  records, the parser of the reassembled handshake message, and the connection that replays the
  bytes that were peeked. The loop of \<open>peekClientHello\<close> runs on fuel (\<open>peek_rounds\<close>); the fuel of
  \<open>peekClientHello\<close> is one more round than the size limit admits, and \<open>peek_rounds_end\<close> shows it
  is never used up. The wire format of RFC 8446 and RFC 6066 is given as an encoder, so that the
  parser is compared with the format and not with itself. Errors of the parser are \<open>Inl\<close>.
\<close>

definition recordTypeHandshake :: byte where "recordTypeHandshake = 22"
definition handshakeClientHello :: byte where "handshakeClientHello = 1"
definition extensionServerName :: nat where "extensionServerName = 0"
definition maxTLSRecord :: nat where "maxTLSRecord = 16384"
definition maxClientHello :: nat where "maxClientHello = 16384"

type_synonym hello_result = "conn_err + string \<times> bool"

definition byte_string :: "byte list \<Rightarrow> string" where
  "byte_string b = map (\<lambda>x. char_of (unat x)) b"

section \<open>The parser\<close>

definition skipVector :: "byte list \<Rightarrow> nat \<Rightarrow> conn_err + byte list" where
  "skipVector b lenBytes =
     (if length b < lenBytes then Inl errBadClientHello
      else let n = (if lenBytes = 1 then unat (b ! 0) else if lenBytes = 2 then Uint16 b else 0);
               b' = drop lenBytes b
           in if length b' < n then Inl errBadClientHello else Inr (drop n b'))"

function server_name_loop :: "byte list \<Rightarrow> hello_result" where
  "server_name_loop b =
     (if length b < 3 then Inr ([], True)
      else let nameType = b ! 0; l = Uint16 (drop 1 b); b' = drop 3 b
           in if length b' < l then Inl errBadClientHello
              else if nameType = 0 then Inr (ToLower (TrimSuffix (byte_string (take l b')) ''.''), True)
              else server_name_loop (drop l b'))"
  by pat_completeness auto

termination server_name_loop
  by (relation "measure length") auto

declare server_name_loop.simps [simp del]

definition parseServerNameExtension :: "byte list \<Rightarrow> hello_result" where
  "parseServerNameExtension b =
     (if length b < 2 then Inl errBadClientHello
      else let listLen = Uint16 b; b' = drop 2 b
           in if length b' < listLen then Inl errBadClientHello else server_name_loop (take listLen b'))"

function extension_loop :: "byte list \<Rightarrow> hello_result" where
  "extension_loop b =
     (if length b < 4 then Inr ([], True)
      else let typ = Uint16 b; l = Uint16 (drop 2 b); b' = drop 4 b
           in if length b' < l then Inl errBadClientHello
              else if typ = extensionServerName then parseServerNameExtension (take l b')
              else extension_loop (drop l b'))"
  by pat_completeness auto

termination extension_loop
  by (relation "measure length") auto

declare extension_loop.simps [simp del]

definition parse_extensions :: "byte list \<Rightarrow> hello_result" where
  "parse_extensions b =
     (if length b < 2 then Inr ([], True)
      else let extLen = Uint16 b; b' = drop 2 b
           in if length b' < extLen then Inl errBadClientHello else extension_loop (take extLen b'))"

definition parse_hello_body :: "byte list \<Rightarrow> hello_result" where
  "parse_hello_body b =
     (if length b < 34 then Inl errBadClientHello
      else case skipVector (drop 34 b) 1 of
        Inl e \<Rightarrow> Inl e
      | Inr b1 \<Rightarrow> (case skipVector b1 2 of
          Inl e \<Rightarrow> Inl e
        | Inr b2 \<Rightarrow> (case skipVector b2 1 of Inl e \<Rightarrow> Inl e | Inr b3 \<Rightarrow> parse_extensions b3)))"

text \<open>The 24-bit length of a handshake message: \<open>int(hs[1])<<16 | int(hs[2])<<8 | int(hs[3])\<close>.\<close>

definition hello_len :: "byte list \<Rightarrow> nat" where
  "hello_len hs = 65536 * unat (hs ! 1) + 256 * unat (hs ! 2) + unat (hs ! 3)"

definition parseClientHello :: "byte list \<Rightarrow> hello_result" where
  "parseClientHello hs =
     (if length hs < 4 then Inr ([], False)
      else if hs ! 0 \<noteq> handshakeClientHello then Inl errBadClientHello
      else if maxClientHello < hello_len hs then Inl errHelloTooLarge
      else if length hs < 4 + hello_len hs then Inr ([], False)
      else parse_hello_body (take (hello_len hs) (drop 4 hs)))"

section \<open>Reading the records\<close>

definition readUpTo :: "net_script \<Rightarrow> byte list \<Rightarrow> nat \<Rightarrow> byte list \<times> conn_err option \<times> net_script" where
  "readUpTo c buf n =
     (if maxClientHello + maxTLSRecord < n then (buf, Some errHelloTooLarge, c) else read_loop n buf c)"

type_synonym peek_result = "(conn_err + string) \<times> byte list \<times> net_script"

text \<open>One round of the loop: a result, or the state of the next round.\<close>

definition peek_record :: "byte list \<Rightarrow> conn_err + nat" where
  "peek_record raw =
     (let hdr = drop (length raw - 5) raw; n = Uint16 (drop 3 hdr) in
      if hdr ! 0 \<noteq> recordTypeHandshake then Inl errNotTLS
      else if n = 0 \<or> maxTLSRecord < n then Inl errBadClientHello else Inr n)"

definition peek_message :: "byte list \<Rightarrow> conn_err + string \<times> bool" where
  "peek_message hs = (if maxClientHello < length hs then Inl errHelloTooLarge else parseClientHello hs)"

definition peek_round ::
  "net_script \<Rightarrow> byte list \<Rightarrow> byte list \<Rightarrow> peek_result + net_script \<times> byte list \<times> byte list" where
  "peek_round c raw hs =
     (case readUpTo c raw (length raw + 5) of (raw1, e1, c1) \<Rightarrow>
        case e1 of Some e \<Rightarrow> Inl (Inl e, raw1, c1)
        | None \<Rightarrow> (case peek_record raw1 of
            Inl e \<Rightarrow> Inl (Inl e, raw1, c1)
          | Inr n \<Rightarrow> (case readUpTo c1 raw1 (length raw1 + n) of (raw2, e2, c2) \<Rightarrow>
              case e2 of Some e \<Rightarrow> Inl (Inl e, raw2, c2)
              | None \<Rightarrow> (let hs' = hs @ drop (length raw2 - n) raw2 in
                  case peek_message hs' of
                    Inl e \<Rightarrow> Inl (Inl e, raw2, c2)
                  | Inr (name, done) \<Rightarrow> if done then Inl (Inr name, raw2, c2) else Inr (c2, raw2, hs')))))"

fun peek_rounds :: "nat \<Rightarrow> net_script \<Rightarrow> byte list \<Rightarrow> byte list \<Rightarrow> peek_result option" where
  "peek_rounds 0 c raw hs = None"
| "peek_rounds (Suc k) c raw hs =
     (case peek_round c raw hs of Inl r \<Rightarrow> Some r | Inr (c', raw', hs') \<Rightarrow> peek_rounds k c' raw' hs')"

definition max_rounds :: nat where
  "max_rounds = Suc ((maxClientHello + maxTLSRecord) div 6)"

definition peekClientHello :: "net_script \<Rightarrow> peek_result" where
  "peekClientHello c =
     (case peek_rounds max_rounds c [] [] of Some r \<Rightarrow> r | None \<Rightarrow> (Inl errHelloTooLarge, [], c))"

section \<open>Replaying the peeked bytes\<close>

record prefix_conn =
  pc_Conn :: net_script
  pc_prefix :: "byte list"

definition prefixConn_Read :: "nat \<Rightarrow> prefix_conn \<Rightarrow> (byte list \<times> conn_err option) \<times> prefix_conn" where
  "prefixConn_Read k c =
     (if pc_prefix c \<noteq> []
      then ((take k (pc_prefix c), None), c\<lparr>pc_prefix := drop k (pc_prefix c)\<rparr>)
      else let (r, s) = conn_Read k (pc_Conn c) in (r, c\<lparr>pc_Conn := s\<rparr>))"

fun replay :: "nat list \<Rightarrow> prefix_conn \<Rightarrow> byte list \<times> prefix_conn" where
  "replay [] c = ([], c)"
| "replay (k # ks) c =
     (let ((m, e), c') = prefixConn_Read k c; (ms, c'') = replay ks c' in (m @ ms, c''))"

definition front_bytes :: "prefix_conn \<Rightarrow> byte list" where
  "front_bytes c = pc_prefix c @ unread (pc_Conn c)"

lemma prefixConn_Read_bytes: "prefixConn_Read k c = ((m, e), c') \<Longrightarrow> m @ front_bytes c' = front_bytes c"
  by (auto simp: prefixConn_Read_def front_bytes_def split: if_splits prod.splits dest!: conn_Read_unread)

lemma replay_bytes: "replay ks c = (m, c') \<Longrightarrow> m @ front_bytes c' = front_bytes c"
proof (induction ks arbitrary: c m)
  case (Cons k ks)
  then show ?case by (auto simp: Let_def split: prod.splits dest: prefixConn_Read_bytes [symmetric])
qed simp

section \<open>The reader keeps the contract\<close>

lemma readUpTo_bounded: "readUpTo = bounded_read (maxClientHello + maxTLSRecord) errHelloTooLarge"
  by (simp add: fun_eq_iff readUpTo_def bounded_read_def)

interpretation hello_reader: exact_reader readUpTo "maxClientHello + maxTLSRecord"
  unfolding readUpTo_bounded by (rule bounded_read_exact)

section \<open>The loop ends, and takes no byte it does not return\<close>

text \<open>A round keeps the bytes of the connection, stays within the limit, and reads at least six of
  them before it asks for another round.\<close>

lemma peek_round_keeps:
  assumes "length raw \<le> maxClientHello + maxTLSRecord"
  shows "peek_round c raw hs = Inl (r, raw', c') \<Longrightarrow>
           raw' @ unread c' = raw @ unread c \<and> length raw' \<le> maxClientHello + maxTLSRecord" (is "?P \<Longrightarrow> _")
    and "peek_round c raw hs = Inr (c', raw', hs') \<Longrightarrow>
           raw' @ unread c' = raw @ unread c \<and> length raw' \<le> maxClientHello + maxTLSRecord \<and>
           length raw + 6 \<le> length raw'" (is "?Q \<Longrightarrow> _")
proof -
  obtain raw1 e1 c1 where r1: "readUpTo c raw (length raw + 5) = (raw1, e1, c1)" by (metis prod.exhaust)
  note keep1 = hello_reader.rd_conserves [OF r1] hello_reader.rd_bounded [OF r1 assms]
  obtain raw2 e2 c2 where r2: "readUpTo c1 raw1 (length raw1 + projr (peek_record raw1)) = (raw2, e2, c2)"
    by (metis prod.exhaust)
  note keep2 = hello_reader.rd_conserves [OF r2] hello_reader.rd_bounded [OF r2 keep1(2)]
  show "?P \<Longrightarrow> raw' @ unread c' = raw @ unread c \<and> length raw' \<le> maxClientHello + maxTLSRecord"
    using r1 r2 keep1 keep2
    by (cases "peek_record raw1") (auto simp: peek_round_def Let_def split: option.splits if_splits sum.splits)
  assume q: ?Q
  then have "e1 = None" "e2 = None" "raw' = raw2" "c' = c2"
    and n: "projr (peek_record raw1) \<noteq> 0"
    using r1 r2 by (cases "peek_record raw1";
      auto simp: peek_round_def peek_record_def Let_def split: option.splits if_splits sum.splits)+
  with r1 r2 keep1 keep2 show "raw' @ unread c' = raw @ unread c \<and>
      length raw' \<le> maxClientHello + maxTLSRecord \<and> length raw + 6 \<le> length raw'"
    using hello_reader.rd_exact [of c raw "length raw + 5" raw1 c1]
      hello_reader.rd_exact [of c1 raw1 "length raw1 + projr (peek_record raw1)" raw2 c2] by auto
qed

lemma peek_rounds_end:
  "length raw \<le> maxClientHello + maxTLSRecord \<Longrightarrow> maxClientHello + maxTLSRecord < length raw + 6 * k \<Longrightarrow>
     peek_rounds k c raw hs \<noteq> None"
proof (induction k arbitrary: c raw hs)
  case (Suc k)
  show ?case
  proof (cases "peek_round c raw hs")
    case (Inr x)
    then obtain c' raw' hs' where x: "peek_round c raw hs = Inr (c', raw', hs')" by (metis prod.exhaust)
    then have "peek_rounds k c' raw' hs' \<noteq> None"
      using peek_round_keeps(2) [OF Suc.prems(1) x] Suc.prems(2) by (intro Suc.IH) auto
    with x show ?thesis by simp
  qed simp
qed simp

lemma peek_rounds_conserve:
  "peek_rounds k c raw hs = Some (r, raw', c') \<Longrightarrow> length raw \<le> maxClientHello + maxTLSRecord \<Longrightarrow>
     raw' @ unread c' = raw @ unread c \<and> length raw' \<le> maxClientHello + maxTLSRecord"
proof (induction k arbitrary: c raw hs)
  case (Suc k)
  show ?case
  proof (cases "peek_round c raw hs")
    case (Inl x)
    with Suc.prems show ?thesis using peek_round_keeps(1) [OF Suc.prems(2)] by auto
  next
    case (Inr x)
    then obtain c2 raw2 hs2 where x: "peek_round c raw hs = Inr (c2, raw2, hs2)" by (metis prod.exhaust)
    with Suc.prems Suc.IH [of c2 raw2 hs2] peek_round_keeps(2) [OF Suc.prems(2) x] show ?thesis by auto
  qed
qed simp

lemma max_rounds_enough: "maxClientHello + maxTLSRecord < 6 * max_rounds"
  by (simp add: max_rounds_def maxClientHello_def maxTLSRecord_def)

lemma peekClientHello_rounds: "peek_rounds max_rounds c [] [] = Some (peekClientHello c)"
  using peek_rounds_end [of "[]" max_rounds c "[]"] max_rounds_enough
  by (auto simp: peekClientHello_def)

text \<open>C37: Whatever the peer sends and however it is cut into reads, the loop that collects the records
  of a ClientHello ends within its 5462 rounds, never having buffered more than 32768 bytes, and
  what it hands on with what it left unread is the byte stream of the peer, so that replaying the
  buffer disturbs no handshake, whether a name was found or not.\<close>

theorem peek_is_bounded:
  "\<exists>r raw c'. peek_rounds 5462 c [] [] = Some (r, raw, c') \<and> peekClientHello c = (r, raw, c') \<and>
     length raw \<le> 32768 \<and>
     (\<forall>ks. case replay ks \<lparr>pc_Conn = c', pc_prefix = raw\<rparr> of (m, front) \<Rightarrow> m @ front_bytes front = unread c)"
proof -
  obtain r raw c' where p: "peekClientHello c = (r, raw, c')" by (metis prod.exhaust)
  have *: "peek_rounds 5462 c [] [] = Some (r, raw, c')"
    using peekClientHello_rounds [of c] p by (simp add: max_rounds_def maxClientHello_def maxTLSRecord_def)
  then have "raw @ unread c' = unread c" "length raw \<le> 32768"
    using peek_rounds_conserve [OF *] by (simp_all add: maxClientHello_def maxTLSRecord_def)
  with p * show ?thesis by (fastforce dest: replay_bytes simp: front_bytes_def split: prod.split)
qed

section \<open>The wire format\<close>

text \<open>A ClientHello as RFC 8446 section 4.1.2 lays it out: version and random, three vectors, and the
  extensions; \<open>server_name\<close> as RFC 6066 section 3 does. Nothing here is code of the program.\<close>

record client_hello =
  ch_fixed :: "byte list"
  ch_session_id :: "byte list"
  ch_cipher_suites :: "byte list"
  ch_compression :: "byte list"
  ch_extensions :: "(nat \<times> byte list) list"

definition vec8 :: "byte list \<Rightarrow> byte list" where
  "vec8 x = word_of_nat (length x) # x"

definition vec16 :: "byte list \<Rightarrow> byte list" where
  "vec16 x = PutUint16 (length x) @ x"

definition extension_bytes :: "(nat \<times> byte list) list \<Rightarrow> byte list" where
  "extension_bytes es = concat (map (\<lambda>(t, b). PutUint16 t @ vec16 b) es)"

definition server_name_bytes :: "(byte \<times> byte list) list \<Rightarrow> byte list" where
  "server_name_bytes ns = concat (map (\<lambda>(t, n). t # vec16 n) ns)"

definition hello_body :: "client_hello \<Rightarrow> byte list" where
  "hello_body ch = ch_fixed ch @ vec8 (ch_session_id ch) @ vec16 (ch_cipher_suites ch) @
     vec8 (ch_compression ch) @ vec16 (extension_bytes (ch_extensions ch))"

definition hello_msg :: "client_hello \<Rightarrow> byte list" where
  "hello_msg ch = (let n = length (hello_body ch)
     in [1, word_of_nat (n div 65536)] @ PutUint16 (n mod 65536) @ hello_body ch)"

definition wf_hello :: "client_hello \<Rightarrow> bool" where
  "wf_hello ch \<longleftrightarrow>
     length (ch_fixed ch) = 34 \<and> length (ch_session_id ch) < 256 \<and> length (ch_cipher_suites ch) < 65536 \<and>
     length (ch_compression ch) < 256 \<and> list_all (\<lambda>(t, b). t < 65536 \<and> length b < 65536) (ch_extensions ch) \<and>
     length (extension_bytes (ch_extensions ch)) < 65536 \<and> length (hello_body ch) + 4 \<le> maxClientHello"

text \<open>The name the client asks for: the first \<open>host_name\<close> of its list, without a final dot.\<close>

definition requested_name :: "(byte \<times> byte list) list \<Rightarrow> string" where
  "requested_name ns =
     (case find (\<lambda>(t, n). t = 0) ns of None \<Rightarrow> [] | Some (t, n) \<Rightarrow> ToLower (TrimSuffix (byte_string n) ''.''))"

lemma drop_PutUint16 [simp]: "drop (Suc (Suc 0)) (PutUint16 n @ r) = r" "drop 2 (PutUint16 n @ r) = r"
  by (simp_all add: PutUint16_def)

lemma header_drops [simp]:
  "drop 4 (PutUint16 m @ PutUint16 n @ r) = r" "drop 3 (x # PutUint16 n @ r) = r"
  by (simp_all add: PutUint16_def)

lemma skip_vec8 [simp]: "length x < 256 \<Longrightarrow> skipVector (vec8 x @ r) (Suc 0) = Inr r"
  by (simp add: skipVector_def vec8_def unat_byte)

lemma skip_vec16 [simp]: "length x < 65536 \<Longrightarrow> skipVector (vec16 x @ r) 2 = Inr r"
  by (simp add: skipVector_def vec16_def)

lemma extension_loop_bytes:
  "list_all (\<lambda>(t, b). t < 65536 \<and> length b < 65536) es \<Longrightarrow>
     extension_loop (extension_bytes es) =
       (case find (\<lambda>(t, b). t = extensionServerName) es of
          None \<Rightarrow> Inr ([], True) | Some (t, b) \<Rightarrow> parseServerNameExtension b)"
proof (induction es)
  case Nil
  then show ?case by (simp add: extension_bytes_def extension_loop.simps [of "[]"])
next
  case (Cons e es)
  obtain t b where e: "e = (t, b)" by (cases e)
  have "extension_bytes (e # es) = PutUint16 t @ PutUint16 (length b) @ b @ extension_bytes es"
    by (simp add: extension_bytes_def e vec16_def)
  then show ?case using Cons
    by (simp add: e extension_loop.simps [of "PutUint16 t @ PutUint16 (length b) @ b @ extension_bytes es"]
        Let_def)
qed

lemma server_name_loop_bytes:
  "list_all (\<lambda>(t, n). length n < 65536) ns \<Longrightarrow>
     server_name_loop (server_name_bytes ns) = Inr (requested_name ns, True)"
proof (induction ns)
  case Nil
  then show ?case by (simp add: server_name_bytes_def requested_name_def server_name_loop.simps [of "[]"])
next
  case (Cons x ns)
  obtain t n where x: "x = (t, n)" by (cases x)
  have "server_name_bytes (x # ns) = t # PutUint16 (length n) @ n @ server_name_bytes ns"
    by (simp add: server_name_bytes_def x vec16_def)
  then show ?case using Cons
    by (simp add: x server_name_loop.simps [of "t # PutUint16 (length n) @ n @ server_name_bytes ns"]
        requested_name_def Let_def)
qed

lemma parse_server_name_bytes:
  "list_all (\<lambda>(t, n). length n < 65536) ns \<Longrightarrow> length (server_name_bytes ns) < 65536 \<Longrightarrow>
     parseServerNameExtension (vec16 (server_name_bytes ns)) = Inr (requested_name ns, True)"
  by (simp add: parseServerNameExtension_def vec16_def server_name_loop_bytes)

lemma parse_body_bytes:
  assumes "wf_hello ch"
  shows "parse_hello_body (hello_body ch) = extension_loop (extension_bytes (ch_extensions ch))"
proof -
  have "drop 34 (hello_body ch) = vec8 (ch_session_id ch) @ vec16 (ch_cipher_suites ch) @
      vec8 (ch_compression ch) @ vec16 (extension_bytes (ch_extensions ch))"
    using assms by (simp add: hello_body_def wf_hello_def)
  moreover have "\<not> length (hello_body ch) < 34" using assms by (simp add: hello_body_def wf_hello_def)
  moreover have "parse_extensions (vec16 (extension_bytes (ch_extensions ch))) =
      extension_loop (extension_bytes (ch_extensions ch))"
    using assms by (simp add: parse_extensions_def vec16_def wf_hello_def)
  ultimately show ?thesis using assms by (simp add: parse_hello_body_def wf_hello_def)
qed

lemma length_hello_msg: "length (hello_msg ch) = 4 + length (hello_body ch)"
  by (simp add: hello_msg_def Let_def)

lemma hello_msg_head:
  assumes "wf_hello ch" "4 \<le> length p" "prefix p (hello_msg ch @ extra)"
  shows "p ! 0 = handshakeClientHello" "hello_len p = length (hello_body ch)"
proof -
  obtain z where z: "hello_msg ch @ extra = p @ z" using assms(3) by (auto simp: prefix_def)
  have nth: "p ! i = hello_msg ch ! i" if "i < 4" for i
    using arg_cong [OF z, of "\<lambda>x. x ! i"] that assms(2) by (simp add: nth_append length_hello_msg)
  have n: "length (hello_body ch) < 65536" using assms(1) by (simp add: wf_hello_def maxClientHello_def)
  show "p ! 0 = handshakeClientHello"
    using nth [of 0] by (simp add: hello_msg_def Let_def handshakeClientHello_def)
  show "hello_len p = length (hello_body ch)"
    using nth [of 1] nth [of 2] nth [of 3] n
    by (simp add: hello_len_def hello_msg_def Let_def PutUint16_def unat_byte)
qed

lemma parse_incomplete:
  assumes "wf_hello ch" "strict_prefix p (hello_msg ch)"
  shows "parseClientHello p = Inr ([], False)"
proof (cases "length p < 4")
  case False
  have pre: "prefix p (hello_msg ch @ [])" using assms(2) by simp
  have "length p < 4 + length (hello_body ch)"
    using prefix_length_less [OF assms(2)] by (simp add: length_hello_msg)
  then show ?thesis
    using hello_msg_head [OF assms(1) _ pre] False assms(1) by (simp add: parseClientHello_def wf_hello_def)
qed (simp add: parseClientHello_def)

lemma parse_complete:
  assumes "wf_hello ch"
  shows "parseClientHello (hello_msg ch @ extra) = extension_loop (extension_bytes (ch_extensions ch))"
proof -
  have four: "4 \<le> length (hello_msg ch @ extra)" by (simp add: length_hello_msg)
  have body: "take (length (hello_body ch)) (drop 4 (hello_msg ch @ extra)) = hello_body ch"
    by (simp add: hello_msg_def Let_def PutUint16_def)
  show ?thesis
    using hello_msg_head [OF assms four, of extra] assms four body
    by (simp add: parseClientHello_def wf_hello_def length_hello_msg parse_body_bytes)
qed

section \<open>Any cut into records, any cut into reads\<close>

definition tls_record :: "byte \<times> byte \<times> byte list \<Rightarrow> byte list" where
  "tls_record = (\<lambda>(v, w, f). [recordTypeHandshake, v, w] @ vec16 f)"

definition records :: "(byte \<times> byte \<times> byte list) list \<Rightarrow> byte list" where
  "records rs = concat (map tls_record rs)"

definition fragments :: "(byte \<times> byte \<times> byte list) list \<Rightarrow> byte list" where
  "fragments rs = concat (map (\<lambda>(v, w, f). f) rs)"

lemma fragments_simps [simp]: "fragments [] = []" "fragments ((v, w, f) # rs) = f @ fragments rs"
  by (simp_all add: fragments_def)

lemma records_simps [simp]:
  "records [] = []" "records ((v, w, f) # rs) = [recordTypeHandshake, v, w] @ vec16 f @ records rs"
  by (simp_all add: records_def tls_record_def)

lemma fragments_last: "rs \<noteq> [] \<Longrightarrow> length (case last rs of (v, w, f) \<Rightarrow> f) \<le> length (fragments rs)"
  by (induction rs) (auto split: prod.splits)

lemma strict_prefix_cut: "p @ x = m @ y \<Longrightarrow> length y < length x \<Longrightarrow> strict_prefix p m"
  by (auto simp: append_eq_append_conv2 strict_prefix_def prefix_def)

lemma peek_record_bytes:
  "f \<noteq> [] \<Longrightarrow> length f \<le> maxTLSRecord \<Longrightarrow>
     peek_record (raw @ [recordTypeHandshake, v, w] @ PutUint16 (length f)) = Inr (length f)"
  by (simp add: peek_record_def maxTLSRecord_def Let_def)

lemma peek_one_record:
  assumes "f \<noteq> []" "length f \<le> maxTLSRecord"
    and "avail c = [recordTypeHandshake, v, w] @ vec16 f @ rest"
    and "length raw + 5 + length f \<le> maxClientHello + maxTLSRecord"
  obtains c2 where "avail c2 = rest"
    "peek_round c raw hs =
      (let raw2 = raw @ tls_record (v, w, f) in
       case peek_message (hs @ f) of
         Inl e \<Rightarrow> Inl (Inl e, raw2, c2)
       | Inr (name, done) \<Rightarrow> if done then Inl (Inr name, raw2, c2) else Inr (c2, raw2, hs @ f))"
proof -
  let ?h = "[recordTypeHandshake, v, w] @ PutUint16 (length f)"
  have h: "avail c = ?h @ f @ rest" using assms(3) by (simp add: vec16_def)
  obtain c1 where c1: "readUpTo c raw (length raw + 5) = (raw @ ?h, None, c1)" "avail c1 = f @ rest"
    using hello_reader.rd_next [OF h, of raw] assms(4) by auto
  obtain c2 where c2: "readUpTo c1 (raw @ ?h) (length (raw @ ?h) + length f) = ((raw @ ?h) @ f, None, c2)" "avail c2 = rest"
    using hello_reader.rd_next [OF c1(2), of "raw @ ?h"] assms(4) by auto
  have "peek_round c raw hs =
      (let raw2 = raw @ tls_record (v, w, f) in
       case peek_message (hs @ f) of
         Inl e \<Rightarrow> Inl (Inl e, raw2, c2)
       | Inr (name, done) \<Rightarrow> if done then Inl (Inr name, raw2, c2) else Inr (c2, raw2, hs @ f))"
    using c1 c2 peek_record_bytes [OF assms(1,2), of raw v w]
    by (simp add: peek_round_def Let_def tls_record_def vec16_def split: sum.splits)
  with c2(2) that show thesis by blast
qed

lemma peek_rounds_records:
  assumes "wf_hello ch" "extension_loop (extension_bytes (ch_extensions ch)) = Inr (name, True)"
  shows "list_all (\<lambda>(v, w, f). f \<noteq> [] \<and> length f \<le> maxTLSRecord) rs \<Longrightarrow>
    hs @ fragments rs = hello_msg ch @ extra \<Longrightarrow> strict_prefix hs (hello_msg ch) \<Longrightarrow>
    length extra < length (case last rs of (v, w, f) \<Rightarrow> f) \<Longrightarrow> rs \<noteq> [] \<Longrightarrow>
    length (hello_msg ch @ extra) \<le> maxClientHello \<Longrightarrow>
    avail c = records rs @ rest \<Longrightarrow> length raw + length (records rs) \<le> maxClientHello + maxTLSRecord \<Longrightarrow>
    length rs \<le> k \<Longrightarrow>
    \<exists>c'. peek_rounds k c raw hs = Some (Inr name, raw @ records rs, c') \<and> avail c' = rest"
proof (induction rs arbitrary: c raw hs k)
  case (Cons r rs)
  obtain v w f where r: "r = (v, w, f)" by (metis prod.exhaust)
  obtain k' where k: "k = Suc k'" using Cons.prems(9) by (cases k) auto
  have f: "f \<noteq> []" "length f \<le> maxTLSRecord" using Cons.prems(1) r by auto
  obtain c2 where c2: "avail c2 = records rs @ rest"
    and step: "peek_round c raw hs =
      (let raw2 = raw @ tls_record r in
       case peek_message (hs @ f) of
         Inl e \<Rightarrow> Inl (Inl e, raw2, c2)
       | Inr (name, done) \<Rightarrow> if done then Inl (Inr name, raw2, c2) else Inr (c2, raw2, hs @ f))"
    using peek_one_record [OF f, of c v w "records rs @ rest" raw hs] Cons.prems(7,8) r
    by (auto simp: vec16_def)
  have small: "length (hs @ f) \<le> maxClientHello"
    using arg_cong [OF Cons.prems(2), of length] Cons.prems(6) r by simp
  show ?case
  proof (cases "rs = []")
    case True
    then have "hs @ f = hello_msg ch @ extra" using Cons.prems(2) r by simp
    then have "peek_message (hs @ f) = Inr (name, True)"
      using small assms parse_complete [OF assms(1), of extra] by (simp add: peek_message_def)
    with step k c2 True show ?thesis by (simp add: r records_def)
  next
    case False
    have "hs @ f @ fragments rs = hello_msg ch @ extra" using Cons.prems(2) r by simp
    moreover have "length extra < length (fragments rs)"
      using fragments_last [OF False] Cons.prems(4) False by simp
    ultimately have pre: "strict_prefix (hs @ f) (hello_msg ch)"
      by (intro strict_prefix_cut [of "hs @ f" "fragments rs" _ extra]) simp_all
    then have more: "peek_message (hs @ f) = Inr ([], False)"
      using small parse_incomplete [OF assms(1)] by (simp add: peek_message_def)
    have "\<exists>c'. peek_rounds k' c2 (raw @ tls_record r) (hs @ f) =
        Some (Inr name, (raw @ tls_record r) @ records rs, c') \<and> avail c' = rest"
    proof (rule Cons.IH)
      show "(hs @ f) @ fragments rs = hello_msg ch @ extra" using Cons.prems(2) by (simp add: r)
      show "length extra < length (case last rs of (v, w, f) \<Rightarrow> f)" using Cons.prems(4) False by simp
      show "length (raw @ tls_record r) + length (records rs) \<le> maxClientHello + maxTLSRecord"
        using Cons.prems(8) by (simp add: records_def)
    qed (use Cons.prems(1,6,9) pre False c2 k in simp_all)
    with step more k show ?thesis by (simp add: Let_def records_def)
  qed
qed simp

lemma records_length: "list_all (\<lambda>(v, w, f). f \<noteq> []) rs \<Longrightarrow> 6 * length rs \<le> length (records rs)"
proof (induction rs)
  case (Cons r rs)
  then show ?case by (cases r; cases "snd (snd r)") (auto simp: records_def tls_record_def vec16_def)
qed simp

lemma server_name_extension_found:
  assumes "wf_hello ch" "ch_extensions ch = pre @ (extensionServerName, vec16 (server_name_bytes ns)) # post"
    and "list_all (\<lambda>(t, b). t \<noteq> extensionServerName) pre" "list_all (\<lambda>(t, n). length n < 65536) ns"
  shows "extension_loop (extension_bytes (ch_extensions ch)) = Inr (requested_name ns, True)"
proof -
  have "length (server_name_bytes ns) < 65536" using assms(1,2) by (simp add: wf_hello_def vec16_def)
  moreover have "find (\<lambda>(t, b). t = extensionServerName) (ch_extensions ch) =
      Some (extensionServerName, vec16 (server_name_bytes ns))"
    unfolding assms(2) using assms(3) by (intro find_first) (auto simp: list_all_iff)
  moreover have "list_all (\<lambda>(t, b). t < 65536 \<and> length b < 65536) (ch_extensions ch)"
    using assms(1) by (simp add: wf_hello_def)
  ultimately show ?thesis using assms(4) by (simp add: extension_loop_bytes parse_server_name_bytes)
qed

text \<open>C36: The server name is found however the client cuts its hello: a well-formed ClientHello with a
  \<open>server_name\<close> extension, split over any number of handshake records of any size (with any version
  bytes, and possibly followed in the last record by more handshake data), arriving in any chunks,
  yields the first host name it lists. Exactly the records are taken off the connection.\<close>

theorem sni_found_however_cut:
  assumes "wf_hello ch" "ch_extensions ch = pre @ (extensionServerName, vec16 (server_name_bytes ns)) # post"
    and "list_all (\<lambda>(t, b). t \<noteq> extensionServerName) pre" "list_all (\<lambda>(t, n). length n < 65536) ns"
    and "list_all (\<lambda>(v, w, f). f \<noteq> [] \<and> length f \<le> maxTLSRecord) rs" "rs \<noteq> []"
    and "fragments rs = hello_msg ch @ extra" "length extra < length (case last rs of (v, w, f) \<Rightarrow> f)"
    and "length (fragments rs) \<le> maxClientHello" "length (records rs) \<le> maxClientHello + maxTLSRecord"
    and "avail c = records rs @ rest"
  shows "\<exists>c'. peekClientHello c = (Inr (requested_name ns), records rs, c') \<and> avail c' = rest"
proof -
  have "list_all (\<lambda>(v, w, f). f \<noteq> []) rs" using assms(5) by (auto simp: list_all_iff)
  then have rounds: "length rs \<le> max_rounds"
    using records_length [of rs] assms(10) max_rounds_enough by simp
  have start: "strict_prefix [] (hello_msg ch)" by (simp add: hello_msg_def Let_def)
  have "\<exists>c'. peek_rounds max_rounds c [] [] = Some (Inr (requested_name ns), [] @ records rs, c') \<and> avail c' = rest"
    using assms(5-11) rounds start
    by (intro peek_rounds_records [OF assms(1) server_name_extension_found [OF assms(1-4)]]) simp_all
  then show ?thesis by (auto simp: peekClientHello_rounds)
qed

definition demo_hello :: client_hello where
  "demo_hello = \<lparr>ch_fixed = replicate 34 7, ch_session_id = [1, 2], ch_cipher_suites = [19, 1],
     ch_compression = [0], ch_extensions = [(43, [3, 4]), (0, vec16 (server_name_bytes [(0, [65, 46, 98, 46])]))]\<rparr>"

definition demo_records :: "(byte \<times> byte \<times> byte list) list" where
  "demo_records = [(3, 1, take 3 (hello_msg demo_hello)), (3, 3, drop 3 (hello_msg demo_hello))]"

lemmas demo_hello_simps = demo_hello_def demo_records_def hello_msg_def hello_body_def vec8_def vec16_def
  extension_bytes_def server_name_bytes_def PutUint16_def Let_def

theorem sni_found_however_cut_witness:
  "\<exists>c'. peekClientHello [(take 6 (records demo_records), None), (drop 6 (records demo_records) @ [9], None)] =
     (Inr ''a.b'', records demo_records, c') \<and> avail c' = [9]"
proof -
  have wf: "wf_hello demo_hello"
    by (simp add: wf_hello_def maxClientHello_def demo_hello_simps)
  have name: "requested_name [(0, [65, 46, 98, 46])] = ''a.b''"
    by (simp add: requested_name_def byte_string_def go_str suffix_def) code_simp?
  have exts: "ch_extensions demo_hello = [(43, [3, 4]), (0, vec16 (server_name_bytes [(0, [65, 46, 98, 46])]))]"
    by (simp add: demo_hello_def)
  have len: "length (hello_msg demo_hello) = 68"
    by (simp add: demo_hello_simps)
  have recs: "list_all (\<lambda>(v, w, f). f \<noteq> [] \<and> length f \<le> 16384) demo_records" "length (records demo_records) = 78"
    "(case last demo_records of (v, w, f) \<Rightarrow> f) \<noteq> []" "fragments demo_records = hello_msg demo_hello" "demo_records \<noteq> []"
    using len by (auto simp: demo_records_def vec16_def)
  show ?thesis
    using sni_found_however_cut [OF wf, of "[(43, [3, 4])]" "[(0, [65, 46, 98, 46])]" "[]" demo_records "[]"
        "[(take 6 (records demo_records), None), (drop 6 (records demo_records) @ [9], None)]" "[9]"]
    by (simp add: name exts len recs maxClientHello_def maxTLSRecord_def extensionServerName_def)
qed

end
