(* ===== verification/Proxy_Proto.thy ===== *)
theory Proxy_Proto
  imports Client_Hello Client_IP Host_Model
begin

text \<open>
  The inbound PROXY protocol (\<open>dataplane/proxyproto.go\<close>): the listener's compiled configuration, the
  lazy header parser of an accepted connection in its two versions, and the addresses and payload the
  rest of the data plane gets from it.

  A connection is a record: the script of the socket (\<open>Net_Conn\<close>), the address of its peer, and the
  fields of \<open>proxyProtoConn\<close>; \<open>once\<close> is the flag \<open>pp_done\<close>. Error values keep a short tag of their
  message. The read deadline is part of the script: a peer that stalls is a script whose next read is
  an error.
\<close>

section \<open>Configuration\<close>

record proxy_protocol_settings =
  pps_Enabled :: bool
  pps_TrustedCIDRs :: "string list"
  pps_Timeout :: string

definition DefaultProxyProtocolTimeout :: int where "DefaultProxyProtocolTimeout = 5 * 10 ^ 9"
definition maxProxyProtocolTimeout :: int where "maxProxyProtocolTimeout = 60 * 10 ^ 9"

definition HeaderTimeout :: "proxy_protocol_settings option \<Rightarrow> int" where
  "HeaderTimeout p =
     (case p of None \<Rightarrow> DefaultProxyProtocolTimeout
      | Some p \<Rightarrow>
          if pps_Timeout p = [] then DefaultProxyProtocolTimeout
          else case ParseDuration (pps_Timeout p) of
            None \<Rightarrow> DefaultProxyProtocolTimeout
          | Some d \<Rightarrow> if d \<le> 0 then DefaultProxyProtocolTimeout else d)"

definition validate_proxy_protocol :: "proxy_protocol_settings option \<Rightarrow> verr" where
  "validate_proxy_protocol p =
     (case p of None \<Rightarrow> None
      | Some p \<Rightarrow>
          if \<not> pps_Enabled p then None
          else first_err
            [check (pps_TrustedCIDRs p \<noteq> []) ''proxyProtocol.trustedCIDRs'',
             check (list_all (\<lambda>c. ParseCIDR c \<noteq> None \<or> ParseIP c \<noteq> None) (pps_TrustedCIDRs p)) ''proxyProtocol.trustedCIDRs'',
             check (pps_Timeout p = [] \<or>
               (case ParseDuration (pps_Timeout p) of None \<Rightarrow> False | Some d \<Rightarrow> 0 < d \<and> d \<le> maxProxyProtocolTimeout))
               ''proxyProtocol.timeout''])"

record proxy_proto_config =
  ppc_trusted :: "ipnet list"
  ppc_timeout :: int

definition compileProxyProtocol :: "proxy_protocol_settings option \<Rightarrow> proxy_proto_config option" where
  "compileProxyProtocol s =
     (case s of None \<Rightarrow> None
      | Some p \<Rightarrow>
          if \<not> pps_Enabled p then None
          else let trusted = List.map_filter ParseNet (pps_TrustedCIDRs p)
               in if trusted = [] then None
                  else Some \<lparr>ppc_trusted = trusted, ppc_timeout = HeaderTimeout s\<rparr>)"

section \<open>Addresses\<close>

datatype net_addr =
    TCPAddr "ip option" int
  | UDPAddr "ip option" int
  | OtherAddr string
  | NilAddr

definition addrIP :: "net_addr \<Rightarrow> ip option" where
  "addrIP a =
     (case a of TCPAddr i p \<Rightarrow> i | UDPAddr i p \<Rightarrow> i | NilAddr \<Rightarrow> None
      | OtherAddr s \<Rightarrow> (case SplitHostPort s of None \<Rightarrow> ParseIP s | Some (host, p) \<Rightarrow> ParseIP host))"

definition peerKey :: "ip option \<Rightarrow> string" where
  "peerKey i = (case i of None \<Rightarrow> ''unknown'' | Some a \<Rightarrow> ip_string a)"

section \<open>Warn-once sets\<close>

definition maxWarnedPeers :: nat where "maxWarnedPeers = 4096"

type_synonym peer_warn_set = "string list"

definition warn_first :: "string \<Rightarrow> peer_warn_set \<Rightarrow> bool \<times> peer_warn_set" where
  "warn_first key seen =
     (if key \<in> set seen then (False, seen)
      else (True, key # (if maxWarnedPeers \<le> length seen then [] else seen)))"

record warn_sets =
  untrustedProxyPeers :: peer_warn_set
  headerlessProxyPeers :: peer_warn_set

section \<open>The connection\<close>

definition v2Signature :: "byte list" where
  "v2Signature = [0x0D, 0x0A, 0x0D, 0x0A, 0x00, 0x0D, 0x0A, 0x51, 0x55, 0x49, 0x54, 0x0A]"

definition string_bytes :: "string \<Rightarrow> byte list" where
  "string_bytes s = map (\<lambda>c. word_of_nat (byte_of c)) s"

definition v1Prefix :: "byte list" where "v1Prefix = string_bytes ''PROXY ''"
definition maxProxyProtoV1 :: nat where "maxProxyProtoV1 = 107"
definition maxProxyProtoHeader :: nat where "maxProxyProtoHeader = 16 + 65535"

record proxy_conn =
  pp_Conn :: net_script
  pp_peer :: net_addr
  pp_cfg :: proxy_proto_config
  pp_done :: bool
  pp_err :: "conn_err option"
  pp_remote :: net_addr
  pp_buf :: "byte list"
  pp_closed :: bool

definition accept_conn :: "proxy_proto_config \<Rightarrow> net_script \<Rightarrow> net_addr \<Rightarrow> proxy_conn" where
  "accept_conn cfg s peer =
     \<lparr>pp_Conn = s, pp_peer = peer, pp_cfg = cfg, pp_done = False, pp_err = None, pp_remote = NilAddr,
      pp_buf = [], pp_closed = False\<rparr>"

definition fill :: "nat \<Rightarrow> proxy_conn \<Rightarrow> conn_err option \<times> proxy_conn" where
  "fill n c =
     (if maxProxyProtoHeader < n then (Some (ErrProxyHeader ''length''), c)
      else case read_loop n (pp_buf c) (pp_Conn c) of
        (buf, e, s) \<Rightarrow> (e, c\<lparr>pp_buf := buf, pp_Conn := s\<rparr>))"

definition valid_port :: "string \<Rightarrow> bool" where
  "valid_port s = (case Atoi s of None \<Rightarrow> False | Some p \<Rightarrow> 0 \<le> p \<and> p \<le> 65535)"

text \<open>\<open>Inr None\<close> is the UNKNOWN transport: the sender names no address.\<close>

definition parseProxyV1Line :: "string \<Rightarrow> conn_err + net_addr option" where
  "parseProxyV1Line line =
     (let f = split_on (CHR '' '') line in
      if length f < 2 \<or> f ! 0 \<noteq> ''PROXY'' then Inl (ErrProxyHeader ''malformed header'')
      else if f ! 1 = ''UNKNOWN'' then Inr None
      else if length f \<noteq> 6 then Inl (ErrProxyHeader ''fields'')
      else case ParseIP (f ! 2) of
        None \<Rightarrow> Inl (ErrProxyHeader ''source address'')
      | Some i \<Rightarrow>
          if f ! 1 = ''TCP4'' \<and> To4 i = None then Inl (ErrProxyHeader ''TCP4 source'')
          else if f ! 1 = ''TCP6'' \<and> CHR ''.'' \<in> set (f ! 2) then Inl (ErrProxyHeader ''TCP6 source'')
          else if f ! 1 \<noteq> ''TCP4'' \<and> f ! 1 \<noteq> ''TCP6'' then Inl (ErrProxyHeader ''transport'')
          else if ParseIP (f ! 3) = None then Inl (ErrProxyHeader ''destination address'')
          else if \<not> valid_port (f ! 4) then Inl (ErrProxyHeader ''source port'')
          else if \<not> valid_port (f ! 5) then Inl (ErrProxyHeader ''destination port'')
          else Inr (map_option (TCPAddr (Some i)) (Atoi (f ! 4))))"

function v1_loop :: "nat \<Rightarrow> proxy_conn \<Rightarrow> conn_err option \<times> proxy_conn" where
  "v1_loop n c =
     (if maxProxyProtoV1 < n then (Some (ErrProxyHeader ''no CRLF''), c)
      else case fill n c of (e, c1) \<Rightarrow>
        (case e of Some err \<Rightarrow> (Some err, c1)
         | None \<Rightarrow>
             if pp_buf c1 ! (n - 2) \<noteq> 13 \<or> pp_buf c1 ! (n - 1) \<noteq> 10 then v1_loop (Suc n) c1
             else let line = byte_string (take (n - 2) (pp_buf c1)); c2 = c1\<lparr>pp_buf := drop n (pp_buf c1)\<rparr>
                  in case parseProxyV1Line line of
                       Inl err \<Rightarrow> (Some err, c2)
                     | Inr None \<Rightarrow> (None, c2)
                     | Inr (Some addr) \<Rightarrow> (None, c2\<lparr>pp_remote := addr\<rparr>)))"
  by pat_completeness auto

termination v1_loop
  by (relation "measure (\<lambda>(n, c). Suc maxProxyProtoV1 - n)") auto

declare v1_loop.simps [simp del]

definition readV1 :: "proxy_conn \<Rightarrow> conn_err option \<times> proxy_conn" where
  "readV1 c = v1_loop (length v1Prefix + 2) c"

text \<open>The address a version 2 address block asserts, by its family byte.\<close>

definition v2_address :: "byte \<Rightarrow> byte list \<Rightarrow> conn_err + net_addr option" where
  "v2_address family body =
     (if family = 0x00 then Inr None
      else if family = 0x11 \<or> family = 0x12 then
        (if length body < 12 then Inl (ErrProxyHeader ''IPv4 block truncated'')
         else Inr (Some (TCPAddr (Some (take 4 body)) (int (Uint16 (drop 8 body))))))
      else if family = 0x21 \<or> family = 0x22 then
        (if length body < 36 then Inl (ErrProxyHeader ''IPv6 block truncated'')
         else Inr (Some (TCPAddr (Some (take 16 body)) (int (Uint16 (drop 32 body))))))
      else Inl (ErrProxyHeader ''address family''))"

definition readV2 :: "proxy_conn \<Rightarrow> conn_err option \<times> proxy_conn" where
  "readV2 c =
     (case fill 16 c of (e1, c1) \<Rightarrow>
       (case e1 of Some err \<Rightarrow> (Some err, c1)
        | None \<Rightarrow>
          (let verCmd = pp_buf c1 ! 12; family = pp_buf c1 ! 13; len = Uint16 (drop 14 (pp_buf c1)) in
           if drop_bit 4 verCmd \<noteq> 2 then (Some (ErrProxyHeader ''version''), c1)
           else case fill (16 + len) c1 of (e2, c2) \<Rightarrow>
             (case e2 of Some err \<Rightarrow> (Some err, c2)
              | None \<Rightarrow>
                (let body = take len (drop 16 (pp_buf c2)); c3 = c2\<lparr>pp_buf := drop (16 + len) (pp_buf c2)\<rparr> in
                 if verCmd AND 0x0f = 0 then (None, c3)
                 else if verCmd AND 0x0f \<noteq> 1 then (Some (ErrProxyHeader ''command''), c3)
                 else case v2_address family body of
                   Inl err \<Rightarrow> (Some err, c3)
                 | Inr None \<Rightarrow> (None, c3)
                 | Inr (Some addr) \<Rightarrow> (None, c3\<lparr>pp_remote := addr\<rparr>))))))"

definition peer_trusted :: "proxy_conn \<Rightarrow> bool" where
  "peer_trusted c = (case addrIP (pp_peer c) of None \<Rightarrow> False | Some p \<Rightarrow> InNets p (ppc_trusted (pp_cfg c)))"

definition readHeader :: "proxy_conn \<Rightarrow> warn_sets \<Rightarrow> conn_err option \<times> proxy_conn \<times> warn_sets" where
  "readHeader c w =
     (let key = peerKey (addrIP (pp_peer c)) in
      if \<not> peer_trusted c then
        (None, c, w\<lparr>untrustedProxyPeers := snd (warn_first key (untrustedProxyPeers w))\<rparr>)
      else case fill (length v2Signature) c of (e, c1) \<Rightarrow>
        (case e of Some err \<Rightarrow> (Some err, c1, w)
         | None \<Rightarrow>
             if take (length v2Signature) (pp_buf c1) = v2Signature then (case readV2 c1 of (e2, c2) \<Rightarrow> (e2, c2, w))
             else if prefix v1Prefix (pp_buf c1) then (case readV1 c1 of (e2, c2) \<Rightarrow> (e2, c2, w))
             else (None, c1, w\<lparr>headerlessProxyPeers := snd (warn_first key (headerlessProxyPeers w))\<rparr>)))"

definition header :: "proxy_conn \<Rightarrow> warn_sets \<Rightarrow> conn_err option \<times> proxy_conn \<times> warn_sets" where
  "header c w =
     (if pp_done c then (pp_err c, c, w)
      else case readHeader (c\<lparr>pp_remote := pp_peer c\<rparr>) w of
        (e, c1, w1) \<Rightarrow> (e, c1\<lparr>pp_done := True, pp_err := e, pp_closed := pp_closed c1 \<or> e \<noteq> None\<rparr>, w1))"

definition pp_Read :: "nat \<Rightarrow> proxy_conn \<Rightarrow> warn_sets \<Rightarrow> (byte list \<times> conn_err option) \<times> proxy_conn \<times> warn_sets" where
  "pp_Read k c w =
     (case header c w of (e, c1, w1) \<Rightarrow>
       (case e of Some err \<Rightarrow> (([], Some err), c1, w1)
        | None \<Rightarrow>
            if pp_buf c1 \<noteq> [] then ((take k (pp_buf c1), None), c1\<lparr>pp_buf := drop k (pp_buf c1)\<rparr>, w1)
            else (case conn_Read k (pp_Conn c1) of (r, s) \<Rightarrow> (r, c1\<lparr>pp_Conn := s\<rparr>, w1))))"

definition pp_RemoteAddr :: "proxy_conn \<Rightarrow> warn_sets \<Rightarrow> net_addr \<times> proxy_conn \<times> warn_sets" where
  "pp_RemoteAddr c w =
     (case header c w of (e, c1, w1) \<Rightarrow> (if e = None then pp_remote c1 else pp_peer c1, c1, w1))"

text \<open>The bytes a connection still has to deliver to its reader.\<close>

definition payload :: "proxy_conn \<Rightarrow> byte list" where
  "payload c = pp_buf c @ unread (pp_Conn c)"

section \<open>Filling the buffer\<close>

interpretation header_reader: exact_reader
  "bounded_read maxProxyProtoHeader (ErrProxyHeader ''length'')" maxProxyProtoHeader
  by (rule bounded_read_exact)

lemma fill_bounded:
  "fill n c = (case bounded_read maxProxyProtoHeader (ErrProxyHeader ''length'') (pp_Conn c) (pp_buf c) n of
     (buf, e, s) \<Rightarrow> (e, c\<lparr>pp_buf := buf, pp_Conn := s\<rparr>))"
  by (simp add: fill_def bounded_read_def)

text \<open>Two states of one connection between which only the buffer and the socket moved, the bytes to
  come being the same.\<close>

definition same_stream :: "proxy_conn \<Rightarrow> proxy_conn \<Rightarrow> bool" where
  "same_stream c c' \<longleftrightarrow> pp_peer c' = pp_peer c \<and> pp_cfg c' = pp_cfg c \<and> pp_remote c' = pp_remote c \<and>
     pp_done c' = pp_done c \<and> pp_err c' = pp_err c \<and> pp_closed c' = pp_closed c \<and> payload c' = payload c"

lemma same_stream_trans: "same_stream c c1 \<Longrightarrow> same_stream c1 c2 \<Longrightarrow> same_stream c c2"
  by (simp add: same_stream_def)

lemma fill_same: "fill n c = (e, c') \<Longrightarrow> same_stream c c'"
  using header_reader.rd_conserves [of "pp_Conn c" "pp_buf c" n]
  by (auto simp: fill_bounded same_stream_def payload_def split: prod.splits)

lemma fill_buf:
  "fill n c = (e, c') \<Longrightarrow> length (pp_buf c) \<le> maxProxyProtoHeader \<Longrightarrow> length (pp_buf c') \<le> maxProxyProtoHeader"
  using header_reader.rd_bounded [of "pp_Conn c" "pp_buf c" n] by (auto simp: fill_bounded split: prod.splits)

lemma fill_enough: "fill n c = (None, c') \<Longrightarrow> n \<le> length (pp_buf c')"
  using read_loop_length [of n "pp_buf c" "pp_Conn c"] by (auto simp: fill_def split: prod.splits if_splits)

lemma fill_avail:
  assumes "n \<le> length (pp_buf c @ avail (pp_Conn c))" "n \<le> maxProxyProtoHeader"
  obtains c' where "fill n c = (None, c')" "same_stream c c'"
    "pp_buf c' @ avail (pp_Conn c') = pp_buf c @ avail (pp_Conn c)" "length (pp_buf c') = max n (length (pp_buf c))"
proof (cases "length (pp_buf c) \<le> n")
  case True
  obtain s where "bounded_read maxProxyProtoHeader (ErrProxyHeader ''length'') (pp_Conn c) (pp_buf c) n =
      (pp_buf c @ take (n - length (pp_buf c)) (avail (pp_Conn c)), None, s)"
    "avail s = drop (n - length (pp_buf c)) (avail (pp_Conn c))"
    using header_reader.rd_avail [of "pp_buf c" n "pp_Conn c"] True assms by force
  with True assms(1) that fill_same [of n c None] show thesis
    by (auto simp: fill_bounded max_absorb1 min_absorb2 le_diff_conv2)
next
  case False
  then have "fill n c = (None, c)" using assms(2) by (simp add: fill_def read_loop.simps)
  with False that fill_same [of n c None c] show thesis by (auto simp: max_def)
qed

section \<open>What a header can change\<close>

text \<open>Parsing removes a bounded prefix of the stream and may set the remote address; nothing else.\<close>

definition strips :: "proxy_conn \<Rightarrow> proxy_conn \<Rightarrow> bool" where
  "strips c c' \<longleftrightarrow> pp_peer c' = pp_peer c \<and> pp_cfg c' = pp_cfg c \<and> pp_closed c' = pp_closed c \<and>
     (\<exists>hdr. length hdr \<le> maxProxyProtoHeader \<and> payload c = hdr @ payload c')"

lemma strips_same: "same_stream c c' \<Longrightarrow> strips c c'"
  by (simp add: strips_def same_stream_def)

lemma strips_trans_same: "same_stream c c1 \<Longrightarrow> strips c1 c' \<Longrightarrow> strips c c'"
  by (simp add: strips_def same_stream_def)

lemma strips_drop:
  "same_stream c c1 \<Longrightarrow> n \<le> maxProxyProtoHeader \<Longrightarrow> strips c (c1\<lparr>pp_buf := drop n (pp_buf c1), pp_remote := a\<rparr>)"
  by (simp add: strips_def same_stream_def payload_def)
    (metis append.assoc append_take_drop_id le_trans length_take min.cobounded2)

lemma strips_drop0:
  "same_stream c c1 \<Longrightarrow> n \<le> maxProxyProtoHeader \<Longrightarrow> strips c (c1\<lparr>pp_buf := drop n (pp_buf c1)\<rparr>)"
  using strips_drop [of c c1 n "pp_remote c1"] by (simp add: strips_def payload_def)

lemma v1_loop_strips: "v1_loop n c = (e, c') \<Longrightarrow> strips c c'"
proof (induction n c rule: v1_loop.induct)
  case (1 n c)
  obtain e1 c1 where f: "fill n c = (e1, c1)" by (cases "fill n c")
  note s = fill_same [OF f]
  have lim: "n \<le> maxProxyProtoHeader" if "\<not> maxProxyProtoV1 < n"
    using that by (simp add: maxProxyProtoHeader_def maxProxyProtoV1_def)
  show ?case
  proof (cases "\<not> maxProxyProtoV1 < n \<and> e1 = None \<and> (pp_buf c1 ! (n - 2) \<noteq> 13 \<or> pp_buf c1 ! (n - 1) \<noteq> 10)")
    case True
    with 1(2) f have "v1_loop (Suc n) c1 = (e, c')" by (simp add: v1_loop.simps [of n c])
    with True f 1(1) s show ?thesis by (simp add: strips_trans_same)
  next
    case False
    with 1(2) f s lim show ?thesis
      by (auto simp: v1_loop.simps [of n c] Let_def strips_same strips_drop strips_drop0
        split: if_splits option.splits sum.splits) (auto simp: same_stream_def strips_def)
  qed
qed

lemma readV2_strips: "readV2 c = (e, c') \<Longrightarrow> strips c c'"
proof -
  assume r: "readV2 c = (e, c')"
  obtain e1 c1 where f1: "fill 16 c = (e1, c1)" by (cases "fill 16 c")
  define len where "len = Uint16 (drop 14 (pp_buf c1))"
  obtain e2 c2 where f2: "fill (16 + len) c1 = (e2, c2)" by (cases "fill (16 + len) c1")
  have lim: "16 + len \<le> maxProxyProtoHeader"
    using Uint16_less [of "drop 14 (pp_buf c1)"] by (simp add: len_def maxProxyProtoHeader_def)
  note s1 = fill_same [OF f1] and s2 = fill_same [OF f2]
  note s12 = same_stream_trans [OF s1 s2]
  show ?thesis
    using r f1 f2 strips_same [OF s1] strips_same [OF s12] strips_drop [OF s12 lim] strips_drop0 [OF s12 lim]
    by (auto simp: readV2_def Let_def len_def [symmetric] split: if_splits option.splits sum.splits)
qed


lemma readHeader_strips:
  assumes "readHeader c w = (e, c', w')"
  shows "strips c c'" "\<not> peer_trusted c \<Longrightarrow> e = None \<and> c' = c"
proof -
  obtain e1 c1 where f: "fill (length v2Signature) c = (e1, c1)" by (cases "fill (length v2Signature) c")
  show "strips c c'"
    using assms f strips_same [of c c] strips_same [OF fill_same [OF f]] strips_trans_same [OF fill_same [OF f]]
      readV2_strips [of c1] v1_loop_strips [of "length v1Prefix + 2" c1]
    by (auto simp: readHeader_def readV1_def Let_def same_stream_def split: if_splits option.splits prod.splits)
  show "e = None \<and> c' = c" if "\<not> peer_trusted c"
    using assms that by (simp add: readHeader_def Let_def)
qed

lemma header_once: "header c w = (e, c', w') \<Longrightarrow> header c' v = (e, c', v)"
  by (auto simp: header_def split: prod.splits if_splits)

lemma trusted_in_settings:
  assumes "compileProxyProtocol (Some p) = Some cfg" "InNets a (ppc_trusted cfg)"
  shows "pps_Enabled p \<and> (\<exists>cidr n. cidr \<in> set (pps_TrustedCIDRs p) \<and> ParseNet cidr = Some n \<and> net_contains n a)"
proof -
  have "InNets a ns \<Longrightarrow> \<exists>n \<in> set ns. net_contains n a" for ns
    by (induction ns) (auto split: if_splits)
  then show ?thesis
    using assms by (fastforce simp: compileProxyProtocol_def List.map_filter_def Let_def split: if_splits)
qed


section \<open>Headers as the protocol writes them\<close>

text \<open>A version 2 header: signature, version and command, family, and the address block with its length.\<close>

definition v2_header :: "byte \<Rightarrow> byte \<Rightarrow> byte list \<Rightarrow> byte list" where
  "v2_header verCmd family body = v2Signature @ [verCmd, family] @ vec16 body"

definition v1_header :: "string \<Rightarrow> byte list" where
  "v1_header line = string_bytes line @ [13, 10]"

lemma byte_string_inverse [simp]: "byte_string (string_bytes s) = s"
  by (induction s) (simp_all add: byte_string_def string_bytes_def unat_byte byte_of_less, simp add: byte_of_def)

lemma length_string_bytes [simp]: "length (string_bytes s) = length s"
  by (simp add: string_bytes_def)

lemma string_bytes_append: "string_bytes (s @ t) = string_bytes s @ string_bytes t"
  by (simp add: string_bytes_def)

lemma CR_string_bytes: "CHR 0x0D \<notin> set s \<Longrightarrow> 13 \<notin> set (string_bytes s)"
proof
  assume no: "CHR 0x0D \<notin> set s" and "13 \<in> set (string_bytes s)"
  then obtain c where c: "c \<in> set s" "word_of_nat (byte_of c) = (13 :: byte)" by (auto simp: string_bytes_def)
  then have "byte_of c = 13" using unat_byte [OF byte_of_less [of c]] unfolding c(2) by simp
  then have "c = CHR 0x0D" by (simp add: byte_of_eq) (simp add: byte_of_def)
  with c(1) no show False by simp
qed

text \<open>A line the parser accepts begins with the fixed prefix and is at least ten bytes long.\<close>

lemma parsed_line_shape:
  assumes "parseProxyV1Line line = Inr a"
  shows "prefix ''PROXY '' line" "10 \<le> length line"
proof -
  define f where "f = split_on (CHR '' '') line"
  have f: "2 \<le> length f" "f ! 0 = ''PROXY''" "f ! 1 = ''UNKNOWN'' \<or> f ! 1 = ''TCP4'' \<or> f ! 1 = ''TCP6''"
    using assms by (auto simp: parseProxyV1Line_def f_def [symmetric] Let_def split: if_splits option.splits)
  then obtain t r where r: "f = ''PROXY'' # t # r" by (cases f; cases "tl f") auto
  have "line = join_with '' '' f" using join_split_on [of "CHR '' ''" line] f_def by simp
  then have "line = ''PROXY '' @ join_with '' '' (t # r)" by (simp add: r)
  moreover have "length t \<le> length (join_with '' '' (t # r))" by (cases r) auto
  moreover have "4 \<le> length t" using f(3) r by auto
  ultimately show "prefix ''PROXY '' line" "10 \<le> length line" by (auto simp: prefix_def)
qed

lemma v1_loop_finds:
  "13 \<notin> set L \<Longrightarrow> length L + 2 \<le> maxProxyProtoV1 \<Longrightarrow> 2 \<le> n \<Longrightarrow> n \<le> length L + 2 \<Longrightarrow>
   pp_buf c @ avail (pp_Conn c) = L @ [13, 10] @ rest \<Longrightarrow> length (pp_buf c) \<le> length L + 2 \<Longrightarrow>
   parseProxyV1Line (byte_string L) = Inr a \<Longrightarrow>
   \<exists>c'. v1_loop n c = (None, c') \<and> pp_remote c' = (case a of None \<Rightarrow> pp_remote c | Some x \<Rightarrow> x) \<and>
        pp_buf c' = [] \<and> avail (pp_Conn c') = rest"
proof (induction n c rule: v1_loop.induct)
  case (1 n c)
  let ?all = "L @ [13, 10] @ rest"
  have n: "\<not> maxProxyProtoV1 < n" "n \<le> maxProxyProtoHeader"
    using 1(3,5) by (simp_all add: maxProxyProtoHeader_def maxProxyProtoV1_def)
  have "n \<le> length (pp_buf c @ avail (pp_Conn c))" using 1(5,6) by simp
  then obtain c1 where f: "fill n c = (None, c1)" and s: "same_stream c c1"
    and all: "pp_buf c1 @ avail (pp_Conn c1) = ?all" and len: "length (pp_buf c1) = max n (length (pp_buf c))"
    using n(2) 1(6) by (metis fill_avail)
  have at: "pp_buf c1 ! i = ?all ! i" if "i < n" for i
    unfolding all [symmetric] using that len by (simp add: nth_append less_max_iff_disj)
  show ?case
  proof (cases "n = length L + 2")
    case True
    then have "length (pp_buf c1) = length L + 2" using len 1(7) by simp
    then have buf: "pp_buf c1 = L @ [13, 10]" "avail (pp_Conn c1) = rest"
      using all append_eq_append_conv [of "pp_buf c1" "L @ [13, 10]" "avail (pp_Conn c1)" rest] by simp_all
    then show ?thesis unfolding v1_loop.simps [of n c] using f n(1) True 1(8) s
      by (cases a) (simp_all add: Let_def nth_append same_stream_def)
  next
    case False
    have "n - 2 < length L" using False 1(4,5) by simp
    then have "pp_buf c1 ! (n - 2) \<noteq> 13" using at [of "n - 2"] 1(2,4) by (simp add: nth_append) (metis nth_mem)
    moreover have "\<exists>c'. v1_loop (Suc n) c1 = (None, c') \<and> pp_remote c' = (case a of None \<Rightarrow> pp_remote c1 | Some x \<Rightarrow> x) \<and>
        pp_buf c' = [] \<and> avail (pp_Conn c') = rest"
      using calculation False len 1(4,5,7) all 1(8)
      by (intro 1(1) [OF n(1) f [symmetric] refl _ 1(2,3)]) simp_all
    moreover have "pp_remote c1 = pp_remote c" using s by (simp add: same_stream_def)
    ultimately show ?thesis using f n(1) by (cases a) (simp_all add: v1_loop.simps [of n c])
  qed
qed

lemma readV1_finds:
  assumes "parseProxyV1Line line = Inr a" "CHR 0x0D \<notin> set line" "length line + 2 \<le> maxProxyProtoV1"
    and "pp_buf c @ avail (pp_Conn c) = v1_header line @ rest" "length (pp_buf c) = 12"
  shows "\<exists>c'. readV1 c = (None, c') \<and> pp_remote c' = (case a of None \<Rightarrow> pp_remote c | Some x \<Rightarrow> x) \<and>
           pp_buf c' = [] \<and> avail (pp_Conn c') = rest"
  unfolding readV1_def
  using assms parsed_line_shape(2) [OF assms(1)] CR_string_bytes [OF assms(2)]
  by (intro v1_loop_finds [of "string_bytes line"]) (simp_all add: v1_header_def v1Prefix_def)

lemma readV2_finds:
  assumes "pp_buf c @ avail (pp_Conn c) = v2_header 0x21 family body @ rest" "length (pp_buf c) = 12"
    and "length body < 65536" "v2_address family body = Inr a"
  shows "\<exists>c'. readV2 c = (None, c') \<and> pp_remote c' = (case a of None \<Rightarrow> pp_remote c | Some x \<Rightarrow> x) \<and>
           pp_buf c' = [] \<and> avail (pp_Conn c') = rest"
proof -
  let ?h = "v2Signature @ [0x21, family] @ PutUint16 (length body)"
  have sig: "length v2Signature = 12" by (simp add: v2Signature_def)
  have all: "pp_buf c @ avail (pp_Conn c) = ?h @ body @ rest" using assms(1) by (simp add: v2_header_def vec16_def)
  then have l1: "16 \<le> length (pp_buf c @ avail (pp_Conn c))" using sig by (simp only: length_append) simp
  obtain c1 where f1: "fill 16 c = (None, c1)" "same_stream c c1"
    "pp_buf c1 @ avail (pp_Conn c1) = ?h @ body @ rest" "length (pp_buf c1) = 16"
    using fill_avail [OF l1] assms(2) all by (auto simp: maxProxyProtoHeader_def)
  have b1: "pp_buf c1 = ?h" "avail (pp_Conn c1) = body @ rest"
    using f1(3,4) sig append_eq_append_conv [of "pp_buf c1" ?h] by simp_all
  have l2: "16 + length body \<le> length (pp_buf c1 @ avail (pp_Conn c1))" using b1 sig by simp
  obtain c2 where f2: "fill (16 + length body) c1 = (None, c2)" "same_stream c1 c2"
    "pp_buf c2 @ avail (pp_Conn c2) = (?h @ body) @ rest" "length (pp_buf c2) = 16 + length body"
    using fill_avail [OF l2] assms(3) b1 sig by (auto simp: maxProxyProtoHeader_def)
  have b2: "pp_buf c2 = ?h @ body" "avail (pp_Conn c2) = rest"
    using f2(3,4) sig append_eq_append_conv [of "pp_buf c2" "?h @ body"] by simp_all
  have hdr: "?h ! 12 = 0x21" "?h ! 13 = family" "Uint16 (drop 14 ?h) = length body"
    using assms(3) by (simp_all add: v2Signature_def)
  show ?thesis
    using f1(1,2) f2(1,2) b1 b2 hdr assms(4) sig
    by (cases a) (simp_all add: readV2_def Let_def same_stream_def)
qed


text \<open>The first twelve bytes of a header, which \<open>readHeader\<close> reads before it knows the version.\<close>

lemma first_bytes:
  assumes "peer_trusted c" "pp_buf c = []" "avail (pp_Conn c) = h @ rest" "12 \<le> length h"
  obtains c1 where "fill (length v2Signature) c = (None, c1)" "same_stream c c1"
    "pp_buf c1 @ avail (pp_Conn c1) = h @ rest" "length (pp_buf c1) = 12" "pp_buf c1 = take 12 h"
proof -
  have sig: "length v2Signature = 12" by (simp add: v2Signature_def)
  then have "length v2Signature \<le> length (pp_buf c @ avail (pp_Conn c))" "length v2Signature \<le> maxProxyProtoHeader"
    using assms(2-4) by (simp_all add: maxProxyProtoHeader_def)
  then obtain c1 where c1: "fill (length v2Signature) c = (None, c1)" "same_stream c c1"
    "pp_buf c1 @ avail (pp_Conn c1) = pp_buf c @ avail (pp_Conn c)" "length (pp_buf c1) = max (length v2Signature) (length (pp_buf c))"
    by (rule fill_avail)
  note c1 = c1(1,2) c1(3) [unfolded assms(2,3) append_Nil] c1(4) [unfolded assms(2) sig, simplified]
  have "pp_buf c1 = take 12 h"
    using arg_cong [OF c1(3), of "take 12"] c1(4) assms(4) by simp
  with c1 show thesis by (rule that)
qed

lemma trusted_header:
  assumes "peer_trusted (accept_conn cfg s peer)" "avail s = h @ rest" "12 \<le> length h"
    and "\<And>c. pp_buf c @ avail (pp_Conn c) = h @ rest \<Longrightarrow> length (pp_buf c) = 12 \<Longrightarrow>
      \<exists>c'. rd c = (None, c') \<and> pp_remote c' = (case a of None \<Rightarrow> pp_remote c | Some x \<Rightarrow> x) \<and>
           pp_buf c' = [] \<and> avail (pp_Conn c') = rest"
    and "rd = readV2 \<and> take 12 h = v2Signature \<or> rd = readV1 \<and> take 12 h \<noteq> v2Signature \<and> prefix v1Prefix (take 12 h)"
  shows "\<exists>c w'. pp_RemoteAddr (accept_conn cfg s peer) w = (case a of None \<Rightarrow> peer | Some x \<Rightarrow> x, c, w') \<and>
           pp_err c = None \<and> pp_buf c = [] \<and> avail (pp_Conn c) = rest"
proof -
  let ?c0 = "(accept_conn cfg s peer)\<lparr>pp_remote := peer\<rparr>"
  have t: "peer_trusted ?c0" using assms(1) by (cases "addrIP peer") (simp_all add: peer_trusted_def accept_conn_def)
  obtain c1 where c1: "fill (length v2Signature) ?c0 = (None, c1)" "same_stream ?c0 c1"
    "pp_buf c1 @ avail (pp_Conn c1) = h @ rest" "length (pp_buf c1) = 12" "pp_buf c1 = take 12 h"
    using first_bytes [OF t, of h rest] assms(2,3) by (auto simp: accept_conn_def)
  obtain c2 where c2: "rd c1 = (None, c2)" "pp_remote c2 = (case a of None \<Rightarrow> pp_remote c1 | Some x \<Rightarrow> x)"
    "pp_buf c2 = []" "avail (pp_Conn c2) = rest"
    using assms(4) [OF c1(3,4)] by blast
  have "length v2Signature = 12" by (simp add: v2Signature_def)
  then have "readHeader ?c0 w = (None, c2, w)"
    using assms(5) t c1 c2(1) by (auto simp: readHeader_def Let_def)
  moreover have "pp_remote c1 = peer" using c1(2) by (simp add: same_stream_def)
  ultimately show ?thesis using c2
    by (cases a) (simp_all add: pp_RemoteAddr_def header_def accept_conn_def)
qed

text \<open>A version 2 header from a trusted balancer takes effect whatever the reads deliver: the client
  address is the one the address block names (the peer's when it names none), and the first byte after
  the header, type-length-value trailer included, is the first byte of the payload.\<close>

theorem proxy_v2_roundtrip:
  assumes "peer_trusted (accept_conn cfg s peer)" "length body < 65536" "v2_address family body = Inr a"
    and "avail s = v2_header 0x21 family body @ rest"
  shows "\<exists>c w'. pp_RemoteAddr (accept_conn cfg s peer) w = (case a of None \<Rightarrow> peer | Some x \<Rightarrow> x, c, w') \<and>
           pp_err c = None \<and> pp_buf c = [] \<and> avail (pp_Conn c) = rest"
proof (rule trusted_header [OF assms(1,4), of readV2])
  show "12 \<le> length (v2_header 0x21 family body)" by (simp add: v2_header_def v2Signature_def)
  show "readV2 = readV2 \<and> take 12 (v2_header 0x21 family body) = v2Signature \<or>
    readV2 = readV1 \<and> take 12 (v2_header 0x21 family body) \<noteq> v2Signature \<and> prefix v1Prefix (take 12 (v2_header 0x21 family body))"
    by (simp add: v2_header_def v2Signature_def)
qed (rule readV2_finds [OF _ _ assms(2,3)])

lemma first_differs: "(80 :: byte) # x \<noteq> 13 # y"
  by simp

text \<open>A version 1 line that the parser accepts, sent by a trusted balancer with its CRLF within the 107
  bytes the protocol allows, sets the client address it names and leaves exactly the bytes after the
  CRLF as payload, however they are chunked.\<close>

theorem proxy_v1_roundtrip:
  assumes "peer_trusted (accept_conn cfg s peer)" "parseProxyV1Line line = Inr a"
    and "CHR 0x0D \<notin> set line" "length line + 2 \<le> maxProxyProtoV1" "avail s = v1_header line @ rest"
  shows "\<exists>c w'. pp_RemoteAddr (accept_conn cfg s peer) w = (case a of None \<Rightarrow> peer | Some x \<Rightarrow> x, c, w') \<and>
           pp_err c = None \<and> pp_buf c = [] \<and> avail (pp_Conn c) = rest"
proof (rule trusted_header [OF assms(1,5), of readV1])
  obtain z where z: "line = ''PROXY '' @ z" "4 \<le> length z"
    using parsed_line_shape [OF assms(2)] by (auto simp: prefix_def)
  have h: "v1_header line = v1Prefix @ string_bytes z @ [13, 10]"
    by (simp add: v1_header_def z(1) string_bytes_append v1Prefix_def del: append_Cons)
  have six: "length v1Prefix = 6" by (simp add: v1Prefix_def)
  have "take 12 (v1_header line) = v1Prefix @ take 6 (string_bytes z @ [13, 10])" by (simp add: h six)
  moreover have "v1Prefix = 80 # tl v1Prefix" "v2Signature = 13 # tl v2Signature"
    by (simp_all add: v1Prefix_def string_bytes_def byte_of_def v2Signature_def)
  then have "v1Prefix @ take 6 (string_bytes z @ [13, 10]) \<noteq> v2Signature" by (metis append_Cons first_differs)
  ultimately show "readV1 = readV2 \<and> take 12 (v1_header line) = v2Signature \<or>
      readV1 = readV1 \<and> take 12 (v1_header line) \<noteq> v2Signature \<and> prefix v1Prefix (take 12 (v1_header line))"
    by simp
  show "12 \<le> length (v1_header line)" using z(2) by (simp add: h six)
qed (rule readV1_finds [OF assms(2-4)])


section \<open>Witnesses\<close>

definition balancer_settings :: proxy_protocol_settings where
  "balancer_settings = \<lparr>pps_Enabled = True, pps_TrustedCIDRs = [''10.0.0.0/8''], pps_Timeout = []\<rparr>"

definition balancer_cfg :: proxy_proto_config where
  "balancer_cfg = \<lparr>ppc_trusted = [\<lparr>net_ip = [10, 0, 0, 0], net_mask = [255, 0, 0, 0]\<rparr>], ppc_timeout = 5000000000\<rparr>"

definition balancer :: net_addr where "balancer = TCPAddr (Some [10, 1, 2, 3]) 40000"

lemma balancer_trusted: "peer_trusted (accept_conn balancer_cfg s balancer)"
  by (simp add: peer_trusted_def accept_conn_def balancer_cfg_def balancer_def addrIP_def go_eval)

lemma balancer_compiled: "compileProxyProtocol (Some balancer_settings) = Some balancer_cfg"
proof -
  have "ParseNet ''10.0.0.0/8'' = Some \<lparr>net_ip = [10, 0, 0, 0], net_mask = [255, 0, 0, 0]\<rparr>" by code_simp
  then show ?thesis
    by (simp add: compileProxyProtocol_def balancer_settings_def balancer_cfg_def HeaderTimeout_def
      DefaultProxyProtocolTimeout_def List.map_filter_def)
qed

definition no_warnings :: warn_sets where
  "no_warnings = \<lparr>untrustedProxyPeers = [], headerlessProxyPeers = []\<rparr>"

theorem proxy_v2_roundtrip_witness:
  "\<exists>c w'. pp_RemoteAddr (accept_conn balancer_cfg [(v2_header 0x21 0x11 [192, 0, 2, 7, 10, 0, 0, 1, 200, 0, 1, 187], None), ([5], None)] balancer) no_warnings =
     (TCPAddr (Some [192, 0, 2, 7]) 51200, c, w') \<and> pp_err c = None \<and> pp_buf c = [] \<and> avail (pp_Conn c) = [5]"
  using proxy_v2_roundtrip [OF balancer_trusted, of "[192, 0, 2, 7, 10, 0, 0, 1, 200, 0, 1, 187]" "0x11"
      "Some (TCPAddr (Some [192, 0, 2, 7]) 51200)" _ "[5]"]
  by (simp add: v2_address_def Uint16_def)

lemma v1_sample_line:
  "parseProxyV1Line ''PROXY TCP4 192.0.2.7 10.0.0.1 51200 443'' = Inr (Some (TCPAddr (Some (v4InV6Prefix @ [192, 0, 2, 7])) 51200))"
proof -
  have ip: "ParseIP ''192.0.2.7'' = Some (v4InV6Prefix @ [192, 0, 2, 7])" "ParseIP ''10.0.0.1'' \<noteq> None"
    "To4 (v4InV6Prefix @ [192, 0, 2, 7]) \<noteq> None"
    by code_simp+
  have port: "Atoi ''51200'' = Some 51200" "Atoi ''443'' = Some 443"
    by (simp_all add: Atoi_def all_digits_def digits_val_def is_digit_def digit_val_def byte_of_def)
  show ?thesis using ip by (auto simp: parseProxyV1Line_def valid_port_def port Let_def)
qed

theorem proxy_v1_roundtrip_witness:
  "\<exists>c w'. pp_RemoteAddr (accept_conn balancer_cfg [(v1_header ''PROXY TCP4 192.0.2.7 10.0.0.1 51200 443'', None), ([5], None)] balancer) no_warnings =
     (TCPAddr (Some (v4InV6Prefix @ [192, 0, 2, 7])) 51200, c, w') \<and> pp_err c = None \<and> pp_buf c = [] \<and> avail (pp_Conn c) = [5]"
  using proxy_v1_roundtrip [OF balancer_trusted v1_sample_line, of "[(v1_header ''PROXY TCP4 192.0.2.7 10.0.0.1 51200 443'', None), ([5], None)]" "[5]"]
  by (simp add: maxProxyProtoV1_def)

definition outsider :: net_addr where "outsider = TCPAddr (Some [203, 0, 113, 9]) 50000"


end
