(* ===== verification/Stream_Host.thy ===== *)
theory Stream_Host
  imports Proxy_Proto Config_Validate
begin

text \<open>
  Raw TCP and UDP forwarding: \<open>dataplane/cert.go\<close> (the SNI certificate table a terminating listener
  draws from) and \<open>dataplane/streamhost.go\<close> (route tables, the TCP handler up to the point where bytes
  are copied, the listener reconciliation and the UDP session table).

  A certificate with its key is an opaque value of type \<open>'k\<close>; reading a key pair from disk
  (\<open>tls.LoadX509KeyPair\<close>) and looking a file up (\<open>os.Stat\<close>) are arguments. A compiled target carries
  no functions: the geo database is an argument of the handlers, since the code asks it at the time of
  the connection. Binding a port and dialling a backend are arguments too.
\<close>

section \<open>Certificates by server name\<close>

record 'k cert_resolver =
  cr_exact :: "string \<rightharpoonup> 'k"
  cr_wildcard :: "string \<rightharpoonup> 'k"

fun cert_add :: "string list \<Rightarrow> 'k \<Rightarrow> 'k cert_resolver \<Rightarrow> 'k cert_resolver" where
  "cert_add [] crt r = r"
| "cert_add (d0 # ds) crt r =
     (let d = ToLower (TrimSpace d0) in
      cert_add ds crt
        (if prefix ''*.'' d then r\<lparr>cr_wildcard := (cr_wildcard r)(drop 2 d \<mapsto> crt)\<rparr>
         else r\<lparr>cr_exact := (cr_exact r)(d \<mapsto> crt)\<rparr>))"

definition GetCertificate :: "'k cert_resolver \<Rightarrow> string \<Rightarrow> 'k option" where
  "GetCertificate r serverName =
     (let name = ToLower (TrimSpace serverName) in
      if name = [] then None
      else case cr_exact r name of
        Some crt \<Rightarrow> Some crt
      | None \<Rightarrow> if CHR ''.'' \<in> set name then cr_wildcard r (after (CHR ''.'') name) else None)"

text \<open>The files of a certificate: its own paths, or the artifacts an ACME issuance leaves.\<close>

record 'k cert_files =
  stat_ok :: "string \<Rightarrow> bool"
  load_pair :: "string \<Rightarrow> string \<Rightarrow> 'k option"
  issued_cert :: "string \<Rightarrow> string"
  issued_key :: "string \<Rightarrow> string"

definition CertTypeCustom :: string where "CertTypeCustom = ''custom''"
definition CertTypeACME :: string where "CertTypeACME = ''acme''"

fun buildCertResolver :: "'k cert_files \<Rightarrow> certificate list \<Rightarrow> 'k cert_resolver \<Rightarrow> string + 'k cert_resolver" where
  "buildCertResolver fs [] r = Inr r"
| "buildCertResolver fs (c # cs) r =
     (let load = (\<lambda>cf kf. case load_pair fs cf kf of
                     None \<Rightarrow> Inl (cert_Name c)
                   | Some crt \<Rightarrow> buildCertResolver fs cs (cert_add (cert_Domains c) crt r))
      in if cert_Disabled c then buildCertResolver fs cs r
         else if cert_Type c = CertTypeCustom then
           (case cert_Custom c of None \<Rightarrow> buildCertResolver fs cs r | Some (cf, kf) \<Rightarrow> load cf kf)
         else if cert_Type c = CertTypeACME then
           (if \<not> stat_ok fs (issued_cert fs (cert_Name c)) then buildCertResolver fs cs r
            else load (issued_cert fs (cert_Name c)) (issued_key fs (cert_Name c)))
         else buildCertResolver fs cs r)"

section \<open>Targets and route tables\<close>

definition StreamTLSPassthrough :: string where "StreamTLSPassthrough = ''passthrough''"
definition StreamTLSTerminate :: string where "StreamTLSTerminate = ''terminate''"

record 'k stream_target =
  tg_name :: string
  tg_addr :: string
  tg_acls :: "access_list list"
  tg_tlsMode :: string
  tg_tlsConf :: "'k option"

definition allowIP :: "access_list \<Rightarrow> ip option \<Rightarrow> geo_lookup \<Rightarrow> bool option \<Rightarrow> bool" where
  "allowIP c i geoLookup geoLoaded =
     (if \<not> hasIP c \<and> \<not> hasGeo c then \<not> explicitDeny c else ipAllowed c i geoLookup geoLoaded)"

definition target_allow :: "'k stream_target \<Rightarrow> ip option \<Rightarrow> geo_lookup \<Rightarrow> bool option \<Rightarrow> bool" where
  "target_allow t i geoLookup geoLoaded = list_all (\<lambda>al. allowIP al i geoLookup geoLoaded) (tg_acls t)"

record 'k stream_routes =
  rs_sni :: bool
  rs_def :: "'k stream_target option"
  rs_exact :: "string \<rightharpoonup> 'k stream_target"
  rs_wild :: "(string \<times> 'k stream_target) list"

definition no_routes :: "'k stream_routes" where
  "no_routes = \<lparr>rs_sni = False, rs_def = None, rs_exact = Map.empty, rs_wild = []\<rparr>"

definition wild_covers :: "string \<Rightarrow> string \<Rightarrow> bool" where
  "wild_covers name suf \<longleftrightarrow> suffix suf name \<and> TrimSuffix name suf \<noteq> [] \<and> CHR ''.'' \<notin> set (TrimSuffix name suf)"

definition routes_match :: "'k stream_routes \<Rightarrow> string \<Rightarrow> 'k stream_target option" where
  "routes_match rs name =
     (if \<not> rs_sni rs then rs_def rs
      else if name = [] then None
      else case rs_exact rs name of
        Some t \<Rightarrow> Some t
      | None \<Rightarrow> map_option snd (find (\<lambda>w. wild_covers name (fst w)) (rs_wild rs)))"

text \<open>The names of an SNI host, filed one after the other; the first claim of an exact name stays.\<close>

fun add_names :: "'k stream_target \<Rightarrow> string list \<Rightarrow> 'k stream_routes \<Rightarrow> 'k stream_routes" where
  "add_names t [] rs = rs"
| "add_names t (n # ns) rs =
     add_names t ns
       (if prefix ''*.'' n then rs\<lparr>rs_wild := rs_wild rs @ [(drop 1 n, t)]\<rparr>
        else if rs_exact rs n \<noteq> None then rs
        else rs\<lparr>rs_exact := (rs_exact rs)(n \<mapsto> t)\<rparr>)"

type_synonym 'k tcp_ports = "int \<rightharpoonup> 'k stream_routes"

definition addStreamRoute :: "'k tcp_ports \<Rightarrow> stream_host \<Rightarrow> 'k stream_target \<Rightarrow> 'k tcp_ports" where
  "addStreamRoute ports h t =
     (let names = SNINames h;
          rs = (case ports (ListenPort h) of Some rs \<Rightarrow> rs | None \<Rightarrow> no_routes)
      in ports(ListenPort h \<mapsto>
           (if names = [] then (if rs_sni rs \<or> rs_def rs \<noteq> None then rs else rs\<lparr>rs_def := Some t\<rparr>)
            else if rs_def rs \<noteq> None then rs
            else add_names t names (rs\<lparr>rs_sni := True\<rparr>))))"

text \<open>The certificate of a terminating host: the first of its name, which has to be enabled and to have a
  domain that resolves.\<close>

definition streamTerminateConfig :: "string \<Rightarrow> certificate list \<Rightarrow> 'k cert_resolver option \<Rightarrow> 'k option" where
  "streamTerminateConfig certRef certs res =
     (case res of None \<Rightarrow> None
      | Some r \<Rightarrow>
          (case find (\<lambda>c. cert_Name c = certRef) certs of
             None \<Rightarrow> None
           | Some c \<Rightarrow>
               if cert_Disabled c then None
               else (case cert_Domains c of [] \<Rightarrow> None | d # ds \<Rightarrow> GetCertificate r d)))"

definition Itoa :: "int \<Rightarrow> string" where
  "Itoa i = (if 0 \<le> i then itoa (nat i) else CHR ''-'' # itoa (nat (- i)))"

text \<open>One host: its target, or \<^const>\<open>None\<close> when a list or the certificate cannot be resolved.\<close>

definition list_named :: "gpm_config \<Rightarrow> string \<Rightarrow> access_list_cfg option" where
  "list_named cfg name = map_of (rev (map (\<lambda>(a, src). (al_Name a, a)) (c_AccessLists cfg))) name"

definition compile_target ::
  "source_sets \<Rightarrow> gpm_config \<Rightarrow> 'k cert_resolver option \<Rightarrow> stream_host \<Rightarrow> 'k stream_target option" where
  "compile_target sources cfg certs h =
     (if list_ex (\<lambda>n. list_named cfg n = None) (sh_AccessLists h) then None
      else let t = \<lparr>tg_name = sh_SName h, tg_addr = JoinHostPort (Target_Host h) (Itoa (Target_Port h)),
                    tg_acls = map (\<lambda>n. compileAccessList sources (the (list_named cfg n))) (sh_AccessLists h),
                    tg_tlsMode = (case sh_TLS h of None \<Rightarrow> [] | Some s \<Rightarrow> st_Mode s), tg_tlsConf = None\<rparr>
           in case sh_TLS h of
             None \<Rightarrow> Some t
           | Some s \<Rightarrow>
               if st_Mode s = StreamTLSTerminate
               then map_option (\<lambda>k. t\<lparr>tg_tlsConf := Some k\<rparr>)
                      (streamTerminateConfig (st_CertificateRef s) (c_Certificates cfg) certs)
               else Some t)"

fun build_routes ::
  "source_sets \<Rightarrow> gpm_config \<Rightarrow> 'k cert_resolver option \<Rightarrow> stream_host list \<Rightarrow>
   'k tcp_ports \<times> (int \<rightharpoonup> 'k stream_target) \<Rightarrow> 'k tcp_ports \<times> (int \<rightharpoonup> 'k stream_target)" where
  "build_routes sources cfg certs [] (tcp, udp) = (tcp, udp)"
| "build_routes sources cfg certs (h # hs) (tcp, udp) =
     build_routes sources cfg certs hs
       (if sh_Disabled h then (tcp, udp)
        else case compile_target sources cfg certs h of
          None \<Rightarrow> (tcp, udp)
        | Some t \<Rightarrow>
            (if Protocol h = ''tcp'' \<or> Protocol h = ''both'' then addStreamRoute tcp h t else tcp,
             if Protocol h = ''udp'' \<or> Protocol h = ''both'' then udp(ListenPort h \<mapsto> t) else udp))"

definition buildStreamRoutes ::
  "source_sets \<Rightarrow> gpm_config \<Rightarrow> 'k cert_resolver option \<Rightarrow> 'k tcp_ports \<times> (int \<rightharpoonup> 'k stream_target)" where
  "buildStreamRoutes sources cfg certs = build_routes sources cfg certs (c_StreamHosts cfg) (Map.empty, Map.empty)"

section \<open>The TCP handler\<close>

text \<open>A client connection is the raw socket or one wrapped by the PROXY listener. \<open>client_open\<close> is
  \<open>RemoteAddr\<close> followed by what the connection's \<open>Read\<close> delivers from then on.\<close>

datatype client_conn = RawConn net_script net_addr | Wrapped proxy_conn

definition pp_script :: "proxy_conn \<Rightarrow> net_script" where
  "pp_script c =
     (case pp_err c of Some e \<Rightarrow> [([], Some e)]
      | None \<Rightarrow> if pp_buf c = [] then pp_Conn c else (pp_buf c, None) # pp_Conn c)"

definition client_open :: "client_conn \<Rightarrow> warn_sets \<Rightarrow> net_addr \<times> net_script \<times> warn_sets" where
  "client_open c w =
     (case c of RawConn s a \<Rightarrow> (a, s, w)
      | Wrapped p \<Rightarrow> (case pp_RemoteAddr p w of (a, p', w') \<Rightarrow> (a, pp_script p', w')))"

definition tcp_accept :: "proxy_proto_config option \<Rightarrow> net_script \<Rightarrow> net_addr \<Rightarrow> client_conn" where
  "tcp_accept cfg s peer = (case cfg of None \<Rightarrow> RawConn s peer | Some c \<Rightarrow> Wrapped (accept_conn c s peer))"

text \<open>What becomes of a connection: dropped without a backend, or forwarded: the target, whether TLS ends
  here, and the bytes the backend side reads.\<close>

datatype 'k tcp_outcome =
    NoRoute
  | Denied string
  | DialFailed string
  | Forward "'k stream_target" bool prefix_conn

definition gate_and_dial ::
  "(string \<Rightarrow> bool) \<Rightarrow> geo_lookup \<Rightarrow> bool option \<Rightarrow> 'k stream_target \<Rightarrow> ip option \<Rightarrow> byte list \<Rightarrow> net_script \<Rightarrow> 'k tcp_outcome" where
  "gate_and_dial dial geo loaded t clientIP raw s =
     (if \<not> target_allow t clientIP geo loaded then Denied (tg_name t)
      else if \<not> dial (tg_addr t) then DialFailed (tg_addr t)
      else Forward t (tg_tlsMode t = StreamTLSTerminate \<and> tg_tlsConf t \<noteq> None) \<lparr>pc_Conn = s, pc_prefix = raw\<rparr>)"

definition tcp_handle ::
  "(string \<Rightarrow> bool) \<Rightarrow> geo_lookup \<Rightarrow> bool option \<Rightarrow> 'k stream_routes option \<Rightarrow> client_conn \<Rightarrow> warn_sets \<Rightarrow>
   'k tcp_outcome \<times> warn_sets" where
  "tcp_handle dial geo loaded routes c w =
     (case routes of None \<Rightarrow> (NoRoute, w)
      | Some rs \<Rightarrow>
          (case client_open c w of (a, s, w') \<Rightarrow>
             (if rs_sni rs then
                (case peekClientHello s of (r, raw, s') \<Rightarrow>
                   (case r of Inl e \<Rightarrow> NoRoute
                    | Inr name \<Rightarrow>
                        (case routes_match rs name of
                           None \<Rightarrow> NoRoute
                         | Some t \<Rightarrow> gate_and_dial dial geo loaded t (addrIP a) raw s')))
              else (case rs_def rs of None \<Rightarrow> NoRoute | Some t \<Rightarrow> gate_and_dial dial geo loaded t (addrIP a) [] s),
              w')))"

section \<open>Reconciling the listeners\<close>

record 'k stream_manager =
  sm_tcp :: "int \<rightharpoonup> 'k stream_routes"
  sm_udp :: "int \<rightharpoonup> 'k stream_target"

text \<open>One port of \<open>reload\<close>: closed when no longer wanted, re-pointed when open, opened when it can be
  bound.\<close>

definition reload_port :: "(int \<Rightarrow> bool) \<Rightarrow> (int \<rightharpoonup> 'a) \<Rightarrow> (int \<rightharpoonup> 'a) \<Rightarrow> int \<rightharpoonup> 'a" where
  "reload_port bind want running port =
     (case want port of None \<Rightarrow> None
      | Some r \<Rightarrow> if running port \<noteq> None \<or> bind port then Some r else None)"

definition stream_reload ::
  "(int \<Rightarrow> bool) \<Rightarrow> (int \<Rightarrow> bool) \<Rightarrow> source_sets \<Rightarrow> gpm_config \<Rightarrow> 'k cert_resolver option \<Rightarrow> 'k stream_manager \<Rightarrow> 'k stream_manager" where
  "stream_reload bind_tcp bind_udp sources cfg certs m =
     (case buildStreamRoutes sources cfg certs of (tcp, udp) \<Rightarrow>
        \<lparr>sm_tcp = reload_port bind_tcp tcp (sm_tcp m), sm_udp = reload_port bind_udp udp (sm_udp m)\<rparr>)"

section \<open>Routes come from hosts\<close>

text \<open>After its header, a wrapped connection reads like the script \<^const>\<open>pp_script\<close> names.\<close>

lemma pp_Read_script:
  assumes "pp_done c" "pp_err c = None" "pp_Read k c w = ((m, e), c', w')"
  shows "conn_Read k (pp_script c) = ((m, e), pp_script c')" "pp_done c' \<and> pp_err c' = None"
  using assms by (auto simp: pp_Read_def header_def pp_script_def split: if_splits prod.splits)

lemma pp_script_unread: "pp_err c = None \<Longrightarrow> unread (pp_script c) = payload c"
  by (simp add: pp_script_def payload_def)

text \<open>Where an entry of a port's table comes from: an enabled host on that port that claims the name.\<close>

definition routed_by ::
  "source_sets \<Rightarrow> gpm_config \<Rightarrow> 'k cert_resolver option \<Rightarrow> stream_host set \<Rightarrow> int \<Rightarrow> 'k stream_target \<Rightarrow> stream_host \<Rightarrow> bool" where
  "routed_by sources cfg certs H p t h \<longleftrightarrow>
     h \<in> H \<and> on_tcp h \<and> ListenPort h = p \<and> compile_target sources cfg certs h = Some t"

definition table_ok ::
  "source_sets \<Rightarrow> gpm_config \<Rightarrow> 'k cert_resolver option \<Rightarrow> stream_host set \<Rightarrow> int \<Rightarrow> 'k stream_routes \<Rightarrow> bool" where
  "table_ok sources cfg certs H p rs \<longleftrightarrow>
     (\<forall>t. rs_def rs = Some t \<longrightarrow> (\<exists>h. routed_by sources cfg certs H p t h \<and> SNINames h = [])) \<and>
     (\<forall>n t. rs_exact rs n = Some t \<longrightarrow> (\<exists>h. routed_by sources cfg certs H p t h \<and> n \<in> set (SNINames h))) \<and>
     (\<forall>s t. (s, t) \<in> set (rs_wild rs) \<longrightarrow> (\<exists>h. routed_by sources cfg certs H p t h \<and> CHR ''*'' # s \<in> set (SNINames h)))"

lemma table_ok_empty [simp]: "table_ok sources cfg certs H p no_routes"
  by (simp add: table_ok_def no_routes_def)

lemma add_names_sni [simp]: "rs_sni (add_names t ns rs) = rs_sni rs" "rs_def (add_names t ns rs) = rs_def rs"
  by (induction ns arbitrary: rs) auto

lemma add_names_ok:
  "routed_by sources cfg certs H p t h \<Longrightarrow> set ns \<subseteq> set (SNINames h) \<Longrightarrow> table_ok sources cfg certs H p rs \<Longrightarrow>
     table_ok sources cfg certs H p (add_names t ns rs)"
proof (induction ns arbitrary: rs)
  case (Cons n ns)
  have "n = CHR ''*'' # drop 1 n" if "prefix ''*.'' n" using that by (auto simp: prefix_def)
  with Cons.prems have "table_ok sources cfg certs H p
      (if prefix ''*.'' n then rs\<lparr>rs_wild := rs_wild rs @ [(drop 1 n, t)]\<rparr>
       else if rs_exact rs n \<noteq> None then rs else rs\<lparr>rs_exact := (rs_exact rs)(n \<mapsto> t)\<rparr>)"
    by (auto simp: table_ok_def)
  with Cons show ?case by simp
qed simp

lemma addStreamRoute_ok:
  assumes "routed_by sources cfg certs H (ListenPort h) t h"
    and "\<And>p rs. tcp p = Some rs \<Longrightarrow> table_ok sources cfg certs H p rs"
    and "addStreamRoute tcp h t p = Some rs"
  shows "table_ok sources cfg certs H p rs"
proof -
  let ?rs = "case tcp (ListenPort h) of Some rs \<Rightarrow> rs | None \<Rightarrow> no_routes"
  have "table_ok sources cfg certs H (ListenPort h) ?rs" using assms(2) by (auto split: option.splits)
  moreover from this have "table_ok sources cfg certs H (ListenPort h) (add_names t (SNINames h) (?rs\<lparr>rs_sni := True\<rparr>))"
    using assms(1) by (intro add_names_ok) (auto simp: table_ok_def)
  ultimately show ?thesis
    using assms by (auto simp: addStreamRoute_def Let_def table_ok_def split: if_splits)
qed

lemma build_routes_ok:
  "set hs \<subseteq> H \<Longrightarrow> (\<And>p rs. tcp p = Some rs \<Longrightarrow> table_ok sources cfg certs H p rs) \<Longrightarrow>
   fst (build_routes sources cfg certs hs (tcp, udp)) p = Some rs \<Longrightarrow> table_ok sources cfg certs H p rs"
proof (induction hs arbitrary: tcp udp)
  case (Cons h hs)
  show ?case
  proof (cases "\<not> sh_Disabled h \<and> (Protocol h = ''tcp'' \<or> Protocol h = ''both'') \<and> compile_target sources cfg certs h \<noteq> None")
    case True
    then obtain t where t: "compile_target sources cfg certs h = Some t" by auto
    with True Cons.prems(1) have "routed_by sources cfg certs H (ListenPort h) t h"
      by (auto simp: routed_by_def on_tcp_def)
    then have "\<And>p rs. addStreamRoute tcp h t p = Some rs \<Longrightarrow> table_ok sources cfg certs H p rs"
      using addStreamRoute_ok Cons.prems(2) by blast
    with True t Cons.prems Cons.IH [of "addStreamRoute tcp h t"] show ?thesis by simp
  next
    case False
    with Cons.prems Cons.IH [of tcp] show ?thesis by (auto split: option.splits if_splits)
  qed
qed simp

lemma routes_match_from:
  assumes "table_ok sources cfg certs H p rs" "routes_match rs name = Some t"
  shows "\<exists>h. routed_by sources cfg certs H p t h \<and>
    (rs_sni rs \<longrightarrow> name \<noteq> [] \<and> (name \<in> set (SNINames h) \<or> (\<exists>s. CHR ''*'' # s \<in> set (SNINames h) \<and> wild_covers name s)))"
proof (cases "rs_sni rs")
  case False
  with assms show ?thesis by (auto simp: table_ok_def routes_match_def)
next
  case True
  with assms(2) have n: "name \<noteq> []" by (auto simp: routes_match_def)
  show ?thesis
  proof (cases "rs_exact rs name")
    case None
    with True n assms(2) obtain w where w: "find (\<lambda>w. wild_covers name (fst w)) (rs_wild rs) = Some w" "t = snd w"
      by (auto simp: routes_match_def)
    then have "(fst w, t) \<in> set (rs_wild rs)" "wild_covers name (fst w)"
      by (metis find_Some_iff nth_mem prod.collapse)+
    with n assms(1) show ?thesis unfolding table_ok_def by blast
  next
    case (Some t')
    with True n assms(2) have "rs_exact rs name = Some t" by (simp add: routes_match_def)
    with n assms(1) show ?thesis unfolding table_ok_def by blast
  qed
qed

lemma compile_target_shape:
  assumes "compile_target sources cfg certs h = Some t"
  shows "tg_name t = sh_SName h" "tg_addr t = JoinHostPort (Target_Host h) (Itoa (Target_Port h))"
    "n \<in> set (sh_AccessLists h) \<Longrightarrow> \<exists>al. list_named cfg n = Some al \<and> compileAccessList sources al \<in> set (tg_acls t)"
    "(\<exists>s. sh_TLS h = Some s \<and> st_Mode s = StreamTLSTerminate) \<Longrightarrow> tg_tlsMode t = StreamTLSTerminate \<and> tg_tlsConf t \<noteq> None"
proof -
  show "tg_name t = sh_SName h" "tg_addr t = JoinHostPort (Target_Host h) (Itoa (Target_Port h))"
    using assms by (auto simp: compile_target_def Let_def split: if_splits option.splits)
  show "(\<exists>s. sh_TLS h = Some s \<and> st_Mode s = StreamTLSTerminate) \<Longrightarrow> tg_tlsMode t = StreamTLSTerminate \<and> tg_tlsConf t \<noteq> None"
    using assms by (auto simp: compile_target_def Let_def split: if_splits option.splits)
  assume n: "n \<in> set (sh_AccessLists h)"
  then obtain al where "list_named cfg n = Some al"
    using assms by (auto simp: compile_target_def list_ex_iff split: if_splits)
  moreover have "tg_acls t = map (\<lambda>n. compileAccessList sources (the (list_named cfg n))) (sh_AccessLists h)"
    using assms by (auto simp: compile_target_def Let_def split: if_splits option.splits)
  ultimately show "\<exists>al. list_named cfg n = Some al \<and> compileAccessList sources al \<in> set (tg_acls t)"
    using n by force
qed


lemma gate_and_dial_admits:
  assumes "gate_and_dial dial geo loaded t i raw s = Forward t tls front" "routed_by sources cfg certs H p t h"
  shows "h \<in> H \<and> on_tcp h \<and> ListenPort h = p \<and> tg_name t = sh_SName h \<and>
    tg_addr t = JoinHostPort (Target_Host h) (Itoa (Target_Port h)) \<and> dial (tg_addr t) \<and>
    (\<forall>n \<in> set (sh_AccessLists h). \<exists>al. list_named cfg n = Some al \<and> allowIP (compileAccessList sources al) i geo loaded) \<and>
    front_bytes front = raw @ unread s"
proof -
  have t: "compile_target sources cfg certs h = Some t" using assms(2) by (simp add: routed_by_def)
  have acls: "\<forall>al \<in> set (tg_acls t). allowIP al i geo loaded" and rest: "dial (tg_addr t)" "front_bytes front = raw @ unread s"
    using assms(1) by (auto simp: gate_and_dial_def target_allow_def list_all_iff front_bytes_def split: if_splits)
  have "\<forall>n \<in> set (sh_AccessLists h). \<exists>al. list_named cfg n = Some al \<and> allowIP (compileAccessList sources al) i geo loaded"
    using acls compile_target_shape(3) [OF t] by blast
  with rest compile_target_shape(1,2) [OF t] assms(2) show ?thesis by (simp add: routed_by_def)
qed

lemma client_open_bytes:
  "client_open (tcp_accept pp s peer) w = (a, s', w') \<Longrightarrow> peek = peekClientHello s' \<Longrightarrow> fst (snd peek) @ unread (snd (snd peek)) = unread s'"
  using peek_rounds_conserve [of max_rounds s' "[]" "[]"] peekClientHello_rounds [of s']
  by (cases "peekClientHello s'") auto

text \<open>C35: A raw stream reaches a backend only through its host's gates. When the TCP listener of a port
  forwards a connection, an enabled stream host of the configuration listens on that port, the backend is
  that host's, every access list the host names exists and allows the client address (the one the PROXY
  header of a trusted balancer names, where that is on), and on an SNI port the host claims the name of
  the ClientHello. The backend side reads every byte that followed the PROXY header, hello included.\<close>

theorem stream_forwards_only_admitted:
  assumes "tcp_handle dial geo loaded (fst (buildStreamRoutes sources cfg certs) port) (tcp_accept pp s peer) w =
             (Forward t tls front, w')"
    and "client_open (tcp_accept pp s peer) w = (a, s', w')"
  shows "\<exists>h \<in> set (c_StreamHosts cfg). on_tcp h \<and> ListenPort h = port \<and> tg_name t = sh_SName h \<and>
    tg_addr t = JoinHostPort (Target_Host h) (Itoa (Target_Port h)) \<and> dial (tg_addr t) \<and>
    (\<forall>n \<in> set (sh_AccessLists h). \<exists>al. list_named cfg n = Some al \<and>
        allowIP (compileAccessList sources al) (addrIP a) geo loaded) \<and>
    (SNINames h \<noteq> [] \<longrightarrow> (\<exists>name raw s2. peekClientHello s' = (Inr name, raw, s2) \<and>
        (name \<in> set (SNINames h) \<or> (\<exists>x. CHR ''*'' # x \<in> set (SNINames h) \<and> wild_covers name x)))) \<and>
    front_bytes front = unread s'"
proof -
  obtain rs where rs: "fst (buildStreamRoutes sources cfg certs) port = Some rs"
    using assms(1) by (auto simp: tcp_handle_def split: option.splits)
  have ok: "table_ok sources cfg certs (set (c_StreamHosts cfg)) port rs"
    using build_routes_ok [of "c_StreamHosts cfg" _ Map.empty sources cfg certs Map.empty port rs] rs
    by (simp add: buildStreamRoutes_def)
  obtain r raw s2 where pk: "peekClientHello s' = (r, raw, s2)" by (metis prod.exhaust)
  have bytes: "raw @ unread s2 = unread s'" using client_open_bytes [OF assms(2) refl] pk by simp
  consider (sni) name where "rs_sni rs" "r = Inr name" "routes_match rs name = Some t"
      "gate_and_dial dial geo loaded t (addrIP a) raw s2 = Forward t tls front"
    | (blind) "\<not> rs_sni rs" "routes_match rs [] = Some t" "gate_and_dial dial geo loaded t (addrIP a) [] s' = Forward t tls front"
    using assms rs pk
    by (auto simp: tcp_handle_def gate_and_dial_def routes_match_def split: if_splits sum.splits option.splits)
  then show ?thesis
  proof cases
    case sni
    obtain h where h: "routed_by sources cfg certs (set (c_StreamHosts cfg)) port t h"
      "name \<in> set (SNINames h) \<or> (\<exists>x. CHR ''*'' # x \<in> set (SNINames h) \<and> wild_covers name x)"
      using routes_match_from [OF ok sni(3)] sni(1) by blast
    then show ?thesis using gate_and_dial_admits [OF sni(4) h(1)] sni(2) pk bytes by auto
  next
    case blind
    then have "rs_def rs = Some t" by (simp add: routes_match_def)
    then obtain h where h: "routed_by sources cfg certs (set (c_StreamHosts cfg)) port t h" "SNINames h = []"
      using ok by (auto simp: table_ok_def)
    then show ?thesis using gate_and_dial_admits [OF blind(3) h(1)] by auto
  qed
qed


section \<open>Server names of a valid configuration\<close>

lemma two_hosts:
  assumes "a \<in> set xs" "b \<in> set xs" "a \<noteq> b"
  obtains us vs ws where "xs = us @ a # vs @ b # ws" | us vs ws where "xs = us @ b # vs @ a # ws"
proof -
  obtain us rest where xs: "xs = us @ a # rest" using split_list [OF assms(1)] by blast
  show thesis
  proof (cases "b \<in> set rest")
    case True
    with xs that(1) show thesis by (metis split_list)
  next
    case False
    with assms(2,3) xs have "b \<in> set us" by auto
    then obtain u v where "us = u @ b # v" by (metis split_list)
    with xs that(2) [of u v rest] show thesis by simp
  qed
qed

lemma valid_port_claims:
  assumes "Validate env cfg = []" "h \<in> set (c_StreamHosts cfg)" "on_tcp h"
    and "h' \<in> set (c_StreamHosts cfg)" "on_tcp h'" "ListenPort h' = ListenPort h" "h' \<noteq> h"
  shows "SNINames h' \<noteq> [] \<and> set (SNINames h) \<inter> set (SNINames h') = {}"
proof (rule two_hosts [OF assms(2,4) assms(7) [symmetric]])
  fix us vs ws
  assume "c_StreamHosts cfg = us @ h # vs @ h' # ws"
  with valid_config_ports [OF assms(1) this] assms show ?thesis by simp
next
  fix us vs ws
  assume "c_StreamHosts cfg = us @ h' # vs @ h # ws"
  with valid_config_ports [OF assms(1) this] assms show ?thesis by auto
qed

text \<open>An exact name, once filed, stays filed; and a table without a blind route files every name.\<close>

lemma add_names_exact:
  "rs_exact rs n \<noteq> None \<or> n \<in> set ns \<and> \<not> prefix ''*.'' n \<Longrightarrow> rs_exact (add_names t ns rs) n \<noteq> None"
proof (induction ns arbitrary: rs)
  case (Cons m ns)
  show ?case unfolding add_names.simps by (rule Cons.IH) (use Cons.prems in \<open>auto split: if_splits\<close>)
qed auto

definition files :: "'k stream_routes option \<Rightarrow> string \<Rightarrow> bool" where
  "files r n = (case r of None \<Rightarrow> False | Some rs \<Rightarrow> rs_sni rs \<and> rs_def rs = None \<and> rs_exact rs n \<noteq> None)"

definition no_blind :: "'k stream_routes option \<Rightarrow> bool" where
  "no_blind r = (case r of None \<Rightarrow> True | Some rs \<Rightarrow> rs_def rs = None)"

lemma addStreamRoute_files:
  assumes "files (tcp p) n \<or> ListenPort h = p \<and> n \<in> set (SNINames h) \<and> \<not> prefix ''*.'' n"
    and "no_blind (tcp p)" "ListenPort h = p \<Longrightarrow> SNINames h \<noteq> []"
  shows "files (addStreamRoute tcp h t p) n"
proof (cases "ListenPort h = p")
  case True
  let ?rs = "case tcp p of Some rs \<Rightarrow> rs | None \<Rightarrow> no_routes"
  have "rs_def ?rs = None" using assms(2) by (auto simp: no_blind_def no_routes_def split: option.splits)
  then have "addStreamRoute tcp h t p = Some (add_names t (SNINames h) (?rs\<lparr>rs_sni := True\<rparr>))"
    using True assms(3) by (simp add: addStreamRoute_def Let_def)
  moreover have "rs_exact (?rs\<lparr>rs_sni := True\<rparr>) n \<noteq> None \<or> n \<in> set (SNINames h) \<and> \<not> prefix ''*.'' n"
    using assms(1) by (auto simp: files_def split: option.splits)
  then have "rs_exact (add_names t (SNINames h) (?rs\<lparr>rs_sni := True\<rparr>)) n \<noteq> None" by (rule add_names_exact)
  ultimately show ?thesis using \<open>rs_def ?rs = None\<close> by (simp add: files_def)
qed (use assms in \<open>simp add: addStreamRoute_def Let_def\<close>)

lemma addStreamRoute_blind:
  assumes "no_blind (tcp p)" "ListenPort h = p \<Longrightarrow> SNINames h \<noteq> []"
  shows "no_blind (addStreamRoute tcp h t p)"
  using assms by (auto simp: addStreamRoute_def no_blind_def Let_def no_routes_def split: option.splits if_splits)

lemma build_routes_files:
  "\<forall>h \<in> set hs. on_tcp h \<and> ListenPort h = p \<longrightarrow> SNINames h \<noteq> [] \<Longrightarrow> no_blind (tcp p) \<Longrightarrow>
   files (tcp p) n \<or> (\<exists>h \<in> set hs. routed_by sources cfg certs (set hs) p t h \<and> n \<in> set (SNINames h) \<and> \<not> prefix ''*.'' n) \<Longrightarrow>
   files (fst (build_routes sources cfg certs hs (tcp, udp)) p) n"
proof (induction hs arbitrary: tcp udp)
  case (Cons h hs)
  show ?case
  proof (cases "on_tcp h \<and> compile_target sources cfg certs h \<noteq> None")
    case True
    then obtain u where u: "compile_target sources cfg certs h = Some u" by auto
    have sni: "ListenPort h = p \<Longrightarrow> SNINames h \<noteq> []" using True Cons.prems(1) by simp
    have "files (addStreamRoute tcp h u p) n \<or>
        (\<exists>h \<in> set hs. routed_by sources cfg certs (set hs) p t h \<and> n \<in> set (SNINames h) \<and> \<not> prefix ''*.'' n)"
      using Cons.prems(3) addStreamRoute_files [of tcp p n h u] Cons.prems(2) sni by (auto simp: routed_by_def)
    with Cons.IH [of "addStreamRoute tcp h u"] Cons.prems(1) addStreamRoute_blind [of tcp p h u] Cons.prems(2) sni True u
    show ?thesis by (simp add: on_tcp_def)
  next
    case False
    then have "files (tcp p) n \<or>
        (\<exists>h \<in> set hs. routed_by sources cfg certs (set hs) p t h \<and> n \<in> set (SNINames h) \<and> \<not> prefix ''*.'' n)"
      using Cons.prems(3) by (auto simp: routed_by_def)
    with False Cons.IH [of tcp] Cons.prems(1,2) show ?thesis
      by (auto simp: on_tcp_def split: option.splits)
  qed
qed (auto simp: routed_by_def)

text \<open>C39: In a valid configuration a server name has one owner, and gets it: an exact name an enabled TCP stream
  host lists is routed to that host's backend, whatever other hosts share the port and whatever their
  wildcards cover, unless the host's certificate cannot be loaded.\<close>

theorem stream_sni_reaches_owner:
  assumes "Validate env cfg = []" "h \<in> set (c_StreamHosts cfg)" "on_tcp h" "n \<in> set (SNINames h)"
    and "\<not> prefix ''*.'' n" "n \<noteq> []" "compile_target sources cfg certs h = Some t"
  shows "\<exists>rs. fst (buildStreamRoutes sources cfg certs) (ListenPort h) = Some rs \<and> routes_match rs n = Some t"
proof -
  let ?H = "c_StreamHosts cfg" and ?p = "ListenPort h"
  have "\<forall>h' \<in> set ?H. on_tcp h' \<and> ListenPort h' = ?p \<longrightarrow> SNINames h' \<noteq> []"
    using valid_port_claims [OF assms(1-3)] assms(4) by (metis empty_iff empty_set)
  then have "files (fst (build_routes sources cfg certs ?H (Map.empty, Map.empty)) ?p) n"
    using assms by (intro build_routes_files [where t = t]) (auto simp: no_blind_def routed_by_def)
  then obtain rs t' where rs: "fst (buildStreamRoutes sources cfg certs) ?p = Some rs" "rs_sni rs" "rs_exact rs n = Some t'"
    by (auto simp: files_def buildStreamRoutes_def split: option.splits)
  have "table_ok sources cfg certs (set ?H) ?p rs"
    using build_routes_ok [of ?H _ Map.empty sources cfg certs Map.empty ?p rs] rs(1) by (simp add: buildStreamRoutes_def)
  then obtain h' where h': "routed_by sources cfg certs (set ?H) ?p t' h'" "n \<in> set (SNINames h')"
    using rs(3) unfolding table_ok_def by blast
  then have "h' = h" using valid_port_claims [OF assms(1-3), of h'] assms(4) by (auto simp: routed_by_def)
  with h'(1) assms(7) have "t' = t" by (simp add: routed_by_def)
  with rs assms(6) show ?thesis by (simp add: routes_match_def)
qed

section \<open>Certificates come from certificate objects\<close>

text \<open>A domain of a certificate covers a name: equal to it, or a wildcard for its parent.\<close>

definition domain_covers :: "string \<Rightarrow> string \<Rightarrow> bool" where
  "domain_covers d name \<longleftrightarrow>
     (let k = ToLower (TrimSpace d) in
      if prefix ''*.'' k then CHR ''.'' \<in> set name \<and> drop 2 k = after (CHR ''.'') name else k = name)"

definition pair_of :: "'k cert_files \<Rightarrow> certificate \<Rightarrow> 'k \<Rightarrow> bool" where
  "pair_of fs c k \<longleftrightarrow> \<not> cert_Disabled c \<and>
     (\<exists>cf kf. load_pair fs cf kf = Some k \<and>
        (cert_Custom c = Some (cf, kf) \<or> cf = issued_cert fs (cert_Name c) \<and> kf = issued_key fs (cert_Name c) \<and> stat_ok fs cf))"

definition resolver_ok :: "'k cert_files \<Rightarrow> certificate set \<Rightarrow> 'k cert_resolver \<Rightarrow> bool" where
  "resolver_ok fs C r \<longleftrightarrow>
     (\<forall>name k. GetCertificate r name = Some k \<longrightarrow>
        (\<exists>c \<in> C. pair_of fs c k \<and> list_ex (\<lambda>d. domain_covers d (ToLower (TrimSpace name))) (cert_Domains c)))"

lemma resolver_ok_add:
  assumes "c \<in> C" "pair_of fs c k"
  shows "set ds \<subseteq> set (cert_Domains c) \<Longrightarrow> resolver_ok fs C r \<Longrightarrow> resolver_ok fs C (cert_add ds k r)"
proof (induction ds arbitrary: r)
  case (Cons d ds)
  let ?d = "ToLower (TrimSpace d)"
  define r' where "r' = (if prefix ''*.'' ?d then r\<lparr>cr_wildcard := (cr_wildcard r)(drop 2 ?d \<mapsto> k)\<rparr> else r\<lparr>cr_exact := (cr_exact r)(?d \<mapsto> k)\<rparr>)"
  have "GetCertificate r name = Some x \<or> x = k \<and> domain_covers d (ToLower (TrimSpace name))"
    if "GetCertificate r' name = Some x" for name x
    using that by (auto simp: r'_def GetCertificate_def domain_covers_def Let_def split: if_splits option.splits)
  moreover have "d \<in> set (cert_Domains c)" using Cons.prems(1) by simp
  ultimately have "resolver_ok fs C r'"
    using Cons.prems(2) assms unfolding resolver_ok_def list_ex_iff by metis
  with Cons show ?case by (simp add: Let_def r'_def)
qed simp

lemma pair_ofI:
  "\<not> cert_Disabled c \<Longrightarrow> cert_Custom c = Some (cf, kf) \<Longrightarrow> load_pair fs cf kf = Some k \<Longrightarrow> pair_of fs c k"
  "\<not> cert_Disabled c \<Longrightarrow> stat_ok fs (issued_cert fs (cert_Name c)) \<Longrightarrow>
     load_pair fs (issued_cert fs (cert_Name c)) (issued_key fs (cert_Name c)) = Some k \<Longrightarrow> pair_of fs c k"
  by (auto simp: pair_of_def)

lemma buildCertResolver_ok:
  "set cs \<subseteq> C \<Longrightarrow> resolver_ok fs C r \<Longrightarrow> buildCertResolver fs cs r = Inr r' \<Longrightarrow> resolver_ok fs C r'"
proof (induction cs arbitrary: r)
  case (Cons c cs)
  have add: "resolver_ok fs C r'" if "pair_of fs c k" "buildCertResolver fs cs (cert_add (cert_Domains c) k r) = Inr r'" for k
    using that Cons.prems resolver_ok_add [OF _ that(1), of C "cert_Domains c" r] Cons.IH by simp
  show ?case
    using Cons.prems Cons.IH [of r]
    by (auto simp: Let_def split: if_splits option.splits intro: add [OF pair_ofI(2)]) (blast intro: add pair_ofI(1))
qed simp

text \<open>The certificate a handshake gets was configured for the name it asks for: it was loaded from the files of
  an enabled certificate object (or the artifacts issued for it) one of whose domains is that name, or a
  wildcard one label above it.\<close>

theorem certificate_covers_name:
  assumes "buildCertResolver fs cs \<lparr>cr_exact = Map.empty, cr_wildcard = Map.empty\<rparr> = Inr r" "GetCertificate r name = Some k"
  shows "\<exists>c \<in> set cs. pair_of fs c k \<and> list_ex (\<lambda>d. domain_covers d (ToLower (TrimSpace name))) (cert_Domains c)"
proof -
  have "resolver_ok fs (set cs) \<lparr>cr_exact = Map.empty, cr_wildcard = Map.empty\<rparr>"
    by (auto simp: resolver_ok_def GetCertificate_def Let_def split: if_splits)
  from buildCertResolver_ok [OF subset_refl this assms(1)] assms(2) show ?thesis
    unfolding resolver_ok_def by blast
qed


section \<open>Witnesses\<close>

theorem stream_sni_reaches_owner_witness:
  "\<exists>rs t. fst (buildStreamRoutes Map.empty demo_config (None :: unit cert_resolver option)) 8443 = Some rs \<and>
     routes_match rs ''mq.example.com'' = Some t \<and> tg_name t = ''mq''"
proof -
  let ?h = "sni_host ''mq'' ''mq.example.com''"
  have h: "?h \<in> set (c_StreamHosts demo_config)" "on_tcp ?h" "ListenPort ?h = 8443"
    by (simp_all add: demo_config_def sni_host_def on_tcp_def)
  have n: "''mq.example.com'' \<in> set (SNINames ?h)" by code_simp
  obtain t where t: "compile_target Map.empty demo_config (None :: unit cert_resolver option) ?h = Some t" "tg_name t = ''mq''"
    by (simp add: compile_target_def sni_host_def StreamTLSTerminate_def)
  have "\<exists>rs. fst (buildStreamRoutes Map.empty demo_config (None :: unit cert_resolver option)) 8443 = Some rs \<and>
      routes_match rs ''mq.example.com'' = Some t"
    using stream_sni_reaches_owner [OF demo_valid h(1,2) n _ _ t(1)] h(3) by (simp add: prefix_def)
  with t(2) show ?thesis by blast
qed

definition gated_stream :: stream_host where
  "gated_stream = \<lparr>sh_SName = ''ssh'', sh_Disabled = False, ListenPort = 2222, Protocol = ''tcp'', Target_Host = ''10.0.0.7'', Target_Port = 22,
     LegacyForwardHost = [], LegacyForwardPort = 0, sh_TLS = None, sh_AccessLists = [''edge'']\<rparr>"

definition gated_config :: gpm_config where
  "gated_config = demo_config\<lparr>c_StreamHosts := [gated_stream], c_AccessLists := [(sample_list [lan_rule] None, [])]\<rparr>"

definition lan_client :: net_addr where "lan_client = TCPAddr (Some [203, 0, 113, 9]) 50000"

theorem stream_forwards_only_admitted_witness:
  "\<exists>t tls front. tcp_handle (\<lambda>_. True) None None (fst (buildStreamRoutes Map.empty gated_config (None :: unit cert_resolver option)) 2222)
      (tcp_accept None [([1, 2], None)] lan_client) no_warnings = (Forward t tls front, no_warnings) \<and>
     tg_name t = ''ssh'' \<and> front_bytes front = [1, 2]"
proof -
  let ?acl = "compileAccessList Map.empty (sample_list [lan_rule] None)"
  let ?t = "\<lparr>tg_name = ''ssh'', tg_addr = JoinHostPort ''10.0.0.7'' (Itoa 22), tg_acls = [?acl], tg_tlsMode = [], tg_tlsConf = None\<rparr> :: unit stream_target"
  have named: "list_named gated_config ''edge'' = Some (sample_list [lan_rule] None)"
    by (simp add: list_named_def gated_config_def sample_list_def)
  have acl: "allowIP ?acl (Some [203, 0, 113, 9]) None None" by code_simp
  have target: "compile_target Map.empty gated_config (None :: unit cert_resolver option) gated_stream = Some ?t"
    using named by (simp add: compile_target_def gated_stream_def)
  have table: "fst (buildStreamRoutes Map.empty gated_config (None :: unit cert_resolver option)) 2222 = Some (no_routes\<lparr>rs_def := Some ?t\<rparr>)"
    using target by (simp add: buildStreamRoutes_def gated_config_def addStreamRoute_def no_routes_def)
      (simp add: gated_stream_def SNINames_def)
  have open_it: "client_open (tcp_accept None [([1, 2], None)] lan_client) no_warnings = (lan_client, [([1, 2], None)], no_warnings)"
    by (simp add: client_open_def tcp_accept_def)
  obtain tls front where r: "tcp_handle (\<lambda>_. True) None None (fst (buildStreamRoutes Map.empty gated_config (None :: unit cert_resolver option)) 2222)
      (tcp_accept None [([1, 2], None)] lan_client) no_warnings = (Forward ?t tls front, no_warnings)"
  proof -
    have ip: "addrIP lan_client = Some [203, 0, 113, 9]" by (simp add: lan_client_def addrIP_def)
    show thesis
      using that [of False] acl by (simp add: tcp_handle_def table open_it gate_and_dial_def target_allow_def ip no_routes_def)
  qed
  from stream_forwards_only_admitted [OF r open_it] r show ?thesis by auto
qed

definition one_cert :: certificate where
  "one_cert = \<lparr>cert_Name = ''wild'', cert_Disabled = False, cert_Type = ''custom'', cert_Domains = [''*.example.com''],
     cert_ACME = None, cert_Custom = Some (''c.pem'', ''k.pem'')\<rparr>"

definition one_pair :: "nat cert_files" where
  "one_pair = \<lparr>stat_ok = (\<lambda>_. False), load_pair = (\<lambda>c k. if c = ''c.pem'' then Some 7 else None),
     issued_cert = (\<lambda>n. n), issued_key = (\<lambda>n. n)\<rparr>"

theorem certificate_covers_name_witness:
  "pair_of one_pair one_cert 7 \<and> list_ex (\<lambda>d. domain_covers d ''www.example.com'') (cert_Domains one_cert)"
proof -
  let ?r = "\<lparr>cr_exact = Map.empty, cr_wildcard = [''example.com'' \<mapsto> 7]\<rparr> :: nat cert_resolver"
  have low: "ToLower (TrimSpace ''*.example.com'') = ''*.example.com''" "ToLower (TrimSpace ''www.example.com'') = ''www.example.com''"
    by code_simp+
  have "buildCertResolver one_pair [one_cert] \<lparr>cr_exact = Map.empty, cr_wildcard = Map.empty\<rparr> = Inr ?r"
    by (simp add: one_cert_def one_pair_def CertTypeCustom_def low)
  moreover have "GetCertificate ?r ''www.example.com'' = Some 7" by (simp add: GetCertificate_def low after_def)
  ultimately show ?thesis using certificate_covers_name [of one_pair "[one_cert]" ?r "''www.example.com''" 7] by (simp add: low)
qed

end
