(* ===== verification/Udp_Sessions.thy ===== *)
theory Udp_Sessions
  imports Stream_Host
begin

text \<open>
  The UDP half of \<open>dataplane/streamhost.go\<close>: one forwarder with its table of client sessions, as a
  machine whose steps are the sections the code runs under the forwarder's lock, or atomically. A
  session is a pointer into the list of all sessions ever opened (\<open>uf_heap\<close>), since \<open>backendToClient\<close>
  compares the table's entry with its own session by identity; that goroutine is the field \<open>us_pc\<close>:
  still copying, past its locked section, or ended. The gauge is the active-connection metric per host.
  The store of \<open>last\<close> in \<open>forward\<close> happens after the lock is released and is a step of its own
  (\<open>udp_touch\<close>, allowed for any session at any time, which is more than the code does).
\<close>

datatype backend_pc = Copying | Unlinked | Ended

record udp_session =
  us_key :: string
  us_host :: string
  us_last :: int
  us_done :: bool
  us_pc :: backend_pc

record 'k udp_forwarder =
  uf_target :: "'k stream_target"
  uf_closed :: bool
  uf_sessions :: "(string \<times> nat) list"
  uf_heap :: "udp_session list"
  uf_gauge :: "string \<Rightarrow> int"
  uf_denied :: peer_warn_set

definition maxUDPSessions :: nat where "maxUDPSessions = 4096"

definition startUDPForwarder :: "'k stream_target \<Rightarrow> 'k udp_forwarder" where
  "startUDPForwarder t = \<lparr>uf_target = t, uf_closed = False, uf_sessions = [], uf_heap = [], uf_gauge = (\<lambda>h. 0), uf_denied = []\<rparr>"

definition setTarget :: "'k stream_target \<Rightarrow> 'k udp_forwarder \<Rightarrow> 'k udp_forwarder" where
  "setTarget t f = f\<lparr>uf_target := t\<rparr>"

definition closeSession :: "nat \<Rightarrow> 'k udp_forwarder \<Rightarrow> 'k udp_forwarder" where
  "closeSession i f =
     (let s = uf_heap f ! i in
      if us_done s then f
      else f\<lparr>uf_heap := (uf_heap f)[i := s\<lparr>us_done := True\<rparr>],
             uf_gauge := (uf_gauge f)(us_host s := uf_gauge f (us_host s) - 1)\<rparr>)"

definition close_all :: "nat list \<Rightarrow> 'k udp_forwarder \<Rightarrow> 'k udp_forwarder" where
  "close_all is f = fold closeSession is f"

definition udp_stop :: "'k udp_forwarder \<Rightarrow> 'k udp_forwarder" where
  "udp_stop f = (close_all (map snd (uf_sessions f)) (f\<lparr>uf_closed := True\<rparr>))\<lparr>uf_sessions := []\<rparr>"

text \<open>The locked part of \<open>forward\<close>: the session of the client, opened when there is none and the access
  lists, the table and the dial allow it. \<open>dial\<close> says whether the backend can be reached.\<close>

definition udp_lookup ::
  "(string \<Rightarrow> bool) \<Rightarrow> geo_lookup \<Rightarrow> bool option \<Rightarrow> int \<Rightarrow> string \<Rightarrow> net_addr \<Rightarrow> 'k udp_forwarder \<Rightarrow> nat option \<times> 'k udp_forwarder" where
  "udp_lookup dial geo loaded port key addr f =
     (case map_of (uf_sessions f) key of
        Some i \<Rightarrow> (Some i, f)
      | None \<Rightarrow>
          if \<not> target_allow (uf_target f) (addrIP addr) geo loaded then
            (None, f\<lparr>uf_denied := snd (warn_first (Itoa port @ ''/'' @ peerKey (addrIP addr)) (uf_denied f))\<rparr>)
          else if maxUDPSessions \<le> length (uf_sessions f) then (None, f)
          else if \<not> dial (tg_addr (uf_target f)) then (None, f)
          else (Some (length (uf_heap f)),
                f\<lparr>uf_heap := uf_heap f @ [\<lparr>us_key = key, us_host = tg_name (uf_target f), us_last = 0, us_done = False, us_pc = Copying\<rparr>],
                  uf_sessions := (key, length (uf_heap f)) # uf_sessions f,
                  uf_gauge := (uf_gauge f)(tg_name (uf_target f) := uf_gauge f (tg_name (uf_target f)) + 1)\<rparr>))"

definition udp_touch :: "nat \<Rightarrow> int \<Rightarrow> 'k udp_forwarder \<Rightarrow> 'k udp_forwarder" where
  "udp_touch i now f = f\<lparr>uf_heap := (uf_heap f)[i := (uf_heap f ! i)\<lparr>us_last := now\<rparr>]\<rparr>"

definition forward :: 
  "(string \<Rightarrow> bool) \<Rightarrow> geo_lookup \<Rightarrow> bool option \<Rightarrow> int \<Rightarrow> int \<Rightarrow> string \<Rightarrow> net_addr \<Rightarrow> 'k udp_forwarder \<Rightarrow> 'k udp_forwarder" where
  "forward dial geo loaded port now key addr f =
     (case udp_lookup dial geo loaded port key addr f of (None, f') \<Rightarrow> f' | (Some i, f') \<Rightarrow> udp_touch i now f')"

text \<open>The end of \<open>backendToClient\<close>: the locked removal of its own entry, then the close.\<close>

definition backend_unlink :: "nat \<Rightarrow> 'k udp_forwarder \<Rightarrow> 'k udp_forwarder" where
  "backend_unlink i f =
     (let s = uf_heap f ! i in
      f\<lparr>uf_sessions := (if map_of (uf_sessions f) (us_key s) = Some i
                         then filter (\<lambda>e. fst e \<noteq> us_key s) (uf_sessions f) else uf_sessions f),
        uf_heap := (uf_heap f)[i := s\<lparr>us_pc := Unlinked\<rparr>]\<rparr>)"

definition backend_close :: "nat \<Rightarrow> 'k udp_forwarder \<Rightarrow> 'k udp_forwarder" where
  "backend_close i f =
     closeSession i (f\<lparr>uf_heap := (uf_heap f)[i := (uf_heap f ! i)\<lparr>us_pc := Ended\<rparr>]\<rparr>)"

definition reap :: "int \<Rightarrow> 'k udp_forwarder \<Rightarrow> 'k udp_forwarder" where
  "reap cutoff f =
     (let idle = (\<lambda>e. us_last (uf_heap f ! snd e) < cutoff) in
      (close_all (map snd (filter idle (uf_sessions f))) f)\<lparr>uf_sessions := filter (\<lambda>e. \<not> idle e) (uf_sessions f)\<rparr>)"

section \<open>The machine\<close>

inductive udp_step :: "'k udp_forwarder \<Rightarrow> 'k udp_forwarder \<Rightarrow> bool" where
  step_lookup: "udp_lookup dial geo loaded port key addr f = (r, f') \<Longrightarrow> udp_step f f'"
| step_touch: "i < length (uf_heap f) \<Longrightarrow> udp_step f (udp_touch i now f)"
| step_unlink: "i < length (uf_heap f) \<Longrightarrow> us_pc (uf_heap f ! i) = Copying \<Longrightarrow> udp_step f (backend_unlink i f)"
| step_close: "i < length (uf_heap f) \<Longrightarrow> us_pc (uf_heap f ! i) = Unlinked \<Longrightarrow> udp_step f (backend_close i f)"
| step_reap: "\<not> uf_closed f \<Longrightarrow> udp_step f (reap cutoff f)"
| step_stop: "udp_step f (udp_stop f)"
| step_target: "udp_step f (setTarget t f)"

inductive udp_reachable :: "'k udp_forwarder \<Rightarrow> bool" where
  reach_start: "udp_reachable (startUDPForwarder t)"
| reach_step: "udp_reachable f \<Longrightarrow> udp_step f f' \<Longrightarrow> udp_reachable f'"

section \<open>Invariants\<close>

definition live :: "string \<Rightarrow> udp_session list \<Rightarrow> nat" where
  "live h ss = length (filter (\<lambda>s. \<not> us_done s \<and> us_host s = h) ss)"

definition gauge_ok :: "'k udp_forwarder \<Rightarrow> bool" where
  "gauge_ok f \<longleftrightarrow> (\<forall>h. uf_gauge f h = int (live h (uf_heap f)))"

definition udp_entry_ok :: "udp_session list \<Rightarrow> string \<times> nat \<Rightarrow> bool" where
  "udp_entry_ok ss e \<longleftrightarrow> snd e < length ss \<and> \<not> us_done (ss ! snd e) \<and> us_pc (ss ! snd e) = Copying \<and> us_key (ss ! snd e) = fst e"

definition table_inv :: "'k udp_forwarder \<Rightarrow> bool" where
  "table_inv f \<longleftrightarrow> distinct (map fst (uf_sessions f)) \<and> length (uf_sessions f) \<le> maxUDPSessions \<and>
     list_all (udp_entry_ok (uf_heap f)) (uf_sessions f)"

definition owned_inv :: "'k udp_forwarder \<Rightarrow> bool" where
  "owned_inv f \<longleftrightarrow> (\<forall>i < length (uf_heap f). \<not> us_done (uf_heap f ! i) \<longrightarrow>
     (us_key (uf_heap f ! i), i) \<in> set (uf_sessions f) \<or> us_pc (uf_heap f ! i) = Unlinked)"

lemma length_filter_update:
  "i < length xs \<Longrightarrow> length (filter P (xs[i := x])) + (if P (xs ! i) then 1 else 0) = length (filter P xs) + (if P x then 1 else 0)"
proof (induction xs arbitrary: i)
  case (Cons a xs)
  show ?case
  proof (cases i)
    case (Suc j)
    with Cons.IH [of j] Cons.prems show ?thesis by simp
  qed simp
qed simp

lemma live_update:
  "i < length ss \<Longrightarrow> live h (ss[i := s]) + (if \<not> us_done (ss ! i) \<and> us_host (ss ! i) = h then 1 else 0) =
     live h ss + (if \<not> us_done s \<and> us_host s = h then 1 else 0)"
  unfolding live_def by (rule length_filter_update)

lemma live_same:
  "i < length ss \<Longrightarrow> us_done s = us_done (ss ! i) \<Longrightarrow> us_host s = us_host (ss ! i) \<Longrightarrow> live h (ss[i := s]) = live h ss"
  using live_update [of i ss h s] by (auto split: if_splits)

lemma closeSession_gauge:
  assumes "gauge_ok f" "i < length (uf_heap f)"
  shows "gauge_ok (closeSession i f)"
  unfolding gauge_ok_def
proof
  fix h
  show "uf_gauge (closeSession i f) h = int (live h (uf_heap (closeSession i f)))"
    using assms live_update [OF assms(2), of h "(uf_heap f ! i)\<lparr>us_done := True\<rparr>"]
    by (auto simp: closeSession_def gauge_ok_def Let_def split: if_splits)
qed

text \<open>Closing marks sessions done and changes nothing else a table entry depends on.\<close>

lemma closeSession_heap:
  assumes "i < length (uf_heap f)" "j < length (uf_heap f)"
  shows "us_done (uf_heap (closeSession i f) ! j) \<longleftrightarrow> us_done (uf_heap f ! j) \<or> j = i"
    "us_pc (uf_heap (closeSession i f) ! j) = us_pc (uf_heap f ! j)"
    "us_key (uf_heap (closeSession i f) ! j) = us_key (uf_heap f ! j)"
  using assms by (auto simp: closeSession_def Let_def nth_list_update)

lemma closeSession_frame [simp]:
  "length (uf_heap (closeSession i f)) = length (uf_heap f)" "uf_sessions (closeSession i f) = uf_sessions f"
  by (auto simp: closeSession_def Let_def)

lemma close_all_keeps:
  "list_all (\<lambda>i. i < length (uf_heap f)) is \<Longrightarrow>
     length (uf_heap (close_all is f)) = length (uf_heap f) \<and> uf_sessions (close_all is f) = uf_sessions f \<and>
     (gauge_ok f \<longrightarrow> gauge_ok (close_all is f)) \<and>
     (\<forall>j < length (uf_heap f). (us_done (uf_heap (close_all is f) ! j) \<longleftrightarrow> us_done (uf_heap f ! j) \<or> j \<in> set is) \<and>
        us_pc (uf_heap (close_all is f) ! j) = us_pc (uf_heap f ! j) \<and> us_key (uf_heap (close_all is f) ! j) = us_key (uf_heap f ! j))"
proof (induction "is" arbitrary: f)
  case (Cons i "is")
  from Cons.prems have i: "i < length (uf_heap f)" by simp
  have "close_all (i # is) f = close_all is (closeSession i f)" by (simp add: close_all_def)
  moreover note Cons.IH [of "closeSession i f"]
  ultimately show ?case using Cons.prems i closeSession_gauge [OF _ i] closeSession_heap [OF i] by auto
qed (simp add: close_all_def)


definition udp_inv :: "'k udp_forwarder \<Rightarrow> bool" where
  "udp_inv f \<longleftrightarrow> table_inv f \<and> gauge_ok f \<and> owned_inv f"

lemma table_entries: "table_inv f \<Longrightarrow> list_all (\<lambda>i. i < length (uf_heap f)) (map snd (uf_sessions f))"
  by (auto simp: table_inv_def udp_entry_ok_def list_all_iff)

lemma udp_inv_lookup:
  assumes "udp_inv f" "udp_lookup dial geo loaded port key addr f = (r, f')"
  shows "udp_inv f'"
proof (cases "map_of (uf_sessions f) key = None \<and> target_allow (uf_target f) (addrIP addr) geo loaded \<and>
    length (uf_sessions f) < maxUDPSessions \<and> dial (tg_addr (uf_target f))")
  case True
  then have fresh: "key \<notin> fst ` set (uf_sessions f)" by (simp add: map_of_eq_None_iff)
  have f': "uf_sessions f' = (key, length (uf_heap f)) # uf_sessions f"
    "uf_heap f' = uf_heap f @ [\<lparr>us_key = key, us_host = tg_name (uf_target f), us_last = 0, us_done = False, us_pc = Copying\<rparr>]"
    "uf_gauge f' = (uf_gauge f)(tg_name (uf_target f) := uf_gauge f (tg_name (uf_target f)) + 1)"
    using True assms(2) by (auto simp: udp_lookup_def)
  have "udp_entry_ok (uf_heap f') e" if "udp_entry_ok (uf_heap f) e" for e
    using that by (auto simp: udp_entry_ok_def f' nth_append)
  then have "table_inv f'"
    using assms(1) fresh True by (auto simp: udp_inv_def table_inv_def list_all_iff f'(1) udp_entry_ok_def [of _ "(_, length _)"] f'(2))
  moreover have "gauge_ok f'" using assms(1) by (auto simp: udp_inv_def gauge_ok_def f' live_def)
  moreover have "owned_inv f'" using assms(1) by (auto simp: udp_inv_def owned_inv_def f' nth_append less_Suc_eq)
  ultimately show ?thesis by (simp add: udp_inv_def)
next
  case False
  with assms show ?thesis
    by (auto simp: udp_lookup_def udp_inv_def table_inv_def gauge_ok_def owned_inv_def split: option.splits if_splits)
qed

text \<open>Dropping entries from the table while closing exactly their sessions.\<close>

lemma udp_inv_drop:
  assumes "udp_inv f" "list_all (\<lambda>e. P e \<longrightarrow> snd e \<in> set is) (uf_sessions f)"
    and "set is = snd ` {e \<in> set (uf_sessions f). P e}"
  shows "udp_inv ((close_all is f)\<lparr>uf_sessions := filter (\<lambda>e. \<not> P e) (uf_sessions f)\<rparr>)" (is "udp_inv ?f")
proof -
  have t: "table_inv f" and own: "owned_inv f" using assms(1) by (auto simp: udp_inv_def)
  have bound: "list_all (\<lambda>i. i < length (uf_heap f)) is"
    using table_entries [OF t] assms(3) by (auto simp: list_all_iff)
  note keep = close_all_keeps [OF bound]
  have inj: "e = e'" if "e \<in> set (uf_sessions f)" "e' \<in> set (uf_sessions f)" "snd e = snd e'" for e e'
  proof -
    have "fst x = us_key (uf_heap f ! snd x)" if "x \<in> set (uf_sessions f)" for x
      using that t by (auto simp: table_inv_def list_all_iff udp_entry_ok_def)
    with that show ?thesis by (metis prod_eqI)
  qed
  have "udp_entry_ok (uf_heap ?f) e" if "e \<in> set (uf_sessions f)" "\<not> P e" for e
  proof -
    have ok: "udp_entry_ok (uf_heap f) e" using t that(1) by (auto simp: table_inv_def list_all_iff)
    moreover have "snd e \<notin> set is" using that inj assms(3) by blast
    ultimately show ?thesis using keep by (auto simp: udp_entry_ok_def)
  qed
  then have "table_inv ?f"
    using t by (auto simp: table_inv_def list_all_iff distinct_map_filter intro: le_trans [OF length_filter_le])
  moreover have "gauge_ok ?f" using keep assms(1) by (simp add: udp_inv_def gauge_ok_def)
  moreover have "owned_inv ?f"
    unfolding owned_inv_def
  proof (intro allI impI)
    fix i
    assume i: "i < length (uf_heap ?f)" "\<not> us_done (uf_heap ?f ! i)"
    then have "\<not> us_done (uf_heap f ! i)" "i \<notin> set is" "i < length (uf_heap f)" using keep by auto
    with own assms(2) keep show "(us_key (uf_heap ?f ! i), i) \<in> set (uf_sessions ?f) \<or> us_pc (uf_heap ?f ! i) = Unlinked"
      by (fastforce simp: owned_inv_def list_all_iff)
  qed
  ultimately show ?thesis by (simp add: udp_inv_def)
qed

lemma udp_inv_reap: "udp_inv f \<Longrightarrow> udp_inv (reap cutoff f)"
  unfolding reap_def Let_def by (rule udp_inv_drop) (auto simp: list_all_iff)

lemma udp_inv_stop:
  assumes "udp_inv f"
  shows "udp_inv (udp_stop f)"
proof -
  have "udp_inv (f\<lparr>uf_closed := True\<rparr>)"
    using assms by (simp add: udp_inv_def table_inv_def gauge_ok_def owned_inv_def)
  from udp_inv_drop [OF this, of "\<lambda>e. True" "map snd (uf_sessions f)"] show ?thesis
    by (simp add: udp_stop_def list_all_iff)
qed

lemma udp_inv_unlink:
  assumes "udp_inv f" "i < length (uf_heap f)" "us_pc (uf_heap f ! i) = Copying"
  shows "udp_inv (backend_unlink i f)"
proof -
  let ?s = "uf_heap f ! i" and ?f = "backend_unlink i f"
  have t: "table_inv f" using assms(1) by (simp add: udp_inv_def)
  have heap: "uf_heap ?f = (uf_heap f)[i := ?s\<lparr>us_pc := Unlinked\<rparr>]" by (simp add: backend_unlink_def Let_def)
  have gone: "(k, i) \<notin> set (uf_sessions ?f)" for k
  proof
    assume "(k, i) \<in> set (uf_sessions ?f)"
    then have "(k, i) \<in> set (uf_sessions f)" and k: "k \<noteq> us_key ?s \<or> map_of (uf_sessions f) (us_key ?s) \<noteq> Some i"
      by (auto simp: backend_unlink_def Let_def split: if_splits)
    moreover from this(1) have "k = us_key ?s" using t by (auto simp: table_inv_def list_all_iff udp_entry_ok_def)
    ultimately show False using t by (auto simp: table_inv_def)
  qed
  have keep: "e \<in> set (uf_sessions ?f) \<longleftrightarrow> e \<in> set (uf_sessions f) \<and> snd e \<noteq> i" for e
  proof
    assume "e \<in> set (uf_sessions ?f)"
    then show "e \<in> set (uf_sessions f) \<and> snd e \<noteq> i"
      using gone [of "fst e"] by (auto simp: backend_unlink_def Let_def split: if_splits)
  next
    assume e: "e \<in> set (uf_sessions f) \<and> snd e \<noteq> i"
    moreover from this have "map_of (uf_sessions f) (fst e) = Some (snd e)" using t by (simp add: table_inv_def)
    ultimately show "e \<in> set (uf_sessions ?f)" by (auto simp: backend_unlink_def Let_def)
  qed
  have "table_inv ?f"
    using t keep by (auto simp: table_inv_def list_all_iff udp_entry_ok_def heap backend_unlink_def Let_def distinct_map_filter
      intro: le_trans [OF length_filter_le])
  moreover have "gauge_ok ?f"
    using assms live_same [OF assms(2), of "?s\<lparr>us_pc := Unlinked\<rparr>"]
    by (simp add: udp_inv_def gauge_ok_def heap) (simp add: backend_unlink_def Let_def)
  moreover have "owned_inv ?f"
    using assms(1,2) keep by (auto simp: udp_inv_def owned_inv_def heap nth_list_update)
  ultimately show ?thesis by (simp add: udp_inv_def)
qed

lemma udp_inv_close:
  assumes "udp_inv f" "i < length (uf_heap f)" "us_pc (uf_heap f ! i) = Unlinked"
  shows "udp_inv (backend_close i f)"
proof -
  let ?g = "f\<lparr>uf_heap := (uf_heap f)[i := (uf_heap f ! i)\<lparr>us_pc := Ended\<rparr>]\<rparr>"
  have i: "i < length (uf_heap ?g)" using assms(2) by simp
  have other: "snd e \<noteq> i" if "e \<in> set (uf_sessions f)" for e
    using that assms by (auto simp: udp_inv_def table_inv_def list_all_iff udp_entry_ok_def)
  have "gauge_ok ?g" using assms(1,2) live_same [OF assms(2)] by (simp add: udp_inv_def gauge_ok_def)
  then have "gauge_ok (backend_close i f)" using closeSession_gauge [OF _ i] by (simp add: backend_close_def)
  moreover have "udp_entry_ok (uf_heap (backend_close i f)) e" if e: "e \<in> set (uf_sessions f)" for e
  proof -
    have "udp_entry_ok (uf_heap f) e" using e assms(1) by (auto simp: udp_inv_def table_inv_def list_all_iff)
    then show ?thesis
      using other [OF e] closeSession_heap [OF i, of "snd e"] by (simp add: udp_entry_ok_def backend_close_def)
  qed
  then have "table_inv (backend_close i f)"
    using assms(1) by (simp add: udp_inv_def table_inv_def list_all_iff backend_close_def)
  moreover have "owned_inv (backend_close i f)"
    using assms closeSession_heap [OF i] by (auto simp: udp_inv_def owned_inv_def backend_close_def nth_list_update)
  ultimately show ?thesis by (simp add: udp_inv_def)
qed

lemma udp_inv_touch:
  assumes "udp_inv f" "i < length (uf_heap f)"
  shows "udp_inv (udp_touch i now f)"
  using assms live_same [OF assms(2)]
  by (auto simp: udp_inv_def table_inv_def gauge_ok_def owned_inv_def udp_touch_def list_all_iff udp_entry_ok_def nth_list_update)

lemma udp_inv_step: "udp_step f f' \<Longrightarrow> udp_inv f \<Longrightarrow> udp_inv f'"
proof (induction rule: udp_step.induct)
  case (step_target f t)
  then show ?case by (simp add: setTarget_def udp_inv_def table_inv_def gauge_ok_def owned_inv_def)
qed (auto intro: udp_inv_lookup udp_inv_touch udp_inv_unlink udp_inv_close udp_inv_reap udp_inv_stop)

lemma udp_reachable_inv: "udp_reachable f \<Longrightarrow> udp_inv f"
proof (induction rule: udp_reachable.induct)
  case (reach_start t)
  then show ?case
    by (simp add: udp_inv_def table_inv_def gauge_ok_def owned_inv_def startUDPForwarder_def live_def)
qed (blast intro: udp_inv_step)


text \<open>C38: The UDP session table stays bounded and the active-connection gauge does not drift, in every
  interleaving of packets, idle reaping, backends ending, target changes and shutdown: at most 4096
  sessions, each table entry an open session under its own client's key, the gauge of a host the number of
  its open sessions, and zero once the table is empty and no backend loop is between its two steps.\<close>

theorem udp_table_bounded_gauge_exact:
  assumes "udp_reachable f"
  shows "length (uf_sessions f) \<le> 4096 \<and> distinct (map fst (uf_sessions f)) \<and>
    list_all (udp_entry_ok (uf_heap f)) (uf_sessions f) \<and> (\<forall>h. uf_gauge f h = int (live h (uf_heap f))) \<and>
    (uf_sessions f = [] \<and> list_all (\<lambda>s. us_pc s \<noteq> Unlinked) (uf_heap f) \<longrightarrow> (\<forall>h. uf_gauge f h = 0))"
proof -
  have inv: "udp_inv f" using udp_reachable_inv [OF assms] .
  have "live h (uf_heap f) = 0" if "uf_sessions f = []" "list_all (\<lambda>s. us_pc s \<noteq> Unlinked) (uf_heap f)" for h
  proof -
    have "us_done s" if s: "s \<in> set (uf_heap f)" for s
    proof -
      obtain i where "i < length (uf_heap f)" "uf_heap f ! i = s" using s by (auto simp: in_set_conv_nth)
      with inv \<open>uf_sessions f = []\<close> \<open>list_all _ _\<close> s show ?thesis
        by (auto simp: udp_inv_def owned_inv_def list_all_iff)
    qed
    then show ?thesis by (simp add: live_def filter_empty_conv)
  qed
  with inv show ?thesis by (auto simp: udp_inv_def table_inv_def gauge_ok_def maxUDPSessions_def)
qed

lemma map_of_filter_key: "key \<noteq> k \<Longrightarrow> map_of (filter (\<lambda>e. fst e \<noteq> k) xs) key = map_of xs key"
  by (induction xs) auto

text \<open>A packet opens a session only past the access lists of the current target, and below the limit; and the
  end of a session's backend loop never unlinks the session that has taken its place.\<close>

theorem udp_session_admitted:
  "length (uf_heap (snd (udp_lookup dial geo loaded port key addr f))) \<noteq> length (uf_heap f) \<Longrightarrow>
     target_allow (uf_target f) (addrIP addr) geo loaded \<and> length (uf_sessions f) < maxUDPSessions \<and>
     map_of (uf_sessions f) key = None \<and> dial (tg_addr (uf_target f))"
  by (auto simp: udp_lookup_def split: option.splits if_splits)

theorem udp_successor_stays:
  assumes "map_of (uf_sessions f) key = Some j" "j \<noteq> i"
  shows "map_of (uf_sessions (backend_unlink i f)) key = Some j"
  using assms by (cases "key = us_key (uf_heap f ! i)") (auto simp: backend_unlink_def Let_def map_of_filter_key)


definition open_target :: "unit stream_target" where
  "open_target = \<lparr>tg_name = ''dns'', tg_addr = ''10.0.0.8:53'', tg_acls = [], tg_tlsMode = [], tg_tlsConf = None\<rparr>"

definition one_session :: "unit udp_forwarder" where
  "one_session = snd (udp_lookup (\<lambda>_. True) None None 53 ''c'' NilAddr (startUDPForwarder open_target))"

theorem udp_table_bounded_gauge_exact_witness:
  "uf_gauge one_session ''dns'' = int (live ''dns'' (uf_heap one_session)) \<and> live ''dns'' (uf_heap one_session) = 1"
proof -
  have "udp_step (startUDPForwarder open_target) one_session"
    unfolding one_session_def by (rule step_lookup [OF prod.collapse [symmetric]])
  then have "udp_reachable one_session" by (rule reach_step [OF reach_start])
  moreover have "live ''dns'' (uf_heap one_session) = 1"
    by (simp add: one_session_def udp_lookup_def startUDPForwarder_def target_allow_def open_target_def maxUDPSessions_def live_def)
  ultimately show ?thesis using udp_table_bounded_gauge_exact [of one_session] by blast
qed

end
