(* ===== verification/Totp.thy ===== *)
theory Totp
  imports Net_Conn
begin

text \<open>
  Time-based one-time codes of the local admin (\<open>auth/totp.go\<close>): decoding the shared secret, the code of
  a time step, and the check over the accepted window.

  HMAC-SHA-1 is the argument \<open>hmac\<close> of key and message; what the code relies on is that it returns
  twenty bytes. Base 32 (\<open>encoding/base32\<close>, standard alphabet, no padding) is given as the standard
  library computes it, with its shifts on bytes.
\<close>

section \<open>Base 32\<close>

definition b32_val :: "char \<Rightarrow> byte option" where
  "b32_val c =
     (let b = byte_of c in
      if 65 \<le> b \<and> b \<le> 90 then Some (word_of_nat (b - 65))
      else if 50 \<le> b \<and> b \<le> 55 then Some (word_of_nat (b - 24))
      else None)"

definition b32_char :: "byte \<Rightarrow> char" where
  "b32_char v = (let n = unat v in if n < 26 then char_of (65 + n) else char_of (24 + n))"

text \<open>One block of up to eight values. A last block of one, three or six values gives no byte.\<close>

fun b32_block :: "byte list \<Rightarrow> byte list" where
  "b32_block [a, b] = [push_bit 3 a OR drop_bit 2 b]"
| "b32_block [a, b, c, d] = [push_bit 3 a OR drop_bit 2 b, push_bit 6 b OR push_bit 1 c OR drop_bit 4 d]"
| "b32_block [a, b, c, d, e] =
     [push_bit 3 a OR drop_bit 2 b, push_bit 6 b OR push_bit 1 c OR drop_bit 4 d, push_bit 4 d OR drop_bit 1 e]"
| "b32_block [a, b, c, d, e, f, g] =
     [push_bit 3 a OR drop_bit 2 b, push_bit 6 b OR push_bit 1 c OR drop_bit 4 d, push_bit 4 d OR drop_bit 1 e,
      push_bit 7 e OR push_bit 2 f OR drop_bit 3 g]"
| "b32_block [a, b, c, d, e, f, g, h] =
     [push_bit 3 a OR drop_bit 2 b, push_bit 6 b OR push_bit 1 c OR drop_bit 4 d, push_bit 4 d OR drop_bit 1 e,
      push_bit 7 e OR push_bit 2 f OR drop_bit 3 g, push_bit 5 g OR h]"
| "b32_block _ = []"

function b32_blocks :: "byte list \<Rightarrow> byte list" where
  "b32_blocks vs = (if vs = [] then [] else b32_block (take 8 vs) @ b32_blocks (drop 8 vs))"
  by pat_completeness auto

termination b32_blocks
  by (relation "measure length") auto

declare b32_blocks.simps [simp del]

definition b32_decode :: "string \<Rightarrow> byte list option" where
  "b32_decode s =
     (let vs = map b32_val s in if None \<in> set vs then None else Some (b32_blocks (map the vs)))"

text \<open>Encoding, for the lengths the program encodes: whole blocks of five bytes.\<close>

fun b32_encode :: "byte list \<Rightarrow> string" where
  "b32_encode (p # q # r # s # t # rest) =
     map b32_char
       [drop_bit 3 p, (push_bit 2 p OR drop_bit 6 q) AND 31, drop_bit 1 q AND 31, (push_bit 4 q OR drop_bit 4 r) AND 31,
        (push_bit 1 r OR drop_bit 7 s) AND 31, drop_bit 2 s AND 31, (push_bit 3 s OR drop_bit 5 t) AND 31, t AND 31] @
     b32_encode rest"
| "b32_encode _ = []"

section \<open>The secret\<close>

definition secret_blank :: "char \<Rightarrow> bool" where
  "secret_blank c \<longleftrightarrow> c = CHR '' '' \<or> c = CHR 0x09 \<or> c = CHR 0x0A \<or> c = CHR 0x0D \<or> c = CHR ''-''"

definition NormalizeTOTPSecret :: "string \<Rightarrow> byte list option" where
  "NormalizeTOTPSecret s =
     (let cleaned = ToUpper (trim_right (\<lambda>c. c = CHR ''='') (filter (\<lambda>c. \<not> secret_blank c) s)) in
      if cleaned = [] then None
      else case b32_decode cleaned of
        None \<Rightarrow> None
      | Some key \<Rightarrow> if length key < 10 then None else Some key)"

definition totpSecretBytes :: nat where "totpSecretBytes = 20"

text \<open>\<open>NewTOTPSecret\<close> on the twenty bytes the random source returned.\<close>

definition NewTOTPSecret :: "byte list option \<Rightarrow> string option" where
  "NewTOTPSecret rnd = map_option b32_encode rnd"

section \<open>Codes\<close>

definition totpDigits :: nat where "totpDigits = 6"
definition totpStep :: int where "totpStep = 30"
definition totpSkewSteps :: int where "totpSkewSteps = 1"

type_synonym hmac = "byte list \<Rightarrow> byte list \<Rightarrow> byte list"

definition PutUint64 :: "64 word \<Rightarrow> byte list" where
  "PutUint64 c = map (\<lambda>i. ucast (drop_bit (8 * (7 - i)) c)) [0..<8]"

definition Uint32 :: "byte list \<Rightarrow> 32 word" where
  "Uint32 b = push_bit 24 (ucast (b ! 0)) OR push_bit 16 (ucast (b ! 1)) OR push_bit 8 (ucast (b ! 2)) OR ucast (b ! 3)"

text \<open>\<open>fmt.Sprintf("%0*d", w, n)\<close>: the decimal number, padded with zeros on the left.\<close>

definition zero_pad :: "nat \<Rightarrow> nat \<Rightarrow> string" where
  "zero_pad w n = replicate (w - length (itoa n)) (CHR ''0'') @ itoa n"

definition TOTPCode :: "hmac \<Rightarrow> byte list \<Rightarrow> 64 word \<Rightarrow> string" where
  "TOTPCode hmac key counter =
     (let sum = hmac key (PutUint64 counter);
          offset = unat (last sum AND 0x0f);
          trunc = Uint32 (drop offset sum) AND 0x7fffffff
      in zero_pad totpDigits (unat trunc mod 10 ^ totpDigits))"

definition totpCounter :: "int \<Rightarrow> 64 word" where
  "totpCounter unix = (if unix < 0 then 0 else word_of_int (unix div totpStep))"

text \<open>The steps tried, in order: before, at and after the centre; the one before step zero is left out.\<close>

definition totp_steps :: "64 word \<Rightarrow> 64 word list" where
  "totp_steps c = (if c < 1 then [] else [c - 1]) @ [c, c + 1]"

definition verifyTOTP :: "hmac \<Rightarrow> byte list \<Rightarrow> string \<Rightarrow> int \<Rightarrow> 64 word option" where
  "verifyTOTP hmac key code0 now =
     (let code = TrimSpace code0 in
      if key = [] \<or> length code \<noteq> totpDigits then None
      else case filter (\<lambda>c. TOTPCode hmac key c = code) (totp_steps (totpCounter now)) of
        [] \<Rightarrow> None
      | cs \<Rightarrow> Some (last cs))"

section \<open>Properties\<close>

text \<open>Every code is six decimal digits, and the truncation never reads past the digest.\<close>

lemma digits_bound: "n < 10 ^ k \<Longrightarrow> 0 < k \<Longrightarrow> length (itoa n) \<le> k"
proof (induction n arbitrary: k rule: itoa.induct)
  case (1 n)
  show ?case
  proof (cases "n < 10")
    case False
    with 1(2) have "1 < k" by (cases k; cases "k - 1") auto
    then obtain j where j: "k = Suc j" "0 < j" by (cases k) auto
    have "n div 10 < 10 ^ j" using 1(2) j by (simp add: less_mult_imp_div_less mult.commute)
    with 1(1) [OF False, of j] j False show ?thesis by (simp add: itoa.simps [of n])
  qed (use 1(3) in \<open>simp add: itoa.simps [of n]\<close>)
qed

lemma TOTPCode_shape:
  "length (TOTPCode hmac key c) = 6" "list_all is_digit (TOTPCode hmac key c)"
proof -
  define n where "n = unat (Uint32 (drop (unat (last (hmac key (PutUint64 c)) AND 0x0f)) (hmac key (PutUint64 c))) AND 0x7fffffff) mod 10 ^ 6"
  have code: "TOTPCode hmac key c = replicate (6 - length (itoa n)) (CHR ''0'') @ itoa n"
    by (simp add: TOTPCode_def zero_pad_def totpDigits_def Let_def n_def)
  have "length (itoa n) \<le> 6" by (rule digits_bound) (simp_all add: n_def)
  then show "length (TOTPCode hmac key c) = 6" by (simp add: code)
  have "is_digit (CHR ''0'')" by (simp add: is_digit_def byte_of_def)
  then show "list_all is_digit (TOTPCode hmac key c)"
    using itoa_digits [of n] by (auto simp: code all_digits_def list_all_iff)
qed

lemma TrimSpace_digits:
  assumes "list_all is_digit s"
  shows "TrimSpace s = s"
proof -
  have "\<not> is_space c" if "c \<in> set s" for c
    using assms that by (auto simp: list_all_iff is_digit_def is_space_def)
  then have "trim_left is_space s = s" and "s = [] \<or> \<not> is_space (last s)"
    by (auto simp: trim_left_def dropWhile_eq_self_iff)
  then show ?thesis by (simp add: TrimSpace_def trim_right_id)
qed

lemma offset_in_digest:
  fixes hmac :: hmac
  assumes "length (hmac key m) = 20"
  shows "unat (last (hmac key m) AND 0x0f) + 4 \<le> length (hmac key m)"
proof -
  have "unat (x AND 0x0f :: byte) \<le> 15" for x :: byte
    using word_and_le1 [of x "0x0f"] by (simp add: word_le_nat_alt)
  from this [of "last (hmac key m)"] assms show ?thesis by simp
qed


text \<open>The steps the check accepts: the current one and its two neighbours.\<close>

definition near_step :: "int \<Rightarrow> 64 word \<Rightarrow> bool" where
  "near_step now c \<longleftrightarrow> c \<in> set (totp_steps (totpCounter now))"

lemma near_step_window:
  assumes "0 \<le> now" "now < 2 ^ 63"
  shows "near_step now c \<longleftrightarrow> \<bar>uint c - now div 30\<bar> \<le> 1"
proof -
  define k where "k = now div 30"
  have k: "0 \<le> k" "k < 2 ^ 62" using assms by (auto simp: k_def)
  have c0: "totpCounter now = word_of_int k" using assms by (simp add: totpCounter_def totpStep_def k_def)
  have u: "uint (word_of_int k :: 64 word) = k" using k by (simp add: uint_word_of_int)
  have up: "uint (word_of_int k + 1 :: 64 word) = k + 1"
    using k by (simp add: uint_word_ariths u)
  have down: "uint (word_of_int k - 1 :: 64 word) = k - 1" if "0 < k"
    using k that by (simp add: uint_word_ariths u)
  have zero: "(word_of_int k :: 64 word) < 1 \<longleftrightarrow> k = 0"
    using k u by (auto simp: word_less_def)
  have small: "uint c \<le> 1 \<Longrightarrow> uint c \<noteq> 1 \<Longrightarrow> uint c = 0" using uint_ge_0 [of c] by linarith
  have eq: "c = d \<longleftrightarrow> uint c = uint d" for d :: "64 word" by (simp add: word_uint_eq_iff)
  show ?thesis
    unfolding near_step_def totp_steps_def c0 k_def [symmetric]
    using zero u up down k uint_ge_0 [of c] small by (cases "k = 0") (auto simp: eq)
qed

text \<open>The one-time code check is exact. With a configured key, an answer \<open>Some c\<close> means that the trimmed
  input is the code of step \<open>c\<close>, which is the current thirty-second step or a neighbour of it; and the
  code of any of those steps is accepted. Every code is six digits.\<close>

theorem totp_check_exact:
  assumes "0 \<le> now" "now < 2 ^ 63" "key \<noteq> []"
  shows "(verifyTOTP hmac key code now = Some c \<longrightarrow> TrimSpace code = TOTPCode hmac key c \<and> \<bar>uint c - now div 30\<bar> \<le> 1) \<and>
    (\<bar>uint c - now div 30\<bar> \<le> 1 \<and> TrimSpace code = TOTPCode hmac key c \<longrightarrow> verifyTOTP hmac key code now \<noteq> None) \<and>
    length (TOTPCode hmac key c) = 6 \<and> list_all is_digit (TOTPCode hmac key c)"
proof -
  let ?hits = "filter (\<lambda>c. TOTPCode hmac key c = TrimSpace code) (totp_steps (totpCounter now))"
  have near: "\<bar>uint d - now div 30\<bar> \<le> 1 \<longleftrightarrow> d \<in> set (totp_steps (totpCounter now))" for d
    using near_step_window [OF assms(1,2), of d] by (simp add: near_step_def)
  have sound: "TrimSpace code = TOTPCode hmac key c \<and> \<bar>uint c - now div 30\<bar> \<le> 1" if "verifyTOTP hmac key code now = Some c"
  proof -
    have "c = last ?hits" "?hits \<noteq> []" using that by (auto simp: verifyTOTP_def Let_def split: if_splits list.splits)
    then have "c \<in> set ?hits" by (metis last_in_set)
    then show ?thesis by (simp add: near)
  qed
  have complete: "verifyTOTP hmac key code now \<noteq> None"
    if "\<bar>uint c - now div 30\<bar> \<le> 1" "TrimSpace code = TOTPCode hmac key c"
  proof -
    have "c \<in> set ?hits" using that by (simp add: near)
    then have "?hits \<noteq> []" by (metis empty_iff empty_set)
    with that(2) assms(3) TOTPCode_shape(1) [of hmac key c] show ?thesis
      by (auto simp: verifyTOTP_def Let_def totpDigits_def split: list.splits)
  qed
  from sound complete TOTPCode_shape show ?thesis by blast
qed

section \<open>Secrets survive being written down\<close>

lemma byte_bits:
  fixes x :: byte
  shows "bit (push_bit k x) n \<longleftrightarrow> k \<le> n \<and> n < 8 \<and> bit x (n - k)" "bit (drop_bit k x) n \<longleftrightarrow> bit x (k + n)"
    "bit (31 :: byte) n \<longleftrightarrow> n < 5" "8 \<le> n \<Longrightarrow> \<not> bit x n"
proof -
  have m: "(31 :: byte) = mask 5" by (simp add: mask_eq_exp_minus_1)
  show "bit (31 :: byte) n \<longleftrightarrow> n < 5" unfolding m by (auto simp: bit_mask_iff)
  show "8 \<le> n \<Longrightarrow> \<not> bit x n" using bit_imp_le_length [of x n] by auto
qed (simp_all add: bit_push_bit_iff bit_drop_bit_eq conj_commute conj_left_commute)

lemma byte_eqI: "(\<And>n. n \<in> {0, 1, 2, 3, 4, 5, 6, 7} \<Longrightarrow> bit x n \<longleftrightarrow> bit y n) \<Longrightarrow> x = (y :: byte)"
proof (rule bit_word_eqI)
  fix n
  assume *: "\<And>n. n \<in> {0, 1, 2, 3, 4, 5, 6, 7} \<Longrightarrow> bit x n \<longleftrightarrow> bit y n" and n: "n < LENGTH(8)"
  from n have "n \<in> {0, 1, 2, 3, 4, 5, 6, 7}" by auto
  then show "bit x n \<longleftrightarrow> bit y n" by (rule *)
qed

lemma block_roundtrip:
  fixes p q r s t :: byte
  shows "b32_block [drop_bit 3 p, (push_bit 2 p OR drop_bit 6 q) AND 31, drop_bit 1 q AND 31, (push_bit 4 q OR drop_bit 4 r) AND 31,
        (push_bit 1 r OR drop_bit 7 s) AND 31, drop_bit 2 s AND 31, (push_bit 3 s OR drop_bit 5 t) AND 31, t AND 31] = [p, q, r, s, t]"
  unfolding b32_block.simps list.inject
  by (intro conjI refl; rule byte_eqI; elim insertE emptyE; hypsubst;
      simp only: byte_bits(1,2,3) bit_or_iff bit_and_iff; simp add: byte_bits(4) eval_nat_numeral)


fun b32_values :: "byte list \<Rightarrow> byte list" where
  "b32_values (p # q # r # s # t # rest) =
     [drop_bit 3 p, (push_bit 2 p OR drop_bit 6 q) AND 31, drop_bit 1 q AND 31, (push_bit 4 q OR drop_bit 4 r) AND 31,
      (push_bit 1 r OR drop_bit 7 s) AND 31, drop_bit 2 s AND 31, (push_bit 3 s OR drop_bit 5 t) AND 31, t AND 31] @
     b32_values rest"
| "b32_values _ = []"

lemma b32_encode_values: "b32_encode bs = map b32_char (b32_values bs)"
  by (induction bs rule: b32_values.induct) simp_all

lemma b32_blocks_values: "length bs mod 5 = 0 \<Longrightarrow> b32_blocks (b32_values bs) = bs"
proof (induction bs rule: b32_values.induct)
  case (1 p q r s t rest)
  then show ?case
    using block_roundtrip [of p q r s t] by (subst b32_blocks.simps) (simp del: b32_block.simps)
qed (simp_all add: b32_blocks.simps)

lemma five_bits: "(x :: byte) AND 31 \<le> 31" "drop_bit 3 (x :: byte) \<le> 31"
proof -
  show "x AND 31 \<le> 31" by (rule word_and_le1)
  have "drop_bit 3 x = drop_bit 3 x AND 31"
    by (rule byte_eqI) (elim insertE emptyE; hypsubst; simp only: byte_bits(2,3) bit_and_iff; simp add: byte_bits(4))
  then show "drop_bit 3 x \<le> 31" using word_and_le1 [of "drop_bit 3 x" 31] by metis
qed

lemma b32_values_small: "v \<in> set (b32_values bs) \<Longrightarrow> v \<le> 31"
  by (induction bs rule: b32_values.induct) (auto simp: five_bits)

lemma b32_char_ok:
  assumes "v \<le> 31"
  shows "b32_val (b32_char v) = Some v" "to_upper_char (b32_char v) = b32_char v" "\<not> secret_blank (b32_char v)" "b32_char v \<noteq> CHR ''=''"
proof -
  have n: "unat v \<le> 31" using assms by (simp add: word_le_nat_alt)
  have b: "byte_of (b32_char v) = (if unat v < 26 then 65 + unat v else 24 + unat v)"
    using n by (auto simp: b32_char_def Let_def)
  show "b32_val (b32_char v) = Some v" using n by (auto simp: b32_val_def b Let_def)
  show "to_upper_char (b32_char v) = b32_char v" using n by (auto simp: to_upper_char_def b split: if_splits)
  have ne: "c \<noteq> b32_char v" if "byte_of c < 50 \<or> 56 \<le> byte_of c \<and> byte_of c < 65" for c
    using that n b by (auto split: if_splits)
  show "\<not> secret_blank (b32_char v)" "b32_char v \<noteq> CHR ''=''"
    using ne [of "CHR '' ''"] ne [of "CHR 0x09"] ne [of "CHR 0x0A"] ne [of "CHR 0x0D"] ne [of "CHR ''-''"] ne [of "CHR ''=''"]
    by (auto simp: secret_blank_def byte_of_def)
qed

text \<open>A generated secret decodes to its own bytes: whatever twenty bytes the random source gave, the text shown to
  the operator is accepted by \<open>NormalizeTOTPSecret\<close> and yields exactly that key, also with blanks and
  hyphens inserted or padding appended.\<close>

theorem totp_secret_roundtrip:
  assumes "length bs = totpSecretBytes" "filter (\<lambda>c. \<not> secret_blank c) s = b32_encode bs @ replicate n (CHR ''='')"
  shows "NormalizeTOTPSecret s = Some bs"
proof -
  let ?e = "b32_encode bs"
  have ok: "\<exists>v \<le> 31. x = b32_char v" if "x \<in> set ?e" for x
    using that b32_values_small by (auto simp: b32_encode_values)
  have ne: "b32_values bs \<noteq> []" using assms(1) b32_blocks_values [of bs] by (auto simp: totpSecretBytes_def b32_blocks.simps)
  have last: "last ?e \<noteq> CHR ''=''"
    using b32_values_small [OF last_in_set [OF ne]] ne by (simp add: b32_encode_values last_map b32_char_ok(4))
  have "dropWhile (\<lambda>c. c = CHR ''='') (replicate n (CHR ''='') @ rev ?e) = dropWhile (\<lambda>c. c = CHR ''='') (rev ?e)"
    by (induction n) simp_all
  also have "... = rev ?e" using last by (simp add: dropWhile_eq_self_iff hd_rev)
  finally have trim: "trim_right (\<lambda>c. c = CHR ''='') (filter (\<lambda>c. \<not> secret_blank c) s) = ?e"
    by (simp add: trim_right_def assms(2))
  have upper: "ToUpper ?e = ?e"
    unfolding ToUpper_def using ok b32_char_ok(2) by (intro map_idI) blast
  have vals: "map b32_val ?e = map Some (b32_values bs)"
    using b32_values_small b32_char_ok(1) by (auto simp: b32_encode_values)
  have "b32_decode ?e = Some bs"
    using b32_blocks_values [of bs] assms(1) by (auto simp: b32_decode_def Let_def vals comp_def totpSecretBytes_def)
  moreover have "?e \<noteq> []" using ne by (simp add: b32_encode_values)
  ultimately show ?thesis using assms(1) by (simp add: NormalizeTOTPSecret_def Let_def trim upper totpSecretBytes_def)
qed


definition flat_hmac :: hmac where
  "flat_hmac key m = replicate 20 7"

theorem totp_check_exact_witness:
  "length (flat_hmac [1] [2]) = 20 \<and> verifyTOTP flat_hmac [1] (TOTPCode flat_hmac [1] 2) 60 \<noteq> None"
proof -
  have "TrimSpace (TOTPCode flat_hmac [1] 2) = TOTPCode flat_hmac [1] 2"
    by (rule TrimSpace_digits [OF TOTPCode_shape(2)])
  then show ?thesis
    using totp_check_exact [of 60 "[1]" flat_hmac "TOTPCode flat_hmac [1] 2" 2] by (simp add: flat_hmac_def)
qed

theorem totp_secret_roundtrip_witness:
  "NormalizeTOTPSecret (b32_encode (replicate 20 0) @ ''-- ='') = Some (replicate 20 0)"
proof -
  have f: "filter (\<lambda>c. \<not> secret_blank c) (b32_encode (replicate 20 0)) = b32_encode (replicate 20 0)" by code_simp
  show ?thesis
    using totp_secret_roundtrip [of "replicate 20 0" "b32_encode (replicate 20 0) @ ''-- =''" 1]
    by (simp add: f totpSecretBytes_def) (simp add: secret_blank_def)
qed

end
