(* ===== verification/Admin_Session.thy ===== *)
theory Admin_Session
  imports Totp Auth_Gates
begin

text \<open>
  Authentication of the admin panel and its API: the session store (\<open>session/session.go\<close>,
  \<open>session/cookie.go\<close>), the choice of cookie attributes (\<open>auth/cookiesecure.go\<close>), API tokens and scopes
  (\<open>auth/apitoken.go\<close>) and the request side of \<open>auth/authenticator.go\<close> (\<open>RequireRole\<close> and what it calls).

  Times are in nanoseconds, as \<open>time.Time\<close>; a stored row keeps whole seconds. A request is served at one
  instant \<open>now\<close>. The session table is a partial function from ids, whose primary key makes an insert of a
  present id fail; random ids are arguments, \<^const>\<open>None\<close> for a failing random source. SHA-256 of a
  token secret is the argument \<open>sha\<close>. The token source is the list it would return now.
\<close>

section \<open>The session store\<close>

record session =
  ss_ID :: string
  ss_Subject :: string
  ss_Email :: string
  ss_Name :: string
  ss_Roles :: "string list"
  ss_IdP :: string
  ss_AMR :: "string list"
  ss_CSRF :: string
  ss_Created :: int
  ss_Expires :: int

type_synonym session_store = "string \<rightharpoonup> session"

definition unix :: "int \<Rightarrow> int" where
  "unix t = t div 10 ^ 9"

definition from_unix :: "int \<Rightarrow> int" where
  "from_unix s = s * 10 ^ 9"

text \<open>Ids are generated where unset; the row keeps seconds.\<close>

definition store_Create ::
  "string option \<Rightarrow> string option \<Rightarrow> int \<Rightarrow> session \<Rightarrow> session_store \<Rightarrow> (string + session) \<times> session_store" where
  "store_Create newID newCSRF now sess st =
     (case (if ss_ID sess = [] then newID else Some (ss_ID sess)) of
        None \<Rightarrow> (Inl ''generate id'', st)
      | Some i \<Rightarrow>
          (case (if ss_CSRF sess = [] then newCSRF else Some (ss_CSRF sess)) of
             None \<Rightarrow> (Inl ''generate csrf'', st)
           | Some csrf \<Rightarrow>
               (let s = sess\<lparr>ss_ID := i, ss_CSRF := csrf, ss_Created := (if ss_Created sess = 0 then now else ss_Created sess)\<rparr>
                in if st i \<noteq> None then (Inl ''insert'', st)
                   else (Inr s, st(i \<mapsto> s\<lparr>ss_Created := unix (ss_Created s), ss_Expires := unix (ss_Expires s)\<rparr>)))))"

definition store_Delete :: "string \<Rightarrow> session_store \<Rightarrow> session_store" where
  "store_Delete i st = st(i := None)"

definition store_Get :: "int \<Rightarrow> string \<Rightarrow> session_store \<Rightarrow> session option \<times> session_store" where
  "store_Get now i st =
     (case st i of
        None \<Rightarrow> (None, st)
      | Some row \<Rightarrow>
          if ss_Expires row \<le> unix now then (None, store_Delete i st)
          else (Some (row\<lparr>ss_Created := from_unix (ss_Created row), ss_Expires := from_unix (ss_Expires row)\<rparr>), st))"

definition store_Touch :: "string \<Rightarrow> int \<Rightarrow> session_store \<Rightarrow> session_store" where
  "store_Touch i expiresAt st =
     (case st i of None \<Rightarrow> st | Some row \<Rightarrow> st(i \<mapsto> row\<lparr>ss_Expires := unix expiresAt\<rparr>))"

definition store_GC :: "int \<Rightarrow> session_store \<Rightarrow> session_store" where
  "store_GC now st = (\<lambda>i. case st i of None \<Rightarrow> None | Some row \<Rightarrow> if ss_Expires row \<le> unix now then None else Some row)"

record set_cookie =
  sc_Name :: string
  sc_Value :: string
  sc_Secure :: bool
  sc_MaxAge :: int

definition SetSessionCookie :: "int \<Rightarrow> string \<Rightarrow> string \<Rightarrow> int \<Rightarrow> bool \<Rightarrow> set_cookie" where
  "SetSessionCookie now name i expires secure =
     \<lparr>sc_Name = name, sc_Value = i, sc_Secure = secure, sc_MaxAge = max 0 ((expires - now) div 10 ^ 9)\<rparr>"

definition ClearSessionCookie :: "string \<Rightarrow> bool \<Rightarrow> set_cookie" where
  "ClearSessionCookie name secure = \<lparr>sc_Name = name, sc_Value = [], sc_Secure = secure, sc_MaxAge = -1\<rparr>"

section \<open>State\<close>

datatype cookie_secure_mode = CookieSecureAuto | CookieSecureAlways | CookieSecureNever

definition ParseCookieSecureMode :: "string \<Rightarrow> cookie_secure_mode option" where
  "ParseCookieSecureMode s0 =
     (let s = ToLower (TrimSpace s0) in
      if s \<in> {[], ''auto''} then Some CookieSecureAuto
      else if s \<in> {''1'', ''true'', ''yes'', ''on''} then Some CookieSecureAlways
      else if s \<in> {''0'', ''false'', ''no'', ''off''} then Some CookieSecureNever
      else None)"

record admin_auth_settings =
  aas_Providers :: "string list"
  aas_LocalLoginEnabled :: bool
  aas_SSOOnly :: bool

record pending_login =
  pl_idp :: string
  pl_nonce :: string
  pl_verifier :: string
  pl_returnTo :: string
  pl_expires :: int
  pl_totpUser :: string

record 'c authenticator =
  au_store :: session_store
  au_cookieName :: string
  au_secureMode :: cookie_secure_mode
  au_sessionTTL :: int
  au_localUser :: string
  au_localHash :: string
  au_TOTPSecret :: string
  au_TOTPKey :: "byte list"
  au_otpLast :: "string \<rightharpoonup> 64 word"
  au_baseURL :: string
  au_idps :: "string \<rightharpoonup> identity_provider"
  au_settings :: admin_auth_settings
  au_clients :: "string \<rightharpoonup> 'c"
  au_tokenSource :: "api_token list option"
  au_tokenCache :: "api_token list option"
  au_tokenUse :: "(string \<times> int) list"
  au_pending :: "(string \<times> pending_login) list"
  au_loginGate :: gate
  au_userGate :: gate
  au_pendingGate :: gate
  au_insecureWarn :: "int option"

definition au_secureCookieName :: "'c authenticator \<Rightarrow> string" where
  "au_secureCookieName a = ''__Host-'' @ au_cookieName a"

section \<open>Secure cookies\<close>

definition forwardedHTTPS :: "trusted_global \<Rightarrow> http_request \<Rightarrow> bool" where
  "forwardedHTTPS g r =
     (case PeerIP r of
        None \<Rightarrow> False
      | Some peer \<Rightarrow>
          InNets peer (Trusted g) \<and> ToLower (TrimSpace (before (CHR '','') (hdr_Get (Header r) ''X-Forwarded-Proto''))) = ''https'')"

definition secureFor :: "trusted_global \<Rightarrow> 'c authenticator \<Rightarrow> http_request \<Rightarrow> bool" where
  "secureFor g a r =
     (case au_secureMode a of
        CookieSecureAlways \<Rightarrow> True
      | CookieSecureNever \<Rightarrow> False
      | CookieSecureAuto \<Rightarrow>
          TLS r \<noteq> None \<or> forwardedHTTPS g r \<or> prefix ''https://'' (ToLower (TrimSpace (au_baseURL a))))"

definition IsLoopback :: "ip \<Rightarrow> bool" where
  "IsLoopback a = (case To4 a of Some b \<Rightarrow> b ! 0 = 127 | None \<Rightarrow> a = replicate 15 0 @ [1])"

definition IsPrivate :: "ip \<Rightarrow> bool" where
  "IsPrivate a =
     (case To4 a of
        Some b \<Rightarrow> b ! 0 = 10 \<or> (b ! 0 = 172 \<and> b ! 1 AND 0xf0 = 16) \<or> (b ! 0 = 192 \<and> b ! 1 = 168)
      | None \<Rightarrow> length a = 16 \<and> a ! 0 AND 0xfe = 0xfc)"

definition IsLinkLocalUnicast :: "ip \<Rightarrow> bool" where
  "IsLinkLocalUnicast a =
     (case To4 a of
        Some b \<Rightarrow> b ! 0 = 169 \<and> b ! 1 = 254
      | None \<Rightarrow> length a = 16 \<and> a ! 0 = 0xfe \<and> a ! 1 AND 0xc0 = 0x80)"

definition privateClient :: "trusted_global \<Rightarrow> http_request \<Rightarrow> bool" where
  "privateClient g r =
     (case fst (Derive r (Trusted g)) of None \<Rightarrow> False | Some i \<Rightarrow> IsLoopback i \<or> IsPrivate i \<or> IsLinkLocalUnicast i)"

definition insecureWarnEvery :: int where "insecureWarnEvery = 3600 * 10 ^ 9"

definition insecureWarner_allow :: "int \<Rightarrow> int option \<Rightarrow> bool \<times> int option" where
  "insecureWarner_allow now w =
     (case w of Some l \<Rightarrow> if now - l < insecureWarnEvery then (False, w) else (True, Some now) | None \<Rightarrow> (True, Some now))"

text \<open>The decision when a cookie is issued; in auto mode a public client's insecure cookie is worth a warning.\<close>

definition cookieSecure :: "trusted_global \<Rightarrow> int \<Rightarrow> http_request \<Rightarrow> 'c authenticator \<Rightarrow> bool \<times> 'c authenticator" where
  "cookieSecure g now r a =
     (if \<not> secureFor g a r \<and> au_secureMode a = CookieSecureAuto \<and> \<not> privateClient g r
      then (False, a\<lparr>au_insecureWarn := snd (insecureWarner_allow now (au_insecureWarn a))\<rparr>)
      else (secureFor g a r, a))"

definition CookieSecureState :: "trusted_global \<Rightarrow> 'c authenticator \<Rightarrow> http_request \<Rightarrow> string" where
  "CookieSecureState g a r =
     (if secureFor g a r then ''secure'' else if privateClient g r then ''insecure-private'' else ''insecure-public'')"

section \<open>Principals, roles and scopes\<close>

record principal =
  pr_Subject :: string
  pr_Email :: string
  pr_Name :: string
  pr_Role :: string
  pr_IdP :: string
  pr_SessionID :: string
  pr_CSRF :: string
  pr_IsToken :: bool
  pr_Scopes :: "string list"
  pr_ReadOnly :: bool

definition principalOf :: "session \<Rightarrow> principal" where
  "principalOf s =
     (let role = (case ss_Roles s of [] \<Rightarrow> [] | r # rs \<Rightarrow> r) in
      \<lparr>pr_Subject = ss_Subject s, pr_Email = ss_Email s, pr_Name = ss_Name s, pr_Role = role, pr_IdP = ss_IdP s,
       pr_SessionID = ss_ID s, pr_CSRF = ss_CSRF s, pr_IsToken = False, pr_Scopes = [], pr_ReadOnly = (role = ''user'')\<rparr>)"

definition safeMethod :: "string \<Rightarrow> bool" where
  "safeMethod m \<longleftrightarrow> m \<in> {''GET'', ''HEAD'', ''OPTIONS''}"

definition csrfTokenValid :: "http_request \<Rightarrow> string \<Rightarrow> bool" where
  "csrfTokenValid r want \<longleftrightarrow> want \<noteq> [] \<and> hdr_Get (Header r) ''X-CSRF-Token'' = want"

definition roleSatisfies :: "string \<Rightarrow> string \<Rightarrow> bool" where
  "roleSatisfies have_role min_role \<longleftrightarrow>
     (if min_role = ''user'' then have_role = ''user'' \<or> have_role = ''admin''
      else if min_role = ''admin'' then have_role = ''admin'' else False)"

definition ReadOnlyRoleScopes :: "string list" where "ReadOnlyRoleScopes = [''*:read'']"
definition ReadOnlyRoleExcludedSubjects :: "string list" where "ReadOnlyRoleExcludedSubjects = [''api-tokens'']"

definition readOnlyRoleExcludes :: "string \<Rightarrow> bool" where
  "readOnlyRoleExcludes required \<longleftrightarrow> list_ex (\<lambda>s. prefix (s @ '':'') required) ReadOnlyRoleExcludedSubjects"

definition RoleScopes :: "string \<Rightarrow> string list option" where
  "RoleScopes role = (if role = ''user'' then Some ReadOnlyRoleScopes else None)"

text \<open>\<open>RequireScope\<close>: \<^const>\<open>True\<close> where the code returns no error.\<close>

definition RequireScope :: "principal \<Rightarrow> string \<Rightarrow> bool" where
  "RequireScope p required =
     (if pr_Role p = ''user'' \<and> readOnlyRoleExcludes required then False
      else if (case RoleScopes (pr_Role p) of None \<Rightarrow> False | Some rs \<Rightarrow> \<not> ScopeSatisfied rs required) then False
      else if \<not> pr_IsToken p then True
      else ScopeSatisfied (pr_Scopes p) required)"

section \<open>API tokens\<close>

definition TokenPrefix :: string where "TokenPrefix = ''gpm_''"
definition maxTrackedTokenUses :: nat where "maxTrackedTokenUses = 4096"

definition InvalidateTokenCache :: "'c authenticator \<Rightarrow> 'c authenticator" where
  "InvalidateTokenCache a = a\<lparr>au_tokenCache := None\<rparr>"

definition SetTokenSource :: "api_token list option \<Rightarrow> 'c authenticator \<Rightarrow> 'c authenticator" where
  "SetTokenSource src a = InvalidateTokenCache (a\<lparr>au_tokenSource := src\<rparr>)"

definition currentTokens :: "'c authenticator \<Rightarrow> api_token list option \<times> 'c authenticator" where
  "currentTokens a =
     (case au_tokenSource a of
        None \<Rightarrow> (None, a)
      | Some src \<Rightarrow>
          (case au_tokenCache a of Some ts \<Rightarrow> (Some ts, a) | None \<Rightarrow> (Some src, a\<lparr>au_tokenCache := Some src\<rparr>)))"

definition noteTokenUse :: "int \<Rightarrow> string \<Rightarrow> 'c authenticator \<Rightarrow> 'c authenticator" where
  "noteTokenUse now name a =
     (if map_of (au_tokenUse a) name = None \<and> maxTrackedTokenUses \<le> length (au_tokenUse a) then a
      else a\<lparr>au_tokenUse := AList.update name now (au_tokenUse a)\<rparr>)"

definition bearerTokenSecret :: "http_request \<Rightarrow> string option" where
  "bearerTokenSecret r =
     (let h = hdr_Get (Header r) ''Authorization'' in
      if length h < 7 \<or> ToLower (take 7 h) \<noteq> ''bearer '' then None
      else let v = TrimSpace (drop 7 h) in if prefix TokenPrefix v then Some v else None)"

definition token_principal :: "api_token \<Rightarrow> principal" where
  "token_principal t =
     \<lparr>pr_Subject = ''token:'' @ tok_Name t, pr_Email = [], pr_Name = tok_Name t, pr_Role = ''admin'', pr_IdP = ''api-token'',
      pr_SessionID = [], pr_CSRF = [], pr_IsToken = True, pr_Scopes = tok_Scopes t, pr_ReadOnly = False\<rparr>"

definition authenticateToken ::
  "(string \<Rightarrow> string) \<Rightarrow> int \<Rightarrow> string \<Rightarrow> 'c authenticator \<Rightarrow> principal option \<times> 'c authenticator" where
  "authenticateToken sha now secret a =
     (case currentTokens a of
        (None, a1) \<Rightarrow> (None, a1)
      | (Some tokens, a1) \<Rightarrow>
          (case find (\<lambda>t. \<not> tok_Disabled t \<and> TokenHash t \<noteq> [] \<and> \<not> token_Expired t now \<and> TokenHash t = sha secret) tokens of
             None \<Rightarrow> (None, a1)
           | Some t \<Rightarrow> (Some (token_principal t), noteTokenUse now (tok_Name t) a1)))"

section \<open>Requests\<close>

definition sessionCookie :: "'c authenticator \<Rightarrow> http_request \<Rightarrow> (string \<times> bool) option" where
  "sessionCookie a r =
     (case req_Cookie r (au_secureCookieName a) of
        Some v \<Rightarrow> Some (v, True)
      | None \<Rightarrow> map_option (\<lambda>v. (v, False)) (req_Cookie r (au_cookieName a)))"

definition cookieNameFor :: "'c authenticator \<Rightarrow> bool \<Rightarrow> string" where
  "cookieNameFor a secure = (if secure then au_secureCookieName a else au_cookieName a)"

text \<open>Sliding expiry: the cookies set and the new state.\<close>

definition maybeSlide :: "int \<Rightarrow> session \<Rightarrow> bool \<Rightarrow> 'c authenticator \<Rightarrow> set_cookie list \<times> 'c authenticator" where
  "maybeSlide now sess secure a =
     (let rem = ss_Expires sess - now in
      if rem \<le> 0 \<or> au_sessionTTL a div 2 < rem then ([], a)
      else let newExp = now + au_sessionTTL a
           in ([SetSessionCookie now (cookieNameFor a secure) (ss_ID sess) newExp secure],
               a\<lparr>au_store := store_Touch (ss_ID sess) newExp (au_store a)\<rparr>))"

definition admin_authenticate ::
  "(string \<Rightarrow> string) \<Rightarrow> trusted_global \<Rightarrow> int \<Rightarrow> http_request \<Rightarrow> 'c authenticator \<Rightarrow>
   principal option \<times> set_cookie list \<times> 'c authenticator" where
  "admin_authenticate sha g now r a =
     (case bearerTokenSecret r of
        Some secret \<Rightarrow> (case authenticateToken sha now secret a of (p, a1) \<Rightarrow> (p, [], a1))
      | None \<Rightarrow>
          (case sessionCookie a r of
             None \<Rightarrow> (None, [], a)
           | Some (v, hostPrefixed) \<Rightarrow>
               if hostPrefixed \<and> \<not> secureFor g a r then (None, [], a)
               else (case store_Get now v (au_store a) of (s, st) \<Rightarrow>
                 (let a1 = a\<lparr>au_store := st\<rparr> in
                  case s of
                    None \<Rightarrow> (None, [], a1)
                  | Some sess \<Rightarrow>
                      if ss_CSRF sess = [] then (None, [], a1)
                      else (case maybeSlide now sess (secureFor g a r) a1 of (cs, a2) \<Rightarrow> (Some (principalOf sess), cs, a2))))))"

datatype admin_verdict = Admin_Unauthorized | Admin_Forbidden | Admin_Pass principal

definition RequireRole ::
  "(string \<Rightarrow> string) \<Rightarrow> trusted_global \<Rightarrow> int \<Rightarrow> string \<Rightarrow> http_request \<Rightarrow> 'c authenticator \<Rightarrow>
   admin_verdict \<times> set_cookie list \<times> 'c authenticator" where
  "RequireRole sha g now min_role r a =
     (case admin_authenticate sha g now r a of
        (None, cs, a1) \<Rightarrow> (Admin_Unauthorized, cs, a1)
      | (Some p, cs, a1) \<Rightarrow>
          if \<not> roleSatisfies (pr_Role p) min_role then (Admin_Unauthorized, cs, a1)
          else if \<not> pr_IsToken p \<and> \<not> safeMethod (Method r) \<and> \<not> csrfTokenValid r (pr_CSRF p) then (Admin_Forbidden, cs, a1)
          else (Admin_Pass p, cs, a1))"

definition Logout :: "http_request \<Rightarrow> 'c authenticator \<Rightarrow> set_cookie list \<times> 'c authenticator" where
  "Logout r a =
     ([ClearSessionCookie (au_cookieName a) False, ClearSessionCookie (au_secureCookieName a) True],
      case sessionCookie a r of None \<Rightarrow> a | Some (v, h) \<Rightarrow> a\<lparr>au_store := store_Delete v (au_store a)\<rparr>)"

text \<open>The guard in front of every route: \<open>sameOriginGuard\<close> and \<open>originOK\<close> of \<open>server/authhttp.go\<close>. The host of a
  parsed Origin is the argument \<open>origin_host\<close> (\<open>net/url\<close>).\<close>

definition originOK :: "(string \<Rightarrow> string option) \<Rightarrow> http_request \<Rightarrow> bool" where
  "originOK origin_host r =
     (let site = hdr_Get (Header r) ''Sec-Fetch-Site'' in
      if site \<in> {''same-origin'', ''none''} then True
      else if site \<in> {''same-site'', ''cross-site''} then False
      else let o' = hdr_Get (Header r) ''Origin'' in
        if o' = [] then True
        else case origin_host o' of None \<Rightarrow> False | Some h \<Rightarrow> ToLower h = ToLower (Host r))"

definition sameOriginGuard :: "(string \<Rightarrow> string option) \<Rightarrow> http_request \<Rightarrow> bool" where
  "sameOriginGuard origin_host r \<longleftrightarrow> safeMethod (Method r) \<or> originOK origin_host r"

section \<open>Properties of the store\<close>

text \<open>A created session is found under its id, with its times cut to whole seconds, until the second of its expiry
  and never from then on; other ids are not affected.\<close>

lemma store_Create_Inr:
  assumes "store_Create newID newCSRF now sess st = (Inr s, st')"
  shows "st (ss_ID s) = None" "st' = st(ss_ID s \<mapsto> s\<lparr>ss_Created := unix (ss_Created s), ss_Expires := unix (ss_Expires s)\<rparr>)"
    "ss_Roles s = ss_Roles sess" "ss_Subject s = ss_Subject sess" "ss_IdP s = ss_IdP sess" "ss_AMR s = ss_AMR sess"
    "ss_Expires s = ss_Expires sess"
  using assms by (auto simp: store_Create_def Let_def split: option.splits if_splits)

lemma store_Create_Inl: "store_Create newID newCSRF now sess st = (Inl e, st') \<Longrightarrow> st' = st"
  by (auto simp: store_Create_def Let_def split: option.splits if_splits)

theorem session_create_get:
  assumes "store_Create newID newCSRF now sess st = (Inr s, st')"
  shows "fst (store_Get t (ss_ID s) st') =
    (if unix t < unix (ss_Expires s)
     then Some (s\<lparr>ss_Created := from_unix (unix (ss_Created s)), ss_Expires := from_unix (unix (ss_Expires s))\<rparr>) else None)"
    and "j \<noteq> ss_ID s \<Longrightarrow> st' j = st j"
  using store_Create_Inr [OF assms] by (auto simp: store_Get_def)

section \<open>Who passes\<close>

definition live_token :: "(string \<Rightarrow> string) \<Rightarrow> int \<Rightarrow> 'c authenticator \<Rightarrow> http_request \<Rightarrow> principal \<Rightarrow> bool" where
  "live_token sha now a r p \<longleftrightarrow>
     (\<exists>secret t src. bearerTokenSecret r = Some secret \<and> au_tokenSource a = Some src \<and>
        t \<in> set (case au_tokenCache a of Some ts \<Rightarrow> ts | None \<Rightarrow> src) \<and>
        \<not> tok_Disabled t \<and> \<not> token_Expired t now \<and> TokenHash t = sha secret \<and> p = token_principal t)"

definition live_cookie :: "trusted_global \<Rightarrow> int \<Rightarrow> 'c authenticator \<Rightarrow> http_request \<Rightarrow> principal \<Rightarrow> bool" where
  "live_cookie g now a r p \<longleftrightarrow>
     (\<exists>v hostPrefixed row. bearerTokenSecret r = None \<and> sessionCookie a r = Some (v, hostPrefixed) \<and> au_store a v = Some row \<and>
        unix now < ss_Expires row \<and> (hostPrefixed \<longrightarrow> secureFor g a r) \<and> ss_CSRF row \<noteq> [] \<and> p = principalOf row)"

lemma principalOf_times [simp]: "principalOf (row\<lparr>ss_Created := c, ss_Expires := e\<rparr>) = principalOf row"
  by (simp add: principalOf_def)

lemma principalOf_fields [simp]: "\<not> pr_IsToken (principalOf s)" "pr_CSRF (principalOf s) = ss_CSRF s"
  by (simp_all add: principalOf_def Let_def)

lemma authenticateToken_live:
  assumes "authenticateToken sha now secret a = (Some p, a')"
  shows "\<exists>t src. au_tokenSource a = Some src \<and> t \<in> set (case au_tokenCache a of Some ts \<Rightarrow> ts | None \<Rightarrow> src) \<and>
     \<not> tok_Disabled t \<and> \<not> token_Expired t now \<and> TokenHash t = sha secret \<and> p = token_principal t"
  using assms
  by (auto simp: authenticateToken_def currentTokens_def split: option.splits dest!: find_SomeD)

lemma admin_authenticate_live:
  assumes "admin_authenticate sha g now r a = (Some p, cs, a')"
  shows "live_token sha now a r p \<or> live_cookie g now a r p"
proof (cases "bearerTokenSecret r")
  case (Some secret)
  with assms have "authenticateToken sha now secret a = (Some p, a')"
    by (auto simp: admin_authenticate_def split: prod.splits)
  from authenticateToken_live [OF this] Some show ?thesis by (auto simp: live_token_def)
next
  case None
  with assms show ?thesis
    by (auto simp: admin_authenticate_def live_cookie_def store_Get_def Let_def split: option.splits prod.splits if_splits)
qed


text \<open>C31: An admin route runs only for a live credential. When the role gate passes a request, its principal satisfies the
  route's role and is either that of an enabled, unexpired API token whose digest the presented secret has, or
  that of an unexpired session the request's cookie names, never a Secure-only cookie on a channel that is
  not secure; and a session's state-changing request carries that session's own CSRF token. A presented
  API token never falls back to the cookie.\<close>

theorem admin_pass_justified:
  assumes "RequireRole sha g now min_role r a = (Admin_Pass p, cs, a')"
  shows "roleSatisfies (pr_Role p) min_role \<and>
    (live_token sha now a r p \<or>
     live_cookie g now a r p \<and> (safeMethod (Method r) \<or> pr_CSRF p \<noteq> [] \<and> hdr_Get (Header r) ''X-CSRF-Token'' = pr_CSRF p))"
proof -
  obtain cs1 a1 where auth: "admin_authenticate sha g now r a = (Some p, cs1, a1)"
    and role: "roleSatisfies (pr_Role p) min_role"
    and csrf: "pr_IsToken p \<or> safeMethod (Method r) \<or> csrfTokenValid r (pr_CSRF p)"
    using assms by (auto simp: RequireRole_def split: option.splits prod.splits if_splits)
  have "\<not> pr_IsToken p" if "live_cookie g now a r p"
    using that by (auto simp: live_cookie_def)
  with admin_authenticate_live [OF auth] role csrf show ?thesis by (auto simp: csrfTokenValid_def)
qed

lemma before_after_split: "c \<in> set s \<Longrightarrow> s = before c s @ c # after c s"
proof -
  assume "c \<in> set s"
  then obtain u v where s: "s = u @ c # v" "c \<notin> set u" by (meson split_list_first)
  then show ?thesis by (simp add: before_append after_append)
qed

text \<open>The read-only role reads and nothing else: what a principal of role \<open>user\<close> may do is a read of some subject other
  than the API tokens, whether it comes with a session or with a token of any scopes.\<close>

theorem read_only_role_reads:
  assumes "RequireScope p required" "pr_Role p = ''user''"
  shows "\<exists>subject. required = subject @ '':read'' \<and> subject \<noteq> ''api-tokens''"
proof -
  have nr: "\<not> prefix ''api-tokens:'' required"
    using assms by (auto simp: RequireScope_def readOnlyRoleExcludes_def ReadOnlyRoleExcludedSubjects_def)
  have sat: "ScopeSatisfied [''*:read''] required"
    using assms by (auto simp: RequireScope_def RoleScopes_def ReadOnlyRoleScopes_def split: if_splits)
  have star: "splitScope ''*:read'' = Some (''*'', ''read'')" by code_simp
  obtain p v where raw: "splitScopeRaw required = Some (p, v)" and v: "v = ''read''"
    using sat star by (auto simp: ScopeSatisfied_def splitScope_def split: if_splits option.splits)
  then have "CHR '':'' \<in> set required" "p = before (CHR '':'') required" "after (CHR '':'') required = ''read''"
    by (auto simp: splitScopeRaw_def Let_def split: if_splits)
  then have "required = p @ '':read''" using before_after_split [of "CHR '':''" required] by simp
  moreover from this nr have "p \<noteq> ''api-tokens''" by (auto simp: prefix_def)
  ultimately show ?thesis by blast
qed

text \<open>Logging out ends the session: the id is gone from the store, so no request with its cookie passes as a session
  until an insert of the same id, and both cookies are cleared.\<close>

theorem logout_ends_session:
  assumes "sessionCookie a r = Some (v, h)" "Logout r a = (cs, a')" "bearerTokenSecret r' = None"
    and "sessionCookie a' r' = Some (v, h')"
  shows "fst (RequireRole sha g now min_role r' a') = Admin_Unauthorized \<and> map sc_MaxAge cs = [-1, -1]"
  using assms
  by (auto simp: Logout_def RequireRole_def admin_authenticate_def store_Get_def store_Delete_def ClearSessionCookie_def Let_def
      split: if_splits)

text \<open>A token disabled in the configuration stops with the reload that invalidates the cache.\<close>

theorem disabled_token_stops:
  assumes "bearerTokenSecret r = Some secret" "list_all (\<lambda>t. TokenHash t = sha secret \<longrightarrow> tok_Disabled t) ts"
  shows "fst (RequireRole sha g now min_role r (SetTokenSource (Some ts) a)) = Admin_Unauthorized"
proof -
  let ?a = "SetTokenSource (Some ts) a"
  obtain v cs a' where r: "RequireRole sha g now min_role r ?a = (v, cs, a')" by (metis prod.exhaust)
  have "v \<noteq> Admin_Pass p" for p
  proof
    assume "v = Admin_Pass p"
    with r have "live_token sha now ?a r p \<or> live_cookie g now ?a r p"
      by (auto simp: RequireRole_def split: option.splits prod.splits if_splits dest: admin_authenticate_live)
    with assms show False
      by (auto simp: live_token_def live_cookie_def SetTokenSource_def InvalidateTokenCache_def list_all_iff)
  qed
  moreover have "v \<noteq> Admin_Forbidden"
  proof
    assume "v = Admin_Forbidden"
    with r obtain p cs1 a1 where "admin_authenticate sha g now r ?a = (Some p, cs1, a1)"
      by (auto simp: RequireRole_def split: option.splits prod.splits if_splits)
    from admin_authenticate_live [OF this] assms show False
      by (auto simp: live_token_def live_cookie_def SetTokenSource_def InvalidateTokenCache_def list_all_iff)
  qed
  ultimately show ?thesis using r by (cases v) auto
qed

section \<open>An example panel\<close>

definition demo_panel :: "unit authenticator" where
  "demo_panel =
     \<lparr>au_store = Map.empty, au_cookieName = ''s'', au_secureMode = CookieSecureAuto, au_sessionTTL = 3600, au_localUser = [],
      au_localHash = [], au_TOTPSecret = [], au_TOTPKey = [], au_otpLast = Map.empty, au_baseURL = [], au_idps = Map.empty,
      au_settings = \<lparr>aas_Providers = [], aas_LocalLoginEnabled = False, aas_SSOOnly = False\<rparr>, au_clients = Map.empty,
      au_tokenSource = Some [\<lparr>tok_Name = ''ci'', tok_Disabled = False, TokenHash = ''gpm_x'', tok_Scopes = [''*:read''], ExpiresAt = None\<rparr>],
      au_tokenCache = None, au_tokenUse = [], au_pending = [], au_loginGate = newRateGate 1 1 1, au_userGate = newRateGate 1 1 1,
      au_pendingGate = newRateGate 1 1 1, au_insecureWarn = None\<rparr>"

definition demo_token_request :: http_request where
  "demo_token_request =
     \<lparr>RemoteAddr = ''192.0.2.1:1'', Host = ''panel'', Method = ''GET'', url_Path = ''/api'', url_RawQuery = [],
      Header = Map.empty(''Authorization'' \<mapsto> [''Bearer gpm_x'']), TLS = None, ctx_clientIP = None\<rparr>"

theorem admin_pass_justified_witness:
  "\<exists>p cs a'. RequireRole (\<lambda>s. s) None 0 ''admin'' demo_token_request demo_panel = (Admin_Pass p, cs, a') \<and>
     live_token (\<lambda>s. s) 0 demo_panel demo_token_request p"
proof -
  have b: "bearerTokenSecret demo_token_request = Some ''gpm_x''" by code_simp
  then have "\<exists>p cs a'. RequireRole (\<lambda>s. s) None 0 ''admin'' demo_token_request demo_panel = (Admin_Pass p, cs, a')"
    by (simp add: RequireRole_def admin_authenticate_def authenticateToken_def currentTokens_def demo_panel_def token_Expired_def
        token_principal_def roleSatisfies_def)
  then obtain p cs a' where r: "RequireRole (\<lambda>s. s) None 0 ''admin'' demo_token_request demo_panel = (Admin_Pass p, cs, a')" by blast
  have "\<not> live_cookie None 0 demo_panel demo_token_request p" using b by (simp add: live_cookie_def)
  with admin_pass_justified [OF r] r show ?thesis by blast
qed

theorem read_only_role_reads_witness:
  "RequireScope \<lparr>pr_Subject = [], pr_Email = [], pr_Name = [], pr_Role = ''user'', pr_IdP = [], pr_SessionID = [], pr_CSRF = [],
     pr_IsToken = False, pr_Scopes = [], pr_ReadOnly = True\<rparr> ''proxy-hosts:read'' \<and>
   (\<exists>subject. ''proxy-hosts:read'' = subject @ '':read'' \<and> subject \<noteq> ''api-tokens'')"
proof -
  let ?p = "\<lparr>pr_Subject = [], pr_Email = [], pr_Name = [], pr_Role = ''user'', pr_IdP = [], pr_SessionID = [], pr_CSRF = [],
     pr_IsToken = False, pr_Scopes = [], pr_ReadOnly = True\<rparr>"
  have "RequireScope ?p ''proxy-hosts:read''" by code_simp
  with read_only_role_reads [of ?p "''proxy-hosts:read''"] show ?thesis by simp
qed

end
