(* ===== verification/Admin_Login.thy ===== *)
theory Admin_Login
  imports Admin_Session
begin

text \<open>
  Logging in to the admin panel: OIDC and local login with its second factor (\<open>auth/authenticator.go\<close>) and the
  HTTP handlers in front of them (\<open>server/authhttp.go\<close>).

  What the login relies on is the environment \<open>admin_env\<close>: bcrypt, HMAC-SHA-1, the resolution of a client
  secret, and the OIDC client of \<open>internal/oidc\<close> (a third-party library and the network): building one,
  its authorisation URL and the exchange of a code for verified claims. Random values are arguments. A page is
  modelled by its status, the return path and the user name it keeps; the wording of its message is not.
\<close>

record admin_claims =
  ac_Subject :: string
  ac_Email :: string
  ac_Name :: string
  ac_Groups :: "string list"
  ac_AMR :: "string list"

record 'c admin_env =
  ae_bcrypt :: "string \<Rightarrow> string \<Rightarrow> bool"
  ae_hmac :: hmac
  ae_secret :: "string \<Rightarrow> string option"
  ae_client :: "identity_provider \<Rightarrow> string \<Rightarrow> string \<Rightarrow> 'c option"
  ae_url :: "'c \<Rightarrow> string \<Rightarrow> string \<Rightarrow> string \<Rightarrow> string"
  ae_exchange :: "'c \<Rightarrow> string \<Rightarrow> string \<Rightarrow> string \<Rightarrow> admin_claims option"

definition minutes :: "int \<Rightarrow> int" where "minutes n = n * 60 * 10 ^ 9"

definition maxLoginFails :: nat where "maxLoginFails = 5"
definition maxUserLoginFails :: nat where "maxUserLoginFails = 20"
definition maxLoginGates :: nat where "maxLoginGates = 4096"
definition maxUserLoginGates :: nat where "maxUserLoginGates = maxLoginFails * maxLoginGates"
definition loginLockout :: int where "loginLockout = minutes 15"
definition maxPendingLogins :: nat where "maxPendingLogins = 1024"
definition maxPendingPerIP :: nat where "maxPendingPerIP = 30"
definition pendingLoginWindow :: int where "pendingLoginWindow = minutes 10"
definition pendingTOTPTTL :: int where "pendingTOTPTTL = minutes 5"

definition strip_lead :: "string \<Rightarrow> string \<Rightarrow> string" where
  "strip_lead p s = (if prefix p s then drop (length p) s else s)"

definition NewAuthenticator ::
  "string \<Rightarrow> cookie_secure_mode \<Rightarrow> int \<Rightarrow> string \<Rightarrow> string \<Rightarrow> string \<Rightarrow> session_store \<Rightarrow> 'c authenticator" where
  "NewAuthenticator cookie mode ttl user hash secret st =
     (let name = strip_lead ''__Secure-'' (strip_lead ''__Host-'' (if cookie = [] then ''gpm_session'' else cookie)) in
      \<lparr>au_store = st, au_cookieName = (if name = [] then ''gpm_session'' else name), au_secureMode = mode,
       au_sessionTTL = (if ttl = 0 then minutes 720 else ttl), au_localUser = user, au_localHash = hash, au_TOTPSecret = secret,
       au_TOTPKey = (if secret = [] then [] else case NormalizeTOTPSecret secret of Some k \<Rightarrow> k | None \<Rightarrow> []),
       au_otpLast = Map.empty, au_baseURL = [], au_idps = Map.empty,
       au_settings = \<lparr>aas_Providers = [], aas_LocalLoginEnabled = False, aas_SSOOnly = False\<rparr>,
       au_clients = Map.empty, au_tokenSource = None, au_tokenCache = None, au_tokenUse = [], au_pending = [],
       au_loginGate = newRateGate loginLockout maxLoginFails maxLoginGates,
       au_userGate = newRateGate loginLockout maxUserLoginFails maxUserLoginGates,
       au_pendingGate = newRateGate pendingLoginWindow maxPendingPerIP maxLoginGates, au_insecureWarn = None\<rparr>)"

definition Configure ::
  "identity_provider list \<Rightarrow> admin_auth_settings \<Rightarrow> string \<Rightarrow> 'c authenticator \<Rightarrow> 'c authenticator" where
  "Configure idps settings baseURL a =
     a\<lparr>au_idps := map_of (rev (map (\<lambda>p. (idp_Name p, p)) idps)), au_settings := settings, au_baseURL := baseURL,
       au_clients := Map.empty\<rparr>"

section \<open>Pending logins\<close>

definition gcPendingLocked :: "int \<Rightarrow> (string \<times> pending_login) list \<Rightarrow> (string \<times> pending_login) list" where
  "gcPendingLocked now ps = filter (\<lambda>(k, p). \<not> pl_expires p < now) ps"

definition drop_pending :: "string \<Rightarrow> 'c authenticator \<Rightarrow> 'c authenticator" where
  "drop_pending k a = a\<lparr>au_pending := AList.delete k (au_pending a)\<rparr>"

text \<open>Storing a new entry, as \<open>BeginLogin\<close> and \<open>startPendingTOTP\<close> do it: sweep, cap, insert.\<close>

definition add_pending :: "int \<Rightarrow> string \<Rightarrow> pending_login \<Rightarrow> 'c authenticator \<Rightarrow> bool \<times> 'c authenticator" where
  "add_pending now k p a =
     (let ps = gcPendingLocked now (au_pending a) in
      if maxPendingLogins \<le> length ps then (False, a\<lparr>au_pending := ps\<rparr>)
      else (True, a\<lparr>au_pending := AList.update k p ps\<rparr>))"

definition AbandonLogin :: "string \<Rightarrow> 'c authenticator \<Rightarrow> 'c authenticator" where
  "AbandonLogin state a = (if state = [] then a else drop_pending state a)"

section \<open>OIDC login\<close>

definition groupsClaim :: "role_mapping option \<Rightarrow> string" where
  "groupsClaim rm = (case rm of None \<Rightarrow> ''groups'' | Some m \<Rightarrow> if GroupsClaim m \<noteq> [] then GroupsClaim m else ''groups'')"

definition oidcClient ::
  "'c admin_env \<Rightarrow> string \<Rightarrow> 'c authenticator \<Rightarrow> (string + 'c \<times> identity_provider) \<times> 'c authenticator" where
  "oidcClient env name a =
     (case au_idps a name of
        None \<Rightarrow> (Inl ''not found'', a)
      | Some idp \<Rightarrow>
          (case idp_OIDC idp of
             None \<Rightarrow> (Inl ''not OIDC'', a)
           | Some spec \<Rightarrow>
               if idp_Type idp \<noteq> ''oidc'' then (Inl ''not OIDC'', a)
               else case au_clients a name of
                 Some c \<Rightarrow> (Inr (c, idp), a)
               | None \<Rightarrow>
                   if au_baseURL a = [] then (Inl ''externalBaseURL'', a)
                   else case ae_secret env (ClientSecret spec) of
                     None \<Rightarrow> (Inl ''client secret'', a)
                   | Some secret \<Rightarrow>
                       (case ae_client env idp secret (au_baseURL a @ ''/auth/callback'') of
                          None \<Rightarrow> (Inl ''discovery'', a)
                        | Some c \<Rightarrow> (Inr (c, idp), a\<lparr>au_clients := (au_clients a)(name \<mapsto> c)\<rparr>))))"

definition BeginLogin ::
  "'c admin_env \<Rightarrow> int \<Rightarrow> string option \<Rightarrow> string option \<Rightarrow> string \<Rightarrow> string \<Rightarrow> string \<Rightarrow> string \<Rightarrow> 'c authenticator \<Rightarrow>
   (string + string \<times> string) \<times> 'c authenticator" where
  "BeginLogin env now newState newNonce verifier idpName returnTo ipKey a =
     (case rateGate_atLimit False now ipKey (au_pendingGate a) of (full, g) \<Rightarrow>
       (let a0 = a\<lparr>au_pendingGate := g\<rparr> in
        if full then (Inl ''too many login attempts'', a0)
        else case oidcClient env idpName a0 of
          (Inl e, a1) \<Rightarrow> (Inl e, a1)
        | (Inr (c, idp), a1) \<Rightarrow>
            (case (newState, newNonce) of
               (Some state, Some nonce) \<Rightarrow>
                 (case add_pending now state
                     \<lparr>pl_idp = idpName, pl_nonce = nonce, pl_verifier = verifier, pl_returnTo = returnTo,
                      pl_expires = now + minutes 10, pl_totpUser = []\<rparr> a1 of
                    (False, a2) \<Rightarrow> (Inl ''too many pending logins'', a2)
                  | (True, a2) \<Rightarrow>
                      (Inr (ae_url env c state nonce verifier, state),
                       a2\<lparr>au_pendingGate := rateGate_record now ipKey (au_pendingGate a2)\<rparr>))
             | _ \<Rightarrow> (Inl ''random'', a1))))"

definition create_session ::
  "string option \<Rightarrow> string option \<Rightarrow> int \<Rightarrow> session \<Rightarrow> 'c authenticator \<Rightarrow> (string + session) \<times> 'c authenticator" where
  "create_session newID newCSRF now s a =
     (case store_Create newID newCSRF now s (au_store a) of (r, st) \<Rightarrow> (r, a\<lparr>au_store := st\<rparr>))"

definition CompleteLogin ::
  "'c admin_env \<Rightarrow> int \<Rightarrow> string option \<Rightarrow> string option \<Rightarrow> string \<Rightarrow> string \<Rightarrow> 'c authenticator \<Rightarrow>
   (string + session \<times> string) \<times> 'c authenticator" where
  "CompleteLogin env now newID newCSRF state code a =
     (let a0 = drop_pending state a in
      case map_of (au_pending a) state of
        None \<Rightarrow> (Inl ''state'', a0)
      | Some p \<Rightarrow>
          if pl_totpUser p \<noteq> [] \<or> pl_expires p < now then (Inl ''state'', a0)
          else case oidcClient env (pl_idp p) a0 of
            (Inl e, a1) \<Rightarrow> (Inl e, a1)
          | (Inr (c, idp), a1) \<Rightarrow>
              (case ae_exchange env c code (pl_verifier p) (pl_nonce p) of
                 None \<Rightarrow> (Inl ''exchange'', a1)
               | Some cl \<Rightarrow>
                   (let role = MapRole (ac_Groups cl) (idp_RoleMapping idp) in
                    if role = [] then (Inl ''role'', a1)
                    else case create_session newID newCSRF now
                        \<lparr>ss_ID = [], ss_Subject = ac_Subject cl, ss_Email = ac_Email cl, ss_Name = ac_Name cl, ss_Roles = [role],
                         ss_IdP = pl_idp p, ss_AMR = ac_AMR cl, ss_CSRF = [], ss_Created = 0, ss_Expires = now + au_sessionTTL a1\<rparr> a1 of
                      (Inl e, a2) \<Rightarrow> (Inl e, a2)
                    | (Inr s, a2) \<Rightarrow> (Inr (s, pl_returnTo p), a2))))"

section \<open>Local login\<close>

definition localAllowed :: "'c authenticator \<Rightarrow> bool" where
  "localAllowed a = (if aas_SSOOnly (au_settings a) then False else aas_LocalLoginEnabled (au_settings a))"

definition LocalTOTPEnabled :: "'c authenticator \<Rightarrow> bool" where
  "LocalTOTPEnabled a \<longleftrightarrow> au_TOTPSecret a \<noteq> []"

definition newLocalSession ::
  "string option \<Rightarrow> string option \<Rightarrow> int \<Rightarrow> string list \<Rightarrow> 'c authenticator \<Rightarrow> (string + session) \<times> 'c authenticator" where
  "newLocalSession newID newCSRF now amr a =
     create_session newID newCSRF now
       \<lparr>ss_ID = [], ss_Subject = au_localUser a, ss_Email = [], ss_Name = au_localUser a, ss_Roles = [''admin''], ss_IdP = ''local'',
        ss_AMR = amr, ss_CSRF = [], ss_Created = 0, ss_Expires = now + au_sessionTTL a\<rparr> a"

definition startPendingTOTP :: "int \<Rightarrow> string option \<Rightarrow> 'c authenticator \<Rightarrow> (string + string) \<times> 'c authenticator" where
  "startPendingTOTP now newState a =
     (case newState of
        None \<Rightarrow> (Inl ''random'', a)
      | Some token \<Rightarrow>
          (case add_pending now token
              \<lparr>pl_idp = [], pl_nonce = [], pl_verifier = [], pl_returnTo = [], pl_expires = now + pendingTOTPTTL, pl_totpUser = au_localUser a\<rparr> a of
             (ok, a1) \<Rightarrow> (if ok then Inr token else Inl ''too many pending logins'', a1)))"

text \<open>A session, or the token of a half-finished login, or an error.\<close>

datatype local_result = LocalErr string | LocalSession session | LocalPending string

definition LocalLogin ::
  "'c admin_env \<Rightarrow> int \<Rightarrow> string option \<Rightarrow> string option \<Rightarrow> string option \<Rightarrow> string \<Rightarrow> string \<Rightarrow> 'c authenticator \<Rightarrow>
   local_result \<times> 'c authenticator" where
  "LocalLogin env now newState newID newCSRF user pass a =
     (if \<not> localAllowed a then (LocalErr ''disabled'', a)
      else if au_localUser a = [] \<or> au_localHash a = [] then (LocalErr ''no local admin'', a)
      else if user \<noteq> au_localUser a \<or> \<not> ae_bcrypt env (au_localHash a) pass then (LocalErr ''credentials'', a)
      else if LocalTOTPEnabled a then
        (case startPendingTOTP now newState a of (Inl e, a1) \<Rightarrow> (LocalErr e, a1) | (Inr tok, a1) \<Rightarrow> (LocalPending tok, a1))
      else case newLocalSession newID newCSRF now [''pwd''] a of
        (Inl e, a1) \<Rightarrow> (LocalErr e, a1) | (Inr s, a1) \<Rightarrow> (LocalSession s, a1))"

definition acceptTOTPCounter :: "string \<Rightarrow> 64 word \<Rightarrow> 'c authenticator \<Rightarrow> bool \<times> 'c authenticator" where
  "acceptTOTPCounter user counter a =
     (if (case au_otpLast a user of None \<Rightarrow> False | Some l \<Rightarrow> counter \<le> l) then (False, a)
      else (True, a\<lparr>au_otpLast := (au_otpLast a)(user \<mapsto> counter)\<rparr>))"

definition CompleteTOTPLogin ::
  "'c admin_env \<Rightarrow> int \<Rightarrow> string option \<Rightarrow> string option \<Rightarrow> string \<Rightarrow> string \<Rightarrow> 'c authenticator \<Rightarrow>
   (string + session) \<times> 'c authenticator" where
  "CompleteTOTPLogin env now newID newCSRF token code a =
     (let a0 = drop_pending token a in
      case map_of (au_pending a) token of
        None \<Rightarrow> (Inl ''expired'', a0)
      | Some p \<Rightarrow>
          if pl_totpUser p = [] \<or> pl_expires p < now then (Inl ''expired'', a0)
          else if \<not> localAllowed a0 then (Inl ''disabled'', a0)
          else case verifyTOTP (ae_hmac env) (au_TOTPKey a0) code (unix now) of
            None \<Rightarrow> (Inl ''code'', a0)
          | Some counter \<Rightarrow>
              (case acceptTOTPCounter (pl_totpUser p) counter a0 of
                 (False, a1) \<Rightarrow> (Inl ''used'', a1)
               | (True, a1) \<Rightarrow> newLocalSession newID newCSRF now [''pwd'', ''otp'', ''mfa''] a1))"

section \<open>Login options\<close>

definition LoginOptions :: "'c authenticator \<Rightarrow> string list" where
  "LoginOptions a =
     filter (\<lambda>n. case au_idps a n of None \<Rightarrow> False | Some idp \<Rightarrow> idp_Type idp = ''oidc'') (aas_Providers (au_settings a))"

definition LocalLoginVisible :: "'c authenticator \<Rightarrow> bool" where
  "LocalLoginVisible a \<longleftrightarrow> au_localUser a \<noteq> [] \<and> localAllowed a"

definition LocalAdminConfigured :: "'c authenticator \<Rightarrow> bool" where
  "LocalAdminConfigured a \<longleftrightarrow> au_localUser a \<noteq> [] \<and> au_localHash a \<noteq> []"

definition NoAdminLoginConfigured :: "'c authenticator \<Rightarrow> bool" where
  "NoAdminLoginConfigured a = (if LoginOptions a \<noteq> [] then False else \<not> (LocalAdminConfigured a \<and> localAllowed a))"

section \<open>Throttles\<close>

definition loginUserKey :: "string \<Rightarrow> string" where
  "loginUserKey username = take 64 (ToLower (TrimSpace username))"

definition LoginThrottled :: "int \<Rightarrow> string \<Rightarrow> 'c authenticator \<Rightarrow> bool \<times> 'c authenticator" where
  "LoginThrottled now key a = (case rateGate_atLimit True now key (au_loginGate a) of (b, g) \<Rightarrow> (b, a\<lparr>au_loginGate := g\<rparr>))"

definition UserLoginThrottled :: "int \<Rightarrow> string \<Rightarrow> 'c authenticator \<Rightarrow> bool \<times> 'c authenticator" where
  "UserLoginThrottled now username a =
     (case rateGate_atLimit True now (loginUserKey username) (au_userGate a) of (b, g) \<Rightarrow> (b, a\<lparr>au_userGate := g\<rparr>))"

definition LoginAttempt :: "int \<Rightarrow> string \<Rightarrow> 'c authenticator \<Rightarrow> bool \<times> 'c authenticator" where
  "LoginAttempt now key a = (case tryBegin now key (au_loginGate a) of (b, g) \<Rightarrow> (b, a\<lparr>au_loginGate := g\<rparr>))"

definition UserLoginAttempt :: "int \<Rightarrow> string \<Rightarrow> 'c authenticator \<Rightarrow> bool \<times> 'c authenticator" where
  "UserLoginAttempt now username a =
     (case tryBegin now (loginUserKey username) (au_userGate a) of (b, g) \<Rightarrow> (b, a\<lparr>au_userGate := g\<rparr>))"

definition NoteLoginResult :: "string \<Rightarrow> bool \<Rightarrow> 'c authenticator \<Rightarrow> 'c authenticator" where
  "NoteLoginResult key ok a = (if ok then a\<lparr>au_loginGate := rateGate_clear key (au_loginGate a)\<rparr> else a)"

definition NoteUserLoginResult :: "string \<Rightarrow> bool \<Rightarrow> 'c authenticator \<Rightarrow> 'c authenticator" where
  "NoteUserLoginResult username ok a =
     (if ok then a\<lparr>au_userGate := rateGate_clear (loginUserKey username) (au_userGate a)\<rparr> else a)"

text \<open>The three checks in front of both steps of a local login, in the order of the handler's condition.\<close>

definition login_gates :: "int \<Rightarrow> string \<Rightarrow> string \<Rightarrow> 'c authenticator \<Rightarrow> bool \<times> 'c authenticator" where
  "login_gates now key username a =
     (case UserLoginThrottled now username a of
        (True, a1) \<Rightarrow> (False, a1)
      | (False, a1) \<Rightarrow> (case LoginAttempt now key a1 of
          (False, a2) \<Rightarrow> (False, a2)
        | (True, a2) \<Rightarrow> UserLoginAttempt now username a2))"

text \<open>The messages read the gates, which may sweep them.\<close>

definition lockoutMessage :: "int \<Rightarrow> string \<Rightarrow> string \<Rightarrow> 'c authenticator \<Rightarrow> int \<times> 'c authenticator" where
  "lockoutMessage now key username a =
     (case remaining now key (au_loginGate a) of (r1, g1) \<Rightarrow>
      (case remaining now (loginUserKey username) (au_userGate a) of (r2, g2) \<Rightarrow>
        (max 1 ((max r1 r2 + minutes 1 - 1) div minutes 1), a\<lparr>au_loginGate := g1, au_userGate := g2\<rparr>)))"

definition failureMessage :: "int \<Rightarrow> string \<Rightarrow> string \<Rightarrow> 'c authenticator \<Rightarrow> 'c authenticator" where
  "failureMessage now key username a =
     (case LoginThrottled now key a of
        (True, a1) \<Rightarrow> snd (lockoutMessage now key username a1)
      | (False, a1) \<Rightarrow> (case UserLoginThrottled now username a1 of
          (True, a2) \<Rightarrow> snd (lockoutMessage now key username a2)
        | (False, a2) \<Rightarrow> a2))"

section \<open>Handlers\<close>

definition sanitizeReturnTo :: "string \<Rightarrow> string" where
  "sanitizeReturnTo p =
     (if p = [] \<or> hd p \<noteq> CHR ''/'' then ''/''
      else if contains_any p [CHR 0x5C, CHR 0x0D, CHR 0x0A, CHR 0x00] then ''/''
      else if list_ex (\<lambda>c. byte_of c < 32 \<or> byte_of c = 127) p then ''/''
      else if prefix ''//'' p then ''/''
      else p)"

definition clientIPKey :: "trusted_global \<Rightarrow> http_request \<Rightarrow> string" where
  "clientIPKey g r =
     (let k = Key r (Trusted g) in
      case ParseIP k of
        None \<Rightarrow> k
      | Some i \<Rightarrow> if To4 i = None
          then (case ip_mask i (CIDRMask 64 16) of Some m \<Rightarrow> ip_string m | None \<Rightarrow> ''<nil>'') @ ''/64'' else k)"

datatype login_page =
    LoginPage nat string string
  | CodePage string string string
  | ToProvider string set_cookie
  | LoggedIn session set_cookie string

definition IssueCookie :: "trusted_global \<Rightarrow> int \<Rightarrow> http_request \<Rightarrow> session \<Rightarrow> 'c authenticator \<Rightarrow> set_cookie \<times> 'c authenticator" where
  "IssueCookie g now r s a =
     (case cookieSecure g now r a of (secure, a1) \<Rightarrow>
       (SetSessionCookie now (cookieNameFor a1 secure) (ss_ID s) (ss_Expires s) secure, a1))"

definition oidcStateCookieName :: string where "oidcStateCookieName = ''gpm_oidc_state''"

definition startLogin ::
  "'c admin_env \<Rightarrow> trusted_global \<Rightarrow> int \<Rightarrow> string option \<Rightarrow> string option \<Rightarrow> string \<Rightarrow> http_request \<Rightarrow> string \<Rightarrow> string \<Rightarrow>
   'c authenticator \<Rightarrow> login_page \<times> 'c authenticator" where
  "startLogin env g now newState newNonce verifier r idp returnTo a =
     (case BeginLogin env now newState newNonce verifier idp returnTo (clientIPKey g r) a of
        (Inl e, a1) \<Rightarrow> (LoginPage 502 returnTo [], a1)
      | (Inr (url, state), a1) \<Rightarrow>
          (case cookieSecure g now r a1 of (secure, a2) \<Rightarrow>
            (ToProvider url \<lparr>sc_Name = oidcStateCookieName, sc_Value = state, sc_Secure = secure, sc_MaxAge = 600\<rparr>, a2)))"

definition admin_handleLogin ::
  "'c admin_env \<Rightarrow> trusted_global \<Rightarrow> int \<Rightarrow> string option \<Rightarrow> string option \<Rightarrow> string \<Rightarrow> http_request \<Rightarrow>
   'c authenticator \<Rightarrow> login_page \<times> 'c authenticator" where
  "admin_handleLogin env g now newState newNonce verifier r a =
     (let q = url_RawQuery r; returnTo = sanitizeReturnTo (query_Get q ''return''); idp = query_Get q ''idp'' in
      if idp \<noteq> [] then startLogin env g now newState newNonce verifier r idp returnTo a
      else case LoginOptions a of
        [only] \<Rightarrow> if \<not> LocalLoginVisible a \<and> query_Get q ''select'' = []
                   then startLogin env g now newState newNonce verifier r only returnTo a else (LoginPage 200 returnTo [], a)
      | _ \<Rightarrow> (LoginPage 200 returnTo [], a))"

definition admin_handleCallback ::
  "'c admin_env \<Rightarrow> trusted_global \<Rightarrow> int \<Rightarrow> string option \<Rightarrow> string option \<Rightarrow> http_request \<Rightarrow> 'c authenticator \<Rightarrow> login_page \<times> 'c authenticator" where
  "admin_handleCallback env g now newID newCSRF r a =
     (let q = url_RawQuery r; state = query_Get q ''state''; code = query_Get q ''code'';
          cookieState = (case req_Cookie r oidcStateCookieName of None \<Rightarrow> [] | Some v \<Rightarrow> v)
      in if query_Get q ''error'' \<noteq> [] then (LoginPage 401 ''/'' [], AbandonLogin state a)
         else if state = [] \<or> code = [] then (LoginPage 400 ''/'' [], AbandonLogin state a)
         else if cookieState = [] \<or> cookieState \<noteq> state then (LoginPage 400 ''/'' [], a)
         else case CompleteLogin env now newID newCSRF state code a of
           (Inl e, a1) \<Rightarrow> (LoginPage 401 ''/'' [], a1)
         | (Inr (s, returnTo), a1) \<Rightarrow>
             (case IssueCookie g now r s a1 of (ck, a2) \<Rightarrow> (LoggedIn s ck (sanitizeReturnTo returnTo), a2)))"

text \<open>The posted form: return path, user name, and the password or the pending token with its code. \<^const>\<open>None\<close> is a
  form that cannot be parsed.\<close>

record login_form =
  lf_return :: string
  lf_username :: string
  lf_password :: string
  lf_pending :: string
  lf_code :: string

definition handleLocalLogin ::
  "'c admin_env \<Rightarrow> trusted_global \<Rightarrow> int \<Rightarrow> string option \<Rightarrow> string option \<Rightarrow> string option \<Rightarrow> login_form option \<Rightarrow> http_request \<Rightarrow>
   'c authenticator \<Rightarrow> login_page \<times> 'c authenticator" where
  "handleLocalLogin env g now newState newID newCSRF form r a =
     (case form of
        None \<Rightarrow> (LoginPage 400 ''/'' [], a)
      | Some f \<Rightarrow>
          (let returnTo = sanitizeReturnTo (lf_return f); username = lf_username f; key = clientIPKey g r in
           case login_gates now key username a of
             (False, a1) \<Rightarrow> (LoginPage 429 returnTo username, snd (lockoutMessage now key username a1))
           | (True, a1) \<Rightarrow>
               (case LocalLogin env now newState newID newCSRF username (lf_password f) a1 of
                  (LocalErr e, a2) \<Rightarrow> (LoginPage 401 returnTo username, failureMessage now key username a2)
                | (LocalPending tok, a2) \<Rightarrow> (CodePage tok returnTo username, a2)
                | (LocalSession s, a2) \<Rightarrow>
                    (let a3 = NoteUserLoginResult username True (NoteLoginResult key True a2) in
                     case IssueCookie g now r s a3 of (ck, a4) \<Rightarrow> (LoggedIn s ck returnTo, a4)))))"

definition handleLocalTOTP ::
  "'c admin_env \<Rightarrow> trusted_global \<Rightarrow> int \<Rightarrow> string option \<Rightarrow> string option \<Rightarrow> login_form option \<Rightarrow> http_request \<Rightarrow>
   'c authenticator \<Rightarrow> login_page \<times> 'c authenticator" where
  "handleLocalTOTP env g now newID newCSRF form r a =
     (case form of
        None \<Rightarrow> (LoginPage 400 ''/'' [], a)
      | Some f \<Rightarrow>
          (let returnTo = sanitizeReturnTo (lf_return f); username = lf_username f; key = clientIPKey g r in
           case login_gates now key username a of
             (False, a1) \<Rightarrow> (LoginPage 429 returnTo username, snd (lockoutMessage now key username a1))
           | (True, a1) \<Rightarrow>
               (case CompleteTOTPLogin env now newID newCSRF (lf_pending f) (lf_code f) a1 of
                  (Inl e, a2) \<Rightarrow> (LoginPage 401 returnTo username, failureMessage now key username a2)
                | (Inr s, a2) \<Rightarrow>
                    (let a3 = NoteUserLoginResult username True (NoteLoginResult key True a2) in
                     case IssueCookie g now r s a3 of (ck, a4) \<Rightarrow> (LoggedIn s ck returnTo, a4)))))"

section \<open>Redirects stay on the site\<close>

text \<open>A path a browser can only read as a path of this origin.\<close>

definition local_path :: "string \<Rightarrow> bool" where
  "local_path p \<longleftrightarrow> prefix ''/'' p \<and> \<not> prefix ''//'' p \<and>
     list_all (\<lambda>c. 32 \<le> byte_of c \<and> byte_of c \<noteq> 127 \<and> c \<noteq> CHR 0x5C) p"

text \<open>C40: The return path of a login cannot leave the site: what \<open>sanitizeReturnTo\<close> returns is a local path, namely the
  input where that is one and the root otherwise.\<close>

theorem return_path_stays_local:
  "local_path (sanitizeReturnTo p) \<and> sanitizeReturnTo p = (if local_path p then p else ''/'')"
proof -
  have ctl: "\<not> local_path p" if "contains_any p [CHR 0x5C, CHR 0x0D, CHR 0x0A, CHR 0x00]"
  proof -
    from that obtain c where c: "c \<in> set p" "c \<in> set [CHR 0x5C, CHR 0x0D, CHR 0x0A, CHR 0x00]"
      unfolding contains_any_def list_ex_iff by blast
    have "c = CHR 0x5C \<or> byte_of c < 32" using c(2) by (auto simp: byte_of_def)
    with c(1) show ?thesis unfolding local_path_def list_all_iff by fastforce
  qed
  have "sanitizeReturnTo p = (if local_path p then p else ''/'')"
  proof (cases "p = [] \<or> hd p \<noteq> CHR ''/'' \<or> contains_any p [CHR 0x5C, CHR 0x0D, CHR 0x0A, CHR 0x00]")
    case True
    with ctl have "\<not> local_path p" by (cases p) (auto simp: local_path_def)
    with True show ?thesis by (auto simp: sanitizeReturnTo_def)
  next
    case False
    have "prefix ''/'' p" using False by (cases p) auto
    moreover have "CHR 0x5C \<notin> set p" using False by (auto simp: contains_any_def list_ex_iff)
    then have "list_ex (\<lambda>c. byte_of c < 32 \<or> byte_of c = 127) p \<longleftrightarrow>
        \<not> list_all (\<lambda>c. 32 \<le> byte_of c \<and> byte_of c \<noteq> 127 \<and> c \<noteq> CHR 0x5C) p"
      unfolding list_ex_iff list_all_iff not_le [symmetric] by blast
    ultimately show ?thesis using False by (simp add: sanitizeReturnTo_def local_path_def del: prefix_code)
  qed
  moreover have "local_path ''/''" by (simp add: local_path_def byte_of_def)
  ultimately show ?thesis by simp
qed

section \<open>What the other operations keep of a login\<close>

text \<open>A step keeps the login state when it adds no second-factor entry to the pending logins and leaves the accepted
  counters, the local account and its second factor alone.\<close>

definition login_keeps :: "'c authenticator \<Rightarrow> 'c authenticator \<Rightarrow> bool" where
  "login_keeps a a' \<longleftrightarrow> (\<forall>e\<in>set (au_pending a'). pl_totpUser (snd e) \<noteq> [] \<longrightarrow> e \<in> set (au_pending a)) \<and>
     au_otpLast a' = au_otpLast a \<and> au_localUser a' = au_localUser a \<and> au_TOTPSecret a' = au_TOTPSecret a \<and>
     au_TOTPKey a' = au_TOTPKey a"

lemma login_keeps_refl [simp]: "login_keeps a a" by (simp add: login_keeps_def)

lemma login_keeps_trans: "login_keeps a b \<Longrightarrow> login_keeps b c \<Longrightarrow> login_keeps a c"
  by (auto simp: login_keeps_def)

lemma login_keeps_updates [simp]:
  "login_keeps a (a\<lparr>au_loginGate := g\<rparr>)" "login_keeps a (a\<lparr>au_userGate := g\<rparr>)" "login_keeps a (a\<lparr>au_pendingGate := g\<rparr>)"
  "login_keeps a (a\<lparr>au_store := st\<rparr>)" "login_keeps a (a\<lparr>au_clients := cs\<rparr>)" "login_keeps a (a\<lparr>au_insecureWarn := w\<rparr>)"
  "login_keeps a (a\<lparr>au_loginGate := g, au_userGate := g'\<rparr>)"
  by (simp_all add: login_keeps_def)

lemma set_AList_delete: "set (AList.delete k ps) = {e \<in> set ps. fst e \<noteq> k}"
  by (auto simp: AList.delete_eq)

lemma set_AList_update: "e \<in> set (AList.update k p ps) \<Longrightarrow> e = (k, p) \<or> e \<in> set ps"
  by (induction ps) (auto split: if_splits)

lemma gcPending_sub: "e \<in> set (gcPendingLocked now ps) \<Longrightarrow> e \<in> set ps"
  by (auto simp: gcPendingLocked_def)

lemma drop_keeps [simp]: "login_keeps a (drop_pending k a)"
  by (auto simp: login_keeps_def drop_pending_def set_AList_delete)

lemma add_pending_keeps:
  assumes "add_pending now k p a = (ok, a')" "pl_totpUser p = [] \<or> \<not> ok"
  shows "login_keeps a a'"
proof -
  have "e \<in> set (au_pending a)" if e: "e \<in> set (au_pending a')" "pl_totpUser (snd e) \<noteq> []" for e
  proof (cases ok)
    case True
    then have "e \<in> set (AList.update k p (gcPendingLocked now (au_pending a)))"
      using assms(1) e(1) by (auto simp: add_pending_def Let_def split: if_splits)
    then show ?thesis using set_AList_update e(2) assms(2) True gcPending_sub by fastforce
  next
    case False
    then show ?thesis using assms(1) e(1) gcPending_sub by (fastforce simp: add_pending_def Let_def split: if_splits)
  qed
  then show ?thesis using assms(1) by (auto simp: add_pending_def login_keeps_def Let_def split: if_splits)
qed

lemma gate_ops_keep [simp]:
  "login_keeps a (snd (LoginThrottled now key a))" "login_keeps a (snd (UserLoginThrottled now u a))"
  "login_keeps a (snd (LoginAttempt now key a))" "login_keeps a (snd (UserLoginAttempt now u a))"
  "login_keeps a (snd (lockoutMessage now key u a))" "login_keeps a (NoteLoginResult key ok a)"
  "login_keeps a (NoteUserLoginResult u ok a)"
  by (simp_all add: LoginThrottled_def UserLoginThrottled_def LoginAttempt_def UserLoginAttempt_def lockoutMessage_def
      NoteLoginResult_def NoteUserLoginResult_def split: prod.split)

lemma login_keeps_snd: "f a = (x, a') \<Longrightarrow> login_keeps a (snd (f a)) \<Longrightarrow> login_keeps a a'"
  by simp

lemma login_gates_keep:
  assumes "login_gates now key u a = (ok, a')"
  shows "login_keeps a a'"
proof -
  obtain b1 a1 where 1: "UserLoginThrottled now u a = (b1, a1)" by fastforce
  obtain b2 a2 where 2: "LoginAttempt now key a1 = (b2, a2)" by fastforce
  obtain b3 a3 where 3: "UserLoginAttempt now u a2 = (b3, a3)" by fastforce
  have "a' \<in> {a1, a2, a3}" using assms 1 2 3 by (cases b1; cases b2) (auto simp: login_gates_def)
  moreover have "login_keeps a a1" "login_keeps a1 a2" "login_keeps a2 a3"
    using 1 2 3 gate_ops_keep(2) [of a now u] gate_ops_keep(3) [of a1 now key] gate_ops_keep(4) [of a2 now u] by simp_all
  ultimately show ?thesis by (auto intro: login_keeps_trans)
qed

lemma failureMessage_keeps [simp]: "login_keeps a (failureMessage now key u a)"
proof -
  obtain b1 a1 where 1: "LoginThrottled now key a = (b1, a1)" by fastforce
  obtain b2 a2 where 2: "UserLoginThrottled now u a1 = (b2, a2)" by fastforce
  have "login_keeps a a1" "login_keeps a1 a2"
    using 1 2 gate_ops_keep(1) [of a now key] gate_ops_keep(2) [of a1 now u] by simp_all
  then show ?thesis
    using 1 2 gate_ops_keep(5) by (cases b1; cases b2) (auto simp: failureMessage_def intro: login_keeps_trans)
qed

lemma IssueCookie_keeps: "IssueCookie g now r s a = (ck, a') \<Longrightarrow> login_keeps a a'"
  by (auto simp: IssueCookie_def cookieSecure_def split: if_splits)

lemma create_keeps: "create_session i k now s a = (x, a') \<Longrightarrow> login_keeps a a'"
  by (auto simp: create_session_def split: prod.splits)

lemma newLocalSession_keeps: "newLocalSession i k now amr a = (x, a') \<Longrightarrow> login_keeps a a'"
  unfolding newLocalSession_def by (rule create_keeps)

lemma oidcClient_keeps: "oidcClient env name a = (x, a') \<Longrightarrow> login_keeps a a'"
  by (auto simp: oidcClient_def split: option.splits if_splits)

lemma Configure_keeps: "login_keeps a (Configure idps s b a)"
  by (simp add: Configure_def login_keeps_def)

lemma BeginLogin_keeps:
  assumes "BeginLogin env now ns nn v idp ret key a = (x, a')"
  shows "login_keeps a a'"
proof -
  obtain full g where 1: "rateGate_atLimit False now key (au_pendingGate a) = (full, g)" by fastforce
  define a0 where "a0 = a\<lparr>au_pendingGate := g\<rparr>"
  obtain y a1 where 2: "oidcClient env idp a0 = (y, a1)" by fastforce
  have k: "login_keeps a a0" "login_keeps a0 a1" using oidcClient_keeps [OF 2] by (simp_all add: a0_def)
  consider "a' = a0" | "a' = a1"
    | ok p a2 g' where "add_pending now (the ns) p a1 = (ok, a2)" "pl_totpUser p = []" "a' = a2 \<or> a' = a2\<lparr>au_pendingGate := g'\<rparr>"
    using assms 1 2
    by (auto simp: BeginLogin_def a0_def [symmetric] Let_def split: if_splits sum.splits option.splits prod.splits bool.splits)
      fastforce+
  then show ?thesis
  proof cases
    case (3 ok p a2 g')
    then have "login_keeps a1 a2" "login_keeps a2 (a2\<lparr>au_pendingGate := g'\<rparr>)" by (auto dest: add_pending_keeps)
    with k 3(3) show ?thesis by (blast intro: login_keeps_trans)
  qed (use k in \<open>blast intro: login_keeps_trans\<close>)+
qed

lemma startLogin_keeps:
  assumes "startLogin env g now ns nn v r idp ret a = (x, a')"
  shows "login_keeps a a'"
proof -
  obtain y a1 where 1: "BeginLogin env now ns nn v idp ret (clientIPKey g r) a = (y, a1)" by fastforce
  obtain z a2 where 2: "cookieSecure g now r a1 = (z, a2)" by fastforce
  have "login_keeps a1 a2" using 2 by (auto simp: cookieSecure_def split: if_splits)
  moreover have "a' = a1 \<or> a' = a2" using assms 1 2 by (auto simp: startLogin_def split: sum.splits)
  ultimately show ?thesis using BeginLogin_keeps [OF 1] by (auto intro: login_keeps_trans)
qed

lemma handleLogin_keeps: "admin_handleLogin env g now ns nn v r a = (x, a') \<Longrightarrow> login_keeps a a'"
  by (auto simp: admin_handleLogin_def Let_def dest: startLogin_keeps split: if_splits list.splits)

lemma CompleteLogin_keeps:
  assumes "CompleteLogin env now i k state code a = (x, a')"
  shows "login_keeps a a'"
proof -
  define a0 where "a0 = drop_pending state a"
  consider "a' = a0" | name y where "oidcClient env name a0 = (y, a')"
    | name y a1 s z where "oidcClient env name a0 = (y, a1)" "create_session i k now s a1 = (z, a')"
    using assms
    by (auto simp: CompleteLogin_def Let_def a0_def [symmetric] split: if_splits sum.splits option.splits prod.splits)
  then show ?thesis
    by cases (auto simp: a0_def dest!: oidcClient_keeps create_keeps intro: login_keeps_trans [OF drop_keeps] login_keeps_trans)
qed

lemma handleCallback_keeps:
  assumes "admin_handleCallback env g now i k r a = (x, a')"
  shows "login_keeps a a'"
proof -
  define st where "st = query_Get (url_RawQuery r) ''state''"
  obtain y a1 where 1: "CompleteLogin env now i k st (query_Get (url_RawQuery r) ''code'') a = (y, a1)" by fastforce
  have "a' = AbandonLogin st a \<or> a' = a \<or> a' = a1 \<or> (\<exists>s ck. IssueCookie g now r s a1 = (ck, a'))"
    using assms 1 by (auto simp: admin_handleCallback_def Let_def st_def [symmetric] split: if_splits sum.splits prod.splits)
  moreover have "login_keeps a (AbandonLogin st a)" by (simp add: AbandonLogin_def)
  ultimately show ?thesis
    using CompleteLogin_keeps [OF 1] by (auto dest: IssueCookie_keeps intro: login_keeps_trans)
qed

section \<open>Two factors\<close>

text \<open>What happens in a run, newest event first: a right password that was answered with a pending token, a code checked
  against a live token (with the time step it was accepted for), a session for the password alone.\<close>

datatype login_event = PasswordOK string int | CodeTried string int "64 word option" | PasswordOnly

definition token_live :: "int \<Rightarrow> string \<Rightarrow> 'c authenticator \<Rightarrow> bool" where
  "token_live now tok a \<longleftrightarrow> (case map_of (au_pending a) tok of
     None \<Rightarrow> False | Some p \<Rightarrow> pl_totpUser p \<noteq> [] \<and> \<not> pl_expires p < now)"

definition password_events :: "int \<Rightarrow> login_page \<Rightarrow> login_event list" where
  "password_events now page = (case page of CodePage tok ret u \<Rightarrow> [PasswordOK tok now] | LoggedIn s ck ret \<Rightarrow> [PasswordOnly] | _ \<Rightarrow> [])"

definition code_events :: "'c admin_env \<Rightarrow> int \<Rightarrow> login_form option \<Rightarrow> 'c authenticator \<Rightarrow> login_page \<Rightarrow> login_event list" where
  "code_events env now form a page = (case form of None \<Rightarrow> [] | Some f \<Rightarrow>
     (case page of
        LoggedIn s ck ret \<Rightarrow> [CodeTried (lf_pending f) now (verifyTOTP (ae_hmac env) (au_TOTPKey a) (lf_code f) (unix now))]
      | LoginPage n ret u \<Rightarrow> if n = 401 \<and> token_live now (lf_pending f) a then [CodeTried (lf_pending f) now None] else []
      | _ \<Rightarrow> []))"

inductive login_run :: "'c admin_env \<Rightarrow> 'c authenticator \<Rightarrow> login_event list \<Rightarrow> 'c authenticator \<Rightarrow> bool"
  for env :: "'c admin_env" and a0 :: "'c authenticator" where
  start: "login_run env a0 [] a0"
| password: "login_run env a0 evs a \<Longrightarrow> handleLocalLogin env g now newState newID newCSRF form r a = (page, a') \<Longrightarrow>
    login_run env a0 (password_events now page @ evs) a'"
| code: "login_run env a0 evs a \<Longrightarrow> handleLocalTOTP env g now newID newCSRF form r a = (page, a') \<Longrightarrow>
    login_run env a0 (code_events env now form a page @ evs) a'"
| oidc_begin: "login_run env a0 evs a \<Longrightarrow> admin_handleLogin env g now newState newNonce verifier r a = (page, a') \<Longrightarrow>
    login_run env a0 evs a'"
| oidc_callback: "login_run env a0 evs a \<Longrightarrow> admin_handleCallback env g now newID newCSRF r a = (page, a') \<Longrightarrow> login_run env a0 evs a'"
| configure: "login_run env a0 evs a \<Longrightarrow> login_run env a0 evs (Configure idps settings baseURL a)"
| logout: "login_run env a0 evs a \<Longrightarrow> login_run env a0 evs (snd (Logout r a))"

primrec passwords :: "string \<Rightarrow> login_event list \<Rightarrow> nat" where
  "passwords tok [] = 0"
| "passwords tok (e # evs) = (case e of PasswordOK tok' t \<Rightarrow> if tok' = tok then 1 else 0 | _ \<Rightarrow> 0) + passwords tok evs"

primrec code_tries :: "string \<Rightarrow> login_event list \<Rightarrow> nat" where
  "code_tries tok [] = 0"
| "code_tries tok (e # evs) = (case e of CodeTried tok' t c \<Rightarrow> if tok' = tok then 1 else 0 | _ \<Rightarrow> 0) + code_tries tok evs"

fun accepted :: "login_event list \<Rightarrow> 64 word list" where
  "accepted [] = []"
| "accepted (CodeTried tok t (Some c) # evs) = c # accepted evs"
| "accepted (e # evs) = accepted evs"

text \<open>Every accepted code follows a right password of at most five minutes before, for the same token.\<close>

fun backed :: "login_event list \<Rightarrow> bool" where
  "backed [] = True"
| "backed (CodeTried tok t (Some c) # evs) \<longleftrightarrow> (\<exists>t0. PasswordOK tok t0 \<in> set evs \<and> t \<le> t0 + pendingTOTPTTL) \<and> backed evs"
| "backed (e # evs) = backed evs"

definition half_done :: "string \<Rightarrow> 'c authenticator \<Rightarrow> bool" where
  "half_done tok a \<longleftrightarrow> (\<exists>p. (tok, p) \<in> set (au_pending a) \<and> pl_totpUser p \<noteq> [])"

definition pending_ok :: "login_event list \<Rightarrow> 'c authenticator \<Rightarrow> bool" where
  "pending_ok evs a \<longleftrightarrow> (\<forall>tok p. (tok, p) \<in> set (au_pending a) \<longrightarrow> pl_totpUser p \<noteq> [] \<longrightarrow>
     pl_totpUser p = au_localUser a \<and> (\<exists>t0. PasswordOK tok t0 \<in> set evs \<and> pl_expires p = t0 + pendingTOTPTTL))"

definition tries_ok :: "login_event list \<Rightarrow> 'c authenticator \<Rightarrow> bool" where
  "tries_ok evs a \<longleftrightarrow> (\<forall>tok. code_tries tok evs + (if half_done tok a then 1 else 0) \<le> passwords tok evs)"

definition counter_ok :: "login_event list \<Rightarrow> 'c authenticator \<Rightarrow> bool" where
  "counter_ok evs a \<longleftrightarrow> sorted_wrt (>) (accepted evs) \<and>
     (case au_otpLast a (au_localUser a) of None \<Rightarrow> accepted evs = [] | Some l \<Rightarrow> list_all (\<lambda>c. c \<le> l) (accepted evs))"

definition login_inv :: "login_event list \<Rightarrow> 'c authenticator \<Rightarrow> bool" where
  "login_inv evs a \<longleftrightarrow> LocalTOTPEnabled a \<and> PasswordOnly \<notin> set evs \<and> backed evs \<and> pending_ok evs a \<and> tries_ok evs a \<and> counter_ok evs a"

lemma half_done_keeps: "login_keeps a a' \<Longrightarrow> half_done tok a' \<Longrightarrow> half_done tok a"
  by (fastforce simp: half_done_def login_keeps_def)

lemma login_inv_keeps:
  assumes "login_inv evs a" "login_keeps a a'"
  shows "login_inv evs a'"
proof -
  have "LocalTOTPEnabled a' = LocalTOTPEnabled a" using assms(2) by (simp add: LocalTOTPEnabled_def login_keeps_def)
  moreover have "pending_ok evs a'" using assms by (fastforce simp: login_inv_def pending_ok_def login_keeps_def)
  moreover have "tries_ok evs a'"
  proof -
    have "(if half_done tok a' then 1 else 0) \<le> (if half_done tok a then 1 else (0::nat))" for tok
      using half_done_keeps [OF assms(2)] by simp
    then show ?thesis using assms(1) unfolding login_inv_def tries_ok_def by (meson add_left_mono order_trans)
  qed
  moreover have "counter_ok evs a'" using assms by (simp add: login_inv_def counter_ok_def login_keeps_def)
  ultimately show ?thesis using assms(1) by (simp add: login_inv_def)
qed

text \<open>With a second factor configured the password form opens no session: it fails, or it adds one pending entry.\<close>

definition totp_entry :: "int \<Rightarrow> 'c authenticator \<Rightarrow> pending_login" where
  "totp_entry now a = \<lparr>pl_idp = [], pl_nonce = [], pl_verifier = [], pl_returnTo = [],
     pl_expires = now + pendingTOTPTTL, pl_totpUser = au_localUser a\<rparr>"

lemma LocalLogin_second_factor:
  assumes "LocalLogin env now newState newID newCSRF user pass a = (res, a')" "LocalTOTPEnabled a"
  shows "case res of
      LocalErr e \<Rightarrow> login_keeps a a'
    | LocalSession s \<Rightarrow> False
    | LocalPending tok \<Rightarrow> localAllowed a \<and> user = au_localUser a \<and> user \<noteq> [] \<and> ae_bcrypt env (au_localHash a) pass \<and>
        add_pending now tok (totp_entry now a) a = (True, a')"
proof (cases "localAllowed a \<and> user = au_localUser a \<and> user \<noteq> [] \<and> au_localHash a \<noteq> [] \<and> ae_bcrypt env (au_localHash a) pass")
  case False
  then show ?thesis using assms(1) by (auto simp: LocalLogin_def split: if_splits)
next
  case True
  then have r: "(case startPendingTOTP now newState a of (Inl e, a1) \<Rightarrow> (LocalErr e, a1) | (Inr tok, a1) \<Rightarrow> (LocalPending tok, a1)) = (res, a')"
    using assms by (auto simp: LocalLogin_def)
  show ?thesis
  proof (cases newState)
    case None
    then show ?thesis using r by (auto simp: startPendingTOTP_def)
  next
    case (Some tok)
    obtain ok a1 where p: "add_pending now tok (totp_entry now a) a = (ok, a1)" by fastforce
    then have s: "startPendingTOTP now newState a = (if ok then Inr tok else Inl ''too many pending logins'', a1)"
      using Some by (simp add: startPendingTOTP_def totp_entry_def)
    show ?thesis using r s p True add_pending_keeps [OF p] by (cases ok) auto
  qed
qed

lemma handleLocalLogin_cases:
  assumes "handleLocalLogin env g now newState newID newCSRF form r a = (page, a')" "LocalTOTPEnabled a"
  obtains (other) "password_events now page = []" "login_keeps a a'"
  | (pending) tok a1 where "password_events now page = [PasswordOK tok now]" "login_keeps a a1"
      "au_localUser a1 \<noteq> []" "add_pending now tok (totp_entry now a1) a1 = (True, a')"
proof (cases form)
  case None
  then show ?thesis using assms(1) other by (auto simp: handleLocalLogin_def password_events_def)
next
  case (Some f)
  define key where "key = clientIPKey g r"
  obtain ok a1 where 1: "login_gates now key (lf_username f) a = (ok, a1)" by fastforce
  note k1 = login_gates_keep [OF 1]
  obtain res a2 where 2: "LocalLogin env now newState newID newCSRF (lf_username f) (lf_password f) a1 = (res, a2)" by fastforce
  have en: "LocalTOTPEnabled a1" using k1 assms(2) by (simp add: LocalTOTPEnabled_def login_keeps_def)
  note L = LocalLogin_second_factor [OF 2 en]
  show ?thesis
  proof (cases ok)
    case False
    then have "password_events now page = []" "a' = snd (lockoutMessage now key (lf_username f) a1)"
      using assms(1) 1 Some by (auto simp: handleLocalLogin_def Let_def key_def [symmetric] password_events_def)
    then show ?thesis using other login_keeps_trans [OF k1 gate_ops_keep(5)] by simp
  next
    case True
    note h = assms(1) [unfolded handleLocalLogin_def Some option.case Let_def key_def [symmetric] 1 eqTrueI [OF True] prod.case bool.case 2]
    show ?thesis
    proof (cases res)
      case (LocalErr e)
      then have "password_events now page = []" "a' = failureMessage now key (lf_username f) a2" "login_keeps a1 a2"
        using h L by (auto simp: password_events_def)
      then show ?thesis using other k1 failureMessage_keeps by (metis login_keeps_trans)
    next
      case (LocalPending tok)
      then show ?thesis using h L k1 by (intro pending [of tok a1]) (auto simp: password_events_def)
    qed (use L in simp)
  qed
qed

lemma login_inv_password:
  assumes "login_inv evs a" "add_pending now tok (totp_entry now a) a = (True, a')" "au_localUser a \<noteq> []"
  shows "login_inv (PasswordOK tok now # evs) a'"
proof -
  have p: "e = (tok, totp_entry now a) \<or> e \<in> set (au_pending a)" if "e \<in> set (au_pending a')" for e
    using assms(2) that by (auto simp: add_pending_def Let_def dest!: set_AList_update gcPending_sub split: if_splits)
  have f: "au_otpLast a' = au_otpLast a" "au_localUser a' = au_localUser a" "au_TOTPSecret a' = au_TOTPSecret a"
    using assms(2) by (auto simp: add_pending_def Let_def split: if_splits)
  have "pending_ok (PasswordOK tok now # evs) a'"
    unfolding pending_ok_def f using assms(1) p
    by (fastforce simp: login_inv_def pending_ok_def totp_entry_def)
  moreover have "tries_ok (PasswordOK tok now # evs) a'"
  proof -
    have "half_done t a" if "half_done t a'" "t \<noteq> tok" for t using that p by (fastforce simp: half_done_def)
    moreover have "code_tries t evs + (if half_done t a then 1 else 0) \<le> passwords t evs" for t
      using assms(1) by (simp add: login_inv_def tries_ok_def)
    ultimately have "code_tries t evs + (if half_done t a' then 1 else 0) \<le> (if tok = t then 1 else 0) + passwords t evs" for t
      by (cases "tok = t") (force intro: le_trans split: if_splits)+
    then show ?thesis by (simp add: tries_ok_def)
  qed
  ultimately show ?thesis
    using assms(1) f by (simp add: login_inv_def counter_ok_def LocalTOTPEnabled_def split: option.splits)
qed

lemma not_half_done_drop [simp]: "\<not> half_done tok (drop_pending tok a)"
  by (auto simp: half_done_def drop_pending_def set_AList_delete)

lemma token_live_half_done: "token_live now tok a \<Longrightarrow> half_done tok a"
  by (auto simp: token_live_def half_done_def dest: map_of_SomeD split: option.splits)

lemma tries_ok_try:
  assumes "tries_ok evs a" "half_done tok a" "login_keeps a a'" "\<not> half_done tok a'"
  shows "tries_ok (CodeTried tok now c # evs) a'"
proof -
  have "code_tries t evs + (if half_done t a then 1 else 0) \<le> passwords t evs" for t
    using assms(1) by (simp add: tries_ok_def)
  then have "(if tok = t then 1 else 0) + code_tries t evs + (if half_done t a' then 1 else 0) \<le> passwords t evs" for t
    using assms(2,4) half_done_keeps [OF assms(3), of t] by (cases "tok = t") (force intro: le_trans split: if_splits)+
  then show ?thesis by (simp add: tries_ok_def)
qed

lemma login_inv_bad_code:
  assumes "login_inv evs a" "half_done tok a" "login_keeps a a'" "\<not> half_done tok a'"
  shows "login_inv (CodeTried tok now None # evs) a'"
proof -
  have i: "login_inv evs a'" by (rule login_inv_keeps [OF assms(1,3)])
  have "tries_ok (CodeTried tok now None # evs) a'"
    using assms by (auto simp: login_inv_def intro: tries_ok_try)
  moreover have "pending_ok (CodeTried tok now None # evs) a'" using i by (fastforce simp: login_inv_def pending_ok_def)
  moreover have "counter_ok (CodeTried tok now None # evs) a'" using i by (simp add: login_inv_def counter_ok_def split: option.splits)
  ultimately show ?thesis using i by (simp add: login_inv_def)
qed

lemma login_inv_good_code:
  assumes inv: "login_inv evs a" and p: "map_of (au_pending a) tok = Some p" "pl_totpUser p \<noteq> []" "\<not> pl_expires p < now"
    and acc: "acceptTOTPCounter (pl_totpUser p) c (drop_pending tok a) = (True, a')"
  shows "login_inv (CodeTried tok now (Some c) # evs) a'"
proof -
  define a0 where "a0 = drop_pending tok a"
  have m: "(tok, p) \<in> set (au_pending a)" by (rule map_of_SomeD [OF p(1)])
  then obtain t0 where t0: "PasswordOK tok t0 \<in> set evs" "pl_expires p = t0 + pendingTOTPTTL" and u: "pl_totpUser p = au_localUser a"
    using inv p(2) unfolding login_inv_def pending_ok_def by blast
  have k: "login_keeps a a0" by (simp add: a0_def)
  have i0: "login_inv evs a0" by (rule login_inv_keeps [OF inv k])
  have a': "a' = a0\<lparr>au_otpLast := (au_otpLast a0)(au_localUser a0 \<mapsto> c)\<rparr>"
    and fresh: "case au_otpLast a0 (au_localUser a0) of None \<Rightarrow> True | Some l \<Rightarrow> l < c"
    using acc k u by (auto simp: acceptTOTPCounter_def a0_def [symmetric] login_keeps_def not_le split: if_splits option.splits)
  have "half_done tok a" using m p(2) by (auto simp: half_done_def)
  then have "tries_ok (CodeTried tok now (Some c) # evs) a0"
    using inv k by (auto simp: login_inv_def a0_def intro: tries_ok_try)
  then have "tries_ok (CodeTried tok now (Some c) # evs) a'" by (simp add: tries_ok_def half_done_def a')
  moreover have "pending_ok (CodeTried tok now (Some c) # evs) a'"
    using i0 by (fastforce simp: login_inv_def pending_ok_def a')
  moreover have "counter_ok (CodeTried tok now (Some c) # evs) a'"
    using i0 fresh by (fastforce simp: login_inv_def counter_ok_def a' list_all_iff split: option.splits)
  ultimately show ?thesis using i0 t0 p(3) by (auto simp: login_inv_def a' LocalTOTPEnabled_def)
qed

text \<open>A code that was right but got no session (its random values failed) leaves its counter used.\<close>

lemma login_inv_forget:
  assumes "login_inv (CodeTried tok now (Some c) # evs) a"
  shows "login_inv evs a" "login_inv (CodeTried tok now None # evs) a"
proof -
  have t: "tries_ok (CodeTried tok now None # evs) a" using assms by (simp add: login_inv_def tries_ok_def)
  have "tries_ok evs a"
    unfolding tries_ok_def
  proof
    fix k
    have "code_tries k (CodeTried tok now None # evs) + (if half_done k a then 1 else 0) \<le> passwords k (CodeTried tok now None # evs)"
      using t unfolding tries_ok_def by blast
    then show "code_tries k evs + (if half_done k a then 1 else 0) \<le> passwords k evs" by (simp split: if_splits)
  qed
  moreover have "pending_ok evs a" "pending_ok (CodeTried tok now None # evs) a"
    using assms unfolding login_inv_def pending_ok_def by auto
  moreover note t
  moreover have "counter_ok evs a" "counter_ok (CodeTried tok now None # evs) a"
    using assms by (simp_all add: login_inv_def counter_ok_def split: option.splits)
  ultimately show "login_inv evs a" "login_inv (CodeTried tok now None # evs) a"
    using assms by (simp_all add: login_inv_def)
qed

lemma CompleteTOTPLogin_cases:
  assumes "CompleteTOTPLogin env now newID newCSRF tok code a = (res, a')"
  obtains (refused) e where "res = Inl e" "login_keeps (drop_pending tok a) a'"
  | (accepted) p c a1 where "map_of (au_pending a) tok = Some p" "pl_totpUser p \<noteq> []" "\<not> pl_expires p < now" "localAllowed a"
      "verifyTOTP (ae_hmac env) (au_TOTPKey a) code (unix now) = Some c"
      "acceptTOTPCounter (pl_totpUser p) c (drop_pending tok a) = (True, a1)"
      "newLocalSession newID newCSRF now [''pwd'', ''otp'', ''mfa''] a1 = (res, a')"
proof -
  have d: "localAllowed (drop_pending tok a) = localAllowed a" "au_TOTPKey (drop_pending tok a) = au_TOTPKey a"
    by (simp_all add: drop_pending_def localAllowed_def)
  have "(\<exists>e. res = Inl e \<and> a' = drop_pending tok a) \<or> (\<exists>p c a1. map_of (au_pending a) tok = Some p \<and> pl_totpUser p \<noteq> [] \<and>
      \<not> pl_expires p < now \<and> localAllowed a \<and> verifyTOTP (ae_hmac env) (au_TOTPKey a) code (unix now) = Some c \<and>
      acceptTOTPCounter (pl_totpUser p) c (drop_pending tok a) = (True, a1) \<and>
      newLocalSession newID newCSRF now [''pwd'', ''otp'', ''mfa''] a1 = (res, a'))"
    using assms
    by (auto simp: CompleteTOTPLogin_def d Let_def acceptTOTPCounter_def split: option.splits if_splits)
  then show ?thesis using refused accepted login_keeps_refl by blast
qed

lemma login_inv_code:
  assumes inv: "login_inv evs a" and h: "handleLocalTOTP env g now newID newCSRF form r a = (page, a')"
  shows "login_inv (code_events env now form a page @ evs) a'"
proof (cases form)
  case None
  then show ?thesis using h inv by (auto simp: handleLocalTOTP_def code_events_def)
next
  case (Some f)
  define key where "key = clientIPKey g r"
  define tok where "tok = lf_pending f"
  obtain ok a1 where 1: "login_gates now key (lf_username f) a = (ok, a1)" by fastforce
  note k1 = login_gates_keep [OF 1]
  note i1 = login_inv_keeps [OF inv k1]
  obtain res a2 where 2: "CompleteTOTPLogin env now newID newCSRF tok (lf_code f) a1 = (res, a2)" by fastforce
  have fails: ?thesis if r: "page = LoginPage 401 ret u" "a' = failureMessage now key (lf_username f) a2"
    and k2: "login_keeps (drop_pending tok a1) a2" for ret u
  proof -
    have k3: "login_keeps (drop_pending tok a1) a'" using login_keeps_trans [OF k2 failureMessage_keeps] r(2) by simp
    have k: "login_keeps a a'" "\<not> half_done tok a'"
      using login_keeps_trans [OF login_keeps_trans [OF k1 drop_keeps] k3] half_done_keeps [OF k3, of tok] not_half_done_drop by blast+
    show ?thesis
      using login_inv_keeps [OF inv k(1)] login_inv_bad_code [OF inv _ k] token_live_half_done
      by (auto simp: code_events_def Some r tok_def)
  qed
  show ?thesis
  proof (cases ok)
    case False
    then have "code_events env now form a page = []" "a' = snd (lockoutMessage now key (lf_username f) a1)"
      using h 1 Some by (auto simp: handleLocalTOTP_def Let_def key_def [symmetric] code_events_def)
    then show ?thesis using login_inv_keeps [OF i1 gate_ops_keep(5)] by simp
  next
    case True
    note h' = h [unfolded handleLocalTOTP_def Some option.case Let_def key_def [symmetric] tok_def [symmetric] 1 eqTrueI [OF True]
        prod.case bool.case 2]
    show ?thesis
    proof (cases rule: CompleteTOTPLogin_cases [OF 2])
      case (1 e)
      then show ?thesis using h' by (intro fails) auto
    next
      case (2 p c a3)
      have k3: "login_keeps a3 a2" by (rule newLocalSession_keeps [OF 2(7)])
      have i3: "login_inv (CodeTried tok now (Some c) # evs) a3" by (rule login_inv_good_code [OF i1 2(1-3,6)])
      show ?thesis
      proof (cases res)
        case (Inr s)
        obtain ck a4 where c4: "IssueCookie g now r s (NoteUserLoginResult (lf_username f) True (NoteLoginResult key True a2)) = (ck, a4)"
          by fastforce
        have "login_keeps a2 a4"
          by (rule login_keeps_trans [OF login_keeps_trans [OF gate_ops_keep(6) gate_ops_keep(7)] IssueCookie_keeps [OF c4]])
        then have "login_inv (CodeTried tok now (Some c) # evs) a4" using i3 k3 by (blast intro: login_inv_keeps)
        moreover have "code_events env now form a page = [CodeTried tok now (Some c)]" "a' = a4"
          using h' Inr c4 2(5) k1 by (auto simp: code_events_def Some tok_def login_keeps_def)
        ultimately show ?thesis by simp
      next
        case (Inl e)
        then have "a' = failureMessage now key (lf_username f) a2" using h' by simp
        then have "login_inv (CodeTried tok now (Some c) # evs) a'"
          using login_inv_keeps [OF i3 login_keeps_trans [OF k3 failureMessage_keeps]] by simp
        then show ?thesis using login_inv_forget h' Inl by (auto simp: code_events_def Some tok_def)
      qed
    qed
  qed
qed

lemma login_run_inv:
  assumes "login_run env a0 evs a" "LocalTOTPEnabled a0" "au_pending a0 = []" "au_otpLast a0 = Map.empty"
  shows "login_inv evs a"
  using assms(1)
proof (induction rule: login_run.induct)
  case start
  then show ?case using assms(2-4) by (simp add: login_inv_def pending_ok_def tries_ok_def counter_ok_def half_done_def)
next
  case (password evs a g now newState newID newCSRF form r page a')
  have "LocalTOTPEnabled a" using password.IH by (simp add: login_inv_def)
  from handleLocalLogin_cases [OF password.hyps(2) this] show ?case
    by cases (use password.IH in \<open>auto intro: login_inv_keeps login_inv_password\<close>)
next
  case (code evs a g now newID newCSRF form r page a')
  show ?case by (rule login_inv_code [OF code.IH code.hyps(2)])
next
  case (oidc_begin evs a)
  then show ?case by (blast intro: login_inv_keeps handleLogin_keeps)
next
  case (oidc_callback evs a)
  then show ?case by (blast intro: login_inv_keeps handleCallback_keeps)
next
  case (configure evs a)
  then show ?case by (blast intro: login_inv_keeps Configure_keeps)
next
  case (logout evs a r)
  have "login_keeps a (snd (Logout r a))" by (simp add: Logout_def login_keeps_def split: option.split)
  then show ?case by (blast intro: login_inv_keeps logout.IH)
qed

text \<open>C30: With a second factor configured, in every run of the panel's login handlers from a fresh start, in any order and with
  any settings changes, provider logins and logouts between: the password alone never opens a session; every session
  of the local account follows a right password of the same pending token from at most five minutes before; a token
  allows at most as many code checks as it had right passwords, so every guess at a code costs a right password; and the time steps
  of accepted codes strictly increase, so no code is accepted twice.\<close>

theorem second_factor_enforced:
  assumes "login_run env (NewAuthenticator cookie mode ttl user hash secret st) evs a" "secret \<noteq> []"
  shows "PasswordOnly \<notin> set evs \<and> backed evs \<and> (\<forall>tok. code_tries tok evs \<le> passwords tok evs) \<and> sorted_wrt (>) (accepted evs)"
proof -
  have "login_inv evs a"
    by (rule login_run_inv [OF assms(1)]) (use assms(2) in \<open>simp_all add: NewAuthenticator_def Let_def LocalTOTPEnabled_def\<close>)
  then show ?thesis unfolding login_inv_def tries_ok_def counter_ok_def by (meson add_leE)
qed

section \<open>Provider logins\<close>

text \<open>C32: A provider login ends in a session only in the browser that began it and once per attempt: the state cookie equals
  the state parameter, the state names a pending provider login that has not expired and is not a half-done
  local login, it is gone afterwards, and the session has the one role the provider's mapping gives the
  verified groups. The redirect target is that of the attempt, made local.\<close>

theorem provider_login_bound:
  assumes "admin_handleCallback env g now newID newCSRF r a = (LoggedIn s ck ret, a')"
  shows "\<exists>state p c idp cl a1. query_Get (url_RawQuery r) ''state'' = state \<and> state \<noteq> [] \<and> req_Cookie r oidcStateCookieName = Some state \<and>
    map_of (au_pending a) state = Some p \<and> pl_totpUser p = [] \<and> now \<le> pl_expires p \<and> map_of (au_pending a') state = None \<and>
    oidcClient env (pl_idp p) (drop_pending state a) = (Inr (c, idp), a1) \<and>
    ae_exchange env c (query_Get (url_RawQuery r) ''code'') (pl_verifier p) (pl_nonce p) = Some cl \<and>
    MapRole (ac_Groups cl) (idp_RoleMapping idp) \<noteq> [] \<and> ss_Roles s = [MapRole (ac_Groups cl) (idp_RoleMapping idp)] \<and>
    ss_Subject s = ac_Subject cl \<and> ret = sanitizeReturnTo (pl_returnTo p)"
proof -
  define state where "state = query_Get (url_RawQuery r) ''state''"
  define code where "code = query_Get (url_RawQuery r) ''code''"
  define a0 where "a0 = drop_pending state a"
  from assms obtain ret0 a2 where cookie: "state \<noteq> []" "req_Cookie r oidcStateCookieName = Some state"
    and compl: "CompleteLogin env now newID newCSRF state code a = (Inr (s, ret0), a2)"
    and issue: "IssueCookie g now r s a2 = (ck, a')" and ret: "ret = sanitizeReturnTo ret0"
    by (auto simp: admin_handleCallback_def Let_def state_def [symmetric] code_def [symmetric]
        split: if_splits sum.splits prod.splits option.splits)
  from compl obtain p c idp a1 cl where p: "map_of (au_pending a) state = Some p" "pl_totpUser p = []" "now \<le> pl_expires p"
    and oc: "oidcClient env (pl_idp p) a0 = (Inr (c, idp), a1)"
    and ex: "ae_exchange env c code (pl_verifier p) (pl_nonce p) = Some cl"
    and role: "MapRole (ac_Groups cl) (idp_RoleMapping idp) \<noteq> []" and ret0: "ret0 = pl_returnTo p"
    and cs: "create_session newID newCSRF now
                        \<lparr>ss_ID = [], ss_Subject = ac_Subject cl, ss_Email = ac_Email cl, ss_Name = ac_Name cl,
                         ss_Roles = [MapRole (ac_Groups cl) (idp_RoleMapping idp)],
                         ss_IdP = pl_idp p, ss_AMR = ac_AMR cl, ss_CSRF = [], ss_Created = 0, ss_Expires = now + au_sessionTTL a1\<rparr> a1 = (Inr s, a2)"
    by (auto simp: CompleteLogin_def Let_def a0_def [symmetric] not_less split: option.splits if_splits sum.splits prod.splits)
  from cs obtain st where st: "store_Create newID newCSRF now
                        \<lparr>ss_ID = [], ss_Subject = ac_Subject cl, ss_Email = ac_Email cl, ss_Name = ac_Name cl,
                         ss_Roles = [MapRole (ac_Groups cl) (idp_RoleMapping idp)],
                         ss_IdP = pl_idp p, ss_AMR = ac_AMR cl, ss_CSRF = [], ss_Created = 0, ss_Expires = now + au_sessionTTL a1\<rparr>
                        (au_store a1) = (Inr s, st)" and a2: "a2 = a1\<lparr>au_store := st\<rparr>"
    by (auto simp: create_session_def split: prod.splits)
  have "au_pending a1 = au_pending a0" using oc by (auto simp: oidcClient_def split: option.splits if_splits)
  moreover have "au_pending a' = au_pending a2" using issue by (auto simp: IssueCookie_def cookieSecure_def split: if_splits)
  ultimately have gone: "map_of (au_pending a') state = None" by (simp add: a2 a0_def drop_pending_def delete_conv)
  from store_Create_Inr(3,4) [OF st] have "ss_Roles s = [MapRole (ac_Groups cl) (idp_RoleMapping idp)]" "ss_Subject s = ac_Subject cl"
    by simp_all
  with p oc ex role cookie gone ret ret0 show ?thesis unfolding a0_def state_def [symmetric] code_def [symmetric] by blast
qed

text \<open>The provider list is not consulted by a login that names its provider.\<close>

lemma oidcClient_settings:
  "oidcClient env name (a\<lparr>au_settings := s\<rparr>) = (case oidcClient env name a of (x, a') \<Rightarrow> (x, a'\<lparr>au_settings := s\<rparr>))"
  by (auto simp: oidcClient_def split: option.splits)

lemma BeginLogin_settings:
  "BeginLogin env now ns nn v idp ret key (a\<lparr>au_settings := s\<rparr>) =
     (case BeginLogin env now ns nn v idp ret key a of (x, a') \<Rightarrow> (x, a'\<lparr>au_settings := s\<rparr>))"
proof -
  obtain full gt where 1: "rateGate_atLimit False now key (au_pendingGate a) = (full, gt)" by fastforce
  obtain y a1 where 2: "oidcClient env idp (a\<lparr>au_pendingGate := gt\<rparr>) = (y, a1)" by fastforce
  have sw: "a\<lparr>au_settings := s, au_pendingGate := gt\<rparr> = a\<lparr>au_pendingGate := gt, au_settings := s\<rparr>" by simp
  have 3: "oidcClient env idp (a\<lparr>au_settings := s, au_pendingGate := gt\<rparr>) = (y, a1\<lparr>au_settings := s\<rparr>)"
    unfolding sw using oidcClient_settings [of env idp s "a\<lparr>au_pendingGate := gt\<rparr>"] 2 by simp
  have ap: "add_pending now k p (a1\<lparr>au_settings := s\<rparr>) = (case add_pending now k p a1 of (x, a') \<Rightarrow> (x, a'\<lparr>au_settings := s\<rparr>))" for k p
    by (simp add: add_pending_def Let_def)
  show ?thesis
    by (cases ns; cases nn) (auto simp: BeginLogin_def 1 2 3 ap Let_def split: prod.splits sum.splits bool.splits)
qed

lemma cookieSecure_settings:
  "cookieSecure g now r (a\<lparr>au_settings := s\<rparr>) = (case cookieSecure g now r a of (x, a') \<Rightarrow> (x, a'\<lparr>au_settings := s\<rparr>))"
proof -
  have "secureFor g (a\<lparr>au_settings := s\<rparr>) r = secureFor g a r" by (simp add: secureFor_def split: cookie_secure_mode.split)
  then show ?thesis by (simp add: cookieSecure_def)
qed

lemma startLogin_settings:
  "fst (startLogin env g now ns nn v r idp ret (a\<lparr>au_settings := s\<rparr>)) = fst (startLogin env g now ns nn v r idp ret a)"
  by (auto simp: startLogin_def BeginLogin_settings cookieSecure_settings split: prod.splits sum.splits)

lemma CompleteLogin_settings:
  "CompleteLogin env now i k state code (a\<lparr>au_settings := s\<rparr>) =
     (case CompleteLogin env now i k state code a of (x, a') \<Rightarrow> (x, a'\<lparr>au_settings := s\<rparr>))"
proof -
  have d: "drop_pending state (a\<lparr>au_settings := s\<rparr>) = (drop_pending state a)\<lparr>au_settings := s\<rparr>" by (simp add: drop_pending_def)
  have c: "create_session i k now ses (b\<lparr>au_settings := s\<rparr>) = (case create_session i k now ses b of (x, a') \<Rightarrow> (x, a'\<lparr>au_settings := s\<rparr>))" for b ses
    by (simp add: create_session_def split: prod.split)
  show ?thesis
    by (auto simp: CompleteLogin_def Let_def d c oidcClient_settings split: prod.splits option.splits sum.splits)
qed

text \<open>C33: The list of providers allowed to log in to the panel hides buttons but refuses nobody: a login that names its provider, and
  the callback that ends it, give the same response whatever the admin-auth settings are, so any OIDC provider of the
  configuration whose role mapping yields a role opens a panel session.\<close>

theorem unlisted_provider_logs_in:
  assumes "query_Get (url_RawQuery r) ''idp'' \<noteq> []"
  shows "fst (admin_handleLogin env g now ns nn v r (a\<lparr>au_settings := s\<rparr>)) = fst (admin_handleLogin env g now ns nn v r a) \<and>
    fst (admin_handleCallback env g now' i k r' (a\<lparr>au_settings := s\<rparr>)) = fst (admin_handleCallback env g now' i k r' a)"
proof
  show "fst (admin_handleLogin env g now ns nn v r (a\<lparr>au_settings := s\<rparr>)) = fst (admin_handleLogin env g now ns nn v r a)"
    using assms by (simp add: admin_handleLogin_def Let_def startLogin_settings)
  have n: "cookieNameFor (b\<lparr>au_settings := s\<rparr>) x = cookieNameFor b x" for b x
    by (simp add: cookieNameFor_def au_secureCookieName_def)
  show "fst (admin_handleCallback env g now' i k r' (a\<lparr>au_settings := s\<rparr>)) = fst (admin_handleCallback env g now' i k r' a)"
    by (auto simp: admin_handleCallback_def Let_def CompleteLogin_settings IssueCookie_def cookieSecure_settings n
        split: prod.splits sum.splits)
qed

section \<open>An example login\<close>

definition demo_admin_env :: "unit admin_env" where
  "demo_admin_env =
     \<lparr>ae_bcrypt = (\<lambda>h p. h = p), ae_hmac = flat_hmac, ae_secret = Some, ae_client = (\<lambda>i s u. Some ()),
      ae_url = (\<lambda>c s n v. ''https://idp/authorize''),
      ae_exchange = (\<lambda>c code v n. Some \<lparr>ac_Subject = ''mallory'', ac_Email = [], ac_Name = [], ac_Groups = [''ops''], ac_AMR = []\<rparr>)\<rparr>"

definition demo_admin :: "unit authenticator" where
  "demo_admin = Configure [] \<lparr>aas_Providers = [], aas_LocalLoginEnabled = True, aas_SSOOnly = False\<rparr> []
     (NewAuthenticator [] CookieSecureAuto 0 ''root'' ''pw'' (replicate 32 (CHR ''A'')) Map.empty)"

definition demo_form :: login_form where
  "demo_form = \<lparr>lf_return = ''/'', lf_username = ''root'', lf_password = ''pw'', lf_pending = ''t'', lf_code = TOTPCode flat_hmac [] 2\<rparr>"

definition demo_post :: http_request where
  "demo_post = \<lparr>RemoteAddr = ''192.0.2.1:1'', Host = ''panel'', Method = ''POST'', url_Path = ''/auth/local'', url_RawQuery = [],
     Header = Map.empty, TLS = None, ctx_clientIP = None\<rparr>"

lemma fresh_gate:
  "0 < m \<Longrightarrow> rateGate_atLimit b now k (newRateGate w l m) = (False, newRateGate w l m)"
  "0 < m \<Longrightarrow> tryBegin now k (newRateGate w l m) = (True, count_failure now k 0 (newRateGate w l m))"
  by (simp_all add: rateGate_atLimit_def tryBegin_def newRateGate_def lookup_gate_def saturatedLocked_def)

lemma second_attempt:
  assumes "0 \<le> w" "1 < l" "0 < m" "n = 0"
  shows "rateGate_atLimit b now k (count_failure now k n (newRateGate w l m)) = (False, count_failure now k n (newRateGate w l m))"
    "tryBegin now k (count_failure now k n (newRateGate w l m)) = (True, count_failure now k 1 (count_failure now k 0 (newRateGate w l m)))"
  using assms
  by (simp_all add: rateGate_atLimit_def tryBegin_def newRateGate_def lookup_gate_def saturatedLocked_def count_failure_def put_gate_def expired_def)

definition demo_pending :: "unit authenticator" where
  "demo_pending = demo_admin\<lparr>au_loginGate := count_failure 60 (clientIPKey None demo_post) 0 (au_loginGate demo_admin),
     au_userGate := count_failure 60 (loginUserKey ''root'') 0 (au_userGate demo_admin),
     au_pending := [(''t'', totp_entry 60 demo_admin)]\<rparr>"

lemma demo_fields:
  "au_loginGate demo_admin = newRateGate loginLockout maxLoginFails maxLoginGates"
  "au_userGate demo_admin = newRateGate loginLockout maxUserLoginFails maxUserLoginGates"
  "au_localUser demo_admin = ''root''" "au_localHash demo_admin = ''pw''" "au_TOTPSecret demo_admin = replicate 32 (CHR ''A'')"
  "localAllowed demo_admin" "au_pending demo_admin = []" "au_otpLast demo_admin = Map.empty" "au_store demo_admin = Map.empty"
  by (simp_all add: demo_admin_def Configure_def NewAuthenticator_def Let_def localAllowed_def)

lemma gate_sizes: "0 < maxLoginGates" "0 < maxUserLoginGates" "1 < maxLoginFails" "1 < maxUserLoginFails" "0 \<le> loginLockout"
  by (simp_all add: maxLoginGates_def maxUserLoginGates_def maxLoginFails_def maxUserLoginFails_def loginLockout_def minutes_def)

lemmas demo_second_attempt =
  second_attempt [OF gate_sizes(5,3,1) refl] second_attempt [OF gate_sizes(5,4,2) refl]

lemma demo_gates:
  "login_gates 60 k ''root'' demo_admin = (True, demo_admin\<lparr>au_loginGate := count_failure 60 k 0 (au_loginGate demo_admin),
     au_userGate := count_failure 60 (loginUserKey ''root'') 0 (au_userGate demo_admin)\<rparr>)"
  by (simp add: login_gates_def UserLoginThrottled_def LoginAttempt_def UserLoginAttempt_def demo_fields fresh_gate gate_sizes)

lemma demo_password_step:
  "handleLocalLogin demo_admin_env None 60 (Some ''t'') None None (Some demo_form) demo_post demo_admin =
    (CodePage ''t'' (sanitizeReturnTo ''/'') ''root'', demo_pending)"
proof -
  let ?a = "snd (login_gates 60 (clientIPKey None demo_post) ''root'' demo_admin)"
  have f: "localAllowed ?a" "au_localUser ?a = ''root''" "au_localHash ?a = ''pw''" "LocalTOTPEnabled ?a" "au_pending ?a = []"
    using demo_fields by (simp_all add: demo_gates localAllowed_def LocalTOTPEnabled_def split: if_splits)
  have "LocalLogin demo_admin_env 60 (Some ''t'') None None ''root'' ''pw'' ?a = (LocalPending ''t'', ?a\<lparr>au_pending := [(''t'', totp_entry 60 ?a)]\<rparr>)"
    using f by (simp add: LocalLogin_def startPendingTOTP_def add_pending_def gcPendingLocked_def maxPendingLogins_def
        demo_admin_env_def totp_entry_def)
  then show ?thesis
    by (simp add: handleLocalLogin_def demo_form_def demo_gates demo_pending_def totp_entry_def Let_def)
qed

lemma demo_key: "au_TOTPKey demo_admin \<noteq> []"
proof -
  have "NormalizeTOTPSecret (replicate 32 (CHR ''A'')) = Some (replicate 20 0)" by code_simp
  then show ?thesis by (simp add: demo_admin_def Configure_def NewAuthenticator_def Let_def)
qed

lemma flat_code: "k \<noteq> [] \<Longrightarrow> \<exists>c. verifyTOTP flat_hmac k (TOTPCode flat_hmac [] 2) now = Some c"
proof -
  assume "k \<noteq> []"
  moreover have "TOTPCode flat_hmac k c = TOTPCode flat_hmac [] 2" for c by (simp add: TOTPCode_def flat_hmac_def)
  moreover have "totp_steps (totpCounter now) \<noteq> []" by (simp add: totp_steps_def)
  ultimately show ?thesis
    using TOTPCode_shape [of flat_hmac "[]" 2]
    by (auto simp: verifyTOTP_def Let_def TrimSpace_digits totpDigits_def split: list.split)
qed

lemma demo_code_step:
  "\<exists>s ck ret a'. handleLocalTOTP demo_admin_env None 60 (Some ''id'') (Some ''csrf'') (Some demo_form) demo_post demo_pending = (LoggedIn s ck ret, a')"
proof -
  let ?k = "clientIPKey None demo_post"
  obtain a2 where g: "login_gates 60 ?k ''root'' demo_pending = (True, a2)"
    and a2: "au_pending a2 = [(''t'', totp_entry 60 demo_admin)]" "localAllowed a2" "au_TOTPKey a2 = au_TOTPKey demo_admin"
      "au_otpLast a2 = Map.empty" "au_store a2 = Map.empty"
    using demo_fields
    by (simp add: login_gates_def UserLoginThrottled_def LoginAttempt_def UserLoginAttempt_def demo_pending_def demo_second_attempt
        localAllowed_def split: if_splits)
  obtain c where c: "verifyTOTP flat_hmac (au_TOTPKey demo_admin) (TOTPCode flat_hmac [] 2) (unix 60) = Some c"
    using flat_code [OF demo_key] by blast
  have e: "pl_totpUser (totp_entry 60 demo_admin) = ''root''" "pl_expires (totp_entry 60 demo_admin) = 60 + minutes 5"
    by (simp_all add: totp_entry_def demo_fields pendingTOTPTTL_def)
  have "\<exists>s a3. CompleteTOTPLogin demo_admin_env 60 (Some ''id'') (Some ''csrf'') ''t'' (TOTPCode flat_hmac [] 2) a2 = (Inr s, a3)"
    using a2 c e
    by (simp add: CompleteTOTPLogin_def drop_pending_def localAllowed_def demo_admin_env_def acceptTOTPCounter_def minutes_def
        newLocalSession_def create_session_def store_Create_def Let_def split: if_splits)
  then show ?thesis
    using g by (auto simp: handleLocalTOTP_def demo_form_def Let_def split: prod.split)
qed

theorem second_factor_enforced_witness:
  "\<exists>evs a. login_run demo_admin_env (NewAuthenticator [] CookieSecureAuto 0 ''root'' ''pw'' (replicate 32 (CHR ''A'')) Map.empty) evs a \<and>
     passwords ''t'' evs = 1 \<and> code_tries ''t'' evs = 1 \<and> backed evs"
proof -
  let ?a0 = "NewAuthenticator [] CookieSecureAuto 0 ''root'' ''pw'' (replicate 32 (CHR ''A'')) Map.empty"
  obtain s ck ret a' where c: "handleLocalTOTP demo_admin_env None 60 (Some ''id'') (Some ''csrf'') (Some demo_form) demo_post demo_pending = (LoggedIn s ck ret, a')"
    using demo_code_step by blast
  have "login_run demo_admin_env ?a0 [] demo_admin"
    unfolding demo_admin_def by (rule login_run.configure [OF login_run.start])
  from login_run.code [OF login_run.password [OF this demo_password_step] c]
  have "login_run demo_admin_env ?a0 [CodeTried ''t'' 60 (verifyTOTP (ae_hmac demo_admin_env) (au_TOTPKey demo_pending)
      (lf_code demo_form) (unix 60)), PasswordOK ''t'' 60] a'"
    by (simp add: password_events_def code_events_def demo_form_def)
  moreover from second_factor_enforced [OF this] have "backed [CodeTried ''t'' 60 (verifyTOTP (ae_hmac demo_admin_env)
      (au_TOTPKey demo_pending) (lf_code demo_form) (unix 60)), PasswordOK ''t'' 60]" by simp
  ultimately show ?thesis by fastforce
qed

definition demo_callback :: http_request where
  "demo_callback = \<lparr>RemoteAddr = ''192.0.2.1:1'', Host = ''panel'', Method = ''GET'', url_Path = ''/auth/callback'',
     url_RawQuery = ''state=t&code=c'', Header = Map.empty(''Cookie'' \<mapsto> [''gpm_oidc_state=t'']), TLS = None, ctx_clientIP = None\<rparr>"

lemma demo_query: "query_Get ''state=t&code=c'' ''state'' = ''t''" "query_Get ''state=t&code=c'' ''code'' = ''c''"
  "query_Get ''state=t&code=c'' ''error'' = []" "query_Get ''idp=partner'' ''idp'' = ''partner''"
  "req_Cookie demo_callback oidcStateCookieName = Some ''t''"
  by code_simp+

theorem unlisted_provider_logs_in_witness:
  "fst (admin_handleLogin demo_admin_env None 0 None None [] (demo_post\<lparr>url_RawQuery := ''idp=partner''\<rparr>)
      (demo_admin\<lparr>au_settings := \<lparr>aas_Providers = [], aas_LocalLoginEnabled = False, aas_SSOOnly = True\<rparr>\<rparr>)) =
   fst (admin_handleLogin demo_admin_env None 0 None None [] (demo_post\<lparr>url_RawQuery := ''idp=partner''\<rparr>) demo_admin)"
  using unlisted_provider_logs_in [of "demo_post\<lparr>url_RawQuery := ''idp=partner''\<rparr>" demo_admin_env None 0 None None "[]"
      "\<lparr>aas_Providers = [], aas_LocalLoginEnabled = False, aas_SSOOnly = True\<rparr>" demo_admin 0 None None demo_post]
  by (simp add: demo_query)

definition demo_partner :: identity_provider where
  "demo_partner = \<lparr>idp_Name = ''partner'', idp_Type = ''oidc'',
     idp_OIDC = Some \<lparr>IssuerURL = [], ClientID = [], ClientSecret = [], oidc_Scopes = [], UsePKCE = None, RequireVerifiedEmail = False\<rparr>,
     idp_ForwardAuth = None, idp_AuthRequest = None,
     idp_RoleMapping = Some \<lparr>GroupsClaim = [], AdminGroups = [''ops''], UserGroups = [], DefaultRole = [], AllowDefaultAdmin = False\<rparr>\<rparr>"

definition demo_waiting :: "unit authenticator" where
  "demo_waiting = demo_admin\<lparr>au_idps := Map.empty(''partner'' \<mapsto> demo_partner), au_clients := Map.empty(''partner'' \<mapsto> ()),
     au_pending := [(''t'', \<lparr>pl_idp = ''partner'', pl_nonce = [], pl_verifier = [], pl_returnTo = ''/'', pl_expires = 5, pl_totpUser = []\<rparr>)]\<rparr>"

theorem provider_login_bound_witness:
  "\<exists>s ck ret a'. admin_handleCallback demo_admin_env None 0 (Some ''i'') (Some ''k'') demo_callback demo_waiting = (LoggedIn s ck ret, a') \<and>
     map_of (au_pending a') ''t'' = None"
proof -
  have q: "url_RawQuery demo_callback = ''state=t&code=c''" by (simp add: demo_callback_def)
  have m: "MapRole [''ops''] (idp_RoleMapping demo_partner) = ''admin''" by code_simp
  have f: "au_idps demo_waiting ''partner'' = Some demo_partner" "au_clients demo_waiting ''partner'' = Some ()"
    "au_pending demo_waiting = [(''t'', \<lparr>pl_idp = ''partner'', pl_nonce = [], pl_verifier = [], pl_returnTo = ''/'', pl_expires = 5, pl_totpUser = []\<rparr>)]"
    "au_store demo_waiting = Map.empty" "idp_Type demo_partner = ''oidc''" "idp_OIDC demo_partner \<noteq> None"
    by (simp_all add: demo_waiting_def demo_fields demo_partner_def)
  have "\<exists>s ret a1. CompleteLogin demo_admin_env 0 (Some ''i'') (Some ''k'') ''t'' ''c'' demo_waiting = (Inr (s, ret), a1)"
    using f m by (auto simp: CompleteLogin_def drop_pending_def oidcClient_def demo_admin_env_def create_session_def store_Create_def Let_def)
  then obtain s ret a1 where "CompleteLogin demo_admin_env 0 (Some ''i'') (Some ''k'') ''t'' ''c'' demo_waiting = (Inr (s, ret), a1)" by blast
  then have "\<exists>s ck ret a'. admin_handleCallback demo_admin_env None 0 (Some ''i'') (Some ''k'') demo_callback demo_waiting = (LoggedIn s ck ret, a')"
    by (auto simp: admin_handleCallback_def q demo_query Let_def split: prod.split)
  then obtain s ck ret a' where r: "admin_handleCallback demo_admin_env None 0 (Some ''i'') (Some ''k'') demo_callback demo_waiting = (LoggedIn s ck ret, a')"
    by blast
  from provider_login_bound [OF r] have "map_of (au_pending a') ''t'' = None" by (auto simp: q demo_query)
  with r show ?thesis by blast
qed

end
