(* ===== verification/Secrets.thy ===== *)
theory Secrets
  imports Config_Validate
begin

text \<open>
  Secrets of the configuration, \<open>internal/model/secret.go\<close>: the placeholders \<open>${ENV:name}\<close> and
  \<open>${FILE:path}\<close>, the gates that keep a placeholder away from the program's own credentials, their
  resolution, the redacted JSON form, and the scan for literal secrets that a write is refused for.

  The two regular expressions are written out as the deterministic matchers they are: a reference is
  \<open>${ENV:\<close> or \<open>${FILE:\<close>, then everything up to the next closing brace, at least one character. The
  environment and the file system are the record \<open>os\<close>: \<open>os_env\<close> is \<open>os.LookupEnv\<close>, \<open>os_links\<close> is
  \<open>filepath.EvalSymlinks\<close> and \<open>os_read\<close> is \<open>os.ReadFile\<close>, each by the path it is called with.

  The lemmas show which part of the system a resolved value can depend on, that a value read over the
  API can be written back without changing what is stored, and when a configuration has no literal secret.
\<close>

section \<open>Placeholders\<close>

text \<open>\<open>\s\<close> of Go's regular expressions has no vertical tab, unlike \<open>strings.TrimSpace\<close>.\<close>

definition re_space :: "char \<Rightarrow> bool" where
  "re_space c \<longleftrightarrow> byte_of c \<in> {9, 10, 12, 13, 32}"

text \<open>A reference at the front of a string: its kind, its text, and what follows it.\<close>

definition secret_open :: "string \<Rightarrow> (string \<times> string) option" where
  "secret_open s =
     (if Sublist.prefix ''${ENV:'' s then Some (''ENV'', drop 6 s)
      else if Sublist.prefix ''${FILE:'' s then Some (''FILE'', drop 7 s) else None)"

definition secretRef :: "string \<Rightarrow> (string \<times> string \<times> string) option" where
  "secretRef s =
     (case secret_open s of
        None \<Rightarrow> None
      | Some (kind, t) \<Rightarrow>
          (let ref = before (CHR ''}'') t in
           if ref = [] \<or> CHR ''}'' \<notin> set t then None else Some (kind, ref, after (CHR ''}'') t)))"

lemma secret_open_shorter: "secret_open s = Some (k, t) \<Longrightarrow> length t < length s"
  by (auto simp: secret_open_def Sublist.prefix_def split: if_splits)

lemma after_shorter: "length (after c t) \<le> length t"
  unfolding after_def by (metis diff_le_self le_trans length_dropWhile_le length_tl)

lemma secretRef_shorter: "secretRef s = Some (k, ref, rest) \<Longrightarrow> length rest < length s"
proof -
  assume "secretRef s = Some (k, ref, rest)"
  then obtain t where "secret_open s = Some (k, t)" "rest = after (CHR ''}'') t"
    by (auto simp: secretRef_def Let_def split: option.splits if_splits)
  then show ?thesis using secret_open_shorter [of s k t] after_shorter [of "CHR ''}''" t] by simp
qed

lemma secret_only_shorter:
  assumes "secretRef (dropWhile re_space s) = Some (k, ref, rest)"
  shows "length (dropWhile re_space rest) < length s"
proof -
  have "length rest < length (dropWhile re_space s)" by (rule secretRef_shorter [OF assms])
  also have "\<dots> \<le> length s" by (rule length_dropWhile_le)
  finally show ?thesis using length_dropWhile_le [of re_space rest] by linarith
qed

function secret_only :: "string \<Rightarrow> bool" where
  "secret_only s =
     (case secretRef (dropWhile re_space s) of
        None \<Rightarrow> False
      | Some (_, _, rest) \<Rightarrow> (let r = dropWhile re_space rest in r = [] \<or> secret_only r))"
  by pat_completeness auto

termination
  by (relation "measure length") (auto dest: secret_only_shorter)

declare secret_only.simps [simp del]

definition IsPlaceholder :: "string \<Rightarrow> bool" where
  "IsPlaceholder s = secret_only s"

section \<open>The environment and the file system\<close>

record os =
  os_env :: "string \<Rightarrow> string option"
  os_links :: "string \<Rightarrow> string option"
  os_read :: "string \<Rightarrow> string option"

definition Getenv :: "os \<Rightarrow> string \<Rightarrow> string" where
  "Getenv sys k = (case os_env sys k of None \<Rightarrow> [] | Some v \<Rightarrow> v)"

datatype secret_error =
  ReservedEnv string
  | EnvOutsidePrefixes string
  | EnvNotSet string
  | FileNotAbsolute string
  | FileOutsideRoots string
  | ReservedFile string
  | FileUnreadable string

definition trimmed_fields :: "string list \<Rightarrow> string list" where
  "trimmed_fields xs = filter (\<lambda>r. r \<noteq> []) (map TrimSpace xs)"

definition secretFileRoots :: "os \<Rightarrow> string list" where
  "secretFileRoots sys =
     (let v = TrimSpace (Getenv sys ''GPM_SECRET_FILE_ROOTS'');
          roots = trimmed_fields (split_on (CHR '':'') v)
      in if v \<noteq> [] \<and> roots \<noteq> [] then roots else [''/run/secrets''])"

definition reservedSecretFileEnv :: "string list" where
  "reservedSecretFileEnv =
     [''GPM_LOCAL_ADMIN_PASSWORD_HASH_FILE'', ''GPM_LOCAL_ADMIN_TOTP_SECRET_FILE'', ''GPM_SSO_SIGNING_KEY_FILE'']"

text \<open>\<open>link_target sys p\<close> is the path with its symbolic links evaluated, or the path itself when that fails.\<close>

definition link_target :: "os \<Rightarrow> string \<Rightarrow> string" where
  "link_target sys p = (case os_links sys p of None \<Rightarrow> p | Some q \<Rightarrow> q)"

definition reserved_by :: "os \<Rightarrow> string \<Rightarrow> string \<Rightarrow> bool" where
  "reserved_by sys clean k =
     (let p = TrimSpace (Getenv sys k); rp = path_Clean p; target = link_target sys clean in
      p \<noteq> [] \<and>
      (clean = rp \<or> target = rp \<or>
       (case os_links sys rp of None \<Rightarrow> False | Some ev \<Rightarrow> ev = clean \<or> ev = target)))"

definition reservedSecretFile :: "os \<Rightarrow> string \<Rightarrow> bool" where
  "reservedSecretFile sys clean = list_ex (reserved_by sys clean) reservedSecretFileEnv"

definition in_root :: "string \<Rightarrow> string \<Rightarrow> bool" where
  "in_root clean root0 =
     (let root = path_Clean root0 in clean = root \<or> Sublist.prefix (root @ ''/'') clean)"

definition allowedSecretFile :: "os \<Rightarrow> string \<Rightarrow> secret_error option" where
  "allowedSecretFile sys ref =
     (if \<not> Sublist.prefix ''/'' ref then Some (FileNotAbsolute ref)
      else let clean = path_Clean ref in
        if \<not> list_ex (in_root clean) (secretFileRoots sys) then Some (FileOutsideRoots ref)
        else if reservedSecretFile sys clean then Some (ReservedFile ref)
        else None)"

definition reservedSecretEnv :: "string list" where
  "reservedSecretEnv =
     [''GPM_LOCAL_ADMIN_PASSWORD_HASH'', ''GPM_LOCAL_ADMIN_TOTP_SECRET'', ''GPM_SSO_SIGNING_KEY'']"

definition secretEnvPrefixes :: "os \<Rightarrow> string list" where
  "secretEnvPrefixes sys =
     (let v = TrimSpace (Getenv sys ''GPM_SECRET_ENV_PREFIXES'') in
      if v = [] then [] else trimmed_fields (split_on (CHR '','') v))"

definition allowedSecretEnv :: "os \<Rightarrow> string \<Rightarrow> secret_error option" where
  "allowedSecretEnv sys ref =
     (if ref \<in> set reservedSecretEnv then Some (ReservedEnv ref)
      else if secretEnvPrefixes sys = [] \<or> list_ex (\<lambda>p. Sublist.prefix p ref) (secretEnvPrefixes sys) then None
      else Some (EnvOutsidePrefixes ref))"

section \<open>Resolution\<close>

definition is_eol :: "char \<Rightarrow> bool" where
  "is_eol c \<longleftrightarrow> byte_of c = 13 \<or> byte_of c = 10"

definition resolve_env :: "os \<Rightarrow> string \<Rightarrow> secret_error + string" where
  "resolve_env sys ref =
     (case allowedSecretEnv sys ref of
        Some e \<Rightarrow> Inl e
      | None \<Rightarrow> (case os_env sys ref of None \<Rightarrow> Inl (EnvNotSet ref) | Some v \<Rightarrow> Inr v))"

definition resolve_file :: "os \<Rightarrow> string \<Rightarrow> secret_error + string" where
  "resolve_file sys ref =
     (case allowedSecretFile sys ref of
        Some e \<Rightarrow> Inl e
      | None \<Rightarrow> (case os_read sys ref of None \<Rightarrow> Inl (FileUnreadable ref) | Some b \<Rightarrow> Inr (trim_right is_eol b)))"

text \<open>The replacement function of \<open>ReplaceAllStringFunc\<close> on one reference.\<close>

definition resolve_ref :: "os \<Rightarrow> string \<Rightarrow> string \<Rightarrow> secret_error + string" where
  "resolve_ref sys kind m2 = (let ref = TrimSpace m2 in if kind = ''ENV'' then resolve_env sys ref else resolve_file sys ref)"

text \<open>The scan over the value, leftmost reference first. \<open>resErr\<close> is the error seen so far: a later
  reference that fails overwrites it, one that succeeds leaves it.\<close>

function resolve_scan :: "os \<Rightarrow> secret_error option \<Rightarrow> string \<Rightarrow> secret_error option \<times> string" where
  "resolve_scan sys resErr s =
     (case secretRef s of
        Some (kind, m2, rest) \<Rightarrow>
          (case resolve_ref sys kind m2 of
             Inl e \<Rightarrow>
               (case resolve_scan sys (Some e) rest of
                  (err, out) \<Rightarrow> (err, take (length s - length rest) s @ out))
           | Inr v \<Rightarrow> (case resolve_scan sys resErr rest of (err, out) \<Rightarrow> (err, v @ out)))
      | None \<Rightarrow>
          (case s of
             [] \<Rightarrow> (resErr, [])
           | c # cs \<Rightarrow> (case resolve_scan sys resErr cs of (err, out) \<Rightarrow> (err, c # out))))"
  by pat_completeness auto
termination
  by (relation "measure (\<lambda>(_, _, s). length s)") (auto dest: secretRef_shorter)

declare resolve_scan.simps [simp del]

definition Resolve :: "os \<Rightarrow> string \<Rightarrow> secret_error + string" where
  "Resolve sys s = (case resolve_scan sys None s of (Some e, _) \<Rightarrow> Inl e | (None, out) \<Rightarrow> Inr out)"

section \<open>The JSON form and the scan for literals\<close>

definition secret_MarshalJSON :: "string \<Rightarrow> string" where
  "secret_MarshalJSON s = (if secret_IsEmpty s then [] else if IsPlaceholder s then s else ''***'')"

definition literal_secret :: "string \<Rightarrow> bool" where
  "literal_secret s \<longleftrightarrow> \<not> IsPlaceholder s \<and> \<not> secret_IsEmpty s"

definition indexed :: "string \<Rightarrow> ('a \<Rightarrow> (string \<times> string) list) \<Rightarrow> 'a list \<Rightarrow> (string \<times> string) list" where
  "indexed field f xs =
     concat (map (\<lambda>(i, x). map (\<lambda>(p, v). (field @ ''['' @ itoa i @ '']'' @ p, v)) (f x)) (List.enumerate 0 xs))"

text \<open>The fields of type \<open>Secret\<close> of each object, with the dotted path the reflection walk gives them.\<close>

definition certificate_secrets :: "certificate \<Rightarrow> (string \<times> string) list" where
  "certificate_secrets c =
     (case cert_ACME c of
        None \<Rightarrow> []
      | Some a \<Rightarrow> (case acme_EAB a of None \<Rightarrow> [] | Some (_, key) \<Rightarrow> [(''.ACME.EAB.HMACKey'', key)]))"

definition client_ca_secrets :: "client_ca \<Rightarrow> (string \<times> string) list" where
  "client_ca_secrets c = [(''.CAKeyPEM'', CAKeyPEM c)]"

definition dns_provider_secrets :: "dns_provider \<Rightarrow> (string \<times> string) list" where
  "dns_provider_secrets p = map (\<lambda>(k, v). (''.Config['' @ k @ '']'', v)) (dp_Config p)"

definition identity_provider_secrets :: "identity_provider \<Rightarrow> (string \<times> string) list" where
  "identity_provider_secrets p = (case idp_OIDC p of None \<Rightarrow> [] | Some s \<Rightarrow> [(''.OIDC.ClientSecret'', ClientSecret s)])"

definition middleware_secrets :: "middleware \<Rightarrow> (string \<times> string) list" where
  "middleware_secrets m = (case mw_Bouncer m of None \<Rightarrow> [] | Some b \<Rightarrow> [(''.Bouncer.APIKey'', bo_APIKey b)])"

definition config_secrets :: "gpm_config \<Rightarrow> (string \<times> string) list" where
  "config_secrets c =
     indexed ''Certificates'' certificate_secrets (c_Certificates c) @
     indexed ''ClientCAs'' client_ca_secrets (c_ClientCAs c) @
     indexed ''DNSProviders'' dns_provider_secrets (c_DNSProviders c) @
     indexed ''IdentityProviders'' identity_provider_secrets (c_IdentityProviders c) @
     indexed ''Middlewares'' middleware_secrets (c_Middlewares c)"

definition LiteralSecrets :: "(string \<times> string) list \<Rightarrow> string list" where
  "LiteralSecrets fs = map fst (filter (\<lambda>(_, v). literal_secret v) fs)"

lemmas [go_eval] = re_space_def secret_open_def secretRef_def IsPlaceholder_def Getenv_def trimmed_fields_def
  secretFileRoots_def link_target_def reserved_by_def reservedSecretFile_def in_root_def allowedSecretFile_def
  secretEnvPrefixes_def allowedSecretEnv_def is_eol_def resolve_env_def resolve_file_def resolve_ref_def Resolve_def
  secret_MarshalJSON_def literal_secret_def indexed_def certificate_secrets_def client_ca_secrets_def
  dns_provider_secrets_def identity_provider_secrets_def middleware_secrets_def config_secrets_def LiteralSecrets_def

section \<open>What a resolved secret can depend on\<close>

text \<open>The variables that steer the gates.\<close>

definition control_vars :: "string list" where
  "control_vars = [''GPM_SECRET_FILE_ROOTS'', ''GPM_SECRET_ENV_PREFIXES'', ''GPM_LOCAL_ADMIN_PASSWORD_HASH_FILE'',
     ''GPM_LOCAL_ADMIN_TOTP_SECRET_FILE'', ''GPM_SSO_SIGNING_KEY_FILE'']"

definition same_gates :: "os \<Rightarrow> os \<Rightarrow> bool" where
  "same_gates a b \<longleftrightarrow> list_all (\<lambda>k. os_env a k = os_env b k) control_vars \<and> os_links a = os_links b"

lemma same_gatesD:
  assumes "same_gates a b"
  shows "k \<in> set control_vars \<Longrightarrow> Getenv a k = Getenv b k" and "os_links a = os_links b"
  using assms by (auto simp: same_gates_def Getenv_def list_all_iff)

lemma same_gates_env: "same_gates a b \<Longrightarrow> allowedSecretEnv a = allowedSecretEnv b"
  by (simp add: fun_eq_iff allowedSecretEnv_def secretEnvPrefixes_def same_gatesD(1) control_vars_def)

lemma same_gates_reserved:
  assumes "same_gates a b"
  shows "reservedSecretFile a clean = reservedSecretFile b clean"
proof -
  have "reserved_by a clean k = reserved_by b clean k" if "k \<in> set reservedSecretFileEnv" for k
    using same_gatesD [OF assms] that by (auto simp: reserved_by_def link_target_def control_vars_def reservedSecretFileEnv_def Let_def)
  then show ?thesis by (simp add: reservedSecretFile_def list_ex_iff cong: bex_cong)
qed

lemma same_gates_file: "same_gates a b \<Longrightarrow> allowedSecretFile a = allowedSecretFile b"
proof (rule ext)
  fix p
  assume s: "same_gates a b"
  have "secretFileRoots a = secretFileRoots b"
    using s by (simp add: secretFileRoots_def same_gatesD(1) control_vars_def)
  then show "allowedSecretFile a p = allowedSecretFile b p"
    by (simp add: allowedSecretFile_def same_gates_reserved [OF s] Let_def)
qed

lemma resolve_scan_cong:
  assumes "\<And>kind m2. resolve_ref a kind m2 = resolve_ref b kind m2"
  shows "resolve_scan a e s = resolve_scan b e s"
proof (induction "length s" arbitrary: e s rule: less_induct)
  case less
  show ?case
  proof (cases "secretRef s")
    case None
    show ?thesis
    proof (cases s)
      case Nil
      then show ?thesis using None by (simp add: resolve_scan.simps [of _ _ "[]"])
    next
      case (Cons c cs)
      then have "resolve_scan a e cs = resolve_scan b e cs" using less by simp
      then show ?thesis using None by (simp add: Cons resolve_scan.simps [of _ _ "c # cs"])
    qed
  next
    case (Some r)
    then obtain kind m2 rest where r: "secretRef s = Some (kind, m2, rest)" by (cases r) auto
    have "resolve_scan a e' rest = resolve_scan b e' rest" for e'
      using less secretRef_shorter [OF r] by blast
    then show ?thesis by (simp add: resolve_scan.simps [of _ _ s] r assms split: sum.split)
  qed
qed

text \<open>What an operator permits, without the program's gates. Of the environment: every variable but the three that hold the program's own
  credentials, and if there is a list of prefixes only those with one of them. Of the files: an absolute path that, cleaned, lies at or below
  one of the configured directories (by default \<open>/run/secrets\<close>) and is not the same file, by path or by a symbolic link on either side, as one
  that a variable names as a credential file of the program.\<close>

definition env_permitted :: "os \<Rightarrow> string \<Rightarrow> bool" where
  "env_permitted sys k \<longleftrightarrow>
     k \<noteq> ''GPM_LOCAL_ADMIN_PASSWORD_HASH'' \<and> k \<noteq> ''GPM_LOCAL_ADMIN_TOTP_SECRET'' \<and> k \<noteq> ''GPM_SSO_SIGNING_KEY'' \<and>
     (let ps = map TrimSpace (split_on (CHR '','') (TrimSpace (Getenv sys ''GPM_SECRET_ENV_PREFIXES'')))
      in list_all (\<lambda>p. p = []) ps \<or> list_ex (\<lambda>p. p \<noteq> [] \<and> Sublist.prefix p k) ps)"

definition secret_root :: "os \<Rightarrow> string \<Rightarrow> bool" where
  "secret_root sys r \<longleftrightarrow>
     (let rs = map TrimSpace (split_on (CHR '':'') (TrimSpace (Getenv sys ''GPM_SECRET_FILE_ROOTS'')))
      in r \<noteq> [] \<and> r \<in> set rs \<or> list_all (\<lambda>r. r = []) rs \<and> r = ''/run/secrets'')"

definition same_file :: "os \<Rightarrow> string \<Rightarrow> string \<Rightarrow> bool" where
  "same_file sys p q \<longleftrightarrow>
     p = q \<or> os_links sys p = Some q \<or> os_links sys q = Some p \<or> (os_links sys p \<noteq> None \<and> os_links sys p = os_links sys q)"

definition file_permitted :: "os \<Rightarrow> string \<Rightarrow> bool" where
  "file_permitted sys p \<longleftrightarrow>
     Sublist.prefix ''/'' p \<and>
     (\<exists>r below. secret_root sys r \<and> (path_Clean p = path_Clean r \<or> path_Clean p = path_Clean r @ ''/'' @ below)) \<and>
     list_all (\<lambda>k. TrimSpace (Getenv sys k) \<noteq> [] \<longrightarrow> \<not> same_file sys (path_Clean p) (path_Clean (TrimSpace (Getenv sys k))))
       [''GPM_LOCAL_ADMIN_PASSWORD_HASH_FILE'', ''GPM_LOCAL_ADMIN_TOTP_SECRET_FILE'', ''GPM_SSO_SIGNING_KEY_FILE'']"

lemma TrimSpace_Nil: "TrimSpace [] = []"
  by (simp add: TrimSpace_def trim_left_def trim_right_def)

lemma allowed_env_permitted: "allowedSecretEnv sys k = None \<longleftrightarrow> env_permitted sys k"
  by (auto simp: allowedSecretEnv_def env_permitted_def reservedSecretEnv_def secretEnvPrefixes_def trimmed_fields_def Let_def list_ex_iff
    list_all_iff filter_empty_conv TrimSpace_Nil split: if_splits)

lemma roots_secret_root: "r \<in> set (secretFileRoots sys) \<longleftrightarrow> secret_root sys r"
  by (auto simp: secretFileRoots_def secret_root_def trimmed_fields_def Let_def list_all_iff filter_empty_conv TrimSpace_Nil)

lemma reserved_same_file:
  "reserved_by sys p k \<longleftrightarrow> TrimSpace (Getenv sys k) \<noteq> [] \<and> same_file sys p (path_Clean (TrimSpace (Getenv sys k)))"
  by (auto simp: reserved_by_def same_file_def link_target_def Let_def split: option.splits)

lemma in_root_below: "in_root p r \<longleftrightarrow> (\<exists>below. p = path_Clean r \<or> p = path_Clean r @ ''/'' @ below)"
  by (auto simp: in_root_def Let_def Sublist.prefix_def)

lemma reserved_file_permitted:
  "reservedSecretFile sys p \<longleftrightarrow>
     \<not> list_all (\<lambda>k. TrimSpace (Getenv sys k) \<noteq> [] \<longrightarrow> \<not> same_file sys p (path_Clean (TrimSpace (Getenv sys k))))
       [''GPM_LOCAL_ADMIN_PASSWORD_HASH_FILE'', ''GPM_LOCAL_ADMIN_TOTP_SECRET_FILE'', ''GPM_SSO_SIGNING_KEY_FILE'']"
  by (simp add: reservedSecretFile_def reservedSecretFileEnv_def reserved_same_file)

lemma allowed_file_permitted: "allowedSecretFile sys p = None \<longleftrightarrow> file_permitted sys p"
proof -
  have r: "list_ex (in_root (path_Clean p)) (secretFileRoots sys) \<longleftrightarrow>
      (\<exists>r below. secret_root sys r \<and> (path_Clean p = path_Clean r \<or> path_Clean p = path_Clean r @ ''/'' @ below))"
    unfolding list_ex_iff in_root_below roots_secret_root [symmetric] by blast
  show ?thesis
    unfolding allowedSecretFile_def file_permitted_def Let_def r [symmetric]
    by (simp only: reserved_file_permitted option.simps split: if_split) blast
qed

text \<open>C10: a resolved secret depends on nothing but what the operator permits. Two systems that agree on the five variables that steer
  the resolution, on the symbolic links, on every environment variable other than the admin's password hash, his TOTP secret and the signing key
  of single sign-on that has an allowed prefix, and on every file below a configured secret directory that is not one of
  the program's three credential files under any name or link, give every secret the same value, or the same error. So no
  configuration value can carry a credential of the program or a file from elsewhere out.\<close>

theorem resolve_confined:
  assumes "same_gates a b"
    and "\<forall>k. env_permitted a k \<longrightarrow> os_env a k = os_env b k"
    and "\<forall>p. file_permitted a p \<longrightarrow> os_read a p = os_read b p"
  shows "Resolve a s = Resolve b s"
proof -
  have "resolve_env a ref = resolve_env b ref" "resolve_file a ref = resolve_file b ref" for ref
    using assms(2,3) unfolding allowed_env_permitted [symmetric] allowed_file_permitted [symmetric]
    by (simp_all add: resolve_env_def resolve_file_def same_gates_env [OF assms(1)] same_gates_file [OF assms(1)] split: option.split)
  then have "resolve_ref a kind m2 = resolve_ref b kind m2" for kind m2 by (simp add: resolve_ref_def Let_def)
  then have "resolve_scan a None s = resolve_scan b None s" by (rule resolve_scan_cong)
  then show ?thesis by (simp add: Resolve_def)
qed

text \<open>Two hosts that differ only in the administrator's password hash.\<close>

definition host_with_hash :: "string \<Rightarrow> os" where
  "host_with_hash h = \<lparr>os_env = (\<lambda>k. if k = ''GPM_LOCAL_ADMIN_PASSWORD_HASH'' then Some h else if k = ''TOKEN'' then Some ''t0'' else None),
     os_links = (\<lambda>p. None), os_read = (\<lambda>p. None)\<rparr>"

lemma host_with_hash_same: "same_gates (host_with_hash a) (host_with_hash b)"
  by (simp add: same_gates_def control_vars_def reservedSecretFileEnv_def host_with_hash_def)

theorem resolve_confined_witness:
  "Resolve (host_with_hash ''one'') ''${ENV:TOKEN}'' = Resolve (host_with_hash ''two'') ''${ENV:TOKEN}'' \<and>
   Resolve (host_with_hash ''one'') ''${ENV:TOKEN}'' = Inr ''t0''"
proof
  show "Resolve (host_with_hash ''one'') ''${ENV:TOKEN}'' = Resolve (host_with_hash ''two'') ''${ENV:TOKEN}''"
  proof (rule resolve_confined [OF host_with_hash_same])
    show "\<forall>k. env_permitted (host_with_hash ''one'') k \<longrightarrow>
        os_env (host_with_hash ''one'') k = os_env (host_with_hash ''two'') k"
      by (auto simp: env_permitted_def host_with_hash_def)
  qed (simp add: host_with_hash_def)
  have r: "secretRef ''${ENV:TOKEN}'' = Some (''ENV'', ''TOKEN'', [])" by code_simp
  have n: "secretRef [] = None" by code_simp
  have t: "TrimSpace ''TOKEN'' = ''TOKEN''" by code_simp
  have g: "secretEnvPrefixes (host_with_hash ''one'') = []"
    by (simp add: secretEnvPrefixes_def Getenv_def host_with_hash_def TrimSpace_def trim_left_def trim_right_def)
  have "resolve_ref (host_with_hash ''one'') ''ENV'' ''TOKEN'' = Inr ''t0''"
    by (simp add: resolve_ref_def t resolve_env_def allowedSecretEnv_def g reservedSecretEnv_def) (simp add: host_with_hash_def)
  then show "Resolve (host_with_hash ''one'') ''${ENV:TOKEN}'' = Inr ''t0''"
    by (simp add: Resolve_def resolve_scan.simps [of _ _ "''${ENV:TOKEN}''"] r resolve_scan.simps [of _ _ "[]"] n)
qed

section \<open>Reading a secret and writing it back\<close>

lemma stars_literal: "literal_secret ''***''" "\<not> IsPlaceholder ''***''" "\<not> secret_IsEmpty ''***''"
proof -
  have d: "dropWhile re_space ''***'' = ''***''" by code_simp
  have r: "secretRef ''***'' = None" by code_simp
  show p: "\<not> IsPlaceholder ''***''" unfolding IsPlaceholder_def secret_only.simps [of "''***''"] d r by simp
  show e: "\<not> secret_IsEmpty ''***''" by code_simp
  show "literal_secret ''***''" using p e by (simp add: literal_secret_def)
qed

text \<open>The JSON form of a secret neither reveals a literal nor lets one be replaced by accident. All
  literals have the same form; and a client that writes back the form it read either stores a value equal to
  the old one (or both are blank), or writes a literal, which is refused, exactly when the old value was a literal.\<close>

theorem secret_json_roundtrip:
  "literal_secret (secret_MarshalJSON s) = literal_secret s \<and>
   (if literal_secret s then secret_MarshalJSON s = ''***''
    else if secret_IsEmpty s then secret_MarshalJSON s = [] else secret_MarshalJSON s = s)"
proof -
  have e: "secret_IsEmpty []" by code_simp
  show ?thesis using stars_literal e by (auto simp: secret_MarshalJSON_def literal_secret_def)
qed

section \<open>Configurations without literal secrets\<close>

lemma LiteralSecrets_Nil: "LiteralSecrets fs = [] \<longleftrightarrow> list_all (\<lambda>(_, v). \<not> literal_secret v) fs"
  by (induction fs) (auto simp: LiteralSecrets_def)

lemma LiteralSecrets_append [simp]: "LiteralSecrets (xs @ ys) = LiteralSecrets xs @ LiteralSecrets ys"
  by (simp add: LiteralSecrets_def)

lemma indexed_values: "snd ` set (indexed field f xs) = (\<Union>x \<in> set xs. snd ` set (f x))"
proof -
  have "snd ` set (indexed field f xs) = (\<Union>y \<in> set (List.enumerate 0 xs). snd ` set (f (snd y)))"
    by (simp add: indexed_def image_UN image_image split_beta)
  also have "\<dots> = (\<Union>x \<in> snd ` set (List.enumerate 0 xs). snd ` set (f x))" by auto
  also have "snd ` set (List.enumerate 0 xs) = set xs" by (metis map_snd_enumerate set_map)
  finally show ?thesis .
qed

lemma LiteralSecrets_values: "LiteralSecrets fs = [] \<longleftrightarrow> (\<forall>v \<in> snd ` set fs. \<not> literal_secret v)"
  by (auto simp: LiteralSecrets_Nil list_all_iff)

lemma LiteralSecrets_indexed:
  "LiteralSecrets (indexed field f xs) = [] \<longleftrightarrow> (\<forall>x \<in> set xs. LiteralSecrets (f x) = [])"
  by (auto simp: LiteralSecrets_values indexed_values)

lemma no_literal_secrets:
  "LiteralSecrets (config_secrets c) = [] \<longleftrightarrow>
     (\<forall>x \<in> set (c_Certificates c). LiteralSecrets (certificate_secrets x) = []) \<and>
     (\<forall>x \<in> set (c_ClientCAs c). LiteralSecrets (client_ca_secrets x) = []) \<and>
     (\<forall>x \<in> set (c_DNSProviders c). LiteralSecrets (dns_provider_secrets x) = []) \<and>
     (\<forall>x \<in> set (c_IdentityProviders c). LiteralSecrets (identity_provider_secrets x) = []) \<and>
     (\<forall>x \<in> set (c_Middlewares c). LiteralSecrets (middleware_secrets x) = [])"
  by (simp add: config_secrets_def LiteralSecrets_indexed)

end
