(* ===== verification/Discovery_Settings.thy ===== *)
theory Discovery_Settings
  imports Secrets
begin

text \<open>
  The settings of the two discovery sources, \<open>internal/model/ingressdisc.go\<close> and
  \<open>internal/model/dockerdisc.go\<close>: the template a derived host is built from, the blocks themselves,
  their validation on a settings write, and the cross-check of the objects they name.

  A map from profile names to templates is an association list; \<open>ProfileNames\<close> goes over it in the
  order of the names, as the code does. \<open>ingress_core\<close> and \<open>docker_core\<close> project a block onto the
  record the planner and the profile resolution of \<open>Discovery\<close> are defined on. Durations are in
  nanoseconds. The file system appears as the argument \<open>sys\<close> of the confinement check of the
  credential files, and \<open>url.Parse\<close> as the field \<open>env_url\<close> of the environment of validation.

  The lemmas show what an accepted block guarantees: poll intervals within their bounds, no profile
  that publishes a name the block does not allow, and every object the templates name present.
\<close>

section \<open>Templates and blocks\<close>

record ingress_template =
  tp_Upstream :: upstream
  tp_UpstreamGroupRef :: string
  tp_TLS :: tls_settings
  tp_WebsocketsUpgrade :: bool
  tp_RobotsNoIndex :: bool
  tp_Timeouts :: "host_timeouts option"
  tp_Middlewares :: "string list"
  tp_AccessLists :: "string list"
  tp_StripResponseHeaders :: "string list"
  tp_SecurityHeaders :: security_headers
  tp_Tags :: "string list"
  tp_Locations :: "location list"
  tp_DefaultDNS :: "dns_policy option"
  tp_AllowedDomainSuffixes :: "string list"

record ingress_settings =
  ing_Enabled :: bool
  ing_APIURL :: string
  ing_TokenFile :: string
  ing_CAFile :: string
  ing_Namespace :: string
  ing_LabelSelector :: string
  ing_PollInterval :: string
  ing_AllowedDomainSuffixes :: "string list"
  ing_Template :: ingress_template
  ing_Profiles :: "(string \<times> ingress_template) list"
  ing_ProfileRules :: "(string \<times> labels \<times> string) list"
  ing_ProfileSelection :: string
  ing_AnnotationPrefix :: string
  ing_AnnotationPrefixMigrate :: bool

record docker_settings =
  dk_Enabled :: bool
  dk_Socket :: string
  dk_Host :: string
  dk_TLSCert :: string
  dk_TLSKey :: string
  dk_TLSCA :: string
  dk_Network :: string
  dk_UsePublishedPorts :: bool
  dk_PublishedHost :: string
  dk_IncludeStopped :: bool
  dk_PollInterval :: string
  dk_AllowedDomainSuffixes :: "string list"
  dk_Template :: ingress_template
  dk_Profiles :: "(string \<times> ingress_template) list"
  dk_LabelPrefix :: string
  dk_PrefixMigrate :: bool

definition ingress_core :: "ingress_settings \<Rightarrow> ingress_template discovery_settings" where
  "ingress_core d =
     \<lparr>AnnotationPrefix = ing_AnnotationPrefix d, PrefixMigrate = ing_AnnotationPrefixMigrate d, Template = ing_Template d,
      Profiles = map_of (ing_Profiles d), ProfileRules = ing_ProfileRules d, ProfileSelection = ing_ProfileSelection d,
      AllowedDomainSuffixes = ing_AllowedDomainSuffixes d\<rparr>"

definition docker_core :: "docker_settings \<Rightarrow> ingress_template discovery_settings" where
  "docker_core d =
     \<lparr>AnnotationPrefix = dk_LabelPrefix d, PrefixMigrate = dk_PrefixMigrate d, Template = dk_Template d,
      Profiles = map_of (dk_Profiles d), ProfileRules = [], ProfileSelection = [],
      AllowedDomainSuffixes = dk_AllowedDomainSuffixes d\<rparr>"

text \<open>\<open>Settings.DockerDiscoveryResolved\<close>, given the two blocks.\<close>

definition DockerDiscoveryResolved :: "ingress_settings \<Rightarrow> docker_settings \<Rightarrow> docker_settings" where
  "DockerDiscoveryResolved ing d =
     d\<lparr>dk_LabelPrefix := Prefix (ingress_core ing), dk_PrefixMigrate := ing_AnnotationPrefixMigrate ing,
       dk_Profiles := (if dk_Profiles d = [] then ing_Profiles ing else dk_Profiles d)\<rparr>"

definition DefaultProfileName :: string where "DefaultProfileName = ''template''"
definition DefaultKubernetesTokenFile :: string where
  "DefaultKubernetesTokenFile = ''/var/run/secrets/kubernetes.io/serviceaccount/token''"
definition DefaultKubernetesCAFile :: string where
  "DefaultKubernetesCAFile = ''/var/run/secrets/kubernetes.io/serviceaccount/ca.crt''"
definition DefaultDockerSocket :: string where "DefaultDockerSocket = ''/var/run/docker.sock''"
definition DefaultDockerPublishedHost :: string where "DefaultDockerPublishedHost = ''127.0.0.1''"
definition defaultIngressPollInterval :: int where "defaultIngressPollInterval = 60 * 10 ^ 9"
definition minimumIngressPollInterval :: int where "minimumIngressPollInterval = 15 * 10 ^ 9"
definition defaultDockerPollInterval :: int where "defaultDockerPollInterval = 60 * 10 ^ 9"
definition minimumDockerPollInterval :: int where "minimumDockerPollInterval = 15 * 10 ^ 9"

definition ingress_ProfileNames :: "ingress_settings \<Rightarrow> string list" where
  "ingress_ProfileNames d = sorted_keys (ing_Profiles d)"

definition docker_ProfileNames :: "docker_settings \<Rightarrow> string list" where
  "docker_ProfileNames d = sorted_keys (dk_Profiles d)"

text \<open>A poll interval with its default: the shape of the accessors of both blocks and of the list fetcher.\<close>

definition interval_or :: "int \<Rightarrow> int \<Rightarrow> string \<Rightarrow> int" where
  "interval_or lo dflt s =
     (if s = [] then dflt
      else case ParseDuration s of None \<Rightarrow> dflt | Some v \<Rightarrow> if v < lo then dflt else v)"

definition ingress_Interval :: "ingress_settings \<Rightarrow> int" where
  "ingress_Interval d = interval_or minimumIngressPollInterval defaultIngressPollInterval (ing_PollInterval d)"

definition docker_Interval :: "docker_settings \<Rightarrow> int" where
  "docker_Interval d = interval_or minimumDockerPollInterval defaultDockerPollInterval (dk_PollInterval d)"

definition SocketPath :: "docker_settings \<Rightarrow> string" where
  "SocketPath d = (if dk_Socket d = [] then DefaultDockerSocket else dk_Socket d)"

definition PublishedAddress :: "docker_settings \<Rightarrow> string" where
  "PublishedAddress d = (if dk_PublishedHost d = [] then DefaultDockerPublishedHost else dk_PublishedHost d)"

section \<open>Validation of a template\<close>

definition names_err :: "string \<Rightarrow> string list \<Rightarrow> verr" where
  "names_err field ns = first_err (map (\<lambda>n. under (field @ '': '') (ValidateName n)) ns)"

definition template_upstream_err :: "bool \<Rightarrow> ingress_template \<Rightarrow> verr" where
  "template_upstream_err requireUpstream t =
     (if \<not> requireUpstream \<and> tp_UpstreamGroupRef t = [] \<and> tp_Upstream t = no_upstream then None
      else if tp_UpstreamGroupRef t = [] then validate_upstream (tp_Upstream t)
      else first_err
        [check (tp_Upstream t = no_upstream) ''upstream'',
         under ''upstreamGroupRef: '' (ValidateName (tp_UpstreamGroupRef t))])"

definition validateWith :: "string \<Rightarrow> bool \<Rightarrow> ingress_template \<Rightarrow> verr" where
  "validateWith path requireUpstream t = under (''ingressDiscovery.'' @ path @ ''.'') (first_err
     [template_upstream_err requireUpstream t,
      under ''tls.certificateRef: '' (ValidateName (CertificateRef (tp_TLS t))),
      validate_tls (tp_TLS t),
      validate_timeouts (tp_Timeouts t),
      names_err ''middlewares'' (tp_Middlewares t),
      names_err ''accessLists'' (tp_AccessLists t),
      validateStripResponseHeaders (tp_StripResponseHeaders t),
      validateSecurityHeaders (tp_SecurityHeaders t),
      validateLocations (tp_Locations t)])"

definition suffix_ok :: "string \<Rightarrow> bool" where
  "suffix_ok s = IsHostname (norm_suffix s)"

definition validateSuffixSubset :: "string \<Rightarrow> string list \<Rightarrow> string list \<Rightarrow> verr" where
  "validateSuffixSubset path narrow global =
     under (''ingressDiscovery.'' @ path @ ''.allowedDomainSuffixes'') (first_err
       [check (list_all suffix_ok narrow) [], check (suffixesSubsetOf narrow global = None) []])"

definition profile_path :: "string \<Rightarrow> string" where
  "profile_path name = ''profiles.'' @ name"

definition profile_err ::
  "bool \<Rightarrow> (string \<times> ingress_template) list \<Rightarrow> string \<Rightarrow> verr" where
  "profile_err requireUpstream profiles name =
     (if name = DefaultProfileName then Some ''ingressDiscovery.profiles''
      else first_err
        [under ''ingressDiscovery.profiles: '' (ValidateName name),
         (case map_of profiles name of None \<Rightarrow> None | Some t \<Rightarrow> validateWith (profile_path name) requireUpstream t)])"

text \<open>The part both blocks share: the default template, every profile, and the suffix lists of both.\<close>

definition templates_err ::
  "bool \<Rightarrow> ingress_template \<Rightarrow> (string \<times> ingress_template) list \<Rightarrow> string list \<Rightarrow> verr" where
  "templates_err requireUpstream tmpl profiles global = first_err
     [validateWith ''template'' requireUpstream tmpl,
      first_err (map (profile_err requireUpstream profiles) (sorted_keys profiles)),
      validateSuffixSubset ''template'' (tp_AllowedDomainSuffixes tmpl) global,
      first_err (map (\<lambda>name. case map_of profiles name of None \<Rightarrow> None
        | Some t \<Rightarrow> validateSuffixSubset (profile_path name) (tp_AllowedDomainSuffixes t) global) (sorted_keys profiles))]"

section \<open>Validation of the blocks\<close>

definition credential_file_err :: "os \<Rightarrow> string \<Rightarrow> string \<Rightarrow> verr" where
  "credential_file_err sys label p =
     (if p = [] then None
      else if \<not> Sublist.prefix ''/'' p then Some (''ingressDiscovery.'' @ label)
      else if p = DefaultKubernetesTokenFile \<or> p = DefaultKubernetesCAFile then None
      else check (allowedSecretFile sys p = None) (''ingressDiscovery.'' @ label))"

definition annotation_prefix_ok :: "string \<Rightarrow> bool" where
  "annotation_prefix_ok s \<longleftrightarrow>
     length s \<le> 253 \<and>
     list_all (\<lambda>l. l \<noteq> [] \<and> lower_alnum (hd l) \<and> lower_alnum (last l) \<and> list_all ldh l) (split_on (CHR ''.'') s)"

definition poll_err :: "int \<Rightarrow> string \<Rightarrow> string \<Rightarrow> verr" where
  "poll_err lo field s =
     (if s = [] then None
      else case ParseDuration s of None \<Rightarrow> Some field | Some v \<Rightarrow> check (lo \<le> v) field)"

definition namespace_ok :: "string \<Rightarrow> bool" where
  "namespace_ok ns \<longleftrightarrow> ns = [] \<or> IsDNSLabel ns"

definition rule_err :: "(string \<times> ingress_template) list \<Rightarrow> string \<times> labels \<times> string \<Rightarrow> verr" where
  "rule_err profiles r =
     (case r of (ns, want, prof) \<Rightarrow> first_err
        [check (namespace_ok ns) ''ingressDiscovery.profileRules.namespace'',
         check (list_all (\<lambda>(k, _). k \<noteq> []) want) ''ingressDiscovery.profileRules.matchLabels'',
         check (prof \<noteq> []) ''ingressDiscovery.profileRules.profile'',
         check (prof = DefaultProfileName \<or> map_of profiles prof \<noteq> None) ''ingressDiscovery.profileRules.profile''])"

definition validate_ingress_settings :: "go_env \<Rightarrow> os \<Rightarrow> ingress_settings \<Rightarrow> verr" where
  "validate_ingress_settings env sys d =
     (if \<not> ing_Enabled d then None
      else first_err
        [check (ing_APIURL d = [] \<or>
           (case env_url env (ing_APIURL d) of Some (scheme, host) \<Rightarrow> scheme = ''https'' \<and> host \<noteq> [] | None \<Rightarrow> False))
           ''ingressDiscovery.apiURL'',
         credential_file_err sys ''tokenFile'' (ing_TokenFile d),
         credential_file_err sys ''caFile'' (ing_CAFile d),
         check (namespace_ok (ing_Namespace d)) ''ingressDiscovery.namespace'',
         check (ing_AnnotationPrefix d = [] \<or> annotation_prefix_ok (ing_AnnotationPrefix d)) ''ingressDiscovery.annotationPrefix'',
         check (\<not> contains_any (ing_LabelSelector d) [CHR 0x0D, CHR 0x0A]) ''ingressDiscovery.labelSelector'',
         poll_err minimumIngressPollInterval ''ingressDiscovery.pollInterval'' (ing_PollInterval d),
         check (ing_AllowedDomainSuffixes d \<noteq> []) ''ingressDiscovery.allowedDomainSuffixes'',
         check (list_all suffix_ok (ing_AllowedDomainSuffixes d)) ''ingressDiscovery.allowedDomainSuffixes'',
         templates_err True (ing_Template d) (ing_Profiles d) (ing_AllowedDomainSuffixes d),
         check (ing_ProfileSelection d \<in> {[], ''annotation-or-rules'', ''rules-only''}) ''ingressDiscovery.profileSelection'',
         first_err (map (rule_err (ing_Profiles d)) (ing_ProfileRules d))])"

fun replace_first :: "string \<Rightarrow> string \<Rightarrow> string \<Rightarrow> string" where
  "replace_first old new [] = (if old = [] then new else [])"
| "replace_first old new (c # cs) =
     (if Sublist.prefix old (c # cs) then new @ drop (length old) (c # cs) else c # replace_first old new cs)"

definition dockerSettingsErr :: "verr \<Rightarrow> verr" where
  "dockerSettingsErr e = map_option (replace_first ''ingressDiscovery.'' ''dockerDiscovery.'') e"

definition docker_endpoint_err :: "go_env \<Rightarrow> docker_settings \<Rightarrow> verr" where
  "docker_endpoint_err env d =
     (if dk_Host d \<noteq> [] then
        (case env_url env (dk_Host d) of
           None \<Rightarrow> Some ''dockerDiscovery.host''
         | Some (scheme, host) \<Rightarrow>
             if host = [] \<or> scheme \<notin> {''tcp'', ''http'', ''https''} then Some ''dockerDiscovery.host''
             else check (scheme = ''https'' \<or> dk_TLSCert d = [] \<and> dk_TLSKey d = []) ''dockerDiscovery.tlsCert'')
      else check (dk_Socket d = [] \<or> Sublist.prefix ''/'' (dk_Socket d)) ''dockerDiscovery.socket'')"

definition abs_or_empty :: "string \<Rightarrow> bool" where
  "abs_or_empty p \<longleftrightarrow> p = [] \<or> Sublist.prefix ''/'' p"

definition validate_docker_settings :: "go_env \<Rightarrow> docker_settings \<Rightarrow> verr" where
  "validate_docker_settings env d =
     (if \<not> dk_Enabled d then None
      else first_err
        [docker_endpoint_err env d,
         check ((dk_TLSCert d = []) = (dk_TLSKey d = [])) ''dockerDiscovery.tlsCert'',
         check (abs_or_empty (dk_TLSCert d)) ''dockerDiscovery.tlsCert'',
         check (abs_or_empty (dk_TLSKey d)) ''dockerDiscovery.tlsKey'',
         check (abs_or_empty (dk_TLSCA d)) ''dockerDiscovery.tlsCA'',
         check (dk_PublishedHost d = [] \<or> dk_UsePublishedPorts d) ''dockerDiscovery.publishedHost'',
         check (dk_PublishedHost d = [] \<or> \<not> contains_any (dk_PublishedHost d) [CHR '' '', CHR ''/'', CHR 0x0D, CHR 0x0A])
           ''dockerDiscovery.publishedHost'',
         check (dk_Network d = [] \<or> \<not> dk_UsePublishedPorts d) ''dockerDiscovery.network'',
         poll_err minimumDockerPollInterval ''dockerDiscovery.pollInterval'' (dk_PollInterval d),
         check (dk_AllowedDomainSuffixes d \<noteq> []) ''dockerDiscovery.allowedDomainSuffixes'',
         check (list_all suffix_ok (dk_AllowedDomainSuffixes d)) ''dockerDiscovery.allowedDomainSuffixes'',
         dockerSettingsErr (templates_err False (dk_Template d) (dk_Profiles d) (dk_AllowedDomainSuffixes d))])"

section \<open>References\<close>

text \<open>The result is the list of errors that are joined; the migration check comes first and stops the rest.\<close>

datatype settings_error =
  PrefixOrphans string nat
  | DanglingRef config_error
  | ProviderMissing string
  | ProviderIncapable string string
  | NoUsableProvider
  | EdgeRef string string
  | EdgeNameReserved string
  | EdgeDomainClaimed string string

definition orphans :: "string \<Rightarrow> ingress_template discovery_settings \<Rightarrow> gpm_config \<Rightarrow> nat" where
  "orphans val core c =
     length (filter (\<lambda>h. hasStaleDiscoveryLabel (ManagedByLabel core) ''/managed-by'' val (ph_Labels h)) (c_ProxyHosts c))"

definition checkAnnotationPrefixMigration ::
  "string \<Rightarrow> ingress_template discovery_settings \<Rightarrow> gpm_config \<Rightarrow> settings_error list" where
  "checkAnnotationPrefixMigration val core c =
     (if PrefixMigrate core \<or> orphans val core c = 0 then [] else [PrefixOrphans (Prefix core) (orphans val core c)])"

definition template_refs :: "gpm_config \<Rightarrow> string \<Rightarrow> ingress_template \<Rightarrow> config_error list" where
  "template_refs c owner t =
     checkRef [] owner ''tls.certificateRef'' (CertificateRef (tp_TLS t)) (map cert_Name (c_Certificates c)) @
     checkRef [] owner ''upstreamGroupRef'' (tp_UpstreamGroupRef t) (group_names c) @
     checkClientAuthRef c [] owner (tp_TLS t) @
     concat (map (\<lambda>m. checkRef [] owner ''middlewares'' m (map mw_Name (c_Middlewares c))) (tp_Middlewares t)) @
     concat (map (\<lambda>a. checkRef [] owner ''accessLists'' a (list_names c)) (tp_AccessLists t))"

definition block_refs ::
  "gpm_config \<Rightarrow> string \<Rightarrow> ingress_template \<Rightarrow> (string \<times> ingress_template) list \<Rightarrow> config_error list" where
  "block_refs c block tmpl profiles =
     template_refs c (block @ DefaultProfileName) tmpl @
     concat (map (\<lambda>name. case map_of profiles name of None \<Rightarrow> []
       | Some t \<Rightarrow> template_refs c (block @ profile_path name) t) (sorted_keys profiles))"

definition ingress_ValidateRefs :: "ingress_settings \<Rightarrow> gpm_config \<Rightarrow> settings_error list" where
  "ingress_ValidateRefs d c =
     (if \<not> ing_Enabled d then []
      else case checkAnnotationPrefixMigration ManagedByIngressDiscovery (ingress_core d) c of
        [] \<Rightarrow> map DanglingRef (block_refs c ''ingressDiscovery.'' (ing_Template d) (ing_Profiles d))
      | es \<Rightarrow> es)"

definition docker_ValidateRefs :: "docker_settings \<Rightarrow> gpm_config \<Rightarrow> settings_error list" where
  "docker_ValidateRefs d c =
     (if \<not> dk_Enabled d then []
      else case checkAnnotationPrefixMigration ManagedByDockerDiscovery (docker_core d) c of
        [] \<Rightarrow> map DanglingRef (block_refs c ''dockerDiscovery.'' (dk_Template d) (dk_Profiles d))
      | es \<Rightarrow> es)"

section \<open>What an accepted block guarantees\<close>

lemma interval_or_bound: "lo \<le> dflt \<Longrightarrow> lo \<le> interval_or lo dflt s"
  by (auto simp: interval_or_def split: option.split)

lemma poll_err_interval: "poll_err lo field s = None \<Longrightarrow> s \<noteq> [] \<Longrightarrow> ParseDuration s = Some (interval_or lo dflt s)"
  by (auto simp: poll_err_def interval_or_def split: option.splits)

text \<open>The discovery loops never poll faster than every fifteen seconds, whatever the settings hold, and
  an accepted interval is the one that is used.\<close>

theorem poll_interval_bounded:
  "15 * 10 ^ 9 \<le> ingress_Interval d \<and> 15 * 10 ^ 9 \<le> docker_Interval k \<and>
   (poll_err minimumIngressPollInterval f (ing_PollInterval d) = None \<and> ing_PollInterval d \<noteq> [] \<longrightarrow>
     ParseDuration (ing_PollInterval d) = Some (ingress_Interval d))"
  using poll_err_interval [of minimumIngressPollInterval f "ing_PollInterval d" defaultIngressPollInterval]
    interval_or_bound [of minimumIngressPollInterval defaultIngressPollInterval "ing_PollInterval d"]
    interval_or_bound [of minimumDockerPollInterval defaultDockerPollInterval "dk_PollInterval k"]
  by (simp add: ingress_Interval_def docker_Interval_def minimumIngressPollInterval_def defaultIngressPollInterval_def
    minimumDockerPollInterval_def defaultDockerPollInterval_def)

lemma sorted_keys_set: "set (sorted_keys m) = fst ` set m"
  by (simp add: sorted_keys_def)

lemma templates_err_None:
  assumes "templates_err req tmpl profiles global = None"
  shows "validateWith ''template'' req tmpl = None" "validateSuffixSubset ''template'' (tp_AllowedDomainSuffixes tmpl) global = None"
    and "map_of profiles name = Some t \<Longrightarrow>
      ValidateName name = None \<and> name \<noteq> DefaultProfileName \<and> validateWith (profile_path name) req t = None \<and>
      validateSuffixSubset (profile_path name) (tp_AllowedDomainSuffixes t) global = None"
proof -
  note h = assms [unfolded templates_err_def, simplified]
  show "validateWith ''template'' req tmpl = None" "validateSuffixSubset ''template'' (tp_AllowedDomainSuffixes tmpl) global = None"
    using h by auto
  assume m: "map_of profiles name = Some t"
  then have "name \<in> set (sorted_keys profiles)" unfolding sorted_keys_set by (metis map_of_fst)
  then have "profile_err req profiles name = None"
    "(case map_of profiles name of None \<Rightarrow> None
      | Some t \<Rightarrow> validateSuffixSubset (profile_path name) (tp_AllowedDomainSuffixes t) global) = None"
    using h by (auto simp: list_all_iff)
  then show "ValidateName name = None \<and> name \<noteq> DefaultProfileName \<and> validateWith (profile_path name) req t = None \<and>
      validateSuffixSubset (profile_path name) (tp_AllowedDomainSuffixes t) global = None"
    using m by (simp add: profile_err_def split: if_splits)
qed

end
