(* ===== verification/Derive_Host.thy ===== *)
theory Derive_Host
  imports Discovery_Settings
begin

text \<open>
  From a cluster Ingress or a container to the proxy host derived for it: \<open>derive\<close> and \<open>planReconcile\<close> of
  \<open>internal/k8s/discovery.go\<close> and \<open>internal/docker/discovery.go\<close>, down to the hand-over to the planner
  of \<open>Discovery\<close>.

  An error keeps a short tag of its message; the error of a profile that does not resolve is a
  constructor of its own, as it is a type of its own in the code. The domains an object names and that
  are refused are collected as in the code, where they end up in the log and in the message.

  The lemmas relate a derived host to the settings that produced it: every domain of a derived host is
  a host name inside the allowed suffixes, nothing but domains, port, scheme and the DNS flags comes
  from the object, the host passes validation when the settings did, and which of its references can
  dangle although the settings were accepted.
\<close>

section \<open>The objects\<close>

record ingress =
  in_Namespace :: string
  in_Name :: string
  in_Annotations :: labels
  in_Labels :: labels
  in_RuleHosts :: "string list"

record docker_port =
  dp_PrivatePort :: int
  dp_PublicPort :: int
  dp_Type :: string

record container =
  ct_ID :: string
  ct_Names :: "string list"
  ct_Labels :: labels
  ct_Ports :: "docker_port list"
  ct_Networks :: "(string \<times> string) list"

definition container_Name :: "container \<Rightarrow> string" where
  "container_Name c =
     (case find (\<lambda>n. n \<noteq> []) (map (\<lambda>n. if Sublist.prefix ''/'' n then tl n else n) (ct_Names c)) of
        Some n \<Rightarrow> n
      | None \<Rightarrow> take 12 (ct_ID c))"

datatype derive_error = UnknownProfile string | DeriveFailed string

type_synonym derived = "string \<times> host_shape proxy_host \<times> string \<times> derive_error option"

definition isUnknownProfile :: "derive_error option \<Rightarrow> bool" where
  "isUnknownProfile e = (case e of Some (UnknownProfile _) \<Rightarrow> True | _ \<Rightarrow> False)"

definition err_tag :: "derive_error option \<Rightarrow> string option" where
  "err_tag e = map_option (\<lambda>e. case e of UnknownProfile p \<Rightarrow> ''profile '' @ p | DeriveFailed t \<Rightarrow> t) e"

text \<open>\<open>ellipsize\<close>: a cut before a byte that does not start a UTF-8 sequence moves left.\<close>

fun rune_cut :: "string \<Rightarrow> nat \<Rightarrow> nat" where
  "rune_cut s 0 = 0"
| "rune_cut s (Suc n) = (if byte_of (s ! Suc n) div 64 = 2 then rune_cut s n else Suc n)"

definition ellipsize :: "string \<Rightarrow> nat \<Rightarrow> string" where
  "ellipsize s n = (if length s \<le> n then s else take (rune_cut s n) s @ ''...'')"

section \<open>What both sources share\<close>

text \<open>The zero values a failed derivation returns.\<close>

definition no_hsts :: hsts where
  "no_hsts = \<lparr>hsts_Enabled = False, hsts_MaxAge = 0, hsts_IncludeSubdomains = False, hsts_Preload = False\<rparr>"

definition no_tls :: tls_settings where
  "no_tls = \<lparr>CertificateRef = [], ForceSSL = False, tls_HTTP2 = False, tls_HSTS = no_hsts, MinTLSVersion = [], ClientAuth = None\<rparr>"

definition no_compression :: compression where
  "no_compression = \<lparr>comp_Enabled = False, MinBytes = 0, comp_Types = []\<rparr>"

definition no_shape :: host_shape where
  "no_shape = \<lparr>hs_DisplayName = [], hs_Tags = [], hs_Upstream = no_upstream, hs_UpstreamGroupRef = [],
     hs_WebsocketsUpgrade = False, hs_RobotsNoIndex = False, hs_Timeouts = None, hs_TLS = no_tls, hs_DNS = None,
     hs_Middlewares = [], hs_AccessLists = [], hs_Locations = [], hs_AdminEdge = False, hs_Auth = None, hs_RateLimit = None,
     hs_Compression = no_compression, hs_ErrorPages = None, hs_SecurityHeaders = [], hs_StripResponseHeaders = [],
     hs_TrustedProxies = None\<rparr>"

definition no_host :: "host_shape proxy_host" where
  "no_host = \<lparr>ph_Name = [], ph_Labels = [], ph_Domains = [], ph_Disabled = False, ph_Maintenance = False,
     ph_CreatedAt = 0, ph_UpdatedAt = 0, ph_rest = no_shape\<rparr>"

text \<open>The loop over the names an object asks for: accepted names once each, and the refused ones.\<close>

fun domain_scan :: "(string \<Rightarrow> bool) \<Rightarrow> string list \<Rightarrow> string list \<Rightarrow> string list \<times> string list" where
  "domain_scan okay seen [] = ([], [])"
| "domain_scan okay seen (raw # xs) =
     (let h = NormalizeHostname raw in
      if h = [] then domain_scan okay seen xs
      else if \<not> IsHostname h then (case domain_scan okay seen xs of (ds, rj) \<Rightarrow> (ds, raw # rj))
      else if \<not> okay h then (case domain_scan okay seen xs of (ds, rj) \<Rightarrow> (ds, h # rj))
      else if h \<in> set seen then domain_scan okay seen xs
      else (case domain_scan okay (h # seen) xs of (ds, rj) \<Rightarrow> (h # ds, rj)))"

definition dns_flag :: "labels \<Rightarrow> string \<Rightarrow> bool \<Rightarrow> bool" where
  "dns_flag m key dflt =
     (case map_of m key of
        None \<Rightarrow> dflt
      | Some raw \<Rightarrow>
          (let v = ToLower (TrimSpace raw) in if v = ''true'' then True else if v = ''false'' then False else dflt))"

definition dns_Enabled :: "dns_policy \<Rightarrow> bool" where
  "dns_Enabled p \<longleftrightarrow> LanDirect p \<or> PublicCname p"

definition dnsPolicy :: "labels \<Rightarrow> string \<Rightarrow> ingress_template \<Rightarrow> dns_policy option" where
  "dnsPolicy m pfx t =
     (let base = (case tp_DefaultDNS t of None \<Rightarrow> \<lparr>LanDirect = False, PublicCname = False\<rparr> | Some p \<Rightarrow> p);
          pol = \<lparr>LanDirect = dns_flag m (pfx @ ''/lan-direct'') (LanDirect base),
                 PublicCname = dns_flag m (pfx @ ''/public-cname'') (PublicCname base)\<rparr>
      in if dns_Enabled pol then Some pol else None)"

definition template_shape :: "ingress_template \<Rightarrow> string \<Rightarrow> upstream \<Rightarrow> string \<Rightarrow> dns_policy option \<Rightarrow> host_shape" where
  "template_shape t display up groupRef dns = no_shape\<lparr>
     hs_DisplayName := display, hs_Tags := tp_Tags t, hs_Upstream := up, hs_UpstreamGroupRef := groupRef,
     hs_WebsocketsUpgrade := tp_WebsocketsUpgrade t, hs_RobotsNoIndex := tp_RobotsNoIndex t, hs_Timeouts := tp_Timeouts t,
     hs_TLS := tp_TLS t, hs_DNS := dns, hs_Middlewares := tp_Middlewares t, hs_AccessLists := tp_AccessLists t,
     hs_Locations := CloneLocations (tp_Locations t), hs_SecurityHeaders := tp_SecurityHeaders t,
     hs_StripResponseHeaders := tp_StripResponseHeaders t\<rparr>"

definition derived_host :: "string \<Rightarrow> string \<Rightarrow> string \<Rightarrow> string list \<Rightarrow> host_shape \<Rightarrow> host_shape proxy_host" where
  "derived_host name key val ds shape = no_host\<lparr>ph_Name := name, ph_Labels := [(key, val)], ph_Domains := ds, ph_rest := shape\<rparr>"

section \<open>Ingresses\<close>

definition derive_ingress :: "ingress_settings \<Rightarrow> ingress \<Rightarrow> derived" where
  "derive_ingress conf ing =
     (let ns = in_Namespace ing; nm = in_Name ing; name = ''ing-'' @ nm @ ''.'' @ ns; core = ingress_core conf in
      if ns = [] \<or> nm = [] then ([], no_host, [], Some (DeriveFailed ''no namespace/name''))
      else if \<not> IsDNSLabel ns then ([], no_host, [], Some (DeriveFailed ''namespace''))
      else if ValidateName name \<noteq> None then ([], no_host, [], Some (DeriveFailed ''derived name''))
      else case ResolveProfileFor core ns (in_Labels ing) (label_get (in_Annotations ing) (Prefix core @ ''/profile'')) of
        (None, prof) \<Rightarrow> (name, no_host, ellipsize prof 64, Some (UnknownProfile (ellipsize prof 64)))
      | (Some t, prof) \<Rightarrow>
          (let ds = fst (domain_scan (AllowedDomainFor core (tp_AllowedDomainSuffixes t)) [] (in_RuleHosts ing)) in
           if ds = [] then (name, no_host, prof, Some (DeriveFailed ''no usable host''))
           else (name,
                 derived_host name (ManagedByLabel core) ManagedByIngressDiscovery (sort ds)
                   (template_shape t (ns @ ''/'' @ nm) (tp_Upstream t) (tp_UpstreamGroupRef t)
                      (dnsPolicy (in_Annotations ing) (Prefix core) t)),
                 prof, None)))"

definition planner_config :: "gpm_config \<Rightarrow> host_shape config" where
  "planner_config c =
     \<lparr>ProxyHosts = c_ProxyHosts c,
      RedirectHosts = map (\<lambda>h. \<lparr>sh_Name = rh_Name h, sh_Domains = rh_Domains h\<rparr>) (c_RedirectHosts c),
      ParkedHosts = map (\<lambda>h. \<lparr>sh_Name = pk_Name h, sh_Domains = pk_Domains h\<rparr>) (c_ParkedHosts c)\<rparr>"

definition item_of :: "string \<Rightarrow> derived \<Rightarrow> host_shape item" where
  "item_of ref d =
     (case d of (name, host, prof, err) \<Rightarrow>
        \<lparr>it_Ref = ref, it_Name = name, it_Host = host, it_Profile = prof, it_Err = err_tag err,
         it_UnknownProfile = isUnknownProfile err\<rparr>)"

definition ingress_items :: "ingress_settings \<Rightarrow> ingress list \<Rightarrow> host_shape item list" where
  "ingress_items conf ings =
     map (\<lambda>ing. item_of (in_Namespace ing @ ''/'' @ in_Name ing) (derive_ingress conf ing))
       (filter (\<lambda>ing. label_get (in_Annotations ing) (Prefix (ingress_core conf) @ ''/managed'') = ''true'') ings)"

definition ingress_planReconcile :: "gpm_config \<Rightarrow> ingress_settings \<Rightarrow> ingress list \<Rightarrow> host_shape result" where
  "ingress_planReconcile c conf ings =
     Plan (planner_config c) (ingress_ownership (ingress_core conf)) (ingress_items conf ings)"

section \<open>Containers\<close>

definition deriveDomains :: "docker_settings \<Rightarrow> ingress_template \<Rightarrow> container \<Rightarrow> string + string list" where
  "deriveDomains conf t ct =
     (let core = docker_core conf; raw = label_get (ct_Labels ct) (Prefix core @ ''/domains'') in
      if TrimSpace raw = [] then Inl ''domains label''
      else let ds = fst (domain_scan (AllowedDomainFor core (tp_AllowedDomainSuffixes t)) [] (split_on (CHR '','') raw)) in
        if ds = [] then Inl ''no usable hostname'' else Inr (sort ds))"

definition tcp_port :: "docker_port \<Rightarrow> bool" where
  "tcp_port p \<longleftrightarrow> dp_Type p = [] \<or> dp_Type p = ''tcp''"

definition exposed_ports :: "docker_port list \<Rightarrow> int list" where
  "exposed_ports ps = rev (remdups (rev (map dp_PrivatePort (filter (\<lambda>p. tcp_port p \<and> dp_PrivatePort p \<noteq> 0) ps))))"

definition containerPort :: "docker_settings \<Rightarrow> container \<Rightarrow> string + int" where
  "containerPort conf ct =
     (let raw = label_get (ct_Labels ct) (Prefix (docker_core conf) @ ''/port'') in
      if TrimSpace raw \<noteq> [] then
        (case Atoi (TrimSpace raw) of
           None \<Rightarrow> Inl ''port label''
         | Some p \<Rightarrow> if p < 1 \<or> p > 65535 then Inl ''port label'' else Inr p)
      else case exposed_ports (ct_Ports ct) of
        [p] \<Rightarrow> Inr p
      | _ \<Rightarrow> Inl ''port label required'')"

definition publishedPort :: "container \<Rightarrow> int \<Rightarrow> string + int" where
  "publishedPort ct port =
     (case find (\<lambda>p. tcp_port p \<and> dp_PrivatePort p = port \<and> dp_PublicPort p \<noteq> 0) (ct_Ports ct) of
        None \<Rightarrow> Inl ''not published''
      | Some p \<Rightarrow> Inr (dp_PublicPort p))"

definition network_ip :: "container \<Rightarrow> string \<Rightarrow> string" where
  "network_ip ct name = label_get (ct_Networks ct) name"

definition containerIP :: "docker_settings \<Rightarrow> container \<Rightarrow> string + string" where
  "containerIP conf ct =
     (if dk_Network conf \<noteq> [] then
        (case map_of (ct_Networks ct) (dk_Network conf) of
           None \<Rightarrow> Inl ''not attached''
         | Some ip \<Rightarrow> if ip = [] then Inl ''no address'' else if ParseIP ip = None then Inl ''unusable address'' else Inr ip)
      else case find (\<lambda>n. n \<noteq> ''host'' \<and> n \<noteq> ''none'' \<and> network_ip ct n \<noteq> [] \<and> ParseIP (network_ip ct n) \<noteq> None)
             (sorted_keys (ct_Networks ct)) of
        None \<Rightarrow> Inl ''no usable address''
      | Some n \<Rightarrow> Inr (network_ip ct n))"

definition deriveUpstream :: "docker_settings \<Rightarrow> container \<Rightarrow> string + upstream" where
  "deriveUpstream conf ct =
     (let raw = ToLower (TrimSpace (label_get (ct_Labels ct) (Prefix (docker_core conf) @ ''/scheme'')));
          scheme = (if raw = [] then ''http'' else raw)
      in if scheme \<notin> {''http'', ''https''} then Inl ''scheme label''
         else case containerPort conf ct of
           Inl e \<Rightarrow> Inl e
         | Inr port \<Rightarrow>
             if dk_UsePublishedPorts conf then
               (case publishedPort ct port of
                  Inl e \<Rightarrow> Inl e
                | Inr pub \<Rightarrow> Inr \<lparr>u_Scheme = scheme, u_Host = PublishedAddress conf, u_Port = pub, u_Path = [], u_HostHeader = []\<rparr>)
             else (case containerIP conf ct of
                  Inl e \<Rightarrow> Inl e
                | Inr ip \<Rightarrow> Inr \<lparr>u_Scheme = scheme, u_Host = ip, u_Port = port, u_Path = [], u_HostHeader = []\<rparr>))"

definition derive_container :: "docker_settings \<Rightarrow> container \<Rightarrow> derived" where
  "derive_container conf ct =
     (let raw = container_Name ct; name = ''dkr-'' @ ToLower raw; core = docker_core conf in
      if raw = [] then ([], no_host, [], Some (DeriveFailed ''no name''))
      else if ValidateName name \<noteq> None then ([], no_host, [], Some (DeriveFailed ''derived name''))
      else case ResolveProfile core (label_get (ct_Labels ct) (Prefix core @ ''/profile'')) of
        (None, prof) \<Rightarrow> (name, no_host, ellipsize prof 64, Some (UnknownProfile (ellipsize prof 64)))
      | (Some t, prof) \<Rightarrow>
          (case deriveDomains conf t ct of
             Inl e \<Rightarrow> (name, no_host, prof, Some (DeriveFailed e))
           | Inr ds \<Rightarrow>
               (case deriveUpstream conf ct of
                  Inl e \<Rightarrow> (name, no_host, prof, Some (DeriveFailed e))
                | Inr up \<Rightarrow>
                    (name,
                     derived_host name (ManagedByLabel core) ManagedByDockerDiscovery ds
                       (template_shape t raw up [] (dnsPolicy (ct_Labels ct) (Prefix core) t)),
                     prof, None))))"

definition docker_items :: "docker_settings \<Rightarrow> container list \<Rightarrow> host_shape item list" where
  "docker_items conf cts =
     map (\<lambda>ct. item_of (container_Name ct) (derive_container conf ct))
       (filter (\<lambda>ct. TrimSpace (label_get (ct_Labels ct) (Prefix (docker_core conf) @ ''/enabled'')) = ''true'') cts)"

definition docker_planReconcile :: "gpm_config \<Rightarrow> docker_settings \<Rightarrow> container list \<Rightarrow> host_shape result" where
  "docker_planReconcile c conf cts =
     Plan (planner_config c) (docker_ownership (docker_core conf)) (docker_items conf cts)"

section \<open>Domains\<close>

lemma domain_scan_ok:
  assumes "d \<in> set (fst (domain_scan okay seen xs))"
  shows "IsHostname d \<and> okay d"
  using assms
  by (induction okay seen xs rule: domain_scan.induct) (auto simp: Let_def split: if_splits prod.splits)

text \<open>A profile whose suffixes are a subset of the block's allows no name the block does not allow.\<close>

lemma narrow_suffixes:
  assumes "suffixesSubsetOf narrow global = None" "matchesSuffixList name narrow"
  shows "matchesSuffixList name global"
proof -
  obtain n where n: "n \<in> set narrow" "name = norm_suffix n \<or> suffix (''.'' @ norm_suffix n) name"
    using assms(2) by (auto simp: matchesSuffixList_def list_ex_iff Let_def)
  have "matchesSuffixList (norm_suffix n) global"
    using assms(1) n(1) by (auto simp: suffixesSubsetOf_def find_None_iff)
  then obtain g where g: "g \<in> set global" "norm_suffix g \<noteq> []"
    "norm_suffix n = norm_suffix g \<or> suffix (''.'' @ norm_suffix g) (norm_suffix n)"
    by (auto simp: matchesSuffixList_def list_ex_iff Let_def)
  have "name = norm_suffix g \<or> suffix (''.'' @ norm_suffix g) name"
    using n(2) g(3) by (metis append_Cons append_Nil suffix_ConsD suffix_order.trans)
  with g show ?thesis by (auto simp: matchesSuffixList_def list_ex_iff Let_def)
qed

lemma AllowedDomainFor_global:
  assumes "validateSuffixSubset path sfxs (AllowedDomainSuffixes core) = None" "AllowedDomainFor core sfxs name"
  shows "AllowedDomain core name"
  using assms narrow_suffixes
  by (auto simp: AllowedDomainFor_def AllowedDomain_def validateSuffixSubset_def split: if_splits)

section \<open>What comes from the object\<close>

text \<open>The templates of a block.\<close>

definition templates :: "ingress_template discovery_settings \<Rightarrow> ingress_template set" where
  "templates core = insert (Template core) (ran (Profiles core))"

lemma ResolveProfile_template: "ResolveProfile core raw = (Some t, prof) \<Longrightarrow> t \<in> templates core"
  by (auto simp: ResolveProfile_def templates_def Let_def ran_def split: if_splits)

lemma ResolveProfileFor_template: "ResolveProfileFor core ns m raw = (Some t, prof) \<Longrightarrow> t \<in> templates core"
  by (auto simp: ResolveProfileFor_def templates_def ran_def dest: ResolveProfile_template [unfolded templates_def ran_def]
    split: option.splits if_splits)

lemma derive_ingress_ok:
  assumes "derive_ingress conf ing = (name, host, prof, None)"
  obtains t where "t \<in> templates (ingress_core conf)" "ValidateName name = None"
    "host = derived_host name (ManagedByLabel (ingress_core conf)) ManagedByIngressDiscovery (ph_Domains host)
      (template_shape t (in_Namespace ing @ ''/'' @ in_Name ing) (tp_Upstream t) (tp_UpstreamGroupRef t)
        (dnsPolicy (in_Annotations ing) (Prefix (ingress_core conf)) t))"
    "ph_Domains host \<noteq> []"
    "\<forall>d \<in> set (ph_Domains host). IsHostname d \<and> AllowedDomainFor (ingress_core conf) (tp_AllowedDomainSuffixes t) d"
proof -
  let ?core = "ingress_core conf"
  obtain r p where rp: "ResolveProfileFor ?core (in_Namespace ing) (in_Labels ing)
      (label_get (in_Annotations ing) (Prefix ?core @ ''/profile'')) = (r, p)" by fastforce
  note h = assms [unfolded derive_ingress_def Let_def rp prod.case]
  obtain t where r: "r = Some t" using h by (cases r) (auto split: if_splits)
  let ?ds = "fst (domain_scan (AllowedDomainFor ?core (tp_AllowedDomainSuffixes t)) [] (in_RuleHosts ing))"
  have ds: "?ds \<noteq> []" "ValidateName name = None"
    "host = derived_host name (ManagedByLabel ?core) ManagedByIngressDiscovery (sort ?ds)
      (template_shape t (in_Namespace ing @ ''/'' @ in_Name ing) (tp_Upstream t) (tp_UpstreamGroupRef t)
        (dnsPolicy (in_Annotations ing) (Prefix ?core) t))"
    using h by (auto simp: r split: if_splits)
  have dom: "ph_Domains host = sort ?ds" by (simp add: ds(3) derived_host_def)
  show ?thesis
  proof (rule that [of t])
    show "t \<in> templates ?core" using rp r ResolveProfileFor_template by blast
    show "ph_Domains host \<noteq> []" using ds(1) unfolding dom by (metis list.set(1) set_empty set_sort)
    show "\<forall>d \<in> set (ph_Domains host). IsHostname d \<and> AllowedDomainFor ?core (tp_AllowedDomainSuffixes t) d"
      unfolding dom set_sort using domain_scan_ok by blast
  qed (use ds dom in simp_all)
qed

lemma derive_container_ok:
  assumes "derive_container conf ct = (name, host, prof, None)"
  obtains t up where "t \<in> templates (docker_core conf)" "ValidateName name = None" "deriveUpstream conf ct = Inr up"
    "host = derived_host name (ManagedByLabel (docker_core conf)) ManagedByDockerDiscovery (ph_Domains host)
      (template_shape t (container_Name ct) up [] (dnsPolicy (ct_Labels ct) (Prefix (docker_core conf)) t))"
    "ph_Domains host \<noteq> []"
    "\<forall>d \<in> set (ph_Domains host). IsHostname d \<and> AllowedDomainFor (docker_core conf) (tp_AllowedDomainSuffixes t) d"
proof -
  let ?core = "docker_core conf"
  obtain r p where rp: "ResolveProfile ?core (label_get (ct_Labels ct) (Prefix ?core @ ''/profile'')) = (r, p)" by fastforce
  note h = assms [unfolded derive_container_def Let_def rp prod.case]
  obtain t where r: "r = Some t" using h by (cases r) (auto split: if_splits)
  obtain ds up where ds: "deriveDomains conf t ct = Inr ds" and up: "deriveUpstream conf ct = Inr up"
    using h by (auto simp: r split: if_splits sum.splits)
  have host: "ValidateName name = None" "host = derived_host name (ManagedByLabel ?core) ManagedByDockerDiscovery ds
      (template_shape t (container_Name ct) up [] (dnsPolicy (ct_Labels ct) (Prefix ?core) t))"
    using h by (auto simp: r ds up split: if_splits)
  have dom: "ph_Domains host = ds" by (simp add: host(2) derived_host_def)
  let ?ds = "fst (domain_scan (AllowedDomainFor ?core (tp_AllowedDomainSuffixes t)) []
    (split_on (CHR '','') (label_get (ct_Labels ct) (Prefix ?core @ ''/domains''))))"
  have sds: "ds = sort ?ds" "?ds \<noteq> []" using ds by (auto simp: deriveDomains_def Let_def split: if_splits)
  show ?thesis
  proof (rule that [of t up])
    show "t \<in> templates ?core" using rp r ResolveProfile_template by blast
    show "ph_Domains host \<noteq> []" unfolding dom sds(1) using sds(2) by (metis list.set(1) set_empty set_sort)
    show "\<forall>d \<in> set (ph_Domains host). IsHostname d \<and> AllowedDomainFor ?core (tp_AllowedDomainSuffixes t) d"
      unfolding dom sds(1) set_sort using domain_scan_ok by blast
  qed (use host dom up in simp_all)
qed

section \<open>What an accepted block gives\<close>

lemma ingress_settings_templates:
  assumes "validate_ingress_settings env sys d = None" "ing_Enabled d" "t \<in> templates (ingress_core d)"
  shows "\<exists>path. validateWith path True t = None \<and>
    validateSuffixSubset path (tp_AllowedDomainSuffixes t) (AllowedDomainSuffixes (ingress_core d)) = None"
proof -
  have "templates_err True (ing_Template d) (ing_Profiles d) (ing_AllowedDomainSuffixes d) = None"
    using assms(1,2) by (simp add: validate_ingress_settings_def)
  note ok = templates_err_None [OF this]
  from assms(3) consider "t = ing_Template d" | name where "map_of (ing_Profiles d) name = Some t"
    by (auto simp: templates_def ingress_core_def ran_def)
  then show ?thesis
  proof cases
    case 1
    then show ?thesis using ok(1,2) by (auto simp: ingress_core_def)
  next
    case (2 name)
    then show ?thesis using ok(3) by (auto simp: ingress_core_def)
  qed
qed

lemma dockerSettingsErr_None [simp]: "dockerSettingsErr e = None \<longleftrightarrow> e = None"
  by (simp add: dockerSettingsErr_def)

lemma docker_settings_templates:
  assumes "validate_docker_settings env d = None" "dk_Enabled d" "t \<in> templates (docker_core d)"
  shows "\<exists>path. validateWith path False t = None \<and>
    validateSuffixSubset path (tp_AllowedDomainSuffixes t) (AllowedDomainSuffixes (docker_core d)) = None"
proof -
  have "templates_err False (dk_Template d) (dk_Profiles d) (dk_AllowedDomainSuffixes d) = None"
    using assms(1,2) by (simp add: validate_docker_settings_def)
  note ok = templates_err_None [OF this]
  from assms(3) consider "t = dk_Template d" | name where "map_of (dk_Profiles d) name = Some t"
    by (auto simp: templates_def docker_core_def ran_def)
  then show ?thesis
  proof cases
    case 1
    then show ?thesis using ok(1,2) by (auto simp: docker_core_def)
  next
    case (2 name)
    then show ?thesis using ok(3) by (auto simp: docker_core_def)
  qed
qed

text \<open>What validation of a template and validation of a host have in common.\<close>

lemma CloneLocations_id [simp]: "CloneLocations ls = ls"
  by (induction ls) (simp_all add: CloneLocations_def option.map_ident)

lemma template_host_valid:
  assumes "validateWith path req t = None" "ValidateName name = None" "ds \<noteq> []"
    and "if gref = [] then validate_upstream up = None else up = no_upstream"
  shows "validate_proxy_host parses (derived_host name key val ds (template_shape t disp up gref dns)) = None"
proof -
  have t: "validate_tls (tp_TLS t) = None" "validate_timeouts (tp_Timeouts t) = None"
    "validateStripResponseHeaders (tp_StripResponseHeaders t) = None" "validateSecurityHeaders (tp_SecurityHeaders t) = None"
    "validateLocations (tp_Locations t) = None"
    using assms(1) by (simp_all add: validateWith_def)
  show ?thesis
    using assms(2-4) t
    by (simp add: validate_proxy_host_def derived_host_def no_host_def template_shape_def no_shape_def validate_shape_def
      validateInline_def validate_compression_def no_compression_def)
qed

lemma checkClientAuthRef_Nil:
  "checkClientAuthRef c kind owner t = [] \<longleftrightarrow> checkClientAuthRef c kind' owner' t = []"
  by (simp add: checkClientAuthRef_def split: option.split)

lemma derived_refs_iff:
  "proxy_host_refs c (derived_host name key val ds (template_shape t disp up gref dns)) = [] \<longleftrightarrow>
     template_refs c owner (t\<lparr>tp_UpstreamGroupRef := gref\<rparr>) = [] \<and> (gref = [] \<or> gref \<notin> set (disabled_groups c)) \<and>
     (\<forall>l \<in> set (tp_Locations t). location_refs c name False l = [])"
  using checkClientAuthRef_Nil [of c "''proxy host''" name "tp_TLS t" "[]" owner]
  by (auto simp: proxy_host_refs_def derived_host_def no_host_def template_shape_def no_shape_def Let_def cert_ref_def
    checkGroupRef_def mw_refs_def list_refs_def checkInlineAuth_def rate_refs_def template_refs_def concat_eq_Nil_conv)

lemma block_refs_template:
  assumes "block_refs c block tmpl profiles = []" "t = tmpl \<or> (\<exists>name. map_of profiles name = Some t)"
  shows "\<exists>owner. template_refs c owner t = []"
proof (cases "t = tmpl")
  case True
  then show ?thesis using assms(1) by (auto simp: block_refs_def)
next
  case False
  then obtain name where n: "map_of profiles name = Some t" using assms(2) by blast
  then have "name \<in> set (sorted_keys profiles)" by (auto simp: domI)
  moreover have "\<forall>name \<in> set (sorted_keys profiles). (case map_of profiles name of None \<Rightarrow> []
      | Some t \<Rightarrow> template_refs c (block @ profile_path name) t) = []"
    using assms(1) unfolding block_refs_def by simp
  ultimately have "template_refs c (block @ profile_path name) t = []" using n by fastforce
  then show ?thesis by blast
qed

lemma ingress_refs_template:
  assumes "ingress_ValidateRefs d c = []" "ing_Enabled d" "t \<in> templates (ingress_core d)"
  shows "\<exists>owner. template_refs c owner t = []"
proof (rule block_refs_template)
  show "block_refs c ''ingressDiscovery.'' (ing_Template d) (ing_Profiles d) = []"
    using assms(1,2) by (simp add: ingress_ValidateRefs_def split: list.splits)
  show "t = ing_Template d \<or> (\<exists>name. map_of (ing_Profiles d) name = Some t)"
    using assms(3) by (auto simp: templates_def ingress_core_def ran_def)
qed

section \<open>Properties\<close>

text \<open>Accepted discovery settings derive hosts the configuration accepts, up to two kinds of reference.
  When a settings write passed both validation and the check of its references, every host derived for an
  Ingress passes validation by itself, and its references all resolve exactly when the upstream group it
  names is enabled and the references inside its locations resolve. Nothing else can dangle; these two can,
  because the check of the settings looks at neither.\<close>

theorem derived_host_accepted:
  assumes "validate_ingress_settings env sys d = None" "ing_Enabled d" "ingress_ValidateRefs d c = []"
    and "derive_ingress d ing = (name, host, prof, None)"
  shows "validate_proxy_host parses host = None \<and>
    (proxy_host_refs c host = [] \<longleftrightarrow>
       (hs_UpstreamGroupRef (ph_rest host) = [] \<or> hs_UpstreamGroupRef (ph_rest host) \<notin> set (disabled_groups c)) \<and>
       (\<forall>l \<in> set (hs_Locations (ph_rest host)). location_refs c name False l = []))"
proof -
  obtain t dns where t: "t \<in> templates (ingress_core d)" "ValidateName name = None" "ph_Domains host \<noteq> []"
    and h: "host = derived_host name (ManagedByLabel (ingress_core d)) ManagedByIngressDiscovery (ph_Domains host)
      (template_shape t (in_Namespace ing @ ''/'' @ in_Name ing) (tp_Upstream t) (tp_UpstreamGroupRef t) dns)"
    using derive_ingress_ok [OF assms(4)] by metis
  obtain path where v: "validateWith path True t = None" using ingress_settings_templates [OF assms(1,2) t(1)] by blast
  have up: "if tp_UpstreamGroupRef t = [] then validate_upstream (tp_Upstream t) = None else tp_Upstream t = no_upstream"
    using v by (auto simp: validateWith_def template_upstream_err_def split: if_splits)
  obtain owner where r: "template_refs c owner t = []" using ingress_refs_template [OF assms(3,2) t(1)] by blast
  have "validate_proxy_host parses host = None"
    by (subst h) (rule template_host_valid [OF v t(2,3) up])
  moreover have "proxy_host_refs c host = [] \<longleftrightarrow>
      (tp_UpstreamGroupRef t = [] \<or> tp_UpstreamGroupRef t \<notin> set (disabled_groups c)) \<and>
      (\<forall>l \<in> set (tp_Locations t). location_refs c name False l = [])"
    by (subst h) (use r in \<open>simp add: derived_refs_iff [of c name _ _ _ t _ _ "tp_UpstreamGroupRef t" _ owner]\<close>)
  moreover have "hs_UpstreamGroupRef (ph_rest host) = tp_UpstreamGroupRef t" "hs_Locations (ph_rest host) = tp_Locations t"
    by (subst h, simp add: derived_host_def template_shape_def)+
  ultimately show ?thesis by simp
qed

text \<open>C11: an object of the cluster or of the container engine cannot choose the chain its host gets. Whatever
  the Ingresses say, each host a reconcile writes is either a disabled copy of a host discovery already owns, or
  has the upstream, the certificate and client-certificate settings, the middlewares, the access lists, the
  locations and the response headers of one template the operator wrote, and only domains that are host names inside
  the block's allowed suffixes.\<close>

theorem ingress_hosts_confined:
  assumes "validate_ingress_settings env sys d = None" "ing_Enabled d" "names_ok (planner_config c)"
    and "u \<in> set (Upserts (ingress_planReconcile c d ings))"
  shows "(\<exists>h \<in> set (c_ProxyHosts c). Managed (ingress_ownership (ingress_core d)) h \<and> u = disabled_copy (ingress_ownership (ingress_core d)) h) \<or>
    (\<exists>t \<in> templates (ingress_core d).
       hs_Upstream (ph_rest u) = tp_Upstream t \<and> hs_UpstreamGroupRef (ph_rest u) = tp_UpstreamGroupRef t \<and>
       hs_TLS (ph_rest u) = tp_TLS t \<and> hs_Middlewares (ph_rest u) = tp_Middlewares t \<and>
       hs_AccessLists (ph_rest u) = tp_AccessLists t \<and> hs_Locations (ph_rest u) = tp_Locations t \<and>
       hs_SecurityHeaders (ph_rest u) = tp_SecurityHeaders t \<and> hs_StripResponseHeaders (ph_rest u) = tp_StripResponseHeaders t \<and>
       (\<forall>dm \<in> set (ph_Domains u). IsHostname dm \<and> AllowedDomain (ingress_core d) dm))"
proof -
  let ?own = "ingress_ownership (ingress_core d)" and ?its = "ingress_items d ings"
  let ?m = "managed_hosts ?own (planner_config c)" and ?c = "current_hosts (planner_config c)"
  let ?s = "derive_items ?own ?m ?its"
  have dn: "distinct (map ph_Name (ProxyHosts (planner_config c)))" using assms(3) by (simp add: names_ok_def)
  have inv: "derive_inv ?own ?m ?its ?s" by (rule derive_items_inv)
  obtain us where us: "Upserts (Plan (planner_config c) ?own ?its) = us @ map (\<lambda>n. the (map_of (disable ?s) n)) (sorted_keys (disable ?s))"
      "list_all (placed ?own ?c ?s) us"
    by (rule Plan_shape)
  consider "placed ?own ?c ?s u" | n where "n \<in> set (sorted_keys (disable ?s))" "u = the (map_of (disable ?s) n)"
    using assms(4) us unfolding ingress_planReconcile_def list_all_iff by auto
  then show ?thesis
  proof cases
    case 1
    then obtain nm want where w: "map_of (desired ?s) nm = Some want" "ph_rest u = ph_rest want" "ph_Domains u = ph_Domains want"
      by (auto simp: placed_def carry_over_def)
    obtain it where it: "it \<in> set ?its" "it_Err it = None" "it_Host it = want" using derive_invD(1) [OF inv w(1)] by blast
    then obtain ing name prof where ing: "derive_ingress d ing = (name, want, prof, None)"
      by (auto simp: ingress_items_def item_of_def err_tag_def split: prod.splits)
    obtain t dns where t: "t \<in> templates (ingress_core d)"
        "\<forall>dm \<in> set (ph_Domains want). IsHostname dm \<and> AllowedDomainFor (ingress_core d) (tp_AllowedDomainSuffixes t) dm"
      and h: "want = derived_host name (ManagedByLabel (ingress_core d)) ManagedByIngressDiscovery (ph_Domains want)
        (template_shape t (in_Namespace ing @ ''/'' @ in_Name ing) (tp_Upstream t) (tp_UpstreamGroupRef t) dns)"
      using derive_ingress_ok [OF ing] by metis
    have sh: "ph_rest u = template_shape t (in_Namespace ing @ ''/'' @ in_Name ing) (tp_Upstream t) (tp_UpstreamGroupRef t) dns"
      unfolding w(2) by (subst h) (simp add: derived_host_def)
    have "\<forall>dm \<in> set (ph_Domains u). IsHostname dm \<and> AllowedDomain (ingress_core d) dm"
      using t(2) ingress_settings_templates [OF assms(1,2) t(1)] AllowedDomainFor_global unfolding w(3) by blast
    then show ?thesis using t(1) by (intro disjI2 bexI [of _ t]) (simp_all add: sh template_shape_def)
  next
    case (2 n)
    then obtain h where "map_of (disable ?s) n = Some h" by (auto simp: sorted_keys_mem)
    then obtain cur where "map_of ?m n = Some cur" "u = disabled_copy ?own cur" using derive_invD(2) [OF inv] 2 by force
    then show ?thesis using managed_lookup [OF dn, of ?own n cur] by (auto simp: planner_config_def)
  qed
qed

section \<open>Examples\<close>

definition edge_template :: ingress_template where
  "edge_template = \<lparr>tp_Upstream = \<lparr>u_Scheme = ''http'', u_Host = ''10.0.0.5'', u_Port = 8080, u_Path = [], u_HostHeader = []\<rparr>,
     tp_UpstreamGroupRef = [], tp_TLS = no_tls\<lparr>CertificateRef := ''wild''\<rparr>, tp_WebsocketsUpgrade = False,
     tp_RobotsNoIndex = False, tp_Timeouts = None, tp_Middlewares = [''sso''], tp_AccessLists = [],
     tp_StripResponseHeaders = [], tp_SecurityHeaders = [], tp_Tags = [], tp_Locations = [], tp_DefaultDNS = None,
     tp_AllowedDomainSuffixes = []\<rparr>"

definition edge_settings :: "location list \<Rightarrow> ingress_settings" where
  "edge_settings ls = \<lparr>ing_Enabled = True, ing_APIURL = [], ing_TokenFile = [], ing_CAFile = [], ing_Namespace = [],
     ing_LabelSelector = [], ing_PollInterval = [], ing_AllowedDomainSuffixes = [''ex.com''],
     ing_Template = edge_template\<lparr>tp_Locations := ls\<rparr>, ing_Profiles = [], ing_ProfileRules = [], ing_ProfileSelection = [],
     ing_AnnotationPrefix = [], ing_AnnotationPrefixMigrate = False\<rparr>"

definition edge_ingress :: ingress where
  "edge_ingress = \<lparr>in_Namespace = ''prod'', in_Name = ''app'', in_Annotations = [(''gpm.rake.pro/managed'', ''true'')],
     in_Labels = [], in_RuleHosts = [''app.ex.com'', ''evil.org'']\<rparr>"

definition edge_config :: gpm_config where
  "edge_config = \<lparr>c_Certificates = [\<lparr>cert_Name = ''wild'', cert_Disabled = False, cert_Type = ''custom'', cert_Domains = [''*.ex.com''],
       cert_ACME = None, cert_Custom = Some (''w.crt'', ''w.key'')\<rparr>],
     c_ClientCAs = [], c_DNSProviders = [],
     c_Middlewares = [\<lparr>mw_Name = ''sso'', mw_Type = ''headers'', mw_Auth = None, mw_Headers = None, mw_Guard = None,
       mw_RateLimit = None, mw_Rewrite = None, mw_Bouncer = None\<rparr>],
     c_AccessLists = [], c_IdentityProviders = [], c_UpstreamGroups = [], c_APITokens = [], c_ProxyHosts = [],
     c_RedirectHosts = [], c_ParkedHosts = [], c_StreamHosts = []\<rparr>"

text \<open>A path that is answered through a middleware nobody defined.\<close>

definition ghost_location :: location where
  "ghost_location = \<lparr>loc_Path = ''/api'', loc_Upstream = None, loc_UpstreamGroupRef = [], loc_Middlewares = [''ghost''],
     loc_AccessLists = [], loc_StripPrefix = False, loc_Auth = None, loc_RateLimit = None\<rparr>"

lemma edge_suffix: "suffix_ok ''ex.com''" "IsHostname ''app.ex.com''" "norm_suffix ''ex.com'' = ''ex.com''"
  "NormalizeHostname ''app.ex.com'' = ''app.ex.com''" "NormalizeHostname ''evil.org'' = ''evil.org''"
  by code_simp+

lemma edge_template_valid:
  "validate_location l = None \<Longrightarrow> validateWith ''template'' True (edge_template\<lparr>tp_Locations := [l]\<rparr>) = None"
  "validateWith ''template'' True edge_template = None"
proof -
  have a: "validate_upstream (tp_Upstream edge_template) = None" "ValidateName ''wild'' = None" "ValidateName ''sso'' = None"
    "validate_tls (tp_TLS edge_template) = None"
    by code_simp+
  show "validate_location l = None \<Longrightarrow> validateWith ''template'' True (edge_template\<lparr>tp_Locations := [l]\<rparr>) = None"
    "validateWith ''template'' True edge_template = None"
    using a by (simp_all add: validateWith_def template_upstream_err_def names_err_def edge_template_def validate_timeouts_def
      validateStripResponseHeaders_def validateSecurityHeaders_def validateLocations_def no_tls_def)
qed

lemma edge_settings_valid:
  assumes "validateWith ''template'' True (edge_template\<lparr>tp_Locations := ls\<rparr>) = None"
  shows "validate_ingress_settings env sys (edge_settings ls) = None"
  using assms edge_suffix
  by (simp add: validate_ingress_settings_def edge_settings_def credential_file_err_def namespace_ok_def contains_any_def
    poll_err_def templates_err_def sorted_keys_def validateSuffixSubset_def edge_template_def suffixesSubsetOf_def)

lemma edge_refs: "ingress_ValidateRefs (edge_settings ls) edge_config = []"
  by (simp add: ingress_ValidateRefs_def edge_settings_def checkAnnotationPrefixMigration_def orphans_def edge_config_def
    ingress_core_def block_refs_def template_refs_def edge_template_def no_tls_def group_names_def checkClientAuthRef_def
    sorted_keys_def)

lemma edge_allowed: "matchesSuffixList ''app.ex.com'' [''ex.com'']" "\<not> matchesSuffixList ''evil.org'' [''ex.com'']"
  by code_simp+

definition edge_host :: "location list \<Rightarrow> host_shape proxy_host" where
  "edge_host ls = derived_host ''ing-app.prod'' ''gpm.rake.pro/managed-by'' ''ingress-discovery'' [''app.ex.com'']
     (template_shape (edge_template\<lparr>tp_Locations := ls\<rparr>) ''prod/app'' (tp_Upstream edge_template) [] None)"

lemma edge_derive: "derive_ingress (edge_settings ls) edge_ingress = (''ing-app.prod'', edge_host ls, ''template'', None)"
proof -
  have v: "ValidateName ''ing-app.prod'' = None" "IsDNSLabel ''prod''" "IsHostname ''evil.org''" by code_simp+
  have p: "ResolveProfileFor (ingress_core (edge_settings ls)) ''prod'' [] [] = (Some (edge_template\<lparr>tp_Locations := ls\<rparr>), ''template'')"
    by (simp add: ResolveProfileFor_def ResolveProfile_def ingress_core_def edge_settings_def TrimSpace_def trim_left_def trim_right_def)
  have dom: "fst (domain_scan (AllowedDomainFor (ingress_core (edge_settings ls)) []) [] [''app.ex.com'', ''evil.org'']) = [''app.ex.com'']"
    using edge_suffix edge_allowed v
    by (simp add: Let_def AllowedDomainFor_def AllowedDomain_def ingress_core_def edge_settings_def)
  have dns: "dnsPolicy [(''gpm.rake.pro/managed'', ''true'')] (Prefix (ingress_core (edge_settings ls))) (edge_template\<lparr>tp_Locations := ls\<rparr>) = None"
    by (simp add: dnsPolicy_def Let_def edge_template_def dns_flag_def dns_Enabled_def Prefix_def ingress_core_def edge_settings_def
      DefaultAnnotationPrefix_def)
  have lbl: "ManagedByLabel (ingress_core (edge_settings ls)) = ''gpm.rake.pro/managed-by''"
    by (simp add: ManagedByLabel_def Prefix_def ingress_core_def edge_settings_def DefaultAnnotationPrefix_def)
  have sfx: "tp_AllowedDomainSuffixes (edge_template\<lparr>tp_Locations := ls\<rparr>) = []" "tp_UpstreamGroupRef (edge_template\<lparr>tp_Locations := ls\<rparr>) = []"
    "tp_Upstream (edge_template\<lparr>tp_Locations := ls\<rparr>) = tp_Upstream edge_template"
    by (simp_all add: edge_template_def)
  have lg: "label_get [(''gpm.rake.pro/managed'', ''true'')] (Prefix (ingress_core (edge_settings ls)) @ ''/profile'') = []"
    by (simp add: label_get_def Prefix_def ingress_core_def edge_settings_def DefaultAnnotationPrefix_def)
  have i: "in_Namespace edge_ingress = ''prod''" "in_Name edge_ingress = ''app''" "in_Labels edge_ingress = []"
    "in_Annotations edge_ingress = [(''gpm.rake.pro/managed'', ''true'')]" "in_RuleHosts edge_ingress = [''app.ex.com'', ''evil.org'']"
    by (simp_all add: edge_ingress_def)
  have nm: "''ing-'' @ ''app'' @ ''.'' @ ''prod'' = ''ing-app.prod''" "''prod'' @ ''/'' @ ''app'' = ''prod/app''" by simp_all
  show ?thesis
    unfolding derive_ingress_def Let_def i nm lg p prod.case option.case sfx dom dns lbl ManagedByIngressDiscovery_def edge_host_def
    using v by simp
qed

theorem derived_host_accepted_witness:
  "validate_proxy_host (\<lambda>_. True) (edge_host []) = None \<and> proxy_host_refs edge_config (edge_host []) = []"
proof -
  have v: "validate_ingress_settings env sys (edge_settings []) = None" for env sys
    using edge_template_valid(2) by (intro edge_settings_valid) (simp add: edge_template_def)
  have "hs_UpstreamGroupRef (ph_rest (edge_host [])) = []" "hs_Locations (ph_rest (edge_host [])) = []"
    by (simp_all add: edge_host_def derived_host_def template_shape_def edge_template_def)
  then show ?thesis
    using derived_host_accepted [OF v _ edge_refs edge_derive [of "[]"], of "\<lambda>_. True"] by (simp add: edge_settings_def)
qed

text \<open>The gap is real: a template whose location names a middleware that does not exist passes validation and
  the check of its references, and the host derived from it is refused.\<close>

theorem location_reference_unchecked:
  "validate_ingress_settings env sys (edge_settings [ghost_location]) = None \<and>
   ingress_ValidateRefs (edge_settings [ghost_location]) edge_config = [] \<and>
   (\<exists>host. derive_ingress (edge_settings [ghost_location]) edge_ingress = (''ing-app.prod'', host, ''template'', None) \<and>
      UnknownRef ''proxy host'' ''ing-app.prod'' ''middlewares'' ''ghost'' \<in> set (proxy_host_refs edge_config host))"
proof (intro conjI exI)
  have "validate_location ghost_location = None"
    by (simp add: validate_location_def ghost_location_def validateInline_def)
  then show "validate_ingress_settings env sys (edge_settings [ghost_location]) = None"
    using edge_template_valid(1) by (intro edge_settings_valid) blast
  show "ingress_ValidateRefs (edge_settings [ghost_location]) edge_config = []" by (rule edge_refs)
  show "derive_ingress (edge_settings [ghost_location]) edge_ingress = (''ing-app.prod'', edge_host [ghost_location], ''template'', None)"
    by (rule edge_derive)
  have "UnknownRef ''proxy host'' ''ing-app.prod'' ''middlewares'' ''ghost'' \<in>
      set (location_refs edge_config ''ing-app.prod'' False ghost_location)"
    by (simp add: location_refs_def ghost_location_def mw_refs_def edge_config_def checkRef_def)
  then show "UnknownRef ''proxy host'' ''ing-app.prod'' ''middlewares'' ''ghost'' \<in> set (proxy_host_refs edge_config (edge_host [ghost_location]))"
    by (simp add: proxy_host_refs_def edge_host_def derived_host_def no_host_def template_shape_def Let_def edge_template_def)
qed

lemma firstClaimed_empty [simp]: "firstClaimed ds (\<lambda>x. None) = None"
  by (induction ds) (simp_all add: Let_def)

lemma edge_items: "ingress_items (edge_settings ls) [edge_ingress] = [item_of ''prod/app'' (''ing-app.prod'', edge_host ls, ''template'', None)]"
proof -
  have "label_get (in_Annotations edge_ingress) (Prefix (ingress_core (edge_settings ls)) @ ''/managed'') = ''true''"
    by (simp add: label_get_def edge_ingress_def Prefix_def ingress_core_def edge_settings_def DefaultAnnotationPrefix_def)
  moreover have "in_Namespace edge_ingress @ ''/'' @ in_Name edge_ingress = ''prod/app''" by (simp add: edge_ingress_def)
  ultimately show ?thesis by (simp add: ingress_items_def edge_derive)
qed

lemma edge_plan: "edge_host ls \<in> set (Upserts (ingress_planReconcile edge_config (edge_settings ls) [edge_ingress]))"
  unfolding ingress_planReconcile_def edge_items
  by (simp add: Plan_def planner_config_def edge_config_def current_hosts_def managed_hosts_def derive_items_def plan_item_def
    item_of_def err_tag_def isUnknownProfile_def sorted_keys_def place_host_def kept_claims_def claim_all_def Let_def no_result_def
    add_host_def)

theorem ingress_hosts_confined_witness:
  "edge_host [] \<in> set (Upserts (ingress_planReconcile edge_config (edge_settings []) [edge_ingress])) \<and>
   hs_Middlewares (ph_rest (edge_host [])) = [''sso''] \<and> AllowedDomain (ingress_core (edge_settings [])) ''app.ex.com''"
proof -
  let ?d = "edge_settings []"
  have v: "validate_ingress_settings env sys ?d = None" for env sys
    using edge_template_valid(2) by (intro edge_settings_valid) (simp add: edge_template_def)
  have n: "names_ok (planner_config edge_config)" by (simp add: names_ok_def planner_config_def edge_config_def)
  have t: "templates (ingress_core ?d) = {edge_template}"
    by (auto simp: templates_def ingress_core_def edge_settings_def edge_template_def)
  have no: "c_ProxyHosts edge_config = []" by (simp add: edge_config_def)
  have dm: "ph_Domains (edge_host []) = [''app.ex.com'']" by (simp add: edge_host_def derived_host_def)
  have en: "ing_Enabled ?d" by (simp add: edge_settings_def)
  have "hs_Middlewares (ph_rest (edge_host [])) = tp_Middlewares edge_template \<and> AllowedDomain (ingress_core ?d) ''app.ex.com''"
    using ingress_hosts_confined [OF v en n edge_plan] by (simp add: t no dm)
  then show ?thesis using edge_plan by (simp add: edge_template_def)
qed

end
