(* ===== verification/Settings_Model.thy ===== *)
theory Settings_Model
  imports Admin_Login Proxy_Proto Bouncer Derive_Host
begin

text \<open>
  The settings document: \<open>internal/model/settings.go\<close>, \<open>internal/model/dnssync.go\<close> and
  \<open>internal/model/adminedge.go\<close>. The blocks with their accessors, \<open>Settings.Validate\<close>, and the
  checks of a block against the rest of the configuration that a settings write runs:
  \<open>AdminAuthSettings.ValidateRefs\<close> (the guard against locking every administrator out) and
  \<open>AdminEdgeSettings.ValidateRefs\<close>.

  Blocks modelled elsewhere are used as they are: the discovery blocks (\<open>Discovery_Settings\<close>), the
  PROXY protocol block (\<open>Proxy_Proto\<close>), error pages and response headers (\<open>Host_Model\<close>), and the admin
  login block (\<open>Admin_Session\<close>). A validation error keeps the name of the field it is about.

  The lemmas show the bounds of the accessors, what the anti-lockout guard guarantees of the login page
  of \<open>Admin_Login\<close>, and what the admin edge check guarantees of the host names it protects.
\<close>

section \<open>Blocks\<close>

record webhook_config =
  wh_Name :: string
  wh_URL :: string
  wh_Secret :: string
  wh_Disabled :: bool

record notification_target =
  nt_Name :: string
  nt_Type :: string
  nt_URL :: string
  nt_Secret :: string
  nt_Disabled :: bool
  nt_Events :: "string list"

record notifications_settings =
  ns_Targets :: "notification_target list"
  ns_ExpiringThresholdDays :: int

record access_list_sync =
  as_Enabled :: "bool option"
  as_PollInterval :: string

record saved_filter =
  sf_Name :: string
  sf_List :: string
  sf_Query :: string

record analytics_settings =
  an_Enabled :: bool
  an_RetentionDays :: int
  an_TopClients :: string
  an_InternalNetworks :: "string list"

record pihole_sync =
  ps_Enabled :: bool
  ps_URL :: string
  ps_AppPassword :: string
  ps_ApexTarget :: string

record cloudflare_sync =
  cf_Enabled :: bool
  cf_DNSProviderRef :: string
  cf_ZoneName :: string
  cf_ApexTarget :: string
  cf_Proxied :: bool

record admin_edge =
  edge_Enabled :: bool
  edge_TLS :: tls_settings
  edge_Middlewares :: "string list"
  edge_AccessLists :: "string list"
  edge_DNS :: "dns_policy option"
  edge_RobotsNoIndex :: bool

record gpm_settings =
  gs_AppName :: string
  gs_ExternalBaseURL :: string
  gs_AdminAuth :: admin_auth_settings
  gs_TLSMinVersion :: string
  gs_Webhooks :: "webhook_config list"
  gs_Notifications :: notifications_settings
  gs_Pihole :: pihole_sync
  gs_Cloudflare :: cloudflare_sync
  gs_SavedFilters :: "saved_filter list"
  gs_ProxyProtocol :: "proxy_protocol_settings option"
  gs_TrustedProxies :: "string list"
  gs_IngressDiscovery :: ingress_settings
  gs_DockerDiscovery :: docker_settings
  gs_AccessListSync :: access_list_sync
  gs_Maintenance :: maintenance_settings
  gs_Analytics :: analytics_settings
  gs_AdminEdge :: admin_edge
  gs_ErrorPages :: error_pages
  gs_SecurityHeaders :: security_headers
  gs_StripResponseHeaders :: "string list"

section \<open>Accessors\<close>

definition notificationEventKinds :: "string list" where
  "notificationEventKinds =
     [''cert.renewal_failed'', ''cert.expiring'', ''cert.expired'', ''upstream.unhealthy'', ''upstream.recovered'',
      ''acme.account_error'', ''discovery.frozen'', ''config.changed'']"

definition DefaultNotificationEvents :: "string list" where
  "DefaultNotificationEvents = filter (\<lambda>k. k \<noteq> ''config.changed'') notificationEventKinds"

definition isNotificationEventKind :: "string \<Rightarrow> bool" where
  "isNotificationEventKind k \<longleftrightarrow> k \<in> set notificationEventKinds"

definition ExpiringThreshold :: "notifications_settings \<Rightarrow> int" where
  "ExpiringThreshold n = (if ns_ExpiringThresholdDays n \<le> 0 then 14 else ns_ExpiringThresholdDays n)"

definition maxMaintenanceRetryAfter :: int where "maxMaintenanceRetryAfter = 86400"

definition MinAccessListSyncPollInterval :: int where "MinAccessListSyncPollInterval = 60 * 10 ^ 9"
definition DefaultAccessListSyncPollInterval :: int where "DefaultAccessListSyncPollInterval = 15 * 60 * 10 ^ 9"

definition sync_IsEnabled :: "access_list_sync \<Rightarrow> bool" where
  "sync_IsEnabled a = (case as_Enabled a of None \<Rightarrow> True | Some b \<Rightarrow> b)"

definition sync_Poll :: "access_list_sync \<Rightarrow> int" where
  "sync_Poll a = interval_or MinAccessListSyncPollInterval DefaultAccessListSyncPollInterval (as_PollInterval a)"

definition Retention :: "analytics_settings \<Rightarrow> int" where
  "Retention a = (if an_RetentionDays a \<le> 0 then 7 else an_RetentionDays a)"

definition ClientsMode :: "analytics_settings \<Rightarrow> string" where
  "ClientsMode a = (if an_TopClients a = [] then ''persist'' else an_TopClients a)"

definition TrustedProxyWildcards :: "string list \<Rightarrow> string list" where
  "TrustedProxyWildcards es =
     filter (\<lambda>c. case ParseCIDR c of None \<Rightarrow> False | Some n \<Rightarrow> mask_ones (net_mask n) = 0) es"

section \<open>Validation of the blocks\<close>

fun named_scan :: "('a \<Rightarrow> string) \<Rightarrow> ('a \<Rightarrow> verr) \<Rightarrow> string \<Rightarrow> string list \<Rightarrow> 'a list \<Rightarrow> verr" where
  "named_scan nm v field seen [] = None"
| "named_scan nm v field seen (x # xs) = first_err
     [under (field @ '': '') (ValidateName (nm x)), check (nm x \<notin> set seen) field, under (field @ '': '') (v x),
      named_scan nm v field (nm x # seen) xs]"

definition validate_webhook :: "go_env \<Rightarrow> webhook_config \<Rightarrow> verr" where
  "validate_webhook env w = check (http_url (env_url env) (wh_URL w)) ''url''"

definition validate_target :: "go_env \<Rightarrow> notification_target \<Rightarrow> verr" where
  "validate_target env t = first_err
     [check (nt_Type t \<in> {''ntfy'', ''discord'', ''generic''}) ''type'',
      check (http_url (env_url env) (nt_URL t)) ''url'',
      check (nt_Type t \<noteq> ''discord'' \<or> Sublist.sublist ''/api/webhooks/'' (nt_URL t)) ''url'',
      check (list_all isNotificationEventKind (nt_Events t)) ''events'']"

definition validate_notifications :: "go_env \<Rightarrow> notifications_settings \<Rightarrow> verr" where
  "validate_notifications env n = first_err
     [named_scan nt_Name (validate_target env) ''notifications.targets'' [] (ns_Targets n),
      check (ns_ExpiringThresholdDays n \<ge> 0) ''notifications.expiringThresholdDays'']"

definition validate_maintenance :: "maintenance_settings \<Rightarrow> verr" where
  "validate_maintenance m =
     check (0 \<le> RetryAfterSeconds m \<and> RetryAfterSeconds m \<le> maxMaintenanceRetryAfter) ''maintenance.retryAfterSeconds''"

definition validate_access_list_sync :: "access_list_sync \<Rightarrow> verr" where
  "validate_access_list_sync a = poll_err MinAccessListSyncPollInterval ''accessListSync.pollInterval'' (as_PollInterval a)"

definition list_id_ok :: "string \<Rightarrow> bool" where
  "list_id_ok s \<longleftrightarrow> length s \<le> 32 \<and> s \<noteq> [] \<and> is_lower (hd s) \<and> list_all ldh s"

fun filter_scan :: "string list \<Rightarrow> saved_filter list \<Rightarrow> verr" where
  "filter_scan seen [] = None"
| "filter_scan seen (f # fs) =
     (let name = TrimSpace (sf_Name f); q = TrimSpace (sf_Query f); key = sf_List f @ ''/'' @ ToLower name in
      first_err
        [check (name \<noteq> [] \<and> length name \<le> 64 \<and> \<not> contains_any name [CHR 0x0D, CHR 0x0A, CHR 0x09]) ''savedFilters.name'',
         check (list_id_ok (sf_List f)) ''savedFilters.list'',
         check (q \<noteq> [] \<and> length q \<le> 1024 \<and> \<not> contains_any q [CHR 0x0D, CHR 0x0A]) ''savedFilters.query'',
         check (key \<notin> set seen) ''savedFilters'',
         filter_scan (key # seen) fs])"

definition ValidateSavedFilters :: "saved_filter list \<Rightarrow> verr" where
  "ValidateSavedFilters fs = (if length fs > 200 then Some ''savedFilters'' else filter_scan [] fs)"

text \<open>\<open>netip.ParsePrefix\<close> succeeds: no zone, and a bit count without sign or leading zero.\<close>

definition prefix_ok :: "string \<Rightarrow> bool" where
  "prefix_ok s =
     (CHR ''/'' \<in> set s \<and>
      (let addr = rev (after (CHR ''/'') (rev s)); bits = rev (before (CHR ''/'') (rev s)) in
       case ParseAddr addr of
         None \<Rightarrow> False
       | Some x \<Rightarrow>
           addr_zone x = [] \<and> all_digits bits \<and> (length bits > 1 \<longrightarrow> CHR ''0'' \<noteq> hd bits) \<and>
           digits_val bits \<le> (if Is6 x then 128 else 32)))"

definition validate_analytics :: "analytics_settings \<Rightarrow> verr" where
  "validate_analytics a = first_err
     [check (0 \<le> an_RetentionDays a \<and> an_RetentionDays a \<le> 365) ''analytics.retentionDays'',
      check (an_TopClients a \<in> {[], ''persist'', ''memory'', ''off''}) ''analytics.topClients'',
      check (length (an_InternalNetworks a) \<le> 64) ''analytics.internalNetworks'',
      check (list_all (\<lambda>n. prefix_ok n \<or> ParseAddr n \<noteq> None) (an_InternalNetworks a)) ''analytics.internalNetworks'']"

definition validate_dns_sync :: "go_env \<Rightarrow> pihole_sync \<Rightarrow> cloudflare_sync \<Rightarrow> verr" where
  "validate_dns_sync env p c = first_err
     [(if \<not> ps_Enabled p then None
       else first_err [check (http_url (env_url env) (ps_URL p)) ''dnsSync.pihole.url'',
              check (ps_ApexTarget p \<noteq> []) ''dnsSync.pihole.apexTarget'']),
      (if \<not> cf_Enabled c then None
       else first_err [under ''dnsSync.cloudflare.dnsProviderRef: '' (ValidateName (cf_DNSProviderRef c)),
              check (cf_ZoneName c \<noteq> []) ''dnsSync.cloudflare.zoneName'',
              check (cf_ApexTarget c \<noteq> []) ''dnsSync.cloudflare.apexTarget''])]"

section \<open>The admin edge\<close>

text \<open>\<open>url.URL.Hostname\<close>: the port cut off when the part after the last colon is empty or decimal, and the
  brackets of an IPv6 literal.\<close>

definition url_hostname :: "string \<Rightarrow> string" where
  "url_hostname hp =
     (let port = rev (before (CHR '':'') (rev hp));
          h = (if CHR '':'' \<in> set hp \<and> list_all is_digit port then rev (after (CHR '':'') (rev hp)) else hp)
      in if Sublist.prefix ''['' h \<and> suffix '']'' h then butlast (tl h) else h)"

definition AdminEdgeHostname :: "go_env \<Rightarrow> string \<Rightarrow> string" where
  "AdminEdgeHostname env base =
     (case env_url env (TrimSpace base) of
        None \<Rightarrow> []
      | Some (_, host) \<Rightarrow> (let name = NormalizeHostname (url_hostname host) in if IsHostname name then name else []))"

definition AdminEdgeHostName :: string where "AdminEdgeHostName = ''gpm-admin''"

definition edge_Host :: "admin_edge \<Rightarrow> string \<Rightarrow> upstream \<Rightarrow> host_shape proxy_host" where
  "edge_Host a hostname up =
     derived_host AdminEdgeHostName (DefaultAnnotationPrefix @ ''/managed-by'') ''admin-edge'' [hostname]
       (no_shape\<lparr>hs_DisplayName := ''Admin panel'', hs_AdminEdge := True, hs_Upstream := up, hs_TLS := edge_TLS a,
          hs_RobotsNoIndex := edge_RobotsNoIndex a, hs_Middlewares := edge_Middlewares a, hs_AccessLists := edge_AccessLists a,
          hs_DNS := edge_DNS a\<rparr>)"

definition validate_admin_edge :: "go_env \<Rightarrow> string \<Rightarrow> admin_edge \<Rightarrow> verr" where
  "validate_admin_edge env base a =
     (if \<not> edge_Enabled a then None
      else let name = AdminEdgeHostname env base in
        first_err
          [check (name \<noteq> []) ''adminEdge.enabled'',
           under ''adminEdge: '' (validate_proxy_host (env_template env) (edge_Host a name
             \<lparr>u_Scheme = ''http'', u_Host = ''127.0.0.1'', u_Port = 1, u_Path = [], u_HostHeader = []\<rparr>)),
           names_err ''adminEdge.middlewares'' (edge_Middlewares a),
           names_err ''adminEdge.accessLists'' (edge_AccessLists a)])"

text \<open>\<open>strings.EqualFold\<close> on ASCII names.\<close>

definition claims_edge :: "string \<Rightarrow> bool \<Rightarrow> string list \<Rightarrow> bool" where
  "claims_edge name off ds \<longleftrightarrow> \<not> off \<and> list_ex (\<lambda>d. ToLower (TrimSpace d) = ToLower name) ds"

fun first_problem :: "'e option list \<Rightarrow> 'e option" where
  "first_problem [] = None"
| "first_problem (Some e # es) = Some e"
| "first_problem (None # es) = first_problem es"

definition edge_host_err :: "string \<Rightarrow> string \<Rightarrow> string \<Rightarrow> bool \<Rightarrow> string list \<Rightarrow> settings_error option" where
  "edge_host_err name kind obj off ds = (if claims_edge name off ds then Some (EdgeDomainClaimed kind obj) else None)"

definition edge_ValidateRefs :: "go_env \<Rightarrow> admin_edge \<Rightarrow> gpm_config \<Rightarrow> string \<Rightarrow> settings_error option" where
  "edge_ValidateRefs env a c base =
     (if \<not> edge_Enabled a then None
      else let name = AdminEdgeHostname env base in
        first_problem
          (map (\<lambda>m. if m \<in> set (map mw_Name (c_Middlewares c)) then None else Some (EdgeRef ''adminEdge.middlewares'' m)) (edge_Middlewares a) @
           map (\<lambda>l. if l \<in> set (list_names c) then None else Some (EdgeRef ''adminEdge.accessLists'' l)) (edge_AccessLists a) @
           map (\<lambda>h. if ph_Name h = AdminEdgeHostName then Some (EdgeNameReserved (ph_Name h))
                    else edge_host_err name ''proxy host'' (ph_Name h) (ph_Disabled h) (ph_Domains h)) (c_ProxyHosts c) @
           map (\<lambda>h. edge_host_err name ''redirect host'' (rh_Name h) (rh_Disabled h) (rh_Domains h)) (c_RedirectHosts c) @
           map (\<lambda>h. edge_host_err name ''parked host'' (pk_Name h) (pk_Disabled h) (pk_Domains h)) (c_ParkedHosts c)))"

section \<open>Administrator login providers\<close>

definition AdminLoginProviderTypes :: "string list" where "AdminLoginProviderTypes = [''oidc'']"

definition adminLoginCapable :: "string \<Rightarrow> bool" where
  "adminLoginCapable ty \<longleftrightarrow> ty \<in> set AdminLoginProviderTypes"

definition provider_types :: "gpm_config \<Rightarrow> string \<rightharpoonup> string" where
  "provider_types c = map_of (rev (map (\<lambda>p. (idp_Name p, idp_Type p)) (c_IdentityProviders c)))"

definition provider_err :: "gpm_config \<Rightarrow> string \<Rightarrow> settings_error option" where
  "provider_err c name =
     (case provider_types c name of
        None \<Rightarrow> Some (ProviderMissing name)
      | Some ty \<Rightarrow> if adminLoginCapable ty then None else Some (ProviderIncapable name ty))"

definition admin_ValidateRefs :: "admin_auth_settings \<Rightarrow> gpm_config \<Rightarrow> settings_error list" where
  "admin_ValidateRefs a c =
     (if \<not> aas_SSOOnly a then []
      else let errs = List.map_filter (provider_err c) (aas_Providers a);
               usable = length (filter (\<lambda>n. provider_err c n = None) (aas_Providers a))
           in if errs = [] \<and> usable = 0 then [NoUsableProvider] else errs)"

section \<open>Settings.Validate\<close>

definition validate_external_url :: "go_env \<Rightarrow> string \<Rightarrow> verr" where
  "validate_external_url env u =
     check (u = [] \<or> (case env_url env u of None \<Rightarrow> False | Some (scheme, host) \<Rightarrow> scheme \<noteq> [] \<and> host \<noteq> [])) ''externalBaseURL''"

definition validate_settings :: "go_env \<Rightarrow> os \<Rightarrow> gpm_settings \<Rightarrow> verr" where
  "validate_settings env sys s = first_err
     [ValidateSavedFilters (gs_SavedFilters s),
      validate_analytics (gs_Analytics s),
      validate_external_url env (gs_ExternalBaseURL s),
      check (\<not> (aas_SSOOnly (gs_AdminAuth s) \<and> aas_Providers (gs_AdminAuth s) = [])) ''ssoOnly'',
      check (aas_LocalLoginEnabled (gs_AdminAuth s) \<or> aas_Providers (gs_AdminAuth s) \<noteq> []) ''adminAuth.localLoginEnabled'',
      named_scan wh_Name (validate_webhook env) ''webhooks'' [] (gs_Webhooks s),
      check (gs_TLSMinVersion s \<in> {[], ''1.2'', ''1.3''}) ''tls.minVersion'',
      validate_proxy_protocol (gs_ProxyProtocol s),
      ValidateTrustedProxies (gs_TrustedProxies s),
      validate_dns_sync env (gs_Pihole s) (gs_Cloudflare s),
      validate_ingress_settings env sys (gs_IngressDiscovery s),
      validate_docker_settings env (DockerDiscoveryResolved (gs_IngressDiscovery s) (gs_DockerDiscovery s)),
      validate_access_list_sync (gs_AccessListSync s),
      validate_notifications env (gs_Notifications s),
      validate_error_pages (env_template env) (gs_ErrorPages s),
      validate_maintenance (gs_Maintenance s),
      validate_admin_edge env (gs_ExternalBaseURL s) (gs_AdminEdge s),
      validateSecurityHeaders (gs_SecurityHeaders s),
      validateStripResponseHeaders (gs_StripResponseHeaders s)]"

text \<open>The fields of type \<open>Secret\<close> of the settings, for the scan of \<open>Secrets\<close>.\<close>

definition settings_secrets :: "gpm_settings \<Rightarrow> (string \<times> string) list" where
  "settings_secrets s =
     indexed ''Webhooks'' (\<lambda>w. [(''.Secret'', wh_Secret w)]) (gs_Webhooks s) @
     indexed ''Notifications.Targets'' (\<lambda>t. [(''.Secret'', nt_Secret t)]) (ns_Targets (gs_Notifications s)) @
     [(''DNSSync.Pihole.AppPassword'', ps_AppPassword (gs_Pihole s))]"

subsection \<open>The starting configuration\<close>

text \<open>Zero values of the blocks.\<close>

definition no_template :: ingress_template where
  "no_template = \<lparr>tp_Upstream = no_upstream, tp_UpstreamGroupRef = [], tp_TLS = no_tls, tp_WebsocketsUpgrade = False,
     tp_RobotsNoIndex = False, tp_Timeouts = None, tp_Middlewares = [], tp_AccessLists = [], tp_StripResponseHeaders = [],
     tp_SecurityHeaders = [], tp_Tags = [], tp_Locations = [], tp_DefaultDNS = None, tp_AllowedDomainSuffixes = []\<rparr>"

definition no_ingress_settings :: ingress_settings where
  "no_ingress_settings = \<lparr>ing_Enabled = False, ing_APIURL = [], ing_TokenFile = [], ing_CAFile = [], ing_Namespace = [],
     ing_LabelSelector = [], ing_PollInterval = [], ing_AllowedDomainSuffixes = [], ing_Template = no_template, ing_Profiles = [],
     ing_ProfileRules = [], ing_ProfileSelection = [], ing_AnnotationPrefix = [], ing_AnnotationPrefixMigrate = False\<rparr>"

definition no_docker_settings :: docker_settings where
  "no_docker_settings = \<lparr>dk_Enabled = False, dk_Socket = [], dk_Host = [], dk_TLSCert = [], dk_TLSKey = [], dk_TLSCA = [],
     dk_Network = [], dk_UsePublishedPorts = False, dk_PublishedHost = [], dk_IncludeStopped = False, dk_PollInterval = [],
     dk_AllowedDomainSuffixes = [], dk_Template = no_template, dk_Profiles = [], dk_LabelPrefix = [], dk_PrefixMigrate = False\<rparr>"

definition no_admin_edge :: admin_edge where
  "no_admin_edge = \<lparr>edge_Enabled = False, edge_TLS = no_tls, edge_Middlewares = [], edge_AccessLists = [], edge_DNS = None,
     edge_RobotsNoIndex = False\<rparr>"

definition DefaultSettings :: gpm_settings where
  "DefaultSettings = \<lparr>gs_AppName = ''Go Proxy Manager'', gs_ExternalBaseURL = [],
     gs_AdminAuth = \<lparr>aas_Providers = [], aas_LocalLoginEnabled = True, aas_SSOOnly = False\<rparr>, gs_TLSMinVersion = [], gs_Webhooks = [],
     gs_Notifications = \<lparr>ns_Targets = [], ns_ExpiringThresholdDays = 0\<rparr>,
     gs_Pihole = \<lparr>ps_Enabled = False, ps_URL = [], ps_AppPassword = [], ps_ApexTarget = []\<rparr>,
     gs_Cloudflare = \<lparr>cf_Enabled = False, cf_DNSProviderRef = [], cf_ZoneName = [], cf_ApexTarget = [], cf_Proxied = False\<rparr>,
     gs_SavedFilters = [], gs_ProxyProtocol = None, gs_TrustedProxies = [], gs_IngressDiscovery = no_ingress_settings,
     gs_DockerDiscovery = no_docker_settings, gs_AccessListSync = \<lparr>as_Enabled = None, as_PollInterval = []\<rparr>,
     gs_Maintenance = \<lparr>mt_Enabled = False, RetryAfterSeconds = 0\<rparr>,
     gs_Analytics = \<lparr>an_Enabled = False, an_RetentionDays = 0, an_TopClients = [], an_InternalNetworks = []\<rparr>,
     gs_AdminEdge = no_admin_edge, gs_ErrorPages = \<lparr>ep_Dir = [], ep_Inline = [], InterceptUpstream = []\<rparr>,
     gs_SecurityHeaders = [], gs_StripResponseHeaders = []\<rparr>"

subsection \<open>Hosts left up by maintenance\<close>

fun exempt_add :: "string list \<Rightarrow> string list \<Rightarrow> string list" where
  "exempt_add out [] = out"
| "exempt_add out (n # ns) =
     (let name = ToLower (TrimSpace n) in exempt_add (if name = [] \<or> name \<in> set out then out else out @ [name]) ns)"

definition issuer_hosts :: "go_env \<Rightarrow> gpm_config \<Rightarrow> string \<Rightarrow> string list" where
  "issuer_hosts env c pname =
     concat (map (\<lambda>p. if idp_Name p = pname then (case idp_OIDC p of None \<Rightarrow> [] | Some o1 \<Rightarrow> [AdminEdgeHostname env (IssuerURL o1)]) else [])
       (c_IdentityProviders c))"

definition MaintenanceExemptDomains :: "go_env \<Rightarrow> gpm_config \<Rightarrow> gpm_settings \<Rightarrow> string list" where
  "MaintenanceExemptDomains env c s =
     exempt_add []
       ((if edge_Enabled (gs_AdminEdge s) then [AdminEdgeHostname env (gs_ExternalBaseURL s)] else []) @
        concat (map (issuer_hosts env c) (aas_Providers (gs_AdminAuth s))))"

section \<open>Bounds\<close>

text \<open>What the rest of the program reads from accepted settings is within its range: the Retry-After of a
  maintenance answer is between one second and a day, the list fetcher sleeps at least a minute, rollups are kept
  between one day and a year, and a PROXY header has at most a minute to arrive.\<close>

theorem accepted_settings_bounds:
  assumes "validate_settings env sys s = None"
  shows "1 \<le> EffectiveRetryAfter (gs_Maintenance s) \<and> EffectiveRetryAfter (gs_Maintenance s) \<le> 86400 \<and>
    60 * 10 ^ 9 \<le> sync_Poll (gs_AccessListSync s) \<and>
    1 \<le> Retention (gs_Analytics s) \<and> Retention (gs_Analytics s) \<le> 365 \<and> 1 \<le> ExpiringThreshold (gs_Notifications s)"
proof -
  have a: "validate_maintenance (gs_Maintenance s) = None" "validate_analytics (gs_Analytics s) = None"
    using assms by (simp_all add: validate_settings_def)
  have "60 * 10 ^ 9 \<le> sync_Poll (gs_AccessListSync s)"
    using interval_or_bound [of MinAccessListSyncPollInterval DefaultAccessListSyncPollInterval "as_PollInterval (gs_AccessListSync s)"]
    by (simp add: sync_Poll_def MinAccessListSyncPollInterval_def DefaultAccessListSyncPollInterval_def)
  then show ?thesis
    using a by (auto simp: validate_maintenance_def validate_analytics_def EffectiveRetryAfter_def Retention_def ExpiringThreshold_def
      DefaultMaintenanceRetryAfter_def maxMaintenanceRetryAfter_def)
qed

section \<open>The guard against a lockout\<close>

lemma provider_types_idps:
  "provider_types c n = map_option idp_Type (map_of (rev (map (\<lambda>p. (idp_Name p, p)) (c_IdentityProviders c))) n)"
proof -
  have "map_of (map (\<lambda>p. (idp_Name p, idp_Type p)) ps) n = map_option idp_Type (map_of (map (\<lambda>p. (idp_Name p, p)) ps) n)" for ps
    by (induction ps) auto
  then show ?thesis unfolding provider_types_def rev_map .
qed

lemma provider_err_option:
  "provider_err c n = None \<longleftrightarrow> n \<in> set (LoginOptions (Configure (c_IdentityProviders c) st base a))" if "n \<in> set (aas_Providers st)"
  using that
  by (auto simp: provider_err_def provider_types_idps LoginOptions_def Configure_def adminLoginCapable_def AdminLoginProviderTypes_def
    split: option.splits)

lemma map_filter_Nil: "List.map_filter f xs = [] \<longleftrightarrow> (\<forall>x \<in> set xs. f x = None)"
  by (induction xs) (simp_all add: List.map_filter_def split: option.split)

text \<open>The guard of a settings write refuses exactly the settings that would leave the login page without a
  way in. With single sign-on enforced, the guard passes if and only if at least one provider is listed and every
  listed one is shown as a sign-in button on the login page built from that configuration.\<close>

theorem sso_guard_exact:
  "admin_ValidateRefs st c = [] \<longleftrightarrow>
     \<not> aas_SSOOnly st \<or>
     aas_Providers st \<noteq> [] \<and> LoginOptions (Configure (c_IdentityProviders c) st base a) = aas_Providers st"
proof -
  let ?opts = "LoginOptions (Configure (c_IdentityProviders c) st base a)"
  have eq: "?opts = filter (\<lambda>n. provider_err c n = None) (aas_Providers st)"
    unfolding LoginOptions_def
    by (auto simp: Configure_def provider_err_def provider_types_idps adminLoginCapable_def AdminLoginProviderTypes_def
      split: option.splits intro!: filter_cong)
  show ?thesis
  proof (cases "aas_SSOOnly st")
    case True
    have "?opts = aas_Providers st \<longleftrightarrow> (\<forall>n \<in> set (aas_Providers st). provider_err c n = None)"
      unfolding eq by (simp add: filter_id_conv)
    moreover have "(\<forall>n \<in> set (aas_Providers st). provider_err c n = None) \<Longrightarrow>
        filter (\<lambda>n. provider_err c n = None) (aas_Providers st) = aas_Providers st"
      by (simp add: filter_id_conv)
    ultimately show ?thesis using True
      by (auto simp: admin_ValidateRefs_def Let_def map_filter_Nil)
  qed (simp add: admin_ValidateRefs_def)
qed

section \<open>The admin edge\<close>

lemma first_problem_None: "first_problem es = None \<longleftrightarrow> (\<forall>e \<in> set es. e = None)"
  by (induction es rule: first_problem.induct) auto

lemma edge_host_checked:
  assumes "validate_admin_edge env base a = None" "edge_Enabled a" "validate_upstream up = None"
  shows "validate_proxy_host (env_template env) (edge_Host a (AdminEdgeHostname env base) up) = None"
proof -
  let ?n = "AdminEdgeHostname env base"
  let ?u = "\<lparr>u_Scheme = ''http'', u_Host = ''127.0.0.1'', u_Port = 1, u_Path = [], u_HostHeader = []\<rparr>"
  have "validate_proxy_host (env_template env) (edge_Host a ?n ?u) = None"
    using assms(1,2) by (simp add: validate_admin_edge_def Let_def)
  then show ?thesis
    using assms(3) by (simp add: validate_proxy_host_def edge_Host_def derived_host_def no_host_def validate_shape_def no_shape_def)
qed

lemma edge_refs_parts:
  assumes "edge_ValidateRefs env e c base = None" "edge_Enabled e"
  shows "set (edge_Middlewares e) \<subseteq> set (map mw_Name (c_Middlewares c))" "set (edge_AccessLists e) \<subseteq> set (list_names c)"
    and "\<forall>h \<in> set (c_ProxyHosts c). (if ph_Name h = AdminEdgeHostName then Some (EdgeNameReserved (ph_Name h))
      else edge_host_err (AdminEdgeHostname env base) ''proxy host'' (ph_Name h) (ph_Disabled h) (ph_Domains h)) = None"
proof -
  note e = assms(1) [unfolded edge_ValidateRefs_def Let_def eqTrueI [OF assms(2)] not_True_eq_False if_False first_problem_None
    set_append ball_Un]
  have "\<forall>x \<in> set (edge_Middlewares e). x \<in> set (map mw_Name (c_Middlewares c))"
    using e [THEN conjunct1] unfolding set_map ball_simps by (force split: if_splits)
  then show "set (edge_Middlewares e) \<subseteq> set (map mw_Name (c_Middlewares c))" by blast
  have "\<forall>x \<in> set (edge_AccessLists e). x \<in> set (list_names c)"
    using e [THEN conjunct2, THEN conjunct1] unfolding set_map ball_simps by (force split: if_splits)
  then show "set (edge_AccessLists e) \<subseteq> set (list_names c)" by blast
  show "\<forall>h \<in> set (c_ProxyHosts c). (if ph_Name h = AdminEdgeHostName then Some (EdgeNameReserved (ph_Name h))
      else edge_host_err (AdminEdgeHostname env base) ''proxy host'' (ph_Name h) (ph_Disabled h) (ph_Domains h)) = None"
    using e [THEN conjunct2, THEN conjunct2, THEN conjunct1] unfolding set_map by blast
qed

lemma edge_domain_free:
  assumes "edge_ValidateRefs env e c base = None" "edge_Enabled e" "h \<in> set (c_ProxyHosts c)" "\<not> ph_Disabled h" "d \<in> set (ph_Domains h)"
  shows "ToLower (TrimSpace d) \<noteq> ToLower (AdminEdgeHostname env base)" "ph_Name h \<noteq> AdminEdgeHostName"
proof -
  note e = edge_refs_parts(3) [OF assms(1,2)]
  have "(if ph_Name h = AdminEdgeHostName then Some (EdgeNameReserved (ph_Name h))
      else edge_host_err (AdminEdgeHostname env base) ''proxy host'' (ph_Name h) (ph_Disabled h) (ph_Domains h)) = None"
    using e assms(3) by blast
  then show "ToLower (TrimSpace d) \<noteq> ToLower (AdminEdgeHostname env base)" "ph_Name h \<noteq> AdminEdgeHostName"
    using assms(4,5) by (auto simp: edge_host_err_def claims_edge_def list_ex_iff split: if_splits)
qed

text \<open>The admin panel's host is served as it was checked. When the edge block passed validation (with a
  placeholder upstream) and its cross-check against the configuration, the host built for the panel's hostname with
  the real loopback upstream passes validation, its middlewares and access lists exist, and no enabled stored proxy
  host answers for the panel's hostname or has its reserved name.\<close>

theorem admin_edge_unclaimed:
  assumes "validate_admin_edge env base e = None" "edge_ValidateRefs env e c base = None" "edge_Enabled e"
    and "validate_upstream up = None"
  shows "validate_proxy_host (env_template env) (edge_Host e (AdminEdgeHostname env base) up) = None \<and>
    set (edge_Middlewares e) \<subseteq> set (map mw_Name (c_Middlewares c)) \<and> set (edge_AccessLists e) \<subseteq> set (list_names c) \<and>
    (\<forall>h \<in> set (c_ProxyHosts c). ph_Name h \<noteq> AdminEdgeHostName \<and>
       (\<not> ph_Disabled h \<longrightarrow> ToLower (AdminEdgeHostname env base) \<notin> set (map (\<lambda>d. ToLower (TrimSpace d)) (ph_Domains h))))"
proof -
  note e = edge_refs_parts [OF assms(2,3)]
  have n: "ph_Name h \<noteq> AdminEdgeHostName" if "h \<in> set (c_ProxyHosts c)" for h
    using e(3) that by (force split: if_splits)
  have d: "ToLower (AdminEdgeHostname env base) \<notin> set (map (\<lambda>d. ToLower (TrimSpace d)) (ph_Domains h))"
    if "h \<in> set (c_ProxyHosts c)" "\<not> ph_Disabled h" for h
    using edge_domain_free(1) [OF assms(2,3) that] by force
  show ?thesis using edge_host_checked [OF assms(1,3,4)] e(1,2) n d by blast
qed

section \<open>Examples\<close>

lemma DefaultSettings_valid: "validate_settings env sys DefaultSettings = None"
  by (simp add: validate_settings_def DefaultSettings_def ValidateSavedFilters_def validate_analytics_def validate_external_url_def
    validate_proxy_protocol_def ValidateTrustedProxies_def validate_dns_sync_def validate_ingress_settings_def no_ingress_settings_def
    validate_docker_settings_def DockerDiscoveryResolved_def no_docker_settings_def validate_access_list_sync_def poll_err_def
    validate_notifications_def validate_error_pages_def validate_maintenance_def maxMaintenanceRetryAfter_def validate_admin_edge_def
    no_admin_edge_def validateSecurityHeaders_def validateStripResponseHeaders_def)

theorem accepted_settings_bounds_witness:
  "EffectiveRetryAfter (gs_Maintenance DefaultSettings) = 300 \<and> EffectiveRetryAfter (gs_Maintenance DefaultSettings) \<le> 86400"
  using accepted_settings_bounds [OF DefaultSettings_valid]
  by (simp add: DefaultSettings_def EffectiveRetryAfter_def DefaultMaintenanceRetryAfter_def)

definition panel_env :: go_env where
  "panel_env = \<lparr>env_url = (\<lambda>_. Some (''https'', ''panel.ex.com:8443'')), env_regexp = (\<lambda>_. True), env_template = (\<lambda>_. True),
     env_key = (\<lambda>_ _. True), env_outbound = (\<lambda>_ _. True), env_placeholder = IsPlaceholder\<rparr>"

lemma panel_hostname: "AdminEdgeHostname panel_env base = ''panel.ex.com''"
proof -
  have "url_hostname ''panel.ex.com:8443'' = ''panel.ex.com''" "NormalizeHostname ''panel.ex.com'' = ''panel.ex.com''"
    "IsHostname ''panel.ex.com''"
    by code_simp+
  then show ?thesis by (simp add: AdminEdgeHostname_def panel_env_def Let_def)
qed

definition panel_edge :: admin_edge where
  "panel_edge = no_admin_edge\<lparr>edge_Enabled := True, edge_Middlewares := [''sso'']\<rparr>"

definition loopback :: upstream where
  "loopback = \<lparr>u_Scheme = ''http'', u_Host = ''127.0.0.1'', u_Port = 8081, u_Path = [], u_HostHeader = []\<rparr>"

lemma panel_edge_valid:
  "validate_admin_edge panel_env base panel_edge = None"
  "edge_ValidateRefs panel_env panel_edge (edge_config\<lparr>c_ProxyHosts := [edge_host []]\<rparr>) base = None"
proof -
  have n: "ValidateName ''sso'' = None" "ValidateName AdminEdgeHostName = None" by code_simp+
  have u: "validate_upstream \<lparr>u_Scheme = ''http'', u_Host = ''127.0.0.1'', u_Port = 1, u_Path = [], u_HostHeader = []\<rparr> = None"
    by code_simp
  have t: "validate_tls no_tls = None" by code_simp
  show "validate_admin_edge panel_env base panel_edge = None"
    using n u t
    by (simp add: validate_admin_edge_def panel_edge_def no_admin_edge_def panel_hostname names_err_def validate_proxy_host_def
      edge_Host_def derived_host_def no_host_def validate_shape_def no_shape_def validate_timeouts_def validate_compression_def
      no_compression_def validateInline_def validateSecurityHeaders_def validateStripResponseHeaders_def validateLocations_def)
  have "ToLower (TrimSpace ''app.ex.com'') \<noteq> ToLower ''panel.ex.com''" by code_simp
  then show "edge_ValidateRefs panel_env panel_edge (edge_config\<lparr>c_ProxyHosts := [edge_host []]\<rparr>) base = None"
    by (simp add: edge_ValidateRefs_def panel_edge_def no_admin_edge_def panel_hostname edge_config_def edge_host_def derived_host_def
      edge_host_err_def claims_edge_def AdminEdgeHostName_def list_names_def)
qed

theorem admin_edge_unclaimed_witness:
  "validate_proxy_host (env_template panel_env) (edge_Host panel_edge ''panel.ex.com'' loopback) = None"
proof -
  have en: "edge_Enabled panel_edge" by (simp add: panel_edge_def)
  have u: "validate_upstream loopback = None" by code_simp
  show ?thesis using admin_edge_unclaimed [OF panel_edge_valid en u, of "[]"] by (simp add: panel_hostname)
qed

end
