(* ===== verification/Config_Objects.thy ===== *)
theory Config_Objects
  imports Settings_Model
begin

text \<open>
  The objects of the configuration as the store handles them, \<open>internal/store/apply.go\<close> and the kind table of
  \<open>internal/store/configstore.go\<close>: one datatype over the twelve kinds, with the creation and update times the
  store maintains, replacement and removal by name, and the stamping of times.

  A proxy host carries its times in its own record; every other object has them beside it. A loaded
  configuration is the list of its objects in the order of loading, and \<open>config_of\<close> is the \<open>model.Config\<close>
  that validation reads.

  The store validates a configuration in the order of the merged lists and later loads it in the order
  of the file names; the lemmas show that validation does not depend on that order, nor on the times.
\<close>

section \<open>Objects\<close>

type_synonym times = "int \<times> int"

datatype object =
  OProxyHost "host_shape proxy_host"
  | ORedirectHost times redirect_host
  | OStreamHost times stream_host
  | OParkedHost times parked_host
  | OCertificate times certificate
  | OClientCA times client_ca
  | ODNSProvider times dns_provider
  | OIdentityProvider times identity_provider
  | OUpstreamGroup times upstream_group
  | OAccessList times "access_list_cfg \<times> access_list_source list"
  | OMiddleware times middleware
  | OAPIToken times api_token

fun Kind :: "object \<Rightarrow> string" where
  "Kind (OProxyHost _) = ''ProxyHost''"
| "Kind (ORedirectHost _ _) = ''RedirectHost''"
| "Kind (OStreamHost _ _) = ''StreamHost''"
| "Kind (OParkedHost _ _) = ''ParkedHost''"
| "Kind (OCertificate _ _) = ''Certificate''"
| "Kind (OClientCA _ _) = ''ClientCA''"
| "Kind (ODNSProvider _ _) = ''DNSProvider''"
| "Kind (OIdentityProvider _ _) = ''IdentityProvider''"
| "Kind (OUpstreamGroup _ _) = ''UpstreamGroup''"
| "Kind (OAccessList _ _) = ''AccessList''"
| "Kind (OMiddleware _ _) = ''Middleware''"
| "Kind (OAPIToken _ _) = ''APIToken''"

fun obj_Name :: "object \<Rightarrow> string" where
  "obj_Name (OProxyHost h) = ph_Name h"
| "obj_Name (ORedirectHost _ h) = rh_Name h"
| "obj_Name (OStreamHost _ h) = sh_SName h"
| "obj_Name (OParkedHost _ h) = pk_Name h"
| "obj_Name (OCertificate _ c) = cert_Name c"
| "obj_Name (OClientCA _ c) = cca_Name c"
| "obj_Name (ODNSProvider _ p) = dp_Name p"
| "obj_Name (OIdentityProvider _ p) = idp_Name p"
| "obj_Name (OUpstreamGroup _ g) = ug_Name g"
| "obj_Name (OAccessList _ a) = al_Name (fst a)"
| "obj_Name (OMiddleware _ m) = mw_Name m"
| "obj_Name (OAPIToken _ t) = tok_Name t"

fun obj_times :: "object \<Rightarrow> times" where
  "obj_times (OProxyHost h) = (ph_CreatedAt h, ph_UpdatedAt h)"
| "obj_times (ORedirectHost ts _) = ts"
| "obj_times (OStreamHost ts _) = ts"
| "obj_times (OParkedHost ts _) = ts"
| "obj_times (OCertificate ts _) = ts"
| "obj_times (OClientCA ts _) = ts"
| "obj_times (ODNSProvider ts _) = ts"
| "obj_times (OIdentityProvider ts _) = ts"
| "obj_times (OUpstreamGroup ts _) = ts"
| "obj_times (OAccessList ts _) = ts"
| "obj_times (OMiddleware ts _) = ts"
| "obj_times (OAPIToken ts _) = ts"

fun set_times :: "times \<Rightarrow> object \<Rightarrow> object" where
  "set_times ts (OProxyHost h) = OProxyHost (h\<lparr>ph_CreatedAt := fst ts, ph_UpdatedAt := snd ts\<rparr>)"
| "set_times ts (ORedirectHost _ h) = ORedirectHost ts h"
| "set_times ts (OStreamHost _ h) = OStreamHost ts h"
| "set_times ts (OParkedHost _ h) = OParkedHost ts h"
| "set_times ts (OCertificate _ c) = OCertificate ts c"
| "set_times ts (OClientCA _ c) = OClientCA ts c"
| "set_times ts (ODNSProvider _ p) = ODNSProvider ts p"
| "set_times ts (OIdentityProvider _ p) = OIdentityProvider ts p"
| "set_times ts (OUpstreamGroup _ g) = OUpstreamGroup ts g"
| "set_times ts (OAccessList _ a) = OAccessList ts a"
| "set_times ts (OMiddleware _ m) = OMiddleware ts m"
| "set_times ts (OAPIToken _ t) = OAPIToken ts t"

text \<open>\<open>obj.Validate()\<close>.\<close>

fun validate_object :: "go_env \<Rightarrow> object \<Rightarrow> verr" where
  "validate_object env (OProxyHost h) = validate_proxy_host (env_template env) h"
| "validate_object env (ORedirectHost _ h) = validate_redirect_host h"
| "validate_object env (OStreamHost _ h) = validate_stream_host h"
| "validate_object env (OParkedHost _ h) = validate_parked_host h"
| "validate_object env (OCertificate _ c) = validate_certificate c"
| "validate_object env (OClientCA _ c) = validate_client_ca (env_key env) c"
| "validate_object env (ODNSProvider _ p) = validate_dns_provider (env_outbound env) (env_placeholder env) p"
| "validate_object env (OIdentityProvider _ p) = validate_identity_provider (env_url env) p"
| "validate_object env (OUpstreamGroup _ g) = validate_upstream_group g"
| "validate_object env (OAccessList _ a) = validate_access_list (env_url env) (snd a) (fst a)"
| "validate_object env (OMiddleware _ m) = validate_middleware (env_url env) (env_regexp env) m"
| "validate_object env (OAPIToken _ t) = validate_api_token t"

definition kindDir :: "(string \<times> string) list" where
  "kindDir =
     [(''ProxyHost'', ''proxy-hosts''), (''RedirectHost'', ''redirect-hosts''), (''StreamHost'', ''stream-hosts''),
      (''ParkedHost'', ''parked-hosts''), (''Certificate'', ''certificates''), (''ClientCA'', ''client-cas''),
      (''DNSProvider'', ''dns-providers''), (''IdentityProvider'', ''identity-providers''), (''UpstreamGroup'', ''upstream-groups''),
      (''AccessList'', ''access-lists''), (''Middleware'', ''middlewares''), (''APIToken'', ''api-tokens'')]"

section \<open>Replacement, removal, lookup\<close>

definition same_object :: "string \<Rightarrow> string \<Rightarrow> object \<Rightarrow> bool" where
  "same_object kind name x \<longleftrightarrow> Kind x = kind \<and> obj_Name x = name"

definition findObject :: "object list \<Rightarrow> string \<Rightarrow> string \<Rightarrow> object option" where
  "findObject objs kind name = find (same_object kind name) objs"

text \<open>\<open>withObject\<close>: \<open>upsert\<close> in the list of the object's kind.\<close>

fun withObject :: "object list \<Rightarrow> object \<Rightarrow> object list" where
  "withObject [] x = [x]"
| "withObject (y # ys) x = (if same_object (Kind x) (obj_Name x) y then x # ys else y # withObject ys x)"

definition withoutObject :: "object list \<Rightarrow> string \<Rightarrow> string \<Rightarrow> object list" where
  "withoutObject objs kind name = filter (\<lambda>x. \<not> same_object kind name x) objs"

definition stampMeta :: "times \<Rightarrow> times option \<Rightarrow> int \<Rightarrow> times" where
  "stampMeta m existing now =
     (case existing of
        Some (c, _) \<Rightarrow> (if c \<noteq> 0 then c else now, now)
      | None \<Rightarrow> (if fst m = 0 then now else fst m, now))"

definition stampTimes :: "object \<Rightarrow> object option \<Rightarrow> int \<Rightarrow> object" where
  "stampTimes x existing now = set_times (stampMeta (obj_times x) (map_option obj_times existing) now) x"

section \<open>The configuration of a list of objects\<close>

definition config_of :: "object list \<Rightarrow> gpm_config" where
  "config_of objs = \<lparr>
     c_Certificates = List.map_filter (\<lambda>x. case x of OCertificate _ c \<Rightarrow> Some c | _ \<Rightarrow> None) objs,
     c_ClientCAs = List.map_filter (\<lambda>x. case x of OClientCA _ c \<Rightarrow> Some c | _ \<Rightarrow> None) objs,
     c_DNSProviders = List.map_filter (\<lambda>x. case x of ODNSProvider _ c \<Rightarrow> Some c | _ \<Rightarrow> None) objs,
     c_Middlewares = List.map_filter (\<lambda>x. case x of OMiddleware _ c \<Rightarrow> Some c | _ \<Rightarrow> None) objs,
     c_AccessLists = List.map_filter (\<lambda>x. case x of OAccessList _ c \<Rightarrow> Some c | _ \<Rightarrow> None) objs,
     c_IdentityProviders = List.map_filter (\<lambda>x. case x of OIdentityProvider _ c \<Rightarrow> Some c | _ \<Rightarrow> None) objs,
     c_UpstreamGroups = List.map_filter (\<lambda>x. case x of OUpstreamGroup _ c \<Rightarrow> Some c | _ \<Rightarrow> None) objs,
     c_APITokens = List.map_filter (\<lambda>x. case x of OAPIToken _ c \<Rightarrow> Some c | _ \<Rightarrow> None) objs,
     c_ProxyHosts = List.map_filter (\<lambda>x. case x of OProxyHost c \<Rightarrow> Some c | _ \<Rightarrow> None) objs,
     c_RedirectHosts = List.map_filter (\<lambda>x. case x of ORedirectHost _ c \<Rightarrow> Some c | _ \<Rightarrow> None) objs,
     c_ParkedHosts = List.map_filter (\<lambda>x. case x of OParkedHost _ c \<Rightarrow> Some c | _ \<Rightarrow> None) objs,
     c_StreamHosts = List.map_filter (\<lambda>x. case x of OStreamHost _ c \<Rightarrow> Some c | _ \<Rightarrow> None) objs\<rparr>"

section \<open>Validation does not depend on order and times\<close>

text \<open>What the reference checks see of a configuration.\<close>

definition same_view :: "gpm_config \<Rightarrow> gpm_config \<Rightarrow> bool" where
  "same_view c c' \<longleftrightarrow>
     cert_Name ` set (c_Certificates c) = cert_Name ` set (c_Certificates c') \<and>
     set (c_ClientCAs c) = set (c_ClientCAs c') \<and>
     dp_Name ` set (c_DNSProviders c) = dp_Name ` set (c_DNSProviders c') \<and>
     mw_Name ` set (c_Middlewares c) = mw_Name ` set (c_Middlewares c') \<and>
     set (c_AccessLists c) = set (c_AccessLists c') \<and>
     set (c_IdentityProviders c) = set (c_IdentityProviders c') \<and>
     provider_types c = provider_types c' \<and>
     set (c_UpstreamGroups c) = set (c_UpstreamGroups c')"

lemma same_view_names:
  assumes "same_view c c'"
  shows "set (ca_names c) = set (ca_names c')" "set (disabled_cas c) = set (disabled_cas c')"
    "set (group_names c) = set (group_names c')" "set (disabled_groups c) = set (disabled_groups c')"
    "set (list_names c) = set (list_names c')"
  using assms by (simp_all add: same_view_def ca_names_def disabled_cas_def group_names_def disabled_groups_def list_names_def image_comp)

lemma checkRef_cong: "set known = set known' \<Longrightarrow> checkRef k ow f r known = checkRef k ow f r known'"
  by (simp add: checkRef_def)

lemma same_view_refs:
  assumes "same_view c c'"
  shows "checkClientAuthRef c = checkClientAuthRef c'" "checkGroupRef c = checkGroupRef c'" "list_refs c = list_refs c'"
    "mw_refs c = mw_refs c'" "cert_ref c = cert_ref c'" "checkInlineAuth c = checkInlineAuth c'" "rate_refs c = rate_refs c'"
    "stream_list_errs c = stream_list_errs c'"
proof -
  note n = same_view_names [OF assms]
  note v = assms [unfolded same_view_def]
  show "checkClientAuthRef c = checkClientAuthRef c'"
    using n by (simp add: fun_eq_iff checkClientAuthRef_def checkRef_def split: option.split)
  show "checkGroupRef c = checkGroupRef c'" using n by (simp add: fun_eq_iff checkGroupRef_def checkRef_def)
  show l: "list_refs c = list_refs c'" using n by (simp add: fun_eq_iff list_refs_def checkRef_def)
  show "mw_refs c = mw_refs c'" using v by (simp add: fun_eq_iff mw_refs_def checkRef_def)
  show "cert_ref c = cert_ref c'" using v by (simp add: fun_eq_iff cert_ref_def checkRef_def)
  show "checkInlineAuth c = checkInlineAuth c'"
  proof (intro ext)
    fix kind ow a
    have "checkAuthAllowFromMode c ow x = checkAuthAllowFromMode c' ow x" for x
      using v unfolding checkAuthAllowFromMode_def provider_types_def [symmetric] by simp
    then show "checkInlineAuth c kind ow a = checkInlineAuth c' kind ow a"
      using v by (simp add: checkInlineAuth_def checkRef_def split: option.split)
  qed
  show "rate_refs c = rate_refs c'" by (simp add: fun_eq_iff rate_refs_def l split: option.split)
  show "stream_list_errs c = stream_list_errs c'"
    using v n by (simp add: fun_eq_iff stream_list_errs_def checkRef_def list_ex_iff)
qed

lemma same_view_host_refs:
  assumes "same_view c c'"
  shows "proxy_host_refs c = proxy_host_refs c'" "tls_refs c = tls_refs c'" "stream_refs c = stream_refs c'"
proof -
  note r = same_view_refs [OF assms]
  have "location_refs c = location_refs c'" by (simp add: fun_eq_iff location_refs_def r)
  then show "proxy_host_refs c = proxy_host_refs c'" by (intro ext) (simp add: proxy_host_refs_def r)
  show "tls_refs c = tls_refs c'" by (simp add: fun_eq_iff tls_refs_def r)
  show "stream_refs c = stream_refs c'" by (simp add: fun_eq_iff stream_refs_def r split: option.split)
qed

lemma distinct_nonempty_mset: "mset xs = mset ys \<Longrightarrow> distinct (nonempty xs) \<longleftrightarrow> distinct (nonempty ys)"
  unfolding nonempty_def by (rule mset_eq_imp_distinct_iff) (metis mset_filter)

lemma check_objects_mset:
  assumes "mset xs = mset ys" "set seen = set seen'" "refs = refs'"
  shows "check_objects kind nm v refs seen xs = [] \<longleftrightarrow> check_objects kind nm v refs' seen' ys = []"
proof -
  have s: "set xs = set ys" using assms(1) by (rule mset_eq_setD)
  have "mset (map nm xs) = mset (map nm ys)" using assms(1) by simp
  from distinct_nonempty_mset [OF this] show ?thesis by (simp add: check_objects_Nil list_all_iff assms(2,3) s)
qed

lemma claim_conflicts_mset: "mset ds = mset ds' \<Longrightarrow> claim_conflicts [] ds = [] \<longleftrightarrow> claim_conflicts [] ds' = []"
proof -
  assume "mset ds = mset ds'"
  then have "mset (map (\<lambda>(_, _, d). DomainKey d) ds) = mset (map (\<lambda>(_, _, d). DomainKey d) ds')" by simp
  from distinct_nonempty_mset [OF this] show ?thesis by (simp add: claim_conflicts_Nil)
qed

lemma udp_conflicts_mset: "mset hs = mset hs' \<Longrightarrow> udp_conflicts [] hs = [] \<longleftrightarrow> udp_conflicts [] hs' = []"
proof -
  assume "mset hs = mset hs'"
  then have "mset (map ListenPort (filter on_udp hs)) = mset (map ListenPort (filter on_udp hs'))" by (simp add: mset_filter)
  then show ?thesis by (simp add: udp_conflicts_Nil mset_eq_imp_distinct_iff)
qed

lemma tcp_conflicts_Nil:
  "tcp_conflicts hs = [] \<longleftrightarrow>
     (\<forall>port. let cl = filter (\<lambda>h. ListenPort h = port) (filter on_tcp hs) in length cl < 2 \<or> sni_conflicts port [] cl = [])"
proof -
  have "port \<in> set (map ListenPort (filter on_tcp hs))"
    if "\<not> length (filter (\<lambda>h. ListenPort h = port) (filter on_tcp hs)) < 2" for port
  proof -
    have "filter (\<lambda>h. ListenPort h = port) (filter on_tcp hs) \<noteq> []" using that by auto
    then obtain h where "h \<in> set (filter (\<lambda>h. ListenPort h = port) (filter on_tcp hs))" by (meson last_in_set)
    then show ?thesis by auto
  qed
  then show ?thesis
    unfolding tcp_conflicts_def Let_def concat_map_Nil list_all_iff set_remdups by (metis (no_types, lifting))
qed

lemma mset_concat_map: "mset (concat (map f xs)) = sum_mset (image_mset (\<lambda>x. mset (f x)) (mset xs))"
  by (induction xs) auto

lemma sni_conflicts_mset:
  assumes "mset cl = mset cl'"
  shows "sni_conflicts port [] cl = [] \<longleftrightarrow> sni_conflicts port [] cl' = []"
proof -
  have "mset (concat (map SNINames cl)) = mset (concat (map SNINames cl'))"
    by (simp only: mset_concat_map assms)
  then have "distinct (concat (map SNINames cl)) = distinct (concat (map SNINames cl'))" by (rule mset_eq_imp_distinct_iff)
  moreover have "set cl = set cl'" using assms by (rule mset_eq_setD)
  ultimately show ?thesis by (simp add: sni_conflicts_Nil list_all_iff)
qed

lemma tcp_conflicts_mset:
  assumes "mset hs = mset hs'"
  shows "tcp_conflicts hs = [] \<longleftrightarrow> tcp_conflicts hs' = []"
proof -
  have m: "mset (filter (\<lambda>h. ListenPort h = port) (filter on_tcp hs)) = mset (filter (\<lambda>h. ListenPort h = port) (filter on_tcp hs'))"
    for port using assms by (simp add: mset_filter)
  show ?thesis unfolding tcp_conflicts_Nil Let_def using sni_conflicts_mset [OF m] mset_eq_length [OF m] by simp
qed

text \<open>The times of a proxy host play no part in validation.\<close>

definition untimed :: "host_shape proxy_host \<Rightarrow> host_shape proxy_host" where
  "untimed h = h\<lparr>ph_CreatedAt := 0, ph_UpdatedAt := 0\<rparr>"

lemma untimed_simps [simp]:
  "ph_Name (untimed h) = ph_Name h" "ph_Disabled (untimed h) = ph_Disabled h" "ph_Domains (untimed h) = ph_Domains h"
  "ph_rest (untimed h) = ph_rest h" "ph_Labels (untimed h) = ph_Labels h"
  by (simp_all add: untimed_def)

text \<open>Two configurations with the same objects up to order and the times of proxy hosts.\<close>

definition same_contents :: "gpm_config \<Rightarrow> gpm_config \<Rightarrow> bool" where
  "same_contents c c' \<longleftrightarrow>
     mset (c_Certificates c) = mset (c_Certificates c') \<and> mset (c_ClientCAs c) = mset (c_ClientCAs c') \<and>
     mset (c_DNSProviders c) = mset (c_DNSProviders c') \<and> mset (c_Middlewares c) = mset (c_Middlewares c') \<and>
     mset (c_AccessLists c) = mset (c_AccessLists c') \<and> mset (c_IdentityProviders c) = mset (c_IdentityProviders c') \<and>
     mset (c_UpstreamGroups c) = mset (c_UpstreamGroups c') \<and> mset (c_APITokens c) = mset (c_APITokens c') \<and>
     mset (map untimed (c_ProxyHosts c)) = mset (map untimed (c_ProxyHosts c')) \<and>
     mset (c_RedirectHosts c) = mset (c_RedirectHosts c') \<and> mset (c_ParkedHosts c) = mset (c_ParkedHosts c') \<and>
     mset (c_StreamHosts c) = mset (c_StreamHosts c')"

lemma same_config_sym: "same_contents c c' \<Longrightarrow> same_contents c' c"
  by (simp add: same_contents_def)

lemma valid_idp_names:
  assumes "object_errors env c = []"
  shows "distinct (map idp_Name (c_IdentityProviders c))"
proof -
  have n: "validate_identity_provider u p = None \<Longrightarrow> idp_Name p \<noteq> []" for u p
    using ValidateName_nonempty by (auto simp: validate_identity_provider_def)
  have "check_objects ''identityProvider'' idp_Name (validate_identity_provider (env_url env)) no_refs [] (c_IdentityProviders c) = []"
    using assms by (simp add: object_errors_def)
  then have "list_all (\<lambda>p. idp_Name p \<noteq> []) (c_IdentityProviders c)" "distinct (nonempty (map idp_Name (c_IdentityProviders c)))"
    using n by (auto simp: check_objects_Nil list_all_iff)
  moreover from this(1) have "[] \<notin> set (map idp_Name (c_IdentityProviders c))" by (auto simp: list_all_iff)
  ultimately show ?thesis by (metis nonempty_id)
qed

lemma same_config_view:
  assumes "same_contents c c'" "object_errors env c = []"
  shows "same_view c c'"
proof -
  note m = assms(1) [unfolded same_contents_def]
  have d: "distinct (map idp_Name (c_IdentityProviders c))" by (rule valid_idp_names [OF assms(2)])
  have m': "mset (map idp_Name (c_IdentityProviders c)) = mset (map idp_Name (c_IdentityProviders c'))" using m by simp
  have d': "distinct (map idp_Name (c_IdentityProviders c'))" using d mset_eq_imp_distinct_iff [OF m'] by simp
  have s: "set (c_IdentityProviders c) = set (c_IdentityProviders c')" using m by (intro mset_eq_setD) blast
  have "provider_types c = provider_types c'"
    unfolding provider_types_def by (rule map_of_inject_set [THEN iffD2]) (use d d' s in \<open>simp_all add: rev_map comp_def flip: rev_map\<close>)
  moreover have "set (c_Certificates c) = set (c_Certificates c')" "set (c_ClientCAs c) = set (c_ClientCAs c')"
    "set (c_DNSProviders c) = set (c_DNSProviders c')" "set (c_Middlewares c) = set (c_Middlewares c')"
    "set (c_AccessLists c) = set (c_AccessLists c')" "set (c_UpstreamGroups c) = set (c_UpstreamGroups c')"
    using m mset_eq_setD by blast+
  ultimately show ?thesis using s by (simp add: same_view_def)
qed

lemma check_objects_perm:
  "mset xs = mset ys \<Longrightarrow> (check_objects k nm vd no_refs [] xs = []) = (check_objects k nm vd no_refs [] ys = [])"
  by (rule check_objects_mset) simp_all

lemma check_objects_perm_seen:
  "mset xs = mset ys \<Longrightarrow> set seen = set seen' \<Longrightarrow> (check_objects k nm vd refs seen xs = []) = (check_objects k nm vd refs seen' ys = [])"
  by (rule check_objects_mset) simp_all

lemma same_configD:
  assumes "same_contents c c'"
  shows "mset (c_Certificates c) = mset (c_Certificates c')" "mset (c_ClientCAs c) = mset (c_ClientCAs c')"
    "mset (c_DNSProviders c) = mset (c_DNSProviders c')" "mset (c_Middlewares c) = mset (c_Middlewares c')"
    "mset (c_AccessLists c) = mset (c_AccessLists c')" "mset (c_IdentityProviders c) = mset (c_IdentityProviders c')"
    "mset (c_UpstreamGroups c) = mset (c_UpstreamGroups c')" "mset (c_APITokens c) = mset (c_APITokens c')"
    "mset (map untimed (c_ProxyHosts c)) = mset (map untimed (c_ProxyHosts c'))"
    "mset (c_RedirectHosts c) = mset (c_RedirectHosts c')" "mset (c_ParkedHosts c) = mset (c_ParkedHosts c')"
    "mset (c_StreamHosts c) = mset (c_StreamHosts c')"
  using assms unfolding same_contents_def by blast+

lemma object_errors_mset:
  assumes "same_contents c c'" "object_errors env c = []"
  shows "object_errors env c' = []"
proof -
  note m = same_configD [OF assms(1)]
  note v = same_config_view [OF assms]
  note e = check_objects_perm [OF m(1)] check_objects_perm [OF m(2)] check_objects_perm [OF m(3)] check_objects_perm [OF m(4)]
    check_objects_perm [OF m(5)] check_objects_perm [OF m(6)] check_objects_perm [OF m(7)] check_objects_perm [OF m(8)]
  show ?thesis
    using assms(2)
    unfolding object_errors_def append_is_Nil_conv concat_map_Nil list_all_iff same_view_refs(7) [OF v] mset_eq_setD [OF m(4)] e .
qed

lemma check_objects_map:
  assumes "\<And>x. nm (f x) = nm x" "\<And>x. vd (f x) = vd x" "\<And>x. refs (f x) = refs x"
  shows "check_objects k nm vd refs seen (map f xs) = check_objects k nm vd refs seen xs"
  by (induction xs arbitrary: seen) (simp_all add: assms)

lemma untimed_checks:
  "validate_proxy_host t (untimed h) = validate_proxy_host t h" "proxy_host_refs c (untimed h) = proxy_host_refs c h"
  by (simp_all add: validate_proxy_host_def proxy_host_refs_def)

lemma untimed_map: "map f (c_ProxyHosts c) = map f (map untimed (c_ProxyHosts c))" if "\<And>h. f (untimed h) = f h"
  by (simp add: that comp_def)

lemma host_errors_mset:
  assumes "same_contents c c'" "object_errors env c = []" "host_errors env c = []"
  shows "host_errors env c' = []"
proof -
  note m = same_configD [OF assms(1)]
  note v = same_view_host_refs [OF same_config_view [OF assms(1,2)]]
  have n: "mset (map ph_Name (c_ProxyHosts c)) = mset (map ph_Name (c_ProxyHosts c'))"
    unfolding untimed_map [of ph_Name, OF untimed_simps(1)] using m(9) by (metis mset_map)
  have s1: "set (map ph_Name (c_ProxyHosts c)) = set (map ph_Name (c_ProxyHosts c'))" by (rule mset_eq_setD [OF n])
  have s2: "set (map ph_Name (c_ProxyHosts c) @ map rh_Name (c_RedirectHosts c)) =
      set (map ph_Name (c_ProxyHosts c') @ map rh_Name (c_RedirectHosts c'))"
    using s1 mset_eq_setD [OF m(10)] by simp
  have s3: "set ((map ph_Name (c_ProxyHosts c) @ map rh_Name (c_RedirectHosts c)) @ map pk_Name (c_ParkedHosts c)) =
      set ((map ph_Name (c_ProxyHosts c') @ map rh_Name (c_RedirectHosts c')) @ map pk_Name (c_ParkedHosts c'))"
    using s2 mset_eq_setD [OF m(11)] by (metis set_append set_map)
  have p: "(check_objects k ph_Name (validate_proxy_host t) (proxy_host_refs c') [] (c_ProxyHosts c) = []) =
      (check_objects k ph_Name (validate_proxy_host t) (proxy_host_refs c') [] (c_ProxyHosts c') = [])" for k t
    using check_objects_perm_seen [OF m(9) refl, of k ph_Name "validate_proxy_host t" "proxy_host_refs c'" "[]"]
    by (simp add: check_objects_map untimed_checks)
  show ?thesis
    using assms(3)
    unfolding host_errors_def Let_def append_is_Nil_conv v p check_objects_perm_seen [OF m(10) s1]
      check_objects_perm_seen [OF m(11) s2] check_objects_perm_seen [OF m(12) s3] .
qed

lemma claims_mset:
  assumes "same_contents c c'"
  shows "mset (host_claims c) = mset (host_claims c')" "mset (cert_claims c) = mset (cert_claims c')"
proof -
  note m = same_configD [OF assms]
  let ?f = "\<lambda>h. domain_claims ''proxy host'' (ph_Name h) (ph_Disabled h) (ph_Domains h)"
  have eq: "concat (map ?f hs) = concat (map ?f (map untimed hs))" for hs by (simp add: comp_def)
  have p: "mset (concat (map ?f (c_ProxyHosts c))) = mset (concat (map ?f (c_ProxyHosts c')))"
    unfolding eq [of "c_ProxyHosts c"] eq [of "c_ProxyHosts c'"] mset_concat_map m(9) ..
  show "mset (host_claims c) = mset (host_claims c')"
    unfolding host_claims_def mset_append p unfolding mset_concat_map m(10,11) ..
  show "mset (cert_claims c) = mset (cert_claims c')" unfolding cert_claims_def mset_concat_map m(1) ..
qed

text \<open>Validation accepts a configuration whatever the order of its objects and whenever its hosts were written.\<close>

lemma Validate_same_config:
  assumes "same_contents c c'" "Validate env c = []"
  shows "Validate env c' = []"
proof -
  note m = same_configD [OF assms(1)] and p = Validate_parts [OF assms(2)]
  have v: "same_view c c'" by (rule same_config_view [OF assms(1) p(1)])
  have d: "checkRef k ow fld r (map dp_Name (c_DNSProviders c)) = checkRef k ow fld r (map dp_Name (c_DNSProviders c'))" for k ow fld r
    using mset_eq_setD [OF m(3)] by (intro checkRef_cong) simp
  have f: "final_refs c' = []"
    using p(6) unfolding final_refs_def append_is_Nil_conv concat_map_Nil list_all_iff same_view_refs(6) [OF v] d
      claim_conflicts_mset [OF claims_mset(2) [OF assms(1)]] mset_eq_setD [OF m(1)] mset_eq_setD [OF m(4)] .
  show ?thesis
    unfolding Validate_def append_is_Nil_conv
    using object_errors_mset [OF assms(1) p(1)] host_errors_mset [OF assms(1) p(1,2)] p(3-5) udp_conflicts_mset [OF m(12)]
      tcp_conflicts_mset [OF m(12)] claim_conflicts_mset [OF claims_mset(1) [OF assms(1)]] f by simp
qed

end
