(* ===== verification/Ledgers.thy ===== *)
theory Ledgers
  imports Object_Validate
begin

text \<open>
  The two ledgers kept beside the configuration: \<open>internal/model/dnsledger.go\<close>, the record of the DNS
  names the program owns, and \<open>internal/model/accesslistledger.go\<close>, the record of the address lists it
  fetched.

  A map from domains to claims is an association list with distinct keys. SHA-256 and the parser of
  RFC 3339 times are arguments.

  The lemmas show that writing a claim map and reading it back gives the same claims, that a missing
  provenance is read as adopted, and that the digest of a fetched list covers its list, source, address and
  entries: no two of them are hashed from the same bytes.
\<close>

section \<open>The DNS ledger\<close>

record dns_ledger_entry =
  le_Domain :: string
  le_Target :: string
  le_Adopted :: "bool option"

record dns_claim =
  cl_Target :: string
  cl_Adopted :: bool

record dns_ledger =
  dl_Pihole :: "dns_ledger_entry list"
  dl_Cloudflare :: "dns_ledger_entry list"

definition IsAdopted :: "dns_ledger_entry \<Rightarrow> bool" where
  "IsAdopted e \<longleftrightarrow> le_Adopted e = None \<or> le_Adopted e = Some True"

definition normaliseDomain :: "string \<Rightarrow> string" where
  "normaliseDomain s = ToLower (TrimSuffix (TrimSpace s) ''.'')"

fun ledger_scan :: "string list \<Rightarrow> dns_ledger_entry list \<Rightarrow> verr" where
  "ledger_scan seen [] = None"
| "ledger_scan seen (e # es) = first_err
     [check (TrimSpace (le_Domain e) \<noteq> []) ''domain'', check (TrimSpace (le_Target e) \<noteq> []) ''target'',
      check (normaliseDomain (le_Domain e) \<notin> set seen) ''duplicate domain'',
      ledger_scan (normaliseDomain (le_Domain e) # seen) es]"

definition validate_dns_ledger :: "dns_ledger \<Rightarrow> verr" where
  "validate_dns_ledger l = first_err
     [under ''pihole: '' (ledger_scan [] (dl_Pihole l)), under ''cloudflare: '' (ledger_scan [] (dl_Cloudflare l))]"

type_synonym claim_map = "(string \<times> dns_claim) list"

definition DNSLedgerMap :: "dns_ledger_entry list \<Rightarrow> claim_map" where
  "DNSLedgerMap es =
     foldl (\<lambda>m e. AList.update (normaliseDomain (le_Domain e)) \<lparr>cl_Target = normaliseDomain (le_Target e), cl_Adopted = IsAdopted e\<rparr> m) [] es"

definition entry_of :: "string \<Rightarrow> dns_claim \<Rightarrow> dns_ledger_entry" where
  "entry_of d c = \<lparr>le_Domain = d, le_Target = cl_Target c, le_Adopted = Some (cl_Adopted c)\<rparr>"

definition DNSLedgerEntries :: "claim_map \<Rightarrow> dns_ledger_entry list" where
  "DNSLedgerEntries m = map (\<lambda>d. entry_of d (the (map_of m d))) (sorted_keys m)"

fun DNSLedgerEntriesEqual :: "dns_ledger_entry list \<Rightarrow> dns_ledger_entry list \<Rightarrow> bool" where
  "DNSLedgerEntriesEqual [] [] = True"
| "DNSLedgerEntriesEqual (a # as) (b # bs) =
     (le_Domain a = le_Domain b \<and> le_Target a = le_Target b \<and>
      (case (le_Adopted a, le_Adopted b) of (None, None) \<Rightarrow> True | (Some x, Some y) \<Rightarrow> x = y | _ \<Rightarrow> False) \<and>
      DNSLedgerEntriesEqual as bs)"
| "DNSLedgerEntriesEqual _ _ = False"

lemma DNSLedgerEntriesEqual_eq: "DNSLedgerEntriesEqual as bs \<longleftrightarrow> as = bs"
proof (induction as bs rule: DNSLedgerEntriesEqual.induct)
  case (2 a as b bs)
  then show ?case by (cases "le_Adopted a"; cases "le_Adopted b") auto
qed auto

section \<open>Claims survive the file\<close>

text \<open>The keys and targets a reconcile writes are in normal form.\<close>

definition normal_claims :: "claim_map \<Rightarrow> bool" where
  "normal_claims m \<longleftrightarrow>
     distinct (map fst m) \<and> list_all (\<lambda>(d, c). normaliseDomain d = d \<and> normaliseDomain (cl_Target c) = cl_Target c) m"

lemma update_snoc: "k \<notin> fst ` set m \<Longrightarrow> AList.update k v m = m @ [(k, v)]"
  by (induction m) auto

lemma ledger_fold:
  assumes "distinct (map normaliseDomain (map le_Domain es))" "normaliseDomain ` le_Domain ` set es \<inter> fst ` set m = {}"
  shows "foldl (\<lambda>m e. AList.update (normaliseDomain (le_Domain e)) \<lparr>cl_Target = normaliseDomain (le_Target e), cl_Adopted = IsAdopted e\<rparr> m) m es =
    m @ map (\<lambda>e. (normaliseDomain (le_Domain e), \<lparr>cl_Target = normaliseDomain (le_Target e), cl_Adopted = IsAdopted e\<rparr>)) es"
  using assms
proof (induction es arbitrary: m)
  case (Cons a es)
  let ?v = "\<lparr>cl_Target = normaliseDomain (le_Target a), cl_Adopted = IsAdopted a\<rparr>"
  have "AList.update (normaliseDomain (le_Domain a)) ?v m = m @ [(normaliseDomain (le_Domain a), ?v)]"
    using Cons.prems(2) by (intro update_snoc) auto
  moreover have "normaliseDomain ` le_Domain ` set es \<inter> fst ` set (m @ [(normaliseDomain (le_Domain a), ?v)]) = {}"
    using Cons.prems by auto
  ultimately show ?case using Cons.IH [of "m @ [(normaliseDomain (le_Domain a), ?v)]"] Cons.prems(1) by simp
qed simp

lemma DNSLedgerMap_distinct:
  assumes "distinct (map normaliseDomain (map le_Domain es))"
  shows "DNSLedgerMap es = map (\<lambda>e. (normaliseDomain (le_Domain e), \<lparr>cl_Target = normaliseDomain (le_Target e), cl_Adopted = IsAdopted e\<rparr>)) es"
  using ledger_fold [OF assms, of "[]"] by (simp add: DNSLedgerMap_def)

lemma map_of_keys: "set ks = fst ` set m \<Longrightarrow> map_of (map (\<lambda>k. (k, the (map_of m k))) ks) = map_of m"
proof (rule ext)
  fix x assume k: "set ks = fst ` set m"
  have "map_of (map (\<lambda>k. (k, the (map_of m k))) ks) x = (if x \<in> set ks then Some (the (map_of m x)) else None)"
    by (induction ks) auto
  then show "map_of (map (\<lambda>k. (k, the (map_of m k))) ks) x = map_of m x"
    unfolding k using map_of_eq_None_iff [of m x] by (cases "map_of m x") auto
qed

text \<open>What the reconciler writes into the ledger is what it reads back: the same names with the same
  targets and the same provenance. A record it created is never read back as adopted, nor the other way round.\<close>

theorem ledger_roundtrip:
  assumes "normal_claims m"
  shows "map_of (DNSLedgerMap (DNSLedgerEntries m)) = map_of m"
proof -
  have d: "distinct (map fst m)" and n: "\<And>k c. (k, c) \<in> set m \<Longrightarrow> normaliseDomain k = k \<and> normaliseDomain (cl_Target c) = cl_Target c"
    using assms by (auto simp: normal_claims_def list_all_iff)
  let ?es = "DNSLedgerEntries m"
  have k: "set (sorted_keys m) = fst ` set m" "distinct (sorted_keys m)" by (simp_all add: sorted_keys_def)
  have nk: "normaliseDomain x = x \<and> normaliseDomain (cl_Target (the (map_of m x))) = cl_Target (the (map_of m x))"
    if "x \<in> set (sorted_keys m)" for x
    using that k(1) n d by (auto simp: map_of_is_SomeI)
  have "distinct (map normaliseDomain (map le_Domain ?es))"
    using k(2) nk by (auto simp: DNSLedgerEntries_def entry_of_def distinct_map inj_on_def comp_def)
  then have "DNSLedgerMap ?es = map (\<lambda>x. (x, the (map_of m x))) (sorted_keys m)"
    using nk by (auto simp: DNSLedgerMap_distinct DNSLedgerEntries_def entry_of_def IsAdopted_def)
  then show ?thesis using map_of_keys [OF k(1)] by simp
qed

section \<open>The ledger of fetched lists\<close>

record list_source_entry =
  se_List :: string
  se_Source :: string
  se_URL :: string
  se_FetchedAt :: string
  se_SHA256 :: string
  se_Entries :: "string list"

type_synonym list_ledger = "list_source_entry list"

definition se_Key :: "list_source_entry \<Rightarrow> string" where
  "se_Key e = AccessListSourceKey (se_List e) (se_Source e)"

text \<open>What is written into the hash: each field with its length in front and a newline behind.\<close>

definition hash_field :: "string \<Rightarrow> string" where
  "hash_field s = itoa (length s) @ '':'' @ s @ [CHR 0x0A]"

definition hash_stream :: "string \<Rightarrow> string \<Rightarrow> string list \<Rightarrow> string" where
  "hash_stream key url es = hash_field key @ hash_field url @ concat (map hash_field es)"

definition AccessListSourceHash :: "(string \<Rightarrow> string) \<Rightarrow> string \<Rightarrow> string \<Rightarrow> string list \<Rightarrow> string" where
  "AccessListSourceHash sha256hex key url es = sha256hex (hash_stream key url es)"

fun list_ledger_scan :: "(string \<Rightarrow> string) \<Rightarrow> (string \<Rightarrow> bool) \<Rightarrow> string list \<Rightarrow> list_ledger \<Rightarrow> verr" where
  "list_ledger_scan sha rfc3339 seen [] = None"
| "list_ledger_scan sha rfc3339 seen (e # es) = first_err
     [check (TrimSpace (se_List e) \<noteq> []) ''list'', check (TrimSpace (se_Source e) \<noteq> []) ''source'',
      check (se_Key e \<notin> set seen) ''duplicate entry'',
      check (se_FetchedAt e = [] \<or> rfc3339 (se_FetchedAt e)) ''fetchedAt'',
      check (list_all (\<lambda>c. ParseCIDR c \<noteq> None) (se_Entries e)) ''entries'',
      check (sorted (se_Entries e)) ''entries'',
      check (AccessListSourceHash sha (se_Key e) (se_URL e) (se_Entries e) = se_SHA256 e) ''sha256'',
      list_ledger_scan sha rfc3339 (se_Key e # seen) es]"

definition validate_list_ledger :: "(string \<Rightarrow> string) \<Rightarrow> (string \<Rightarrow> bool) \<Rightarrow> list_ledger \<Rightarrow> verr" where
  "validate_list_ledger sha rfc3339 l = list_ledger_scan sha rfc3339 [] l"

definition AccessListSourceMap :: "list_ledger \<Rightarrow> (string \<times> list_source_entry) list" where
  "AccessListSourceMap l = foldl (\<lambda>m e. AList.update (se_Key e) e m) [] l"

definition AccessListSourceEntries :: "(string \<times> list_source_entry) list \<Rightarrow> list_ledger" where
  "AccessListSourceEntries m = map (\<lambda>k. the (map_of m k)) (sorted_keys m)"

section \<open>The digest covers every field\<close>

lemma colon_no_digit: "\<not> is_digit (CHR '':'')"
  by (simp add: is_digit_def byte_of_def)

lemma hash_field_append: "hash_field s @ r = hash_field s' @ r' \<longleftrightarrow> s = s' \<and> r = r'"
proof
  assume eq: "hash_field s @ r = hash_field s' @ r'"
  have e1: "itoa (length s) @ CHR '':'' # s @ [CHR 0x0A] @ r = itoa (length s') @ CHR '':'' # s' @ [CHR 0x0A] @ r'"
    using eq by (simp add: hash_field_def)
  have n: "CHR '':'' \<notin> set (itoa k)" for k using digit_notin_itoa [OF colon_no_digit] .
  have "itoa (length s) = itoa (length s')"
    using arg_cong [OF e1, of "before (CHR '':'')"] before_append [OF n] by metis
  then have l: "length s = length s'" by (rule itoa_inj)
  then have "s @ [CHR 0x0A] @ r = s' @ [CHR 0x0A] @ r'" using e1 by simp
  then show "s = s' \<and> r = r'" using l by simp
qed simp

lemma hash_field_nonempty: "hash_field s \<noteq> []"
  by (simp add: hash_field_def)

lemma hash_fields_inj: "concat (map hash_field xs) = concat (map hash_field ys) \<Longrightarrow> xs = ys"
proof (induction xs arbitrary: ys)
  case Nil
  then show ?case using hash_field_nonempty by (cases ys) auto
next
  case (Cons x xs)
  then obtain y ys' where "ys = y # ys'" using hash_field_nonempty by (cases ys) auto
  then show ?case using Cons by (auto simp: hash_field_append)
qed

text \<open>The digest of a fetched list is bound to where it belongs. Two different combinations of ledger
  key, address and entries are never hashed from the same bytes, so relabelling a set of networks makes its
  recorded digest wrong unless SHA-256 itself collides.\<close>

theorem hash_stream_injective:
  "hash_stream key url es = hash_stream key' url' es' \<longleftrightarrow> key = key' \<and> url = url' \<and> es = es'"
  using hash_fields_inj by (auto simp: hash_stream_def hash_field_append)

definition demo_claims :: claim_map where
  "demo_claims = [(''app.lan'', \<lparr>cl_Target = ''edge.lan'', cl_Adopted = False\<rparr>), (''nas.lan'', \<lparr>cl_Target = ''edge.lan'', cl_Adopted = True\<rparr>)]"

theorem ledger_roundtrip_witness:
  "map_of (DNSLedgerMap (DNSLedgerEntries demo_claims)) ''nas.lan'' = Some \<lparr>cl_Target = ''edge.lan'', cl_Adopted = True\<rparr>"
proof -
  have "normal_claims demo_claims" by code_simp
  from ledger_roundtrip [OF this] show ?thesis by (simp add: demo_claims_def)
qed

end
