(* ===== verification/Config_Store.thy ===== *)
theory Config_Store
  imports Config_Objects Ledgers
begin

text \<open>
  The git-backed configuration store, \<open>internal/store/configstore.go\<close> and \<open>internal/store/backup.go\<close>.

  The working tree is a sorted association list from paths to documents, so that equal trees are equal
  lists and the files of a directory come in the order \<open>os.ReadDir\<close> gives them. A document is what its
  YAML decodes to; the form of an object's document says how its file relates to the object. The
  repository is the working tree and the list of commits, newest first. Reading a directory is assumed to work; each write, removal,
  git command and undo can fail on its own, as the record \<open>io\<close> of one call says: a write that is not a rename can leave any
  document behind, and a tree restore that stops leaves each file in its old or its new state. The store lock makes every
  operation atomic, so a run of the program is a sequence of calls.

  A commit hash is the identifier git gave; the lookup of an abbreviated hash is not modelled.

  The theory \<open>File_Tree\<close> has the laws of the tree and of loading, and \<open>Store_Safety\<close> the properties of the
  operations: what a call commits loads, a failed batch leaves the tree as it was, a revert
  never brings an API token back. \<open>Store_Examples\<close> has concrete runs, among them what a partial write leads to.
\<close>

section \<open>Trees\<close>

text \<open>The file of an object as the store writes it, with the same keys but values spelled out that a marshalled object
  omits, or with keys this version does not know.\<close>

datatype file_form = Written | Spelled | UnknownKeys

datatype doc =
  ObjDoc object file_form
  | SettingsDoc gpm_settings
  | DnsLedgerDoc dns_ledger
  | ListLedgerDoc list_ledger
  | BadDoc

type_synonym tree = "(string \<times> doc) list"

fun tree_put :: "tree \<Rightarrow> string \<Rightarrow> doc \<Rightarrow> tree" where
  "tree_put [] p d = [(p, d)]"
| "tree_put ((q, e) # t) p d = (if p < q then (p, d) # (q, e) # t else if p = q then (p, d) # t else (q, e) # tree_put t p d)"

definition tree_del :: "tree \<Rightarrow> string \<Rightarrow> tree" where
  "tree_del t p = filter (\<lambda>(q, _). q \<noteq> p) t"

definition settingsFile :: string where "settingsFile = ''settings.yaml''"
definition dnsLedgerFile :: string where "dnsLedgerFile = ''dns-ledger.yaml''"
definition accessListSourcesFile :: string where "accessListSourcesFile = ''access-list-sources.yaml''"

definition dir_of :: "string \<Rightarrow> string" where
  "dir_of kind = (case map_of kindDir kind of None \<Rightarrow> [] | Some d \<Rightarrow> d)"

definition obj_path :: "string \<Rightarrow> string \<Rightarrow> string" where
  "obj_path kind name = dir_of kind @ ''/'' @ name @ ''.yaml''"

text \<open>The files of a directory that a load reads.\<close>

definition in_dir :: "string \<Rightarrow> string \<Rightarrow> bool" where
  "in_dir d p \<longleftrightarrow>
     Sublist.prefix (d @ ''/'') p \<and> CHR ''/'' \<notin> set (drop (length d + 1) p) \<and> suffix ''.yaml'' (drop (length d + 1) p)"

definition dir_docs :: "tree \<Rightarrow> string \<Rightarrow> doc list" where
  "dir_docs t d = map snd (filter (\<lambda>(p, _). in_dir d p) t)"

definition countYAML :: "tree \<Rightarrow> string \<Rightarrow> nat" where
  "countYAML t d = length (dir_docs t d)"

definition checkLegacyKindDirs :: "tree \<Rightarrow> bool" where
  "checkLegacyKindDirs t \<longleftrightarrow> countYAML t ''dead-hosts'' = 0 \<or> countYAML t ''parked-hosts'' > 0"

section \<open>Loading\<close>

datatype store_error =
  LegacyDirs
  | LoadFailed string
  | ConfigInvalid "config_error list"
  | SettingsInvalid string
  | ObjectInvalid string
  | EdgeNameTaken
  | EdgeConflict settings_error
  | GeoUnavailable string
  | LiteralSecret "string list"
  | AlreadyExists
  | NotFound
  | DanglingReference
  | BadName
  | UnknownKind
  | WriteFailed string
  | RemoveFailed
  | CommitFailed
  | BadHash
  | RestoreFailed
  | NotRevertible
  | PathNotInCommit
  | SettingsRef "settings_error list"
  | LedgerInvalid string
  | LedgerStale
  | MutateFailed
  | EmptyArchive
  | BadArchive
  | ArchiveTooLarge
  | BadArchivePath string
  | HeadFailed

fun decode_all :: "string \<Rightarrow> doc list \<Rightarrow> object list option" where
  "decode_all kind [] = Some []"
| "decode_all kind (ObjDoc x _ # ds) = (if Kind x = kind then map_option (\<lambda>xs. x # xs) (decode_all kind ds) else None)"
| "decode_all kind (_ # ds) = None"

definition loadDir :: "tree \<Rightarrow> string \<Rightarrow> string \<Rightarrow> object list option" where
  "loadDir t kind d = decode_all kind (dir_docs t d)"

fun load_kinds :: "tree \<Rightarrow> (string \<times> string) list \<Rightarrow> store_error + object list" where
  "load_kinds t [] = Inr []"
| "load_kinds t ((kind, d) # ks) =
     (case loadDir t kind d of
        None \<Rightarrow> Inl (LoadFailed d)
      | Some xs \<Rightarrow> (case load_kinds t ks of Inl e \<Rightarrow> Inl e | Inr ys \<Rightarrow> Inr (xs @ ys)))"

definition load_settings :: "tree \<Rightarrow> store_error + gpm_settings" where
  "load_settings t =
     (case map_of t settingsFile of
        None \<Rightarrow> Inr DefaultSettings
      | Some (SettingsDoc s) \<Rightarrow> Inr s
      | Some _ \<Rightarrow> Inl (LoadFailed settingsFile))"

definition loadLocked :: "go_env \<Rightarrow> os \<Rightarrow> tree \<Rightarrow> store_error + (object list \<times> gpm_settings)" where
  "loadLocked env sys t =
     (if \<not> checkLegacyKindDirs t then Inl LegacyDirs
      else case load_kinds t kindDir of
        Inl e \<Rightarrow> Inl e
      | Inr objs \<Rightarrow>
          (case load_settings t of
             Inl e \<Rightarrow> Inl e
           | Inr st \<Rightarrow>
               if Validate env (config_of objs) \<noteq> [] then Inl (ConfigInvalid (Validate env (config_of objs)))
               else (case validate_settings env sys st of Some f \<Rightarrow> Inl (SettingsInvalid f) | None \<Rightarrow> Inr (objs, st))))"

section \<open>The repository\<close>

text \<open>What becomes of one plain write, and of one \<open>RestoreTree\<close>; a stopped one has put the files of the predicate in place.\<close>

datatype write_run = Done | Untouched | Garbled doc
datatype restore_run = Restored | Stopped "string \<Rightarrow> bool"

record io =
  io_now :: int
  io_hash :: string
  io_geo :: "bool option"
  io_write :: "string \<Rightarrow> bool"
  io_plain :: "string \<Rightarrow> write_run"
  io_remove :: "string \<Rightarrow> bool"
  io_undo :: "string \<Rightarrow> write_run"
  io_status :: bool
  io_stage :: bool
  io_commit :: bool
  io_head :: bool
  io_head_after :: bool
  io_restore :: restore_run
  io_rollback :: restore_run
  io_spare :: "string \<Rightarrow> nat"

record store =
  cs_tree :: tree
  cs_log :: "(string \<times> tree) list"

type_synonym store_outcome = "(store_error + string) \<times> store"

definition git_Head :: "store \<Rightarrow> string" where
  "git_Head s = (case cs_log s of [] \<Rightarrow> [] | (h, _) # _ \<Rightarrow> h)"

definition head_tree :: "store \<Rightarrow> tree" where
  "head_tree s = (case cs_log s of [] \<Rightarrow> [] | (_, t) # _ \<Rightarrow> t)"

definition IsClean :: "store \<Rightarrow> bool" where
  "IsClean s \<longleftrightarrow> cs_tree s = head_tree s"

text \<open>Staging and the status call, the commit, and the lookup of its hash, whose failure comes after history has grown.\<close>

definition CommitAll :: "io \<Rightarrow> store \<Rightarrow> store_outcome" where
  "CommitAll io s =
     (if \<not> io_stage io then (Inl CommitFailed, s)
      else if IsClean s then (Inr [], s)
      else if \<not> io_commit io then (Inl CommitFailed, s)
      else (if io_head_after io then Inr (io_hash io) else Inl HeadFailed, s\<lparr>cs_log := (io_hash io, cs_tree s) # cs_log s\<rparr>))"

definition tree_mix :: "(string \<Rightarrow> bool) \<Rightarrow> tree \<Rightarrow> tree \<Rightarrow> tree" where
  "tree_mix f target t = foldl (\<lambda>t (p, d). tree_put t p d) (filter (\<lambda>(p, _). \<not> f p) t) (filter (\<lambda>(p, _). f p) target)"

definition RestoreTree :: "restore_run \<Rightarrow> tree \<Rightarrow> tree \<Rightarrow> bool \<times> tree" where
  "RestoreTree r target t = (case r of Restored \<Rightarrow> (True, target) | Stopped f \<Rightarrow> (False, tree_mix f target t))"

text \<open>The rollback every refusal of a revert or restore runs, to the head looked up before it: its own failure is ignored.\<close>

definition rollback :: "io \<Rightarrow> store \<Rightarrow> store \<Rightarrow> store" where
  "rollback io s0 s = (if git_Head s0 \<noteq> [] then s\<lparr>cs_tree := snd (RestoreTree (io_rollback io) (head_tree s0) (cs_tree s))\<rparr> else s)"

definition plain_write :: "(string \<Rightarrow> write_run) \<Rightarrow> string \<Rightarrow> doc \<Rightarrow> tree \<Rightarrow> bool \<times> tree" where
  "plain_write run p d t =
     (case run p of Done \<Rightarrow> (True, tree_put t p d) | Untouched \<Rightarrow> (False, t) | Garbled g \<Rightarrow> (False, tree_put t p g))"

fun plain_writes :: "(string \<Rightarrow> write_run) \<Rightarrow> tree \<Rightarrow> tree \<Rightarrow> bool \<times> tree" where
  "plain_writes run [] t = (True, t)"
| "plain_writes run ((p, d) # ws) t = (case plain_write run p d t of (True, t') \<Rightarrow> plain_writes run ws t' | (False, t') \<Rightarrow> (False, t'))"

fun removes :: "(string \<Rightarrow> bool) \<Rightarrow> string list \<Rightarrow> tree \<Rightarrow> bool \<times> tree" where
  "removes ok [] t = (True, t)"
| "removes ok (p # ps) t = (if ok p then removes ok ps (tree_del t p) else (False, t))"

definition writeYAML :: "io \<Rightarrow> string \<Rightarrow> doc \<Rightarrow> tree \<Rightarrow> tree option" where
  "writeYAML io p d t = (if io_write io p then Some (tree_put t p d) else None)"

section \<open>Checks before a write\<close>

definition checkGeoAvailable :: "io \<Rightarrow> gpm_config \<Rightarrow> store_error option" where
  "checkGeoAvailable io c =
     (if io_geo io = None \<or> io_geo io = Some True then None
      else map_option (\<lambda>(a, _). GeoUnavailable (al_Name a)) (find (\<lambda>(a, _). HasRules (al_Geo a)) (c_AccessLists c)))"

definition checkAdminEdge :: "go_env \<Rightarrow> gpm_config \<Rightarrow> gpm_settings \<Rightarrow> settings_error option" where
  "checkAdminEdge env c st = edge_ValidateRefs env (gs_AdminEdge st) c (gs_ExternalBaseURL st)"

definition merged_checks :: "go_env \<Rightarrow> io \<Rightarrow> gpm_settings \<Rightarrow> object list \<Rightarrow> store_error option" where
  "merged_checks env io st merged =
     (let c = config_of merged in
      if Validate env c \<noteq> [] then Some (ConfigInvalid (Validate env c))
      else case checkAdminEdge env c st of
        Some e \<Rightarrow> Some (EdgeConflict e)
      | None \<Rightarrow>
          (case checkGeoAvailable io c of
             Some e \<Rightarrow> Some e
           | None \<Rightarrow>
               if LiteralSecrets (config_secrets c) \<noteq> [] then Some (LiteralSecret (LiteralSecrets (config_secrets c))) else None))"

section \<open>Saving and deleting one object\<close>

definition prepareSave :: "go_env \<Rightarrow> os \<Rightarrow> io \<Rightarrow> object \<Rightarrow> tree \<Rightarrow> store_error + (string \<times> object \<times> bool)" where
  "prepareSave env sys io x t =
     (case validate_object env x of
        Some f \<Rightarrow> Inl (ObjectInvalid f)
      | None \<Rightarrow>
          (case loadLocked env sys t of
             Inl e \<Rightarrow> Inl e
           | Inr (objs, st) \<Rightarrow>
               if edge_Enabled (gs_AdminEdge st) \<and> Kind x = ''ProxyHost'' \<and> obj_Name x = AdminEdgeHostName then Inl EdgeNameTaken
               else (case merged_checks env io st (withObject objs x) of
                       Some e \<Rightarrow> Inl e
                     | None \<Rightarrow>
                         (let existing = findObject objs (Kind x) (obj_Name x) in
                          Inr (obj_path (Kind x) (obj_Name x), stampTimes x existing (io_now io), existing \<noteq> None)))))"

text \<open>The file's map and the map of the object to write are compared, times aside: they differ for a file of another form.\<close>

definition unchangedOnDisk :: "tree \<Rightarrow> string \<Rightarrow> object \<Rightarrow> bool" where
  "unchangedOnDisk t p x =
     (case map_of t p of Some (ObjDoc y Written) \<Rightarrow> set_times (0, 0) y = set_times (0, 0) x | _ \<Rightarrow> False)"

definition save :: "go_env \<Rightarrow> os \<Rightarrow> io \<Rightarrow> bool \<Rightarrow> object \<Rightarrow> store \<Rightarrow> store_outcome" where
  "save env sys io createOnly x s =
     (case prepareSave env sys io x (cs_tree s) of
        Inl e \<Rightarrow> (Inl e, s)
      | Inr (p, out, ex) \<Rightarrow>
          if createOnly \<and> ex then (Inl AlreadyExists, s)
          else if ex \<and> unchangedOnDisk (cs_tree s) p out \<and> io_status io \<and> IsClean s then (Inr [], s)
          else (case writeYAML io p (ObjDoc out Written) (cs_tree s) of
                  None \<Rightarrow> (Inl (WriteFailed p), s)
                | Some t \<Rightarrow> CommitAll io (s\<lparr>cs_tree := t\<rparr>)))"

definition Delete :: "go_env \<Rightarrow> os \<Rightarrow> io \<Rightarrow> string \<Rightarrow> string \<Rightarrow> store \<Rightarrow> store_outcome" where
  "Delete env sys io kind name s =
     (let p = obj_path kind name in
      if ValidateName name \<noteq> None then (Inl BadName, s)
      else if map_of kindDir kind = None then (Inl UnknownKind, s)
      else if map_of (cs_tree s) p = None then (Inl NotFound, s)
      else case loadLocked env sys (cs_tree s) of
        Inl e \<Rightarrow> (Inl e, s)
      | Inr (objs, st) \<Rightarrow>
          (let c = config_of (withoutObject objs kind name) in
           if Validate env c \<noteq> [] \<or> checkAdminEdge env c st \<noteq> None then (Inl DanglingReference, s)
           else if \<not> io_remove io p then (Inl (WriteFailed p), s)
           else CommitAll io (s\<lparr>cs_tree := tree_del (cs_tree s) p\<rparr>)))"

section \<open>Batches\<close>

fun write_all :: "io \<Rightarrow> (string \<times> object) list \<Rightarrow> tree \<Rightarrow> store_error option \<times> tree" where
  "write_all io [] t = (None, t)"
| "write_all io ((p, x) # ws) t =
     (case writeYAML io p (ObjDoc x Written) t of None \<Rightarrow> (Some (WriteFailed p), t) | Some t' \<Rightarrow> write_all io ws t')"

definition remove_all :: "io \<Rightarrow> string list \<Rightarrow> tree \<Rightarrow> bool \<times> tree" where
  "remove_all io ps t = removes (io_remove io) ps t"

definition stamped :: "io \<Rightarrow> (object \<times> object option) list \<Rightarrow> (string \<times> object) list" where
  "stamped io xs = map (\<lambda>(x, ex). (obj_path (Kind x) (obj_Name x), stampTimes x ex (io_now io))) xs"

definition SaveBatch :: "go_env \<Rightarrow> os \<Rightarrow> io \<Rightarrow> object list \<Rightarrow> store \<Rightarrow> store_outcome" where
  "SaveBatch env sys io xs s =
     (case loadLocked env sys (cs_tree s) of
        Inl e \<Rightarrow> (Inl e, s)
      | Inr (objs, st) \<Rightarrow>
          (case merged_checks env io st (foldl withObject objs xs) of
             Some e \<Rightarrow> (Inl e, s)
           | None \<Rightarrow>
               (case write_all io (stamped io (map (\<lambda>x. (x, findObject objs (Kind x) (obj_Name x))) xs)) (cs_tree s) of
                  (Some e, t) \<Rightarrow> (Inl e, s\<lparr>cs_tree := t\<rparr>)
                | (None, t) \<Rightarrow> CommitAll io (s\<lparr>cs_tree := t\<rparr>))))"

type_synonym apply_guard = "(object \<Rightarrow> bool) option"

definition guarded :: "apply_guard \<Rightarrow> object \<Rightarrow> bool" where
  "guarded g x = (case g of None \<Rightarrow> True | Some f \<Rightarrow> f x)"

definition unknownKeysAtPath :: "tree \<Rightarrow> string \<Rightarrow> bool" where
  "unknownKeysAtPath t p = (case map_of t p of Some (ObjDoc _ f) \<Rightarrow> f = UnknownKeys | _ \<Rightarrow> False)"

text \<open>An upsert is skipped when the object exists and its file has unknown keys or the guard refuses it.\<close>

definition skip_upsert :: "tree \<Rightarrow> apply_guard \<Rightarrow> object option \<Rightarrow> object \<Rightarrow> bool" where
  "skip_upsert t g ex x =
     (case ex of None \<Rightarrow> False
      | Some y \<Rightarrow> unknownKeysAtPath t (obj_path (Kind x) (obj_Name x)) \<or> \<not> guarded g y)"

text \<open>\<open>withObject\<close> on the merged configuration writes an object that is there in place, in a slice the loaded configuration shares until an
  append finds no spare capacity. \<open>sh\<close> has the spare capacity of the slices still shared; the step gives the
  loaded configuration as later lookups of the batch see it.\<close>

definition alias_upsert :: "(string \<Rightarrow> nat option) \<Rightarrow> object list \<Rightarrow> object list \<Rightarrow> object \<Rightarrow> (string \<Rightarrow> nat option) \<times> object list" where
  "alias_upsert sh objs merged x =
     (let k = Kind x in
      if findObject merged k (obj_Name x) \<noteq> None
      then (sh, if sh k \<noteq> None \<and> findObject objs k (obj_Name x) \<noteq> None then withObject objs x else objs)
      else (sh(k := (case sh k of Some (Suc n) \<Rightarrow> Some n | _ \<Rightarrow> None)), objs))"

fun batch_upserts ::
  "go_env \<Rightarrow> tree \<Rightarrow> apply_guard \<Rightarrow> (string \<Rightarrow> nat option) \<Rightarrow> object list \<Rightarrow> object list \<Rightarrow> object list \<Rightarrow>
   store_error + ((object \<times> object option) list \<times> object list)" where
  "batch_upserts env t g sh objs merged [] = Inr ([], objs)"
| "batch_upserts env t g sh objs merged (x # xs) =
     (case validate_object env x of
        Some f \<Rightarrow> Inl (ObjectInvalid f)
      | None \<Rightarrow>
          (let ex = findObject objs (Kind x) (obj_Name x) in
           if skip_upsert t g ex x then batch_upserts env t g sh objs merged xs
           else case alias_upsert sh objs merged x of
             (sh', objs') \<Rightarrow>
               (case batch_upserts env t g sh' objs' (withObject merged x) xs of
                  Inl e \<Rightarrow> Inl e
                | Inr (ys, out) \<Rightarrow> Inr ((x, ex) # ys, out))))"

definition skip_delete :: "tree \<Rightarrow> apply_guard \<Rightarrow> object list \<Rightarrow> string \<Rightarrow> string \<Rightarrow> bool" where
  "skip_delete t g objs kind name =
     (map_of t (obj_path kind name) = None \<or>
      (g \<noteq> None \<and> (case findObject objs kind name of None \<Rightarrow> True | Some y \<Rightarrow> \<not> guarded g y)))"

fun batch_deletes ::
  "tree \<Rightarrow> apply_guard \<Rightarrow> object list \<Rightarrow> (string \<times> string) list \<Rightarrow> store_error + (string \<times> string) list" where
  "batch_deletes t g objs [] = Inr []"
| "batch_deletes t g objs ((kind, name) # rs) =
     (if ValidateName name \<noteq> None then Inl BadName
      else if map_of kindDir kind = None then Inl UnknownKind
      else case batch_deletes t g objs rs of
        Inl e \<Rightarrow> Inl e
      | Inr ys \<Rightarrow> Inr (if skip_delete t g objs kind name then ys else (kind, name) # ys))"

text \<open>The undo goes on past a path it cannot put back.\<close>

definition restore_file :: "io \<Rightarrow> string \<Rightarrow> doc option \<Rightarrow> tree \<Rightarrow> tree" where
  "restore_file io p d t =
     (case d of
        Some d \<Rightarrow> snd (plain_write (io_undo io) p d t)
      | None \<Rightarrow> if io_undo io p = Done then tree_del t p else t)"

definition restoreFiles :: "io \<Rightarrow> (string \<times> doc option) list \<Rightarrow> tree \<Rightarrow> tree" where
  "restoreFiles io snaps t = foldl (\<lambda>t (p, d). restore_file io p d t) t snaps"

definition batch_apply :: "io \<Rightarrow> (string \<times> object) list \<Rightarrow> string list \<Rightarrow> store \<Rightarrow> store_outcome" where
  "batch_apply io ws rm s =
     (let t = cs_tree s; snaps = map (\<lambda>p. (p, map_of t p)) (map fst ws @ rm)
      in case write_all io ws t of
           (Some e, t1) \<Rightarrow> (Inl e, s\<lparr>cs_tree := restoreFiles io snaps t1\<rparr>)
         | (None, t1) \<Rightarrow>
             (case remove_all io rm t1 of
                (False, t2) \<Rightarrow> (Inl RemoveFailed, s\<lparr>cs_tree := restoreFiles io snaps t2\<rparr>)
              | (True, t2) \<Rightarrow>
                  (case CommitAll io (s\<lparr>cs_tree := t2\<rparr>) of
                     (Inl e, s') \<Rightarrow> (Inl e, s'\<lparr>cs_tree := restoreFiles io snaps (cs_tree s')\<rparr>)
                   | (Inr sha, s') \<Rightarrow> (Inr sha, s'))))"

definition ApplyBatch ::
  "go_env \<Rightarrow> os \<Rightarrow> io \<Rightarrow> object list \<Rightarrow> (string \<times> string) list \<Rightarrow> apply_guard \<Rightarrow> store \<Rightarrow> store_outcome" where
  "ApplyBatch env sys io ups dels g s =
     (case loadLocked env sys (cs_tree s) of
        Inl e \<Rightarrow> (Inl e, s)
      | Inr (objs, st) \<Rightarrow>
          (case batch_upserts env (cs_tree s) g (\<lambda>k. Some (io_spare io k)) objs objs ups of
             Inl e \<Rightarrow> (Inl e, s)
           | Inr (applied, seen) \<Rightarrow>
               (case batch_deletes (cs_tree s) g seen dels of
                  Inl e \<Rightarrow> (Inl e, s)
                | Inr rm \<Rightarrow>
                    if applied = [] \<and> rm = [] then (Inr [], s)
                    else (case merged_checks env io st
                            (foldl (\<lambda>m (k, n). withoutObject m k n) (foldl withObject objs (map fst applied)) rm) of
                            Some e \<Rightarrow> (Inl e, s)
                          | None \<Rightarrow> batch_apply io (stamped io applied) (map (\<lambda>(k, n). obj_path k n) rm) s))))"

section \<open>Going back\<close>

definition commit_hash_ok :: "string \<Rightarrow> bool" where
  "commit_hash_ok h \<longleftrightarrow> 7 \<le> length h \<and> length h \<le> 64 \<and> list_all is_hex h"

definition token_file :: "string \<Rightarrow> bool" where
  "token_file p \<longleftrightarrow> Sublist.prefix ''api-tokens/'' p \<and> CHR ''/'' \<notin> set (drop (length ''api-tokens/'') p)"

definition snapshotDirs :: "tree \<Rightarrow> tree" where
  "snapshotDirs t = filter (\<lambda>(p, _). token_file p) t"

definition writeDirs :: "io \<Rightarrow> tree \<Rightarrow> tree \<Rightarrow> bool \<times> tree" where
  "writeDirs io preserved t =
     (case removes (io_remove io) (filter (\<lambda>p. token_file p \<and> map_of preserved p = None) (map fst t)) t of
        (False, t1) \<Rightarrow> (False, t1)
      | (True, t1) \<Rightarrow> plain_writes (io_plain io) preserved t1)"

text \<open>The checks of a restored tree.\<close>

definition restored_checks :: "go_env \<Rightarrow> os \<Rightarrow> io \<Rightarrow> tree \<Rightarrow> store_error option" where
  "restored_checks env sys io t =
     (case loadLocked env sys t of
        Inl e \<Rightarrow> Some e
      | Inr (objs, st) \<Rightarrow>
          (let c = config_of objs; lits = LiteralSecrets (config_secrets c) @ LiteralSecrets (settings_secrets st) in
           case checkGeoAvailable io c of
             Some e \<Rightarrow> Some e
           | None \<Rightarrow>
               (case checkAdminEdge env c st of
                  Some e \<Rightarrow> Some (EdgeConflict e)
                | None \<Rightarrow> if lits \<noteq> [] then Some (LiteralSecret lits) else None)))"

definition commit_restored :: "go_env \<Rightarrow> os \<Rightarrow> io \<Rightarrow> tree \<Rightarrow> store \<Rightarrow> store_outcome" where
  "commit_restored env sys io t s =
     (case restored_checks env sys io t of
        Some e \<Rightarrow> (Inl e, rollback io s (s\<lparr>cs_tree := t\<rparr>))
      | None \<Rightarrow>
          (case CommitAll io (s\<lparr>cs_tree := t\<rparr>) of
             (Inl e, s') \<Rightarrow> (Inl e, rollback io s s')
           | (Inr sha, s') \<Rightarrow> (Inr sha, s')))"

definition Revert :: "go_env \<Rightarrow> os \<Rightarrow> io \<Rightarrow> string \<Rightarrow> store \<Rightarrow> store_outcome" where
  "Revert env sys io hash s =
     (if \<not> commit_hash_ok hash then (Inl BadHash, s)
      else if \<not> io_head io then (Inl HeadFailed, s)
      else case map_of (cs_log s) hash of
        None \<Rightarrow> (Inl RestoreFailed, s)
      | Some target \<Rightarrow>
          (case RestoreTree (io_restore io) target (cs_tree s) of
             (False, t) \<Rightarrow> (Inl RestoreFailed, s\<lparr>cs_tree := t\<rparr>)
           | (True, t) \<Rightarrow>
               (case writeDirs io (snapshotDirs (cs_tree s)) t of
                  (False, t') \<Rightarrow> (Inl RestoreFailed, rollback io s (s\<lparr>cs_tree := t'\<rparr>))
                | (True, t') \<Rightarrow> commit_restored env sys io t' s)))"

text \<open>\<open>RestorePath\<close> checks one file out.\<close>

definition RevertObject :: "go_env \<Rightarrow> os \<Rightarrow> io \<Rightarrow> string \<Rightarrow> string \<Rightarrow> string \<Rightarrow> store \<Rightarrow> store_outcome" where
  "RevertObject env sys io kind name hash s =
     (if \<not> commit_hash_ok hash then (Inl BadHash, s)
      else if ValidateName name \<noteq> None then (Inl BadName, s)
      else if map_of kindDir kind = None then (Inl UnknownKind, s)
      else if dir_of kind = ''api-tokens'' then (Inl NotRevertible, s)
      else if \<not> io_head io then (Inl HeadFailed, s)
      else case map_of (cs_log s) hash of
        None \<Rightarrow> (Inl RestoreFailed, s)
      | Some t \<Rightarrow>
          if io_restore io \<noteq> Restored then (Inl RestoreFailed, s)
          else (case map_of t (obj_path kind name) of
                  None \<Rightarrow> (Inl PathNotInCommit, s)
                | Some d \<Rightarrow> commit_restored env sys io (tree_put (cs_tree s) (obj_path kind name) d) s))"

text \<open>An archive is a list of entries, or not a readable one. A later entry of a path replaces an earlier one; the files are
  written in the order of the list, which stands for any order a Go map is walked in.\<close>

record archive_entry =
  ae_Name :: string
  ae_Size :: int
  ae_Regular :: bool
  ae_Doc :: doc

definition config_file :: "string \<Rightarrow> bool" where
  "config_file p \<longleftrightarrow> p = settingsFile \<or> list_ex (\<lambda>(_, d). in_dir d p) kindDir"

definition allowedRestorePath :: "string \<Rightarrow> bool" where
  "allowedRestorePath p \<longleftrightarrow>
     path_Clean p = p \<and> \<not> Sublist.prefix ''/'' p \<and> \<not> has_dotdot p \<and> config_file p"

definition remapLegacyRestorePath :: "string \<Rightarrow> string" where
  "remapLegacyRestorePath p =
     (if Sublist.prefix ''dead-hosts/'' p then ''parked-hosts/'' @ drop (length ''dead-hosts/'') p else p)"

definition maxRestoreBytes :: int where "maxRestoreBytes = 16777216"
definition maxRestoreEntries :: nat where "maxRestoreEntries = 10000"

fun read_entries :: "nat \<Rightarrow> int \<Rightarrow> archive_entry list \<Rightarrow> tree \<Rightarrow> store_error + tree" where
  "read_entries k sofar [] files = Inr files"
| "read_entries k sofar (e # es) files =
     (if k + 1 > maxRestoreEntries \<or> sofar + ae_Size e > maxRestoreBytes then Inl ArchiveTooLarge
      else if \<not> ae_Regular e then read_entries (k + 1) (sofar + ae_Size e) es files
      else let p = remapLegacyRestorePath (ae_Name e) in
        if \<not> allowedRestorePath p then Inl (BadArchivePath (ae_Name e))
        else read_entries (k + 1) (sofar + ae_Size e) es (AList.update p (ae_Doc e) files))"

definition readArchive :: "archive_entry list option \<Rightarrow> store_error + tree" where
  "readArchive archive = (case archive of None \<Rightarrow> Inl BadArchive | Some es \<Rightarrow> read_entries 0 0 es [])"

definition configFiles :: "tree \<Rightarrow> string list" where
  "configFiles t = filter config_file (map fst t)"

definition replaceConfigFiles :: "io \<Rightarrow> tree \<Rightarrow> tree \<Rightarrow> bool \<times> tree" where
  "replaceConfigFiles io files t =
     (case removes (io_remove io) (configFiles t) t of
        (False, t1) \<Rightarrow> (False, t1)
      | (True, t1) \<Rightarrow> plain_writes (io_plain io) files t1)"

definition Restore :: "go_env \<Rightarrow> os \<Rightarrow> io \<Rightarrow> archive_entry list option \<Rightarrow> store \<Rightarrow> store_outcome" where
  "Restore env sys io archive s =
     (case readArchive archive of
        Inl e \<Rightarrow> (Inl e, s)
      | Inr files \<Rightarrow>
          if files = [] then (Inl EmptyArchive, s)
          else if \<not> io_head io then (Inl HeadFailed, s)
          else case replaceConfigFiles io files (cs_tree s) of
            (False, t) \<Rightarrow> (Inl RestoreFailed, rollback io s (s\<lparr>cs_tree := t\<rparr>))
          | (True, t) \<Rightarrow>
              (case writeDirs io (snapshotDirs (cs_tree s)) t of
                 (False, t') \<Rightarrow> (Inl RestoreFailed, rollback io s (s\<lparr>cs_tree := t'\<rparr>))
               | (True, t') \<Rightarrow>
                   (case restored_checks env sys io t' of
                      Some e \<Rightarrow> (Inl e, rollback io s (s\<lparr>cs_tree := t'\<rparr>))
                    | None \<Rightarrow> CommitAll io (s\<lparr>cs_tree := t'\<rparr>))))"

section \<open>Settings and ledgers\<close>

definition settings_refs :: "go_env \<Rightarrow> gpm_settings \<Rightarrow> gpm_config \<Rightarrow> store_error option" where
  "settings_refs env st c =
     (let ing = ingress_ValidateRefs (gs_IngressDiscovery st) c;
          dk = docker_ValidateRefs (DockerDiscoveryResolved (gs_IngressDiscovery st) (gs_DockerDiscovery st)) c;
          adm = admin_ValidateRefs (gs_AdminAuth st) c
      in if ing \<noteq> [] then Some (SettingsRef ing)
         else if dk \<noteq> [] then Some (SettingsRef dk)
         else if adm \<noteq> [] then Some (SettingsRef adm)
         else case checkAdminEdge env c st of
           Some e \<Rightarrow> Some (EdgeConflict e)
         | None \<Rightarrow>
             if LiteralSecrets (settings_secrets st) \<noteq> [] then Some (LiteralSecret (LiteralSecrets (settings_secrets st))) else None)"

definition saveSettings :: "go_env \<Rightarrow> os \<Rightarrow> io \<Rightarrow> gpm_settings \<Rightarrow> store \<Rightarrow> store_outcome" where
  "saveSettings env sys io st s =
     (case validate_settings env sys st of
        Some f \<Rightarrow> (Inl (SettingsInvalid f), s)
      | None \<Rightarrow>
          (case loadLocked env sys (cs_tree s) of
             Inl e \<Rightarrow> (Inl e, s)
           | Inr (objs, _) \<Rightarrow>
               (case settings_refs env st (config_of objs) of
                  Some e \<Rightarrow> (Inl e, s)
                | None \<Rightarrow>
                    (case writeYAML io settingsFile (SettingsDoc st) (cs_tree s) of
                       None \<Rightarrow> (Inl (WriteFailed settingsFile), s)
                     | Some t \<Rightarrow> CommitAll io (s\<lparr>cs_tree := t\<rparr>)))))"

definition UpdateSettings :: "go_env \<Rightarrow> os \<Rightarrow> io \<Rightarrow> (gpm_settings \<Rightarrow> gpm_settings option) \<Rightarrow> store \<Rightarrow> store_outcome" where
  "UpdateSettings env sys io mutate s =
     (case loadLocked env sys (cs_tree s) of
        Inl e \<Rightarrow> (Inl e, s)
      | Inr (_, st) \<Rightarrow> (case mutate st of None \<Rightarrow> (Inl MutateFailed, s) | Some st' \<Rightarrow> saveSettings env sys io st' s))"

definition LoadDNSLedger :: "store \<Rightarrow> store_error + (dns_ledger \<times> string)" where
  "LoadDNSLedger s =
     (case map_of (cs_tree s) dnsLedgerFile of
        None \<Rightarrow> Inr (\<lparr>dl_Pihole = [], dl_Cloudflare = []\<rparr>, git_Head s)
      | Some (DnsLedgerDoc l) \<Rightarrow> (case validate_dns_ledger l of Some f \<Rightarrow> Inl (LedgerInvalid f) | None \<Rightarrow> Inr (l, git_Head s))
      | Some _ \<Rightarrow> Inl (LoadFailed dnsLedgerFile))"

definition save_ledger :: "io \<Rightarrow> verr \<Rightarrow> string \<Rightarrow> string \<Rightarrow> doc \<Rightarrow> store \<Rightarrow> store_outcome" where
  "save_ledger io invalid baseHead p d s =
     (case invalid of
        Some f \<Rightarrow> (Inl (LedgerInvalid f), s)
      | None \<Rightarrow>
          if baseHead \<noteq> [] \<and> \<not> io_head io then (Inl HeadFailed, s)
          else if baseHead \<noteq> [] \<and> git_Head s \<noteq> baseHead then (Inl LedgerStale, s)
          else (case writeYAML io p d (cs_tree s) of
                  None \<Rightarrow> (Inl (WriteFailed p), s)
                | Some t \<Rightarrow> CommitAll io (s\<lparr>cs_tree := t\<rparr>)))"

definition SaveDNSLedger :: "io \<Rightarrow> dns_ledger \<Rightarrow> string \<Rightarrow> store \<Rightarrow> store_outcome" where
  "SaveDNSLedger io l baseHead s = save_ledger io (validate_dns_ledger l) baseHead dnsLedgerFile (DnsLedgerDoc l) s"

definition LoadAccessListSourceLedger :: "(string \<Rightarrow> string) \<Rightarrow> (string \<Rightarrow> bool) \<Rightarrow> store \<Rightarrow> store_error + (list_ledger \<times> string)" where
  "LoadAccessListSourceLedger sha rfc3339 s =
     (case map_of (cs_tree s) accessListSourcesFile of
        None \<Rightarrow> Inr ([], git_Head s)
      | Some (ListLedgerDoc l) \<Rightarrow>
          (case validate_list_ledger sha rfc3339 l of Some f \<Rightarrow> Inl (LedgerInvalid f) | None \<Rightarrow> Inr (l, git_Head s))
      | Some _ \<Rightarrow> Inl (LoadFailed accessListSourcesFile))"

definition SaveAccessListSourceLedger ::
  "(string \<Rightarrow> string) \<Rightarrow> (string \<Rightarrow> bool) \<Rightarrow> io \<Rightarrow> list_ledger \<Rightarrow> string \<Rightarrow> store \<Rightarrow> store_outcome" where
  "SaveAccessListSourceLedger sha rfc3339 io l baseHead s =
     save_ledger io (validate_list_ledger sha rfc3339 l) baseHead accessListSourcesFile (ListLedgerDoc l) s"

section \<open>The compiled configuration\<close>

definition LoadCompiled :: "go_env \<Rightarrow> os \<Rightarrow> upstream \<Rightarrow> store \<Rightarrow> store_error + (gpm_config \<times> gpm_settings)" where
  "LoadCompiled env sys up s =
     (case loadLocked env sys (cs_tree s) of
        Inl e \<Rightarrow> Inl e
      | Inr (objs, st) \<Rightarrow>
          (let c = config_of objs; name = AdminEdgeHostname env (gs_ExternalBaseURL st) in
           if edge_Enabled (gs_AdminEdge st) \<and> checkAdminEdge env c st = None \<and> name \<noteq> [] \<and> u_Port up > 0
           then Inr (c\<lparr>c_ProxyHosts := c_ProxyHosts c @ [edge_Host (gs_AdminEdge st) name up]\<rparr>, st)
           else Inr (c, st)))"

end
