(* ===== verification/File_Tree.thy ===== *)
theory File_Tree
  imports Config_Store
begin

text \<open>
  The working tree as a finite map from paths to documents, and what loading reads from it.

  In a named tree every object stands in the file its kind and name give; files that decode to nothing may be anywhere but in
  the retired directory. A named tree that loads is well-formed: what does not decode is not among the files that are read. For such a tree, loading
  returns exactly the objects of the tree; replacing, adding or removing a file corresponds to \<open>withObject\<close>
  and \<open>withoutObject\<close> on the loaded list; and the configuration the store validated before a write is, up to
  order and times, the one a later load reads.
\<close>

section \<open>The interface of a file tree\<close>

locale file_tree =
  fixes ok :: "'t \<Rightarrow> bool"
    and look :: "'t \<Rightarrow> 'p \<Rightarrow> 'd option"
    and put :: "'t \<Rightarrow> 'p \<Rightarrow> 'd \<Rightarrow> 't"
    and del :: "'t \<Rightarrow> 'p \<Rightarrow> 't"
  assumes ok_put: "ok t \<Longrightarrow> ok (put t p d)"
    and ok_del: "ok t \<Longrightarrow> ok (del t p)"
    and look_put: "ok t \<Longrightarrow> look (put t p d) = (look t)(p := Some d)"
    and look_del: "ok t \<Longrightarrow> look (del t p) = (look t)(p := None)"
    and look_ext: "ok t \<Longrightarrow> ok t' \<Longrightarrow> look t = look t' \<Longrightarrow> t = t'"
begin

text \<open>Writing back what a snapshot holds: a batch that touched only the paths of the snapshot is undone.\<close>

lemma undo_look:
  assumes "ok t"
  shows "ok (foldl (\<lambda>t p. case look t0 p of Some d \<Rightarrow> put t p d | None \<Rightarrow> del t p) t ps) \<and>
    look (foldl (\<lambda>t p. case look t0 p of Some d \<Rightarrow> put t p d | None \<Rightarrow> del t p) t ps) q =
      (if q \<in> set ps then look t0 q else look t q)"
  using assms by (induction ps arbitrary: t) (auto simp: ok_put ok_del look_put look_del split: option.split)

lemma undo_exact:
  assumes "ok t0" "ok t" "\<And>p. p \<notin> set ps \<Longrightarrow> look t p = look t0 p"
  shows "foldl (\<lambda>t p. case look t0 p of Some d \<Rightarrow> put t p d | None \<Rightarrow> del t p) t ps = t0"
  using undo_look [OF assms(2), of t0 ps] assms by (intro look_ext) auto

lemma put_same: "ok t \<Longrightarrow> look t p = Some d \<Longrightarrow> put t p d = t"
  by (rule look_ext) (auto simp: ok_put look_put)

lemma puts_look:
  assumes "ok t"
  shows "ok (foldl (\<lambda>t (p, d). put t p d) t ws) \<and>
    look (foldl (\<lambda>t (p, d). put t p d) t ws) q = (case map_of (rev ws) q of Some d \<Rightarrow> Some d | None \<Rightarrow> look t q)"
  using assms
proof (induction ws rule: rev_induct)
  case (snoc w ws)
  then show ?case by (cases w) (auto simp: ok_put look_put split: option.split)
qed simp

end

definition tree_ok :: "tree \<Rightarrow> bool" where
  "tree_ok t \<longleftrightarrow> sorted_wrt (<) (map fst t)"

lemma tree_ok_distinct: "tree_ok t \<Longrightarrow> distinct (map fst t)"
  by (simp add: tree_ok_def strict_sorted_iff)

lemma tree_put_set: "tree_ok t \<Longrightarrow> set (tree_put t p d) = insert (p, d) {e \<in> set t. fst e \<noteq> p}"
  by (induction t p d rule: tree_put.induct) (auto simp: tree_ok_def)

lemma tree_put_ok: "tree_ok t \<Longrightarrow> tree_ok (tree_put t p d)"
proof (induction t p d rule: tree_put.induct)
  case (2 q e t p d)
  have ok: "tree_ok t" and q: "\<forall>y \<in> set t. q < fst y" using 2(2) by (auto simp: tree_ok_def)
  have "\<forall>y \<in> set (tree_put t p d). q < fst y" if "q < p" using q that by (auto simp: tree_put_set [OF ok])
  with 2 ok q show ?case by (auto simp: tree_ok_def)
qed (simp add: tree_ok_def)

lemma tree_del_set: "set (tree_del t p) = {e \<in> set t. fst e \<noteq> p}"
  by (auto simp: tree_del_def)

lemma tree_filter_ok: "tree_ok t \<Longrightarrow> tree_ok (filter P t)"
  unfolding tree_ok_def by (induction t) auto

lemma tree_look: "tree_ok t \<Longrightarrow> map_of t p = Some d \<longleftrightarrow> (p, d) \<in> set t"
  by (simp add: tree_ok_distinct)

lemma map_eqI: "(\<And>k v. f k = Some v \<longleftrightarrow> g k = Some v) \<Longrightarrow> f = g"
  by (rule ext) (metis not_None_eq)

lemma tree_ext:
  assumes "tree_ok t" "tree_ok t'" "map_of t = map_of t'"
  shows "t = t'"
proof (rule map_sorted_distinct_set_unique [of fst])
  show "set t = set t'"
  proof (rule set_eqI)
    fix e
    show "e \<in> set t \<longleftrightarrow> e \<in> set t'"
      using tree_look [OF assms(1), of "fst e" "snd e"] tree_look [OF assms(2), of "fst e" "snd e"] assms(3) by simp
  qed
  have "inj_on fst (set t)" using tree_ok_distinct [OF assms(1)] by (simp add: distinct_map)
  with \<open>set t = set t'\<close> show "inj_on fst (set t \<union> set t')" by simp
qed (use assms in \<open>auto simp: tree_ok_def strict_sorted_iff\<close>)

interpretation ft: file_tree tree_ok map_of tree_put tree_del
proof
  fix t :: tree and p d
  assume ok: "tree_ok t"
  show "tree_ok (tree_put t p d)" by (rule tree_put_ok [OF ok])
  show del: "tree_ok (tree_del t p)" unfolding tree_del_def by (rule tree_filter_ok [OF ok])
  show "map_of (tree_put t p d) = (map_of t)(p := Some d)"
    by (rule map_eqI) (use tree_look [OF tree_put_ok [OF ok]] tree_look [OF ok] in \<open>auto simp: tree_put_set [OF ok]\<close>)
  show "map_of (tree_del t p) = (map_of t)(p := None)"
    by (rule map_eqI) (use tree_look [OF del] tree_look [OF ok] in \<open>auto simp: tree_del_set\<close>)
qed (rule tree_ext)

section \<open>Paths of objects\<close>

lemma kind_in: "(Kind x, dir_of (Kind x)) \<in> set kindDir"
  by (cases x) (simp_all add: dir_of_def kindDir_def)

lemma kindDir_distinct: "distinct (map fst kindDir)" "distinct (map snd kindDir)"
  by code_simp+

lemma kindDir_slash: "(k, d) \<in> set kindDir \<Longrightarrow> CHR ''/'' \<notin> set d"
  by (auto simp: kindDir_def)

lemma dir_of_in: "(k, d) \<in> set kindDir \<Longrightarrow> dir_of k = d"
  using kindDir_distinct(1) by (simp add: dir_of_def)

lemma dir_of_slash: "CHR ''/'' \<notin> set (dir_of k)"
proof (cases "map_of kindDir k")
  case (Some d)
  then show ?thesis using kindDir_slash map_of_SomeD [OF Some] by (simp add: dir_of_def)
qed (simp add: dir_of_def)

lemma dir_inj:
  assumes "(k, d) \<in> set kindDir" "(k', d) \<in> set kindDir"
  shows "k = k'"
  using assms kindDir_distinct(2) by (metis distinct_map eq_key_imp_eq_value inj_onD prod.inject snd_conv)

lemma slash_split:
  assumes "a @ CHR ''/'' # r = b @ CHR ''/'' # q" "CHR ''/'' \<notin> set a" "CHR ''/'' \<notin> set b"
  shows "a = b \<and> r = q"
proof -
  have t: "takeWhile ((\<noteq>) (CHR ''/'')) (c @ CHR ''/'' # z) = c" if "CHR ''/'' \<notin> set c" for c z
    using that by (induction c) auto
  have "a = b" using t [OF assms(2), of r] t [OF assms(3), of q] assms(1) by metis
  with assms(1) show ?thesis by simp
qed

lemma name_no_slash:
  assumes "ValidateName n = None"
  shows "CHR ''/'' \<notin> set n"
proof -
  have "\<not> name_char (CHR ''/'')" by code_simp
  moreover have "list_all name_char n"
    using assms by (simp add: ValidateName_def label_like_def check_def split: if_splits)
  ultimately show ?thesis by (auto simp: list_all_iff)
qed

lemma obj_path_slash: "obj_path k n = dir_of k @ CHR ''/'' # (n @ ''.yaml'')"
  by (simp add: obj_path_def)

lemma obj_path_inj:
  assumes "obj_path (Kind x) n = obj_path (Kind y) m"
  shows "Kind x = Kind y \<and> n = m"
proof -
  have "dir_of (Kind x) = dir_of (Kind y) \<and> n @ ''.yaml'' = m @ ''.yaml''"
    using assms unfolding obj_path_slash by (rule slash_split) (rule dir_of_slash)+
  then show ?thesis using dir_inj [OF kind_in [of x]] kind_in [of y] by simp
qed

lemma in_dir_obj:
  assumes "CHR ''/'' \<notin> set d" "ValidateName n = None"
  shows "in_dir d (obj_path k n) \<longleftrightarrow> d = dir_of k"
proof
  assume "in_dir d (obj_path k n)"
  then obtain z where "dir_of k @ CHR ''/'' # (n @ ''.yaml'') = d @ CHR ''/'' # z"
    by (auto simp: in_dir_def obj_path_slash prefix_def)
  from slash_split [OF this dir_of_slash assms(1)] show "d = dir_of k" by simp
next
  assume "d = dir_of k"
  then show "in_dir d (obj_path k n)"
    using name_no_slash [OF assms(2)] by (simp add: in_dir_def obj_path_slash prefix_def suffix_def)
qed

lemma in_dir_slash: "CHR ''/'' \<notin> set p \<Longrightarrow> \<not> in_dir d p"
  by (auto simp: in_dir_def prefix_def)

section \<open>Trees the store wrote\<close>

fun entry_named :: "string \<times> doc \<Rightarrow> bool" where
  "entry_named (p, ObjDoc x _) \<longleftrightarrow> p = obj_path (Kind x) (obj_Name x) \<and> CHR ''/'' \<notin> set (obj_Name x)"
| "entry_named (p, SettingsDoc _) \<longleftrightarrow> p = settingsFile"
| "entry_named (p, DnsLedgerDoc _) \<longleftrightarrow> p = dnsLedgerFile"
| "entry_named (p, ListLedgerDoc _) \<longleftrightarrow> p = accessListSourcesFile"
| "entry_named (p, BadDoc) \<longleftrightarrow> \<not> in_dir ''dead-hosts'' p"

fun entry_wf :: "string \<times> doc \<Rightarrow> bool" where
  "entry_wf (p, ObjDoc x _) \<longleftrightarrow> p = obj_path (Kind x) (obj_Name x) \<and> ValidateName (obj_Name x) = None"
| "entry_wf (p, SettingsDoc _) \<longleftrightarrow> p = settingsFile"
| "entry_wf (p, DnsLedgerDoc _) \<longleftrightarrow> p = dnsLedgerFile"
| "entry_wf (p, ListLedgerDoc _) \<longleftrightarrow> p = accessListSourcesFile"
| "entry_wf (p, BadDoc) \<longleftrightarrow> p \<noteq> settingsFile \<and> \<not> in_dir ''dead-hosts'' p \<and> list_all (\<lambda>(_, d). \<not> in_dir d p) kindDir"

lemma wf_named: "entry_wf e \<Longrightarrow> entry_named e"
  by (cases e rule: entry_wf.cases) (auto dest: name_no_slash)

definition tree_wf :: "tree \<Rightarrow> bool" where
  "tree_wf t \<longleftrightarrow> tree_ok t \<and> list_all entry_wf t"

definition tree_named :: "tree \<Rightarrow> bool" where
  "tree_named t \<longleftrightarrow> tree_ok t \<and> list_all entry_named t"

fun tree_objs :: "tree \<Rightarrow> object list" where
  "tree_objs [] = []"
| "tree_objs ((p, ObjDoc x u) # t) = x # tree_objs t"
| "tree_objs ((p, _) # t) = tree_objs t"

definition obj_key :: "object \<Rightarrow> string \<times> string" where
  "obj_key x = (Kind x, obj_Name x)"

lemma top_files: "CHR ''/'' \<notin> set settingsFile" "CHR ''/'' \<notin> set dnsLedgerFile" "CHR ''/'' \<notin> set accessListSourcesFile"
  by (simp_all add: settingsFile_def dnsLedgerFile_def accessListSourcesFile_def)

lemma tree_objs_set: "x \<in> set (tree_objs t) \<longleftrightarrow> (\<exists>p u. (p, ObjDoc x u) \<in> set t)"
  by (induction t rule: tree_objs.induct) auto

lemma tree_objs_wf:
  "list_all entry_wf t \<Longrightarrow> x \<in> set (tree_objs t) \<longleftrightarrow> (\<exists>u. (obj_path (Kind x) (obj_Name x), ObjDoc x u) \<in> set t)"
  by (fastforce simp: tree_objs_set list_all_iff)

lemma tree_wf_put: "tree_wf t \<Longrightarrow> entry_wf (p, d) \<Longrightarrow> tree_wf (tree_put t p d)"
  by (auto simp: tree_wf_def tree_put_ok tree_put_set list_all_iff)

lemma tree_wf_filter: "tree_wf t \<Longrightarrow> tree_wf (filter P t)"
  by (simp add: tree_wf_def tree_filter_ok list_all_iff)

lemma tree_wf_del: "tree_wf t \<Longrightarrow> tree_wf (tree_del t p)"
  unfolding tree_del_def by (rule tree_wf_filter)

lemma tree_wf_puts: "tree_wf t \<Longrightarrow> list_all entry_wf ws \<Longrightarrow> tree_wf (foldl (\<lambda>t (p, d). tree_put t p d) t ws)"
  by (induction ws arbitrary: t) (auto simp: tree_wf_put)

lemma tree_keys:
  assumes "tree_wf t"
  shows "distinct (map obj_key (tree_objs t))"
proof -
  have "distinct (map fst t)" "list_all entry_wf t" using assms by (auto simp: tree_wf_def tree_ok_distinct)
  then show ?thesis
  proof (induction t rule: tree_objs.induct)
    case (2 p x u t)
    have "obj_key y \<noteq> obj_key x" if "y \<in> set (tree_objs t)" for y
    proof
      assume "obj_key y = obj_key x"
      moreover have "\<exists>u. (obj_path (Kind y) (obj_Name y), ObjDoc y u) \<in> set t" using that 2(3) tree_objs_wf by auto
      ultimately have "p \<in> fst ` set t" using 2(3) by (force simp: obj_key_def)
      then show False using 2(2) by simp
    qed
    then have "obj_key x \<notin> obj_key ` set (tree_objs t)" by (metis imageE)
    then show ?case using 2 by simp
  qed simp_all
qed

section \<open>Loading a tree\<close>

definition loaded :: "tree \<Rightarrow> object list" where
  "loaded t = concat (map (\<lambda>(k, _). filter (\<lambda>x. Kind x = k) (tree_objs t)) kindDir)"

lemma in_dir_kind:
  assumes "entry_wf (p, ObjDoc x u)" "(k, d) \<in> set kindDir"
  shows "in_dir d p \<longleftrightarrow> Kind x = k"
proof -
  have "in_dir d p \<longleftrightarrow> d = dir_of (Kind x)"
    using assms(1) in_dir_obj [OF kindDir_slash [OF assms(2)], of "obj_Name x" "Kind x"] by simp
  also have "\<dots> \<longleftrightarrow> Kind x = k" using dir_of_in [OF assms(2)] dir_inj [OF kind_in [of x], of k] assms(2) by blast
  finally show ?thesis .
qed

lemma dir_docs_Cons: "dir_docs ((p, e) # t) d = (if in_dir d p then e # dir_docs t d else dir_docs t d)"
  by (simp add: dir_docs_def)

lemma decode_tree:
  assumes "list_all entry_wf t" "(k, d) \<in> set kindDir"
  shows "decode_all k (dir_docs t d) = Some (filter (\<lambda>x. Kind x = k) (tree_objs t))"
  using assms(1)
proof (induction t)
  case (Cons e t)
  obtain p y where e: "e = (p, y)" by (cases e)
  have w: "entry_wf (p, y)" using Cons(2) e by simp
  have IH: "decode_all k (dir_docs t d) = Some (filter (\<lambda>x. Kind x = k) (tree_objs t))" using Cons by simp
  show ?case
  proof (cases y)
    case (ObjDoc x u)
    then show ?thesis using in_dir_kind [OF w [unfolded ObjDoc] assms(2)] IH by (simp add: e dir_docs_Cons)
  next
    case BadDoc
    then show ?thesis using w IH assms(2) by (fastforce simp: e dir_docs_Cons list_all_iff)
  qed (use w IH in_dir_slash [OF top_files(1)] in_dir_slash [OF top_files(2)] in_dir_slash [OF top_files(3)] in \<open>simp_all add: e dir_docs_Cons\<close>)
qed (simp add: dir_docs_def)

lemma load_kinds_tree:
  assumes "list_all entry_wf t" "set ks \<subseteq> set kindDir"
  shows "load_kinds t ks = Inr (concat (map (\<lambda>(k, _). filter (\<lambda>x. Kind x = k) (tree_objs t)) ks))"
  using assms(2) by (induction ks) (auto simp: loadDir_def decode_tree [OF assms(1)])

lemma no_legacy:
  assumes "list_all entry_wf t"
  shows "checkLegacyKindDirs t"
proof -
  have "\<not> in_dir ''dead-hosts'' p" if "entry_wf (p, d)" for p d
  proof (cases d)
    case (ObjDoc x u)
    have "dir_of (Kind x) \<noteq> ''dead-hosts''" using kind_in [of x] by (auto simp: kindDir_def)
    then show ?thesis using that ObjDoc in_dir_obj [of "''dead-hosts''" "obj_Name x" "Kind x"] by auto
  qed (use that top_files in \<open>auto simp: in_dir_slash\<close>)
  then have "filter (\<lambda>(p, _). in_dir ''dead-hosts'' p) t = []" using assms by (auto simp: filter_empty_conv list_all_iff)
  then show ?thesis by (simp add: checkLegacyKindDirs_def countYAML_def dir_docs_def)
qed

lemma mset_partition:
  "distinct ks \<Longrightarrow> mset (concat (map (\<lambda>k. filter (\<lambda>x. f x = k) xs) ks)) = filter_mset (\<lambda>x. f x \<in> set ks) (mset xs)"
  by (induction ks) (auto simp: mset_filter intro!: multiset_eqI)

lemma mset_loaded: "mset (loaded t) = mset (tree_objs t)"
proof -
  have "loaded t = concat (map (\<lambda>k. filter (\<lambda>x. Kind x = k) (tree_objs t)) (map fst kindDir))"
    by (simp add: loaded_def case_prod_unfold comp_def)
  moreover have "Kind x \<in> set (map fst kindDir)" for x using kind_in [of x] by force
  ultimately show ?thesis using mset_partition [OF kindDir_distinct(1), of Kind "tree_objs t"] by simp
qed

lemma loadLocked_tree:
  assumes "tree_wf t"
  shows "loadLocked env sys t = Inr (objs, st) \<longleftrightarrow>
    objs = loaded t \<and> load_settings t = Inr st \<and> Validate env (config_of objs) = [] \<and> validate_settings env sys st = None"
proof -
  have "load_kinds t kindDir = Inr (loaded t)" using load_kinds_tree [OF _ subset_refl] assms by (simp add: tree_wf_def loaded_def)
  then show ?thesis
    using no_legacy [of t] assms by (auto simp: loadLocked_def tree_wf_def split: sum.split option.split if_splits)
qed

section \<open>Configurations up to order and times\<close>

abbreviation erase :: "object \<Rightarrow> object" where "erase \<equiv> set_times (0, 0)"

lemma erase_simps [simp]: "Kind (set_times ts x) = Kind x" "obj_Name (set_times ts x) = obj_Name x"
  "set_times ts (set_times ts' x) = set_times ts x"
  by (cases x, simp_all)+

lemma map_filter_map: "List.map_filter f (map g xs) = List.map_filter (\<lambda>x. f (g x)) xs"
  by (induction xs) (auto simp: List.map_filter_simps split: option.split)

lemma map_filter_mapped: "map h (List.map_filter f xs) = List.map_filter (\<lambda>x. map_option h (f x)) xs"
  by (induction xs) (auto simp: List.map_filter_simps split: option.split)

lemma mset_map_filter: "mset (List.map_filter f xs) = image_mset (\<lambda>x. the (f x)) (filter_mset (\<lambda>x. f x \<noteq> None) (mset xs))"
  by (induction xs) (auto simp: List.map_filter_simps split: option.split)

lemma same_config_trans: "same_contents a b \<Longrightarrow> same_contents b c \<Longrightarrow> same_contents a c"
  by (simp add: same_contents_def)

lemma same_config_mset: "mset xs = mset ys \<Longrightarrow> same_contents (config_of xs) (config_of ys)"
  by (simp add: same_contents_def config_of_def mset_map_filter)

lemma same_config_erased: "same_contents (config_of xs) (config_of (map erase xs))"
proof -
  have f: "List.map_filter f xs = List.map_filter f (map erase xs)" if "\<And>x. f (erase x) = f x" for f :: "object \<Rightarrow> 'x option"
    unfolding map_filter_map that ..
  have h: "map untimed (List.map_filter (\<lambda>x. case x of OProxyHost c \<Rightarrow> Some c | _ \<Rightarrow> None) xs) =
      map untimed (List.map_filter (\<lambda>x. case x of OProxyHost c \<Rightarrow> Some c | _ \<Rightarrow> None) (map erase xs))"
    unfolding map_filter_mapped map_filter_map
    by (rule arg_cong [where f = "\<lambda>g. List.map_filter g xs"]) (rule ext, simp add: untimed_def split: object.split)
  have g: "List.map_filter (f \<circ> erase) xs = List.map_filter f xs" if "f \<circ> erase = f" for f :: "object \<Rightarrow> 'x option"
    using that by simp
  show ?thesis unfolding same_contents_def config_of_def using h
    by (simp add: map_filter_map del: map_map) (intro conjI arg_cong [where f = "mset"] arg_cong [where f = "\<lambda>g. List.map_filter g xs"]; rule ext; simp split: object.split)
qed

lemma same_config_erase:
  assumes "mset (map erase xs) = mset (map erase ys)"
  shows "same_contents (config_of xs) (config_of ys)"
  using same_config_trans [OF same_config_erased same_config_trans [OF same_config_mset [OF assms] same_config_sym [OF same_config_erased]]] .

section \<open>The checks see the same configuration\<close>

lemma validate_object_name: "validate_object env x = None \<Longrightarrow> ValidateName (obj_Name x) = None"
  by (cases x) (simp_all add: validate_proxy_host_def validate_redirect_host_def validate_stream_host_def validate_parked_host_def
    validate_certificate_def validate_client_ca_def validate_dns_provider_def validate_identity_provider_def
    validate_upstream_group_def validate_access_list_def validate_middleware_def validate_api_token_def)

lemma check_objects_valid: "check_objects kind nm v refs seen xs = [] \<Longrightarrow> y \<in> set xs \<Longrightarrow> v y = None"
  by (simp add: check_objects_Nil list_all_iff)

lemma Validate_members:
  assumes "Validate env c = []"
  shows "y1 \<in> set (c_Certificates c) \<Longrightarrow> validate_certificate y1 = None"
    and "y2 \<in> set (c_ClientCAs c) \<Longrightarrow> validate_client_ca (env_key env) y2 = None"
    and "y3 \<in> set (c_DNSProviders c) \<Longrightarrow> validate_dns_provider (env_outbound env) (env_placeholder env) y3 = None"
    and "y4 \<in> set (c_Middlewares c) \<Longrightarrow> validate_middleware (env_url env) (env_regexp env) y4 = None"
    and "y5 \<in> set (c_AccessLists c) \<Longrightarrow> (case y5 of (a, srcs) \<Rightarrow> validate_access_list (env_url env) srcs a) = None"
    and "y6 \<in> set (c_IdentityProviders c) \<Longrightarrow> validate_identity_provider (env_url env) y6 = None"
    and "y7 \<in> set (c_UpstreamGroups c) \<Longrightarrow> validate_upstream_group y7 = None"
    and "y8 \<in> set (c_APITokens c) \<Longrightarrow> validate_api_token y8 = None"
    and "y9 \<in> set (c_ProxyHosts c) \<Longrightarrow> validate_proxy_host (env_template env) y9 = None"
    and "y10 \<in> set (c_RedirectHosts c) \<Longrightarrow> validate_redirect_host y10 = None"
    and "y11 \<in> set (c_ParkedHosts c) \<Longrightarrow> validate_parked_host y11 = None"
    and "y12 \<in> set (c_StreamHosts c) \<Longrightarrow> validate_stream_host y12 = None"
proof -
  note p = Validate_parts(1,2) [OF assms, unfolded object_errors_def host_errors_def Let_def append_is_Nil_conv]
  show "y1 \<in> set (c_Certificates c) \<Longrightarrow> validate_certificate y1 = None" by (rule check_objects_valid [OF p(1) [THEN conjunct1]])
  show "y2 \<in> set (c_ClientCAs c) \<Longrightarrow> validate_client_ca (env_key env) y2 = None" by (rule check_objects_valid [OF p(1) [THEN conjunct2, THEN conjunct1]])
  show "y3 \<in> set (c_DNSProviders c) \<Longrightarrow> validate_dns_provider (env_outbound env) (env_placeholder env) y3 = None" by (rule check_objects_valid [OF p(1) [THEN conjunct2, THEN conjunct2, THEN conjunct1]])
  show "y4 \<in> set (c_Middlewares c) \<Longrightarrow> validate_middleware (env_url env) (env_regexp env) y4 = None" by (rule check_objects_valid [OF p(1) [THEN conjunct2, THEN conjunct2, THEN conjunct2, THEN conjunct1]])
  show "y5 \<in> set (c_AccessLists c) \<Longrightarrow> (case y5 of (a, srcs) \<Rightarrow> validate_access_list (env_url env) srcs a) = None" by (rule check_objects_valid [OF p(1) [THEN conjunct2, THEN conjunct2, THEN conjunct2, THEN conjunct2, THEN conjunct1]])
  show "y6 \<in> set (c_IdentityProviders c) \<Longrightarrow> validate_identity_provider (env_url env) y6 = None" by (rule check_objects_valid [OF p(1) [THEN conjunct2, THEN conjunct2, THEN conjunct2, THEN conjunct2, THEN conjunct2, THEN conjunct1]])
  show "y7 \<in> set (c_UpstreamGroups c) \<Longrightarrow> validate_upstream_group y7 = None" by (rule check_objects_valid [OF p(1) [THEN conjunct2, THEN conjunct2, THEN conjunct2, THEN conjunct2, THEN conjunct2, THEN conjunct2, THEN conjunct1]])
  show "y8 \<in> set (c_APITokens c) \<Longrightarrow> validate_api_token y8 = None" by (rule check_objects_valid [OF p(1) [THEN conjunct2, THEN conjunct2, THEN conjunct2, THEN conjunct2, THEN conjunct2, THEN conjunct2, THEN conjunct2, THEN conjunct1]])
  show "y9 \<in> set (c_ProxyHosts c) \<Longrightarrow> validate_proxy_host (env_template env) y9 = None" by (rule check_objects_valid [OF p(2) [THEN conjunct1]])
  show "y10 \<in> set (c_RedirectHosts c) \<Longrightarrow> validate_redirect_host y10 = None" by (rule check_objects_valid [OF p(2) [THEN conjunct2, THEN conjunct1]])
  show "y11 \<in> set (c_ParkedHosts c) \<Longrightarrow> validate_parked_host y11 = None" by (rule check_objects_valid [OF p(2) [THEN conjunct2, THEN conjunct2, THEN conjunct1]])
  show "y12 \<in> set (c_StreamHosts c) \<Longrightarrow> validate_stream_host y12 = None" by (rule check_objects_valid [OF p(2) [THEN conjunct2, THEN conjunct2, THEN conjunct2]])
qed

lemma map_filter_mem: "x \<in> set xs \<Longrightarrow> f x = Some y \<Longrightarrow> y \<in> set (List.map_filter f xs)"
  by (force simp: List.map_filter_def)

lemma valid_objects:
  assumes "Validate env (config_of xs) = []" "x \<in> set xs"
  shows "validate_object env x = None"
proof -
  note v = Validate_members [OF assms(1), unfolded config_of_def gpm_config.simps] and m = map_filter_mem [OF assms(2)]
  show ?thesis
  proof (cases x)
    case (OProxyHost h) then show ?thesis using v(9) [of h, OF m] by simp
  next
    case (ORedirectHost ts h) then show ?thesis using v(10) [of h, OF m] by simp
  next
    case (OStreamHost ts h) then show ?thesis using v(12) [of h, OF m] by simp
  next
    case (OParkedHost ts h) then show ?thesis using v(11) [of h, OF m] by simp
  next
    case (OCertificate ts c) then show ?thesis using v(1) [of c, OF m] by simp
  next
    case (OClientCA ts c) then show ?thesis using v(2) [of c, OF m] by simp
  next
    case (ODNSProvider ts c) then show ?thesis using v(3) [of c, OF m] by simp
  next
    case (OIdentityProvider ts c) then show ?thesis using v(6) [of c, OF m] by simp
  next
    case (OUpstreamGroup ts g) then show ?thesis using v(7) [of g, OF m] by simp
  next
    case (OAccessList ts a) then show ?thesis using v(5) [of a, OF m] by (simp add: case_prod_beta)
  next
    case (OMiddleware ts w) then show ?thesis using v(4) [of w, OF m] by simp
  next
    case (OAPIToken ts t) then show ?thesis using v(8) [of t, OF m] by simp
  qed
qed

lemma same_config_edge:
  assumes "same_contents c c'" "checkAdminEdge env c st = None"
  shows "checkAdminEdge env c' st = None"
proof -
  note m = same_configD [OF assms(1)]
  have p: "f ` set (c_ProxyHosts c) = f ` set (c_ProxyHosts c')" if "\<And>h. f (untimed h) = f h" for f :: "_ \<Rightarrow> settings_error option"
  proof -
    have "f ` set hs = f ` set (map untimed hs)" for hs using that by (simp add: image_image)
    then show ?thesis using mset_eq_setD [OF m(9)] by metis
  qed
  let ?f = "\<lambda>h. if ph_Name h = AdminEdgeHostName then Some (EdgeNameReserved (ph_Name h))
      else edge_host_err (AdminEdgeHostname env (gs_ExternalBaseURL st)) ''proxy host'' (ph_Name h) (ph_Disabled h) (ph_Domains h)"
  have q: "?f ` set (c_ProxyHosts c) = ?f ` set (c_ProxyHosts c')" by (rule p) simp
  note s = mset_eq_setD [OF m(4)] mset_eq_setD [OF m(5)] mset_eq_setD [OF m(10)] mset_eq_setD [OF m(11)]
  show ?thesis
  proof (cases "edge_Enabled (gs_AdminEdge st)")
    case True
    note e = eqTrueI [OF True] not_True_eq_False if_False
    show ?thesis
      using assms(2)
      unfolding checkAdminEdge_def edge_ValidateRefs_def Let_def e first_problem_None list_names_def set_append set_map q s .
  qed (simp add: checkAdminEdge_def edge_ValidateRefs_def)
qed

lemma same_config_literals:
  assumes "same_contents c c'"
  shows "LiteralSecrets (config_secrets c) = [] \<longleftrightarrow> LiteralSecrets (config_secrets c') = []"
  unfolding no_literal_secrets
    mset_eq_setD [OF same_configD(1) [OF assms]] mset_eq_setD [OF same_configD(2) [OF assms]] mset_eq_setD [OF same_configD(3) [OF assms]]
    mset_eq_setD [OF same_configD(4) [OF assms]] mset_eq_setD [OF same_configD(6) [OF assms]] ..

section \<open>The merged list and the written tree\<close>

text \<open>A list of objects stands for a tree when it has the same objects up to times, each once.\<close>

definition stands_for :: "object list \<Rightarrow> tree \<Rightarrow> bool" where
  "stands_for xs t \<longleftrightarrow> distinct (map obj_key xs) \<and> erase ` set xs = erase ` set (tree_objs t)"

lemma obj_key_times [simp]: "obj_key (set_times ts x) = obj_key x"
  by (simp add: obj_key_def)

lemma same_object_key: "same_object k n x \<longleftrightarrow> obj_key x = (k, n)"
  by (simp add: same_object_def obj_key_def)

lemma distinct_erased: "distinct (map obj_key xs) \<Longrightarrow> distinct (map erase xs)"
  by (rule distinct_map [THEN iffD1, THEN conjunct1, of obj_key]) (simp add: comp_def)

lemma stands_for_config:
  assumes "stands_for xs t" "tree_wf t"
  shows "same_contents (config_of xs) (config_of (tree_objs t))"
proof (rule same_config_erase)
  have "distinct (map erase xs)" "distinct (map erase (tree_objs t))"
    using assms tree_keys by (auto simp: stands_for_def intro: distinct_erased)
  moreover have "set (map erase xs) = set (map erase (tree_objs t))" using assms(1) by (simp add: stands_for_def)
  ultimately show "mset (map erase xs) = mset (map erase (tree_objs t))" using set_eq_iff_mset_eq_distinct by blast
qed

lemma stands_for_loaded: "tree_wf t \<Longrightarrow> stands_for (loaded t) t"
proof -
  assume "tree_wf t"
  have "mset (map obj_key (loaded t)) = mset (map obj_key (tree_objs t))" by (simp add: mset_loaded)
  then have "distinct (map obj_key (loaded t))" using tree_keys [OF \<open>tree_wf t\<close>] mset_eq_imp_distinct_iff by blast
  then show ?thesis using mset_eq_setD [OF mset_loaded, of t] by (simp add: stands_for_def)
qed

lemma withObject_set:
  assumes "distinct (map obj_key xs)"
  shows "set (withObject xs x) = insert x {y \<in> set xs. obj_key y \<noteq> obj_key x} \<and> distinct (map obj_key (withObject xs x)) \<and>
    set (map obj_key (withObject xs x)) = insert (obj_key x) (set (map obj_key xs))"
  using assms
proof (induction xs)
  case (Cons y ys)
  then show ?case by (auto simp: same_object_key simp flip: obj_key_def) (metis image_eqI)
qed simp

lemma tree_objs_put:
  assumes "tree_wf t" "Kind x' = Kind x" "obj_Name x' = obj_Name x" "ValidateName (obj_Name x) = None"
  shows "tree_wf (tree_put t (obj_path (Kind x) (obj_Name x)) (ObjDoc x' u))"
    and "set (tree_objs (tree_put t (obj_path (Kind x) (obj_Name x)) (ObjDoc x' u))) = insert x' {y \<in> set (tree_objs t). obj_key y \<noteq> obj_key x}"
proof -
  let ?p = "obj_path (Kind x) (obj_Name x)" and ?t = "tree_put t (obj_path (Kind x) (obj_Name x)) (ObjDoc x' u)"
  show wf: "tree_wf ?t" using tree_wf_put [OF assms(1), of ?p "ObjDoc x' u"] assms(2-4) by simp
  have ok: "tree_ok t" and w: "list_all entry_wf t" using assms(1) by (simp_all add: tree_wf_def)
  have p: "obj_path (Kind y) (obj_Name y) = ?p \<longleftrightarrow> obj_key y = obj_key x" for y
    using obj_path_inj [of y "obj_Name y" x "obj_Name x"] by (auto simp: obj_key_def)
  show "set (tree_objs ?t) = insert x' {y \<in> set (tree_objs t). obj_key y \<noteq> obj_key x}"
  proof (rule set_eqI)
    fix y
    have "y \<in> set (tree_objs ?t) \<longleftrightarrow> (\<exists>v. (obj_path (Kind y) (obj_Name y), ObjDoc y v) \<in> set ?t)"
      using wf by (intro tree_objs_wf) (simp add: tree_wf_def)
    then show "y \<in> set (tree_objs ?t) \<longleftrightarrow> y \<in> insert x' {y \<in> set (tree_objs t). obj_key y \<noteq> obj_key x}"
      using p [of y] assms(2,3) tree_objs_wf [OF w, of y] by (auto simp: tree_put_set [OF ok])
  qed
qed

lemma tree_objs_del:
  assumes "tree_wf t" "map_of kindDir k \<noteq> None"
  shows "set (tree_objs (tree_del t (obj_path k n))) = {y \<in> set (tree_objs t). obj_key y \<noteq> (k, n)}"
proof (rule set_eqI)
  fix y
  let ?t = "tree_del t (obj_path k n)"
  have wf: "list_all entry_wf ?t" using tree_wf_del [OF assms(1)] by (simp add: tree_wf_def)
  obtain d where d: "(k, d) \<in> set kindDir" "dir_of k = d" using assms(2) by (auto dest: map_of_SomeD simp: dir_of_in)
  have p: "obj_path (Kind y) (obj_Name y) = obj_path k n \<longleftrightarrow> obj_key y = (k, n)"
    using slash_split [OF _ dir_of_slash dir_of_slash, of "Kind y" "obj_Name y @ ''.yaml''" k "n @ ''.yaml''"] d
      dir_inj [OF kind_in [of y], of k] by (auto simp: obj_path_slash obj_key_def)
  show "y \<in> set (tree_objs ?t) \<longleftrightarrow> y \<in> {y \<in> set (tree_objs t). obj_key y \<noteq> (k, n)}"
    using p tree_objs_wf [OF wf, of y] tree_objs_wf [of t y] assms(1) by (auto simp: tree_wf_def tree_del_set)
qed

lemma erase_filter: "erase ` {y \<in> S. obj_key y \<noteq> q} = {z \<in> erase ` S. obj_key z \<noteq> q}"
  by force

lemma stands_for_put:
  assumes "stands_for xs t" "tree_wf t" "erase x' = erase x" "ValidateName (obj_Name x) = None"
  shows "stands_for (withObject xs x) (tree_put t (obj_path (Kind x) (obj_Name x)) (ObjDoc x' u))"
proof -
  have k: "Kind x' = Kind x" "obj_Name x' = obj_Name x" using assms(3) erase_simps(1,2) by metis+
  have "distinct (map obj_key xs)" using assms(1) by (simp add: stands_for_def)
  note m = withObject_set [OF this, of x]
  then show ?thesis
    using assms(1,3) by (simp add: tree_objs_put(2) [OF assms(2) k assms(4)] erase_filter stands_for_def)
qed

lemma stands_for_del:
  assumes "stands_for xs t" "tree_wf t" "map_of kindDir k \<noteq> None"
  shows "stands_for (withoutObject xs k n) (tree_del t (obj_path k n))"
  using assms(1)
  by (simp add: tree_objs_del [OF assms(2,3)] withoutObject_def same_object_key erase_filter stands_for_def distinct_map_filter)

text \<open>A list the store validated and a tree it stands for: the tree loads, and every check of the list holds of
  what is loaded.\<close>

lemma validated_loads:
  assumes "stands_for xs t" "tree_wf t" "Validate env (config_of xs) = []" "load_settings t = Inr st" "validate_settings env sys st = None"
  shows "loadLocked env sys t = Inr (loaded t, st)" and "same_contents (config_of xs) (config_of (loaded t))"
proof -
  show c: "same_contents (config_of xs) (config_of (loaded t))"
    using same_config_trans [OF stands_for_config [OF assms(1,2)] same_config_mset] mset_loaded [of t] by simp
  show "loadLocked env sys t = Inr (loaded t, st)"
    using loadLocked_tree [OF assms(2)] Validate_same_config [OF c assms(3)] assms(4,5) by blast
qed

section \<open>The objects of a tree as a map\<close>

lemma option_eqI: "(\<And>z. a = Some z \<longleftrightarrow> b = Some z) \<Longrightarrow> a = b"
  by (cases a; cases b) auto

lemma findObject_Some:
  assumes "distinct (map obj_key xs)"
  shows "findObject xs k n = Some x \<longleftrightarrow> x \<in> set xs \<and> obj_key x = (k, n)"
  using assms by (induction xs) (auto simp: findObject_def same_object_key, metis image_eqI)

lemma find_loaded:
  "tree_wf t \<Longrightarrow> findObject (loaded t) k n = Some x \<longleftrightarrow> x \<in> set (tree_objs t) \<and> obj_key x = (k, n)"
  using findObject_Some [of "loaded t" k n x] stands_for_loaded [of t] mset_eq_setD [OF mset_loaded, of t] by (simp add: stands_for_def)

lemma find_loaded_eq:
  assumes "tree_wf t" "tree_wf t'" "\<And>z. obj_key z = (k, n) \<Longrightarrow> z \<in> set (tree_objs t) \<longleftrightarrow> z \<in> set (tree_objs t')"
  shows "findObject (loaded t) k n = findObject (loaded t') k n"
proof (rule option_eqI)
  show "findObject (loaded t) k n = Some z \<longleftrightarrow> findObject (loaded t') k n = Some z" for z
    unfolding find_loaded [OF assms(1)] find_loaded [OF assms(2)] using assms(3) [of z] by blast
qed

lemma find_put:
  assumes "tree_wf t" "Kind x' = Kind x" "obj_Name x' = obj_Name x" "ValidateName (obj_Name x) = None"
  shows "findObject (loaded (tree_put t (obj_path (Kind x) (obj_Name x)) (ObjDoc x' u))) k n =
    (if (k, n) = obj_key x then Some x' else findObject (loaded t) k n)"
proof (cases "(k, n) = obj_key x")
  case True
  have "obj_key x' = (k, n)" using assms(2,3) True by (simp add: obj_key_def)
  then show ?thesis using find_loaded [OF tree_objs_put(1) [OF assms], of u k n x'] tree_objs_put(2) [OF assms, of u] True by simp
next
  case False
  have k: "obj_key x' = obj_key x" using assms(2,3) by (simp add: obj_key_def)
  have "findObject (loaded (tree_put t (obj_path (Kind x) (obj_Name x)) (ObjDoc x' u))) k n = findObject (loaded t) k n"
    by (rule find_loaded_eq [OF tree_objs_put(1) [OF assms] assms(1)]) (use False k in \<open>auto simp: tree_objs_put(2) [OF assms]\<close>)
  then show ?thesis using False by simp
qed

lemma find_del:
  assumes "tree_wf t" "map_of kindDir j \<noteq> None"
  shows "findObject (loaded (tree_del t (obj_path j m))) k n = (if (k, n) = (j, m) then None else findObject (loaded t) k n)"
proof (cases "(k, n) = (j, m)")
  case True
  have "findObject (loaded (tree_del t (obj_path j m))) k n \<noteq> Some z" for z
    using find_loaded [OF tree_wf_del [OF assms(1)], of "obj_path j m" k n z] tree_objs_del [OF assms, of m] True by simp
  then show ?thesis using True by (metis not_None_eq)
next
  case False
  have "findObject (loaded (tree_del t (obj_path j m))) k n = findObject (loaded t) k n"
    by (rule find_loaded_eq [OF tree_wf_del [OF assms(1)] assms(1)]) (use False in \<open>auto simp: tree_objs_del [OF assms]\<close>)
  then show ?thesis using False by (simp only: if_False)
qed

section \<open>Named trees\<close>

lemma named_put: "tree_named t \<Longrightarrow> entry_named (p, d) \<Longrightarrow> tree_named (tree_put t p d)"
  by (auto simp: tree_named_def tree_put_ok tree_put_set list_all_iff)

lemma named_filter: "tree_named t \<Longrightarrow> tree_named (filter P t)"
  by (simp add: tree_named_def tree_filter_ok list_all_iff)

lemma named_del: "tree_named t \<Longrightarrow> tree_named (tree_del t p)"
  unfolding tree_del_def by (rule named_filter)

lemma named_puts: "tree_named t \<Longrightarrow> list_all entry_named ws \<Longrightarrow> tree_named (foldl (\<lambda>t (p, d). tree_put t p d) t ws)"
  by (induction ws arbitrary: t) (auto simp: named_put)

lemma named_mix: "tree_named t \<Longrightarrow> tree_named u \<Longrightarrow> tree_named (tree_mix f t u)"
  unfolding tree_mix_def by (rule named_puts [OF named_filter]) (auto simp: tree_named_def list_all_iff)

lemma named_entry: "tree_named t \<Longrightarrow> map_of t p = Some d \<Longrightarrow> entry_named (p, d)"
  by (auto simp: tree_named_def list_all_iff dest: map_of_SomeD)

lemma wf_tree_named: "tree_wf t \<Longrightarrow> tree_named t"
  by (auto simp: tree_wf_def tree_named_def list_all_iff wf_named)

lemma load_kinds_in:
  "load_kinds t ks = Inr objs \<Longrightarrow> (k, d) \<in> set ks \<Longrightarrow> \<exists>xs. decode_all k (dir_docs t d) = Some xs \<and> set xs \<subseteq> set objs"
  by (induction ks arbitrary: objs) (fastforce simp: loadDir_def split: option.splits sum.splits prod.splits)+

lemma decode_all_in:
  "decode_all k ds = Some xs \<Longrightarrow> e \<in> set ds \<Longrightarrow> \<exists>x u. e = ObjDoc x u \<and> x \<in> set xs"
  by (induction k ds arbitrary: xs rule: decode_all.induct) (auto split: if_splits)

text \<open>What a load reads of a named tree: a file in the directory of a kind is an object that is loaded.\<close>

lemma loaded_file:
  assumes "loadLocked env sys t = Inr (objs, st)" "(p, e) \<in> set t" "(k, d) \<in> set kindDir" "in_dir d p"
  shows "\<exists>x u. e = ObjDoc x u \<and> x \<in> set objs"
proof -
  have "load_kinds t kindDir = Inr objs"
    using assms(1) by (auto simp: loadLocked_def split: if_splits sum.splits option.splits)
  from load_kinds_in [OF this assms(3)] obtain xs where xs: "decode_all k (dir_docs t d) = Some xs" "set xs \<subseteq> set objs" by blast
  have "e \<in> set (dir_docs t d)" using assms(2,4) by (force simp: dir_docs_def)
  from decode_all_in [OF xs(1) this] show ?thesis using xs(2) by blast
qed

lemma named_loads:
  assumes "tree_named t" "loadLocked env sys t = Inr (objs, st)"
  shows "tree_wf t"
proof -
  have ok: "tree_ok t" using assms(1) by (simp add: tree_named_def)
  have v: "Validate env (config_of objs) = []" "\<exists>st. load_settings t = Inr st"
    using assms(2) by (auto simp: loadLocked_def split: if_splits sum.splits option.splits)
  have "entry_wf (p, e)" if m: "(p, e) \<in> set t" for p e
  proof -
    have n: "entry_named (p, e)" using assms(1) m by (auto simp: tree_named_def list_all_iff)
    show ?thesis
    proof (cases e)
      case (ObjDoc x u)
      have "in_dir (dir_of (Kind x)) p"
        using n by (simp add: ObjDoc in_dir_def obj_path_slash prefix_def suffix_def)
      from loaded_file [OF assms(2) m kind_in [of x] this] have "x \<in> set objs" by (simp add: ObjDoc)
      from validate_object_name [OF valid_objects [OF v(1) this]] show ?thesis using n by (simp add: ObjDoc)
    next
      case BadDoc
      have "p \<noteq> settingsFile"
        using v(2) tree_look [OF ok, of p e] m by (auto simp: load_settings_def BadDoc split: option.splits)
      moreover have "\<not> in_dir d p" if "(k, d) \<in> set kindDir" for k d
        using loaded_file [OF assms(2) m that] by (auto simp: BadDoc)
      ultimately show ?thesis using n by (auto simp: BadDoc list_all_iff)
    qed (use n in simp_all)
  qed
  then show ?thesis using ok by (auto simp: tree_wf_def list_all_iff)
qed

section \<open>Writes and removals\<close>

lemma removes_done: "removes ok ps t = (True, t') \<Longrightarrow> t' = foldl tree_del t ps"
  by (induction ok ps t rule: removes.induct) (auto split: if_splits)

lemma plain_writes_done: "plain_writes run ws t = (True, t') \<Longrightarrow> t' = foldl (\<lambda>t (p, d). tree_put t p d) t ws"
  by (induction run ws t rule: plain_writes.induct) (auto simp: plain_write_def split: write_run.splits prod.splits bool.splits)

lemma removes_named: "tree_named t \<Longrightarrow> tree_named (snd (removes ok ps t))"
  by (induction ok ps t rule: removes.induct) (auto simp: named_del)

definition garbles_named :: "(string \<Rightarrow> write_run) \<Rightarrow> bool" where
  "garbles_named run \<longleftrightarrow> (\<forall>p g. run p = Garbled g \<longrightarrow> entry_named (p, g))"

lemma plain_write_named:
  "garbles_named run \<Longrightarrow> tree_named t \<Longrightarrow> entry_named (p, d) \<Longrightarrow> tree_named (snd (plain_write run p d t))"
  by (auto simp: plain_write_def garbles_named_def named_put split: write_run.split)

lemma plain_writes_named:
  "garbles_named run \<Longrightarrow> tree_named t \<Longrightarrow> list_all entry_named ws \<Longrightarrow> tree_named (snd (plain_writes run ws t))"
proof (induction run ws t rule: plain_writes.induct)
  case (2 run p d ws t)
  have "tree_named (snd (plain_write run p d t))" using 2 plain_write_named by simp
  with 2 show ?case by (auto split: prod.split bool.split)
qed simp

lemma foldl_del_look: "tree_ok t \<Longrightarrow> tree_ok (foldl tree_del t ps) \<and> map_of (foldl tree_del t ps) q = (if q \<in> set ps then None else map_of t q)"
  by (induction ps arbitrary: t) (auto simp: ft.ok_del ft.look_del)

end
