(* ===== verification/Store_Safety.thy ===== *)
theory Store_Safety
  imports File_Tree
begin

text \<open>
  What the write paths of the configuration store keep: a step relation over its operations, what every commit of a run
  satisfies, and the functional behaviour of single operations.

  A step is one call with any arguments in which any write, removal, undo, rollback or git command may fail. Of the
  environment it is assumed that a file left behind by a broken write and the entries of an archive hold no object of another name than
  their own (they may hold nothing readable). A sound run is one in which in addition undos and rollbacks succeed, no tree restore of a revert
  stops half-way, and the files of \<open>SaveBatch\<close>, which has no undo, are all written.
\<close>

section \<open>Initialisation\<close>

definition Init :: "io \<Rightarrow> store \<Rightarrow> store_outcome" where
  "Init io s =
     (if \<not> checkLegacyKindDirs (cs_tree s) then (Inl LegacyDirs, s)
      else case (if map_of (cs_tree s) settingsFile = None
                 then writeYAML io settingsFile (SettingsDoc DefaultSettings) (cs_tree s) else Some (cs_tree s)) of
        None \<Rightarrow> (Inl (WriteFailed settingsFile), s)
      | Some t \<Rightarrow>
          (let s' = s\<lparr>cs_tree := t\<rparr> in
           if git_Head s' = [] then (case CommitAll io s' of (Inl e, s'') \<Rightarrow> (Inl e, s'') | (Inr _, s'') \<Rightarrow> (Inr [], s''))
           else (Inr [], s')))"

section \<open>Trees that can be served\<close>

text \<open>The tree loads and its admin edge collides with nothing; with \<open>lit\<close>, neither objects nor settings hold a literal secret.\<close>

definition okay :: "go_env \<Rightarrow> os \<Rightarrow> bool \<Rightarrow> tree \<Rightarrow> bool" where
  "okay env sys lit t =
     (case loadLocked env sys t of
        Inl _ \<Rightarrow> False
      | Inr (objs, st) \<Rightarrow>
          checkAdminEdge env (config_of objs) st = None \<and>
          (lit \<longrightarrow> LiteralSecrets (config_secrets (config_of objs)) = [] \<and> LiteralSecrets (settings_secrets st) = []))"

definition served :: "go_env \<Rightarrow> os \<Rightarrow> tree \<Rightarrow> bool" where
  "served env sys t =
     (case loadLocked env sys t of
        Inl _ \<Rightarrow> False
      | Inr (objs, st) \<Rightarrow>
          checkAdminEdge env (config_of objs) st = None \<and> LiteralSecrets (config_secrets (config_of objs)) = [] \<and>
          LiteralSecrets (settings_secrets st) = [])"

lemma okay_served: "okay env sys True = served env sys"
  by (rule ext) (simp add: okay_def served_def split: sum.split)

definition good :: "go_env \<Rightarrow> os \<Rightarrow> bool \<Rightarrow> tree \<Rightarrow> bool" where
  "good env sys lit t \<longleftrightarrow> tree_wf t \<and> okay env sys lit t"

lemma load_facts:
  assumes "tree_named t" "loadLocked env sys t = Inr (objs, st)"
  shows "objs = loaded t" "stands_for objs t" "tree_wf t" "tree_ok t" "load_settings t = Inr st"
    "validate_settings env sys st = None" "Validate env (config_of objs) = []"
proof -
  show w: "tree_wf t" by (rule named_loads [OF assms])
  then show "tree_ok t" by (simp add: tree_wf_def)
  show l: "objs = loaded t" "load_settings t = Inr st" "validate_settings env sys st = None" "Validate env (config_of objs) = []"
    using loadLocked_tree [OF w] assms(2) by blast+
  show "stands_for objs t" using l(1) stands_for_loaded [OF w] by simp
qed

lemma served_load:
  assumes "served env sys t" "loadLocked env sys t = Inr (objs, st)"
  shows "LiteralSecrets (settings_secrets st) = []" "checkAdminEdge env (config_of objs) st = None"
    "LiteralSecrets (config_secrets (config_of objs)) = []"
  using assms by (simp_all add: served_def)

lemma goodD:
  assumes "good env sys lit t"
  shows "tree_wf t" "tree_ok t" "\<exists>st. loadLocked env sys t = Inr (loaded t, st)"
proof -
  show wf: "tree_wf t" using assms by (simp add: good_def)
  then show "tree_ok t" by (simp add: tree_wf_def)
  obtain objs st where l: "loadLocked env sys t = Inr (objs, st)"
    using assms by (auto simp: good_def okay_def split: sum.splits)
  then show "\<exists>st. loadLocked env sys t = Inr (loaded t, st)" using load_facts(1) [OF wf_tree_named [OF wf] l] by simp
qed

lemma merged_checks_None:
  "merged_checks env io st xs = None \<longleftrightarrow>
     Validate env (config_of xs) = [] \<and> checkAdminEdge env (config_of xs) st = None \<and> checkGeoAvailable io (config_of xs) = None \<and>
     LiteralSecrets (config_secrets (config_of xs)) = []"
  by (auto simp: merged_checks_def Let_def split: option.split)

text \<open>The checks of a write path make the written tree good.\<close>

lemma good_merged:
  assumes "stands_for xs t" "tree_wf t" "load_settings t = Inr st" "validate_settings env sys st = None"
    and "Validate env (config_of xs) = []" "checkAdminEdge env (config_of xs) st = None"
    and "lit \<Longrightarrow> LiteralSecrets (config_secrets (config_of xs)) = []" "lit \<Longrightarrow> LiteralSecrets (settings_secrets st) = []"
  shows "good env sys lit t"
proof -
  note v = validated_loads [OF assms(1,2,5,3,4)]
  show ?thesis
    using assms(2,7,8) v(1) same_config_edge [OF v(2) assms(6)] same_config_literals [OF v(2)] by (simp add: good_def okay_def)
qed

lemma load_settings_cong: "map_of t settingsFile = map_of t' settingsFile \<Longrightarrow> load_settings t = load_settings t'"
  by (simp add: load_settings_def)

lemma obj_path_top: "obj_path k n \<noteq> settingsFile" "obj_path k n \<noteq> dnsLedgerFile" "obj_path k n \<noteq> accessListSourcesFile"
proof -
  have "CHR ''/'' \<in> set (obj_path k n)" by (simp add: obj_path_slash)
  then show "obj_path k n \<noteq> settingsFile" "obj_path k n \<noteq> dnsLedgerFile" "obj_path k n \<noteq> accessListSourcesFile"
    using top_files by metis+
qed

section \<open>What one call commits\<close>

text \<open>The history of the second store is that of the first one, or has one commit more, of a good tree.\<close>

definition commits_good :: "go_env \<Rightarrow> os \<Rightarrow> bool \<Rightarrow> store \<Rightarrow> store \<Rightarrow> bool" where
  "commits_good env sys lit s s' \<longleftrightarrow>
     cs_log s' = cs_log s \<or> (\<exists>h t. cs_log s' = (h, t) # cs_log s \<and> h \<noteq> [] \<and> good env sys lit t)"

text \<open>What is known of the tree a call starts from.\<close>

definition start_ok :: "go_env \<Rightarrow> os \<Rightarrow> bool \<Rightarrow> store \<Rightarrow> bool" where
  "start_ok env sys lit s \<longleftrightarrow>
     tree_named (cs_tree s) \<and> list_all (\<lambda>(h, t). h \<noteq> [] \<and> tree_named t) (cs_log s) \<and> (lit \<longrightarrow> served env sys (cs_tree s))"

definition call_ok :: "bool \<Rightarrow> io \<Rightarrow> bool" where
  "call_ok sound io \<longleftrightarrow>
     io_hash io \<noteq> [] \<and> garbles_named (io_plain io) \<and> garbles_named (io_undo io) \<and>
     (sound \<longrightarrow> io_restore io = Restored \<and> io_rollback io = Restored \<and> (\<forall>p. io_undo io p = Done))"

lemma commits_good_refl [simp]: "commits_good env sys lit s s"
  by (simp add: commits_good_def)

lemma commits_good_tree [simp]:
  "commits_good env sys lit s (s'\<lparr>cs_tree := t\<rparr>) = commits_good env sys lit s s'"
  "commits_good env sys lit s (rollback io s0 s') = commits_good env sys lit s s'"
  "commits_good env sys lit (s\<lparr>cs_tree := t\<rparr>) s' = commits_good env sys lit s s'"
  by (simp_all add: commits_good_def rollback_def)

lemma CommitAll_cases:
  assumes "CommitAll io s = (r, s')"
  shows "cs_tree s' = cs_tree s" "cs_log s' = cs_log s \<or> cs_log s' = (io_hash io, cs_tree s) # cs_log s"
    and "(\<exists>e. r = Inl e) \<Longrightarrow> cs_log s' = cs_log s \<or> (r = Inl HeadFailed \<and> \<not> io_head_after io)"
    and "r = Inr sha \<Longrightarrow> IsClean s'"
  using assms by (auto simp: CommitAll_def IsClean_def head_tree_def split: if_splits)

lemma CommitAll_good:
  assumes "good env sys lit (cs_tree s)" "call_ok sound io"
  shows "commits_good env sys lit s (snd (CommitAll io s))" "cs_tree (snd (CommitAll io s)) = cs_tree s"
proof -
  obtain r s' where c: "CommitAll io s = (r, s')" by (cases "CommitAll io s")
  note k = CommitAll_cases(1,2) [OF c]
  show "cs_tree (snd (CommitAll io s)) = cs_tree s" using k(1) by (simp add: c)
  show "commits_good env sys lit s (snd (CommitAll io s))" using k(2) assms by (auto simp: c commits_good_def call_ok_def)
qed

text \<open>A call that checked a tree, put it in place and committed it.\<close>

definition writes_good :: "go_env \<Rightarrow> os \<Rightarrow> bool \<Rightarrow> store \<Rightarrow> store \<Rightarrow> bool" where
  "writes_good env sys lit s s' \<longleftrightarrow> s' = s \<or> (good env sys lit (cs_tree s') \<and> commits_good env sys lit s s')"

lemma writes_goodI:
  assumes "good env sys lit t" "call_ok sound io"
  shows "writes_good env sys lit s (snd (CommitAll io (s\<lparr>cs_tree := t\<rparr>)))"
  using CommitAll_good [of env sys lit "s\<lparr>cs_tree := t\<rparr>", OF _ assms(2)] assms(1) by (simp add: writes_good_def)

lemma writes_good_same [simp]: "writes_good env sys lit s s"
  by (simp add: writes_good_def)

lemma good_written:
  assumes "start_ok env sys lit s" "loadLocked env sys (cs_tree s) = Inr (objs, st)" "merged_checks env io st xs = None"
    and "stands_for xs t" "tree_wf t" "map_of t settingsFile = map_of (cs_tree s) settingsFile"
  shows "good env sys lit t"
proof -
  have n: "tree_named (cs_tree s)" and sv: "lit \<Longrightarrow> served env sys (cs_tree s)" using assms(1) by (simp_all add: start_ok_def)
  note l = load_facts [OF n assms(2)] and m = assms(3) [unfolded merged_checks_None]
  show ?thesis
    using good_merged [OF assms(4,5)] load_settings_cong [OF assms(6)] l(5,6) m served_load(1) [OF sv assms(2)] by simp
qed

subsection \<open>One object\<close>

lemma erase_stamp [simp]: "erase (stampTimes x ex now) = erase x" "Kind (stampTimes x ex now) = Kind x"
  "obj_Name (stampTimes x ex now) = obj_Name x"
  by (simp_all add: stampTimes_def)

lemma prepareSave_Inr:
  assumes "prepareSave env sys io x t = Inr (p, out, ex)"
  shows "\<exists>objs st. loadLocked env sys t = Inr (objs, st) \<and> validate_object env x = None \<and> merged_checks env io st (withObject objs x) = None \<and>
    \<not> (edge_Enabled (gs_AdminEdge st) \<and> Kind x = ''ProxyHost'' \<and> obj_Name x = AdminEdgeHostName) \<and>
    p = obj_path (Kind x) (obj_Name x) \<and> out = stampTimes x (findObject objs (Kind x) (obj_Name x)) (io_now io) \<and>
    (ex \<longleftrightarrow> findObject objs (Kind x) (obj_Name x) \<noteq> None)"
  using assms by (auto simp: prepareSave_def Let_def split: option.splits sum.splits if_splits prod.splits)

lemma put_object_good:
  assumes "start_ok env sys lit s" "loadLocked env sys (cs_tree s) = Inr (objs, st)" "merged_checks env io st (withObject objs x) = None"
    and "validate_object env x = None" "erase x' = erase x"
  shows "good env sys lit (tree_put (cs_tree s) (obj_path (Kind x) (obj_Name x)) (ObjDoc x' u))"
proof -
  have "tree_named (cs_tree s)" using assms(1) by (simp add: start_ok_def)
  note l = load_facts [OF this assms(2)]
  have n: "ValidateName (obj_Name x) = None" by (rule validate_object_name [OF assms(4)])
  have k: "Kind x' = Kind x" "obj_Name x' = obj_Name x" using assms(5) erase_simps(1,2) by metis+
  show ?thesis
    using good_written [OF assms(1-3) stands_for_put [OF l(2,3) assms(5) n] tree_objs_put(1) [OF l(3) k n]]
    by (simp add: ft.look_put [OF l(4)] obj_path_top(1) [symmetric])
qed

lemma save_good:
  assumes "start_ok env sys lit s" "call_ok sound io"
  shows "writes_good env sys lit s (snd (save env sys io co x s))"
proof (cases "prepareSave env sys io x (cs_tree s)")
  case (Inr r)
  obtain p out ex where r: "r = (p, out, ex)" by (cases r)
  obtain objs st where p: "loadLocked env sys (cs_tree s) = Inr (objs, st)" "merged_checks env io st (withObject objs x) = None"
      "validate_object env x = None" "p = obj_path (Kind x) (obj_Name x)" "erase out = erase x"
    using prepareSave_Inr [OF Inr [unfolded r]] erase_stamp(1) by metis
  have "good env sys lit (tree_put (cs_tree s) p (ObjDoc out Written))" unfolding p(4) by (rule put_object_good [OF assms(1) p(1-3,5)])
  from writes_goodI [OF this assms(2)] show ?thesis by (auto simp: save_def Inr r writeYAML_def)
qed (simp add: save_def)

lemma Delete_good:
  assumes "start_ok env sys lit s" "call_ok sound io"
  shows "writes_good env sys lit s (snd (Delete env sys io k n s))"
proof (cases "loadLocked env sys (cs_tree s)")
  case (Inr r)
  obtain objs st where r: "r = (objs, st)" by (cases r)
  have nm: "tree_named (cs_tree s)" and sv: "lit \<Longrightarrow> served env sys (cs_tree s)" using assms(1) by (simp_all add: start_ok_def)
  note l = load_facts [OF nm Inr [unfolded r]]
  have "good env sys lit (tree_del (cs_tree s) (obj_path k n))"
    if "map_of kindDir k \<noteq> None" "Validate env (config_of (withoutObject objs k n)) = []"
      "checkAdminEdge env (config_of (withoutObject objs k n)) st = None"
  proof (rule good_merged [OF stands_for_del [OF l(2,3) that(1)] tree_wf_del [OF l(3)] _ l(6) that(2,3)])
    show "load_settings (tree_del (cs_tree s) (obj_path k n)) = Inr st"
      using l(5) load_settings_cong [of "tree_del (cs_tree s) (obj_path k n)" "cs_tree s"]
      by (simp add: ft.look_del [OF l(4)] obj_path_top(1) [symmetric])
    assume lit
    note sl = served_load [OF sv [OF this] Inr [unfolded r]]
    show "LiteralSecrets (settings_secrets st) = []" by (rule sl(1))
    have "set (List.map_filter f (withoutObject objs k n)) \<subseteq> set (List.map_filter f objs)" for f :: "object \<Rightarrow> 'x option"
      by (auto simp: withoutObject_def List.map_filter_def)
    then show "LiteralSecrets (config_secrets (config_of (withoutObject objs k n))) = []"
      using sl(3) unfolding no_literal_secrets config_of_def gpm_config.simps withoutObject_def List.map_filter_def by auto
  qed
  then show ?thesis using writes_goodI [OF _ assms(2)] by (auto simp: Delete_def Let_def Inr r)
qed (simp add: Delete_def Let_def)

text \<open>What a call leaves behind in any case: a named tree, and in a sound run the tree it found, the one of the head or a good one.\<close>

definition call_good :: "go_env \<Rightarrow> os \<Rightarrow> bool \<Rightarrow> bool \<Rightarrow> store \<Rightarrow> store \<Rightarrow> bool" where
  "call_good env sys lit sound s s' \<longleftrightarrow>
     commits_good env sys lit s s' \<and> tree_named (cs_tree s') \<and>
     (sound \<longrightarrow> cs_tree s' = cs_tree s \<or> (git_Head s \<noteq> [] \<and> cs_tree s' = head_tree s) \<or> good env sys lit (cs_tree s'))"

lemma writes_call: "start_ok env sys lit s \<Longrightarrow> writes_good env sys lit s s' \<Longrightarrow> call_good env sys lit sound s s'"
  by (auto simp: writes_good_def call_good_def start_ok_def good_def wf_tree_named)

lemma same_call: "start_ok env sys lit s \<Longrightarrow> call_good env sys lit sound s s"
  by (simp add: call_good_def start_ok_def)

subsection \<open>Batches\<close>

text \<open>What the write and removal loops touch.\<close>

lemma write_all_look:
  assumes "tree_ok t" "write_all io ws t = (r, t')"
  shows "tree_ok t'" "p \<notin> fst ` set ws \<Longrightarrow> map_of t' p = map_of t p"
  using assms
  by (induction io ws t rule: write_all.induct) (auto simp: writeYAML_def tree_put_ok ft.look_put split: if_splits)

lemma removes_look:
  assumes "tree_ok t" "removes ok ps t = (r, t')"
  shows "tree_ok t'" "p \<notin> set ps \<Longrightarrow> map_of t' p = map_of t p"
  using assms
  by (induction ok ps t rule: removes.induct) (auto simp: ft.ok_del ft.look_del split: if_splits)

lemma restoreFiles_done:
  assumes "\<forall>p. io_undo io p = Done"
  shows "restoreFiles io (map (\<lambda>p. (p, map_of t0 p)) ps) t =
    foldl (\<lambda>t p. case map_of t0 p of Some d \<Rightarrow> tree_put t p d | None \<Rightarrow> tree_del t p) t ps"
proof -
  have "restore_file io p d t = (case d of Some d \<Rightarrow> tree_put t p d | None \<Rightarrow> tree_del t p)" for p d t
    using assms by (simp add: restore_file_def plain_write_def split: option.split)
  then show ?thesis by (simp add: restoreFiles_def foldl_map)
qed

lemma restoreFiles_exact:
  assumes "tree_ok t0" "tree_ok t" "\<And>p. p \<notin> set ps \<Longrightarrow> map_of t p = map_of t0 p" "\<forall>p. io_undo io p = Done"
  shows "restoreFiles io (map (\<lambda>p. (p, map_of t0 p)) ps) t = t0"
  using ft.undo_exact [OF assms(1-3)] by (simp add: restoreFiles_done [OF assms(4)])

lemma restore_file_named:
  "garbles_named (io_undo io) \<Longrightarrow> tree_named t \<Longrightarrow> (\<And>e. d = Some e \<Longrightarrow> entry_named (p, e)) \<Longrightarrow> tree_named (restore_file io p d t)"
  by (auto simp: restore_file_def named_del intro: plain_write_named split: option.split)

lemma restoreFiles_named:
  assumes "garbles_named (io_undo io)" "tree_named t0" "tree_named t"
  shows "tree_named (restoreFiles io (map (\<lambda>p. (p, map_of t0 p)) ps) t)"
  using assms(3)
proof (induction ps arbitrary: t)
  case (Cons p ps)
  have "tree_named (restore_file io p (map_of t0 p) t)"
    by (rule restore_file_named [OF assms(1) Cons(2)]) (rule named_entry [OF assms(2)])
  from Cons(1) [OF this] show ?case by (simp add: restoreFiles_def)
qed (simp add: restoreFiles_def)

text \<open>A failed batch, all of whose undos succeed: the tree is the old one, and history has grown only if the commit was made and the
  lookup of its hash failed.\<close>

lemma batch_apply_failed:
  assumes "tree_ok (cs_tree s)" "\<forall>p. io_undo io p = Done" "batch_apply io ws rm s = (Inl e, s')"
  shows "cs_tree s' = cs_tree s" "cs_log s' = cs_log s \<or> (e = HeadFailed \<and> \<not> io_head_after io)"
proof -
  let ?t = "cs_tree s"
  obtain r1 t1 where w: "write_all io ws ?t = (r1, t1)" by (cases "write_all io ws ?t")
  obtain r2 t2 where d: "remove_all io rm t1 = (r2, t2)" by (cases "remove_all io rm t1")
  note o1 = write_all_look [OF assms(1) w] and o2 = removes_look [OF write_all_look(1) [OF assms(1) w] d [unfolded remove_all_def]]
  have u: "restoreFiles io (map (\<lambda>p. (p, map_of ?t p)) (map fst ws @ rm)) t1 = ?t"
    "restoreFiles io (map (\<lambda>p. (p, map_of ?t p)) (map fst ws @ rm)) t2 = ?t"
    using o1 o2 by (intro restoreFiles_exact [OF assms(1) _ _ assms(2)]; simp)+
  obtain r3 s3 where c: "CommitAll io (s\<lparr>cs_tree := t2\<rparr>) = (r3, s3)" by (cases "CommitAll io (s\<lparr>cs_tree := t2\<rparr>)")
  note k = CommitAll_cases(1) [OF c] CommitAll_cases(3) [OF c]
  show "cs_tree s' = cs_tree s" "cs_log s' = cs_log s \<or> (e = HeadFailed \<and> \<not> io_head_after io)"
    using assms(3) u k by (auto simp: batch_apply_def Let_def w d c split: option.splits bool.splits sum.splits)
qed

text \<open>The write loop follows \<open>withObject\<close>, the removal loop \<open>withoutObject\<close>.\<close>

lemma write_all_stands:
  assumes "stands_for xs t" "tree_wf t" "list_all (\<lambda>(x, _). ValidateName (obj_Name x) = None) ys" "write_all io (stamped io ys) t = (None, t')"
  shows "stands_for (foldl withObject xs (map fst ys)) t' \<and> tree_wf t' \<and> map_of t' settingsFile = map_of t settingsFile"
  using assms
proof (induction ys arbitrary: xs t)
  case (Cons y ys)
  obtain x ex where y: "y = (x, ex)" by (cases y)
  let ?t = "tree_put t (obj_path (Kind x) (obj_Name x)) (ObjDoc (stampTimes x ex (io_now io)) Written)"
  have n: "ValidateName (obj_Name x) = None" using Cons(4) y by simp
  have ok: "tree_ok t" using Cons(3) by (simp add: tree_wf_def)
  have w: "write_all io (stamped io ys) ?t = (None, t')"
    using Cons(5) by (simp add: y stamped_def writeYAML_def split: if_splits)
  have s: "stands_for (withObject xs x) ?t" "tree_wf ?t"
    using stands_for_put [OF Cons(2,3) _ n] tree_objs_put(1) [OF Cons(3) _ _ n] by simp_all
  show ?case
    using Cons(1) [OF s _ w] Cons(4) by (simp add: y ft.look_put [OF ok] obj_path_top(1) [symmetric])
qed (simp add: stamped_def)

lemma remove_all_stands:
  assumes "stands_for xs t" "tree_wf t" "list_all (\<lambda>(k, _). map_of kindDir k \<noteq> None) rm"
    and "remove_all io (map (\<lambda>(k, n). obj_path k n) rm) t = (True, t')"
  shows "stands_for (foldl (\<lambda>m (k, n). withoutObject m k n) xs rm) t' \<and> tree_wf t' \<and> map_of t' settingsFile = map_of t settingsFile"
  using assms
proof (induction rm arbitrary: xs t)
  case (Cons r rm)
  obtain k n where r: "r = (k, n)" by (cases r)
  have ok: "tree_ok t" and k: "map_of kindDir k \<noteq> None" using Cons(3,4) r by (simp_all add: tree_wf_def)
  have w: "remove_all io (map (\<lambda>(k, n). obj_path k n) rm) (tree_del t (obj_path k n)) = (True, t')"
    using Cons(5) by (simp add: r remove_all_def split: if_splits)
  show ?case
    using Cons(1) [OF stands_for_del [OF Cons(2,3) k] tree_wf_del [OF Cons(3)] _ w] Cons(4)
    by (simp add: r ft.look_del [OF ok] obj_path_top(1) [symmetric])
qed (simp add: remove_all_def)

lemma withObject_keys: "obj_key ` set (withObject xs x) \<supseteq> insert (obj_key x) (obj_key ` set xs)"
  by (induction xs) (auto simp: same_object_key simp flip: obj_key_def)

lemma foldl_withObject_keys: "obj_key ` set ys \<union> obj_key ` set xs \<subseteq> obj_key ` set (foldl withObject xs ys)"
proof (induction ys arbitrary: xs)
  case (Cons y ys)
  have "obj_key ` set ys \<union> obj_key ` set (withObject xs y) \<subseteq> obj_key ` set (foldl withObject (withObject xs y) ys)" by (rule Cons)
  moreover have "obj_key ` set (y # ys) \<union> obj_key ` set xs \<subseteq> obj_key ` set ys \<union> obj_key ` set (withObject xs y)"
    using withObject_keys [of y xs] unfolding list.set image_insert by blast
  ultimately show ?case unfolding foldl.simps by (rule order_trans [rotated])
qed simp

lemma merged_names:
  assumes "Validate env (config_of (foldl withObject xs ys)) = []" "y \<in> set ys"
  shows "ValidateName (obj_Name y) = None"
proof -
  obtain z where z: "z \<in> set (foldl withObject xs ys)" "obj_key z = obj_key y"
  proof -
    have "obj_key y \<in> obj_key ` set (foldl withObject xs ys)" using foldl_withObject_keys [of ys xs] assms(2) by blast
    then show thesis using that by force
  qed
  have "ValidateName (obj_Name z) = None" by (rule validate_object_name [OF valid_objects [OF assms(1) z(1)]])
  then show ?thesis using z(2) by (simp add: obj_key_def)
qed

lemma write_all_ok: "\<forall>p. io_write io p \<Longrightarrow> \<exists>t'. write_all io ws t = (None, t')"
  by (induction io ws t rule: write_all.induct) (auto simp: writeYAML_def)

lemma write_all_named:
  "tree_named t \<Longrightarrow> list_all (\<lambda>(x, _). ValidateName (obj_Name x) = None) ys \<Longrightarrow> tree_named (snd (write_all io (stamped io ys) t))"
proof (induction ys arbitrary: t)
  case (Cons y ys)
  obtain x ex where y: "y = (x, ex)" by (cases y)
  have "entry_named (obj_path (Kind x) (obj_Name x), ObjDoc (stampTimes x ex (io_now io)) Written)"
    using Cons(3) by (simp add: y name_no_slash)
  from named_put [OF Cons(2) this] show ?case using Cons by (auto simp: y stamped_def writeYAML_def)
qed (simp add: stamped_def)

lemma SaveBatch_good:
  assumes "start_ok env sys lit s" "call_ok sound io" "sound \<Longrightarrow> \<forall>p. io_write io p"
  shows "call_good env sys lit sound s (snd (SaveBatch env sys io xs s))"
proof (cases "loadLocked env sys (cs_tree s)")
  case (Inr r)
  obtain objs st where r: "r = (objs, st)" by (cases r)
  have nm: "tree_named (cs_tree s)" using assms(1) by (simp add: start_ok_def)
  note l = load_facts [OF nm Inr [unfolded r]]
  let ?ys = "map (\<lambda>x. (x, findObject objs (Kind x) (obj_Name x))) xs"
  show ?thesis
  proof (cases "merged_checks env io st (foldl withObject objs xs)")
    case None
    obtain q t where w: "write_all io (stamped io ?ys) (cs_tree s) = (q, t)" by (cases "write_all io (stamped io ?ys) (cs_tree s)")
    have v: "list_all (\<lambda>(x, _). ValidateName (obj_Name x) = None) ?ys"
      using merged_names None [unfolded merged_checks_None] by (auto simp: list_all_iff)
    show ?thesis
    proof (cases q)
      case fin: None
      have "good env sys lit t"
        using write_all_stands [OF l(2,3) v w [unfolded fin]] good_written [OF assms(1) Inr [unfolded r] None] by (simp add: comp_def)
      from writes_call [OF assms(1) writes_goodI [OF this assms(2)]] show ?thesis
        by (simp add: SaveBatch_def Inr r None w fin)
    next
      case (Some e)
      have "\<not> sound" using write_all_ok [of io "stamped io ?ys" "cs_tree s"] assms(3) w Some by auto
      moreover have "tree_named t" using write_all_named [OF nm v, of io] w by simp
      ultimately show ?thesis by (simp add: SaveBatch_def Inr r None w Some call_good_def)
    qed
  qed (simp add: SaveBatch_def Inr r same_call [OF assms(1)])
qed (simp add: SaveBatch_def same_call [OF assms(1)])

lemma batch_upserts_valid:
  "batch_upserts env t g sh objs merged xs = Inr (ys, seen) \<Longrightarrow> list_all (\<lambda>(x, _). ValidateName (obj_Name x) = None) ys"
  by (induction xs arbitrary: sh objs merged ys seen) (auto simp: Let_def validate_object_name split: option.splits sum.splits if_splits prod.splits)

lemma batch_deletes_valid:
  "batch_deletes t g objs rs = Inr ys \<Longrightarrow> list_all (\<lambda>(k, _). map_of kindDir k \<noteq> None) ys"
  by (induction rs arbitrary: ys) (auto split: sum.splits if_splits prod.splits)

text \<open>A batch either leaves everything as it is or passed the checks and is applied.\<close>

lemma ApplyBatch_cases:
  assumes "ApplyBatch env sys io ups dels g s = (r, s')"
  obtains "s' = s" | objs st applied seen rm where "loadLocked env sys (cs_tree s) = Inr (objs, st)"
    "batch_upserts env (cs_tree s) g (\<lambda>k. Some (io_spare io k)) objs objs ups = Inr (applied, seen)"
    "batch_deletes (cs_tree s) g seen dels = Inr rm"
    "merged_checks env io st (foldl (\<lambda>m (k, n). withoutObject m k n) (foldl withObject objs (map fst applied)) rm) = None"
    "batch_apply io (stamped io applied) (map (\<lambda>(k, n). obj_path k n) rm) s = (r, s')"
  using assms by (auto simp: ApplyBatch_def split: sum.splits option.splits if_splits prod.splits)

lemma removes_named_tree: "tree_named t \<Longrightarrow> removes ok ps t = (r, t') \<Longrightarrow> tree_named t'"
  using removes_named [of t ok ps] by simp

lemma ApplyBatch_good:
  assumes "start_ok env sys lit s" "call_ok sound io"
  shows "call_good env sys lit sound s (snd (ApplyBatch env sys io ups dels g s))"
proof -
  obtain r s' where a: "ApplyBatch env sys io ups dels g s = (r, s')" by (cases "ApplyBatch env sys io ups dels g s")
  have nm: "tree_named (cs_tree s)" using assms(1) by (simp add: start_ok_def)
  have gu: "garbles_named (io_undo io)" using assms(2) by (simp add: call_ok_def)
  show ?thesis using a
  proof (cases rule: ApplyBatch_cases)
    case (2 objs st applied seen rm)
    note l = load_facts [OF nm 2(1)]
    let ?ws = "stamped io applied" and ?ps = "map (\<lambda>(k, n). obj_path k n) rm" and ?t = "cs_tree s"
    let ?undo = "restoreFiles io (map (\<lambda>p. (p, map_of ?t p)) (map fst ?ws @ ?ps))"
    obtain r1 t1 where w: "write_all io ?ws ?t = (r1, t1)" by (cases "write_all io ?ws ?t")
    obtain r2 t2 where d: "remove_all io ?ps t1 = (r2, t2)" by (cases "remove_all io ?ps t1")
    have n1: "tree_named t1" using write_all_named [OF nm batch_upserts_valid [OF 2(2)], of io] w by simp
    have n2: "tree_named t2" by (rule removes_named_tree [OF n1 d [unfolded remove_all_def]])
    have n: "tree_named (?undo t1)" "tree_named (?undo t2)" by (rule restoreFiles_named [OF gu nm n1], rule restoreFiles_named [OF gu nm n2])
    have failed: "sound \<longrightarrow> cs_tree s' = ?t" if "r = Inl e" for e
    proof
      assume sound
      then have "\<forall>p. io_undo io p = Done" using assms(2) by (simp add: call_ok_def)
      with batch_apply_failed(1) [OF l(4) this 2(5) [unfolded that]] show "cs_tree s' = ?t" by simp
    qed
    show ?thesis
    proof (cases "r1 = None \<and> r2")
      case True
      note y = write_all_stands [OF l(2,3) batch_upserts_valid [OF 2(2)] w [unfolded True [THEN conjunct1]]]
      have d': "remove_all io ?ps t1 = (True, t2)" using d True by simp
      note z = remove_all_stands [OF y [THEN conjunct1] y [THEN conjunct2, THEN conjunct1] batch_deletes_valid [OF 2(3)] d']
      have g: "good env sys lit t2" using good_written [OF assms(1) 2(1,4)] y z by simp
      obtain r3 s3 where c: "CommitAll io (s\<lparr>cs_tree := t2\<rparr>) = (r3, s3)" by (cases "CommitAll io (s\<lparr>cs_tree := t2\<rparr>)")
      have k: "commits_good env sys lit s s3" "cs_tree s3 = t2"
        using CommitAll_good [of env sys lit "s\<lparr>cs_tree := t2\<rparr>", OF _ assms(2)] g c by simp_all
      have "(r, s') = (case r3 of Inl e \<Rightarrow> (Inl e, s3\<lparr>cs_tree := ?undo t2\<rparr>) | Inr sha \<Rightarrow> (Inr sha, s3))"
        using 2(5) w d' True by (cases r3) (auto simp: batch_apply_def Let_def c k(2) simp del: map_map)
      then show ?thesis
        using k g n(2) failed by (cases r3) (auto simp: a call_good_def good_def wf_tree_named)
    next
      case False
      then have f: "\<exists>e. r = Inl e" "cs_log s' = cs_log s" "tree_named (cs_tree s')"
        using 2(5) n by (auto simp: batch_apply_def Let_def w d split: option.splits bool.splits)
      then show ?thesis using failed by (auto simp: a call_good_def commits_good_def)
    qed
  qed (simp add: a same_call [OF assms(1)])
qed

lemma ApplyBatch_failed:
  assumes "tree_ok (cs_tree s)" "\<forall>p. io_undo io p = Done" "ApplyBatch env sys io ups dels g s = (Inl e, s')"
  shows "cs_tree s' = cs_tree s \<and> (cs_log s' = cs_log s \<or> (e = HeadFailed \<and> \<not> io_head_after io))"
  using assms(3)
proof (cases rule: ApplyBatch_cases)
  case (2 objs st applied seen rm)
  show ?thesis using batch_apply_failed [OF assms(1,2) 2(5)] by blast
qed simp

subsection \<open>Going back\<close>

lemma restored_good:
  assumes "tree_named t" "restored_checks env sys io t = None"
  shows "good env sys lit t"
proof -
  obtain objs st where l: "loadLocked env sys t = Inr (objs, st)" "checkAdminEdge env (config_of objs) st = None"
      "LiteralSecrets (config_secrets (config_of objs)) = []" "LiteralSecrets (settings_secrets st) = []"
    using assms(2) by (auto simp: restored_checks_def Let_def split: sum.splits option.splits if_splits)
  then show ?thesis using named_loads [OF assms(1) l(1)] by (simp add: good_def okay_def)
qed

lemma head_named: "start_ok env sys lit s \<Longrightarrow> tree_named (head_tree s)"
  by (auto simp: start_ok_def head_tree_def tree_named_def tree_ok_def split: list.split)

lemma RestoreTree_named: "tree_named t \<Longrightarrow> tree_named u \<Longrightarrow> tree_named (snd (RestoreTree r t u))"
  by (simp add: RestoreTree_def named_mix split: restore_run.split)

text \<open>Rolled back after a call whose only commit, if any, is of a good tree.\<close>

lemma rollback_good:
  assumes "start_ok env sys lit s" "call_ok sound io" "commits_good env sys lit s s'" "tree_named (cs_tree s')"
    and "sound \<Longrightarrow> git_Head s \<noteq> []"
  shows "call_good env sys lit sound s (rollback io s s')"
proof -
  have "tree_named (cs_tree (rollback io s s'))"
    using RestoreTree_named [OF head_named [OF assms(1)] assms(4)] assms(4) by (simp add: rollback_def)
  moreover have "cs_tree (rollback io s s') = head_tree s" if sound
    using assms(2,5) that by (simp add: rollback_def call_ok_def RestoreTree_def)
  ultimately show ?thesis using assms(3,5) by (simp add: call_good_def)
qed

lemma commit_restored_good:
  assumes "start_ok env sys lit s" "call_ok sound io" "tree_named t" "sound \<Longrightarrow> git_Head s \<noteq> []"
  shows "call_good env sys lit sound s (snd (commit_restored env sys io t s))"
proof (cases "restored_checks env sys io t")
  case None
  note g = restored_good [OF assms(3) None, of lit]
  obtain r s' where c: "CommitAll io (s\<lparr>cs_tree := t\<rparr>) = (r, s')" by (cases "CommitAll io (s\<lparr>cs_tree := t\<rparr>)")
  have k: "commits_good env sys lit s s'" "cs_tree s' = t"
    using CommitAll_good [of env sys lit "s\<lparr>cs_tree := t\<rparr>", OF _ assms(2)] g c by simp_all
  have "call_good env sys lit sound s s'" using k g assms(3) by (simp add: call_good_def)
  moreover have "call_good env sys lit sound s (rollback io s s')"
    using rollback_good [OF assms(1,2) k(1) _ assms(4)] k(2) assms(3) by simp
  ultimately show ?thesis by (simp add: commit_restored_def None c split: sum.split)
next
  case (Some e)
  have "call_good env sys lit sound s (rollback io s (s\<lparr>cs_tree := t\<rparr>))"
    using rollback_good [OF assms(1,2) _ _ assms(4), of "s\<lparr>cs_tree := t\<rparr>"] assms(3) by simp
  then show ?thesis by (simp add: commit_restored_def Some)
qed

lemma snapshot_named: "tree_named t \<Longrightarrow> list_all entry_named (snapshotDirs t)"
  by (auto simp: tree_named_def snapshotDirs_def list_all_iff)

lemma writeDirs_named:
  assumes "garbles_named (io_plain io)" "tree_named t" "list_all entry_named ws" "writeDirs io ws t = (r, t')"
  shows "tree_named t'"
proof -
  have "tree_named (snd (writeDirs io ws t))"
    using plain_writes_named [OF assms(1) _ assms(3)] removes_named_tree [OF assms(2)]
    by (auto simp: writeDirs_def split: prod.split bool.split)
  then show ?thesis using assms(4) by simp
qed

lemma log_named: "start_ok env sys lit s \<Longrightarrow> map_of (cs_log s) h = Some t \<Longrightarrow> tree_named t"
  using map_of_SomeD [of "cs_log s" h t] by (auto simp: start_ok_def list_all_iff)

lemma log_head: "start_ok env sys lit s \<Longrightarrow> map_of (cs_log s) h = Some t \<Longrightarrow> git_Head s \<noteq> []"
  by (cases "cs_log s") (auto simp: start_ok_def git_Head_def)

lemma Revert_good:
  assumes "start_ok env sys lit s" "call_ok sound io"
  shows "call_good env sys lit sound s (snd (Revert env sys io h s))"
proof (cases "map_of (cs_log s) h")
  case (Some target)
  note nt = log_named [OF assms(1) Some] and hd = log_head [OF assms(1) Some]
  have nm: "tree_named (cs_tree s)" using assms(1) by (simp add: start_ok_def)
  have gp: "garbles_named (io_plain io)" using assms(2) by (simp add: call_ok_def)
  obtain b t where r: "RestoreTree (io_restore io) target (cs_tree s) = (b, t)" by (cases "RestoreTree (io_restore io) target (cs_tree s)")
  have n1: "tree_named t" using RestoreTree_named [OF nt nm, of "io_restore io"] r by simp
  obtain b' t' where w: "writeDirs io (snapshotDirs (cs_tree s)) t = (b', t')" by (cases "writeDirs io (snapshotDirs (cs_tree s)) t")
  note n2 = writeDirs_named [OF gp n1 snapshot_named [OF nm] w]
  have "call_good env sys lit sound s (s\<lparr>cs_tree := t\<rparr>)" if "\<not> b"
    using that r n1 assms(2) by (auto simp: call_good_def call_ok_def RestoreTree_def)
  moreover have "call_good env sys lit sound s (rollback io s (s\<lparr>cs_tree := t'\<rparr>))"
    using rollback_good [OF assms _ _ hd, of "s\<lparr>cs_tree := t'\<rparr>"] n2 by simp
  moreover have "call_good env sys lit sound s (snd (commit_restored env sys io t' s))" by (rule commit_restored_good [OF assms n2 hd])
  ultimately show ?thesis using same_call [OF assms(1)] by (simp add: Revert_def Some r w split: bool.split)
qed (simp add: Revert_def same_call [OF assms(1)])

lemma RevertObject_good:
  assumes "start_ok env sys lit s" "call_ok sound io"
  shows "call_good env sys lit sound s (snd (RevertObject env sys io k n h s))"
proof (cases "map_of (cs_log s) h")
  case (Some t)
  have nm: "tree_named (cs_tree s)" using assms(1) by (simp add: start_ok_def)
  have "tree_named (tree_put (cs_tree s) (obj_path k n) d)" if "map_of t (obj_path k n) = Some d" for d
    by (rule named_put [OF nm named_entry [OF log_named [OF assms(1) Some] that]])
  from commit_restored_good [OF assms this log_head [OF assms(1) Some]] show ?thesis
    using same_call [OF assms(1)] by (auto simp: RevertObject_def Some split: option.split)
qed (simp add: RevertObject_def same_call [OF assms(1)])

definition archive_named :: "archive_entry list option \<Rightarrow> bool" where
  "archive_named archive \<longleftrightarrow>
     (case archive of None \<Rightarrow> True | Some es \<Rightarrow> list_all (\<lambda>e. entry_named (remapLegacyRestorePath (ae_Name e), ae_Doc e)) es)"

lemma update_all: "list_all P xs \<Longrightarrow> P (k, v) \<Longrightarrow> list_all P (AList.update k v xs)"
  by (induction xs) auto

lemma read_entries_named:
  "read_entries k sz es files = Inr files' \<Longrightarrow> list_all (\<lambda>e. entry_named (remapLegacyRestorePath (ae_Name e), ae_Doc e)) es \<Longrightarrow>
   list_all entry_named files \<Longrightarrow> list_all entry_named files'"
  by (induction k sz es files rule: read_entries.induct) (auto simp: Let_def update_all split: if_splits)

lemma readArchive_named: "readArchive archive = Inr files \<Longrightarrow> archive_named archive \<Longrightarrow> list_all entry_named files"
  using read_entries_named by (fastforce simp: readArchive_def archive_named_def split: option.splits)

lemma replace_named:
  assumes "garbles_named (io_plain io)" "tree_named t" "list_all entry_named ws" "replaceConfigFiles io ws t = (r, t')"
  shows "tree_named t'"
proof -
  have "tree_named (snd (replaceConfigFiles io ws t))"
    using plain_writes_named [OF assms(1) _ assms(3)] removes_named_tree [OF assms(2)]
    by (auto simp: replaceConfigFiles_def split: prod.split bool.split)
  then show ?thesis using assms(4) by simp
qed

lemma Restore_good:
  assumes "start_ok env sys lit s" "call_ok sound io" "archive_named archive" "sound \<Longrightarrow> git_Head s \<noteq> []"
  shows "call_good env sys lit sound s (snd (Restore env sys io archive s))"
proof (cases "readArchive archive")
  case (Inr files)
  have nm: "tree_named (cs_tree s)" using assms(1) by (simp add: start_ok_def)
  have gp: "garbles_named (io_plain io)" using assms(2) by (simp add: call_ok_def)
  obtain b t where r: "replaceConfigFiles io files (cs_tree s) = (b, t)" by (cases "replaceConfigFiles io files (cs_tree s)")
  note n1 = replace_named [OF gp nm readArchive_named [OF Inr assms(3)] r]
  obtain b' t' where w: "writeDirs io (snapshotDirs (cs_tree s)) t = (b', t')" by (cases "writeDirs io (snapshotDirs (cs_tree s)) t")
  note n2 = writeDirs_named [OF gp n1 snapshot_named [OF nm] w]
  have "call_good env sys lit sound s (rollback io s (s\<lparr>cs_tree := u\<rparr>))" if "tree_named u" for u
    using rollback_good [OF assms(1,2) _ _ assms(4), of "s\<lparr>cs_tree := u\<rparr>"] that by simp
  moreover have "call_good env sys lit sound s (snd (CommitAll io (s\<lparr>cs_tree := t'\<rparr>)))" if "restored_checks env sys io t' = None"
    using writes_call [OF assms(1) writes_goodI [OF restored_good [OF n2 that] assms(2)]] .
  ultimately show ?thesis
    using same_call [OF assms(1)] n1 n2 by (simp add: Restore_def Inr r w split: bool.split option.split)
qed (simp add: Restore_def same_call [OF assms(1)])

subsection \<open>Settings and ledgers\<close>

lemma put_top:
  assumes "tree_wf t" "entry_wf (p, d)" "\<And>x u. d \<noteq> ObjDoc x u" "d \<noteq> BadDoc"
  shows "stands_for xs (tree_put t p d) = stands_for xs t"
proof -
  have ok: "tree_ok t" and w: "list_all entry_wf t" using assms(1) by (simp_all add: tree_wf_def)
  have p: "CHR ''/'' \<notin> set p" using assms(2-4) top_files by (cases d) auto
  have "(\<exists>u. (obj_path (Kind x) (obj_Name x), ObjDoc x u) \<in> set (tree_put t p d)) =
      (\<exists>u. (obj_path (Kind x) (obj_Name x), ObjDoc x u) \<in> set t)" for x
  proof -
    have "obj_path (Kind x) (obj_Name x) \<noteq> p" using p by (auto simp: obj_path_slash)
    then show ?thesis using assms(3) by (auto simp: tree_put_set [OF ok])
  qed
  moreover have "list_all entry_wf (tree_put t p d)" using tree_wf_put [OF assms(1,2)] by (simp add: tree_wf_def)
  ultimately have "set (tree_objs (tree_put t p d)) = set (tree_objs t)"
    using tree_objs_wf [OF w] tree_objs_wf [of "tree_put t p d"] by (intro set_eqI) simp
  then show ?thesis by (simp add: stands_for_def)
qed

lemma settings_refs_None:
  "settings_refs env st c = None \<longleftrightarrow>
     ingress_ValidateRefs (gs_IngressDiscovery st) c = [] \<and>
     docker_ValidateRefs (DockerDiscoveryResolved (gs_IngressDiscovery st) (gs_DockerDiscovery st)) c = [] \<and>
     admin_ValidateRefs (gs_AdminAuth st) c = [] \<and> checkAdminEdge env c st = None \<and> LiteralSecrets (settings_secrets st) = []"
  by (auto simp: settings_refs_def Let_def split: option.split)

lemma put_settings_good:
  assumes "start_ok env sys lit s" "loadLocked env sys (cs_tree s) = Inr (objs, st0)" "validate_settings env sys st = None"
    and "settings_refs env st (config_of objs) = None"
  shows "good env sys lit (tree_put (cs_tree s) settingsFile (SettingsDoc st))"
proof -
  have nm: "tree_named (cs_tree s)" and sv: "lit \<Longrightarrow> served env sys (cs_tree s)" using assms(1) by (simp_all add: start_ok_def)
  note l = load_facts [OF nm assms(2)] and r = assms(4) [unfolded settings_refs_None]
  have w: "entry_wf (settingsFile, SettingsDoc st)" by simp
  show ?thesis
    using good_merged [of objs "tree_put (cs_tree s) settingsFile (SettingsDoc st)" st env sys] put_top [OF l(3) w, of objs]
      tree_wf_put [OF l(3) w] l(2,7) assms(3) r served_load(3) [OF sv assms(2)]
    by (simp add: load_settings_def ft.look_put [OF l(4)])
qed

lemma saveSettings_good:
  assumes "start_ok env sys lit s" "call_ok sound io"
  shows "writes_good env sys lit s (snd (saveSettings env sys io st s))"
proof (cases "loadLocked env sys (cs_tree s)")
  case (Inr r)
  obtain objs st0 where r: "r = (objs, st0)" by (cases r)
  from put_settings_good [OF assms(1) Inr [unfolded r]] show ?thesis
    using writes_goodI [OF _ assms(2)] by (auto simp: saveSettings_def Inr r writeYAML_def split: option.split)
qed (simp add: saveSettings_def split: option.split)

lemma UpdateSettings_good:
  assumes "start_ok env sys lit s" "call_ok sound io"
  shows "writes_good env sys lit s (snd (UpdateSettings env sys io f s))"
  using saveSettings_good [OF assms] by (auto simp: UpdateSettings_def split: sum.split option.split)

text \<open>A ledger is written beside whatever the tree holds: its commit is good when the tree was served.\<close>

lemma put_ledger_good:
  assumes "tree_named (cs_tree s)" "served env sys (cs_tree s)" "entry_wf (p, d)" "\<And>x u. d \<noteq> ObjDoc x u" "d \<noteq> BadDoc" "p \<noteq> settingsFile"
  shows "good env sys True (tree_put (cs_tree s) p d)"
proof -
  obtain objs st where l: "loadLocked env sys (cs_tree s) = Inr (objs, st)" using assms(2) by (auto simp: served_def split: sum.splits)
  note f = load_facts [OF assms(1) l] and v = served_load [OF assms(2) l]
  have "load_settings (tree_put (cs_tree s) p d) = Inr st"
    using f(5) load_settings_cong [of "tree_put (cs_tree s) p d" "cs_tree s"] assms(6) by (simp add: ft.look_put [OF f(4)])
  then show ?thesis
    using good_merged [OF _ tree_wf_put [OF f(3) assms(3)] _ f(6,7) v(2)] put_top [OF f(3) assms(3-5), of objs] f(2) v by blast
qed

lemma save_ledger_ok:
  assumes "start_ok env sys sound s" "call_ok sound io" "entry_wf (p, d)" "\<And>x u. d \<noteq> ObjDoc x u" "d \<noteq> BadDoc" "p \<noteq> settingsFile"
    and s': "s' = snd (save_ledger io invalid base p d s)"
  shows "tree_named (cs_tree s')" "list_all (\<lambda>(h, t). h \<noteq> [] \<and> tree_named t) (cs_log s')"
    and "sound \<Longrightarrow> writes_good env sys True s s'"
proof -
  have nm: "tree_named (cs_tree s)" "list_all (\<lambda>(h, t). h \<noteq> [] \<and> tree_named t) (cs_log s)" using assms(1) by (simp_all add: start_ok_def)
  let ?t = "tree_put (cs_tree s) p d"
  have n: "tree_named ?t" by (rule named_put [OF nm(1) wf_named [OF assms(3)]])
  obtain r u where c: "CommitAll io (s\<lparr>cs_tree := ?t\<rparr>) = (r, u)" by (cases "CommitAll io (s\<lparr>cs_tree := ?t\<rparr>)")
  note k = CommitAll_cases(1,2) [OF c]
  have e: "s' = s \<or> s' = u" by (auto simp: s' save_ledger_def writeYAML_def c split: option.split)
  have u: "tree_named (cs_tree u)" "list_all (\<lambda>(h, t). h \<noteq> [] \<and> tree_named t) (cs_log u)"
    using k n nm(2) assms(2) by (auto simp: call_ok_def)
  then show "tree_named (cs_tree s')" "list_all (\<lambda>(h, t). h \<noteq> [] \<and> tree_named t) (cs_log s')" using e nm by auto
  assume sound
  then have "served env sys (cs_tree s)" using assms(1) by (simp add: start_ok_def)
  from writes_goodI [OF put_ledger_good [OF nm(1) this assms(3-6)] assms(2), of s]
  show "writes_good env sys True s s'" using e by (auto simp: c)
qed

section \<open>Runs of the store\<close>

text \<open>A step that writes configuration, and one that may also write a ledger; ledgers are written without loading the configuration.\<close>

inductive config_step :: "bool \<Rightarrow> go_env \<Rightarrow> os \<Rightarrow> store \<Rightarrow> store \<Rightarrow> bool" for sound env sys where
  step_save: "call_ok sound io \<Longrightarrow> config_step sound env sys s (snd (save env sys io co x s))"
| step_delete: "call_ok sound io \<Longrightarrow> config_step sound env sys s (snd (Delete env sys io k n s))"
| step_save_batch: "call_ok sound io \<Longrightarrow> (sound \<longrightarrow> (\<forall>p. io_write io p)) \<Longrightarrow> config_step sound env sys s (snd (SaveBatch env sys io xs s))"
| step_apply_batch: "call_ok sound io \<Longrightarrow> config_step sound env sys s (snd (ApplyBatch env sys io ups dels g s))"
| step_revert: "call_ok sound io \<Longrightarrow> config_step sound env sys s (snd (Revert env sys io h s))"
| step_revert_object: "call_ok sound io \<Longrightarrow> config_step sound env sys s (snd (RevertObject env sys io k n h s))"
| step_restore: "call_ok sound io \<Longrightarrow> archive_named archive \<Longrightarrow> config_step sound env sys s (snd (Restore env sys io archive s))"
| step_settings: "call_ok sound io \<Longrightarrow> config_step sound env sys s (snd (saveSettings env sys io st s))"
| step_update_settings: "call_ok sound io \<Longrightarrow> config_step sound env sys s (snd (UpdateSettings env sys io f s))"

inductive store_step :: "bool \<Rightarrow> go_env \<Rightarrow> os \<Rightarrow> store \<Rightarrow> store \<Rightarrow> bool" for sound env sys where
  step_config: "config_step sound env sys s s' \<Longrightarrow> store_step sound env sys s s'"
| step_dns_ledger: "call_ok sound io \<Longrightarrow> store_step sound env sys s (snd (SaveDNSLedger io l base s))"
| step_list_ledger: "call_ok sound io \<Longrightarrow> store_step sound env sys s (snd (SaveAccessListSourceLedger sha rfc io m base s))"

definition empty_store :: store where
  "empty_store = \<lparr>cs_tree = [], cs_log = []\<rparr>"

inductive store_reachable :: "bool \<Rightarrow> go_env \<Rightarrow> os \<Rightarrow> store \<Rightarrow> bool" for sound env sys where
  started: "call_ok sound io \<Longrightarrow> Init io empty_store = (Inr h, s) \<Longrightarrow> store_reachable sound env sys s"
| stepped: "store_reachable sound env sys s \<Longrightarrow> store_step sound env sys s s' \<Longrightarrow> store_reachable sound env sys s'"

definition first_tree :: tree where
  "first_tree = [(settingsFile, SettingsDoc DefaultSettings)]"

lemma first_tree_wf: "tree_wf first_tree"
  by (simp add: tree_wf_def tree_ok_def first_tree_def)

lemma first_tree_served: "served env sys first_tree"
proof -
  have "good env sys True first_tree"
  proof (rule good_merged [of "[]" _ DefaultSettings])
    show "stands_for [] first_tree" by (simp add: stands_for_def first_tree_def)
    show "tree_wf first_tree" by (rule first_tree_wf)
    show "load_settings first_tree = Inr DefaultSettings" by (simp add: load_settings_def first_tree_def)
    show "validate_settings env sys DefaultSettings = None" by (rule DefaultSettings_valid)
    show "Validate env (config_of []) = []"
      by (simp add: Validate_def object_errors_def host_errors_def final_refs_def config_of_def List.map_filter_simps host_claims_def cert_claims_def
        tcp_conflicts_def Let_def)
    show "checkAdminEdge env (config_of []) DefaultSettings = None"
      by (simp add: checkAdminEdge_def edge_ValidateRefs_def DefaultSettings_def no_admin_edge_def)
    show "LiteralSecrets (config_secrets (config_of [])) = []"
      by (simp add: no_literal_secrets config_of_def List.map_filter_simps)
    show "LiteralSecrets (settings_secrets DefaultSettings) = []"
      by (simp add: LiteralSecrets_Nil settings_secrets_def DefaultSettings_def indexed_def literal_secret_def) code_simp
  qed
  then show ?thesis by (simp add: good_def okay_served)
qed

lemma Init_first: "Init io empty_store = (Inr h, s) \<Longrightarrow> s = \<lparr>cs_tree = first_tree, cs_log = [(io_hash io, first_tree)]\<rparr>"
  by (auto simp: Init_def empty_store_def checkLegacyKindDirs_def countYAML_def dir_docs_def writeYAML_def first_tree_def
    CommitAll_def IsClean_def head_tree_def git_Head_def Let_def split: if_splits)

text \<open>What holds of every store of a run.\<close>

definition run_inv :: "bool \<Rightarrow> go_env \<Rightarrow> os \<Rightarrow> store \<Rightarrow> bool" where
  "run_inv sound env sys s \<longleftrightarrow>
     start_ok env sys sound s \<and> cs_log s \<noteq> [] \<and> (sound \<longrightarrow> list_all (\<lambda>(_, t). served env sys t) (cs_log s))"

lemma run_inv_plain: "run_inv sound env sys s \<Longrightarrow> start_ok env sys False s"
  by (simp add: run_inv_def start_ok_def)

lemma run_inv_head: "run_inv sound env sys s \<Longrightarrow> git_Head s \<noteq> []"
  by (cases "cs_log s") (auto simp: run_inv_def start_ok_def git_Head_def)

lemma call_inv:
  assumes "run_inv sound env sys s" "call_good env sys sound sound s s'"
  shows "run_inv sound env sys s'"
proof -
  have h: "served env sys (head_tree s)" if sound
    using assms(1) that by (cases "cs_log s") (auto simp: run_inv_def head_tree_def)
  have g: "tree_named t \<and> (sound \<longrightarrow> served env sys t)" if "good env sys sound t" for t
    using that wf_tree_named okay_served [of env sys] by (cases sound) (auto simp: good_def)
  have t: "tree_named (cs_tree s') \<and> (sound \<longrightarrow> served env sys (cs_tree s'))"
    using assms h g by (auto simp: call_good_def run_inv_def start_ok_def)
  from assms show ?thesis
    using t g by (auto simp: call_good_def commits_good_def run_inv_def start_ok_def)
qed

lemma config_step_good:
  assumes "config_step sound env sys s s'" "start_ok env sys lit s" "sound \<Longrightarrow> git_Head s \<noteq> []"
  shows "call_good env sys lit sound s s'"
  using assms(1)
proof (cases rule: config_step.cases)
  case (step_save io co x)
  then show ?thesis using writes_call [OF assms(2) save_good [OF assms(2)]] by simp
next
  case (step_delete io k n)
  then show ?thesis using writes_call [OF assms(2) Delete_good [OF assms(2)]] by simp
next
  case (step_save_batch io xs)
  then show ?thesis using SaveBatch_good [OF assms(2)] by simp
next
  case (step_apply_batch io ups dels g)
  then show ?thesis using ApplyBatch_good [OF assms(2)] by simp
next
  case (step_revert io h)
  then show ?thesis using Revert_good [OF assms(2)] by simp
next
  case (step_revert_object io k n h)
  then show ?thesis using RevertObject_good [OF assms(2)] by simp
next
  case (step_restore io archive)
  then show ?thesis using Restore_good [OF assms(2) _ _ assms(3)] by simp
next
  case (step_settings io st)
  then show ?thesis using writes_call [OF assms(2) saveSettings_good [OF assms(2)]] by simp
next
  case (step_update_settings io f)
  then show ?thesis using writes_call [OF assms(2) UpdateSettings_good [OF assms(2)]] by simp
qed

lemma ledger_inv:
  assumes "run_inv sound env sys s" "call_ok sound io" "entry_wf (p, d)" "\<And>x u. d \<noteq> ObjDoc x u" "d \<noteq> BadDoc" "p \<noteq> settingsFile"
  shows "run_inv sound env sys (snd (save_ledger io invalid base p d s))"
proof -
  have st: "start_ok env sys sound s" using assms(1) by (simp add: run_inv_def)
  note k = save_ledger_ok [OF st assms(2-6) refl, of invalid base]
  show ?thesis
  proof (cases sound)
    case True
    from writes_call [OF st [unfolded True], of "snd (save_ledger io invalid base p d s)" True] k(3) [OF True]
    show ?thesis using call_inv [OF assms(1)] True by simp
  next
    case False
    have "cs_log (snd (save_ledger io invalid base p d s)) \<noteq> []"
      using assms(1) by (auto simp: save_ledger_def writeYAML_def CommitAll_def run_inv_def split: option.split)
    with k(1,2) False show ?thesis by (simp add: run_inv_def start_ok_def)
  qed
qed

lemma step_inv:
  assumes "store_step sound env sys s s'" "run_inv sound env sys s"
  shows "run_inv sound env sys s'"
  using assms(1)
proof (cases rule: store_step.cases)
  case step_config
  have "start_ok env sys sound s" using assms(2) by (simp add: run_inv_def)
  from call_inv [OF assms(2) config_step_good [OF step_config this run_inv_head [OF assms(2)]]] show ?thesis .
next
  case (step_dns_ledger io l base)
  then show ?thesis
    using ledger_inv [OF assms(2), of io dnsLedgerFile "DnsLedgerDoc l"]
    by (simp add: SaveDNSLedger_def dnsLedgerFile_def settingsFile_def)
next
  case (step_list_ledger io sha rfc m base)
  then show ?thesis
    using ledger_inv [OF assms(2), of io accessListSourcesFile "ListLedgerDoc m"]
    by (simp add: SaveAccessListSourceLedger_def accessListSourcesFile_def settingsFile_def)
qed

lemma reachable_inv: "store_reachable sound env sys s \<Longrightarrow> run_inv sound env sys s"
proof (induction rule: store_reachable.induct)
  case (started io h s)
  then show ?case
    using Init_first [OF started(2)] first_tree_served wf_tree_named [OF first_tree_wf] by (simp add: run_inv_def start_ok_def call_ok_def)
next
  case (stepped s s')
  then show ?case using step_inv by blast
qed

text \<open>C5: what a call commits loads. Whatever calls were made before on the store, and whichever of their writes, removals, undos, rollbacks and
  git commands failed half-way or were never undone, a save, delete, batch, revert, restore or settings write commits only a
  configuration that loads, validates and leaves the admin edge's name free. So the leftovers of a failed call are either repaired
  or keep later writes out. Ledger writes are not covered: they commit the tree as it is. Files of broken writes and of archives are
  assumed not to hold objects under another name than their own.\<close>

theorem store_commits_load:
  assumes "store_reachable sound env sys s" "config_step sound env sys s s'" "cs_log s' \<noteq> cs_log s"
  shows "\<exists>objs st. loadLocked env sys (head_tree s') = Inr (objs, st) \<and> Validate env (config_of objs) = [] \<and>
    checkAdminEdge env (config_of objs) st = None"
proof -
  note inv = reachable_inv [OF assms(1)]
  from config_step_good [OF assms(2) run_inv_plain [OF inv] run_inv_head [OF inv]] assms(3)
  obtain h t where t: "cs_log s' = (h, t) # cs_log s" "good env sys False t" by (auto simp: call_good_def commits_good_def)
  then obtain objs st where l: "loadLocked env sys t = Inr (objs, st)" "checkAdminEdge env (config_of objs) st = None"
    by (auto simp: good_def okay_def split: sum.splits)
  have "tree_named t" using t(2) by (simp add: good_def wf_tree_named)
  from load_facts(7) [OF this l(1)] l show ?thesis by (simp add: head_tree_def t(1))
qed


section \<open>Failed writes\<close>


section \<open>Revoked tokens stay revoked\<close>

lemma map_of_rev_ok: "tree_ok t \<Longrightarrow> map_of (rev t) = map_of t"
  using tree_ok_distinct [of t] by (intro map_of_inject_set [THEN iffD2]) (simp_all add: rev_map [symmetric])

lemma map_of_filtered: "map_of (filter (\<lambda>(q, _). P q) ts) q = (if P q then map_of ts q else None)"
  by (induction ts) auto

lemma snapshot_look: "map_of (snapshotDirs t) p = (if token_file p then map_of t p else None)"
  by (simp add: snapshotDirs_def map_of_filtered)

lemma writeDirs_tokens:
  assumes "tree_ok t" "tree_ok t0" "token_file p" "writeDirs io (snapshotDirs t0) t = (True, t')"
  shows "map_of t' p = map_of t0 p"
proof -
  let ?drop = "filter (\<lambda>p. token_file p \<and> map_of (snapshotDirs t0) p = None) (map fst t)"
  have t': "t' = foldl (\<lambda>t (p, d). tree_put t p d) (foldl tree_del t ?drop) (snapshotDirs t0)"
    using assms(4) by (auto simp: writeDirs_def dest!: removes_done plain_writes_done split: prod.splits bool.splits)
  note d = foldl_del_look [OF assms(1), of ?drop p]
  have "tree_ok (snapshotDirs t0)" unfolding snapshotDirs_def by (rule tree_filter_ok [OF assms(2)])
  note r = map_of_rev_ok [OF this]
  have "p \<in> set ?drop \<or> map_of t p = None" if "map_of t0 p = None"
    using that assms(3) by (auto simp: snapshot_look map_of_eq_None_iff)
  then show ?thesis
    using ft.puts_look [OF d [THEN conjunct1], of "snapshotDirs t0" p] d assms(3)
    by (auto simp: t' r snapshot_look split: option.splits if_splits)
qed

lemma token_path:
  assumes "ValidateName n = None"
  shows "token_file (obj_path k n) \<longleftrightarrow> dir_of k = ''api-tokens''"
proof
  assume "token_file (obj_path k n)"
  then obtain z where "dir_of k @ CHR ''/'' # (n @ ''.yaml'') = ''api-tokens'' @ CHR ''/'' # z"
    by (auto simp: token_file_def obj_path_slash prefix_def)
  from slash_split [OF this dir_of_slash] show "dir_of k = ''api-tokens''" by simp
qed (use name_no_slash [OF assms] in \<open>simp add: token_file_def obj_path_slash prefix_def\<close>)

lemma commit_restored_tree: "commit_restored env sys io t s = (Inr sha, s') \<Longrightarrow> cs_tree s' = t"
  by (auto simp: commit_restored_def split: option.splits sum.splits prod.splits dest: CommitAll_cases(1))

lemma named_ok: "tree_named t \<Longrightarrow> tree_ok t"
  by (simp add: tree_named_def)

text \<open>C8: no way back through history or an archive revives an API token. After a successful revert, object revert
  or restore the token files are exactly those of before: a deleted or rotated token does not come back, and
  none is lost.\<close>

theorem revert_keeps_tokens:
  assumes "store_reachable sound env sys s" "token_file p"
    and "Revert env sys io h s = (Inr sha, s') \<or> RevertObject env sys io k n h s = (Inr sha, s') \<or>
      Restore env sys io archive s = (Inr sha, s')"
  shows "map_of (cs_tree s') p = map_of (cs_tree s) p"
proof -
  note st = run_inv_plain [OF reachable_inv [OF assms(1)]]
  have ok: "tree_ok (cs_tree s)" using st by (simp add: start_ok_def tree_named_def)
  have "map_of (cs_tree s') p = map_of (cs_tree s) p" if r: "Revert env sys io h s = (Inr sha, s')"
  proof -
    obtain t where t: "map_of (cs_log s) h = Some t" "writeDirs io (snapshotDirs (cs_tree s)) t = (True, cs_tree s')"
      using r by (auto simp: Revert_def RestoreTree_def split: if_splits option.splits restore_run.splits prod.splits bool.splits dest: commit_restored_tree)
    show ?thesis by (rule writeDirs_tokens [OF named_ok [OF log_named [OF st t(1)]] ok assms(2) t(2)])
  qed
  moreover have "map_of (cs_tree s') p = map_of (cs_tree s) p" if r: "RevertObject env sys io k n h s = (Inr sha, s')"
  proof -
    obtain d where d: "cs_tree s' = tree_put (cs_tree s) (obj_path k n) d" "dir_of k \<noteq> ''api-tokens''" "ValidateName n = None"
      using r by (auto simp: RevertObject_def split: if_splits option.splits dest: commit_restored_tree)
    then show ?thesis using assms(2) token_path [OF d(3), of k] by (auto simp: ft.look_put [OF ok])
  qed
  moreover have "map_of (cs_tree s') p = map_of (cs_tree s) p" if r: "Restore env sys io archive s = (Inr sha, s')"
  proof -
    obtain files t where t: "replaceConfigFiles io files (cs_tree s) = (True, t)" "writeDirs io (snapshotDirs (cs_tree s)) t = (True, cs_tree s')"
      using r by (auto simp: Restore_def split: sum.splits if_splits option.splits prod.splits bool.splits dest: CommitAll_cases(1))
    have "t = foldl (\<lambda>t (p, d). tree_put t p d) (foldl tree_del (cs_tree s) (configFiles (cs_tree s))) files"
      using t(1) by (auto simp: replaceConfigFiles_def dest!: removes_done plain_writes_done split: prod.splits bool.splits)
    then have "tree_ok t" using ft.puts_look foldl_del_look [OF ok] by blast
    from writeDirs_tokens [OF this ok assms(2) t(2)] show ?thesis .
  qed
  ultimately show ?thesis using assms(3) by blast
qed

section \<open>The store as a map\<close>

text \<open>What a load of the store returns under a kind and name.\<close>

definition stored :: "go_env \<Rightarrow> os \<Rightarrow> store \<Rightarrow> string \<times> string \<Rightarrow> object option" where
  "stored env sys s kn =
     (case loadLocked env sys (cs_tree s) of Inl _ \<Rightarrow> None | Inr (objs, _) \<Rightarrow> findObject objs (fst kn) (snd kn))"

lemma stored_tree: "loadLocked env sys (cs_tree s) = Inr (loaded (cs_tree s), st) \<Longrightarrow> stored env sys s kn = findObject (loaded (cs_tree s)) (fst kn) (snd kn)"
  by (simp add: stored_def)

lemma obj_times_set [simp]: "obj_times (set_times ts x) = ts"
  by (cases x) simp_all

lemma stamp_created:
  "ex = Some old \<Longrightarrow> fst (obj_times old) \<noteq> 0 \<Longrightarrow> fst (obj_times (stampTimes x ex now)) = fst (obj_times old)"
  by (cases "obj_times old") (simp add: stampTimes_def stampMeta_def)

text \<open>The outcome of a successful save: the file of the object holds it up to times, and the tree is the old one but for that file.\<close>

lemma save_done:
  assumes "tree_named (cs_tree s)" "save env sys io co x s = (Inr sha, s')"
  obtains objs st y where "loadLocked env sys (cs_tree s) = Inr (objs, st)" "validate_object env x = None"
    "merged_checks env io st (withObject objs x) = None"
    "\<not> (edge_Enabled (gs_AdminEdge st) \<and> Kind x = ''ProxyHost'' \<and> obj_Name x = AdminEdgeHostName)"
    "erase y = erase x" "cs_tree s' = tree_put (cs_tree s) (obj_path (Kind x) (obj_Name x)) (ObjDoc y Written)" "IsClean s'"
    "\<forall>old. findObject objs (Kind x) (obj_Name x) = Some old \<and> fst (obj_times old) \<noteq> 0 \<longrightarrow> fst (obj_times y) = fst (obj_times old)"
proof -
  obtain p out ex where r: "prepareSave env sys io x (cs_tree s) = Inr (p, out, ex)"
    using assms(2) by (auto simp: save_def split: sum.splits)
  from prepareSave_Inr [OF r] obtain objs st where p: "loadLocked env sys (cs_tree s) = Inr (objs, st)" "validate_object env x = None"
      "merged_checks env io st (withObject objs x) = None"
      "\<not> (edge_Enabled (gs_AdminEdge st) \<and> Kind x = ''ProxyHost'' \<and> obj_Name x = AdminEdgeHostName)"
      "p = obj_path (Kind x) (obj_Name x)" "out = stampTimes x (findObject objs (Kind x) (obj_Name x)) (io_now io)" by blast
  note l = load_facts [OF assms(1) p(1)]
  show thesis
  proof (cases "ex \<and> unchangedOnDisk (cs_tree s) p out \<and> io_status io \<and> IsClean s")
    case True
    then obtain y where y: "map_of (cs_tree s) p = Some (ObjDoc y Written)" "erase y = erase out"
      by (auto simp: unchangedOnDisk_def split: option.splits doc.splits file_form.splits)
    have s: "s' = s" using assms(2) True by (auto simp: save_def r split: if_splits)
    have k: "Kind y = Kind x" "obj_Name y = obj_Name x" using y(2) p(6) erase_stamp(1) erase_simps(1,2) by metis+
    have "(p, ObjDoc y Written) \<in> set (cs_tree s)" using y(1) tree_look [OF l(4)] by simp
    then have "y \<in> set (tree_objs (cs_tree s))" using tree_objs_set by blast
    then have "findObject objs (Kind x) (obj_Name x) = Some y"
      using find_loaded [OF l(3)] l(1) k by (simp add: obj_key_def)
    moreover have "tree_put (cs_tree s) p (ObjDoc y Written) = cs_tree s" by (rule ft.put_same [OF l(4) y(1)])
    moreover have "erase y = erase x" using y(2) p(6) by simp
    ultimately show thesis using that [OF p(1-4)] s p(5) True by auto
  next
    case False
    then have c: "CommitAll io (s\<lparr>cs_tree := tree_put (cs_tree s) p (ObjDoc out Written)\<rparr>) = (Inr sha, s')"
      using assms(2) by (auto simp: save_def r writeYAML_def split: if_splits)
    have "IsClean s'" using CommitAll_cases(4) [OF c] by simp
    moreover have "cs_tree s' = tree_put (cs_tree s) p (ObjDoc out Written)" using CommitAll_cases(1) [OF c] by simp
    ultimately show thesis using that [OF p(1-4), of out] p(5,6) stamp_created by simp
  qed
qed

text \<open>What a call wrote of a tree that loads, loads.\<close>

lemma written_loads:
  assumes "tree_named (cs_tree s)" "loadLocked env sys (cs_tree s) = Inr r" "writes_good env sys False s s'"
  shows "\<exists>st. loadLocked env sys (cs_tree s') = Inr (loaded (cs_tree s'), st)"
  using assms(3) goodD(3) load_facts(1) [OF assms(1)] assms(2) by (cases r) (auto simp: writes_good_def)

text \<open>C9: the store refines a map from kind and name to objects. A successful save maps exactly the key of the object to it,
  up to the times the store maintains, and never changes an object's creation time; a successful delete removes exactly
  its key, which was present; nothing else that a load returns changes.\<close>

theorem store_refines_map:
  assumes "store_reachable sound env sys s" "call_ok False io"
  shows "(save env sys io co x s = (Inr sha, s') \<longrightarrow>
      (\<exists>y. erase y = erase x \<and> stored env sys s' = (stored env sys s)(obj_key x \<mapsto> y) \<and>
        (\<forall>old. stored env sys s (obj_key x) = Some old \<and> fst (obj_times old) \<noteq> 0 \<longrightarrow> fst (obj_times y) = fst (obj_times old)))) \<and>
    (Delete env sys io k n s = (Inr sha, s') \<longrightarrow>
      stored env sys s (k, n) \<noteq> None \<and> stored env sys s' = (stored env sys s)((k, n) := None))"
proof (intro conjI impI)
  note st = run_inv_plain [OF reachable_inv [OF assms(1)]]
  have nm: "tree_named (cs_tree s)" using st by (simp add: start_ok_def)
  assume sv: "save env sys io co x s = (Inr sha, s')"
  from save_done [OF nm sv] obtain objs sets y where d: "loadLocked env sys (cs_tree s) = Inr (objs, sets)" "validate_object env x = None"
    "erase y = erase x" "cs_tree s' = tree_put (cs_tree s) (obj_path (Kind x) (obj_Name x)) (ObjDoc y Written)"
    "\<forall>old. findObject objs (Kind x) (obj_Name x) = Some old \<and> fst (obj_times old) \<noteq> 0 \<longrightarrow> fst (obj_times y) = fst (obj_times old)" .
  note l = load_facts [OF nm d(1)]
  have k: "Kind y = Kind x" "obj_Name y = obj_Name x" using d(3) erase_simps(1,2) by metis+
  obtain st' where l': "loadLocked env sys (cs_tree s') = Inr (loaded (cs_tree s'), st')"
    using written_loads [OF nm d(1)] save_good [OF st assms(2), of co x] sv by auto
  note q = stored_tree [OF d(1) [unfolded l(1)]] and q' = stored_tree [OF l']
  have "stored env sys s' = (stored env sys s)(obj_key x \<mapsto> y)"
    using find_put [OF l(3) k validate_object_name [OF d(2)], of Written] by (auto simp: fun_eq_iff q q' d(4))
  then show "\<exists>y. erase y = erase x \<and> stored env sys s' = (stored env sys s)(obj_key x \<mapsto> y) \<and>
        (\<forall>old. stored env sys s (obj_key x) = Some old \<and> fst (obj_times old) \<noteq> 0 \<longrightarrow> fst (obj_times y) = fst (obj_times old))"
    using d(3,5) l(1) by (intro exI [of _ y]) (simp add: q obj_key_def)
next
  note st = run_inv_plain [OF reachable_inv [OF assms(1)]]
  have nm: "tree_named (cs_tree s)" using st by (simp add: start_ok_def)
  assume dl: "Delete env sys io k n s = (Inr sha, s')"
  then obtain objs sets d where d: "loadLocked env sys (cs_tree s) = Inr (objs, sets)" "map_of kindDir k \<noteq> None"
      "map_of (cs_tree s) (obj_path k n) = Some d"
      and c: "CommitAll io (s\<lparr>cs_tree := tree_del (cs_tree s) (obj_path k n)\<rparr>) = (Inr sha, s')"
      and v: "ValidateName n = None"
    by (auto simp: Delete_def Let_def split: if_splits sum.splits)
  have t: "cs_tree s' = tree_del (cs_tree s) (obj_path k n)" using CommitAll_cases(1) [OF c] by simp
  note l = load_facts [OF nm d(1)]
  obtain st' where l': "loadLocked env sys (cs_tree s') = Inr (loaded (cs_tree s'), st')"
    using written_loads [OF nm d(1)] Delete_good [OF st assms(2), of k n] dl by auto
  note q = stored_tree [OF d(1) [unfolded l(1)]] and q' = stored_tree [OF l']
  show "stored env sys s' = (stored env sys s)((k, n) := None)"
    using find_del [OF l(3) d(2)] by (auto simp: fun_eq_iff q q' t)
  have m: "(obj_path k n, d) \<in> set (cs_tree s)" using d(3) tree_look [OF l(4)] by simp
  obtain dd where dd: "(k, dd) \<in> set kindDir" "dir_of k = dd" using d(2) by (auto dest: map_of_SomeD simp: dir_of_in)
  have "in_dir dd (obj_path k n)" using in_dir_obj [OF kindDir_slash [OF dd(1)] v, of k] dd(2) by simp
  from loaded_file [OF d(1) m dd(1) this] obtain y u where y: "d = ObjDoc y u" by blast
  have "entry_named (obj_path k n, d)" by (rule named_entry [OF nm d(3)])
  then have "obj_key y = (k, n)"
    using y slash_split [OF _ dir_of_slash dir_of_slash, of "Kind y" "obj_Name y @ ''.yaml''" k "n @ ''.yaml''"]
      dir_inj [OF kind_in [of y], of k] dd by (auto simp: obj_path_slash obj_key_def)
  moreover have "y \<in> set (tree_objs (cs_tree s))" using m y tree_objs_set by blast
  ultimately show "stored env sys s (k, n) \<noteq> None" using find_loaded [OF l(3), of k n y] by (simp add: q)
qed

section \<open>Repeated saves\<close>

lemma same_config_geo:
  assumes "same_contents c c'" "io_geo io = io_geo io'" "checkGeoAvailable io c = None"
  shows "checkGeoAvailable io' c' = None"
  using assms(3)
  by (simp add: checkGeoAvailable_def assms(2) find_None_iff mset_eq_setD [OF same_configD(5) [OF assms(1)]] split: if_splits) auto

text \<open>The checks of a second save of what the tree already holds.\<close>

lemma merged_again:
  assumes "good env sys True t" "loadLocked env sys t = Inr (objs, st)" "map_of t (obj_path (Kind x) (obj_Name x)) = Some (ObjDoc y Written)"
    and "erase y = erase x" "ValidateName (obj_Name x) = None" "stands_for xs t" "checkGeoAvailable io (config_of xs) = None" "io_geo io = io_geo io'"
  shows "merged_checks env io' st (withObject objs x) = None"
proof -
  let ?p = "obj_path (Kind x) (obj_Name x)"
  note wf = goodD(1) [OF assms(1)] and ok = goodD(2) [OF assms(1)]
  have l: "objs = loaded t" using loadLocked_tree [OF wf] assms(2) by blast
  have g: "Validate env (config_of objs) = []" "checkAdminEdge env (config_of objs) st = None"
    "LiteralSecrets (config_secrets (config_of objs)) = []"
    using loadLocked_tree [OF wf] assms(1,2) by (auto simp: good_def okay_def)
  have "stands_for (withObject objs x) (tree_put t ?p (ObjDoc y Written))"
    using stands_for_put [OF stands_for_loaded [OF wf] wf assms(4,5)] l by simp
  then have "stands_for (withObject objs x) t" using ft.put_same [OF ok assms(3)] by simp
  note c = same_config_sym [OF stands_for_config [OF this wf]]
  have o: "same_contents (config_of objs) (config_of (withObject objs x))"
    using same_config_trans [OF stands_for_config [OF stands_for_loaded [OF wf] wf] c] l by simp
  have x: "same_contents (config_of xs) (config_of (withObject objs x))"
    by (rule same_config_trans [OF stands_for_config [OF assms(6) wf] c])
  show ?thesis
    unfolding merged_checks_None
    using Validate_same_config [OF o g(1)] same_config_edge [OF o g(2)] same_config_literals [OF o] g(3) same_config_geo [OF x assms(8,7)] by simp
qed

text \<open>Saving is idempotent. After a successful save, saving the same object again at any later time, with the geo database in
  the same state and a status call that works, succeeds, writes nothing and makes no commit, although its times would differ.\<close>

theorem save_idempotent:
  assumes "store_reachable True env sys s" "call_ok True io" "save env sys io co x s = (Inr sha, s')" "io_geo io = io_geo io'" "io_status io'"
  shows "save env sys io' False x s' = (Inr [], s')"
proof -
  have st0: "start_ok env sys True s" using reachable_inv [OF assms(1)] by (simp add: run_inv_def)
  then have nm: "tree_named (cs_tree s)" by (simp add: start_ok_def)
  let ?p = "obj_path (Kind x) (obj_Name x)"
  from save_done [OF nm assms(3)] obtain objs st y where d: "loadLocked env sys (cs_tree s) = Inr (objs, st)" "validate_object env x = None"
    "merged_checks env io st (withObject objs x) = None"
    "\<not> (edge_Enabled (gs_AdminEdge st) \<and> Kind x = ''ProxyHost'' \<and> obj_Name x = AdminEdgeHostName)"
    "erase y = erase x" "cs_tree s' = tree_put (cs_tree s) ?p (ObjDoc y Written)" "IsClean s'" .
  note l = load_facts [OF nm d(1)] and n = validate_object_name [OF d(2)]
  have sv: "served env sys (cs_tree s)" using st0 by (simp add: start_ok_def)
  have "good env sys True (cs_tree s)" using l(3) sv by (simp add: good_def okay_served)
  then have g: "good env sys True (cs_tree s')"
    using save_good [OF st0 assms(2), of co x] assms(3) by (auto simp: writes_good_def)
  have f: "map_of (cs_tree s') ?p = Some (ObjDoc y Written)" by (simp add: d(6) ft.look_put [OF l(4)])
  have "load_settings (cs_tree s') = load_settings (cs_tree s)"
    by (rule load_settings_cong) (simp add: d(6) ft.look_put [OF l(4)] obj_path_top(1) [symmetric])
  then have ld: "loadLocked env sys (cs_tree s') = Inr (loaded (cs_tree s'), st)" using goodD(3) [OF g] load_facts(5) [OF wf_tree_named [OF goodD(1) [OF g]]] l(5) by fastforce
  have "stands_for (withObject objs x) (cs_tree s')" unfolding d(6) by (rule stands_for_put [OF l(2,3) d(5) n])
  moreover have "checkGeoAvailable io (config_of (withObject objs x)) = None" using d(3) by (simp add: merged_checks_None)
  ultimately have m: "merged_checks env io' st (withObject (loaded (cs_tree s')) x) = None"
    using merged_again [OF g ld f d(5) n _ _ assms(4)] by blast
  have k: "obj_key y = (Kind x, obj_Name x)" using d(5) obj_key_times by (metis obj_key_def)
  have "(?p, ObjDoc y Written) \<in> set (cs_tree s')" using f tree_look [OF goodD(2) [OF g]] by simp
  then have "findObject (loaded (cs_tree s')) (Kind x) (obj_Name x) = Some y"
    using find_loaded [OF goodD(1) [OF g]] k tree_objs_set by blast
  then show ?thesis using d(2,4,5,7) m f assms(5) by (auto simp: save_def prepareSave_def ld unchangedOnDisk_def)
qed

section \<open>The admin panel stays reachable\<close>

text \<open>With the admin edge on, the compiled configuration of every store of a sound run has the panel's host as its last proxy
  host: it validates with the listener's address, keeps its reserved name to itself and no enabled stored proxy host answers for the panel's
  hostname. The branch of \<open>LoadCompiled\<close> that leaves the panel out is reached only by edits behind the store's back.\<close>

theorem admin_edge_compiled:
  assumes "store_reachable True env sys s" "loadLocked env sys (cs_tree s) = Inr (objs, st)" "edge_Enabled (gs_AdminEdge st)"
    and "validate_upstream up = None" "u_Port up > 0"
  shows "\<exists>h. LoadCompiled env sys up s = Inr ((config_of objs)\<lparr>c_ProxyHosts := c_ProxyHosts (config_of objs) @ [h]\<rparr>, st) \<and>
    ph_Name h = AdminEdgeHostName \<and> ph_Domains h = [AdminEdgeHostname env (gs_ExternalBaseURL st)] \<and> \<not> ph_Disabled h \<and>
    validate_proxy_host (env_template env) h = None \<and>
    (\<forall>g \<in> set (c_ProxyHosts (config_of objs)). ph_Name g \<noteq> AdminEdgeHostName \<and>
       (\<not> ph_Disabled g \<longrightarrow> ToLower (AdminEdgeHostname env (gs_ExternalBaseURL st)) \<notin> set (map (\<lambda>d. ToLower (TrimSpace d)) (ph_Domains g))))"
proof -
  have st0: "tree_named (cs_tree s)" "served env sys (cs_tree s)" using reachable_inv [OF assms(1)] by (simp_all add: run_inv_def start_ok_def)
  note l = load_facts [OF st0(1) assms(2)] and sv = served_load [OF st0(2) assms(2)]
  let ?n = "AdminEdgeHostname env (gs_ExternalBaseURL st)" and ?c = "config_of objs"
  let ?h = "edge_Host (gs_AdminEdge st) ?n up"
  note e = sv(2) [unfolded checkAdminEdge_def]
  have v: "validate_admin_edge env (gs_ExternalBaseURL st) (gs_AdminEdge st) = None"
    using l(6) by (simp add: validate_settings_def)
  then have n: "?n \<noteq> []" using assms(3) by (simp add: validate_admin_edge_def Let_def)
  have c: "LoadCompiled env sys up s = Inr (?c\<lparr>c_ProxyHosts := c_ProxyHosts ?c @ [?h]\<rparr>, st)"
    using assms(2,3,5) sv(2) n by (simp add: LoadCompiled_def Let_def)
  have h: "ph_Name ?h = AdminEdgeHostName" "ph_Domains ?h = [?n]" "\<not> ph_Disabled ?h" by (simp_all add: edge_Host_def derived_host_def no_host_def)
  have r: "ph_Name g \<noteq> AdminEdgeHostName" if "g \<in> set (c_ProxyHosts ?c)" for g
    using edge_refs_parts(3) [OF e assms(3)] that by (force split: if_splits)
  have d: "ToLower ?n \<notin> set (map (\<lambda>d. ToLower (TrimSpace d)) (ph_Domains g))" if "g \<in> set (c_ProxyHosts ?c)" "\<not> ph_Disabled g" for g
    using edge_domain_free(1) [OF e assms(3) that] by force
  show ?thesis using c h edge_host_checked [OF v assms(3,4)] r d by blast
qed

end
