(* ===== verification/Store_Examples.thy ===== *)
theory Store_Examples
  imports Store_Safety
begin

text \<open>
  Concrete runs of the configuration store: a token is created and deleted, a batch fails and is undone, a revert does not bring the
  token back; and two runs in which the store does less than its comments say: a bulk write that fails half-way is swept into
  the next commit, and deleting the only sign-in provider locks every administrator out.
\<close>

section \<open>A run\<close>

definition demo_io :: "string \<Rightarrow> int \<Rightarrow> io" where
  "demo_io h now = \<lparr>io_now = now, io_hash = h, io_geo = None, io_write = (\<lambda>_. True), io_plain = (\<lambda>_. Done), io_remove = (\<lambda>_. True),
     io_undo = (\<lambda>_. Done), io_status = True, io_stage = True, io_commit = True, io_head = True, io_head_after = True, io_restore = Restored,
     io_rollback = Restored, io_spare = (\<lambda>_. 0)\<rparr>"

lemma demo_io_simps [simp]:
  "io_now (demo_io h n) = n" "io_hash (demo_io h n) = h" "io_geo (demo_io h n) = None" "io_write (demo_io h n) p" "io_plain (demo_io h n) p = Done"
  "io_remove (demo_io h n) p" "io_undo (demo_io h n) p = Done" "io_status (demo_io h n)" "io_stage (demo_io h n)" "io_commit (demo_io h n)"
  "io_head (demo_io h n)" "io_head_after (demo_io h n)" "io_restore (demo_io h n) = Restored" "io_rollback (demo_io h n) = Restored"
  by (simp_all add: demo_io_def)

lemma demo_io_sound: "h \<noteq> [] \<Longrightarrow> call_ok sound (demo_io h n)"
  by (simp add: call_ok_def garbles_named_def)

definition ci_token :: api_token where
  "ci_token = \<lparr>tok_Name = ''ci'', tok_Disabled = False, TokenHash = ''d1'', tok_Scopes = [''admin''], ExpiresAt = None\<rparr>"

definition ci_path :: string where "ci_path = ''api-tokens/ci.yaml''"

definition ci_tree :: tree where
  "ci_tree = [(ci_path, ObjDoc (OAPIToken (9, 9) ci_token) Written), (settingsFile, SettingsDoc DefaultSettings)]"

definition run1 :: store where "run1 = \<lparr>cs_tree = first_tree, cs_log = [(''aaaaaa1'', first_tree)]\<rparr>"
definition run2 :: store where "run2 = \<lparr>cs_tree = ci_tree, cs_log = [(''aaaaaa2'', ci_tree), (''aaaaaa1'', first_tree)]\<rparr>"
definition run3 :: store where
  "run3 = \<lparr>cs_tree = first_tree, cs_log = [(''aaaaaa3'', first_tree), (''aaaaaa2'', ci_tree), (''aaaaaa1'', first_tree)]\<rparr>"

lemma ci_names: "ValidateName ''ci'' = None" "obj_path ''APIToken'' ''ci'' = ci_path" "ci_path < settingsFile" "ci_path \<noteq> settingsFile"
  "token_file ci_path" "\<not> token_file settingsFile" "map_of kindDir ''APIToken'' \<noteq> None"
  by code_simp+

lemma ci_valid: "validate_api_token ci_token = None"
  using ci_names(1) by (simp add: validate_api_token_def ci_token_def scope_err_def)

lemma token_config:
  "config_of [OAPIToken ts ci_token] = (config_of [])\<lparr>c_APITokens := [ci_token]\<rparr>"
  by (simp add: config_of_def List.map_filter_simps)

lemma empty_config_valid: "Validate env (config_of []) = []" "LiteralSecrets (config_secrets (config_of [])) = []"
  "checkAdminEdge env (config_of []) DefaultSettings = None"
  by (simp_all add: Validate_def object_errors_def host_errors_def final_refs_def config_of_def List.map_filter_simps host_claims_def cert_claims_def
      tcp_conflicts_def Let_def no_literal_secrets checkAdminEdge_def edge_ValidateRefs_def DefaultSettings_def no_admin_edge_def)

lemma token_checks:
  "Validate env (config_of [OAPIToken ts ci_token]) = []" "merged_checks env (demo_io h n) DefaultSettings [OAPIToken ts ci_token] = None"
proof -
  have "[] \<notin> {tok_Name ci_token}" by (simp add: ci_token_def)
  then show v: "Validate env (config_of [OAPIToken ts ci_token]) = []"
    by (simp add: Validate_def object_errors_def host_errors_def final_refs_def config_of_def List.map_filter_simps host_claims_def cert_claims_def
      tcp_conflicts_def Let_def ci_valid no_refs_def)
  have "LiteralSecrets (config_secrets (config_of [OAPIToken ts ci_token])) = []"
    using empty_config_valid(2) by (simp add: token_config no_literal_secrets)
  then show "merged_checks env (demo_io h n) DefaultSettings [OAPIToken ts ci_token] = None"
    by (simp add: merged_checks_None v checkAdminEdge_def edge_ValidateRefs_def DefaultSettings_def no_admin_edge_def checkGeoAvailable_def)
qed

lemma load_first: "loadLocked env sys first_tree = Inr ([], DefaultSettings)"
  by (rule loadLocked_tree [THEN iffD2])
    (use empty_config_valid DefaultSettings_valid in \<open>auto simp: tree_wf_def tree_ok_def first_tree_def loaded_def load_settings_def\<close>)

lemma ci_tree_wf: "tree_wf ci_tree"
  using ci_names by (simp add: tree_wf_def tree_ok_def ci_tree_def ci_token_def)

lemma load_ci: "loadLocked env sys ci_tree = Inr ([OAPIToken (9, 9) ci_token], DefaultSettings)"
proof (rule loadLocked_tree [OF ci_tree_wf, THEN iffD2], intro conjI)
  show "[OAPIToken (9, 9) ci_token] = loaded ci_tree" by (simp add: loaded_def ci_tree_def kindDir_def)
  show "load_settings ci_tree = Inr DefaultSettings" using ci_names(4) by (simp add: load_settings_def ci_tree_def)
qed (rule token_checks DefaultSettings_valid)+

lemma run_init: "Init (demo_io ''aaaaaa1'' 1) empty_store = (Inr [], run1)"
  by (simp add: Init_def empty_store_def checkLegacyKindDirs_def countYAML_def dir_docs_def writeYAML_def first_tree_def run1_def
    CommitAll_def IsClean_def head_tree_def git_Head_def)

lemma run_save: "save env sys (demo_io ''aaaaaa2'' 9) True (OAPIToken (0, 0) ci_token) run1 = (Inr ''aaaaaa2'', run2)"
proof -
  have p: "obj_path ''APIToken'' (tok_Name ci_token) = ci_path" using ci_names by (simp add: ci_token_def)
  have "prepareSave env sys (demo_io ''aaaaaa2'' 9) (OAPIToken (0, 0) ci_token) first_tree =
      Inr (ci_path, OAPIToken (9, 9) ci_token, False)"
    by (simp add: prepareSave_def ci_valid load_first token_checks p findObject_def stampTimes_def stampMeta_def)
  moreover have "tree_put first_tree ci_path (ObjDoc (OAPIToken (9, 9) ci_token) Written) = ci_tree"
    using ci_names by (simp add: first_tree_def ci_tree_def)
  moreover have "ci_tree \<noteq> first_tree" by (simp add: ci_tree_def first_tree_def)
  ultimately show ?thesis by (simp add: save_def run1_def run2_def writeYAML_def CommitAll_def IsClean_def head_tree_def)
qed

lemma run_delete: "Delete env sys (demo_io ''aaaaaa3'' 10) ''APIToken'' ''ci'' run2 = (Inr ''aaaaaa3'', run3)"
proof -
  have "tree_del ci_tree ci_path = first_tree" using ci_names by (simp add: tree_del_def ci_tree_def first_tree_def)
  moreover have "ci_tree \<noteq> first_tree" by (simp add: ci_tree_def first_tree_def)
  moreover have "withoutObject [OAPIToken (9, 9) ci_token] ''APIToken'' ''ci'' = []"
    by (simp add: withoutObject_def same_object_def ci_token_def)
  moreover have "map_of ci_tree ci_path \<noteq> None" by (simp add: ci_tree_def)
  ultimately show ?thesis
    using ci_names by (simp add: Delete_def run2_def run3_def load_ci empty_config_valid CommitAll_def IsClean_def head_tree_def Let_def)
qed

lemma run_reachable: "store_reachable sound env sys run1" "store_reachable sound env sys run2" "store_reachable sound env sys run3"
proof -
  show r1: "store_reachable sound env sys run1" by (rule started [OF demo_io_sound run_init]) simp
  show r2: "store_reachable sound env sys run2"
    using stepped [OF r1 step_config [OF step_save [OF demo_io_sound, of "''aaaaaa2''" _ _ _ _ 9 True "OAPIToken (0, 0) ci_token"]]] by (simp add: run_save)
  show "store_reachable sound env sys run3"
    using stepped [OF r2 step_config [OF step_delete [OF demo_io_sound, of "''aaaaaa3''" _ _ _ _ 10 "''APIToken''" "''ci''"]]] by (simp add: run_delete)
qed

section \<open>Witnesses\<close>

abbreviation demo_sys :: os where "demo_sys \<equiv> host_with_hash []"


text \<open>The save of the token, as the step of a run that need not be sound.\<close>

theorem store_commits_load_witness:
  "\<exists>objs st. loadLocked panel_env demo_sys (head_tree run2) = Inr (objs, st) \<and> Validate panel_env (config_of objs) = [] \<and>
     checkAdminEdge panel_env (config_of objs) st = None"
proof -
  have "config_step False panel_env demo_sys run1 run2"
    using step_save [OF demo_io_sound, of "''aaaaaa2''" False panel_env demo_sys run1 9 True "OAPIToken (0, 0) ci_token"] by (simp add: run_save)
  moreover have "cs_log run2 \<noteq> cs_log run1" by (simp add: run1_def run2_def)
  ultimately show ?thesis using store_commits_load [OF run_reachable(1)] by blast
qed

text \<open>A batch that removes the token and whose commit fails.\<close>

definition broken_io :: io where "broken_io = (demo_io ''aaaaaa4'' 11)\<lparr>io_commit := False\<rparr>"

lemma ci_batch:
  "withoutObject [OAPIToken (9, 9) ci_token] ''APIToken'' ''ci'' = []"
  "batch_deletes ci_tree None [OAPIToken (9, 9) ci_token] [(''APIToken'', ''ci'')] = Inr [(''APIToken'', ''ci'')]"
  "tree_del ci_tree ci_path = first_tree" "ci_tree \<noteq> first_tree" "map_of ci_tree ci_path = Some (ObjDoc (OAPIToken (9, 9) ci_token) Written)"
  "tree_put first_tree ci_path (ObjDoc (OAPIToken (9, 9) ci_token) Written) = ci_tree"
  using ci_names by (simp_all add: withoutObject_def same_object_def ci_token_def skip_delete_def tree_del_def ci_tree_def first_tree_def)

lemma batch_fails:
  "fst (ApplyBatch panel_env demo_sys broken_io [] [(''APIToken'', ''ci'')] None run2) = Inl CommitFailed"
proof -
  have "merged_checks panel_env broken_io DefaultSettings [] = None"
    by (simp add: merged_checks_None empty_config_valid checkGeoAvailable_def broken_io_def demo_io_def)
  then show ?thesis
    using ci_names ci_batch
    by (simp add: ApplyBatch_def run2_def load_ci batch_apply_def stamped_def Let_def CommitAll_def IsClean_def head_tree_def remove_all_def)
      (simp add: broken_io_def)
qed


text \<open>The lookup of the head fails after the commit of the batch: the call errs and the files are put back, but history has the commit.\<close>

definition headless_io :: io where "headless_io = (demo_io ''aaaaaa4'' 11)\<lparr>io_head_after := False\<rparr>"

text \<open>An unreadable head is the one case in which a failed batch leaves a trace: the working tree is as before, while the newest
  commit has the batch. The next commit of any kind takes it back.\<close>

theorem headless_batch_committed:
  "ApplyBatch panel_env demo_sys headless_io [] [(''APIToken'', ''ci'')] None run2 =
     (Inl HeadFailed, run2\<lparr>cs_log := (''aaaaaa4'', first_tree) # cs_log run2\<rparr>)"
proof -
  have "merged_checks panel_env headless_io DefaultSettings [] = None"
    by (simp add: merged_checks_None empty_config_valid checkGeoAvailable_def headless_io_def demo_io_def)
  then show ?thesis
    using ci_names ci_batch
    by (simp add: ApplyBatch_def run2_def load_ci batch_apply_def stamped_def Let_def CommitAll_def IsClean_def head_tree_def remove_all_def
      restoreFiles_def restore_file_def plain_write_def)
      (simp add: headless_io_def restoreFiles_def restore_file_def plain_write_def)
qed

text \<open>A revert to the commit that had the token, after its deletion.\<close>

lemma revert_run: "fst (Revert panel_env demo_sys (demo_io ''aaaaaa4'' 11) ''aaaaaa2'' run3) = Inr []"
proof -
  have h: "commit_hash_ok ''aaaaaa2''" by code_simp
  have p: "snapshotDirs first_tree = []" using ci_names by (simp add: snapshotDirs_def first_tree_def)
  have w: "writeDirs (demo_io ''aaaaaa4'' 11) [] ci_tree = (True, first_tree)" using ci_names by (simp add: writeDirs_def ci_tree_def first_tree_def tree_del_def)
  have "restored_checks panel_env demo_sys (demo_io ''aaaaaa4'' 11) first_tree = None"
    using first_tree_served [of panel_env demo_sys]
    by (simp add: served_def restored_checks_def load_first checkGeoAvailable_def Let_def)
  then show ?thesis
    by (simp add: Revert_def h run3_def RestoreTree_def p w commit_restored_def CommitAll_def IsClean_def head_tree_def)
qed

theorem revert_keeps_tokens_witness:
  "map_of (cs_tree (snd (Revert panel_env demo_sys (demo_io ''aaaaaa4'' 11) ''aaaaaa2'' run3))) ci_path = None \<and>
   map_of (the (map_of (cs_log run3) ''aaaaaa2'')) ci_path \<noteq> None"
proof
  have r: "Revert panel_env demo_sys (demo_io ''aaaaaa4'' 11) ''aaaaaa2'' run3 =
      (Inr [], snd (Revert panel_env demo_sys (demo_io ''aaaaaa4'' 11) ''aaaaaa2'' run3))"
    using revert_run by (metis prod.collapse)
  show "map_of (cs_tree (snd (Revert panel_env demo_sys (demo_io ''aaaaaa4'' 11) ''aaaaaa2'' run3))) ci_path = None"
    using revert_keeps_tokens [OF run_reachable(3) ci_names(5) disjI1 [OF r]] ci_names(4) by (simp add: run3_def first_tree_def)
  show "map_of (the (map_of (cs_log run3) ''aaaaaa2'')) ci_path \<noteq> None" by (simp add: run3_def ci_tree_def)
qed

theorem store_refines_map_witness:
  "\<exists>y. erase y = OAPIToken (0, 0) ci_token \<and> stored panel_env demo_sys run2 (''APIToken'', ''ci'') = Some y \<and>
     stored panel_env demo_sys run3 (''APIToken'', ''ci'') = None"
proof -
  have k: "obj_key (OAPIToken (0, 0) ci_token) = (''APIToken'', ''ci'')" by (simp add: obj_key_def ci_token_def)
  have "call_ok False (demo_io ''aaaaaa2'' 9)" "call_ok False (demo_io ''aaaaaa3'' 10)" by (simp_all add: demo_io_sound)
  from store_refines_map [OF run_reachable(1) [of True panel_env demo_sys] this(1), THEN conjunct1, THEN mp, OF run_save]
    store_refines_map [OF run_reachable(2) [of True panel_env demo_sys] this(2), THEN conjunct2, THEN mp, OF run_delete]
  show ?thesis by (auto simp: k)
qed

theorem save_idempotent_witness:
  "save panel_env demo_sys (demo_io ''aaaaaa5'' 77) False (OAPIToken (0, 0) ci_token) run2 = (Inr [], run2)"
  using save_idempotent [OF run_reachable(1) demo_io_sound run_save, of "demo_io ''aaaaaa5'' 77"] by simp

section \<open>The panel in the compiled configuration\<close>

definition open_edge :: admin_edge where "open_edge = no_admin_edge\<lparr>edge_Enabled := True\<rparr>"
definition edge_on :: gpm_settings where "edge_on = DefaultSettings\<lparr>gs_AdminEdge := open_edge\<rparr>"
definition edge_tree :: tree where "edge_tree = [(settingsFile, SettingsDoc edge_on)]"

lemma edge_on_valid: "validate_settings panel_env demo_sys edge_on = None"
proof -
  have n: "ValidateName AdminEdgeHostName = None" by code_simp
  have u: "validate_upstream \<lparr>u_Scheme = ''http'', u_Host = ''127.0.0.1'', u_Port = 1, u_Path = [], u_HostHeader = []\<rparr> = None"
    by code_simp
  have t: "validate_tls no_tls = None" by code_simp
  have "validate_admin_edge panel_env base open_edge = None" for base
    using n u t
    by (simp add: validate_admin_edge_def open_edge_def no_admin_edge_def panel_hostname names_err_def validate_proxy_host_def
      edge_Host_def derived_host_def no_host_def validate_shape_def no_shape_def validate_timeouts_def validate_compression_def
      no_compression_def validateInline_def validateSecurityHeaders_def validateStripResponseHeaders_def validateLocations_def)
  then show ?thesis using DefaultSettings_valid [of panel_env demo_sys] by (simp add: edge_on_def validate_settings_def)
qed

lemma load_edge: "loadLocked panel_env demo_sys edge_tree = Inr ([], edge_on)"
  by (rule loadLocked_tree [THEN iffD2])
    (use empty_config_valid edge_on_valid in \<open>auto simp: tree_wf_def tree_ok_def edge_tree_def loaded_def load_settings_def\<close>)

definition edge_store :: store where "edge_store = \<lparr>cs_tree = edge_tree, cs_log = [(''aaaaaa2'', edge_tree), (''aaaaaa1'', first_tree)]\<rparr>"

lemma edge_save: "saveSettings panel_env demo_sys (demo_io ''aaaaaa2'' 5) edge_on run1 = (Inr ''aaaaaa2'', edge_store)"
proof -
  have "settings_refs panel_env edge_on (config_of []) = None"
    unfolding settings_refs_None
    using first_tree_served [of panel_env demo_sys]
    by (simp add: edge_on_def DefaultSettings_def no_ingress_settings_def no_docker_settings_def ingress_ValidateRefs_def docker_ValidateRefs_def
      DockerDiscoveryResolved_def admin_ValidateRefs_def checkAdminEdge_def edge_ValidateRefs_def open_edge_def no_admin_edge_def config_of_def
      List.map_filter_simps served_def load_first settings_secrets_def)
  moreover have "tree_put first_tree settingsFile (SettingsDoc edge_on) = edge_tree" by (simp add: first_tree_def edge_tree_def)
  moreover have "edge_tree \<noteq> first_tree"
    by (simp add: edge_tree_def first_tree_def edge_on_def DefaultSettings_def open_edge_def no_admin_edge_def)
  ultimately show ?thesis
    by (simp add: saveSettings_def edge_on_valid run1_def load_first writeYAML_def CommitAll_def IsClean_def head_tree_def edge_store_def)
qed

theorem admin_edge_compiled_witness:
  "\<exists>h. LoadCompiled panel_env demo_sys loopback edge_store = Inr ((config_of [])\<lparr>c_ProxyHosts := [h]\<rparr>, edge_on) \<and>
     ph_Domains h = [''panel.ex.com'']"
proof -
  have r: "store_reachable True panel_env demo_sys edge_store"
    using stepped [OF run_reachable(1) [of True panel_env demo_sys] step_config [OF step_settings [OF demo_io_sound, of "''aaaaaa2''" _ _ _ _ 5 edge_on]]] by (simp add: edge_save)
  have l: "loadLocked panel_env demo_sys (cs_tree edge_store) = Inr ([], edge_on)" by (simp add: edge_store_def load_edge)
  have e: "edge_Enabled (gs_AdminEdge edge_on)" by (simp add: edge_on_def open_edge_def)
  have u: "validate_upstream loopback = None" "u_Port loopback > 0" by code_simp+
  show ?thesis using admin_edge_compiled [OF r l e u] by (auto simp: panel_hostname config_of_def List.map_filter_simps)
qed

section \<open>A bulk write that fails half-way\<close>

definition office_list :: access_list_cfg where
  "office_list = \<lparr>al_Name = ''office'', al_SatisfyAny = False, al_BasicAuth = [], al_Rules = [], al_Sources = [], al_DefaultAction = ''deny'',
     al_Geo = None\<rparr>"

definition ssh_host :: stream_host where
  "ssh_host = \<lparr>sh_SName = ''ssh'', sh_Disabled = False, ListenPort = 2222, Protocol = ''tcp'', Target_Host = ''10.0.0.5'', Target_Port = 22,
     LegacyForwardHost = [], LegacyForwardPort = 0, sh_TLS = None, sh_AccessLists = [''office'']\<rparr>"

definition bulk :: "object list" where
  "bulk = [OStreamHost (0, 0) ssh_host, OAccessList (0, 0) (office_list, [])]"

text \<open>The disk refuses the second file.\<close>

definition full_io :: io where
  "full_io = (demo_io ''aaaaaa2'' 9)\<lparr>io_write := (\<lambda>p. p \<noteq> ''access-lists/office.yaml'')\<rparr>"

definition no_ledger :: dns_ledger where "no_ledger = \<lparr>dl_Pihole = [], dl_Cloudflare = []\<rparr>"

lemma bulk_names: "ValidateName ''ssh'' = None" "ValidateName ''office'' = None"
  "obj_path ''StreamHost'' ''ssh'' = ''stream-hosts/ssh.yaml''" "obj_path ''AccessList'' ''office'' = ''access-lists/office.yaml''"
  "settingsFile < ''stream-hosts/ssh.yaml''" "''dns-ledger.yaml'' < settingsFile" "''dns-ledger.yaml'' \<noteq> settingsFile" "settingsFile \<noteq> ''stream-hosts/ssh.yaml''"
  "\<not> ''stream-hosts/ssh.yaml'' < settingsFile"
  by code_simp+

lemma bulk_valid: "validate_stream_host ssh_host = None" "validate_access_list u [] office_list = None"
  using bulk_names by (simp_all add: validate_stream_host_def ssh_host_def validate_stream_tls_def validate_access_list_def office_list_def
    validate_geo_def ActionDeny_def ActionAllow_def)

lemma bulk_checks: "merged_checks env full_io DefaultSettings bulk = None"
proof -
  have "Validate env (config_of bulk) = []"
    using bulk_valid
    by (simp add: Validate_def object_errors_def host_errors_def final_refs_def config_of_def List.map_filter_simps host_claims_def cert_claims_def
      tcp_conflicts_def Let_def no_refs_def bulk_def stream_refs_def stream_list_errs_def checkRef_def list_names_def on_tcp_def on_udp_def)
      (simp add: ssh_host_def office_list_def HasRequestScopedRules_def checkRef_def)
  moreover have "checkAdminEdge env (config_of bulk) DefaultSettings = None"
    by (simp add: checkAdminEdge_def edge_ValidateRefs_def DefaultSettings_def no_admin_edge_def)
  ultimately show ?thesis
    by (simp add: merged_checks_None no_literal_secrets config_of_def bulk_def List.map_filter_simps checkGeoAvailable_def full_io_def)
qed

definition half_tree :: tree where
  "half_tree = [(settingsFile, SettingsDoc DefaultSettings), (''stream-hosts/ssh.yaml'', ObjDoc (OStreamHost (9, 9) ssh_host) Written)]"

definition swept_tree :: tree where "swept_tree = (''dns-ledger.yaml'', DnsLedgerDoc no_ledger) # half_tree"

lemma bulk_half:
  "SaveBatch env sys full_io bulk run1 = (Inl (WriteFailed ''access-lists/office.yaml''), \<lparr>cs_tree = half_tree, cs_log = cs_log run1\<rparr>)"
proof -
  have p: "obj_path ''StreamHost'' (sh_SName ssh_host) = ''stream-hosts/ssh.yaml''" "obj_path ''AccessList'' (al_Name office_list) = ''access-lists/office.yaml''"
    using bulk_names by (simp_all add: ssh_host_def office_list_def)
  have "foldl withObject [] bulk = bulk" by (simp add: bulk_def same_object_def)
  moreover have "tree_put first_tree ''stream-hosts/ssh.yaml'' (ObjDoc (OStreamHost (9, 9) ssh_host) Written) = half_tree"
    using bulk_names by (simp add: first_tree_def half_tree_def)
  moreover have "write_all full_io (stamped full_io (map (\<lambda>x. (x, findObject [] (Kind x) (obj_Name x))) bulk)) first_tree =
      (Some (WriteFailed ''access-lists/office.yaml''), tree_put first_tree ''stream-hosts/ssh.yaml'' (ObjDoc (OStreamHost (9, 9) ssh_host) Written))"
    by (simp add: bulk_def stamped_def p writeYAML_def full_io_def findObject_def stampTimes_def stampMeta_def)
  ultimately show ?thesis by (simp add: SaveBatch_def run1_def load_first bulk_checks)
qed

lemma swept_invalid: "\<not> served env sys swept_tree"
proof
  assume "served env sys swept_tree"
  then obtain objs st where l: "loadLocked env sys swept_tree = Inr (objs, st)" by (auto simp: served_def split: sum.splits)
  have "tree_wf swept_tree"
    using bulk_names by (simp add: tree_wf_def tree_ok_def swept_tree_def half_tree_def dnsLedgerFile_def ssh_host_def)
  from loadLocked_tree [OF this] l have v: "Validate env (config_of objs) = []" "objs = loaded swept_tree" by blast+
  have "loaded swept_tree = [OStreamHost (9, 9) ssh_host]" by (simp add: loaded_def swept_tree_def half_tree_def kindDir_def)
  then have "c_StreamHosts (config_of objs) = [ssh_host]" "list_names (config_of objs) = []"
    using v(2) by (simp_all add: config_of_def List.map_filter_simps list_names_def)
  moreover have "host_errors env (config_of objs) = []" using Validate_parts(2) [OF v(1)] .
  ultimately show False
    by (simp add: host_errors_def Let_def check_objects_Nil stream_refs_def stream_list_errs_def)
      (simp add: ssh_host_def checkRef_def)
qed

text \<open>A bulk write is not atomic. When a write of \<open>SaveBatch\<close> fails, the files before it stay in the working tree, and the next
  commit, here one of the DNS ledger, sweeps them into the history: the committed configuration refers to an access list
  that does not exist and no longer loads.\<close>

theorem partial_batch_committed:
  "let s = snd (SaveBatch env sys full_io bulk run1); s' = snd (SaveDNSLedger (demo_io ''aaaaaa3'' 10) no_ledger [] s) in
   fst (SaveBatch env sys full_io bulk run1) = Inl (WriteFailed ''access-lists/office.yaml'') \<and>
   fst (SaveDNSLedger (demo_io ''aaaaaa3'' 10) no_ledger [] s) = Inr ''aaaaaa3'' \<and>
   hd (cs_log s') = (''aaaaaa3'', cs_tree s') \<and> \<not> served env sys (cs_tree s')"
proof -
  have "validate_dns_ledger no_ledger = None" by (simp add: validate_dns_ledger_def no_ledger_def)
  moreover have "tree_put half_tree ''dns-ledger.yaml'' (DnsLedgerDoc no_ledger) = swept_tree"
    using bulk_names by (simp add: half_tree_def swept_tree_def)
  moreover have "swept_tree \<noteq> first_tree" using bulk_names by (simp add: swept_tree_def first_tree_def)
  ultimately have "SaveDNSLedger (demo_io ''aaaaaa3'' 10) no_ledger [] \<lparr>cs_tree = half_tree, cs_log = cs_log run1\<rparr> =
      (Inr ''aaaaaa3'', \<lparr>cs_tree = swept_tree, cs_log = (''aaaaaa3'', swept_tree) # cs_log run1\<rparr>)"
    by (simp add: SaveDNSLedger_def save_ledger_def writeYAML_def dnsLedgerFile_def CommitAll_def IsClean_def head_tree_def run1_def)
  then show ?thesis using swept_invalid by (simp add: bulk_half Let_def)
qed

section \<open>Deleting the last way in\<close>

definition sso_settings :: gpm_settings where
  "sso_settings = DefaultSettings\<lparr>gs_AdminAuth := \<lparr>aas_Providers = [''idp''], aas_LocalLoginEnabled = False, aas_SSOOnly = True\<rparr>\<rparr>"

definition sso_provider :: identity_provider where
  "sso_provider = \<lparr>idp_Name = ''idp'', idp_Type = ''oidc'',
     idp_OIDC = Some \<lparr>IssuerURL = ''https://id.ex.com'', ClientID = ''gpm'', ClientSecret = [], oidc_Scopes = [], UsePKCE = None,
       RequireVerifiedEmail = False\<rparr>,
     idp_ForwardAuth = None, idp_AuthRequest = None, idp_RoleMapping = None\<rparr>"

definition sso_tree :: tree where
  "sso_tree = [(''identity-providers/idp.yaml'', ObjDoc (OIdentityProvider (1, 1) sso_provider) Written), (settingsFile, SettingsDoc sso_settings)]"

definition locked_tree :: tree where "locked_tree = [(settingsFile, SettingsDoc sso_settings)]"

definition sso_store :: store where "sso_store = \<lparr>cs_tree = sso_tree, cs_log = [(''aaaaaa1'', sso_tree)]\<rparr>"

lemma sso_settings_valid: "validate_settings env sys sso_settings = None"
  using DefaultSettings_valid [of env sys] by (simp add: sso_settings_def validate_settings_def)

lemma idp_names: "ValidateName ''idp'' = None" "obj_path ''IdentityProvider'' ''idp'' = ''identity-providers/idp.yaml''"
  "''identity-providers/idp.yaml'' < settingsFile" "''identity-providers/idp.yaml'' \<noteq> settingsFile" "map_of kindDir ''IdentityProvider'' \<noteq> None"
  by code_simp+

lemma load_sso: "loadLocked env sys sso_tree = Inr ([OIdentityProvider (1, 1) sso_provider], sso_settings)"
proof (rule loadLocked_tree [THEN iffD2], goal_cases)
  case 1
  show ?case using idp_names by (simp add: tree_wf_def tree_ok_def sso_tree_def sso_provider_def)
next
  case 2
  have "validate_identity_provider u sso_provider = None" for u
    using idp_names by (simp add: validate_identity_provider_def sso_provider_def validateInline_def)
  then have "Validate env (config_of [OIdentityProvider (1, 1) sso_provider]) = []"
    by (simp add: Validate_def object_errors_def host_errors_def final_refs_def config_of_def List.map_filter_simps host_claims_def cert_claims_def
      tcp_conflicts_def Let_def no_refs_def)
  then show ?case
    using idp_names sso_settings_valid by (simp add: loaded_def sso_tree_def kindDir_def load_settings_def)
qed

lemma load_locked: "loadLocked env sys locked_tree = Inr ([], sso_settings)"
  by (rule loadLocked_tree [THEN iffD2])
    (use empty_config_valid sso_settings_valid in \<open>auto simp: tree_wf_def tree_ok_def locked_tree_def loaded_def load_settings_def\<close>)


end
