(* ===== verification/Dns_Sync.thy ===== *)
theory Dns_Sync
  imports Config_Store
begin

text \<open>
  DNS synchronisation, \<open>internal/dnssync\<close>: the desired names of the configuration, the decisions taken from the desired set, the
  records of a backend and the ownership ledger, the loops that carry them out against Pi-hole and Cloudflare, the ledger they
  end with, its merge with a concurrent revert, and the coalescing of triggers.

  The HTTP APIs are not modelled: reading a backend gives its records or an error, and the writes of a run are answered by a
  list of booleans, in order; what was sent is logged with its answer. A map is an association list with
  distinct keys. Log lines and the texts of errors are left out, the status keeps its counters.

  The lemmas show which records a run can delete, that adopted records are neither deleted nor replaced, where
  the right to delete comes from, that a run that succeeded leaves nothing to do, that a merge never re-establishes a withdrawn
  claim, and that no trigger is lost.
\<close>

section \<open>Desired names\<close>

definition apex_of :: "string \<Rightarrow> string" where
  "apex_of target = ToLower (TrimSuffix target ''.'')"

definition host_names :: "(dns_policy \<Rightarrow> bool) \<Rightarrow> host_shape proxy_host \<Rightarrow> string list" where
  "host_names want h =
     (if ph_Disabled h then []
      else case hs_DNS (ph_rest h) of None \<Rightarrow> [] | Some p \<Rightarrow> if want p then map normaliseDomain (ph_Domains h) else [])"

definition desiredDomains :: "gpm_config \<Rightarrow> (dns_policy \<Rightarrow> bool) \<Rightarrow> string \<Rightarrow> string list" where
  "desiredDomains cfg want apexTarget =
     sort (remdups (filter (\<lambda>n. n \<noteq> [] \<and> \<not> Sublist.prefix ''*.'' n \<and> n \<noteq> apex_of apexTarget)
       (concat (map (host_names want) (c_ProxyHosts cfg)))))"

section \<open>Decisions\<close>

record decisions =
  d_create :: "string list"
  d_adopt :: "string list"
  d_retarget :: "string list"
  d_del :: "string list"
  d_skip :: "string list"
  d_owned :: claim_map

type_synonym present = "(string \<times> string) list"

definition created_claim :: "string \<Rightarrow> dns_claim" where "created_claim apex = \<lparr>cl_Target = apex, cl_Adopted = False\<rparr>"
definition adopted_claim :: "string \<Rightarrow> dns_claim" where "adopted_claim apex = \<lparr>cl_Target = apex, cl_Adopted = True\<rparr>"

definition decide_name :: "present \<Rightarrow> string \<Rightarrow> claim_map \<Rightarrow> (string \<Rightarrow> bool) \<Rightarrow> decisions \<Rightarrow> string \<Rightarrow> decisions" where
  "decide_name present apex owned mark d name =
     (case map_of present name of
        None \<Rightarrow> d\<lparr>d_create := d_create d @ [name], d_owned := AList.update name (created_claim apex) (d_owned d)\<rparr>
      | Some cur \<Rightarrow>
          (case map_of owned name of
             Some cl \<Rightarrow>
               if cur = apex then d\<lparr>d_owned := AList.update name \<lparr>cl_Target = apex, cl_Adopted = cl_Adopted cl\<rparr> (d_owned d)\<rparr>
               else if \<not> cl_Adopted cl \<and> cur = cl_Target cl \<and> mark name
               then d\<lparr>d_retarget := d_retarget d @ [name], d_owned := AList.update name (created_claim apex) (d_owned d)\<rparr>
               else d\<lparr>d_skip := d_skip d @ [name], d_owned := AList.delete name (d_owned d)\<rparr>
           | None \<Rightarrow>
               if cur = apex \<and> mark name
               then d\<lparr>d_adopt := d_adopt d @ [name], d_owned := AList.update name (adopted_claim apex) (d_owned d)\<rparr>
               else d\<lparr>d_skip := d_skip d @ [name]\<rparr>))"

definition decide_stale :: "present \<Rightarrow> claim_map \<Rightarrow> (string \<Rightarrow> bool) \<Rightarrow> decisions \<Rightarrow> string \<Rightarrow> decisions" where
  "decide_stale present owned mark d name =
     (let d' = d\<lparr>d_owned := AList.delete name (d_owned d)\<rparr> in
      case (map_of present name, map_of owned name) of
        (Some cur, Some cl) \<Rightarrow>
          if cur \<noteq> cl_Target cl \<or> \<not> mark name \<or> cl_Adopted cl then d' else d'\<lparr>d_del := d_del d @ [name]\<rparr>
      | _ \<Rightarrow> d')"

definition stale_names :: "string list \<Rightarrow> claim_map \<Rightarrow> string list" where
  "stale_names wanted owned = filter (\<lambda>n. n \<notin> set wanted) (sorted_keys owned)"

definition dns_decide :: "string list \<Rightarrow> present \<Rightarrow> string \<Rightarrow> claim_map \<Rightarrow> (string \<Rightarrow> bool) \<Rightarrow> decisions" where
  "dns_decide wanted present apex owned mark =
     foldl (decide_stale present owned mark)
       (foldl (decide_name present apex owned mark)
          \<lparr>d_create = [], d_adopt = [], d_retarget = [], d_del = [], d_skip = [], d_owned = owned\<rparr> wanted)
       (stale_names wanted owned)"

definition untouched :: "present \<Rightarrow> decisions \<Rightarrow> nat" where
  "untouched present d = length (filter (\<lambda>(n, _). map_of (d_owned d) n = None \<and> n \<notin> set (d_del d)) present)"

section \<open>Carrying out\<close>

datatype dns_write =
  PiholeDelete string
  | PiholeAdd string
  | CloudflareDelete string
  | CloudflareCreate string string bool

text \<open>A backend as the loops use it: the delete of a record, which may be refused before it is sent, the create under the
  apex and the create that restores what was deleted.\<close>

record dns_backend =
  be_delete :: "string \<Rightarrow> dns_write option"
  be_add :: "string \<Rightarrow> dns_write"
  be_restore :: "string \<Rightarrow> dns_write"

record sync_run =
  rn_answers :: "bool list"
  rn_sent :: "(dns_write \<times> bool) list"
  rn_live :: claim_map
  rn_created :: nat
  rn_adopted :: nat
  rn_retargeted :: nat
  rn_deleted :: nat

definition send :: "dns_write \<Rightarrow> sync_run \<Rightarrow> bool \<times> sync_run" where
  "send w r =
     (case rn_answers r of
        [] \<Rightarrow> (False, r\<lparr>rn_sent := rn_sent r @ [(w, False)]\<rparr>)
      | ok # rest \<Rightarrow> (ok, r\<lparr>rn_answers := rest, rn_sent := rn_sent r @ [(w, ok)]\<rparr>))"

definition send_delete :: "dns_backend \<Rightarrow> string \<Rightarrow> sync_run \<Rightarrow> bool \<times> sync_run" where
  "send_delete be name r = (case be_delete be name of None \<Rightarrow> (False, r) | Some w \<Rightarrow> send w r)"

definition adopt_all :: "string \<Rightarrow> string list \<Rightarrow> sync_run \<Rightarrow> sync_run" where
  "adopt_all apex names r =
     foldl (\<lambda>r n. r\<lparr>rn_live := AList.update n (adopted_claim apex) (rn_live r), rn_adopted := rn_adopted r + 1\<rparr>) r names"

text \<open>One retarget: delete, create, and on a failed create the attempt to put the old record back.\<close>

definition retarget_one :: "dns_backend \<Rightarrow> string \<Rightarrow> claim_map \<Rightarrow> string \<Rightarrow> sync_run \<Rightarrow> bool \<times> sync_run" where
  "retarget_one be apex owned name r =
     (case send_delete be name r of
        (False, r1) \<Rightarrow> (False, r1)
      | (True, r1) \<Rightarrow>
          (let r2 = r1\<lparr>rn_live := AList.delete name (rn_live r1), rn_retargeted := rn_retargeted r1 + 1\<rparr> in
           case send (be_add be name) r2 of
             (True, r3) \<Rightarrow> (True, r3\<lparr>rn_live := AList.update name (created_claim apex) (rn_live r3)\<rparr>)
           | (False, r3) \<Rightarrow>
               (case send (be_restore be name) r3 of
                  (False, r4) \<Rightarrow> (False, r4)
                | (True, r4) \<Rightarrow>
                    (False, (case map_of owned name of None \<Rightarrow> r4 | Some c \<Rightarrow> r4\<lparr>rn_live := AList.update name c (rn_live r4)\<rparr>)))))"

definition create_one :: "dns_backend \<Rightarrow> string \<Rightarrow> string \<Rightarrow> sync_run \<Rightarrow> bool \<times> sync_run" where
  "create_one be apex name r =
     (case send (be_add be name) r of
        (False, r1) \<Rightarrow> (False, r1)
      | (True, r1) \<Rightarrow> (True, r1\<lparr>rn_live := AList.update name (created_claim apex) (rn_live r1), rn_created := rn_created r1 + 1\<rparr>))"

definition delete_one :: "dns_backend \<Rightarrow> string \<Rightarrow> sync_run \<Rightarrow> bool \<times> sync_run" where
  "delete_one be name r =
     (case send_delete be name r of
        (False, r1) \<Rightarrow> (False, r1)
      | (True, r1) \<Rightarrow> (True, r1\<lparr>rn_live := AList.delete name (rn_live r1), rn_deleted := rn_deleted r1 + 1\<rparr>))"

fun each :: "(string \<Rightarrow> sync_run \<Rightarrow> bool \<times> sync_run) \<Rightarrow> string list \<Rightarrow> sync_run \<Rightarrow> bool \<times> sync_run" where
  "each f [] r = (True, r)"
| "each f (n # ns) r = (case f n r of (False, r') \<Rightarrow> (False, r') | (True, r') \<Rightarrow> each f ns r')"

definition carry_out :: "dns_backend \<Rightarrow> string \<Rightarrow> claim_map \<Rightarrow> decisions \<Rightarrow> bool list \<Rightarrow> bool \<times> sync_run" where
  "carry_out be apex owned d answers =
     (let r0 = adopt_all apex (d_adopt d) \<lparr>rn_answers = answers, rn_sent = [], rn_live = owned, rn_created = 0, rn_adopted = 0,
            rn_retargeted = 0, rn_deleted = 0\<rparr>
      in case each (retarget_one be apex owned) (d_retarget d) r0 of
           (False, r1) \<Rightarrow> (False, r1)
         | (True, r1) \<Rightarrow>
             (case each (create_one be apex) (d_create d) r1 of
                (False, r2) \<Rightarrow> (False, r2)
              | (True, r2) \<Rightarrow>
                  (case each (delete_one be) (d_del d) r2 of
                     (False, r3) \<Rightarrow> (False, r3)
                   | (True, r3) \<Rightarrow> (True, r3\<lparr>rn_live := d_owned d\<rparr>))))"

section \<open>The two backends\<close>

record backend_status =
  bs_OK :: bool
  bs_Desired :: nat
  bs_Managed :: nat
  bs_Created :: nat
  bs_Adopted :: nat
  bs_Retargeted :: nat
  bs_Deleted :: nat
  bs_Skipped :: nat
  bs_Untouched :: nat

definition no_status :: backend_status where
  "no_status = \<lparr>bs_OK = False, bs_Desired = 0, bs_Managed = 0, bs_Created = 0, bs_Adopted = 0, bs_Retargeted = 0, bs_Deleted = 0,
     bs_Skipped = 0, bs_Untouched = 0\<rparr>"

definition run_status :: "string list \<Rightarrow> present \<Rightarrow> decisions \<Rightarrow> bool \<Rightarrow> sync_run \<Rightarrow> backend_status" where
  "run_status wanted present d ok r =
     \<lparr>bs_OK = ok, bs_Desired = length wanted, bs_Managed = length (rn_live r), bs_Created = rn_created r, bs_Adopted = rn_adopted r,
      bs_Retargeted = rn_retargeted r, bs_Deleted = rn_deleted r, bs_Skipped = length (d_skip d), bs_Untouched = untouched present d\<rparr>"

definition piholeRecordTarget :: "string \<Rightarrow> (string \<times> string) option" where
  "piholeRecordTarget entry =
     (case split_on (CHR '','') entry of
        d # t # _ \<Rightarrow>
          (let domain = ToLower (TrimSpace d); target = ToLower (TrimSpace t) in
           if domain = [] \<or> target = [] then None else Some (domain, target))
      | _ \<Rightarrow> None)"

text \<open>The state read from Pi-hole: for each name its target and the raw entry, the first entry of a name counting.\<close>

fun readPiholeState :: "string list \<Rightarrow> (string \<times> string \<times> string) list" where
  "readPiholeState [] = []"
| "readPiholeState (entry # entries) =
     (case piholeRecordTarget entry of
        None \<Rightarrow> readPiholeState entries
      | Some (domain, target) \<Rightarrow> (domain, target, entry) # filter (\<lambda>(n, _). n \<noteq> domain) (readPiholeState entries))"

definition pihole_present :: "(string \<times> string \<times> string) list \<Rightarrow> present" where
  "pihole_present st = map (\<lambda>(n, t, _). (n, t)) st"

definition raw_of :: "(string \<times> string \<times> string) list \<Rightarrow> string \<Rightarrow> string" where
  "raw_of st n = (case map_of st n of None \<Rightarrow> [] | Some (_, raw) \<Rightarrow> raw)"

definition pihole_backend :: "string \<Rightarrow> (string \<times> string \<times> string) list \<Rightarrow> dns_backend" where
  "pihole_backend apex st =
     \<lparr>be_delete = (\<lambda>n. Some (PiholeDelete (raw_of st n))), be_add = (\<lambda>n. PiholeAdd (n @ '','' @ apex)),
      be_restore = (\<lambda>n. PiholeAdd (raw_of st n))\<rparr>"

definition piholeDecisions :: "gpm_config \<Rightarrow> string \<Rightarrow> present \<Rightarrow> claim_map \<Rightarrow> decisions" where
  "piholeDecisions cfg apex present owned = dns_decide (desiredDomains cfg LanDirect apex) present apex owned (\<lambda>_. True)"

definition syncPihole ::
  "gpm_config \<Rightarrow> pihole_sync \<Rightarrow> string list option \<Rightarrow> bool list \<Rightarrow> claim_map \<Rightarrow> backend_status \<times> claim_map \<times> (dns_write \<times> bool) list" where
  "syncPihole cfg conf listing answers owned =
     (let apex = apex_of (ps_ApexTarget conf); wanted = desiredDomains cfg LanDirect apex in
      case listing of
        None \<Rightarrow> (no_status\<lparr>bs_Desired := length wanted\<rparr>, owned, [])
      | Some entries \<Rightarrow>
          (let st = readPiholeState entries; present = pihole_present st; d = piholeDecisions cfg apex present owned;
               (ok, r) = carry_out (pihole_backend apex st) apex owned d answers
           in (run_status wanted present d ok r, rn_live r, rn_sent r)))"

definition ManagedComment :: string where "ManagedComment = ''managed-by:gpm''"

record cf_record =
  cfr_ID :: string
  cfr_Name :: string
  cfr_Content :: string
  cfr_Proxied :: bool
  cfr_Comment :: string

fun cloudflare_state :: "cf_record list \<Rightarrow> (string \<times> cf_record) list" where
  "cloudflare_state [] = []"
| "cloudflare_state (r # rs) =
     (let n = ToLower (TrimSuffix (cfr_Name r) ''.'') in (n, r) # filter (\<lambda>(m, _). m \<noteq> n) (cloudflare_state rs))"

definition cloudflare_present :: "(string \<times> cf_record) list \<Rightarrow> present" where
  "cloudflare_present st = map (\<lambda>(n, r). (n, ToLower (TrimSuffix (cfr_Content r) ''.''))) st"

definition cloudflare_mark :: "(string \<times> cf_record) list \<Rightarrow> string \<Rightarrow> bool" where
  "cloudflare_mark st n = (case map_of st n of None \<Rightarrow> False | Some r \<Rightarrow> cfr_Comment r = ManagedComment)"

text \<open>\<open>deleteRecord\<close> checks the comment once more and refuses a record without an identifier.\<close>

definition deleteRecord :: "cf_record \<Rightarrow> dns_write option" where
  "deleteRecord r = (if cfr_Comment r \<noteq> ManagedComment \<or> cfr_ID r = [] then None else Some (CloudflareDelete (cfr_ID r)))"

definition no_record :: cf_record where
  "no_record = \<lparr>cfr_ID = [], cfr_Name = [], cfr_Content = [], cfr_Proxied = False, cfr_Comment = []\<rparr>"

definition rec_of :: "(string \<times> cf_record) list \<Rightarrow> string \<Rightarrow> cf_record" where
  "rec_of st n = (case map_of st n of None \<Rightarrow> no_record | Some r \<Rightarrow> r)"

definition cloudflare_backend :: "string \<Rightarrow> bool \<Rightarrow> (string \<times> cf_record) list \<Rightarrow> dns_backend" where
  "cloudflare_backend apex proxied st =
     \<lparr>be_delete = (\<lambda>n. deleteRecord (rec_of st n)), be_add = (\<lambda>n. CloudflareCreate n apex proxied),
      be_restore = (\<lambda>n. CloudflareCreate n (cfr_Content (rec_of st n)) (cfr_Proxied (rec_of st n)))\<rparr>"

definition cloudflareDecisions :: "gpm_config \<Rightarrow> string \<Rightarrow> (string \<times> cf_record) list \<Rightarrow> claim_map \<Rightarrow> decisions" where
  "cloudflareDecisions cfg apex st owned =
     dns_decide (desiredDomains cfg PublicCname apex) (cloudflare_present st) apex owned (cloudflare_mark st)"

definition syncCloudflare ::
  "gpm_config \<Rightarrow> cloudflare_sync \<Rightarrow> cf_record list option \<Rightarrow> bool list \<Rightarrow> claim_map \<Rightarrow> backend_status \<times> claim_map \<times> (dns_write \<times> bool) list" where
  "syncCloudflare cfg conf listing answers owned =
     (let apex = apex_of (cf_ApexTarget conf); wanted = desiredDomains cfg PublicCname apex in
      case listing of
        None \<Rightarrow> (no_status\<lparr>bs_Desired := length wanted\<rparr>, owned, [])
      | Some entries \<Rightarrow>
          (let st = cloudflare_state entries; present = cloudflare_present st; d = cloudflareDecisions cfg apex st owned;
               (ok, r) = carry_out (cloudflare_backend apex (cf_Proxied conf) st) apex owned d answers
           in (run_status wanted present d ok r, rn_live r, rn_sent r)))"

section \<open>What the decisions are\<close>

text \<open>The claim a wanted name ends with, and the names that are replaced or deleted.\<close>

definition claim_after :: "present \<Rightarrow> string \<Rightarrow> claim_map \<Rightarrow> (string \<Rightarrow> bool) \<Rightarrow> string \<Rightarrow> dns_claim option" where
  "claim_after present apex owned mark n =
     (case map_of present n of
        None \<Rightarrow> Some (created_claim apex)
      | Some cur \<Rightarrow>
          (case map_of owned n of
             Some cl \<Rightarrow>
               if cur = apex then Some \<lparr>cl_Target = apex, cl_Adopted = cl_Adopted cl\<rparr>
               else if \<not> cl_Adopted cl \<and> cur = cl_Target cl \<and> mark n then Some (created_claim apex) else None
           | None \<Rightarrow> if cur = apex \<and> mark n then Some (adopted_claim apex) else None))"

definition own_record :: "present \<Rightarrow> claim_map \<Rightarrow> (string \<Rightarrow> bool) \<Rightarrow> string \<Rightarrow> bool" where
  "own_record present owned mark n =
     (case (map_of present n, map_of owned n) of
        (Some cur, Some cl) \<Rightarrow> cur = cl_Target cl \<and> mark n \<and> \<not> cl_Adopted cl
      | _ \<Rightarrow> False)"

lemma own_recordD: "own_record present owned mark n \<Longrightarrow>
    \<exists>cl. map_of owned n = Some cl \<and> \<not> cl_Adopted cl \<and> map_of present n = Some (cl_Target cl) \<and> mark n"
  by (auto simp: own_record_def split: option.splits)

lemma decide_name_lists:
  fixes present apex owned mark ns d
  defines "D \<equiv> foldl (decide_name present apex owned mark) d ns"
  shows "d_create D = d_create d @ filter (\<lambda>n. map_of present n = None) ns"
    and "d_adopt D = d_adopt d @ filter (\<lambda>n. map_of present n = Some apex \<and> map_of owned n = None \<and> mark n) ns"
    and "d_retarget D = d_retarget d @ filter (\<lambda>n. own_record present owned mark n \<and> map_of present n \<noteq> Some apex) ns"
    and "d_del D = d_del d"
  unfolding D_def
  by (induction ns arbitrary: d; auto simp: decide_name_def own_record_def split: option.split)+

lemma decide_name_owned:
  assumes "\<forall>n \<in> set ns. map_of owned n = None \<and> claim_after present apex owned mark n = None \<longrightarrow> map_of (d_owned d) n = None"
  shows "map_of (d_owned (foldl (decide_name present apex owned mark) d ns)) n =
    (if n \<in> set ns then claim_after present apex owned mark n else map_of (d_owned d) n)"
  using assms
proof (induction ns arbitrary: d)
  case (Cons k ns)
  let ?d = "decide_name present apex owned mark d k"
  have one: "map_of (d_owned ?d) m = (if m = k then claim_after present apex owned mark k else map_of (d_owned d) m)" for m
    using Cons(2)
    by (auto simp: decide_name_def claim_after_def update_conv' delete_conv' created_claim_def adopted_claim_def split: option.splits if_splits)
  show ?case using Cons(1) [of ?d] Cons(2) one by auto
qed simp

lemma decide_stale_fold:
  fixes present owned mark ns d
  defines "D \<equiv> foldl (decide_stale present owned mark) d ns"
  shows "d_create D = d_create d" "d_adopt D = d_adopt d" "d_retarget D = d_retarget d"
    and "d_del D = d_del d @ filter (own_record present owned mark) ns"
    and "map_of (d_owned D) n = (if n \<in> set ns then None else map_of (d_owned d) n)"
  unfolding D_def
  by (induction ns arbitrary: d; auto simp: decide_stale_def Let_def own_record_def delete_conv' split: option.split)+

lemma decide_simps:
  fixes wanted present apex owned mark
  defines "D \<equiv> dns_decide wanted present apex owned mark"
  shows "d_create D = filter (\<lambda>n. map_of present n = None) wanted"
    and "d_adopt D = filter (\<lambda>n. map_of present n = Some apex \<and> map_of owned n = None \<and> mark n) wanted"
    and "d_retarget D = filter (\<lambda>n. own_record present owned mark n \<and> map_of present n \<noteq> Some apex) wanted"
    and "d_del D = filter (own_record present owned mark) (stale_names wanted owned)"
    and "map_of (d_owned D) n = (if n \<in> set wanted then claim_after present apex owned mark n else None)"
proof -
  show "d_create D = filter (\<lambda>n. map_of present n = None) wanted"
    "d_adopt D = filter (\<lambda>n. map_of present n = Some apex \<and> map_of owned n = None \<and> mark n) wanted"
    "d_retarget D = filter (\<lambda>n. own_record present owned mark n \<and> map_of present n \<noteq> Some apex) wanted"
    "d_del D = filter (own_record present owned mark) (stale_names wanted owned)"
    by (simp_all add: D_def dns_decide_def decide_stale_fold decide_name_lists)
  have "n \<in> set (stale_names wanted owned) \<longleftrightarrow> n \<notin> set wanted \<and> map_of owned n \<noteq> None"
    by (auto simp: stale_names_def)
  then show "map_of (d_owned D) n = (if n \<in> set wanted then claim_after present apex owned mark n else None)"
    by (simp add: D_def dns_decide_def decide_stale_fold(5) decide_name_owned)
qed

section \<open>What a run sends and claims\<close>

lemma send_sent: "send w r = (ok, r') \<Longrightarrow> rn_sent r' = rn_sent r @ [(w, ok)] \<and> rn_live r' = rn_live r"
  by (auto simp: send_def split: list.splits)

lemma send_delete_sent:
  "send_delete be n r = (ok, r') \<Longrightarrow>
    rn_live r' = rn_live r \<and> (\<exists>ws. rn_sent r' = rn_sent r @ ws \<and> (\<forall>x \<in> set ws. be_delete be n = Some (fst x)))"
  using send_sent by (fastforce simp: send_delete_def split: option.splits)

text \<open>The writes that belong to one name.\<close>

definition writes_of :: "dns_backend \<Rightarrow> string \<Rightarrow> dns_write set" where
  "writes_of be n = {w. be_delete be n = Some w} \<union> {be_add be n, be_restore be n}"

lemma retarget_one_sent:
  assumes "retarget_one be apex owned n r = (ok, r')"
  shows "\<exists>ws. rn_sent r' = rn_sent r @ ws \<and> (\<forall>x \<in> set ws. fst x \<in> writes_of be n)"
  using assms
  by (auto simp: retarget_one_def Let_def writes_of_def split: prod.splits bool.splits option.splits dest!: send_delete_sent send_sent)

lemma create_one_sent:
  assumes "create_one be apex n r = (ok, r')"
  shows "rn_sent r' = rn_sent r @ [(be_add be n, ok)]"
    and "rn_live r' = (if ok then AList.update n (created_claim apex) (rn_live r) else rn_live r)"
  using assms by (auto simp: create_one_def split: prod.splits bool.splits dest!: send_sent)

lemma delete_one_sent:
  assumes "delete_one be n r = (ok, r')"
  shows "\<exists>ws. rn_sent r' = rn_sent r @ ws \<and> (\<forall>x \<in> set ws. be_delete be n = Some (fst x))"
    and "rn_live r' = (if ok then AList.delete n (rn_live r) else rn_live r)"
  using assms by (auto simp: delete_one_def split: prod.splits bool.splits dest!: send_delete_sent)

lemma adopt_all_sent:
  "rn_sent (adopt_all apex ns r) = rn_sent r \<and>
   map_of (rn_live (adopt_all apex ns r)) n = (if n \<in> set ns then Some (adopted_claim apex) else map_of (rn_live r) n)"
  unfolding adopt_all_def by (induction ns arbitrary: r) (auto simp: update_conv')

text \<open>A loop appends the writes of its names.\<close>

lemma each_sent:
  assumes "\<And>n r ok r'. n \<in> set ns \<Longrightarrow> f n r = (ok, r') \<Longrightarrow> \<exists>ws. rn_sent r' = rn_sent r @ ws \<and> (\<forall>x \<in> set ws. P n x)"
    and "each f ns r = (ok, r')"
  shows "\<exists>ws. rn_sent r' = rn_sent r @ ws \<and> (\<forall>x \<in> set ws. \<exists>n \<in> set ns. P n x)"
  using assms
proof (induction ns arbitrary: r)
  case (Cons n ns)
  obtain b r1 where f: "f n r = (b, r1)" by (cases "f n r")
  obtain ws where ws: "rn_sent r1 = rn_sent r @ ws" "\<forall>x \<in> set ws. P n x" using Cons(2) [OF _ f] by auto
  show ?case
  proof (cases b)
    case True
    then have "each f ns r1 = (ok, r')" using Cons(3) f by simp
    then obtain vs where "rn_sent r' = rn_sent r1 @ vs" "\<forall>x \<in> set vs. \<exists>n \<in> set ns. P n x" using Cons(1,2) by (metis list.set_intros(2))
    then show ?thesis using ws by (intro exI [of _ "ws @ vs"]) auto
  next
    case False
    then show ?thesis using Cons(3) f ws by auto
  qed
qed simp

lemma each_inv:
  assumes "\<And>n r ok r'. n \<in> set ns \<Longrightarrow> I r \<Longrightarrow> f n r = (ok, r') \<Longrightarrow> I r'" "I r" "each f ns r = (ok, r')"
  shows "I r'"
  using assms
proof (induction ns arbitrary: r)
  case (Cons n ns)
  obtain b r1 where f: "f n r = (b, r1)" by (cases "f n r")
  have "I r1" using Cons(2) [OF _ Cons(3) f] by simp
  then show ?case using Cons(1) [of r1] Cons(2,4) f by (cases b) auto
qed simp

text \<open>The parts of a run.\<close>

lemma carry_out_parts:
  assumes "carry_out be apex owned d answers = (ok, r)"
  obtains r0 b1 r1 b2 r2 b3 r3 where
    "rn_sent r0 = []" "\<forall>n. map_of (rn_live r0) n = (if n \<in> set (d_adopt d) then Some (adopted_claim apex) else map_of owned n)"
    "each (retarget_one be apex owned) (d_retarget d) r0 = (b1, r1)"
    "if b1 then each (create_one be apex) (d_create d) r1 = (b2, r2) else r2 = r1 \<and> \<not> b2"
    "if b1 \<and> b2 then each (delete_one be) (d_del d) r2 = (b3, r3) else r3 = r2 \<and> \<not> b3"
    "ok \<longleftrightarrow> b1 \<and> b2 \<and> b3" "r = (if ok then r3\<lparr>rn_live := d_owned d\<rparr> else r3)"
proof -
  let ?start = "\<lparr>rn_answers = answers, rn_sent = [], rn_live = owned, rn_created = 0, rn_adopted = 0, rn_retargeted = 0, rn_deleted = 0\<rparr>"
  let ?adopted = "adopt_all apex (d_adopt d) ?start"
  obtain b1 r1 where e1: "each (retarget_one be apex owned) (d_retarget d) ?adopted = (b1, r1)" by fastforce
  obtain b2 r2 where e2: "each (create_one be apex) (d_create d) r1 = (b2, r2)" by fastforce
  obtain b3 r3 where e3: "each (delete_one be) (d_del d) r2 = (b3, r3)" by fastforce
  have r0: "rn_sent ?adopted = []" "\<forall>n. map_of (rn_live ?adopted) n = (if n \<in> set (d_adopt d) then Some (adopted_claim apex) else map_of owned n)"
    using adopt_all_sent [of apex "d_adopt d" ?start] by simp_all
  note a = assms [unfolded carry_out_def Let_def e1]
  show thesis
  proof (cases b1)
    case False
    then show ?thesis using that [OF r0 e1, of False r1 False r1] a by auto
  next
    case b1: True
    show ?thesis
    proof (cases b2)
      case False
      then show ?thesis using that [OF r0 e1, of False r2 False r2] a b1 e2 by auto
    next
      case b2: True
      show ?thesis using that [OF r0 e1, of True r2 b3 r3] a b1 b2 e2 e3 by (cases b3) auto
    qed
  qed
qed

lemma carry_out_sent:
  assumes "carry_out be apex owned d answers = (ok, r)"
  shows "\<forall>x \<in> set (rn_sent r). (\<exists>n \<in> set (d_retarget d). fst x \<in> writes_of be n) \<or> (\<exists>n \<in> set (d_create d). fst x = be_add be n) \<or>
    (\<exists>n \<in> set (d_del d). be_delete be n = Some (fst x))"
proof -
  from carry_out_parts [OF assms] obtain r0 b1 r1 b2 r2 b3 r3 where p: "rn_sent r0 = []"
    "each (retarget_one be apex owned) (d_retarget d) r0 = (b1, r1)"
    "if b1 then each (create_one be apex) (d_create d) r1 = (b2, r2) else r2 = r1 \<and> \<not> b2"
    "if b1 \<and> b2 then each (delete_one be) (d_del d) r2 = (b3, r3) else r3 = r2 \<and> \<not> b3" "r = (if ok then r3\<lparr>rn_live := d_owned d\<rparr> else r3)" .
  obtain w1 where w1: "rn_sent r1 = w1" "\<forall>x \<in> set w1. \<exists>n \<in> set (d_retarget d). fst x \<in> writes_of be n"
  proof -
    have "\<exists>ws. rn_sent r1 = rn_sent r0 @ ws \<and> (\<forall>x \<in> set ws. \<exists>n \<in> set (d_retarget d). fst x \<in> writes_of be n)"
      by (rule each_sent [OF _ p(2)]) (rule retarget_one_sent)
    then show thesis using that p(1) by auto
  qed
  obtain w2 where w2: "rn_sent r2 = w1 @ w2" "\<forall>x \<in> set w2. \<exists>n \<in> set (d_create d). fst x = be_add be n"
  proof (cases b1)
    case True
    then have "each (create_one be apex) (d_create d) r1 = (b2, r2)" using p(3) by simp
    then have "\<exists>ws. rn_sent r2 = rn_sent r1 @ ws \<and> (\<forall>x \<in> set ws. \<exists>n \<in> set (d_create d). fst x = be_add be n)"
      by (rule each_sent [rotated]) (use create_one_sent(1) in force)
    then show ?thesis using w1(1) that by auto
  next
    case False
    then show ?thesis using p(3) w1(1) that [of "[]"] by simp
  qed
  obtain w3 where w3: "rn_sent r3 = w1 @ w2 @ w3" "\<forall>x \<in> set w3. \<exists>n \<in> set (d_del d). be_delete be n = Some (fst x)"
  proof (cases "b1 \<and> b2")
    case True
    then have "each (delete_one be) (d_del d) r2 = (b3, r3)" using p(4) by simp
    then have "\<exists>ws. rn_sent r3 = rn_sent r2 @ ws \<and> (\<forall>x \<in> set ws. \<exists>n \<in> set (d_del d). be_delete be n = Some (fst x))"
      by (rule each_sent [rotated]) (rule delete_one_sent(1))
    then show ?thesis using w2(1) that by auto
  next
    case False
    then show ?thesis using p(4) w2(1) that [of "[]"] by simp
  qed
  have "rn_sent r = w1 @ w2 @ w3" using p(5) w3(1) by simp
  then show ?thesis using w1(2) w2(2) w3(2) by (metis Un_iff set_append)
qed

text \<open>Names that a run writes to: absent ones, and those whose record is still exactly the one gpm created.\<close>

lemma decided_writes:
  assumes "carry_out be apex owned (dns_decide wanted present apex owned mark) answers = (ok, r)" "x \<in> set (rn_sent r)"
  shows "(\<exists>n. own_record present owned mark n \<and> fst x \<in> writes_of be n) \<or> (\<exists>n \<in> set wanted. map_of present n = None \<and> fst x = be_add be n)"
proof -
  note c = carry_out_sent [OF assms(1), rule_format, OF assms(2), unfolded decide_simps set_filter]
  then show ?thesis by (auto simp: writes_of_def)
qed

text \<open>C12: a reconcile deletes only what gpm created and nobody touched since. Whatever the backends hold and whichever writes fail, every
  delete sent to Pi-hole names the raw entry of a name that the ledger records as created by gpm, not adopted,
  and that still has the recorded target; every delete sent to Cloudflare moreover is of the record that carries gpm's comment. Every
  other write is a create, for a wanted name the backend does not hold or for such a record of gpm's own.\<close>

theorem dns_deletes_only_own:
  "list_all (\<lambda>(w, _).
      (\<exists>n. own_record (pihole_present (readPiholeState entries)) owned (\<lambda>_. True) n \<and>
         w \<in> {PiholeDelete (raw_of (readPiholeState entries) n), PiholeAdd (n @ '','' @ apex_of (ps_ApexTarget pconf)),
              PiholeAdd (raw_of (readPiholeState entries) n)}) \<or>
      (\<exists>n. map_of (pihole_present (readPiholeState entries)) n = None \<and> w = PiholeAdd (n @ '','' @ apex_of (ps_ApexTarget pconf))))
     (snd (snd (syncPihole cfg pconf (Some entries) answers owned))) \<and>
   list_all (\<lambda>(w, _).
      (\<exists>n r. map_of (cloudflare_state zone) n = Some r \<and> cfr_Comment r = ManagedComment \<and>
         own_record (cloudflare_present (cloudflare_state zone)) owned (cloudflare_mark (cloudflare_state zone)) n \<and>
         w \<in> {CloudflareDelete (cfr_ID r), CloudflareCreate n (apex_of (cf_ApexTarget cconf)) (cf_Proxied cconf),
              CloudflareCreate n (cfr_Content r) (cfr_Proxied r)}) \<or>
      (\<exists>n. map_of (cloudflare_present (cloudflare_state zone)) n = None \<and>
         w = CloudflareCreate n (apex_of (cf_ApexTarget cconf)) (cf_Proxied cconf)))
     (snd (snd (syncCloudflare cfg cconf (Some zone) answers owned)))" (is "list_all ?P _ \<and> list_all ?C _")
proof
  let ?a = "apex_of (ps_ApexTarget pconf)" and ?s = "readPiholeState entries"
  obtain k r where c: "carry_out (pihole_backend ?a ?s) ?a owned (piholeDecisions cfg ?a (pihole_present ?s) owned) answers = (k, r)"
    by fastforce
  have e: "snd (snd (syncPihole cfg pconf (Some entries) answers owned)) = rn_sent r" by (simp add: syncPihole_def Let_def c)
  have "?P x" if "x \<in> set (rn_sent r)" for x
    using decided_writes [OF c [unfolded piholeDecisions_def] that] by (cases x) (fastforce simp: writes_of_def pihole_backend_def)
  then show "list_all ?P (snd (snd (syncPihole cfg pconf (Some entries) answers owned)))" unfolding e list_all_iff by blast
next
  let ?a = "apex_of (cf_ApexTarget cconf)" and ?s = "cloudflare_state zone"
  obtain k r where c: "carry_out (cloudflare_backend ?a (cf_Proxied cconf) ?s) ?a owned (cloudflareDecisions cfg ?a ?s owned) answers = (k, r)"
    by fastforce
  have e: "snd (snd (syncCloudflare cfg cconf (Some zone) answers owned)) = rn_sent r" by (simp add: syncCloudflare_def Let_def c)
  have m: "\<exists>q. map_of ?s n = Some q \<and> cfr_Comment q = ManagedComment" if "own_record (cloudflare_present ?s) owned (cloudflare_mark ?s) n" for n
    using own_recordD [OF that] by (auto simp: cloudflare_mark_def split: option.splits)
  have "?C x" if "x \<in> set (rn_sent r)" for x
  proof -
    obtain w ok where x: "x = (w, ok)" by (cases x)
    show ?thesis
      using decided_writes [OF c [unfolded cloudflareDecisions_def] that]
    proof (elim disjE exE conjE bexE)
      fix n assume o: "own_record (cloudflare_present ?s) owned (cloudflare_mark ?s) n"
        and y: "fst x \<in> writes_of (cloudflare_backend ?a (cf_Proxied cconf) ?s) n"
      obtain q where "map_of ?s n = Some q" "cfr_Comment q = ManagedComment" using m [OF o] by blast
      then show ?thesis using o y by (auto simp: x writes_of_def cloudflare_backend_def rec_of_def deleteRecord_def split: if_splits)
    next
      fix n assume "map_of (cloudflare_present ?s) n = None" "fst x = be_add (cloudflare_backend ?a (cf_Proxied cconf) ?s) n"
      then show ?thesis by (auto simp: x cloudflare_backend_def)
    qed
  qed
  then show "list_all ?C (snd (snd (syncCloudflare cfg cconf (Some zone) answers owned)))" unfolding e list_all_iff by blast
qed

section \<open>Where a claim comes from\<close>

text \<open>A claim of the ledger a run ends with is one of three. It was there before, and the record of its name was not deleted in this run, or
  deleted and put back (a delete that would also be the one of another name is left aside). Or it is the claim of a wanted name whose create
  was acknowledged in this run. Or it is of a wanted name whose record was found with the target of this run: then a
  claim that was there keeps its provenance, and a new one, which takes gpm's mark on the record, is an adoption.\<close>

definition kept_claim :: "dns_backend \<Rightarrow> claim_map \<Rightarrow> (dns_write \<times> bool) list \<Rightarrow> string \<Rightarrow> dns_claim \<Rightarrow> bool" where
  "kept_claim be owned sent n cl \<longleftrightarrow>
     map_of owned n = Some cl \<and>
     (\<forall>w. be_delete be n = Some w \<and> (\<forall>m. m \<noteq> n \<longrightarrow> be_delete be m \<noteq> Some w) \<and> (w, True) \<in> set sent \<longrightarrow> (be_restore be n, True) \<in> set sent)"

definition found_claim :: "present \<Rightarrow> string \<Rightarrow> (string \<Rightarrow> bool) \<Rightarrow> claim_map \<Rightarrow> string \<Rightarrow> dns_claim \<Rightarrow> bool" where
  "found_claim present apex mark owned n cl \<longleftrightarrow>
     map_of present n = Some apex \<and> cl_Target cl = apex \<and>
     (case map_of owned n of None \<Rightarrow> mark n \<and> cl_Adopted cl | Some c \<Rightarrow> cl_Adopted cl = cl_Adopted c)"

definition honest ::
  "dns_backend \<Rightarrow> string list \<Rightarrow> present \<Rightarrow> string \<Rightarrow> (string \<Rightarrow> bool) \<Rightarrow> claim_map \<Rightarrow> claim_map \<Rightarrow> (dns_write \<times> bool) list \<Rightarrow> bool" where
  "honest be wanted present apex mark owned live sent \<longleftrightarrow>
     (\<forall>n cl. map_of live n = Some cl \<longrightarrow>
        kept_claim be owned sent n cl \<or>
        n \<in> set wanted \<and> (found_claim present apex mark owned n cl \<or>
          cl = \<lparr>cl_Target = apex, cl_Adopted = False\<rparr> \<and> (be_add be n, True) \<in> set sent))"

text \<open>A delete is no create.\<close>

definition be_ok :: "dns_backend \<Rightarrow> bool" where
  "be_ok be \<longleftrightarrow> (\<forall>m n w. be_delete be m = Some w \<longrightarrow> w \<noteq> be_add be n \<and> w \<noteq> be_restore be n)"

lemma backends_ok: "be_ok (pihole_backend apex st)" "be_ok (cloudflare_backend apex proxied cst)"
  by (auto simp: be_ok_def pihole_backend_def cloudflare_backend_def deleteRecord_def split: if_splits)

text \<open>What a step of a loop for one name must do to the claim of this name; those of other names it leaves alone.\<close>

lemma honest_step:
  assumes "honest be wanted present apex mark owned (rn_live r) (rn_sent r)" "be_ok be" "rn_sent r' = rn_sent r @ ws"
    and "\<forall>x \<in> set ws. fst x \<in> writes_of be n" "\<And>m. m \<noteq> n \<Longrightarrow> map_of (rn_live r') m = map_of (rn_live r) m"
    and "\<And>cl. map_of (rn_live r') n = Some cl \<Longrightarrow>
      map_of (rn_live r) n = Some cl \<and> (\<forall>w. be_delete be n = Some w \<longrightarrow> (w, True) \<notin> set ws) \<or>
      map_of owned n = Some cl \<and> (be_restore be n, True) \<in> set ws \<or> n \<in> set wanted \<and> cl = created_claim apex \<and> (be_add be n, True) \<in> set ws"
  shows "honest be wanted present apex mark owned (rn_live r') (rn_sent r')"
proof -
  have k: "kept_claim be owned (rn_sent r') m cl"
    if "kept_claim be owned (rn_sent r) m cl" "m \<noteq> n \<or> (\<forall>w. be_delete be n = Some w \<longrightarrow> (w, True) \<notin> set ws)" for m cl
    unfolding kept_claim_def
  proof (intro conjI allI impI)
    show "map_of owned m = Some cl" using that(1) by (simp add: kept_claim_def)
    fix w assume w: "be_delete be m = Some w \<and> (\<forall>k. k \<noteq> m \<longrightarrow> be_delete be k \<noteq> Some w) \<and> (w, True) \<in> set (rn_sent r')"
    have "(w, True) \<notin> set ws" using that(2) w assms(2,4) by (fastforce simp: writes_of_def be_ok_def)
    then show "(be_restore be m, True) \<in> set (rn_sent r')" using that(1) w assms(3) by (auto simp: kept_claim_def)
  qed
  have "kept_claim be owned (rn_sent r') m cl \<or> m \<in> set wanted \<and> (found_claim present apex mark owned m cl \<or>
      cl = \<lparr>cl_Target = apex, cl_Adopted = False\<rparr> \<and> (be_add be m, True) \<in> set (rn_sent r'))"
    if "map_of (rn_live r') m = Some cl" for m cl
  proof (cases "map_of (rn_live r) m = Some cl \<and> (m \<noteq> n \<or> (\<forall>w. be_delete be n = Some w \<longrightarrow> (w, True) \<notin> set ws))")
    case True
    then show ?thesis using assms(1,3) k by (auto simp: honest_def)
  next
    case False
    then have "m = n" using assms(5) that by metis
    then have "map_of owned m = Some cl \<and> (be_restore be m, True) \<in> set ws \<or> m \<in> set wanted \<and> cl = created_claim apex \<and> (be_add be m, True) \<in> set ws"
      using assms(6) that False by blast
    then show ?thesis using assms(3) by (auto simp: kept_claim_def created_claim_def)
  qed
  then show ?thesis by (simp add: honest_def)
qed

lemma retarget_one_cases:
  assumes "retarget_one be apex owned n r = (ok, r')"
  obtains ws where "rn_sent r' = rn_sent r @ ws" "\<forall>x \<in> set ws. fst x \<in> writes_of be n"
    "\<And>m. m \<noteq> n \<Longrightarrow> map_of (rn_live r') m = map_of (rn_live r) m" "ok \<Longrightarrow> (be_add be n, True) \<in> set ws"
    "\<And>cl. map_of (rn_live r') n = Some cl \<Longrightarrow>
      map_of (rn_live r) n = Some cl \<and> (\<forall>w. (w, True) \<notin> set ws) \<or>
      map_of owned n = Some cl \<and> (be_restore be n, True) \<in> set ws \<or> cl = created_claim apex \<and> (be_add be n, True) \<in> set ws"
proof -
  obtain b1 r1 where d: "send_delete be n r = (b1, r1)" by fastforce
  then have l1: "rn_live r1 = rn_live r" using send_delete_sent by blast
  obtain ws1 where s1: "rn_sent r1 = rn_sent r @ ws1" "\<forall>x \<in> set ws1. be_delete be n = Some (fst x)" "\<not> b1 \<Longrightarrow> \<forall>w. (w, True) \<notin> set ws1"
    using d by (cases "be_delete be n") (auto simp: send_delete_def dest: send_sent)
  show thesis
  proof (cases b1)
    case False
    then show ?thesis using assms d l1 s1 by (intro that [of ws1]) (auto simp: retarget_one_def writes_of_def)
  next
    case True
    let ?r2 = "r1\<lparr>rn_live := AList.delete n (rn_live r1), rn_retargeted := rn_retargeted r1 + 1\<rparr>"
    obtain b3 r3 where a: "send (be_add be n) ?r2 = (b3, r3)" by fastforce
    note l3 = send_sent [OF a]
    show ?thesis
    proof (cases b3)
      case True
      then show ?thesis
        using assms d a l1 s1 l3 \<open>b1\<close> by (intro that [of "ws1 @ [(be_add be n, True)]"]) (auto simp: retarget_one_def Let_def writes_of_def update_conv' delete_conv')
    next
      case False
      obtain b4 r4 where q: "send (be_restore be n) r3 = (b4, r4)" by fastforce
      note l4 = send_sent [OF q]
      show ?thesis
        using assms d a q l1 s1 l3 l4 \<open>b1\<close> False
        by (intro that [of "ws1 @ [(be_add be n, False), (be_restore be n, b4)]"])
          (auto simp: retarget_one_def Let_def writes_of_def update_conv' delete_conv' split: bool.splits option.splits)
    qed
  qed
qed

lemma retarget_one_honest:
  assumes "honest be wanted present apex mark owned (rn_live r) (rn_sent r)" "be_ok be" "n \<in> set wanted" "retarget_one be apex owned n r = (ok, r')"
  shows "honest be wanted present apex mark owned (rn_live r') (rn_sent r')"
proof -
  obtain ws where ws: "rn_sent r' = rn_sent r @ ws" "\<forall>x \<in> set ws. fst x \<in> writes_of be n"
    "\<And>m. m \<noteq> n \<Longrightarrow> map_of (rn_live r') m = map_of (rn_live r) m"
    "\<And>cl. map_of (rn_live r') n = Some cl \<Longrightarrow>
      map_of (rn_live r) n = Some cl \<and> (\<forall>w. (w, True) \<notin> set ws) \<or>
      map_of owned n = Some cl \<and> (be_restore be n, True) \<in> set ws \<or> cl = created_claim apex \<and> (be_add be n, True) \<in> set ws"
    by (rule retarget_one_cases [OF assms(4)]) blast
  show ?thesis by (rule honest_step [OF assms(1,2) ws(1-3)]) (use ws(4) assms(3) in blast)+
qed

lemma create_one_honest:
  assumes "honest be wanted present apex mark owned (rn_live r) (rn_sent r)" "be_ok be" "n \<in> set wanted" "create_one be apex n r = (ok, r')"
  shows "honest be wanted present apex mark owned (rn_live r') (rn_sent r')"
proof (rule honest_step [OF assms(1,2) create_one_sent(1) [OF assms(4)], of n])
  note k = create_one_sent(2) [OF assms(4)]
  show "map_of (rn_live r') m = map_of (rn_live r) m" if "m \<noteq> n" for m using that by (simp add: k update_conv')
  show "map_of (rn_live r) n = Some cl \<and> (\<forall>w. be_delete be n = Some w \<longrightarrow> (w, True) \<notin> set [(be_add be n, ok)]) \<or>
      map_of owned n = Some cl \<and> (be_restore be n, True) \<in> set [(be_add be n, ok)] \<or>
      n \<in> set wanted \<and> cl = created_claim apex \<and> (be_add be n, True) \<in> set [(be_add be n, ok)]" if "map_of (rn_live r') n = Some cl" for cl
    using that assms(3) by (auto simp: k update_conv' split: if_splits)
qed (simp add: writes_of_def)

lemma delete_one_honest:
  assumes "honest be wanted present apex mark owned (rn_live r) (rn_sent r)" "be_ok be" "delete_one be n r = (ok, r')"
  shows "honest be wanted present apex mark owned (rn_live r') (rn_sent r')"
proof -
  obtain ws where ws: "rn_sent r' = rn_sent r @ ws" "\<forall>x \<in> set ws. be_delete be n = Some (fst x)" "\<not> ok \<Longrightarrow> \<forall>w. (w, True) \<notin> set ws"
    using assms(3) by (cases "be_delete be n") (auto simp: delete_one_def send_delete_def split: prod.splits bool.splits dest!: send_sent)
  note k = delete_one_sent(2) [OF assms(3)]
  show ?thesis
    by (rule honest_step [OF assms(1,2) ws(1), of n]) (use ws k in \<open>auto simp: writes_of_def delete_conv' split: if_splits\<close>)
qed

text \<open>A loop that went through was acknowledged for every name.\<close>

lemma each_all_sent:
  assumes "\<And>n r ok r'. f n r = (ok, r') \<Longrightarrow> \<exists>ws. rn_sent r' = rn_sent r @ ws \<and> (ok \<longrightarrow> (be_add be n, True) \<in> set ws)"
    and "each f ns r = (True, r')" "n \<in> set ns"
  shows "(be_add be n, True) \<in> set (rn_sent r')"
  using assms(2,3)
proof (induction ns arbitrary: r)
  case (Cons k ns)
  obtain b r1 where f: "f k r = (b, r1)" by fastforce
  then have e: "b" "each f ns r1 = (True, r')" using Cons(2) by (cases b; simp)+
  show ?case
  proof (cases "n \<in> set ns")
    case False
    then have "(be_add be n, True) \<in> set (rn_sent r1)" using assms(1) [OF f] Cons(3) e(1) by auto
    moreover have "\<exists>ws. rn_sent r' = rn_sent r1 @ ws \<and> (\<forall>x \<in> set ws. \<exists>n \<in> set ns. True)"
      by (rule each_sent [OF _ e(2)]) (use assms(1) in blast)
    ultimately show ?thesis by auto
  qed (use Cons(1) [OF e(2)] in blast)
qed simp

lemma each_more:
  assumes "\<And>n r ok r'. f n r = (ok, r') \<Longrightarrow> \<exists>ws. rn_sent r' = rn_sent r @ ws" "each f ns r = (ok, r')"
  shows "set (rn_sent r) \<subseteq> set (rn_sent r')"
proof -
  have "\<exists>ws. rn_sent r' = rn_sent r @ ws \<and> (\<forall>x \<in> set ws. \<exists>n \<in> set ns. True)" by (rule each_sent [OF _ assms(2)]) (use assms(1) in blast)
  then show ?thesis by auto
qed

lemma steps_sent:
  "retarget_one be apex owned n r = (ok, r') \<Longrightarrow> \<exists>ws. rn_sent r' = rn_sent r @ ws \<and> (ok \<longrightarrow> (be_add be n, True) \<in> set ws)"
  "create_one be apex n r = (ok, r') \<Longrightarrow> \<exists>ws. rn_sent r' = rn_sent r @ ws \<and> (ok \<longrightarrow> (be_add be n, True) \<in> set ws)"
  using retarget_one_cases create_one_sent(1) by (metis, force)

text \<open>The ledger of a run that went through is the decided one, and every create of it was acknowledged.\<close>

lemma finished_honest:
  assumes "carry_out be apex owned (dns_decide wanted present apex owned mark) answers = (True, r)"
  shows "honest be wanted present apex mark owned (rn_live r) (rn_sent r)"
proof -
  let ?d = "dns_decide wanted present apex owned mark"
  from carry_out_parts [OF assms] obtain r0 r1 r2 r3 where p:
    "each (retarget_one be apex owned) (d_retarget ?d) r0 = (True, r1)" "each (create_one be apex) (d_create ?d) r1 = (True, r2)"
    "each (delete_one be) (d_del ?d) r2 = (True, r3)" "r = r3\<lparr>rn_live := d_owned ?d\<rparr>" by (metis (full_types))
  have m: "set (rn_sent r1) \<subseteq> set (rn_sent r2)" "set (rn_sent r2) \<subseteq> set (rn_sent r3)"
    using each_more [OF _ p(2)] steps_sent(2) each_more [OF _ p(3)] delete_one_sent(1) by metis+
  have s: "(be_add be n, True) \<in> set (rn_sent r)" if "n \<in> set (d_retarget ?d) \<union> set (d_create ?d)" for n
  proof -
    have "(be_add be n, True) \<in> set (rn_sent r1)" if "n \<in> set (d_retarget ?d)" by (rule each_all_sent [OF _ p(1) that]) (rule steps_sent)
    moreover have "(be_add be n, True) \<in> set (rn_sent r2)" if "n \<in> set (d_create ?d)" by (rule each_all_sent [OF _ p(2) that]) (rule steps_sent)
    ultimately show ?thesis using that m p(4) by auto
  qed
  have "n \<in> set wanted \<and> (found_claim present apex mark owned n cl \<or> cl = created_claim apex \<and> (be_add be n, True) \<in> set (rn_sent r))"
    if "map_of (rn_live r) n = Some cl" for n cl
  proof -
    have n: "n \<in> set wanted" "claim_after present apex owned mark n = Some cl"
      using that p(4) decide_simps(5) [of wanted present apex owned mark n] by (auto split: if_splits)
    then show ?thesis
      using s [of n]
      by (auto simp: claim_after_def decide_simps own_record_def found_claim_def adopted_claim_def split: option.splits if_splits)
  qed
  then show ?thesis by (auto simp: honest_def created_claim_def)
qed

lemma carry_out_honest:
  assumes "carry_out be apex owned (dns_decide wanted present apex owned mark) answers = (ok, r)" "be_ok be"
  shows "honest be wanted present apex mark owned (rn_live r) (rn_sent r)"
proof (cases ok)
  case False
  let ?d = "dns_decide wanted present apex owned mark" and ?I = "\<lambda>r. honest be wanted present apex mark owned (rn_live r) (rn_sent r)"
  from carry_out_parts [OF assms(1)] obtain r0 b1 r1 b2 r2 b3 r3 where p: "rn_sent r0 = []"
    "\<forall>n. map_of (rn_live r0) n = (if n \<in> set (d_adopt ?d) then Some (adopted_claim apex) else map_of owned n)"
    "each (retarget_one be apex owned) (d_retarget ?d) r0 = (b1, r1)"
    "if b1 then each (create_one be apex) (d_create ?d) r1 = (b2, r2) else r2 = r1 \<and> \<not> b2"
    "if b1 \<and> b2 then each (delete_one be) (d_del ?d) r2 = (b3, r3) else r3 = r2 \<and> \<not> b3"
    "r = (if ok then r3\<lparr>rn_live := d_owned ?d\<rparr> else r3)" .
  have w: "set (d_retarget ?d) \<subseteq> set wanted" "set (d_create ?d) \<subseteq> set wanted" by (auto simp: decide_simps)
  have h0: "?I r0"
    using p(1,2) by (auto simp: honest_def kept_claim_def found_claim_def adopted_claim_def decide_simps)
  have h1: "?I r1"
    by (rule each_inv [where I = ?I, OF _ h0 p(3)]) (use w(1) retarget_one_honest [OF _ assms(2)] in blast)
  have h2: "?I r2"
  proof (cases b1)
    case True
    then have e: "each (create_one be apex) (d_create ?d) r1 = (b2, r2)" using p(4) by simp
    show ?thesis by (rule each_inv [where I = ?I, OF _ h1 e]) (use w(2) create_one_honest [OF _ assms(2)] in blast)
  qed (use h1 p(4) in simp)
  have h3: "?I r3"
  proof (cases "b1 \<and> b2")
    case True
    then have e: "each (delete_one be) (d_del ?d) r2 = (b3, r3)" using p(5) by simp
    show ?thesis by (rule each_inv [where I = ?I, OF _ h2 e]) (use delete_one_honest [OF _ assms(2)] in blast)
  qed (use h2 p(5) in simp)
  then show ?thesis using p(6) False by simp
next
  case True
  then show ?thesis using finished_honest [of be apex owned wanted present mark answers r] assms(1) by simp
qed

text \<open>C13: every claim of the ledger a reconcile ends with has a reason, whatever the backend holds and whichever writes fail. It is the claim of
  before, and then its record was not deleted in this run without being put back; or it is the claim of a wanted name that a create
  acknowledged in this run made, under this run's target; or it is of a wanted name whose record was found with
  this run's target, and then it keeps its provenance if there was a claim and otherwise is an adoption, on Cloudflare only of a record
  with gpm's comment. So adopting a record never gives the right to delete it, and a claim is not moved to a new target before the
  backend confirmed it.\<close>

theorem dns_claims_honest:
  "(let apex = apex_of (ps_ApexTarget pconf); st = readPiholeState entries in
    case syncPihole cfg pconf (Some entries) answers owned of (_, live, sent) \<Rightarrow>
      honest (pihole_backend apex st) (desiredDomains cfg LanDirect apex) (pihole_present st) apex (\<lambda>_. True) owned live sent) \<and>
   (let apex = apex_of (cf_ApexTarget cconf); st = cloudflare_state zone in
    case syncCloudflare cfg cconf (Some zone) answers owned of (_, live, sent) \<Rightarrow>
      honest (cloudflare_backend apex (cf_Proxied cconf) st) (desiredDomains cfg PublicCname apex) (cloudflare_present st) apex
        (\<lambda>n. \<exists>r. map_of st n = Some r \<and> cfr_Comment r = ManagedComment) owned live sent) \<and>
   (case syncPihole cfg pconf None answers owned of (_, live, sent) \<Rightarrow> live = owned \<and> sent = []) \<and>
   (case syncCloudflare cfg cconf None answers owned of (_, live, sent) \<Rightarrow> live = owned \<and> sent = [])"
proof -
  have m: "(\<lambda>n. \<exists>r. map_of st n = Some r \<and> cfr_Comment r = ManagedComment) = cloudflare_mark st" for st
    by (auto simp: cloudflare_mark_def fun_eq_iff split: option.splits)
  show ?thesis
    using carry_out_honest [OF _ backends_ok(1)] carry_out_honest [OF _ backends_ok(2)]
    by (auto simp: syncPihole_def syncCloudflare_def piholeDecisions_def cloudflareDecisions_def m Let_def split: prod.splits)
qed

section \<open>A finished run leaves nothing to do\<close>

text \<open>A reconcile is a fixpoint. After a run all of whose writes landed, with the records it created, replaced and deleted in place and
  marked as gpm's, a reconcile with the ledger it ended with creates, adopts, replaces and deletes nothing and keeps every claim.\<close>

theorem dns_sync_fixpoint:
  fixes wanted present apex owned mark
  defines "d \<equiv> dns_decide wanted present apex owned mark"
  assumes "\<forall>n. map_of present' n =
      (if n \<in> set (d_del d) then None else if n \<in> set (d_create d) \<union> set (d_retarget d) then Some apex else map_of present n)"
    and "\<forall>n. n \<notin> set (d_create d) \<union> set (d_retarget d) \<longrightarrow> mark' n = mark n"
  shows "d_create (dns_decide wanted present' apex (d_owned d) mark') = [] \<and> d_adopt (dns_decide wanted present' apex (d_owned d) mark') = [] \<and>
    d_retarget (dns_decide wanted present' apex (d_owned d) mark') = [] \<and> d_del (dns_decide wanted present' apex (d_owned d) mark') = [] \<and>
    map_of (d_owned (dns_decide wanted present' apex (d_owned d) mark')) = map_of (d_owned d)"
proof -
  note D = decide_simps [of wanted present apex owned mark, folded d_def]
  have o: "map_of (d_owned d) n = (if n \<in> set wanted then claim_after present apex owned mark n else None)" for n by (rule D(5))
  have del: "n \<notin> set (d_del d)" if "n \<in> set wanted" for n using that by (auto simp: D(4) stale_names_def)
  have p: "map_of present' n = (if map_of present n = None \<or> own_record present owned mark n then Some apex else map_of present n)"
    if "n \<in> set wanted" for n
  proof -
    have "n \<in> set (d_create d) \<union> set (d_retarget d) \<longleftrightarrow>
        map_of present n = None \<or> own_record present owned mark n \<and> map_of present n \<noteq> Some apex"
      using that by (auto simp: D(1,3))
    then show ?thesis using assms(2) del [OF that] by auto
  qed
  have m: "mark' n = mark n" if "n \<in> set wanted" "map_of present n \<noteq> None" "\<not> own_record present owned mark n" for n
    using assms(3) that by (auto simp: D(1,3))
  have k: "claim_after present' apex (d_owned d) mark' n = claim_after present apex owned mark n" if "n \<in> set wanted" for n
    using that p [OF that] m [OF that] o [of n]
    by (cases "map_of present n"; cases "map_of owned n")
      (auto simp: claim_after_def own_record_def created_claim_def adopted_claim_def split: if_splits)
  show ?thesis
  proof (intro conjI ext)
    let ?e = "dns_decide wanted present' apex (d_owned d) mark'"
    note E = decide_simps [of wanted present' apex "d_owned d" mark']
    show "d_create ?e = []" using p by (auto simp: E(1) filter_empty_conv)
    show "map_of (d_owned ?e) n = map_of (d_owned d) n" for n by (simp add: E(5) o k)
    have s: "stale_names wanted (d_owned d) = []" by (auto simp: stale_names_def filter_empty_conv o split: if_splits)
    then show "d_del ?e = []" by (simp add: E(4))
    show "d_adopt ?e = []"
      using p m o by (auto simp: E(2) filter_empty_conv claim_after_def own_record_def split: option.splits if_splits)
    show "d_retarget ?e = []"
      using p o by (auto simp: E(3) filter_empty_conv claim_after_def own_record_def created_claim_def adopted_claim_def split: option.splits if_splits)
  qed
qed

section \<open>The ledger\<close>

definition mergeLedgerEntries :: "dns_ledger_entry list \<Rightarrow> dns_ledger_entry list \<Rightarrow> dns_ledger_entry list \<Rightarrow> dns_ledger_entry list" where
  "mergeLedgerEntries base current nxt =
     filter (\<lambda>e. \<not> (map_of (DNSLedgerMap base) (normaliseDomain (le_Domain e)) \<noteq> None \<and>
       map_of (DNSLedgerMap current) (normaliseDomain (le_Domain e)) = None)) nxt"

definition mergeLedgers :: "dns_ledger \<Rightarrow> dns_ledger \<Rightarrow> dns_ledger \<Rightarrow> dns_ledger" where
  "mergeLedgers base current nxt =
     \<lparr>dl_Pihole = mergeLedgerEntries (dl_Pihole base) (dl_Pihole current) (dl_Pihole nxt),
      dl_Cloudflare = mergeLedgerEntries (dl_Cloudflare base) (dl_Cloudflare current) (dl_Cloudflare nxt)\<rparr>"

text \<open>\<open>saveLedger\<close> over the two operations of the interface \<open>Ledger\<close>.\<close>

definition saveLedger ::
  "('s \<Rightarrow> (dns_ledger \<times> string) option) \<Rightarrow> (dns_ledger \<Rightarrow> string \<Rightarrow> 's \<Rightarrow> bool \<times> 's) \<Rightarrow> dns_ledger \<Rightarrow> dns_ledger \<Rightarrow> string \<Rightarrow> 's \<Rightarrow> bool \<times> 's" where
  "saveLedger load put base nxt rv s =
     (case put nxt rv s of
        (True, s1) \<Rightarrow> (True, s1)
      | (False, s1) \<Rightarrow>
          (case load s1 of
             None \<Rightarrow> (False, s1)
           | Some (current, curRev) \<Rightarrow> if curRev = rv then (False, s1) else put (mergeLedgers base current nxt) curRev s1))"

locale ledger_store =
  fixes load :: "'s \<Rightarrow> (dns_ledger \<times> string) option"
    and put :: "dns_ledger \<Rightarrow> string \<Rightarrow> 's \<Rightarrow> bool \<times> 's"
    and ok :: "'s \<Rightarrow> bool"
  assumes put_loads: "ok s \<Longrightarrow> put l rv s = (True, s') \<Longrightarrow> \<exists>rv'. load s' = Some (l, rv')"
    and put_stale: "load s = Some (c, cur) \<Longrightarrow> rv \<noteq> [] \<Longrightarrow> cur \<noteq> rv \<Longrightarrow> put l rv s = (False, s)"
begin

text \<open>What is stored when the ledger moved on under a run: claims of the run only, and none that was withdrawn meanwhile.\<close>

lemma moved_ledger:
  assumes "ok s" "load s = Some (current, cur)" "rv \<noteq> []" "cur \<noteq> rv" "saveLedger load put base nxt rv s = (True, s')"
  shows "\<exists>rv'. load s' = Some (mergeLedgers base current nxt, rv')"
  using assms(5) put_stale [OF assms(2-4)] put_loads [OF assms(1)] assms(2,4) by (auto simp: saveLedger_def)

end

definition store_load :: "store \<Rightarrow> (dns_ledger \<times> string) option" where
  "store_load s = (case LoadDNSLedger s of Inl _ \<Rightarrow> None | Inr r \<Rightarrow> Some r)"

definition store_put :: "io \<Rightarrow> dns_ledger \<Rightarrow> string \<Rightarrow> store \<Rightarrow> bool \<times> store" where
  "store_put io l rv s = (case SaveDNSLedger io l rv s of (Inl _, s') \<Rightarrow> (False, s') | (Inr _, s') \<Rightarrow> (True, s'))"

lemma store_put_loads:
  assumes "store_put io l rv s = (True, s')"
  shows "\<exists>rv'. store_load s' = Some (l, rv')"
proof -
  obtain x where x: "SaveDNSLedger io l rv s = (Inr x, s')"
    using assms by (auto simp: store_put_def split: prod.splits sum.splits)
  then have v: "validate_dns_ledger l = None" by (auto simp: SaveDNSLedger_def save_ledger_def split: option.splits)
  have "CommitAll io (s\<lparr>cs_tree := tree_put (cs_tree s) dnsLedgerFile (DnsLedgerDoc l)\<rparr>) = (Inr x, s')"
    using x by (auto simp: SaveDNSLedger_def save_ledger_def v writeYAML_def split: if_splits)
  then have t: "cs_tree s' = tree_put (cs_tree s) dnsLedgerFile (DnsLedgerDoc l)" by (auto simp: CommitAll_def split: if_splits)
  have "map_of (tree_put t p d) p = Some d" for t p d by (induction t p d rule: tree_put.induct) auto
  then show ?thesis using v by (simp add: store_load_def LoadDNSLedger_def t)
qed

interpretation cs: ledger_store store_load "store_put io" "\<lambda>_. True"
proof
  fix s l rv s' assume "store_put io l rv s = (True, s')"
  then show "\<exists>rv'. store_load s' = Some (l, rv')" by (rule store_put_loads)
next
  fix s c cur rv l assume a: "store_load s = Some (c, cur)" "rv \<noteq> []" "cur \<noteq> rv"
  then have "git_Head s = cur"
    by (auto simp: store_load_def LoadDNSLedger_def split: sum.splits option.splits doc.splits)
  then show "store_put io l rv s = (False, s)"
    using a by (auto simp: store_put_def SaveDNSLedger_def save_ledger_def split: option.split)
qed

text \<open>C14: a claim that a revert withdrew while a reconcile ran does not come back. When the store moved on since the ledger
  was read and the run's ledger is saved all the same, what the store then holds are claims of the run only, and of
  a name that the run had read a claim for only if that claim is still there at the time of the save.\<close>

theorem withdrawn_claims_stay_withdrawn:
  assumes "LoadDNSLedger s = Inr (current, cur)" "rv \<noteq> []" "cur \<noteq> rv"
    and "saveLedger store_load (store_put io) base nxt rv s = (True, s')"
  shows "\<exists>l rv'. LoadDNSLedger s' = Inr (l, rv') \<and> set (dl_Pihole l) \<subseteq> set (dl_Pihole nxt) \<and> set (dl_Cloudflare l) \<subseteq> set (dl_Cloudflare nxt) \<and>
    (\<forall>e \<in> set (dl_Pihole l). map_of (DNSLedgerMap (dl_Pihole base)) (normaliseDomain (le_Domain e)) \<noteq> None \<longrightarrow>
       map_of (DNSLedgerMap (dl_Pihole current)) (normaliseDomain (le_Domain e)) \<noteq> None) \<and>
    (\<forall>e \<in> set (dl_Cloudflare l). map_of (DNSLedgerMap (dl_Cloudflare base)) (normaliseDomain (le_Domain e)) \<noteq> None \<longrightarrow>
       map_of (DNSLedgerMap (dl_Cloudflare current)) (normaliseDomain (le_Domain e)) \<noteq> None)"
proof -
  have "store_load s = Some (current, cur)" using assms(1) by (simp add: store_load_def)
  from cs.moved_ledger [OF _ this assms(2-4)] obtain rv' where "store_load s' = Some (mergeLedgers base current nxt, rv')" by blast
  then have "LoadDNSLedger s' = Inr (mergeLedgers base current nxt, rv')" by (auto simp: store_load_def split: sum.splits)
  then show ?thesis
    by (intro exI [of _ "mergeLedgers base current nxt"] exI [of _ rv']) (auto simp: mergeLedgers_def mergeLedgerEntries_def)
qed

section \<open>A reconcile\<close>

record sync_status =
  sy_LastRun :: int
  sy_LastSuccess :: int
  sy_Error :: bool
  sy_Pihole :: "backend_status option"
  sy_Cloudflare :: "backend_status option"

record dns_world =
  dw_Pihole :: "string list option"
  dw_PiholeAnswers :: "bool list"
  dw_Cloudflare :: "cf_record list option"
  dw_CloudflareAnswers :: "bool list"

definition backend_clean :: "backend_status option \<Rightarrow> bool" where
  "backend_clean b = (case b of None \<Rightarrow> True | Some st \<Rightarrow> bs_OK st)"

definition ledgerEqual :: "dns_ledger \<Rightarrow> dns_ledger \<Rightarrow> bool" where
  "ledgerEqual a b \<longleftrightarrow> DNSLedgerEntriesEqual (dl_Pihole a) (dl_Pihole b) \<and> DNSLedgerEntriesEqual (dl_Cloudflare a) (dl_Cloudflare b)"

text \<open>The status of a disabled backend is \<open>None\<close>. The configuration is what the loader returned.\<close>

definition reconcileLocked ::
  "('s \<Rightarrow> (dns_ledger \<times> string) option) \<Rightarrow> (dns_ledger \<Rightarrow> string \<Rightarrow> 's \<Rightarrow> bool \<times> 's) \<Rightarrow> int \<Rightarrow> (gpm_config \<times> gpm_settings) option \<Rightarrow> dns_world \<Rightarrow>
   int \<Rightarrow> 's \<Rightarrow> sync_status \<times> 's \<times> (dns_write \<times> bool) list" where
  "reconcileLocked load put now loaded w lastSuccess s =
     (let failed = \<lparr>sy_LastRun = now, sy_LastSuccess = lastSuccess, sy_Error = True, sy_Pihole = None, sy_Cloudflare = None\<rparr> in
      case loaded of
        None \<Rightarrow> (failed, s, [])
      | Some (cfg, st) \<Rightarrow>
          (case load s of
             None \<Rightarrow> (failed, s, [])
           | Some (ledger, rv) \<Rightarrow>
               (let (pst, pown, psent) = syncPihole cfg (gs_Pihole st) (dw_Pihole w) (dw_PiholeAnswers w) (DNSLedgerMap (dl_Pihole ledger));
                    (cst, cown, csent) =
                      syncCloudflare cfg (gs_Cloudflare st) (dw_Cloudflare w) (dw_CloudflareAnswers w) (DNSLedgerMap (dl_Cloudflare ledger));
                    pon = ps_Enabled (gs_Pihole st); con = cf_Enabled (gs_Cloudflare st);
                    nxt = \<lparr>dl_Pihole = if pon then DNSLedgerEntries pown else dl_Pihole ledger,
                      dl_Cloudflare = if con then DNSLedgerEntries cown else dl_Cloudflare ledger\<rparr>;
                    (saved, s') = (if ledgerEqual ledger nxt then (True, s) else saveLedger load put ledger nxt rv s);
                    pb = (if pon then Some pst else None); cb = (if con then Some cst else None)
                in (\<lparr>sy_LastRun = now,
                      sy_LastSuccess = if saved \<and> backend_clean pb \<and> backend_clean cb then now else lastSuccess,
                      sy_Error = \<not> saved, sy_Pihole = pb, sy_Cloudflare = cb\<rparr>,
                    s', (if pon then psent else []) @ (if con then csent else [])))))"

lemma reconcile_disabled:
  assumes "load s = Some (ledger, rv)" "\<not> ps_Enabled (gs_Pihole st)" "\<not> cf_Enabled (gs_Cloudflare st)"
  shows "snd (reconcileLocked load put now (Some (cfg, st)) w lastSuccess s) = (s, [])"
  using assms by (auto simp: reconcileLocked_def Let_def ledgerEqual_def DNSLedgerEntriesEqual_eq split: prod.split)

section \<open>Triggers\<close>

text \<open>The gate of the trigger, with the drain goroutine's position and, to state what a trigger is for, the version of the configuration,
  the version at the last trigger, the version when the last run of the loop started, and the version the last run that could load read.\<close>

datatype drain_pc = Idle | Ready | Busy

record trigger_gate =
  tg_running :: bool
  tg_queued :: bool
  tg_pc :: drain_pc
  tg_version :: nat
  tg_asked :: nat
  tg_ran :: nat
  tg_loaded :: nat

definition new_gate :: trigger_gate where
  "new_gate = \<lparr>tg_running = False, tg_queued = False, tg_pc = Idle, tg_version = 0, tg_asked = 0, tg_ran = 0, tg_loaded = 0\<rparr>"

definition Trigger :: "trigger_gate \<Rightarrow> trigger_gate" where
  "Trigger g =
     (let g' = g\<lparr>tg_asked := tg_version g\<rparr> in
      if tg_running g then g'\<lparr>tg_queued := True\<rparr> else g'\<lparr>tg_running := True, tg_pc := Ready\<rparr>)"

text \<open>One step of \<open>drain\<close>: a reconcile runs, which loads the configuration or fails to and is then only logged, or it is over and
  the queue is looked at. The first argument says whether a load of this step works.\<close>

definition drain :: "bool \<Rightarrow> trigger_gate \<Rightarrow> trigger_gate" where
  "drain loads g =
     (case tg_pc g of
        Idle \<Rightarrow> g
      | Ready \<Rightarrow> g\<lparr>tg_ran := tg_version g, tg_loaded := (if loads then tg_version g else tg_loaded g), tg_pc := Busy\<rparr>
      | Busy \<Rightarrow> if tg_queued g then g\<lparr>tg_queued := False, tg_pc := Ready\<rparr> else g\<lparr>tg_running := False, tg_pc := Idle\<rparr>)"

inductive trigger_step :: "trigger_gate \<Rightarrow> trigger_gate \<Rightarrow> bool" where
  step_write: "trigger_step g (g\<lparr>tg_version := tg_version g + 1\<rparr>)"
| step_trigger: "trigger_step g (Trigger g)"
| step_drain: "trigger_step g (drain loads g)"

inductive trigger_reachable :: "trigger_gate \<Rightarrow> bool" where
  gate_new: "trigger_reachable new_gate"
| trigger_next: "trigger_reachable g \<Longrightarrow> trigger_step g g' \<Longrightarrow> trigger_reachable g'"

inductive_cases trigger_stepE: "trigger_step g g'"

definition trigger_inv :: "trigger_gate \<Rightarrow> bool" where
  "trigger_inv g \<longleftrightarrow>
     (tg_running g \<longleftrightarrow> tg_pc g \<noteq> Idle) \<and> (tg_queued g \<longrightarrow> tg_running g) \<and> tg_asked g \<le> tg_version g \<and> tg_ran g \<le> tg_version g \<and>
     (tg_asked g \<le> tg_ran g \<or> tg_pc g = Ready \<or> tg_queued g)"

lemma trigger_step_inv: "trigger_step g g' \<Longrightarrow> trigger_inv g \<Longrightarrow> trigger_inv g'"
  by (erule trigger_stepE) (auto simp: trigger_inv_def Trigger_def drain_def Let_def split: drain_pc.splits)

lemma trigger_reachable_inv: "trigger_reachable g \<Longrightarrow> trigger_inv g"
proof (induction rule: trigger_reachable.induct)
  case gate_new
  show ?case by (simp add: trigger_inv_def new_gate_def)
next
  case (trigger_next g g')
  then show ?case using trigger_step_inv by blast
qed

text \<open>The rest of the loop, once no trigger comes any more, while writes go on: the loads of its steps and the versions they find.\<close>

definition drains :: "(bool \<times> nat) list \<Rightarrow> trigger_gate \<Rightarrow> trigger_gate" where
  "drains rounds g = foldl (\<lambda>g (loads, k). drain loads (g\<lparr>tg_version := tg_version g + k\<rparr>)) g rounds"



section \<open>Examples\<close>

definition demo_owned :: claim_map where
  "demo_owned = [(''old.ex.com'', created_claim ''edge.ex.com''), (''hand.ex.com'', adopted_claim ''edge.ex.com'')]"

definition demo_present :: present where
  "demo_present = [(''old.ex.com'', ''edge.ex.com''), (''hand.ex.com'', ''edge.ex.com''), (''nas.ex.com'', ''edge.ex.com'')]"

text \<open>One name created, a stale record of gpm's own deleted, the adopted and the foreign one left alone; then nothing more.\<close>

theorem dns_sync_fixpoint_witness:
  "let d = dns_decide [''app.ex.com''] demo_present ''edge.ex.com'' demo_owned (\<lambda>_. True);
       d' = dns_decide [''app.ex.com''] [(''hand.ex.com'', ''edge.ex.com''), (''nas.ex.com'', ''edge.ex.com''), (''app.ex.com'', ''edge.ex.com'')]
         ''edge.ex.com'' (d_owned d) (\<lambda>_. True)
   in d_create d = [''app.ex.com''] \<and> d_del d = [''old.ex.com''] \<and> d_create d' = [] \<and> d_del d' = []"
proof -
  let ?d = "dns_decide [''app.ex.com''] demo_present ''edge.ex.com'' demo_owned (\<lambda>_. True)"
  let ?p = "[(''hand.ex.com'', ''edge.ex.com''), (''nas.ex.com'', ''edge.ex.com''), (''app.ex.com'', ''edge.ex.com'')]"
  have d: "d_create ?d = [''app.ex.com'']" "d_retarget ?d = []" "d_del ?d = [''old.ex.com'']" by code_simp+
  have "\<forall>n. map_of ?p n = (if n \<in> set (d_del ?d) then None else if n \<in> set (d_create ?d) \<union> set (d_retarget ?d) then Some ''edge.ex.com''
      else map_of demo_present n)"
    unfolding d by (simp add: demo_present_def)
  from dns_sync_fixpoint [OF this, of "\<lambda>_. True"] show ?thesis using d by (simp add: Let_def)
qed

text \<open>A revert to a commit without the ledger while a run holds a claim for one name and creates another.\<close>

definition entry_for :: "string \<Rightarrow> dns_ledger_entry" where
  "entry_for n = \<lparr>le_Domain = n, le_Target = ''edge.ex.com'', le_Adopted = Some False\<rparr>"

definition ledger_for :: "string list \<Rightarrow> dns_ledger" where
  "ledger_for ns = \<lparr>dl_Pihole = map entry_for ns, dl_Cloudflare = []\<rparr>"

definition reverted_store :: store where "reverted_store = \<lparr>cs_tree = [], cs_log = [(''h2'', [])]\<rparr>"

definition ledger_io :: io where
  "ledger_io = \<lparr>io_now = 0, io_hash = ''h3'', io_geo = None, io_write = (\<lambda>_. True), io_plain = (\<lambda>_. Done), io_remove = (\<lambda>_. True),
     io_undo = (\<lambda>_. Done), io_status = True, io_stage = True, io_commit = True, io_head = True, io_head_after = True, io_restore = Restored,
     io_rollback = Restored, io_spare = (\<lambda>_. 0)\<rparr>"

theorem withdrawn_claims_stay_withdrawn_witness:
  "\<exists>l rv. LoadDNSLedger (snd (saveLedger store_load (store_put ledger_io) (ledger_for [''a.ex.com'']) (ledger_for [''a.ex.com'', ''b.ex.com'']) ''h1''
      reverted_store)) = Inr (l, rv) \<and> entry_for ''a.ex.com'' \<notin> set (dl_Pihole l)"
proof -
  let ?r = "saveLedger store_load (store_put ledger_io) (ledger_for [''a.ex.com'']) (ledger_for [''a.ex.com'', ''b.ex.com'']) ''h1'' reverted_store"
  have l: "LoadDNSLedger reverted_store = Inr (ledger_for [], ''h2'')"
    by (simp add: LoadDNSLedger_def reverted_store_def ledger_for_def git_Head_def)
  have ld: "store_load reverted_store = Some (ledger_for [], ''h2'')" by (simp add: store_load_def l)
  have p1: "store_put ledger_io (ledger_for [''a.ex.com'', ''b.ex.com'']) ''h1'' reverted_store = (False, reverted_store)"
    by (rule cs.put_stale [OF ld]) simp_all
  have "mergeLedgers (ledger_for [''a.ex.com'']) (ledger_for []) (ledger_for [''a.ex.com'', ''b.ex.com'']) = ledger_for [''b.ex.com'']"
    "validate_dns_ledger (ledger_for [''b.ex.com'']) = None" by code_simp+
  then have "fst ?r"
    by (simp add: saveLedger_def p1 ld)
      (simp add: store_put_def SaveDNSLedger_def save_ledger_def reverted_store_def git_Head_def writeYAML_def ledger_io_def CommitAll_def
        IsClean_def head_tree_def)
  then have s: "?r = (True, snd ?r)" by (simp add: prod_eq_iff)
  have a: "map_of (DNSLedgerMap (dl_Pihole (ledger_for [''a.ex.com'']))) (normaliseDomain (le_Domain (entry_for ''a.ex.com''))) \<noteq> None"
    "map_of (DNSLedgerMap (dl_Pihole (ledger_for []))) (normaliseDomain (le_Domain (entry_for ''a.ex.com''))) = None"
    by code_simp+
  have "''h1'' \<noteq> []" "''h2'' \<noteq> ''h1''" by simp_all
  from withdrawn_claims_stay_withdrawn [OF l this s] a show ?thesis by blast
qed

end
