(* ===== verification/Spec2Isabelle.thy ===== *)
theory Spec2Isabelle
  imports Router Udp_Sessions Store_Examples Dns_Sync
begin

text \<open>
  A verification of the decision logic of the go-proxy-manager reverse proxy.

  The program. A data plane (\<open>internal/dataplane\<close>) serves requests: it derives the client's address from
  the TCP peer and \<open>X-Forwarded-For\<close> (\<open>internal/clientip\<close>), cleans the path and finds the location,
  runs the host's chain (access lists, basic auth, rewrites), and forwards to one upstream or to an
  upstream group with health checks and failover. A control plane keeps the configuration
  (\<open>internal/model\<close>, validated before it is written), authenticates administrators (\<open>internal/auth\<close>), and
  lets discovery sources (\<open>internal/k8s\<close>, \<open>internal/docker\<close>, sharing \<open>internal/discovery\<close>) write proxy
  hosts.

  The theories.
  \<^item> \<open>Go_Prelude\<close>: what the code uses of Go's strings, slices, maps and sorts, and the shared lemmas.
  \<^item> \<open>Go_Net\<close>: addresses, networks, \<open>net.ParseIP\<close>, \<open>net.ParseCIDR\<close>, \<open>net.IP.String\<close>, \<open>SplitHostPort\<close>.
  \<^item> \<open>Http_Request\<close>: requests, headers, handlers.
  \<^item> \<open>Client_IP\<close>: \<open>clientip.go\<close> of both packages.
  \<^item> \<open>Url_Path\<close>: path cleaning, host keys, locations, rewrites, upstream base paths
    (\<open>router.go\<close>, \<open>proxy.go\<close>, \<open>rewrite.go\<close>).
  \<^item> \<open>Failure_Gate\<close>: the two failure throttles (\<open>authGate\<close> of \<open>accesslist.go\<close>, \<open>rateGate\<close> of
    \<open>authenticator.go\<close>), one interface, two providers.
  \<^item> \<open>Basic_Auth\<close>: the \<open>Authorization\<close> header, credential check, throttled gate, validation.
  \<^item> \<open>Access_List\<close>: rules, countries, fetched sources, evaluation, the handler.
  \<^item> \<open>Upstream_Order\<close>, \<open>Upstream_Group\<close>: health markers, the four distribution policies, failover, the
    probe-loop manager (\<open>upstreamgroup.go\<close>).
  \<^item> \<open>Discovery\<close>: the planner and what its two sources share.

  Effects. A clock is an argument (\<open>now\<close>, in nanoseconds); shared maps guarded by a mutex are records
  threaded through the operations, and theorems about concurrent callers quantify over every sequence
  of operations. Third-party code is an argument: bcrypt's comparison, the regular expressions of
  rewrite rules, the country database, the network. Errors are values of option types or of error
  datatypes with one constructor per message.

  Bounds. Every loop of the modelled code is a structural recursion or a fold; nothing uses fuel.

  Not modelled: the HTTP and TLS servers, certificate issue, persistence, the administration API and its
  user interface, metrics, notifications and log lines.
\<close>

end
